(* ===== verification/Prelude.thy ===== *)
theory Prelude
  imports Main "HOL-Library.Word" "HOL-Library.Monad_Syntax"
begin

unbundle bit_operations_syntax

text \<open>
  Vocabulary shared by every component: machine integer types, checked access to byte
  memory, the most-significant-bit-first view of a byte sequence, and the automation
  collections. An access outside an allocation is undefined behaviour in C++; it is the
  value \<open>None\<close> of the memory operations below, so a theorem that says an operation
  returns \<open>Some\<close> also says that it stays inside its buffers.
\<close>

section \<open>Machine types and collections of facts\<close>

type_synonym byte = "8 word"
type_synonym u16 = "16 word"
type_synonym u32 = "32 word"
type_synonym u64 = "64 word"

named_theorems mem_simps "checked memory access"
named_theorems stream_simps "bit streams of buffers"

section \<open>Checked byte memory\<close>

definition peek :: "byte list \<Rightarrow> nat \<Rightarrow> byte option" where
  "peek m i = (if i < length m then Some (m ! i) else None)"

definition poke :: "byte list \<Rightarrow> nat \<Rightarrow> byte \<Rightarrow> byte list option" where
  "poke m i b = (if i < length m then Some (m[i := b]) else None)"

text \<open>\<open>memcpy (dst + off, src, n)\<close> on separate regions: both ranges must exist.\<close>

definition copy_into :: "byte list \<Rightarrow> nat \<Rightarrow> byte list \<Rightarrow> nat \<Rightarrow> byte list option" where
  "copy_into dst off src n =
     (if off + n \<le> length dst \<and> n \<le> length src
      then Some (take off dst @ take n src @ drop (off + n) dst) else None)"

lemma peek_Some [mem_simps]: "i < length m \<Longrightarrow> peek m i = Some (m ! i)"
  by (simp add: peek_def)

lemma peek_None [mem_simps]: "length m \<le> i \<Longrightarrow> peek m i = None"
  by (simp add: peek_def)

lemma poke_Some [mem_simps]: "i < length m \<Longrightarrow> poke m i b = Some (m[i := b])"
  by (simp add: poke_def)

lemma poke_None [mem_simps]: "length m \<le> i \<Longrightarrow> poke m i b = None"
  by (simp add: poke_def)

lemma poke_length: "poke m i b = Some m' \<Longrightarrow> length m' = length m"
  by (auto simp: poke_def split: if_splits)

lemma copy_into_length: "copy_into dst off src n = Some dst' \<Longrightarrow> length dst' = length dst"
  by (auto simp: copy_into_def split: if_splits)

section \<open>Loops that send\<close>

text \<open>A loop over a list whose body changes the component and may send.\<close>

fun each :: "('x \<Rightarrow> 's \<Rightarrow> ('s \<times> 'e list) option) \<Rightarrow> 'x list \<Rightarrow> 's \<Rightarrow> ('s \<times> 'e list) option" where
  "each f [] s = Some (s, [])"
| "each f (x # xs) s = do {
     (s, out) \<leftarrow> f x s;
     (s, out') \<leftarrow> each f xs s;
     Some (s, out @ out') }"

lemma each_invariant:
  assumes "\<And>x s s' out. f x s = Some (s', out) \<Longrightarrow> P s \<Longrightarrow> P s'"
  shows "each f xs s = Some (s', out) \<Longrightarrow> P s \<Longrightarrow> P s'"
proof (induction xs arbitrary: s out)
  case (Cons x xs)
  then obtain s1 out1 out2 where 1: "f x s = Some (s1, out1)" "each f xs s1 = Some (s', out2)"
    by (auto split: bind_splits)
  then show ?case using Cons.IH[OF 1(2) assms[OF 1(1)]] Cons.prems(2) by blast
qed simp

section \<open>Bits of a byte sequence, most significant bit first\<close>

text \<open>\<open>bit_at d k\<close> is bit \<open>k\<close> of the sequence; bit 0 is the top bit of the first byte.\<close>

definition bit_at :: "byte list \<Rightarrow> nat \<Rightarrow> bool" where
  "bit_at d k = bit (d ! (k div 8)) (7 - k mod 8)"

lemma bit_at_byte: "u < 8 \<Longrightarrow> bit_at d (8 * j + u) = bit (d ! j) (7 - u)"
  by (simp add: bit_at_def)

lemma bit_byte: "t < 8 \<Longrightarrow> bit (d ! j) t = bit_at d (8 * j + (7 - t))" for d :: "byte list"
  by (subst bit_at_byte) simp_all

lemma bit_at_list_update:
  assumes "j < length d"
  shows "bit_at (d[j := b]) k = (if k div 8 = j then bit b (7 - k mod 8) else bit_at d k)"
  using assms by (simp add: bit_at_def)

lemma bit_at_inject:
  assumes "length d = length e" and "\<And>k. k < 8 * length d \<Longrightarrow> bit_at d k = bit_at e k"
  shows "d = e"
proof (rule nth_equalityI[OF assms(1)])
  fix j assume j: "j < length d"
  show "d ! j = e ! j"
  proof (rule bit_word_eqI)
    fix t assume "t < LENGTH(8)"
    then show "bit (d ! j) t = bit (e ! j) t"
      using j assms(2)[of "8 * j + (7 - t)"] by (simp add: bit_byte)
  qed
qed

subsection \<open>Words as bit lists\<close>

text \<open>The low \<open>n\<close> bits of a word, top bit first, and the word a bit list denotes.\<close>

definition word_bits :: "nat \<Rightarrow> 'a::len word \<Rightarrow> bool list" where
  "word_bits n w = map (\<lambda>i. bit w (n - 1 - i)) [0..<n]"

definition bits_word :: "bool list \<Rightarrow> 'a::len word" where
  "bits_word bs = horner_sum of_bool 2 (rev bs)"

lemma length_word_bits [simp]: "length (word_bits n w) = n"
  by (simp add: word_bits_def)

lemma nth_word_bits [simp]: "i < n \<Longrightarrow> word_bits n w ! i = bit w (n - 1 - i)"
  by (simp add: word_bits_def)

lemma bit_bits_word:
  "bit (bits_word bs :: 'a::len word) i =
     (i < LENGTH('a) \<and> i < length bs \<and> bs ! (length bs - 1 - i))"
  by (auto simp: bits_word_def bit_horner_sum_bit_word_iff rev_nth)

lemma bits_word_word_bits: "bits_word (word_bits n w) = take_bit n (w :: 'a::len word)"
  by (rule bit_word_eqI) (auto simp: bit_bits_word bit_take_bit_iff)

lemma take_bit_small: "unat w < 2 ^ n \<Longrightarrow> take_bit n w = (w :: 'a::len word)"
  by (metis unsigned_take_bit_eq take_bit_nat_eq_self word_unat_eq_iff)

lemma bits_word_small: "unat w < 2 ^ n \<Longrightarrow> bits_word (word_bits n w) = (w :: 'a::len word)"
  by (simp add: bits_word_word_bits take_bit_small)

definition bytes_bits :: "byte list \<Rightarrow> bool list" where
  "bytes_bits d = map (bit_at d) [0..<8 * length d]"

lemma length_bytes_bits [simp]: "length (bytes_bits d) = 8 * length d"
  by (simp add: bytes_bits_def)

lemma bytes_bits_nth [simp]: "k < 8 * length d \<Longrightarrow> bytes_bits d ! k = bit_at d k"
  by (simp add: bytes_bits_def)

lemma bytes_bits_inject: "bytes_bits d = bytes_bits e \<Longrightarrow> d = e"
proof -
  assume eq: "bytes_bits d = bytes_bits e"
  then have "length (bytes_bits d) = length (bytes_bits e)" by (rule arg_cong)
  then have len: "length d = length e" by simp
  show "d = e"
    by (rule bit_at_inject[OF len]) (metis bytes_bits_nth eq len)
qed

lemma bit_at_append:
  "bit_at (d @ e) k = (if k < 8 * length d then bit_at d k else bit_at e (k - 8 * length d))"
proof (cases "k < 8 * length d")
  case True
  then have "k div 8 < length d" by auto
  with True show ?thesis by (simp add: bit_at_def nth_append)
next
  case False
  then obtain r where "k = 8 * length d + r" using le_Suc_ex not_less by blast
  then show ?thesis by (simp add: bit_at_def nth_append)
qed

lemma bytes_bits_append: "bytes_bits (d @ e) = bytes_bits d @ bytes_bits e"
  by (rule nth_equalityI) (auto simp: nth_append bit_at_append)

end
