(* ===== verification/Message_Buffer.thy ===== *)
theory Message_Buffer
  imports Prelude
begin

unbundle bit_operations_syntax

text \<open>
  The bit buffer \<open>rl::MessageBuffer\<close> of \<open>code/shared/state/RlMessageBuffer.h\<close>, in which
  every event fragment, state bag packet and sync tree is read and written. The reads and
  writes are translated with the code's own shifts and masks on 32-bit words and bytes; the
  lemmas then show that they are the transfer of a run of bits, most significant bit first.
  Indices and bit counts are C++ \<open>int\<close>; they are \<open>nat\<close> here, which agrees with the code for
  buffers below 2 to the 28 bytes (the largest one the callers make has 131071 * 1023 bytes).
  \<open>None\<close> is an access outside a buffer.
\<close>

section \<open>State and constructors\<close>

record msgbuf =
  m_data :: "byte list"
  m_curBit :: nat
  m_maxBit :: nat

definition mb_of_data :: "byte list \<Rightarrow> msgbuf" where
  "mb_of_data data = \<lparr>m_data = data, m_curBit = 0, m_maxBit = length data * 8\<rparr>"

definition mb_of_size :: "nat \<Rightarrow> msgbuf" where
  "mb_of_size n = \<lparr>m_data = replicate n 0, m_curBit = 0, m_maxBit = n * 8\<rparr>"

section \<open>Reading up to 32 bits\<close>

text \<open>
  The \<open>while (remaining > 0)\<close> loop of \<open>ReadBitsSingle\<close>; it returns the next byte index and
  the accumulated value.
\<close>

fun rbs_loop :: "nat \<Rightarrow> nat \<Rightarrow> byte list \<Rightarrow> nat \<Rightarrow> u32 \<Rightarrow> (nat \<times> u32) option" where
  "rbs_loop 0 shift data startIdx retval = Some (startIdx, retval)"
| "rbs_loop (Suc remaining) shift data startIdx retval = do {
     v \<leftarrow> peek data startIdx;
     rbs_loop remaining shift data (startIdx + 1)
       (push_bit shift (ucast v) OR push_bit 8 retval) }"

definition ReadBitsSingle :: "bool \<Rightarrow> nat \<Rightarrow> msgbuf \<Rightarrow> (u32 option \<times> msgbuf) option" where
  "ReadBitsSingle hack length0 b =
     (let len = (if length0 = 13 \<and> hack then 16 else length0);
          startIdx = m_curBit b div 8; shift = m_curBit b mod 8
      in if m_curBit b + len > m_maxBit b
         then Some (None, b\<lparr>m_curBit := m_curBit b + len\<rparr>)
         else do {
           first \<leftarrow> peek (m_data b) startIdx;
           let retval = ucast (push_bit shift first);
           let remaining = (if len > 8 then (len - 9) div 8 + 1 else 0);
           (idx, retval) \<leftarrow> rbs_loop remaining shift (m_data b) (startIdx + 1) retval;
           let leftover = (if idx < length (m_data b) then m_data b ! idx else 0);
           let retval = (if shift \<noteq> 0 then retval OR ucast (drop_bit (8 - shift) leftover) else retval);
           let retval = drop_bit (((len + 7) AND 0xF8) - len) retval;
           Some (Some retval, b\<lparr>m_curBit := m_curBit b + len\<rparr>) })"

definition ReadBit :: "msgbuf \<Rightarrow> byte \<times> msgbuf" where
  "ReadBit b =
     (let startIdx = m_curBit b div 8; shift = 7 - m_curBit b mod 8
      in if startIdx \<ge> length (m_data b) then (0, b)
         else (drop_bit shift (m_data b ! startIdx) AND 1, b\<lparr>m_curBit := m_curBit b + 1\<rparr>))"

section \<open>Writing through a shifted 32-bit window\<close>

text \<open>
  The store sequence that occurs in \<open>WriteBitsSingle\<close> and three times in \<open>CopyBits\<close>: a value
  and a mask, both aligned to the top of a 32-bit word, are merged into the destination at
  bit \<open>s\<close> of byte \<open>idx\<close>, first the byte itself and then \<open>count\<close> following bytes.
\<close>

definition merge_byte :: "u32 \<Rightarrow> u32 \<Rightarrow> byte \<Rightarrow> byte" where
  "merge_byte v mk old = ucast (drop_bit 24 v) OR (old AND NOT (ucast (drop_bit 24 mk)))"

fun put_loop :: "nat \<Rightarrow> u32 \<Rightarrow> u32 \<Rightarrow> byte list \<Rightarrow> nat \<Rightarrow> byte list option" where
  "put_loop 0 v mk dest idx = Some dest"
| "put_loop (Suc count) v mk dest idx = do {
     old \<leftarrow> peek dest idx;
     dest \<leftarrow> poke dest idx (merge_byte v mk old);
     put_loop count (push_bit 8 v) (push_bit 8 mk) dest (idx + 1) }"

definition put_top :: "u32 \<Rightarrow> u32 \<Rightarrow> byte list \<Rightarrow> nat \<Rightarrow> nat \<Rightarrow> nat \<Rightarrow> byte list option" where
  "put_top v mk dest idx s count = do {
     old \<leftarrow> peek dest idx;
     dest \<leftarrow> poke dest idx (merge_byte (drop_bit s v) (drop_bit s mk) old);
     put_loop count (push_bit (8 - s) v) (push_bit (8 - s) mk) dest (idx + 1) }"

text \<open>\<open>(unsigned int)(-1 << (32 - n))\<close>: the top \<open>n\<close> bits set.\<close>

definition top_mask :: "nat \<Rightarrow> u32" where
  "top_mask n = push_bit (32 - n) (- 1)"

definition WriteBitsSingle :: "bool \<Rightarrow> u32 \<Rightarrow> nat \<Rightarrow> msgbuf \<Rightarrow> (bool \<times> msgbuf) option" where
  "WriteBitsSingle hack a2 length0 b =
     (let len = (if length0 = 13 \<and> hack then 16 else length0);
          idx = m_curBit b div 8; s = m_curBit b mod 8
      in if m_curBit b + len > m_maxBit b then Some (False, b)
         else do {
           data \<leftarrow> put_top (push_bit (32 - len) a2) (top_mask len) (m_data b) idx s
             (if 8 - s < len then (len - (8 - s) - 1) div 8 + 1 else 0);
           Some (True, b\<lparr>m_data := data, m_curBit := m_curBit b + len\<rparr>) })"

definition WriteBit :: "byte \<Rightarrow> msgbuf \<Rightarrow> bool \<times> msgbuf" where
  "WriteBit v b =
     (let startIdx = m_curBit b div 8; shift = 7 - m_curBit b mod 8
      in if startIdx \<ge> length (m_data b) then (False, b)
         else (True, b\<lparr>m_data := (m_data b)[startIdx :=
                  (m_data b ! startIdx AND NOT (push_bit shift 1)) OR push_bit shift v],
                m_curBit := m_curBit b + 1\<rparr>))"

section \<open>Copying a run of bits between two byte arrays\<close>

text \<open>
  \<open>CopyBits\<close> is decompiled code. It has four phases: (1) the bits up to the next source byte
  boundary, when the source offset is not a multiple of 8; then, for the \<open>v6\<close> bits that are
  left, either (2a) whole bytes to an unaligned destination, (2b) whole bytes with \<open>memcpy\<close>,
  each followed by (3) the last bits, or (4) fewer than 8 bits directly. In phase 1 the
  decompiled code has \<open>v16 = !(uint32_t)a3\<close> where the comparison beside it uses
  \<open>~(uint32_t)a3\<close>; the model keeps the \<open>!\<close>, which makes the store count enormous.
\<close>

text \<open>Phase 1's number of extra stores, computed with the code's unsigned wrap-around.\<close>

definition phase1_count :: "nat \<Rightarrow> nat \<Rightarrow> nat \<Rightarrow> nat" where
  "phase1_count v8 a3 d =
     (let v16 = (word_of_nat v8 - 9 :: u32);
          v16 = (if v16 < NOT (word_of_nat a3) then (if a3 = 0 then 1 else 0) else v16)
      in unat (drop_bit 3 (word_of_nat d - 10 - v16)) + 1)"

text \<open>
  Phase 2a: each step stores the high bits of the source byte into the byte at \<open>idx\<close> under the
  kept bits \<open>v23\<close>, and its low bits into the byte after it.
\<close>

fun copy_unaligned :: "nat \<Rightarrow> nat \<Rightarrow> byte list \<Rightarrow> nat \<Rightarrow> byte list \<Rightarrow> nat \<Rightarrow> byte \<Rightarrow> byte list option" where
  "copy_unaligned 0 v21 dest idx src si v23 = Some dest"
| "copy_unaligned (Suc v20) v21 dest idx src si v23 = do {
     v29 \<leftarrow> peek dest (idx + 1);
     v30 \<leftarrow> peek src si;
     dest \<leftarrow> poke dest idx (drop_bit v21 v30 OR (push_bit (8 - v21) 255 AND v23));
     let nxt = (push_bit (8 - v21) v30 OR (drop_bit v21 255 AND v29));
     dest \<leftarrow> poke dest (idx + 1) nxt;
     copy_unaligned v20 v21 dest (idx + 1) src (si + 1) nxt }"

text \<open>Phases 3 and 4: the top \<open>n < 8\<close> bits of the source byte at \<open>si\<close>, to bit \<open>p\<close>.\<close>

definition copy_rest :: "nat \<Rightarrow> byte list \<Rightarrow> nat \<Rightarrow> byte list \<Rightarrow> nat \<Rightarrow> byte list option" where
  "copy_rest n dest p src si = do {
     b \<leftarrow> peek src si;
     put_top (push_bit (32 - n) (drop_bit (8 - n) (ucast b))) (top_mask n) dest (p div 8) (p mod 8)
       (if 8 - p mod 8 < n then (n + p mod 8 - 9) div 8 + 1 else 0) }"

definition copy_aligned_source :: "nat \<Rightarrow> byte list \<Rightarrow> nat \<Rightarrow> byte list \<Rightarrow> nat \<Rightarrow> byte list option" where
  "copy_aligned_source v6 dest v5 src v9 =
     (if v6 < 1 then Some dest
      else let v20 = v6 div 8 in
        if v20 \<noteq> 0 then do {
          dest \<leftarrow>
            (if v5 mod 8 \<noteq> 0 then do {
               v23 \<leftarrow> peek dest (v5 div 8);
               copy_unaligned v20 (v5 mod 8) dest (v5 div 8) src v9 v23 }
             else copy_into dest (v5 div 8) (drop v9 src) v20);
          if v6 mod 8 = 0 then Some dest
          else copy_rest (v6 mod 8) dest (v5 + 8 * v20) src (v9 + v20) }
        else copy_rest v6 dest v5 src v9)"

definition CopyBits :: "byte list \<Rightarrow> byte list \<Rightarrow> nat \<Rightarrow> nat \<Rightarrow> nat \<Rightarrow> byte list option" where
  "CopyBits dest src a3 a4 a5 =
     (let v8 = a5 mod 8; v9 = a5 div 8
      in if v8 \<noteq> 0 then do {
           let v10 = (if 8 - v8 > a3 then a3 else 8 - v8);
           b \<leftarrow> peek src v9;
           let v13 = push_bit (32 - v10) (drop_bit (8 - v10) (ucast (push_bit v8 b)));
           dest \<leftarrow> put_top v13 (top_mask v10) dest (a4 div 8) (a4 mod 8)
             (if 8 - a4 mod 8 < v10 then phase1_count v8 a3 (a4 mod 8) else 0);
           copy_aligned_source (a3 - v10) dest (v10 + a4) src (v9 + 1) }
         else copy_aligned_source a3 dest a4 src v9)"

section \<open>The multi-byte transfers and the typed accessors\<close>

text \<open>\<open>ReadBits\<close> returns success, the caller's array and the buffer.\<close>

definition ReadBits :: "bool \<Rightarrow> byte list \<Rightarrow> nat \<Rightarrow> msgbuf \<Rightarrow> (bool \<times> byte list \<times> msgbuf) option" where
  "ReadBits hack dest length0 b =
     (if length0 = 0 then Some (True, dest, b)
      else let len = (if length0 = 13 \<and> hack then 16 else length0) in
        if m_curBit b + len > m_maxBit b then Some (False, dest, b)
        else do {
          dest \<leftarrow> CopyBits dest (m_data b) len 0 (m_curBit b);
          Some (True, dest, b\<lparr>m_curBit := m_curBit b + len\<rparr>) })"

definition WriteBits :: "byte list \<Rightarrow> nat \<Rightarrow> msgbuf \<Rightarrow> (bool \<times> msgbuf) option" where
  "WriteBits src len b =
     (if m_curBit b + len > m_maxBit b then Some (False, b)
      else do {
        data \<leftarrow> CopyBits (m_data b) src len (m_curBit b) 0;
        Some (True, b\<lparr>m_data := data, m_curBit := m_curBit b + len\<rparr>) })"

definition RequireLength :: "nat \<Rightarrow> msgbuf \<Rightarrow> bool" where
  "RequireLength len b = (m_curBit b + len < m_maxBit b)"

text \<open>
  \<open>T Read(int)\<close> ignores the success flag and gives 0 on failure; \<open>bool Read(int, T*)\<close> reports it.
\<close>

definition Read :: "bool \<Rightarrow> nat \<Rightarrow> msgbuf \<Rightarrow> (u32 \<times> msgbuf) option" where
  "Read hack len b = do {
     (r, b) \<leftarrow> ReadBitsSingle hack len b;
     Some (case r of None \<Rightarrow> 0 | Some v \<Rightarrow> v, b) }"

definition Write :: "bool \<Rightarrow> nat \<Rightarrow> u32 \<Rightarrow> msgbuf \<Rightarrow> msgbuf option" where
  "Write hack len v b = do { (_, b) \<leftarrow> WriteBitsSingle hack v len b; Some b }"

definition ReadSigned :: "bool \<Rightarrow> nat \<Rightarrow> msgbuf \<Rightarrow> (u32 \<times> msgbuf) option" where
  "ReadSigned hack len b = do {
     (sign, b) \<leftarrow> Read hack 1 b;
     (data, b) \<leftarrow> Read hack (len - 1) b;
     Some (sign + (data XOR (- sign)), b) }"

definition WriteSigned :: "bool \<Rightarrow> nat \<Rightarrow> u32 \<Rightarrow> msgbuf \<Rightarrow> msgbuf option" where
  "WriteSigned hack len data b = do {
     let sign = (if sint data < 0 then 1 else 0);
     let signEx = (if sint data < 0 then 0xFFFFFFFF else 0);
     b \<leftarrow> Write hack 1 sign b;
     Write hack (len - 1) (data XOR signEx) b }"

definition ReadLong :: "bool \<Rightarrow> nat \<Rightarrow> msgbuf \<Rightarrow> (u64 \<times> msgbuf) option" where
  "ReadLong hack len b =
     (if len \<le> 32 then do { (v, b) \<leftarrow> Read hack len b; Some (ucast v, b) }
      else do {
        (lo, b) \<leftarrow> Read hack 32 b;
        (hi, b) \<leftarrow> Read hack (len - 32) b;
        Some (ucast lo OR push_bit 32 (ucast hi), b) })"

text \<open>
  In \<open>Clone\<close> the conditional operator binds weaker than \<open>+\<close>: the size of the copy is 1
  whenever anything at all is left. A read position past the end makes the length negative:
  \<open>CopyBits\<close> then shifts by more than 32 (undefined) unless the position is byte aligned, and
  otherwise copies nothing and moves the position back to the end.
\<close>

definition Clone :: "bool \<Rightarrow> msgbuf \<Rightarrow> (msgbuf \<times> msgbuf) option" where
  "Clone hack b =
     (if m_curBit b > m_maxBit b then
        (if m_curBit b mod 8 \<noteq> 0 then None
         else let k = m_curBit b - m_maxBit b;
                  c = (if k div 8 = (if k mod 8 \<noteq> 0 then 1 else 0) then 0 else 1)
           in Some (mb_of_data (replicate c 0), b\<lparr>m_curBit := m_maxBit b\<rparr>))
      else let s = m_maxBit b - m_curBit b;
               c = (if s div 8 + (if s mod 8 \<noteq> 0 then 1 else 0) \<noteq> 0 then 1 else 0)
        in do {
          (_, newData, b) \<leftarrow> ReadBits hack (replicate c 0) s b;
          Some (mb_of_data newData, b) })"

definition Align :: "msgbuf \<Rightarrow> msgbuf" where
  "Align b = (let r = m_curBit b mod 8 in
     if r \<noteq> 0 then b\<lparr>m_curBit := m_curBit b + (8 - r)\<rparr> else b)"

definition GetCurrentBit :: "msgbuf \<Rightarrow> nat" where
  "GetCurrentBit b = min (m_curBit b) (m_maxBit b)"

definition SetCurrentBit :: "nat \<Rightarrow> msgbuf \<Rightarrow> msgbuf" where
  "SetCurrentBit bt b = b\<lparr>m_curBit := min bt (m_maxBit b)\<rparr>"

definition IsAtEnd :: "msgbuf \<Rightarrow> bool" where
  "IsAtEnd b = (m_curBit b \<ge> m_maxBit b)"

definition GetLength :: "msgbuf \<Rightarrow> nat" where
  "GetLength b = length (m_data b)"

definition GetDataLength :: "msgbuf \<Rightarrow> nat" where
  "GetDataLength b = m_curBit b div 8 + (if m_curBit b mod 8 \<noteq> 0 then 1 else 0)"

section \<open>What the primitives do to the bits\<close>

definition bits_copied :: "byte list \<Rightarrow> byte list \<Rightarrow> byte list \<Rightarrow> nat \<Rightarrow> nat \<Rightarrow> nat \<Rightarrow> bool" where
  "bits_copied dest dest' src p q n \<longleftrightarrow> length dest' = length dest \<and>
     (\<forall>k < 8 * length dest. bit_at dest' k =
        (if p \<le> k \<and> k < p + n then bit_at src (q + (k - p)) else bit_at dest k))"

lemma bits_copied_0: "bits_copied d d src p q 0"
  by (auto simp: bits_copied_def)

lemma bits_copied_trans:
  assumes "bits_copied d d1 src p q n" and "bits_copied d1 d2 src (p + n) (q + n) m"
  shows "bits_copied d d2 src p q (n + m)"
  using assms by (auto simp: bits_copied_def)

lemma bit_merge_byte:
  "t < 8 \<Longrightarrow> bit (merge_byte v mk old) t = (bit v (24 + t) \<or> bit old t \<and> \<not> bit mk (24 + t))"
  by (auto simp: merge_byte_def bit_or_iff bit_and_iff bit_not_iff bit_ucast_iff bit_drop_bit_eq
      dest: bit_imp_le_length)

text \<open>\<open>window v mk dest p k\<close>: bit \<open>k\<close> after merging a top-aligned window at bit \<open>p\<close>.\<close>

definition window :: "u32 \<Rightarrow> u32 \<Rightarrow> byte list \<Rightarrow> nat \<Rightarrow> nat \<Rightarrow> bool" where
  "window v mk dest p k =
     (if p \<le> k \<and> k < p + 32 then bit v (31 - (k - p)) \<or> bit_at dest k \<and> \<not> bit mk (31 - (k - p))
      else bit_at dest k)"

lemma window_below: "k < p \<Longrightarrow> window v mk d p k = bit_at d k"
  by (simp add: window_def)

lemma window_cong: "bit_at d k = bit_at e k \<Longrightarrow> window v mk d p k = window v mk e p k"
  by (simp add: window_def)

lemma window_push:
  assumes "p + m \<le> k"
  shows "window (push_bit m v) (push_bit m mk) d (p + m) k = window v mk d p k"
proof -
  have shift: "bit (push_bit m w) (31 - (k - (p + m))) = (k < p + 32 \<and> bit w (31 - (k - p)))"
    if "k < p + m + 32" for w :: u32
  proof (cases "k < p + 32")
    case True
    then have "31 - (k - (p + m)) = m + (31 - (k - p))" using assms by simp
    moreover have "m + (31 - (k - p)) < LENGTH(32)" using assms True by simp
    ultimately show ?thesis using True
      by (metis add_diff_cancel_left' bit_push_bit_iff le_add1 possible_bit_word)
  next
    case False
    then have "31 - (k - (p + m)) < m" using that by linarith
    then show ?thesis using False by (metis bit_push_bit_iff leD)
  qed
  show ?thesis
    unfolding window_def using assms shift[of v] shift[of mk]
    by (cases "k < p + 32"; cases "k < p + m + 32") simp_all
qed

lemma window_first_byte:
  assumes "idx < length dest" and "u < 8" and "s < 8"
  shows "bit_at (dest[idx := merge_byte (drop_bit s v) (drop_bit s mk) (dest ! idx)]) (8 * idx + u) =
    window v mk dest (8 * idx + s) (8 * idx + u)"
proof -
  have low: "bit w (s + (24 + (7 - u))) = (s \<le> u \<and> bit w (31 - (u - s)))" for w :: u32
  proof (cases "s \<le> u")
    case True
    then have "s + (24 + (7 - u)) = 31 - (u - s)" using assms(2) by simp
    then have "bit w (s + (24 + (7 - u))) = bit w (31 - (u - s))" by (rule arg_cong)
    with True show ?thesis by blast
  next
    case False
    then have "\<not> s + (24 + (7 - u)) < LENGTH(32)" using assms by simp
    with False show ?thesis by (blast dest: bit_imp_le_length)
  qed
  have "7 - u < 8" by simp
  from bit_merge_byte[OF this, of "drop_bit s v" "drop_bit s mk" "dest ! idx"]
  have "bit (merge_byte (drop_bit s v) (drop_bit s mk) (dest ! idx)) (7 - u) =
      (s \<le> u \<and> bit v (31 - (u - s)) \<or>
       bit (dest ! idx) (7 - u) \<and> \<not> (s \<le> u \<and> bit mk (31 - (u - s))))"
    by (simp only: bit_drop_bit_eq comp_def low)
  then show ?thesis using assms
    by (auto simp: bit_at_list_update window_def bit_at_byte)
qed

lemma bit_at_other_byte: "k div 8 \<noteq> idx \<Longrightarrow> bit_at (dest[idx := b]) k = bit_at dest k"
  by (simp add: bit_at_def)

lemma byte_cases [case_names below inside above]:
  fixes k idx :: nat
  assumes "k < 8 * idx \<Longrightarrow> P" "\<And>u. k = 8 * idx + u \<Longrightarrow> u < 8 \<Longrightarrow> P" "8 * idx + 8 \<le> k \<Longrightarrow> P"
  shows P
proof -
  consider "k < 8 * idx" | "8 * idx \<le> k \<and> k < 8 * idx + 8" | "8 * idx + 8 \<le> k" by linarith
  then show P
  proof cases
    case 2
    then have "k = 8 * idx + (k - 8 * idx)" "k - 8 * idx < 8" by linarith+
    then show P by (rule assms(2))
  qed (fact assms(1), fact assms(3))
qed

text \<open>
  One byte merged through the window, then the following bytes through the window moved on by
  the bits consumed: together the window at the original position.
\<close>

lemma window_step:
  fixes dest idx s v mk
  defines "d1 \<equiv> dest[idx := merge_byte (drop_bit s v) (drop_bit s mk) (dest ! idx)]"
  assumes idx: "idx < length dest" and s: "s < 8"
  shows "(if k div 8 < idx + 1 + count
      then window (push_bit (8 - s) v) (push_bit (8 - s) mk) d1 (8 * (idx + 1)) k else bit_at d1 k) =
    (if k div 8 < idx + 1 + count then window v mk dest (8 * idx + s) k else bit_at dest k)"
proof (cases rule: byte_cases[of k idx])
  case below
  then have "k div 8 < idx" by auto
  with below show ?thesis by (simp add: window_below d1_def bit_at_other_byte)
next
  case (inside u)
  then have "k div 8 < idx + 1 + count" by simp
  with inside show ?thesis
    using window_first_byte[OF idx inside(2) s, of v mk] by (simp add: window_below d1_def)
next
  case above
  then have ne: "k div 8 \<noteq> idx" by auto
  then have same: "bit_at d1 k = bit_at dest k" by (simp add: d1_def bit_at_other_byte)
  have "8 * (idx + 1) = 8 * idx + s + (8 - s)" using s by simp
  then have "window (push_bit (8 - s) v) (push_bit (8 - s) mk) d1 (8 * (idx + 1)) k =
      window v mk d1 (8 * idx + s) k"
    using above s by (simp only:) (rule window_push, simp)
  then show ?thesis using same window_cong[OF same] by simp
qed

lemma put_loop_spec:
  assumes "idx + count \<le> length dest"
  shows "\<exists>d. put_loop count v mk dest idx = Some d \<and> length d = length dest \<and>
    (\<forall>k. bit_at d k = (if k div 8 < idx + count then window v mk dest (8 * idx) k else bit_at dest k))"
  using assms
proof (induction count arbitrary: v mk dest idx)
  case 0
  then show ?case by (auto simp: window_below)
next
  case (Suc count)
  let ?dest = "dest[idx := merge_byte v mk (dest ! idx)]"
  have idx: "idx < length dest" using Suc.prems by simp
  obtain d where d: "put_loop count (push_bit 8 v) (push_bit 8 mk) ?dest (idx + 1) = Some d"
    "length d = length dest"
    and bits: "\<And>k. bit_at d k = (if k div 8 < idx + 1 + count
      then window (push_bit 8 v) (push_bit 8 mk) ?dest (8 * (idx + 1)) k else bit_at ?dest k)"
    using Suc.IH[of "idx + 1" ?dest "push_bit 8 v" "push_bit 8 mk"] Suc.prems by auto
  have "bit_at d k = (if k div 8 < idx + Suc count then window v mk dest (8 * idx) k else bit_at dest k)"
    for k
    using window_step[OF idx, of 0 k count v mk]
    by (cases "k div 8 < idx + 1 + count") (simp_all add: bits)
  with d idx show ?case by (auto simp: mem_simps)
qed

lemma put_top_spec:
  assumes s: "s < 8" and len: "idx + 1 + count \<le> length dest"
  shows "\<exists>d. put_top v mk dest idx s count = Some d \<and> length d = length dest \<and>
    (\<forall>k. bit_at d k =
      (if k div 8 < idx + 1 + count then window v mk dest (8 * idx + s) k else bit_at dest k))"
proof -
  let ?dest = "dest[idx := merge_byte (drop_bit s v) (drop_bit s mk) (dest ! idx)]"
  have idx: "idx < length dest" and len': "idx + 1 + count \<le> length ?dest" using len by simp_all
  from put_loop_spec[OF len', of "push_bit (8 - s) v" "push_bit (8 - s) mk"] obtain d where
    d: "put_loop count (push_bit (8 - s) v) (push_bit (8 - s) mk) ?dest (idx + 1) = Some d"
      "length d = length dest"
    and bits: "\<And>k. bit_at d k = (if k div 8 < idx + 1 + count
      then window (push_bit (8 - s) v) (push_bit (8 - s) mk) ?dest (8 * (idx + 1)) k else bit_at ?dest k)"
    by (metis length_list_update)
  have "bit_at d k =
      (if k div 8 < idx + 1 + count then window v mk dest (8 * idx + s) k else bit_at dest k)" for k
    using window_step[OF idx s, of k count v mk] by (simp add: bits)
  with d idx show ?thesis by (auto simp: put_top_def mem_simps)
qed

lemma bit_top_mask: "n \<le> 32 \<Longrightarrow> bit (top_mask n) i = (32 - n \<le> i \<and> i < 32)"
  by (auto simp: top_mask_def bit_push_bit_iff simp del: push_bit_minus_one_eq_not_mask)

text \<open>The store count that covers \<open>n\<close> bits starting at bit \<open>s\<close> of a byte.\<close>

lemma put_top_bits:
  assumes p: "p + n \<le> 8 * length dest" and n: "0 < n" "n \<le> 32"
    and v: "\<And>i. i < 32 - n \<Longrightarrow> \<not> bit v i"
    and count: "p mod 8 + n \<le> 8 * (1 + count)" "8 * count < p mod 8 + n"
  shows "\<exists>d. put_top v (top_mask n) dest (p div 8) (p mod 8) count = Some d \<and>
    length d = length dest \<and>
    (\<forall>k. bit_at d k = (if p \<le> k \<and> k < p + n then bit v (31 - (k - p)) else bit_at dest k))"
proof -
  have "8 * (p div 8 + count) < 8 * length dest"
    using p count mult_div_mod_eq[of 8 p] unfolding distrib_left by linarith
  then have "p div 8 + 1 + count \<le> length dest" by simp
  from put_top_spec[OF _ this, of "p mod 8" v "top_mask n"] obtain d where
    d: "put_top v (top_mask n) dest (p div 8) (p mod 8) count = Some d" "length d = length dest"
    and bits: "\<And>k. bit_at d k = (if k div 8 < p div 8 + 1 + count
      then window v (top_mask n) dest p k else bit_at dest k)"
    by auto
  have "bit_at d k = (if p \<le> k \<and> k < p + n then bit v (31 - (k - p)) else bit_at dest k)" for k
  proof (cases "p \<le> k \<and> k < p + n")
    case True
    then have "k < 8 * (p div 8) + 8 * (1 + count)"
      using count mult_div_mod_eq[of 8 p] by linarith
    then have "k div 8 < p div 8 + 1 + count" by (simp add: div_less_iff_less_mult)
    then show ?thesis using True n by (auto simp: bits window_def bit_top_mask)
  next
    case False
    then show ?thesis using n v by (auto simp: bits window_def bit_top_mask)
  qed
  with d show ?thesis by auto
qed

subsection \<open>CopyBits: equivalence with a bit-by-bit copy\<close>

lemma bit_255: "bit (255 :: byte) t = (t < 8)"
proof -
  have "(255 :: byte) = - 1" by simp
  then show ?thesis by (simp only: bit_minus_1_iff possible_bit_word) simp
qed

lemma bit_store_high:
  assumes "0 < s" "s < 8" "u < 8"
  shows "bit (drop_bit s b OR (push_bit (8 - s) 255 AND old)) (7 - u) =
    (if s \<le> u then bit (b :: byte) (7 - (u - s)) else bit old (7 - u))"
proof (cases "s \<le> u")
  case True
  then have "s + (7 - u) = 7 - (u - s)" "\<not> 8 - s \<le> 7 - u" using assms by linarith+
  with True show ?thesis
    by (simp only: bit_or_iff bit_and_iff bit_drop_bit_eq comp_def bit_push_bit_iff if_True) simp
next
  case False
  then have "\<not> s + (7 - u) < LENGTH(8)" "8 - s \<le> 7 - u" "7 - u - (8 - s) < 8" "7 - u < LENGTH(8)"
    using assms by simp_all
  with False show ?thesis
    by (simp only: bit_or_iff bit_and_iff bit_drop_bit_eq comp_def bit_push_bit_iff bit_255
        possible_bit_word if_False) (blast dest: bit_imp_le_length)
qed

lemma bit_store_low:
  assumes "0 < s" "s < 8" "u < 8"
  shows "bit (push_bit (8 - s) b OR (drop_bit s 255 AND old)) (7 - u) =
    (if u < s then bit (b :: byte) (7 - (8 - s + u)) else bit old (7 - u))"
proof (cases "u < s")
  case True
  then have "7 - u - (8 - s) = 7 - (8 - s + u)" "8 - s \<le> 7 - u" "\<not> s + (7 - u) < 8" "7 - u < LENGTH(8)"
    using assms by simp_all
  with True show ?thesis
    by (simp only: bit_or_iff bit_and_iff bit_drop_bit_eq comp_def bit_push_bit_iff bit_255
        possible_bit_word if_True) blast
next
  case False
  then have "\<not> 8 - s \<le> 7 - u" "s + (7 - u) < 8" using assms by simp_all
  with False show ?thesis
    by (simp only: bit_or_iff bit_and_iff bit_drop_bit_eq comp_def bit_push_bit_iff bit_255 if_False) blast
qed

lemma store_pair_bits:
  assumes s: "0 < s" "s < 8" and idx: "idx + 1 < length dest"
  shows "bits_copied dest
    (dest[idx := drop_bit s (src ! si) OR (push_bit (8 - s) 255 AND dest ! idx),
          idx + 1 := push_bit (8 - s) (src ! si) OR (drop_bit s 255 AND dest ! (idx + 1))])
    src (8 * idx + s) (8 * si) 8"
  (is "bits_copied dest ?d src _ _ _")
proof -
  have "bit_at ?d k = (if 8 * idx + s \<le> k \<and> k < 8 * idx + s + 8
      then bit_at src (8 * si + (k - (8 * idx + s))) else bit_at dest k)" for k
  proof (cases rule: byte_cases[of k idx])
    case below
    then have "k div 8 \<noteq> idx" "k div 8 \<noteq> idx + 1" by auto
    with below show ?thesis by (simp add: bit_at_other_byte)
  next
    case (inside u)
    then have at: "bit_at ?d k =
        bit (drop_bit s (src ! si) OR (push_bit (8 - s) 255 AND dest ! idx)) (7 - u)"
      "bit_at dest k = bit (dest ! idx) (7 - u)"
      "bit_at src (8 * si + (u - s)) = bit (src ! si) (7 - (u - s))"
      using idx bit_at_byte[of "u - s" src si] by (simp_all add: bit_at_list_update bit_at_byte)
    have "8 * idx + s \<le> k \<longleftrightarrow> s \<le> u" "k < 8 * idx + s + 8" "k - (8 * idx + s) = u - s"
      using inside by simp_all
    then show ?thesis
      by (simp only: at bit_store_high[OF s inside(2)]) simp
  next
    case above
    show ?thesis
    proof (cases rule: byte_cases[of k "idx + 1"])
      case below
      with above show ?thesis by simp
    next
      case (inside u)
      then have at: "bit_at ?d k =
          bit (push_bit (8 - s) (src ! si) OR (drop_bit s 255 AND dest ! (idx + 1))) (7 - u)"
        "bit_at dest k = bit (dest ! (idx + 1)) (7 - u)"
        using idx unfolding inside(1) bit_at_byte[OF inside(2)] by simp_all
      have "u < s \<Longrightarrow> bit_at src (8 * si + (8 - s + u)) = bit (src ! si) (7 - (8 - s + u))"
        using s by (intro bit_at_byte) simp
      moreover have "8 * idx + s \<le> k" "k < 8 * idx + s + 8 \<longleftrightarrow> u < s" "k - (8 * idx + s) = 8 - s + u"
        using inside s by simp_all
      ultimately show ?thesis
        by (simp only: at bit_store_low[OF s inside(2)]) simp
    next
      case above
      then have "k div 8 \<noteq> idx" "k div 8 \<noteq> idx + 1" by auto
      with above s show ?thesis by (simp add: bit_at_other_byte)
    qed
  qed
  then show ?thesis by (simp add: bits_copied_def)
qed

lemma copy_unaligned_spec:
  assumes s: "0 < s" "s < 8" and "idx + n < length dest" "si + n \<le> length src"
  shows "\<exists>d. copy_unaligned n s dest idx src si (dest ! idx) = Some d \<and>
    bits_copied dest d src (8 * idx + s) (8 * si) (8 * n)"
  using assms(3,4)
proof (induction n arbitrary: dest idx si)
  case 0
  then show ?case by (simp add: bits_copied_0)
next
  case (Suc n)
  let ?b = "push_bit (8 - s) (src ! si) OR (drop_bit s 255 AND dest ! (idx + 1))"
  let ?dest = "dest[idx := drop_bit s (src ! si) OR (push_bit (8 - s) 255 AND dest ! idx), idx + 1 := ?b]"
  have idx: "idx + 1 < length dest" and b: "?dest ! (idx + 1) = ?b" using Suc.prems by simp_all
  obtain d where d: "copy_unaligned n s ?dest (idx + 1) src (si + 1) (?dest ! (idx + 1)) = Some d"
    and bits: "bits_copied ?dest d src (8 * (idx + 1) + s) (8 * (si + 1)) (8 * n)"
    using Suc.IH[of "idx + 1" ?dest "si + 1"] Suc.prems by auto
  have "bits_copied dest d src (8 * idx + s) (8 * si) (8 + 8 * n)"
    using bits_copied_trans[OF store_pair_bits[OF s idx, of src si], of d "8 * n"] bits
    by (simp add: algebra_simps)
  then show ?case
    using Suc.prems d b by (simp add: mem_simps)
qed

lemma bit_at_source_byte: "i < 8 \<Longrightarrow> bit (src ! si) (7 - i) = bit_at src (8 * si + i)"
  by (simp add: bit_at_byte)

text \<open>A window of the top \<open>n\<close> bits of a byte shifted left by \<open>m\<close>.\<close>

lemma bit_byte_window:
  assumes "0 < n" "n \<le> 8" "i < 32"
  shows "bit (push_bit (32 - n) (drop_bit (8 - n) (ucast (c :: byte))) :: u32) (31 - i) =
    (i < n \<and> bit c (7 - i))"
proof (cases "i < n")
  case True
  then have "8 - n + (31 - i - (32 - n)) = 7 - i" "32 - n \<le> 31 - i" "31 - i < 32" "7 - i < 32"
    using assms by linarith+
  with True show ?thesis
    by (simp only: bit_push_bit_iff bit_drop_bit_eq comp_def bit_ucast_iff possible_bit_word) simp
next
  case False
  then have "\<not> 32 - n \<le> 31 - i" using assms by linarith
  with False show ?thesis by (simp only: bit_push_bit_iff) simp
qed

lemma put_byte_bits:
  assumes p: "p + n \<le> 8 * length dest" and n: "0 < n" "n \<le> 8"
    and count: "count = (if 8 - p mod 8 < n then 1 else 0)"
    and c: "\<And>i. i < n \<Longrightarrow> bit c (7 - i) = bit_at src (q + i)"
  shows "\<exists>d. put_top (push_bit (32 - n) (drop_bit (8 - n) (ucast (c :: byte)))) (top_mask n)
      dest (p div 8) (p mod 8) count = Some d \<and> bits_copied dest d src p q n"
proof -
  let ?v = "push_bit (32 - n) (drop_bit (8 - n) (ucast c)) :: u32"
  have low: "\<not> bit ?v i" if "i < 32 - n" for i
    using that by (simp add: bit_push_bit_iff)
  have "p mod 8 + n \<le> 8 * (1 + count)" "8 * count < p mod 8 + n"
    using n count by (auto split: if_splits)
  from put_top_bits[of p n dest ?v, OF p n(1) _ low this] obtain d where
    d: "put_top ?v (top_mask n) dest (p div 8) (p mod 8) count = Some d" "length d = length dest"
    and bits: "\<And>k. bit_at d k = (if p \<le> k \<and> k < p + n then bit ?v (31 - (k - p)) else bit_at dest k)"
    using n by auto
  have "bit ?v (31 - (k - p)) = bit_at src (q + (k - p))" if "p \<le> k \<and> k < p + n" for k
    using bit_byte_window[OF n, of "k - p" c] c[of "k - p"] that n by auto
  with d bits show ?thesis by (auto simp: bits_copied_def)
qed

lemma copy_rest_spec:
  assumes "0 < n" "n < 8" "p + n \<le> 8 * length dest" "si < length src"
  shows "\<exists>d. copy_rest n dest p src si = Some d \<and> bits_copied dest d src p (8 * si) n"
proof -
  have "(if 8 - p mod 8 < n then (n + p mod 8 - 9) div 8 + 1 else 0) =
      (if 8 - p mod 8 < n then 1 else 0 :: nat)" (is "?c = _")
    using assms(2) by auto
  from put_byte_bits[OF assms(3,1) _ this, of "src ! si" src "8 * si"] assms
  show ?thesis by (simp add: copy_rest_def mem_simps bit_at_source_byte)
qed

lemma bit_at_drop: "bit_at (drop m d) k = bit_at d (8 * m + k)" if "k < 8 * (length d - m)"
proof -
  have "m \<le> length d" using that by (cases "m \<le> length d") auto
  then show ?thesis by (simp add: bit_at_def)
qed

lemma copy_into_bits:
  assumes "off + n \<le> length dest" "si + n \<le> length src"
  shows "\<exists>d. copy_into dest off (drop si src) n = Some d \<and>
    bits_copied dest d src (8 * off) (8 * si) (8 * n)"
proof -
  let ?d = "take off dest @ take n (drop si src) @ drop (off + n) dest"
  have len: "length (take off dest) = off" "length (take n (drop si src)) = n" using assms by simp_all
  have nth: "?d ! j = (if off \<le> j \<and> j < off + n then src ! (si + (j - off)) else dest ! j)"
    if "j < length dest" for j
    using assms that len by (auto simp: nth_append)
  have "bit_at ?d k = (if 8 * off \<le> k \<and> k < 8 * off + 8 * n
      then bit_at src (8 * si + (k - 8 * off)) else bit_at dest k)" if k: "k < 8 * length dest" for k
  proof -
    define j r where "j = k div 8" and "r = k mod 8"
    have eq: "k = 8 * j + r" and r: "r < 8" by (simp_all add: j_def r_def)
    have "j < length dest" using k eq by linarith
    moreover have "8 * off \<le> k \<and> k < 8 * off + 8 * n \<longleftrightarrow> off \<le> j \<and> j < off + n"
      using eq r by linarith
    moreover have "off \<le> j \<Longrightarrow> 8 * si + (k - 8 * off) = 8 * (si + (j - off)) + r"
      using eq by (simp add: algebra_simps)
    ultimately show ?thesis
      unfolding eq bit_at_byte[OF r] by (auto simp: nth bit_at_byte[OF r])
  qed
  then show ?thesis using assms by (simp add: copy_into_def bits_copied_def)
qed

lemma copy_aligned_source_spec:
  assumes p: "p + n \<le> 8 * length dest" and q: "8 * si + n \<le> 8 * length src"
  shows "\<exists>d. copy_aligned_source n dest p src si = Some d \<and> bits_copied dest d src p (8 * si) n"
proof (cases "n < 8")
  case True
  then show ?thesis
    using copy_rest_spec[of n p dest si src] p q
    by (cases "n = 0") (auto simp: copy_aligned_source_def bits_copied_0)
next
  case False
  define m r where "m = n div 8" and "r = n mod 8"
  have n: "n = 8 * m + r" and r: "r < 8" and m: "0 < m" using False by (auto simp: m_def r_def)
  have whole: "\<exists>d. (if p mod 8 \<noteq> 0 then do {
        v23 \<leftarrow> peek dest (p div 8);
        copy_unaligned m (p mod 8) dest (p div 8) src si v23 }
      else copy_into dest (p div 8) (drop si src) m) = Some d \<and> bits_copied dest d src p (8 * si) (8 * m)"
  proof (cases "p mod 8 = 0")
    case True
    then have p8: "8 * (p div 8) = p" by presburger
    have "8 * (p div 8 + m) \<le> 8 * length dest" "8 * (si + m) \<le> 8 * length src"
      using p q n p8 by (simp_all add: algebra_simps)
    then show ?thesis using copy_into_bits[of "p div 8" m dest si src] True by (simp add: p8)
  next
    case False
    have p8: "8 * (p div 8) + p mod 8 = p" by simp
    have "8 * (p div 8 + m) < 8 * length dest" "8 * (si + m) \<le> 8 * length src"
      using p q n p8 False unfolding distrib_left by linarith+
    then have "p div 8 + m < length dest" "si + m \<le> length src" by simp_all
    from copy_unaligned_spec[OF _ _ this, of "p mod 8"] False this
    show ?thesis by (simp add: mem_simps p8)
  qed
  then obtain d1 where d1: "(if p mod 8 \<noteq> 0 then do {
        v23 \<leftarrow> peek dest (p div 8);
        copy_unaligned m (p mod 8) dest (p div 8) src si v23 }
      else copy_into dest (p div 8) (drop si src) m) = Some d1"
    and b1: "bits_copied dest d1 src p (8 * si) (8 * m)" by blast
  have top: "copy_aligned_source n dest p src si =
      (if r = 0 then Some d1 else copy_rest r d1 (p + 8 * m) src (si + m))"
    using False m d1 by (simp add: copy_aligned_source_def m_def[symmetric] r_def[symmetric] Let_def)
  show ?thesis
  proof (cases "r = 0")
    case True
    then show ?thesis using top b1 n by simp
  next
    case False
    have "p + 8 * m + r \<le> 8 * length d1" "si + m < length src"
      using p q n b1 False by (auto simp: bits_copied_def)
    from copy_rest_spec[OF _ r this] False obtain d2 where
      d2: "copy_rest r d1 (p + 8 * m) src (si + m) = Some d2"
        "bits_copied d1 d2 src (p + 8 * m) (8 * (si + m)) r" by auto
    have "bits_copied dest d2 src p (8 * si) (8 * m + r)"
      by (rule bits_copied_trans[OF b1]) (use d2(2) in \<open>simp add: algebra_simps\<close>)
    with d2 top False n show ?thesis by simp
  qed
qed

lemma word_of_nat_minus: "m \<le> n \<Longrightarrow> (word_of_nat (n - m) :: 'a::len word) = word_of_nat n - word_of_nat m"
  by (simp add: of_nat_diff)

lemma not_word_of_nat: "a < 2 ^ 32 \<Longrightarrow> NOT (word_of_nat a :: u32) = word_of_nat (2 ^ 32 - 1 - a)"
  by (simp add: not_eq_complement word_of_nat_minus)

lemma word_of_nat_less_u32:
  "x < 2 ^ 32 \<Longrightarrow> y < 2 ^ 32 \<Longrightarrow> (word_of_nat x :: u32) < word_of_nat y \<longleftrightarrow> x < y"
  by (simp add: word_less_nat_alt unat_of_nat take_bit_nat_eq_self)

lemma phase1_count_ok:
  assumes "v8 < d" "d < 8" "8 - v8 \<le> a3" "a3 < 2 ^ 31"
  shows "phase1_count v8 a3 d = 1"
proof -
  have v16: "(word_of_nat v8 - 9 :: u32) = word_of_nat (2 ^ 32 + v8 - 9)"
    using word_of_nat_minus[of 9 "2 ^ 32 + v8", where 'a = 32] by simp
  have "\<not> (2 :: nat) ^ 32 + v8 - 9 < 2 ^ 32 - 1 - a3" "(2 :: nat) ^ 32 + v8 - 9 < 2 ^ 32"
    "(2 :: nat) ^ 32 - 1 - a3 < 2 ^ 32" "a3 < 2 ^ 32"
    using assms by simp_all
  then have "\<not> (word_of_nat v8 - 9 :: u32) < NOT (word_of_nat a3)"
    by (simp only: v16 not_word_of_nat word_of_nat_less_u32 not_False_eq_True)
  moreover have "(word_of_nat d - 10 - (word_of_nat v8 - 9) :: u32) = word_of_nat (d - (v8 + 1))"
    using assms word_of_nat_minus[of "v8 + 1" d, where 'a = 32] by simp
  moreover have "unat (drop_bit 3 (word_of_nat x :: u32)) = 0" if "x < 8" for x
    unfolding unat_drop_bit_eq using that
    by (simp add: unat_of_nat take_bit_nat_eq_self drop_bit_eq_div)
  from this[of "d - (v8 + 1)"] have "unat (drop_bit 3 (word_of_nat (d - (v8 + 1)) :: u32)) = 0"
    using assms by simp
  ultimately show ?thesis by (simp add: phase1_count_def)
qed

text \<open>
  Outside the combination that the mistyped operator spoils (the run ends inside the source
  byte it starts in, yet straddles a destination byte boundary), \<open>CopyBits\<close> copies exactly
  the run and leaves every other destination bit alone.
\<close>

lemma CopyBits_spec:
  assumes p: "a4 + a3 \<le> 8 * length dest" and q: "a5 + a3 \<le> 8 * length src"
    and pos: "0 < a3" "a3 < 2 ^ 31"
    and ok: "a5 mod 8 = 0 \<or> 8 - a5 mod 8 \<le> a3 \<or> a4 mod 8 + a3 \<le> 8"
  shows "\<exists>d. CopyBits dest src a3 a4 a5 = Some d \<and> bits_copied dest d src a4 a5 a3"
proof (cases "a5 mod 8 = 0")
  case True
  then have "8 * (a5 div 8) = a5" by presburger
  then show ?thesis
    using copy_aligned_source_spec[of a4 a3 dest "a5 div 8" src] p q True
    by (simp add: CopyBits_def Let_def)
next
  case False
  define v8 v9 v10 where "v8 = a5 mod 8" and "v9 = a5 div 8" and "v10 = min (8 - v8) a3"
  have a5: "a5 = 8 * v9 + v8" and v8: "0 < v8" "v8 < 8" using False by (auto simp: v8_def v9_def)
  have v10: "0 < v10" "v10 \<le> 8" "v10 \<le> a3" "v8 + v10 \<le> 8" using pos v8 by (auto simp: v10_def)
  have src: "v9 < length src" using q a5 v8 pos by linarith
  let ?count = "if 8 - a4 mod 8 < v10 then phase1_count v8 a3 (a4 mod 8) else 0"
  have count: "?count = (if 8 - a4 mod 8 < v10 then 1 else 0)"
    using phase1_count_ok[of v8 "a4 mod 8" a3] ok pos v8
    by (auto simp: v10_def v8_def[symmetric] min_def split: if_splits)
  have c: "bit (push_bit v8 (src ! v9)) (7 - i) = bit_at src (a5 + i)" if "i < v10" for i
  proof -
    have "v8 \<le> 7 - i" "7 - i - v8 = 7 - (v8 + i)" "v8 + i < 8" "7 - i < 8" using that v10 by linarith+
    then show ?thesis using bit_at_byte[of "v8 + i" src v9]
      by (simp only: bit_push_bit_iff possible_bit_word a5 add.assoc) simp
  qed
  have "a4 + v10 \<le> 8 * length dest" using p v10 by simp
  from put_byte_bits[OF this v10(1,2) count c] obtain d1 where
    d1: "put_top (push_bit (32 - v10) (drop_bit (8 - v10) (ucast (push_bit v8 (src ! v9)))))
        (top_mask v10) dest (a4 div 8) (a4 mod 8) ?count = Some d1"
      "bits_copied dest d1 src a4 a5 v10" by blast
  have top: "CopyBits dest src a3 a4 a5 = copy_aligned_source (a3 - v10) d1 (v10 + a4) src (v9 + 1)"
    using d1(1) src v8
    by (simp add: CopyBits_def Let_def v8_def[symmetric] v9_def[symmetric] mem_simps v10_def min_def
        not_less split: if_splits)
  show ?thesis
  proof (cases "v10 = a3")
    case True
    then show ?thesis using top d1 by (simp add: copy_aligned_source_def)
  next
    case False
    then have v10_eq: "v10 = 8 - v8" by (auto simp: v10_def min_def split: if_splits)
    then have next_byte: "8 * (v9 + 1) = a5 + v10" using a5 v8 by simp
    have "v10 + a4 + (a3 - v10) \<le> 8 * length d1" "8 * (v9 + 1) + (a3 - v10) \<le> 8 * length src"
      using p q v10 d1(2) next_byte by (auto simp: bits_copied_def)
    from copy_aligned_source_spec[OF this] obtain d2 where
      d2: "copy_aligned_source (a3 - v10) d1 (v10 + a4) src (v9 + 1) = Some d2"
        "bits_copied d1 d2 src (v10 + a4) (8 * (v9 + 1)) (a3 - v10)" by blast
    have "bits_copied dest d2 src a4 a5 (v10 + (a3 - v10))"
      by (rule bits_copied_trans[OF d1(2)]) (use d2(2) next_byte in \<open>simp add: add.commute\<close>)
    with d2 top v10 show ?thesis by simp
  qed
qed

subsection \<open>Reading: the accumulated value\<close>

text \<open>
  \<open>acc q s j rv\<close>: after \<open>j + 1\<close> bytes from byte \<open>q\<close>, \<open>rv\<close> holds the bits from position
  \<open>8 * q + s\<close> on, with the lowest \<open>s\<close> bits still missing.
\<close>

definition acc :: "byte list \<Rightarrow> nat \<Rightarrow> nat \<Rightarrow> nat \<Rightarrow> u32 \<Rightarrow> bool" where
  "acc data q s j rv \<longleftrightarrow> (\<forall>i < 32. bit rv i =
     (s \<le> i \<and> i < 8 * (j + 1) \<and> bit_at data (8 * q + s + 8 * (j + 1) - 1 - i)))"

lemma bit_byte_shifted:
  assumes "s < 8" "i < 32"
  shows "bit (push_bit s (ucast (c :: byte)) :: u32) i = (s \<le> i \<and> i - s < 8 \<and> bit c (i - s))"
  using assms by (auto simp: bit_push_bit_iff bit_ucast_iff dest: bit_imp_le_length)

lemma acc_first: "s < 8 \<Longrightarrow> acc data q s 0 (ucast (push_bit s (data ! q)))"
proof -
  assume s: "s < 8"
  have "bit (ucast (push_bit s (data ! q)) :: u32) i =
      (s \<le> i \<and> i < 8 \<and> bit_at data (8 * q + s + 7 - i))" if "i < 32" for i
  proof (cases "s \<le> i \<and> i < 8")
    case True
    then obtain t where t: "i = s + t" "t < 8" using le_Suc_ex by fastforce
    then have "bit_at data (8 * q + s + 7 - i) = bit_at data (8 * q + (7 - t))" by simp
    also have "\<dots> = bit (data ! q) t" using t by (simp add: bit_byte)
    finally show ?thesis using True that t by (simp add: bit_ucast_iff bit_push_bit_iff)
  next
    case False
    then show ?thesis using that by (auto simp: bit_ucast_iff bit_push_bit_iff dest: bit_imp_le_length)
  qed
  then show ?thesis by (simp add: acc_def ac_simps)
qed

lemma acc_step:
  assumes s: "s < 8" and rv: "acc data q s j rv" and j: "j < 3"
  shows "acc data q s (j + 1) (push_bit s (ucast (data ! (q + 1 + j))) OR push_bit 8 rv)"
proof -
  let ?c = "data ! (q + 1 + j)"
  have new: "bit (push_bit s (ucast ?c) OR push_bit 8 rv) i =
      (s \<le> i \<and> i < 8 * (j + 1 + 1) \<and> bit_at data (8 * q + s + 8 * (j + 1 + 1) - 1 - i))"
    if i: "i < 32" for i
  proof -
    have high: "bit (push_bit 8 rv) i = (8 \<le> i \<and> bit rv (i - 8))"
      using i by (simp add: bit_push_bit_iff)
    consider "i < s" | "s \<le> i" "i - s < 8" | "s \<le> i" "8 \<le> i - s" by linarith
    then show ?thesis
    proof cases
      case 1
      then have "\<not> s \<le> i" "\<not> 8 \<le> i" using s by linarith+
      then show ?thesis by (simp only: bit_or_iff bit_byte_shifted[OF s i] high simp_thms)
    next
      case 2
      define t where "t = i - s"
      have t: "i = s + t" "t < 8" using 2 by (simp_all add: t_def)
      have "8 * q + s + 8 * (j + 1 + 1) - 1 - i = 8 * (q + 1 + j) + (7 - t)"
        using t by simp
      then have "bit_at data (8 * q + s + 8 * (j + 1 + 1) - 1 - i) = bit ?c t"
        using t by (simp only: bit_byte)
      then have "bit_at data (8 * q + s + 8 * (j + 1 + 1) - 1 - i) = bit ?c (i - s)"
        using t by simp
      moreover have "\<not> (8 \<le> i \<and> bit rv (i - 8))"
      proof
        assume "8 \<le> i \<and> bit rv (i - 8)"
        then have "s \<le> i - 8" using rv i unfolding acc_def by (metis less_imp_diff_less)
        with 2 s \<open>8 \<le> i \<and> _\<close> show False by linarith
      qed
      moreover have "i < 8 * (j + 1 + 1)" using t s by simp
      ultimately show ?thesis using 2 by (simp only: bit_or_iff bit_byte_shifted[OF s i] high simp_thms)
    next
      case 3
      define w where "w = i - 8"
      have "i = 8 + w" using 3 by (simp add: w_def)
      then have "8 * q + s + 8 * (j + 1 + 1) - 1 - i = 8 * q + s + 8 * (j + 1) - 1 - (i - 8)" "8 \<le> i"
        "i - 8 < 32" "s \<le> i - 8" "i < 8 * (j + 1 + 1) \<longleftrightarrow> i - 8 < 8 * (j + 1)"
        using 3 i by simp_all
      moreover from this have "bit rv (i - 8) = (s \<le> i - 8 \<and> i - 8 < 8 * (j + 1) \<and>
          bit_at data (8 * q + s + 8 * (j + 1) - 1 - (i - 8)))"
        using rv unfolding acc_def by blast
      moreover have "\<not> i - s < 8" using 3 by linarith
      ultimately show ?thesis using 3(1) by (simp only: bit_or_iff bit_byte_shifted[OF s i] high simp_thms)
    qed
  qed
  then show ?thesis by (simp only: acc_def) blast
qed

lemma rbs_loop_spec:
  assumes "s < 8" "acc data q s j rv" "j + r \<le> 3" "q + j + r < length data"
  shows "\<exists>rv'. rbs_loop r s data (q + 1 + j) rv = Some (q + 1 + j + r, rv') \<and> acc data q s (j + r) rv'"
  using assms(2-)
proof (induction r arbitrary: j rv)
  case 0
  then show ?case by simp
next
  case (Suc r)
  have "acc data q s (j + 1) (push_bit s (ucast (data ! (q + 1 + j))) OR push_bit 8 rv)"
    using Suc.prems by (intro acc_step[OF assms(1)]) auto
  from Suc.IH[OF this] Suc.prems show ?case by (auto simp: mem_simps)
qed

definition mb_wf :: "msgbuf \<Rightarrow> bool" where
  "mb_wf b \<longleftrightarrow> m_maxBit b = 8 * length (m_data b) \<and> m_maxBit b < 2 ^ 31"

text \<open>What has been consumed or produced so far, and what is still ahead.\<close>

definition written :: "msgbuf \<Rightarrow> bool list" where
  "written b = map (bit_at (m_data b)) [0..<m_curBit b]"

definition pending :: "msgbuf \<Rightarrow> bool list" where
  "pending b = map (bit_at (m_data b)) [m_curBit b..<m_maxBit b]"

lemma length_written [simp]: "length (written b) = m_curBit b"
  by (simp add: written_def)

lemma length_pending [simp]: "length (pending b) = m_maxBit b - m_curBit b"
  by (simp add: pending_def)

lemma round_up_8: "0 < n \<Longrightarrow> n \<le> 32 \<Longrightarrow>
   ((n + 7) AND 0xF8) - n = 8 * (Suc (if n > 8 then (n - 9) div 8 + 1 else 0)) - n" for n :: nat
proof -
  assume "0 < n" "n \<le> 32"
  then have "n \<in> set [1..<33]" by auto
  moreover have "\<forall>n \<in> set [1..<33]. ((n + 7) AND 0xF8) - n =
      8 * (Suc (if n > 8 then (n - 9) div 8 + 1 else 0)) - (n :: nat)"
    by code_simp
  ultimately show ?thesis by blast
qed

lemma ReadBitsSingle_value:
  assumes wf: "mb_wf b" and n: "0 < n" "n \<le> 32" "\<not> (n = 13 \<and> hack)" and fits: "m_curBit b + n \<le> m_maxBit b"
  shows "ReadBitsSingle hack n b =
    Some (Some (bits_word (take n (pending b))), b\<lparr>m_curBit := m_curBit b + n\<rparr>)"
proof -
  define q s r m where "q = m_curBit b div 8" and "s = m_curBit b mod 8"
    and "r = (if n > 8 then (n - 9) div 8 + 1 else 0)" and "m = r + 1"
  let ?d = "m_data b"
  have cur: "m_curBit b = 8 * q + s" and s: "s < 8" by (simp_all add: q_def s_def)
  have m: "n \<le> 8 * m" "8 * m < n + 8" "m \<le> 4" using n by (auto simp: m_def r_def)
  have room: "8 * q + s + n \<le> 8 * length ?d" using fits wf cur by (simp add: mb_wf_def)
  have r: "0 + r \<le> 3" "q + 0 + r < length ?d" using m room n by (auto simp: m_def)
  obtain rv where rv: "rbs_loop r s ?d (q + 1) (ucast (push_bit s (?d ! q))) = Some (q + m, rv)"
    "acc ?d q s r rv"
    using rbs_loop_spec[OF s acc_first[OF s] r] by (auto simp: m_def)
  let ?left = "if q + m < length ?d then ?d ! (q + m) else 0"
  let ?rv2 = "if s \<noteq> 0 then rv OR ucast (drop_bit (8 - s) ?left) else rv"
  let ?out = "drop_bit (((n + 7) AND 0xF8) - n) ?rv2"
  have eq: "(if n = 13 \<and> hack then 16 else n) = n" using n by simp
  have "ReadBitsSingle hack n b = Some (Some ?out, b\<lparr>m_curBit := m_curBit b + n\<rparr>)"
    using fits r rv(1)
    unfolding ReadBitsSingle_def Let_def eq q_def[symmetric] s_def[symmetric] r_def[symmetric]
    by (simp add: mem_simps del: rbs_loop.simps)
  moreover have "?out = bits_word (take n (pending b))"
  proof (rule bit_word_eqI)
    fix i assume "i < LENGTH(32)"
    then have i: "i < 32" by simp
    have drop: "((n + 7) AND 0xF8) - n = 8 * m - n"
      using round_up_8[OF n(1,2)] by (simp add: m_def r_def)
    have rv2: "bit ?rv2 j = (j < 8 * m \<and> bit_at ?d (8 * q + s + 8 * m - 1 - j))"
      if "8 * m - n \<le> j" "j < 32" for j
    proof (cases "j < s")
      case True
      then have pos: "8 * q + s + 8 * m - 1 - j = 8 * (q + m) + (s - 1 - j)" by simp
      have "8 * m \<le> n + j" using that by linarith
      then have "8 * (q + m) < 8 * length ?d" using room True unfolding distrib_left by linarith
      moreover have "8 - s + j = 7 - (s - 1 - j)" "s - 1 - j < 8" using True s by linarith+
      ultimately have "bit (drop_bit (8 - s) ?left) j = bit_at ?d (8 * (q + m) + (s - 1 - j))"
        by (simp only: bit_drop_bit_eq comp_def bit_at_byte mult_less_cancel1 if_True simp_thms)
      moreover have "\<not> bit rv j" using rv(2) that True by (simp add: acc_def)
      moreover have "j < 8 * m" using True s by (simp add: m_def)
      ultimately show ?thesis using True s that pos m
        by (simp add: bit_or_iff bit_ucast_iff)
    next
      case False
      then have "\<not> bit (drop_bit (8 - s) ?left) j"
        using s by (auto simp: bit_drop_bit_eq dest!: bit_imp_le_length)
      then have "bit ?rv2 j = bit rv j" by (simp add: bit_or_iff bit_ucast_iff)
      then show ?thesis using rv(2) that False by (simp add: acc_def m_def add.commute)
    qed
    show "bit ?out i = bit (bits_word (take n (pending b)) :: u32) i"
    proof (cases "i < n")
      case True
      then have "8 * m - n + i < 32" "8 * m - n + i < 8 * m"
        "8 * q + s + 8 * m - 1 - (8 * m - n + i) = m_curBit b + (n - 1 - i)"
        using m cur by linarith+
      then show ?thesis using True i fits rv2[of "8 * m - n + i"]
        by (simp add: drop bit_drop_bit_eq bit_bits_word pending_def del: One_nat_def)
    next
      case False
      then show ?thesis using i rv2[of "8 * m - n + i"] m
        by (cases "8 * m - n + i < 32")
          (auto simp: drop bit_drop_bit_eq bit_bits_word dest: bit_imp_le_length)
    qed
  qed
  ultimately show ?thesis by simp
qed

end
