(* ===== verification/Bit_Stream.thy ===== *)
theory Bit_Stream
  imports Message_Buffer
begin

unbundle bit_operations_syntax

text \<open>
  The contract of a bit buffer, as its clients use it: a reader hands out the bits ahead of it
  field by field, a writer appends fields to what it has written, and what was written, taken as
  bytes and loaded again, is what a reader finds ahead of it. The three locales state this
  contract; \<open>rl::MessageBuffer\<close> is shown to meet it at the end.
\<close>

section \<open>The interfaces\<close>

locale bit_reader =
  fixes rd :: "nat \<Rightarrow> 'b \<Rightarrow> (u32 option \<times> 'b) option"
    and rd_bytes :: "byte list \<Rightarrow> nat \<Rightarrow> 'b \<Rightarrow> (bool \<times> byte list \<times> 'b) option"
    and ahead :: "'b \<Rightarrow> bool list"
    and ok :: "'b \<Rightarrow> bool"
  assumes rd_value: "ok b \<Longrightarrow> 0 < n \<Longrightarrow> n \<le> 32 \<Longrightarrow> n \<le> length (ahead b) \<Longrightarrow>
      \<exists>b'. rd n b = Some (Some (bits_word (take n (ahead b))), b') \<and> ok b' \<and> ahead b' = drop n (ahead b)"
    and rd_short: "ok b \<Longrightarrow> 0 < n \<Longrightarrow> length (ahead b) < n \<Longrightarrow>
      \<exists>b'. rd n b = Some (None, b') \<and> ok b' \<and> ahead b' = []"
    and rd_bytes_value: "ok b \<Longrightarrow> 8 * n \<le> length (ahead b) \<Longrightarrow> n \<le> length dest \<Longrightarrow>
      \<exists>p b'. rd_bytes dest (8 * n) b = Some (True, p @ drop n dest, b') \<and> length p = n \<and>
        bytes_bits p = take (8 * n) (ahead b) \<and> ok b' \<and> ahead b' = drop (8 * n) (ahead b)"
    and rd_bytes_short: "ok b \<Longrightarrow> length (ahead b) < n \<Longrightarrow> rd_bytes dest n b = Some (False, dest, b)"
begin

lemma rd_field:
  assumes "ok b" "0 < n" "n \<le> 32" "ahead b = word_bits n v @ rest"
  shows "\<exists>b'. rd n b = Some (Some (take_bit n v), b') \<and> ok b' \<and> ahead b' = rest"
  using rd_value[of b n] assms by (auto simp: bits_word_word_bits)

lemma rd_bytes_field:
  assumes "ok b" "length p = n" "n \<le> length dest" "ahead b = bytes_bits p @ rest"
  shows "\<exists>b'. rd_bytes dest (8 * n) b = Some (True, p @ drop n dest, b') \<and> ok b' \<and> ahead b' = rest"
  using rd_bytes_value[of b n dest] assms by (auto dest: bytes_bits_inject)

lemma rd_total:
  assumes "ok b" "0 < n" "n \<le> 32"
  shows "\<exists>r b'. rd n b = Some (r, b') \<and> ok b'"
  using rd_value[OF assms] rd_short[OF assms(1,2)] by (meson not_less)

lemma rd_bytes_total:
  assumes "ok b" "n \<le> length dest"
  shows "\<exists>r d b'. rd_bytes dest (8 * n) b = Some (r, d, b') \<and> ok b' \<and> length d = length dest \<and>
    (ahead b' = ahead b \<or> ahead b' = drop (8 * n) (ahead b))"
proof (cases "8 * n \<le> length (ahead b)")
  case True
  then show ?thesis using rd_bytes_value[OF assms(1) True assms(2)] assms(2) by auto
qed (use rd_bytes_short[OF assms(1), of "8 * n" dest] assms(1) in auto)

text \<open>Reading a list of widths, and the list of fields a stream starts with.\<close>

fun rd_fields :: "nat list \<Rightarrow> 'b \<Rightarrow> (u32 option list \<times> 'b) option" where
  "rd_fields [] b = Some ([], b)"
| "rd_fields (n # ns) b =
     Option.bind (rd n b) (\<lambda>(v, b). map_option (map_prod ((#) v) id) (rd_fields ns b))"

lemma rd_fields_value:
  assumes "ok b" "\<And>f. f \<in> set fs \<Longrightarrow> 0 < fst f \<and> fst f \<le> 32"
    "ahead b = concat (map (\<lambda>(n, v). word_bits n v) fs) @ rest"
  shows "\<exists>b'. rd_fields (map fst fs) b = Some (map (\<lambda>(n, v). Some (take_bit n v)) fs, b') \<and>
    ok b' \<and> ahead b' = rest"
  using assms
proof (induction fs arbitrary: b)
  case Nil
  then show ?case by simp
next
  case (Cons f fs)
  obtain n v where f: "f = (n, v)" by (cases f)
  have "0 < n" "n \<le> 32" using Cons.prems(2)[of f] f by auto
  from rd_field[OF Cons.prems(1) this, of v] Cons.prems(3) obtain b1 where
    b1: "rd n b = Some (Some (take_bit n v), b1)" "ok b1"
      "ahead b1 = concat (map (\<lambda>(n, v). word_bits n v) fs) @ rest"
    by (auto simp: f)
  from Cons.IH[OF b1(2) _ b1(3)] Cons.prems(2) show ?case using b1 f by fastforce
qed

end

locale bit_writer =
  fixes wr :: "nat \<Rightarrow> u32 \<Rightarrow> 'b \<Rightarrow> 'b option"
    and wr_bytes :: "byte list \<Rightarrow> nat \<Rightarrow> 'b \<Rightarrow> (bool \<times> 'b) option"
    and made :: "'b \<Rightarrow> bool list"
    and room :: "'b \<Rightarrow> nat"
    and ok :: "'b \<Rightarrow> bool"
  assumes wr_value: "ok b \<Longrightarrow> 0 < n \<Longrightarrow> n \<le> 32 \<Longrightarrow> n \<le> room b \<Longrightarrow>
      \<exists>b'. wr n v b = Some b' \<and> ok b' \<and> made b' = made b @ word_bits n v \<and> room b' = room b - n"
    and wr_full: "ok b \<Longrightarrow> 0 < n \<Longrightarrow> room b < n \<Longrightarrow> wr n v b = Some b"
    and wr_bytes_value: "ok b \<Longrightarrow> 8 * n \<le> room b \<Longrightarrow> n \<le> length p \<Longrightarrow>
      \<exists>b'. wr_bytes p (8 * n) b = Some (True, b') \<and> ok b' \<and>
        made b' = made b @ bytes_bits (take n p) \<and> room b' = room b - 8 * n"
    and wr_bytes_full: "ok b \<Longrightarrow> room b < n \<Longrightarrow> wr_bytes p n b = Some (False, b)"
begin

lemma wr_total: "ok b \<Longrightarrow> 0 < n \<Longrightarrow> n \<le> 32 \<Longrightarrow> \<exists>b'. wr n v b = Some b' \<and> ok b'"
  using wr_value[of b n v] wr_full[of b n v] by (cases "n \<le> room b") auto

lemma wr_bytes_total: "ok b \<Longrightarrow> n \<le> length p \<Longrightarrow> \<exists>r b'. wr_bytes p (8 * n) b = Some (r, b') \<and> ok b'"
  using wr_bytes_value[of b n p] wr_bytes_full[of b "8 * n" p] by (cases "8 * n \<le> room b") auto

text \<open>A writer with enough room takes a whole list of fields.\<close>

fun wr_fields :: "(nat \<times> u32) list \<Rightarrow> 'b \<Rightarrow> 'b option" where
  "wr_fields [] b = Some b"
| "wr_fields ((n, v) # fs) b = Option.bind (wr n v b) (wr_fields fs)"

lemma wr_fields_value:
  assumes "ok b" "\<And>f. f \<in> set fs \<Longrightarrow> 0 < fst f \<and> fst f \<le> 32" "sum_list (map fst fs) \<le> room b"
  shows "\<exists>b'. wr_fields fs b = Some b' \<and> ok b' \<and>
    made b' = made b @ concat (map (\<lambda>(n, v). word_bits n v) fs) \<and> room b' = room b - sum_list (map fst fs)"
  using assms
proof (induction fs arbitrary: b)
  case Nil
  then show ?case by simp
next
  case (Cons f fs)
  obtain n v where f: "f = (n, v)" by (cases f)
  have "0 < n" "n \<le> 32" "n \<le> room b" using Cons.prems(2)[of f] Cons.prems(3) f by auto
  from wr_value[OF Cons.prems(1) this, of v] obtain b1 where
    b1: "wr n v b = Some b1" "ok b1" "made b1 = made b @ word_bits n v" "room b1 = room b - n" by blast
  have "\<exists>b'. wr_fields fs b1 = Some b' \<and> ok b' \<and>
    made b' = made b1 @ concat (map (\<lambda>(n, v). word_bits n v) fs) \<and> room b' = room b1 - sum_list (map fst fs)"
    using Cons.prems f b1 by (intro Cons.IH) auto
  then show ?case using b1 f by auto
qed

end

text \<open>A channel: the bytes a writer produced are loaded by a reader, up to trailing padding.\<close>

locale bit_channel =
  reader: bit_reader rd rd_bytes ahead rok + writer: bit_writer wr wr_bytes made room wok
  for rd rd_bytes and ahead :: "'b \<Rightarrow> bool list" and rok
    and wr wr_bytes and made :: "'b \<Rightarrow> bool list" and room wok +
  fixes flush :: "'b \<Rightarrow> byte list" and load :: "byte list \<Rightarrow> 'b"
  assumes load_flush: "wok b \<Longrightarrow> \<exists>pad. ahead (load (flush b)) = made b @ pad"
    and load_ok: "wok b \<Longrightarrow> rok (load (flush b))"
begin

text \<open>Every field written to an empty buffer comes back, cut to its width.\<close>

lemma fields_roundtrip:
  assumes "wok b" "made b = []" "\<And>f. f \<in> set fs \<Longrightarrow> 0 < fst f \<and> fst f \<le> 32"
    "sum_list (map fst fs) \<le> room b"
  shows "\<exists>b' b''. writer.wr_fields fs b = Some b' \<and>
    reader.rd_fields (map fst fs) (load (flush b')) = Some (map (\<lambda>(n, v). Some (take_bit n v)) fs, b'')"
proof -
  obtain b' where
    b': "writer.wr_fields fs b = Some b'" "wok b'" "made b' = concat (map (\<lambda>(n, v). word_bits n v) fs)"
    using writer.wr_fields_value[of b fs] assms by force
  obtain pad where "ahead (load (flush b')) = concat (map (\<lambda>(n, v). word_bits n v) fs) @ pad"
    using load_flush[OF b'(2)] b'(3) by auto
  from reader.rd_fields_value[OF load_ok[OF b'(2)] assms(3) this] b'(1) show ?thesis by blast
qed

end

section \<open>MessageBuffer meets the contract\<close>

definition mb_wok :: "msgbuf \<Rightarrow> bool" where
  "mb_wok b \<longleftrightarrow> mb_wf b \<and> m_curBit b \<le> m_maxBit b"

definition mb_room :: "msgbuf \<Rightarrow> nat" where
  "mb_room b = m_maxBit b - m_curBit b"

definition mb_flush :: "msgbuf \<Rightarrow> byte list" where
  "mb_flush b = take (GetDataLength b) (m_data b)"

lemma mb_wf_of_data: "8 * length d < 2 ^ 31 \<Longrightarrow> mb_wf (mb_of_data d)"
  by (simp add: mb_wf_def mb_of_data_def)

lemma mb_wf_of_size: "8 * n < 2 ^ 31 \<Longrightarrow> mb_wf (mb_of_size n)"
  by (simp add: mb_wf_def mb_of_size_def)

lemma pending_advance: "pending (b\<lparr>m_curBit := m_curBit b + n\<rparr>) = drop n (pending b)"
  by (simp add: pending_def drop_map drop_upt)

lemma WriteBitsSingle_value:
  assumes wf: "mb_wf b" and n: "0 < n" "n \<le> 32" "\<not> (n = 13 \<and> hack)" and fits: "m_curBit b + n \<le> m_maxBit b"
  shows "\<exists>d. WriteBitsSingle hack v n b = Some (True, b\<lparr>m_data := d, m_curBit := m_curBit b + n\<rparr>) \<and>
    length d = length (m_data b) \<and>
    (\<forall>k. bit_at d k = (if m_curBit b \<le> k \<and> k < m_curBit b + n then bit v (n - 1 - (k - m_curBit b))
                        else bit_at (m_data b) k))"
proof -
  let ?p = "m_curBit b"
  define count where "count = (if 8 - ?p mod 8 < n then (n - (8 - ?p mod 8) - 1) div 8 + 1 else 0)"
  have p: "?p + n \<le> 8 * length (m_data b)" using fits wf by (simp add: mb_wf_def)
  have low: "\<not> bit (push_bit (32 - n) v) i" if "i < 32 - n" for i
    using that by (simp add: bit_push_bit_iff)
  have count: "?p mod 8 + n \<le> 8 * (1 + count)" "8 * count < ?p mod 8 + n"
    using n by (auto simp: count_def)
  from put_top_bits[OF p n(1,2) low count] obtain d where
    d: "put_top (push_bit (32 - n) v) (top_mask n) (m_data b) (?p div 8) (?p mod 8) count = Some d"
      "length d = length (m_data b)"
    and bits: "\<And>k. bit_at d k = (if ?p \<le> k \<and> k < ?p + n then bit (push_bit (32 - n) v) (31 - (k - ?p))
        else bit_at (m_data b) k)"
    by blast
  have eq: "(if n = 13 \<and> hack then 16 else n) = n" using n by simp
  have step: "WriteBitsSingle hack v n b = Some (True, b\<lparr>m_data := d, m_curBit := ?p + n\<rparr>)"
    using fits d(1) unfolding WriteBitsSingle_def Let_def eq count_def by simp
  have "bit (push_bit (32 - n) v) (31 - j) = bit v (n - 1 - j)" if "j < n" for j
  proof -
    have "32 - n \<le> 31 - j" "31 - j - (32 - n) = n - 1 - j" "31 - j < 32" using that n by simp_all
    then show ?thesis by (simp add: bit_push_bit_iff)
  qed
  then have "bit_at d k = (if ?p \<le> k \<and> k < ?p + n then bit v (n - 1 - (k - ?p)) else bit_at (m_data b) k)" for k
    using bits[of k] by (metis add_diff_inverse_nat nat_add_left_cancel_less not_less)
  with d(2) show ?thesis by (intro exI[of _ d]) (simp add: step del: One_nat_def)
qed

lemma WriteBits_value:
  assumes wf: "mb_wf b" and fits: "m_curBit b + n \<le> m_maxBit b" and src: "n \<le> 8 * length p"
  shows "\<exists>d. WriteBits p n b = Some (True, b\<lparr>m_data := d, m_curBit := m_curBit b + n\<rparr>) \<and>
    bits_copied (m_data b) d p (m_curBit b) 0 n"
proof (cases "n = 0")
  case True
  then show ?thesis using fits
    by (intro exI[of _ "m_data b"])
      (simp add: WriteBits_def CopyBits_def copy_aligned_source_def bits_copied_0)
next
  case False
  then have "\<exists>d. CopyBits (m_data b) p n (m_curBit b) 0 = Some d \<and>
      bits_copied (m_data b) d p (m_curBit b) 0 n"
    using assms by (intro CopyBits_spec) (auto simp: mb_wf_def)
  then show ?thesis using fits by (auto simp: WriteBits_def)
qed

lemma ReadBits_value:
  assumes wf: "mb_wf b" and n: "\<not> (n = 13 \<and> hack)" and fits: "m_curBit b + n \<le> m_maxBit b"
    and dest: "n \<le> 8 * length dest"
  shows "\<exists>d. ReadBits hack dest n b = Some (True, d, b\<lparr>m_curBit := m_curBit b + n\<rparr>) \<and>
    bits_copied dest d (m_data b) 0 (m_curBit b) n"
proof (cases "n = 0")
  case True
  then show ?thesis by (auto simp: ReadBits_def bits_copied_0)
next
  case False
  then have "\<exists>d. CopyBits dest (m_data b) n 0 (m_curBit b) = Some d \<and>
      bits_copied dest d (m_data b) 0 (m_curBit b) n"
    using assms by (intro CopyBits_spec) (auto simp: mb_wf_def)
  moreover have "(if n = 13 \<and> hack then 16 else n) = n" using n by simp
  ultimately show ?thesis using fits False by (auto simp: ReadBits_def Let_def)
qed

lemma written_extend:
  assumes "length d = length (m_data b)"
    "\<And>k. k < m_curBit b + n \<Longrightarrow> bit_at d k = (if m_curBit b \<le> k then f (k - m_curBit b) else bit_at (m_data b) k)"
  shows "written (b\<lparr>m_data := d, m_curBit := m_curBit b + n\<rparr>) = written b @ map f [0..<n]"
  by (rule nth_equalityI) (use assms in \<open>auto simp: written_def nth_append\<close>)

lemma mb_wf_update:
  "mb_wf b \<Longrightarrow> length d = length (m_data b) \<Longrightarrow> mb_wf (b\<lparr>m_data := d, m_curBit := c\<rparr>)"
  by (simp add: mb_wf_def)

lemma bytes_bits_eqI:
  assumes "8 * length d = length bs" "\<And>k. k < length bs \<Longrightarrow> bit_at d k = bs ! k"
  shows "bytes_bits d = bs"
  by (rule nth_equalityI) (use assms in auto)

lemma bits_copied_bytes:
  assumes "bits_copied dest d src 0 q (8 * n)" "n \<le> length dest" "q + 8 * n \<le> m"
  shows "\<exists>p. d = p @ drop n dest \<and> length p = n \<and> bytes_bits p = take (8 * n) (map (bit_at src) [q..<m])"
proof (intro exI conjI)
  have len: "length d = length dest"
    and bits: "\<And>k. k < 8 * length dest \<Longrightarrow>
      bit_at d k = (if k < 8 * n then bit_at src (q + k) else bit_at dest k)"
    using assms(1) by (auto simp: bits_copied_def)
  show "length (take n d) = n" using len assms(2) by simp
  have "drop n d = drop n dest"
  proof (rule bit_at_inject)
    fix k assume "k < 8 * length (drop n d)"
    then have "k + 8 * n < 8 * length dest" using len by simp
    then have "bit_at d (k + 8 * n) = bit_at dest (k + 8 * n)" using bits by simp
    moreover have "bit_at (drop n e) k = bit_at e (k + 8 * n)" if "k + 8 * n < 8 * length e" for e
      using that by (simp add: bit_at_def add.commute)
    ultimately show "bit_at (drop n d) k = bit_at (drop n dest) k"
      using \<open>k + 8 * n < _\<close> len by simp
  qed (use len in simp)
  then show "d = take n d @ drop n dest" by (metis append_take_drop_id)
  show "bytes_bits (take n d) = take (8 * n) (map (bit_at src) [q..<m])"
  proof (rule bytes_bits_eqI)
    fix k assume "k < length (take (8 * n) (map (bit_at src) [q..<m]))"
    then have k: "k < 8 * n" by simp
    then have "bit_at (take n d) k = bit_at d k" by (simp add: bit_at_def less_mult_imp_div_less mult.commute)
    then show "bit_at (take n d) k = take (8 * n) (map (bit_at src) [q..<m]) ! k"
      using k bits[of k] assms(2,3) by simp
  qed (use assms len in simp)
qed

lemma ReadBitsSingle_short:
  assumes "0 < n" "length (pending b) < n"
  shows "ReadBitsSingle False n b = Some (None, b\<lparr>m_curBit := m_curBit b + n\<rparr>)"
proof -
  have "m_curBit b + n > m_maxBit b" using assms by simp
  then show ?thesis by (simp add: ReadBitsSingle_def Let_def)
qed

lemma mb_wf_advance: "mb_wf (b\<lparr>m_curBit := c\<rparr>) = mb_wf b"
  by (simp add: mb_wf_def)

interpretation mb_in: bit_reader "ReadBitsSingle False" "ReadBits False" pending mb_wf
proof
  fix b :: msgbuf and n :: nat
  assume "mb_wf b" "0 < n" "n \<le> 32" "n \<le> length (pending b)"
  then show "\<exists>b'. ReadBitsSingle False n b = Some (Some (bits_word (take n (pending b))), b') \<and>
      mb_wf b' \<and> pending b' = drop n (pending b)"
    using ReadBitsSingle_value[of b n False] by (simp add: pending_advance mb_wf_advance)
next
  fix b :: msgbuf and n :: nat
  assume "mb_wf b" "0 < n" "length (pending b) < n"
  then show "\<exists>b'. ReadBitsSingle False n b = Some (None, b') \<and> mb_wf b' \<and> pending b' = []"
    by (subst ReadBitsSingle_short) (auto simp: mb_wf_advance pending_def)
next
  fix b :: msgbuf and n :: nat and dest :: "byte list"
  assume asm: "mb_wf b" "8 * n \<le> length (pending b)" "n \<le> length dest"
  show "\<exists>p b'. ReadBits False dest (8 * n) b = Some (True, p @ drop n dest, b') \<and> length p = n \<and>
      bytes_bits p = take (8 * n) (pending b) \<and> mb_wf b' \<and> pending b' = drop (8 * n) (pending b)"
  proof (cases "n = 0")
    case True
    then show ?thesis using asm by (auto simp: ReadBits_def bytes_bits_def)
  next
    case False
    then have fits: "m_curBit b + 8 * n \<le> m_maxBit b" using asm by simp
    then obtain d where d: "ReadBits False dest (8 * n) b = Some (True, d, b\<lparr>m_curBit := m_curBit b + 8 * n\<rparr>)"
      "bits_copied dest d (m_data b) 0 (m_curBit b) (8 * n)"
      using ReadBits_value[of b "8 * n" False dest] asm by auto
    from bits_copied_bytes[OF d(2) asm(3) fits] show ?thesis
      using d(1) asm(1) by (auto simp: pending_advance mb_wf_advance pending_def[symmetric])
  qed
next
  fix b :: msgbuf and n :: nat and dest :: "byte list"
  assume "mb_wf b" "length (pending b) < n"
  then have "n \<noteq> 0" "m_curBit b + n > m_maxBit b" by simp_all
  then show "ReadBits False dest n b = Some (False, dest, b)" by (simp add: ReadBits_def Let_def)
qed

lemma mb_room_update: "length d = length (m_data b) \<Longrightarrow>
  mb_room (b\<lparr>m_data := d, m_curBit := m_curBit b + n\<rparr>) = mb_room b - n"
  by (simp add: mb_room_def)

lemma word_bits_eq_map: "word_bits n v = map (\<lambda>j. bit v (n - 1 - j)) [0..<n]"
  by (simp add: word_bits_def)

interpretation mb_out: bit_writer "\<lambda>n v. Write False n v" WriteBits written mb_room mb_wok
proof
  fix b :: msgbuf and n :: nat and v :: u32
  assume asm: "mb_wok b" "0 < n" "n \<le> 32" "n \<le> mb_room b"
  then have fits: "m_curBit b + n \<le> m_maxBit b" by (simp add: mb_room_def)
  from WriteBitsSingle_value[of b n False, OF _ asm(2,3) _ fits] asm obtain d where
    d: "WriteBitsSingle False v n b = Some (True, b\<lparr>m_data := d, m_curBit := m_curBit b + n\<rparr>)"
      "length d = length (m_data b)"
    and bits: "\<And>k. bit_at d k = (if m_curBit b \<le> k \<and> k < m_curBit b + n
        then bit v (n - 1 - (k - m_curBit b)) else bit_at (m_data b) k)"
    unfolding mb_wok_def by blast
  have "written (b\<lparr>m_data := d, m_curBit := m_curBit b + n\<rparr>) = written b @ word_bits n v"
    unfolding word_bits_eq_map by (rule written_extend[OF d(2)]) (subst bits, simp)
  then show "\<exists>b'. Write False n v b = Some b' \<and> mb_wok b' \<and> written b' = written b @ word_bits n v \<and>
      mb_room b' = mb_room b - n"
    using d asm(1) fits by (auto simp: Write_def mb_room_update mb_wok_def mb_wf_update)
next
  fix b :: msgbuf and n :: nat and v :: u32
  assume "mb_wok b" "0 < n" "mb_room b < n"
  then show "Write False n v b = Some b"
    by (auto simp: Write_def WriteBitsSingle_def Let_def mb_room_def)
next
  fix b :: msgbuf and n :: nat and p :: "byte list"
  assume asm: "mb_wok b" "8 * n \<le> mb_room b" "n \<le> length p"
  then have fits: "m_curBit b + 8 * n \<le> m_maxBit b" by (auto simp: mb_room_def mb_wok_def)
  from WriteBits_value[of b "8 * n" p] asm fits obtain d where
    d: "WriteBits p (8 * n) b = Some (True, b\<lparr>m_data := d, m_curBit := m_curBit b + 8 * n\<rparr>)"
      "bits_copied (m_data b) d p (m_curBit b) 0 (8 * n)"
    by (auto simp: mb_wok_def)
  have len: "length d = length (m_data b)" using d(2) by (simp add: bits_copied_def)
  have "written (b\<lparr>m_data := d, m_curBit := m_curBit b + 8 * n\<rparr>) = written b @ map (bit_at p) [0..<8 * n]"
  proof (rule written_extend[OF len])
    fix k assume "k < m_curBit b + 8 * n"
    then show "bit_at d k = (if m_curBit b \<le> k then bit_at p (k - m_curBit b) else bit_at (m_data b) k)"
      using d(2) fits asm(1) by (auto simp: bits_copied_def mb_wok_def mb_wf_def)
  qed
  also have "map (bit_at p) [0..<8 * n] = bytes_bits (take n p)"
    using asm(3) by (auto simp: bytes_bits_def bit_at_def less_mult_imp_div_less mult.commute)
  finally show "\<exists>b'. WriteBits p (8 * n) b = Some (True, b') \<and> mb_wok b' \<and>
      written b' = written b @ bytes_bits (take n p) \<and> mb_room b' = mb_room b - 8 * n"
    using d(1) len asm(1) fits by (auto simp: mb_room_update mb_wok_def mb_wf_update)
next
  fix b :: msgbuf and n :: nat and p :: "byte list"
  assume "mb_wok b" "mb_room b < n"
  then show "WriteBits p n b = Some (False, b)" by (auto simp: WriteBits_def mb_room_def)
qed

lemma pending_of_data: "pending (mb_of_data d) = bytes_bits d"
  by (simp add: pending_def mb_of_data_def bytes_bits_def mult.commute)

lemma GetDataLength_covers: "m_curBit b \<le> 8 * GetDataLength b"
  unfolding GetDataLength_def by (auto split: if_splits)

lemma pending_flush:
  assumes "mb_wok b"
  shows "\<exists>pad. pending (mb_of_data (mb_flush b)) = written b @ pad"
proof -
  let ?n = "GetDataLength b"
  have n: "?n \<le> length (m_data b)"
  proof -
    have "m_curBit b \<le> 8 * length (m_data b)" using assms by (simp add: mb_wok_def mb_wf_def)
    then show ?thesis unfolding GetDataLength_def by presburger
  qed
  have "take (m_curBit b) (bytes_bits (mb_flush b)) = written b"
    using n GetDataLength_covers[of b]
    by (intro nth_equalityI)
      (auto simp: mb_flush_def written_def bit_at_def less_mult_imp_div_less mult.commute)
  then show ?thesis unfolding pending_of_data by (metis append_take_drop_id)
qed

lemma mb_wf_flush: "mb_wok b \<Longrightarrow> mb_wf (mb_of_data (mb_flush b))"
  by (rule mb_wf_of_data) (auto simp: mb_wok_def mb_wf_def mb_flush_def)

interpretation mb: bit_channel "ReadBitsSingle False" "ReadBits False" pending mb_wf
  "\<lambda>n v. Write False n v" WriteBits written mb_room mb_wok mb_flush mb_of_data
  by unfold_locales (simp_all add: pending_flush mb_wf_flush)

section \<open>Byte-level fields\<close>

text \<open>A 16-bit field is two bytes, high byte first; a zero byte is eight clear bits.\<close>

lemma size_field_bits:
  "bytes_bits [word_of_nat (n div 256), word_of_nat n] = word_bits 16 (word_of_nat n :: u32)"
proof (rule bytes_bits_eqI)
  fix k assume "k < length (word_bits 16 (word_of_nat n :: u32))"
  then have k: "k < 16" by simp
  have hi: "bit (n div 256) j = bit n (8 + j)" for j
    using bit_drop_bit_eq[of 8 n] by (simp add: drop_bit_eq_div)
  show "bit_at [word_of_nat (n div 256), word_of_nat n] k = word_bits 16 (word_of_nat n :: u32) ! k"
  proof (cases "k < 8")
    case True
    then have "8 + (7 - k) = 15 - k" "7 - k < 8" "15 - k < 32" by simp_all
    then show ?thesis using True by (simp add: bit_at_def bit_of_nat_iff hi)
  next
    case False
    then have "k div 8 = 1" "k mod 8 = k - 8" "7 - (k - 8) = 15 - k" "15 - k < 8" "15 - k < 32"
      using k by presburger+
    then show ?thesis using k by (simp add: bit_at_def bit_of_nat_iff)
  qed
qed simp

lemma zero_byte_bits: "word_bits 8 (0 :: u32) = bytes_bits [0]"
  by (rule nth_equalityI) (simp_all add: bit_at_def)

lemma unat_two_power: "n < 32 \<Longrightarrow> unat ((2 :: u32) ^ n) = 2 ^ n"
proof -
  assume "n < 32"
  then have "(2::nat) ^ n < 2 ^ LENGTH(32)" by (intro power_strict_increasing) simp_all
  then have "unat (word_of_nat (2 ^ n) :: u32) = 2 ^ n"
    unfolding unsigned_of_nat by (simp only: take_bit_nat_eq_self of_nat_id)
  then show ?thesis by simp
qed
lemma take_bit_less: "w < 2 ^ n \<Longrightarrow> n < 32 \<Longrightarrow> take_bit n w = (w :: u32)"
  by (rule take_bit_small) (metis unat_two_power word_less_nat_alt)

lemma unat_small_u32: "n < 4294967296 \<Longrightarrow> unat (word_of_nat n :: u32) = n"
  by (simp add: unat_of_nat take_bit_nat_eq_self)

lemma word_small_u32: "n < 2 ^ k \<Longrightarrow> k < 32 \<Longrightarrow> (word_of_nat n :: u32) < 2 ^ k"
proof -
  assume "n < 2 ^ k" "k < 32"
  moreover from this have "(2::nat) ^ k < 2 ^ 32" by (intro power_strict_increasing) simp_all
  ultimately show ?thesis by (simp add: word_less_nat_alt unat_two_power unat_small_u32)
qed

lemma take_bit_word_of_nat: "n < 2 ^ k \<Longrightarrow> k < 32 \<Longrightarrow> take_bit k (word_of_nat n :: u32) = word_of_nat n"
  by (intro take_bit_less word_small_u32)

text \<open>What has been written, as bytes.\<close>

lemma written_bytes:
  assumes "mb_wok b" "written b = bytes_bits img"
  shows "take (GetCurrentBit b div 8) (m_data b) = img" "m_curBit b = 8 * length img"
proof -
  show cur: "m_curBit b = 8 * length img" using assms(2) by (metis length_written length_bytes_bits)
  have max: "8 * length img \<le> 8 * length (m_data b)" "GetCurrentBit b = m_curBit b"
    using assms(1) cur by (auto simp: mb_wok_def mb_wf_def GetCurrentBit_def)
  show "take (GetCurrentBit b div 8) (m_data b) = img"
  proof (rule bytes_bits_inject)
    have "bytes_bits (take (length img) (m_data b)) = written b"
      using max(1) by (intro nth_equalityI)
        (auto simp: written_def cur bit_at_def less_mult_imp_div_less mult.commute)
    then show "bytes_bits (take (GetCurrentBit b div 8) (m_data b)) = bytes_bits img"
      using assms(2) max(2) cur by simp
  qed
qed

end
