(* ===== verification/Buffer_Properties.thy ===== *)
theory Buffer_Properties
  imports Bit_Stream
begin

unbundle bit_operations_syntax

text \<open>
  The properties of \<open>rl::MessageBuffer\<close>: what the decompiled copying and single-field code
  computes, which values survive a round trip, and the inputs for which it leaves its buffers.
\<close>

section \<open>Copying runs of bits\<close>

text \<open>C3: The four-phase copying code moves exactly the given run of bits, leaves every other
  bit of the destination alone, and stays inside both arrays, for every length and every pair of offsets,
  except a run that ends inside its first, partly skipped source byte and crosses a byte boundary of the
  destination.\<close>

theorem copy_bits_moves_run:
  assumes "a4 + a3 \<le> 8 * length dest" "a5 + a3 \<le> 8 * length src" "0 < a3" "a3 < 2 ^ 31"
    and "a5 mod 8 = 0 \<or> 8 - a5 mod 8 \<le> a3 \<or> a4 mod 8 + a3 \<le> 8"
  shows "\<exists>d. CopyBits dest src a3 a4 a5 = Some d \<and> length d = length dest \<and>
    (\<forall>k < 8 * length dest. bit_at d k =
       (if a4 \<le> k \<and> k < a4 + a3 then bit_at src (a5 + (k - a4)) else bit_at dest k))"
  using CopyBits_spec[OF assms] by (simp add: bits_copied_def)

theorem copy_bits_moves_run_witness:
  "\<exists>d. CopyBits [0xFF, 0, 0xFF, 0xFF] [0xA5, 0x5A, 0xC3] 19 5 3 = Some d \<and> length d = length [0xFF, 0, 0xFF, 0xFF :: byte] \<and>
    (\<forall>k < 8 * length [0xFF, 0, 0xFF, 0xFF :: byte]. bit_at d k =
      (if 5 \<le> k \<and> k < 5 + 19 then bit_at [0xA5, 0x5A, 0xC3] (3 + (k - 5)) else bit_at [0xFF, 0, 0xFF, 0xFF] k))"
  by (rule copy_bits_moves_run) simp_all

lemma put_loop_overruns:
  "idx \<le> length dest \<Longrightarrow> length dest < idx + count \<Longrightarrow> put_loop count v mk dest idx = None"
proof (induction count arbitrary: v mk dest idx)
  case (Suc count)
  show ?case
  proof (cases "idx < length dest")
    case True
    have "put_loop count (push_bit 8 v) (push_bit 8 mk) (dest[idx := b]) (idx + 1) = None" for b
      using Suc.prems True by (intro Suc.IH) simp_all
    with True show ?thesis by (simp add: mem_simps)
  qed (simp add: mem_simps)
qed simp

lemma phase1_count_huge:
  assumes "0 < v8" "0 < a3" "v8 + a3 < 8" "d < 8"
  shows "2 ^ 28 < phase1_count v8 a3 d"
proof -
  have v8: "v8 \<in> {1, 2, 3, 4, 5, 6}" and a3: "a3 \<in> {1, 2, 3, 4, 5, 6}" using assms by auto
  have small: "(word_of_nat v8 - 9 :: u32) < NOT (word_of_nat a3)"
    using v8 a3 assms(3) by (elim insertE emptyE) simp_all
  have "d \<in> {0, 1, 2, 3, 4, 5, 6, 7}" using assms(4) by auto
  then have "2 ^ 28 \<le> unat (drop_bit 3 (word_of_nat d - 10 :: u32))"
    by (elim insertE emptyE) (simp_all add: drop_bit_eq_div unat_div_distrib)
  then show ?thesis using small assms(2) by (simp add: phase1_count_def Let_def)
qed

text \<open>In the excluded case the code writes past the end of every destination array
  below 2 to the 28 bytes: the store count of its first phase, computed with \<open>!\<close> where \<open>~\<close> was
  meant, is more than 2 to the 28.\<close>

theorem copy_bits_short_run_overruns:
  assumes "0 < a3" "a5 mod 8 + a3 < 8" "a5 mod 8 \<noteq> 0" "8 < a4 mod 8 + a3"
    and "length dest \<le> 2 ^ 28" "a4 < 8 * length dest" "a5 < 8 * length src"
  shows "CopyBits dest src a3 a4 a5 = None"
proof -
  have idx: "a5 div 8 < length src" "a4 div 8 < length dest" using assms by (simp_all add: less_mult_imp_div_less mult.commute)
  have huge: "2 ^ 28 < phase1_count (a5 mod 8) a3 (a4 mod 8)"
    using assms by (intro phase1_count_huge) simp_all
  have cases: "8 - a4 mod 8 < a3" "a3 < 8 - a5 mod 8" using assms by simp_all
  have "put_top v mk dest (a4 div 8) s (phase1_count (a5 mod 8) a3 (a4 mod 8)) = None" for v mk s
    using idx(2) huge assms(5) by (simp add: put_top_def mem_simps put_loop_overruns)
  then show ?thesis using idx(1) cases assms(3)
    by (simp add: CopyBits_def Let_def mem_simps)
qed

theorem copy_bits_short_run_overruns_witness:
  "CopyBits [0, 0, 0, 0] [0xFF, 0xFF] 3 7 1 = None"
  by (rule copy_bits_short_run_overruns) simp_all

section \<open>Single fields\<close>

text \<open>The shift-and-or loop of the single-field reader returns the next bits, most
  significant first, and the single-field writer changes exactly the bits of its field: what is written
  at a position is read back there, cut to the width, and no other bit of the buffer moves.\<close>

theorem field_write_read:
  assumes "mb_wf b" "0 < n" "n \<le> 32" "m_curBit b + n \<le> m_maxBit b"
  shows "\<exists>b'. WriteBitsSingle False v n b = Some (True, b') \<and> m_curBit b' = m_curBit b + n \<and>
    length (m_data b') = length (m_data b) \<and>
    (\<forall>k. \<not> (m_curBit b \<le> k \<and> k < m_curBit b + n) \<longrightarrow> bit_at (m_data b') k = bit_at (m_data b) k) \<and>
    ReadBitsSingle False n (SetCurrentBit (m_curBit b) b') = Some (Some (take_bit n v), b')"
proof -
  have nh: "\<not> (n = 13 \<and> False)" by simp
  obtain d where d: "WriteBitsSingle False v n b = Some (True, b\<lparr>m_data := d, m_curBit := m_curBit b + n\<rparr>)"
    "length d = length (m_data b)"
    "\<And>k. bit_at d k = (if m_curBit b \<le> k \<and> k < m_curBit b + n then bit v (n - 1 - (k - m_curBit b))
      else bit_at (m_data b) k)"
    using WriteBitsSingle_value[OF assms(1-3) nh assms(4)] by blast
  let ?b' = "b\<lparr>m_data := d, m_curBit := m_curBit b + n\<rparr>" and ?r = "b\<lparr>m_data := d\<rparr>"
  have r: "SetCurrentBit (m_curBit b) ?b' = ?r" using assms(4) by (simp add: SetCurrentBit_def)
  have wf: "mb_wf ?r" using assms(1) d(2) by (simp add: mb_wf_def)
  have "take n (pending ?r) = word_bits n v"
    by (rule nth_equalityI) (use assms(4) in \<open>auto simp: pending_def d(3)\<close>)
  then have "ReadBitsSingle False n ?r = Some (Some (take_bit n v), ?b')"
    using ReadBitsSingle_value[OF wf assms(2,3) nh] assms(4) by (simp add: bits_word_word_bits)
  with d r show ?thesis by (intro exI[of _ ?b']) simp
qed

theorem field_write_read_witness:
  "\<exists>b'. WriteBitsSingle False 0x1ABCD 17 (SetCurrentBit 5 (mb_of_size 4)) = Some (True, b') \<and>
    ReadBitsSingle False 17 (SetCurrentBit 5 b') = Some (Some (take_bit 17 0x1ABCD), b')"
proof -
  let ?b = "SetCurrentBit 5 (mb_of_size 4)"
  have b: "mb_wf ?b" "m_curBit ?b = 5" "m_maxBit ?b = 32"
    by (simp_all add: mb_wf_def SetCurrentBit_def mb_of_size_def)
  have "\<exists>b'. WriteBitsSingle False 0x1ABCD 17 ?b = Some (True, b') \<and> m_curBit b' = m_curBit ?b + 17 \<and>
    length (m_data b') = length (m_data ?b) \<and>
    (\<forall>k. \<not> (m_curBit ?b \<le> k \<and> k < m_curBit ?b + 17) \<longrightarrow> bit_at (m_data b') k = bit_at (m_data ?b) k) \<and>
    ReadBitsSingle False 17 (SetCurrentBit (m_curBit ?b) b') = Some (Some (take_bit 17 0x1ABCD), b')"
    by (rule field_write_read) (simp_all add: b)
  then show ?thesis unfolding b(2) by blast
qed

lemma xor_all_ones: "x XOR (0xFFFFFFFF :: u32) = NOT x" "x XOR (- 1 :: u32) = NOT x"
proof -
  have "(0xFFFFFFFF :: u32) = - 1" by simp
  then show "x XOR (0xFFFFFFFF :: u32) = NOT x" by (simp only: bit.xor_one_right)
  show "x XOR (- 1 :: u32) = NOT x" by simp
qed

lemma sint_not: "sint (NOT (v :: u32)) = - sint v - 1"
proof -
  have "sint (NOT v) = NOT (sint v)"
    by (rule bit_eqI) (auto simp: bit_sint_iff bit_not_iff dest: bit_imp_le_length)
  then show ?thesis by (simp add: not_int_def)
qed

lemma take_bit_signed:
  assumes "0 \<le> sint w" "sint w < 2 ^ k"
  shows "take_bit k w = (w :: u32)"
proof (rule take_bit_small)
  have "uint w = sint w" using assms(1) using sint_lt[of w] unfolding uint_sint
    by (intro take_bit_int_eq_self) simp_all
  then show "unat w < 2 ^ k" using assms by (simp add: unat_eq_nat_uint nat_less_iff)
qed

lemma pending_rewind:
  assumes "mb_wok b'" "written b' = written b @ xs"
  shows "\<exists>rest. pending (SetCurrentBit (m_curBit b) b') = xs @ rest"
proof -
  have cur: "m_curBit b' = m_curBit b + length xs" using assms(2) by (metis length_append length_written)
  have "take (length xs) (pending (SetCurrentBit (m_curBit b) b')) = xs"
  proof (rule nth_equalityI)
    fix k assume "k < length (take (length xs) (pending (SetCurrentBit (m_curBit b) b')))"
    then have k: "k < length xs" by simp
    have "written b' ! (m_curBit b + k) = xs ! k" using assms(2) by (simp add: nth_append)
    then show "take (length xs) (pending (SetCurrentBit (m_curBit b) b')) ! k = xs ! k"
      using k cur assms(1) by (auto simp: pending_def written_def SetCurrentBit_def mb_wok_def)
  next
    have "length xs \<le> m_maxBit b' - m_curBit b" using cur assms(1) by (auto simp: mb_wok_def)
    then show "length (take (length xs) (pending (SetCurrentBit (m_curBit b) b'))) = length xs"
      using cur assms(1) by (simp add: SetCurrentBit_def mb_wok_def)
  qed
  then show ?thesis by (metis append_take_drop_id)
qed

text \<open>A signed field of \<open>n\<close> bits gives back every non-negative value below
  \<open>2 ^ (n - 1)\<close>, and every negative value from \<open>- 2 ^ (n - 1)\<close> on plus one: the writer stores the one's
  complement of a negative value and the reader negates it as a two's complement.\<close>

theorem signed_field_roundtrip:
  assumes "mb_wok b" "1 < n" "n \<le> 32" "n \<le> mb_room b"
    and "- (2 ^ (n - 1)) \<le> sint v" "sint v < 2 ^ (n - 1)"
  shows "\<exists>b' b''. WriteSigned False n v b = Some b' \<and> ReadSigned False n (SetCurrentBit (m_curBit b) b') =
    Some (if sint v < 0 then v + 1 else v, b'')"
proof -
  define neg where "neg \<longleftrightarrow> sint v < 0"
  define sign w :: u32 where "sign = (if neg then 1 else 0)" and "w = (if neg then NOT v else v)"
  have n': "0 < n - 1" "n - 1 \<le> 32" using assms(2,3) by simp_all
  have w_eq: "v XOR (if sint v < 0 then 0xFFFFFFFF else 0) = w"
    by (simp add: w_def neg_def xor_all_ones)
  have "take_bit (n - 1) w = w"
    using assms(3,5,6) by (intro take_bit_signed) (auto simp: w_def neg_def sint_not)
  obtain b1 where b1: "Write False 1 sign b = Some b1" "mb_wok b1" "written b1 = written b @ word_bits 1 sign"
    "mb_room b1 = mb_room b - 1"
    using mb_out.wr_value[OF assms(1), of 1 sign] assms(2,4) by auto
  obtain b2 where b2: "Write False (n - 1) w b1 = Some b2" "mb_wok b2"
    "written b2 = written b1 @ word_bits (n - 1) w"
    using mb_out.wr_value[OF b1(2) n'(1,2), of w] assms(4) b1(4) diff_le_mono[OF assms(4), of 1]
    by (auto simp del: One_nat_def)
  have "WriteSigned False n v b = Some b2"
    using b1(1) b2(1) w_eq by (simp add: WriteSigned_def Let_def sign_def neg_def)
  moreover obtain rest where rest: "pending (SetCurrentBit (m_curBit b) b2) = word_bits 1 sign @ word_bits (n - 1) w @ rest"
    using pending_rewind[OF b2(2), of b "word_bits 1 sign @ word_bits (n - 1) w"] b1(3) b2(3) by auto
  have wf: "mb_wf (SetCurrentBit (m_curBit b) b2)" using b2(2) by (simp add: mb_wok_def SetCurrentBit_def mb_wf_advance)
  obtain b3 where b3: "ReadBitsSingle False 1 (SetCurrentBit (m_curBit b) b2) = Some (Some (take_bit 1 sign), b3)"
    "mb_wf b3" "pending b3 = word_bits (n - 1) w @ rest"
    using mb_in.rd_field[OF wf _ _ rest] by auto
  obtain b4 where b4: "ReadBitsSingle False (n - 1) b3 = Some (Some (take_bit (n - 1) w), b4)"
    using mb_in.rd_field[OF b3(2) n' b3(3)] by blast
  have "sign + (w XOR - sign) = (if sint v < 0 then v + 1 else v)"
    by (simp add: sign_def w_def neg_def xor_all_ones)
  moreover have "take_bit 1 sign = sign" by (simp add: sign_def take_bit_word_eq_self)
  ultimately show ?thesis
    using b3(1) b4 \<open>take_bit (n - 1) w = w\<close> by (simp add: ReadSigned_def Read_def)
qed

theorem signed_field_roundtrip_witness:
  "\<exists>b' b''. WriteSigned False 9 (- 5) (mb_of_size 4) = Some b' \<and>
    ReadSigned False 9 (SetCurrentBit 0 b') = Some (- 4, b'')"
proof -
  have b: "mb_wok (mb_of_size 4)" "mb_room (mb_of_size 4) = 32" "m_curBit (mb_of_size 4) = 0"
    by (simp_all add: mb_wok_def mb_wf_def mb_room_def mb_of_size_def)
  have v: "sint (- 5 :: u32) = - 5" "(- 5 :: u32) + 1 = - 4" by simp_all
  have "\<exists>b' b''. WriteSigned False 9 (- 5) (mb_of_size 4) = Some b' \<and>
    ReadSigned False 9 (SetCurrentBit (m_curBit (mb_of_size 4)) b') =
      Some (if sint (- 5 :: u32) < 0 then - 5 + 1 else - 5, b'')"
    by (rule signed_field_roundtrip) (simp_all add: b v)
  then show ?thesis unfolding b(3) v by simp
qed

section \<open>Clone\<close>

text \<open>Cloning a byte-aligned buffer with 16 bits or more left writes past the
  copy: because the conditional operator binds weaker than the addition, the copy always gets one
  byte.\<close>

theorem clone_overruns:
  assumes "mb_wf b" "m_curBit b mod 8 = 0" "m_curBit b + 16 \<le> m_maxBit b"
  shows "Clone False b = None"
proof -
  define s where "s = m_maxBit b - m_curBit b"
  have s: "16 \<le> s" "m_curBit b + s = m_maxBit b" using assms(3) by (simp_all add: s_def)
  then have "1 < s div 8" by simp
  then have "copy_into (replicate 1 0) (0 div 8) (drop (m_curBit b div 8) (m_data b)) (s div 8) = None"
    by (simp add: copy_into_def)
  then have "CopyBits (replicate 1 0) (m_data b) s 0 (m_curBit b) = None"
    using assms(2) s(1) \<open>1 < s div 8\<close> by (simp add: CopyBits_def copy_aligned_source_def Let_def)
  then have "ReadBits False (replicate 1 0) s b = None"
    using s by (simp add: ReadBits_def)
  moreover have "(if s div 8 + (if s mod 8 \<noteq> 0 then 1 else 0) \<noteq> 0 then 1 else 0) = (1 :: nat)"
    using \<open>1 < s div 8\<close> by simp
  moreover have "\<not> m_curBit b > m_maxBit b" using s(2) by simp
  ultimately show ?thesis by (simp add: Clone_def Let_def s_def[symmetric])
qed

theorem clone_overruns_witness: "Clone False (mb_of_data [1, 2, 3]) = None"
  by (rule clone_overruns) (simp_all add: mb_wf_def mb_of_data_def)

end
