(* ===== verification/Event_Packet.thy ===== *)
theory Event_Packet
  imports Bit_Stream
begin

unbundle bit_operations_syntax

text \<open>
  The wire format of large events: \<open>EventPacket\<close> of
  \<open>code/components/citizen-resources-core/src/EventReassemblyComponent.cpp\<close>, one fragment of
  an event or its acknowledgement. The lemmas describe the bits a packet is, and that parsing
  them gives the packet back.
\<close>

section \<open>Packets\<close>

definition kPacketSizeBits :: nat where "kPacketSizeBits = 17"
definition kFragmentSize :: nat where "kFragmentSize = 1024 - 1"
definition kFragmentSizeBits :: nat where "kFragmentSizeBits = 10"
definition kMaxPacketSize :: nat where "kMaxPacketSize = 2 ^ kPacketSizeBits * kFragmentSize"

lemmas packet_consts = kPacketSizeBits_def kFragmentSize_def kFragmentSizeBits_def

record event_packet =
  eventId :: u64
  packetIdx :: u32
  totalPackets :: u32
  thisBytes :: u32
  payload :: "byte list"

definition IsAck :: "event_packet \<Rightarrow> bool" where
  "IsAck p \<longleftrightarrow> thisBytes p = 0"

text \<open>
  \<open>Parse\<close> fills a packet that the caller has on its stack; \<open>stack\<close> stands for the 1023
  bytes of \<open>payload\<close> before the call. The result of \<open>ReadBits\<close> is ignored by the code, so a
  fragment that is shorter than its \<open>thisBytes\<close> is accepted with these bytes in its payload.
\<close>

definition Parse :: "byte list \<Rightarrow> msgbuf \<Rightarrow> (event_packet option \<times> msgbuf) option" where
  "Parse stack b = do {
     (low, b) \<leftarrow> ReadBitsSingle False 32 b;
     (case low of None \<Rightarrow> Some (None, b) | Some eventIdLow \<Rightarrow> do {
     (high, b) \<leftarrow> ReadBitsSingle False 32 b;
     (case high of None \<Rightarrow> Some (None, b) | Some eventIdHigh \<Rightarrow> do {
     (idx, b) \<leftarrow> ReadBitsSingle False kPacketSizeBits b;
     (case idx of None \<Rightarrow> Some (None, b) | Some idx \<Rightarrow> do {
     (tot, b) \<leftarrow> ReadBitsSingle False kPacketSizeBits b;
     (case tot of None \<Rightarrow> Some (None, b) | Some tot \<Rightarrow> do {
     (bytes, b) \<leftarrow> ReadBitsSingle False kFragmentSizeBits b;
     (case bytes of None \<Rightarrow> Some (None, b) | Some bytes \<Rightarrow> do {
     (payload, b) \<leftarrow>
       (if bytes > 0 then do {
          (_, payload, b) \<leftarrow> ReadBits False stack (min (unat bytes) kFragmentSize * 8) b;
          Some (payload, b) }
        else Some (stack, b));
     Some (Some \<lparr>eventId = push_bit 32 (ucast eventIdHigh) OR ucast eventIdLow,
       packetIdx = idx, totalPackets = tot, thisBytes = bytes, payload = payload\<rparr>, b) }) }) }) }) }) }"

definition Unparse :: "event_packet \<Rightarrow> msgbuf \<Rightarrow> msgbuf option" where
  "Unparse p b = do {
     b \<leftarrow> Write False 32 (ucast (eventId p AND 0xFFFFFFFF)) b;
     b \<leftarrow> Write False 32 (ucast (drop_bit 32 (eventId p))) b;
     b \<leftarrow> Write False kPacketSizeBits (packetIdx p) b;
     b \<leftarrow> Write False kPacketSizeBits (totalPackets p) b;
     b \<leftarrow> Write False kFragmentSizeBits (thisBytes p) b;
     (if thisBytes p > 0 then do {
        (_, b) \<leftarrow> WriteBits (payload p) (unat (thisBytes p) * 8) b; Some b }
      else Some b) }"

text \<open>\<open>MessageBuffer buf (1536); packet.Unparse (buf)\<close> and the bytes handed to the sink.\<close>

definition packet_bytes :: "event_packet \<Rightarrow> byte list option" where
  "packet_bytes p = do { b \<leftarrow> Unparse p (mb_of_size 1536); Some (mb_flush b) }"

section \<open>The bits of a packet\<close>

definition packet_bits :: "event_packet \<Rightarrow> bool list" where
  "packet_bits p = word_bits 32 (ucast (eventId p) :: u32) @ word_bits 32 (ucast (drop_bit 32 (eventId p)) :: u32)
     @ word_bits 17 (packetIdx p) @ word_bits 17 (totalPackets p) @ word_bits 10 (thisBytes p)
     @ bytes_bits (take (unat (thisBytes p)) (payload p))"

definition packet_ok :: "event_packet \<Rightarrow> bool" where
  "packet_ok p \<longleftrightarrow> packetIdx p < 2 ^ 17 \<and> totalPackets p < 2 ^ 17 \<and> thisBytes p < 2 ^ 10 \<and>
     length (payload p) = kFragmentSize"

definition packet_fits :: "event_packet \<Rightarrow> bool" where
  "packet_fits p \<longleftrightarrow> thisBytes p < 2 ^ 10 \<and> length (payload p) = kFragmentSize"

lemma packet_ok_fits: "packet_ok p \<Longrightarrow> packet_fits p"
  by (simp add: packet_ok_def packet_fits_def)

lemma event_id_split:
  "push_bit 32 (ucast (ucast (drop_bit 32 e) :: u32) :: u64) OR (ucast (ucast e :: u32) :: u64) = (e :: u64)"
proof (rule bit_word_eqI)
  fix i assume "i < LENGTH(64)"
  then show "bit (push_bit 32 (ucast (ucast (drop_bit 32 e) :: u32) :: u64) OR ucast (ucast e :: u32)) i = bit e i"
    by (auto simp: bit_or_iff bit_push_bit_iff bit_ucast_iff bit_drop_bit_eq)
qed

lemma low_half: "(ucast (e AND 0xFFFFFFFF) :: u32) = ucast (e :: u64)"
proof -
  have "(0xFFFFFFFF :: u64) = mask 32" by (simp add: mask_eq_exp_minus_1)
  then show ?thesis
    by (intro bit_word_eqI) (simp only: bit_ucast_iff bit_and_iff bit_mask_iff, auto)
qed

lemma Unparse_bits:
  assumes b: "mb_wok b" "room = mb_room b" "108 + 8 * unat (thisBytes p) \<le> room"
    and p: "packet_fits p"
  shows "\<exists>b'. Unparse p b = Some b' \<and> mb_wok b' \<and> written b' = written b @ packet_bits p"
proof -
  note w = mb_out.wr_value
  let ?n = "unat (thisBytes p)"
  obtain b1 where b1: "Write False 32 (ucast (eventId p)) b = Some b1" "mb_wok b1"
    "written b1 = written b @ word_bits 32 (ucast (eventId p) :: u32)" "mb_room b1 = mb_room b - 32"
    using w[OF b(1), of 32 "ucast (eventId p)"] b by auto
  have r1: "76 + 8 * ?n \<le> mb_room b1" using b(2,3) b1(4) by simp
  obtain b2 where b2: "Write False 32 (ucast (drop_bit 32 (eventId p))) b1 = Some b2" "mb_wok b2"
    "written b2 = written b1 @ word_bits 32 (ucast (drop_bit 32 (eventId p)) :: u32)" "mb_room b2 = mb_room b1 - 32"
    using w[OF b1(2), of 32 "ucast (drop_bit 32 (eventId p))"] r1 by auto
  have r2: "44 + 8 * ?n \<le> mb_room b2" using r1 b2(4) by simp
  obtain b3 where b3: "Write False 17 (packetIdx p) b2 = Some b3" "mb_wok b3"
    "written b3 = written b2 @ word_bits 17 (packetIdx p)" "mb_room b3 = mb_room b2 - 17"
    using w[OF b2(2), of 17 "packetIdx p"] r2 by auto
  have r3: "27 + 8 * ?n \<le> mb_room b3" using r2 b3(4) by simp
  obtain b4 where b4: "Write False 17 (totalPackets p) b3 = Some b4" "mb_wok b4"
    "written b4 = written b3 @ word_bits 17 (totalPackets p)" "mb_room b4 = mb_room b3 - 17"
    using w[OF b3(2), of 17 "totalPackets p"] r3 by auto
  have r4: "10 + 8 * ?n \<le> mb_room b4" using r3 b4(4) by simp
  obtain b5 where b5: "Write False 10 (thisBytes p) b4 = Some b5" "mb_wok b5"
    "written b5 = written b4 @ word_bits 10 (thisBytes p)" "mb_room b5 = mb_room b4 - 10"
    using w[OF b4(2), of 10 "thisBytes p"] r4 by auto
  have room: "8 * ?n \<le> mb_room b5" using r4 b5(4) by simp
  have n: "?n \<le> length (payload p)"
    using p by (simp add: packet_fits_def kFragmentSize_def word_less_nat_alt)
  obtain b6 where b6: "WriteBits (payload p) (?n * 8) b5 = Some (True, b6)" "mb_wok b6"
    "written b6 = written b5 @ bytes_bits (take ?n (payload p))"
    using mb_out.wr_bytes_value[OF b5(2) room n] by (auto simp: mult.commute)
  show ?thesis
  proof (cases "thisBytes p = 0")
    case True
    then have "Unparse p b = Some b5"
      using b1(1) b2(1) b3(1) b4(1) b5(1) by (simp add: Unparse_def low_half packet_consts)
    then show ?thesis using b1 b2 b3 b4 b5 True by (simp add: packet_bits_def bytes_bits_def)
  next
    case False
    then have "Unparse p b = Some b6"
      using b1(1) b2(1) b3(1) b4(1) b5(1) b6(1)
      by (simp add: Unparse_def low_half packet_consts word_neq_0_conv)
    then show ?thesis using b1 b2 b3 b4 b5 b6 by (simp add: packet_bits_def)
  qed
qed

lemma Parse_bits:
  assumes b: "mb_wf b" "pending b = packet_bits p @ rest"
    and p: "packet_ok p" and stack: "length stack = kFragmentSize"
  shows "\<exists>b'. Parse stack b = Some (Some (p\<lparr>payload := take (unat (thisBytes p)) (payload p) @
      drop (unat (thisBytes p)) stack\<rparr>), b') \<and> mb_wf b'"
proof -
  note r = mb_in.rd_field
  let ?n = "unat (thisBytes p)" and ?pay = "bytes_bits (take (unat (thisBytes p)) (payload p))"
  have n: "?n \<le> kFragmentSize" using p by (simp add: packet_ok_def kFragmentSize_def word_less_nat_alt)
  have full: "take_bit 32 w = w" for w :: u32 by (simp add: take_bit_word_eq_self)
  obtain b1 where b1: "ReadBitsSingle False 32 b = Some (Some (ucast (eventId p)), b1)" "mb_wf b1"
    "pending b1 = word_bits 32 (ucast (drop_bit 32 (eventId p)) :: u32) @ word_bits 17 (packetIdx p)
      @ word_bits 17 (totalPackets p) @ word_bits 10 (thisBytes p) @ ?pay @ rest"
    using r[OF b(1), of 32 "ucast (eventId p)"] b(2) by (auto simp: full packet_bits_def)
  obtain b2 where b2: "ReadBitsSingle False 32 b1 = Some (Some (ucast (drop_bit 32 (eventId p))), b2)" "mb_wf b2"
    "pending b2 = word_bits 17 (packetIdx p) @ word_bits 17 (totalPackets p) @ word_bits 10 (thisBytes p) @ ?pay @ rest"
    using r[OF b1(2) _ _ b1(3)] by (auto simp: full)
  obtain b3 where b3: "ReadBitsSingle False 17 b2 = Some (Some (packetIdx p), b3)" "mb_wf b3"
    "pending b3 = word_bits 17 (totalPackets p) @ word_bits 10 (thisBytes p) @ ?pay @ rest"
    using r[OF b2(2) _ _ b2(3)] p by (auto simp: take_bit_less packet_ok_def)
  obtain b4 where b4: "ReadBitsSingle False 17 b3 = Some (Some (totalPackets p), b4)" "mb_wf b4"
    "pending b4 = word_bits 10 (thisBytes p) @ ?pay @ rest"
    using r[OF b3(2) _ _ b3(3)] p by (auto simp: take_bit_less packet_ok_def)
  obtain b5 where b5: "ReadBitsSingle False 10 b4 = Some (Some (thisBytes p), b5)" "mb_wf b5"
    "pending b5 = ?pay @ rest"
    using r[OF b4(2) _ _ b4(3)] p by (auto simp: take_bit_less packet_ok_def)
  have len: "length (take ?n (payload p)) = ?n" using n p by (simp add: packet_ok_def)
  obtain b6 where b6: "ReadBits False stack (?n * 8) b5 = Some (True, take ?n (payload p) @ drop ?n stack, b6)"
    "mb_wf b6"
    using mb_in.rd_bytes_field[OF b5(2) len _ b5(3), of stack] n stack by (auto simp: mult.commute)
  note steps = b1(1) b2(1) b3(1) b4(1) b5(1)
  have id: "push_bit 32 (ucast (ucast (drop_bit 32 (eventId p)) :: u32)) OR ucast (ucast (eventId p) :: u32) = eventId p"
    by (rule event_id_split)
  show ?thesis
  proof (cases "thisBytes p = 0")
    case True
    then show ?thesis using steps b5(2)
      by (simp add: Parse_def packet_consts id)
  next
    case False
    have "min ?n 1023 = ?n" using n by (simp add: kFragmentSize_def)
    then show ?thesis using False steps b6
      by (simp add: Parse_def packet_consts word_neq_0_conv id)
  qed
qed

lemma packet_bytes_value:
  assumes "packet_fits p"
  shows "\<exists>b. packet_bytes p = Some (mb_flush b) \<and> mb_wok b \<and> written b = packet_bits p"
proof -
  have "mb_wok (mb_of_size 1536)" "written (mb_of_size 1536) = []" "mb_room (mb_of_size 1536) = 12288"
    by (simp_all add: mb_wok_def mb_wf_of_size mb_room_def written_def) (simp_all add: mb_of_size_def)
  moreover have "unat (thisBytes p) < 1024" using assms by (simp add: packet_fits_def word_less_nat_alt)
  ultimately show ?thesis
    using Unparse_bits[of "mb_of_size 1536" 12288 p] assms by (auto simp: packet_bytes_def)
qed

lemma packet_roundtrip:
  assumes "packet_ok p" "length stack = kFragmentSize"
  shows "\<exists>d b. packet_bytes p = Some d \<and> Parse stack (mb_of_data d) =
    Some (Some (p\<lparr>payload := take (unat (thisBytes p)) (payload p) @ drop (unat (thisBytes p)) stack\<rparr>), b)"
proof -
  obtain b where b: "packet_bytes p = Some (mb_flush b)" "mb_wok b" "written b = packet_bits p"
    using packet_bytes_value[OF packet_ok_fits[OF assms(1)]] by blast
  obtain pad where "pending (mb_of_data (mb_flush b)) = packet_bits p @ pad"
    using mb.load_flush[OF b(2)] b(3) by auto
  from Parse_bits[OF mb.load_ok[OF b(2)] this assms] b(1) show ?thesis by blast
qed

end
