(* ===== verification/Std_Containers.thy ===== *)
theory Std_Containers
  imports Main
begin

text \<open>
  The standard containers the components keep, where their iteration order can be observed:
  \<open>std::map\<close> as an association list sorted by key, and \<open>std::multimap\<close> as the list of its entries in
  iteration order. A locale states what a client relies on; interpretations show it of the lists.
\<close>

section \<open>The contract of an ordered map\<close>

locale ordered_map =
  fixes lookup :: "'m \<Rightarrow> 'k::linorder \<Rightarrow> 'v option"
    and store :: "'k \<Rightarrow> 'v \<Rightarrow> 'm \<Rightarrow> 'm"
    and items :: "'m \<Rightarrow> ('k \<times> 'v) list"
    and blank :: 'm
    and valid :: "'m \<Rightarrow> bool"
  assumes blank: "valid blank" "lookup blank k = None"
    and valid_store: "valid m \<Longrightarrow> valid (store k v m)"
    and lookup_store: "valid m \<Longrightarrow> lookup (store k v m) k' = (if k' = k then Some v else lookup m k')"
    and items_sorted: "valid m \<Longrightarrow> sorted_wrt (<) (map fst (items m))"
    and items_lookup: "valid m \<Longrightarrow> (k, v) \<in> set (items m) \<longleftrightarrow> lookup m k = Some v"
begin

lemma items_distinct: "valid m \<Longrightarrow> distinct (map fst (items m))"
  using items_sorted strict_sorted_iff by blast

lemma keys_items: "valid m \<Longrightarrow> set (map fst (items m)) = {k. lookup m k \<noteq> None}"
  by (auto simp: items_lookup image_iff) (metis fst_conv items_lookup)

text \<open>A map is iterated exactly once per key, in order: its items are determined.\<close>

lemma items_determined:
  assumes "valid m" "sorted_wrt (<) (map fst xs)" "\<And>k v. (k, v) \<in> set xs \<longleftrightarrow> lookup m k = Some v"
  shows "items m = xs"
proof -
  have s: "set (items m) = set xs" using assms(1,3) by (auto simp: items_lookup)
  have k: "map fst (items m) = map fst xs"
    using items_sorted[OF assms(1)] assms(2) s
    by (intro sorted_distinct_set_unique) (auto simp: strict_sorted_iff simp del: list.map)
  have d: "distinct (map fst xs)" using assms(2) strict_sorted_iff by blast
  show ?thesis
  proof (rule nth_equalityI)
    show len: "length (items m) = length xs" using k by (metis length_map)
    fix i assume i: "i < length (items m)"
    then have "items m ! i \<in> set xs" using s nth_mem by blast
    then obtain j where j: "j < length xs" "xs ! j = items m ! i" by (auto simp: in_set_conv_nth)
    have "map fst xs ! j = map fst xs ! i" using j i k len by (metis nth_map)
    then have "j = i" using d j i len by (simp add: nth_eq_iff_index_eq del: nth_map)
    with j show "items m ! i = xs ! i" by simp
  qed
qed

lemma items_upto:
  assumes "valid m" "\<And>i. lookup m i = (if i \<in> set ks then Some (f i) else None)" "sorted_wrt (<) ks"
  shows "items m = map (\<lambda>i. (i, f i)) ks"
  by (rule items_determined[OF assms(1)]) (use assms(2,3) in \<open>auto simp: comp_def\<close>)

end

section \<open>Sorted association lists\<close>

type_synonym ('k, 'v) omap = "('k \<times> 'v) list"

definition omap_ok :: "('k::linorder, 'v) omap \<Rightarrow> bool" where
  "omap_ok m \<longleftrightarrow> sorted_wrt (<) (map fst m)"

fun omap_put :: "'k::linorder \<Rightarrow> 'v \<Rightarrow> ('k, 'v) omap \<Rightarrow> ('k, 'v) omap" where
  "omap_put k v [] = [(k, v)]"
| "omap_put k v ((k', v') # m) =
     (if k < k' then (k, v) # (k', v') # m
      else if k = k' then (k, v) # m
      else (k', v') # omap_put k v m)"

lemma set_omap_put: "fst ` set (omap_put k v m) = insert k (fst ` set m)"
  by (induction k v m rule: omap_put.induct) auto

lemma omap_ok_put: "omap_ok m \<Longrightarrow> omap_ok (omap_put k v m)"
proof (induction k v m rule: omap_put.induct)
  case (2 k v k' v' m)
  have "set (map fst (omap_put k v m)) = insert k (fst ` set m)"
    using set_omap_put[of k v m] by simp
  with 2 show ?case by (auto simp: omap_ok_def)
qed (simp add: omap_ok_def)

lemma map_of_omap_put:
  "omap_ok m \<Longrightarrow> map_of (omap_put k v m) k' = (if k' = k then Some v else map_of m k')"
proof (induction k v m rule: omap_put.induct)
  case (2 k v k'' v' m)
  then show ?case by (auto simp: omap_ok_def)
qed simp

text \<open>Changing a value in place, and erasing a key.\<close>

definition omap_change :: "'k \<Rightarrow> ('v \<Rightarrow> 'v) \<Rightarrow> ('k, 'v) omap \<Rightarrow> ('k, 'v) omap" where
  "omap_change k f m = map (\<lambda>(k', v). (k', if k' = k then f v else v)) m"

definition omap_erase :: "'k \<Rightarrow> ('k, 'v) omap \<Rightarrow> ('k, 'v) omap" where
  "omap_erase k m = filter (\<lambda>(k', _). k' \<noteq> k) m"

lemma map_of_omap_change: "map_of (omap_change k f m) k' = (if k' = k then map_option f (map_of m k) else map_of m k')"
  by (induction m) (auto simp: omap_change_def)

lemma map_of_omap_erase: "map_of (omap_erase k m) k' = (if k' = k then None else map_of m k')"
  by (induction m) (auto simp: omap_erase_def)

lemma omap_ok_change: "omap_ok (omap_change k f m) = omap_ok m"
proof -
  have "map fst (omap_change k f m) = map fst m" by (induction m) (auto simp: omap_change_def)
  then show ?thesis by (simp add: omap_ok_def)
qed

lemma omap_ok_erase: "omap_ok m \<Longrightarrow> omap_ok (omap_erase k m)"
  by (induction m) (auto simp: omap_ok_def omap_erase_def)

interpretation omap: ordered_map map_of omap_put "\<lambda>m. m" "[]" omap_ok
proof
  show "omap_ok []" by (simp add: omap_ok_def)
  show "map_of [] k = None" for k :: 'a by simp
next
  fix m :: "('a \<times> 'b) list" and k k' :: 'a and v :: 'b
  assume m: "omap_ok m"
  show "omap_ok (omap_put k v m)" using m by (rule omap_ok_put)
  show "map_of (omap_put k v m) k' = (if k' = k then Some v else map_of m k')"
    using m by (rule map_of_omap_put)
  show "sorted_wrt (<) (map fst m)"
    and "(k, v) \<in> set m \<longleftrightarrow> map_of m k = Some v"
    using m by (auto simp: omap_ok_def strict_sorted_iff dest: map_of_SomeD)
qed

section \<open>Multimaps\<close>

text \<open>\<open>std::multimap::insert\<close>: behind the entries that are not greater.\<close>

fun multi_insert :: "('k::ord) \<Rightarrow> 'v \<Rightarrow> ('k \<times> 'v) list \<Rightarrow> ('k \<times> 'v) list" where
  "multi_insert k v [] = [(k, v)]"
| "multi_insert k v ((k', v') # m) =
     (if k < k' then (k, v) # (k', v') # m else (k', v') # multi_insert k v m)"

lemma set_multi_insert [simp]: "set (multi_insert k v m) = insert (k, v) (set m)"
  by (induction k v m rule: multi_insert.induct) auto

text \<open>The values whose key is equivalent to the one asked for (\<open>equal_range\<close>); \<open>key\<close> is what the order looks at.\<close>

definition range_of :: "('k \<Rightarrow> 'o) \<Rightarrow> 'o \<Rightarrow> ('k \<times> 'v) list \<Rightarrow> 'v list" where
  "range_of key k m = map snd (filter (\<lambda>(k', _). key k' = k) m)"

lemma range_of_simps [simp]:
  "range_of key k [] = []" "range_of key k ((k', v) # m) = (if key k' = k then [v] else []) @ range_of key k m"
  by (simp_all add: range_of_def)

text \<open>
  The contract: the order compares by a key. Then the entries stay sorted, and the values under one key
  are in the order in which they were inserted, whatever else was inserted between them.
\<close>

locale multimap =
  fixes key :: "'k::ord \<Rightarrow> 'o::linorder"
  assumes less_key: "a < b \<longleftrightarrow> key a < key b"
begin

definition ordered :: "('k \<times> 'v) list \<Rightarrow> bool" where
  "ordered m \<longleftrightarrow> sorted (map (key \<circ> fst) m)"

lemma ordered_Nil [simp]: "ordered []"
  by (simp add: ordered_def)

lemma ordered_insert: "ordered m \<Longrightarrow> ordered (multi_insert k v m)"
proof (induction k v m rule: multi_insert.induct)
  case (2 k v k' v' m)
  then show ?case by (fastforce simp: ordered_def less_key not_less)
qed (simp add: ordered_def)

lemma range_greater: "ordered ((k, v) # m) \<Longrightarrow> i < key k \<Longrightarrow> range_of key i ((k, v) # m) = []"
  by (fastforce simp: ordered_def range_of_def filter_empty_conv)

lemma range_insert: "ordered m \<Longrightarrow> range_of key i (multi_insert k v m) = range_of key i m @ (if key k = i then [v] else [])"
proof (induction k v m rule: multi_insert.induct)
  case (2 k v k' v' m)
  show ?case
  proof (cases "k < k'")
    case True
    then have "key k = i \<Longrightarrow> range_of key i ((k', v') # m) = []" using range_greater[OF 2(2)] by (simp add: less_key)
    then show ?thesis using True by (auto simp del: range_of_simps(2) simp: range_of_simps(2)[of _ _ k])
  next
    case False
    have "ordered m" using 2(2) by (simp add: ordered_def)
    then show ?thesis using False 2(1) by simp
  qed
qed simp

lemma ordered_remove: "ordered m \<Longrightarrow> ordered (filter P m)"
  by (induction m) (auto simp: ordered_def)

lemma range_insert_all:
  "ordered m \<Longrightarrow> ordered (fold (\<lambda>(k, v). multi_insert k v) es m) \<and>
    range_of key i (fold (\<lambda>(k, v). multi_insert k v) es m) = range_of key i m @ range_of key i es"
proof (induction es arbitrary: m)
  case (Cons e es)
  then show ?case by (cases e) (simp add: ordered_insert range_insert)
qed simp

end

end
