(* ===== verification/Event_Reassembly.thy ===== *)
theory Event_Reassembly
  imports Event_Packet Std_Containers
begin

unbundle bit_operations_syntax

text \<open>
  \<open>EventReassemblyComponentImpl\<close> of
  \<open>code/components/citizen-resources-core/src/EventReassemblyComponent.cpp\<close>: an event of up to
  134 MB is cut into fragments of 1023 bytes, sent in bursts until every target has
  acknowledged every fragment, and put together again on the other side.

  Conventions: the component's methods are functions on the record \<open>reassembly\<close> that also return
  the calls they make outside it, in order; \<open>None\<close> is an access outside an array. The clock
  is an argument, and so is the order in which the hash table \<open>m_sendList\<close> is iterated. The
  sink's \<open>LimitEvent\<close> is an argument. The mutex makes every method atomic: a run is a sequence of
  method calls.
\<close>

section \<open>State\<close>

record per_target =
  lastSend :: int
  delayNextSend :: int
  ackBits :: "bool list"
  lastBit :: nat

record send_event =
  se_targets :: "int set"
  bytesPerSecond :: int
  sendPayload :: "byte list"
  targetData :: "int \<rightharpoonup> per_target option"

record receive_event =
  re_source :: int
  ackedBits :: "bool list"
  completed :: bool
  timeLastAck :: int
  packetData :: "(u32, nat \<times> byte list) omap"

text \<open>\<open>static_eventName\<close> is the function-local \<open>static char eventName[65536]\<close>.\<close>

record reassembly =
  m_sendList :: "u64 \<rightharpoonup> send_event"
  m_receiveList :: "int \<times> u64 \<rightharpoonup> receive_event"
  m_targets :: "int set"
  m_eventId :: u64
  m_lastTime :: int
  m_lastCleanup :: int
  static_eventName :: "byte list"

datatype effect =
    SendPacket int "byte list"
  | QueueEvent "byte list" "byte list" string

definition make_reassembly :: "int \<Rightarrow> reassembly" where
  "make_reassembly now = \<lparr>m_sendList = Map.empty, m_receiveList = Map.empty, m_targets = {},
     m_eventId = 0, m_lastTime = now, m_lastCleanup = now, static_eventName = replicate 65536 0\<rparr>"

definition RegisterTarget :: "int \<Rightarrow> reassembly \<Rightarrow> reassembly" where
  "RegisterTarget i st = st\<lparr>m_targets := insert i (m_targets st)\<rparr>"

definition UnregisterTarget :: "int \<Rightarrow> reassembly \<Rightarrow> reassembly" where
  "UnregisterTarget i st =
     (if i \<in> m_targets st then
        st\<lparr>m_targets := m_targets st - {i},
           m_receiveList := (\<lambda>k. if fst k = i then None else m_receiveList st k),
           m_sendList := (\<lambda>e. map_option (\<lambda>ev. ev\<lparr>targetData := (targetData ev)(i := None),
             se_targets := se_targets ev - {i}\<rparr>) (m_sendList st e))\<rparr>
      else st)"

section \<open>Sending\<close>

definition TriggerEvent :: "int \<Rightarrow> byte list \<Rightarrow> byte list \<Rightarrow> int \<Rightarrow> reassembly \<Rightarrow> reassembly option" where
  "TriggerEvent target eventName eventPayload bps st =
     (let bps = (if bps \<le> 0 then 25000 else bps) in
      if length eventPayload + length eventName + 2 \<ge> kMaxPacketSize then Some st
      else if target \<noteq> - 1 \<and> target \<notin> m_targets st then Some st
      else do {
        let targets = (if target = - 1 then m_targets st else {target});
        let payloadBuf = mb_of_size (length eventName + 2 + length eventPayload);
        payloadBuf \<leftarrow> Write False 16 (word_of_nat (length eventName)) payloadBuf;
        (_, payloadBuf) \<leftarrow> WriteBits eventName (length eventName * 8) payloadBuf;
        sendPayload \<leftarrow> copy_into (m_data payloadBuf) (GetCurrentBit payloadBuf div 8) eventPayload (length eventPayload);
        let packetCount = length sendPayload div kFragmentSize;
        let packetCount = (if length sendPayload mod kFragmentSize \<noteq> 0 then packetCount + 1 else packetCount);
        let fresh = \<lparr>lastSend = 0, delayNextSend = 0, ackBits = replicate packetCount False, lastBit = 0\<rparr>;
        let ev = \<lparr>se_targets = targets, bytesPerSecond = bps, sendPayload = sendPayload,
          targetData = (\<lambda>t. if t \<in> targets then Some (Some fresh) else None)\<rparr>;
        Some (st\<lparr>m_sendList := (if m_sendList st (m_eventId st) = None
            then (m_sendList st)(m_eventId st \<mapsto> ev) else m_sendList st),
          m_eventId := m_eventId st + 1\<rparr>) })"

subsection \<open>Pacing\<close>

text \<open>
  \<open>latency = uint64_t (1000 / (bytesPerSecond / (double) kFragmentSize))\<close>, in IEEE double
  arithmetic: a double is \<open>m * 2 ^ - s\<close> with a 53-bit \<open>m\<close>; a division is rounded to the nearest
  such number, ties to even.
\<close>

fun bit_len :: "nat \<Rightarrow> nat" where
  "bit_len n = (if n = 0 then 0 else Suc (bit_len (n div 2)))"

declare bit_len.simps [simp del]

definition rne_div :: "nat \<Rightarrow> nat \<Rightarrow> nat" where
  "rne_div a b = (let q = a div b; r = a mod b in
     if 2 * r > b \<or> (2 * r = b \<and> odd q) then q + 1 else q)"

definition double_div :: "nat \<Rightarrow> nat \<Rightarrow> nat \<times> nat" where
  "double_div a b =
     (let s = 53 + bit_len b - bit_len a;
          s = (if a * 2 ^ s \<ge> b * 2 ^ 53 then s - 1 else s)
      in (rne_div (a * 2 ^ s) b, s))"

definition send_latency :: "int \<Rightarrow> int" where
  "send_latency bps =
     (let (m, s) = double_div (nat bps) kFragmentSize;
          (m', s') = double_div (1000 * 2 ^ s) m
      in int (m' div 2 ^ s'))"

subsection \<open>One burst to one target\<close>

text \<open>The first clear bit among \<open>count\<close> bits from \<open>bit\<close> on.\<close>

fun scan_bits :: "bool list \<Rightarrow> nat \<Rightarrow> nat \<Rightarrow> nat option option" where
  "scan_bits bits 0 b = Some None"
| "scan_bits bits (Suc count) b =
     (if b \<ge> length bits then None
      else if \<not> bits ! b then Some (Some b)
      else scan_bits bits count (b + 1))"

definition make_fragment :: "u64 \<Rightarrow> byte list \<Rightarrow> nat \<Rightarrow> nat \<Rightarrow> event_packet option" where
  "make_fragment eid data idx total' =
     (let offset = idx * kFragmentSize;
          n = (if offset \<le> length data then min (length data - offset) kFragmentSize else kFragmentSize)
      in do {
        payload \<leftarrow> (if offset + n \<le> length data
                      then copy_into (replicate kFragmentSize 0) 0 (drop offset data) n else None);
        Some \<lparr>eventId = eid, packetIdx = word_of_nat idx, totalPackets = word_of_nat total',
          thisBytes = word_of_nat n, payload = payload\<rparr> })"

text \<open>
  The \<open>do ... while (resTime > latency)\<close> loop. It returns the target's data (\<open>None\<close> when every
  fragment is acknowledged and it is dropped) and the packets sent.
\<close>

lemma scan_bits_bounds: "scan_bits bits n b = Some (Some i) \<Longrightarrow> b \<le> i \<and> i < b + n \<and> i < length bits"
proof (induction n arbitrary: b)
  case (Suc n)
  from Suc.prems Suc.IH[of "Suc b"] show ?case by (force split: if_splits)
qed simp

lemma next_bit_advances:
  assumes "b \<le> i" "i < bc" "\<not> Suc i mod bc \<le> start"
  shows "bc - Suc i mod bc < bc - (b :: nat)"
proof -
  have "Suc i \<noteq> bc" using assms(3) by auto
  then show ?thesis using assms by simp
qed

function burst :: "int \<Rightarrow> int \<Rightarrow> u64 \<Rightarrow> byte list \<Rightarrow> int \<Rightarrow> nat \<Rightarrow> int \<Rightarrow> per_target \<Rightarrow>
    (per_target option \<times> effect list) option" where
  "burst now latency eid data target startBit resTime td =
     (let bc = length (ackBits td) in do {
      early \<leftarrow> scan_bits (ackBits td) (lastBit td) 0;
      nxt \<leftarrow> scan_bits (ackBits td) (bc - lastBit td) (lastBit td);
      (case nxt of
         None \<Rightarrow>
           (case early of
              None \<Rightarrow> Some (None, [])
            | Some first \<Rightarrow> Some (Some (td\<lparr>lastBit := first, delayNextSend := now + 250\<rparr>), []))
       | Some idx \<Rightarrow> do {
           let lb = (idx + 1) mod bc;
           packet \<leftarrow> make_fragment eid data idx bc;
           bytes \<leftarrow> packet_bytes packet;
           let resTime = (if resTime > latency then resTime - latency else resTime);
           (if lb \<le> startBit then
              Some (Some (td\<lparr>lastBit := lb, delayNextSend := now + 250\<rparr>), [SendPacket target bytes])
            else if resTime > latency then do {
              (r, out) \<leftarrow> burst now latency eid data target startBit resTime (td\<lparr>lastBit := lb\<rparr>);
              Some (r, SendPacket target bytes # out) }
            else Some (Some (td\<lparr>lastBit := lb\<rparr>), [SendPacket target bytes])) }) })"
  by pat_completeness auto

termination
proof (relation "measure (\<lambda>(now, latency, eid, data, target, startBit, resTime, td). length (ackBits td) - lastBit td)",
    goal_cases)
  case 2
  then show ?case by (auto dest!: scan_bits_bounds intro: next_bit_advances)
qed simp

declare burst.simps [simp del]

subsection \<open>The network tick\<close>

text \<open>
  One target of one event. \<open>targetData[target]\<close> creates a null entry when there is none. The
  result adds the target to \<open>doneTargets\<close> when it is gone or has everything.
\<close>

definition tick_target :: "int \<Rightarrow> int \<Rightarrow> int set \<Rightarrow> u64 \<Rightarrow> int \<Rightarrow> send_event \<times> int set \<Rightarrow>
    ((send_event \<times> int set) \<times> effect list) option" where
  "tick_target now dT live eid target st =
     (let (ev, doneTargets) = st; latency = send_latency (bytesPerSecond ev) in
      if target \<notin> live then Some ((ev, insert target doneTargets), [])
      else
        let entry = (case targetData ev target of None \<Rightarrow> None | Some e \<Rightarrow> e);
            ev = ev\<lparr>targetData := (targetData ev)(target \<mapsto> entry)\<rparr>
        in case entry of
          None \<Rightarrow> Some ((ev, doneTargets), [])
        | Some td \<Rightarrow>
            if lastSend td + latency < now \<and> delayNextSend td < now then do {
              (r, out) \<leftarrow> burst now latency eid (sendPayload ev) target (lastBit td) dT td;
              Some (case r of
                  None \<Rightarrow> ((ev\<lparr>targetData := (targetData ev)(target \<mapsto> None)\<rparr>, insert target doneTargets), out)
                | Some td \<Rightarrow> ((ev\<lparr>targetData := (targetData ev)(target \<mapsto> Some (td\<lparr>lastSend := now\<rparr>))\<rparr>,
                    doneTargets), out)) }
            else if delayNextSend td \<ge> now then
              Some ((ev\<lparr>targetData := (targetData ev)(target \<mapsto> Some (td\<lparr>lastSend := now\<rparr>))\<rparr>, doneTargets), [])
            else Some ((ev, doneTargets), []))"

text \<open>A loop over a list whose body changes a state and may make calls.\<close>

fun for_each :: "('x \<Rightarrow> 's \<Rightarrow> ('s \<times> 'e list) option) \<Rightarrow> 'x list \<Rightarrow> 's \<Rightarrow> ('s \<times> 'e list) option" where
  "for_each f [] s = Some (s, [])"
| "for_each f (x # xs) s = do {
     (s, out) \<leftarrow> f x s;
     (s, out') \<leftarrow> for_each f xs s;
     Some (s, out @ out') }"

definition tick_event :: "int \<Rightarrow> int \<Rightarrow> int set \<Rightarrow> u64 \<Rightarrow> (u64 \<rightharpoonup> send_event) \<times> u64 set \<Rightarrow>
    (((u64 \<rightharpoonup> send_event) \<times> u64 set) \<times> effect list) option" where
  "tick_event now dT live eid st =
     (let (sends, dones) = st in
      case sends eid of
        None \<Rightarrow> Some ((sends, dones), [])
      | Some ev \<Rightarrow> do {
          ((ev, doneTargets), out) \<leftarrow>
            for_each (tick_target now dT live eid) (sorted_list_of_set (se_targets ev)) (ev, {});
          let ev = ev\<lparr>se_targets := se_targets ev - doneTargets\<rparr>;
          Some ((sends(eid \<mapsto> ev), if se_targets ev = {} then insert eid dones else dones), out) })"

definition NetworkTick :: "int \<Rightarrow> u64 list \<Rightarrow> reassembly \<Rightarrow> (reassembly \<times> effect list) option" where
  "NetworkTick now order st = do {
     let dT = now - m_lastTime st;
     ((sends, dones), out) \<leftarrow> for_each (tick_event now dT (m_targets st)) order (m_sendList st, {});
     Some (st\<lparr>m_lastTime := now,
       m_sendList := (\<lambda>e. if e \<in> dones then None else sends e),
       m_receiveList := (\<lambda>k. case m_receiveList st k of
           None \<Rightarrow> None
         | Some re \<Rightarrow> if completed re \<and> now - timeLastAck re \<ge> 120000 then None else Some re)\<rparr>, out) }"

section \<open>Receiving\<close>

text \<open>\<open>std::to_string\<close> on \<open>int\<close>, and \<open>std::string\<close> of a NUL-terminated array.\<close>

fun digits_of :: "nat \<Rightarrow> string" where
  "digits_of n = (if n < 10 then [''0123456789'' ! n]
     else digits_of (n div 10) @ [''0123456789'' ! (n mod 10)])"

declare digits_of.simps [simp del]

definition std_to_string :: "int \<Rightarrow> string" where
  "std_to_string i = (if i < 0 then ''-'' @ digits_of (nat (- i)) else digits_of (nat i))"

definition c_string :: "byte list \<Rightarrow> byte list" where
  "c_string s = takeWhile (\<lambda>b. b \<noteq> 0) s"

text \<open>The fragments are copied into a buffer of one slot per fragment, then cleared.\<close>

fun place_fragments :: "(u32, nat \<times> byte list) omap \<Rightarrow> byte list \<Rightarrow> nat \<Rightarrow> (byte list \<times> nat) option" where
  "place_fragments [] eventPayload readSize = Some (eventPayload, readSize)"
| "place_fragments ((idx, n, bytes) # rest) eventPayload readSize = do {
     eventPayload \<leftarrow> copy_into eventPayload (unat (idx * word_of_nat kFragmentSize)) bytes n;
     place_fragments rest eventPayload (readSize + n) }"

text \<open>
  \<open>HandleReceivedPacket\<close>. The result of \<open>ReadBits\<close> is ignored: if the name does not fit in what
  was received, the static array keeps its old contents. The position the
  payload starts at is cut at the end of the buffer, so an event of one byte has an empty payload.
\<close>

definition HandleReceivedPacket :: "(int \<Rightarrow> bool) \<Rightarrow> int \<Rightarrow> receive_event \<Rightarrow> byte list \<Rightarrow>
    (receive_event \<times> byte list \<times> effect list) option" where
  "HandleReceivedPacket LimitEvent source event eventName = do {
     (eventPayload, readSize) \<leftarrow>
       place_fragments (packetData event) (replicate (length (ackedBits event) * kFragmentSize) 0) 0;
     let event = event\<lparr>packetData := map (\<lambda>(k, _). (k, 0, [])) (packetData event)\<rparr>;
     contents \<leftarrow> (if readSize \<le> length eventPayload then Some (take readSize eventPayload) else None);
     let buffer = mb_of_data contents;
     (nameLength, buffer) \<leftarrow> Read False 16 buffer;
     (_, eventName, buffer) \<leftarrow> ReadBits False eventName (unat nameLength * 8) buffer;
     eventName \<leftarrow> poke eventName (unat nameLength) 0;
     if LimitEvent source then Some (event, eventName, [])
     else
       let start = GetCurrentBit buffer div 8 in
       Some (event, eventName,
         [QueueEvent (c_string eventName) (drop start contents) (''net:'' @ std_to_string source)]) }"

definition handle_ack :: "int \<Rightarrow> event_packet \<Rightarrow> reassembly \<Rightarrow> reassembly" where
  "handle_ack source packet st =
     (case m_sendList st (eventId packet) of
        None \<Rightarrow> st
      | Some ev \<Rightarrow>
          (case targetData ev source of
             Some (Some td) \<Rightarrow>
               if unat (packetIdx packet) < length (ackBits td) then
                 st\<lparr>m_sendList := (m_sendList st)(eventId packet \<mapsto>
                   ev\<lparr>targetData := (targetData ev)(source \<mapsto>
                     Some (td\<lparr>ackBits := (ackBits td)[unat (packetIdx packet) := True]\<rparr>))\<rparr>)\<rparr>
               else st
           | _ \<Rightarrow> st))"

definition handle_fragment :: "(int \<Rightarrow> bool) \<Rightarrow> int \<Rightarrow> int \<Rightarrow> event_packet \<Rightarrow> reassembly \<Rightarrow>
    (reassembly \<times> effect list) option" where
  "handle_fragment LimitEvent now source packet st =
     (let key = (source, eventId packet);
          re = (case m_receiveList st key of
              None \<Rightarrow> \<lparr>re_source = source, ackedBits = replicate (unat (totalPackets packet)) False,
                completed = False, timeLastAck = 0, packetData = []\<rparr>
            | Some re \<Rightarrow> re);
          idx = unat (packetIdx packet);
          ackedPacket = (if idx < length (ackedBits re) then ackedBits re ! idx else False)
      in
      if re_source re = source \<and> (completed re \<or> ackedPacket) then do {
        ack \<leftarrow> packet_bytes (packet\<lparr>thisBytes := 0\<rparr>);
        Some (st\<lparr>m_receiveList := (m_receiveList st)(key \<mapsto> re\<lparr>timeLastAck := now\<rparr>)\<rparr>, [SendPacket source ack]) }
      else if re_source re = source then do {
        let re = (if idx < length (ackedBits re) then re\<lparr>ackedBits := (ackedBits re)[idx := True]\<rparr> else re);
        newPayload \<leftarrow> copy_into (replicate (unat (thisBytes packet)) 0) 0 (payload packet) (unat (thisBytes packet));
        let re = re\<lparr>packetData := omap_put (packetIdx packet) (unat (thisBytes packet), newPayload) (packetData re)\<rparr>;
        ack \<leftarrow> packet_bytes (packet\<lparr>thisBytes := 0\<rparr>);
        let re = re\<lparr>timeLastAck := now\<rparr>;
        if list_all (\<lambda>b. b) (ackedBits re) then do {
          let re = re\<lparr>completed := True\<rparr>;
          (re, nm, out) \<leftarrow> HandleReceivedPacket LimitEvent source re (static_eventName st);
          Some (st\<lparr>m_receiveList := (m_receiveList st)(key \<mapsto> re), static_eventName := nm\<rparr>,
            SendPacket source ack # out) }
        else Some (st\<lparr>m_receiveList := (m_receiveList st)(key \<mapsto> re)\<rparr>, [SendPacket source ack]) }
      else Some (st\<lparr>m_receiveList := (m_receiveList st)(key \<mapsto> re)\<rparr>, []))"

definition HandlePacket :: "(int \<Rightarrow> bool) \<Rightarrow> byte list \<Rightarrow> int \<Rightarrow> int \<Rightarrow> byte list \<Rightarrow> reassembly \<Rightarrow>
    (reassembly \<times> effect list) option" where
  "HandlePacket LimitEvent stack now source data st = do {
     (packet, _) \<leftarrow> Parse stack (mb_of_data data);
     (case packet of
        None \<Rightarrow> Some (st, [])
      | Some packet \<Rightarrow>
          if IsAck packet then Some (handle_ack source packet st, [])
          else handle_fragment LimitEvent now source packet st) }"

end
