(* ===== verification/Event_Delivery.thy ===== *)
theory Event_Delivery
  imports Event_Reassembly
begin

unbundle bit_operations_syntax

text \<open>
  What the two sides of the event protocol achieve together: the fragments a sender cuts an event
  into, and what a receiver does with any sequence of them.
\<close>

section \<open>The fragments of an event\<close>

definition event_image :: "byte list \<Rightarrow> byte list \<Rightarrow> byte list" where
  "event_image name pay = [word_of_nat (length name div 256), word_of_nat (length name)] @ name @ pay"

definition frag_count :: "byte list \<Rightarrow> nat" where
  "frag_count full = (length full + 1022) div 1023"

definition chunk :: "byte list \<Rightarrow> nat \<Rightarrow> byte list" where
  "chunk full i = take 1023 (drop (1023 * i) full)"

definition fragment_of :: "u64 \<Rightarrow> byte list \<Rightarrow> nat \<Rightarrow> event_packet" where
  "fragment_of eid full i = \<lparr>eventId = eid, packetIdx = word_of_nat i,
     totalPackets = word_of_nat (frag_count full), thisBytes = word_of_nat (length (chunk full i)),
     payload = chunk full i @ replicate (1023 - length (chunk full i)) 0\<rparr>"

definition fragment_bytes :: "u64 \<Rightarrow> byte list \<Rightarrow> nat \<Rightarrow> byte list" where
  "fragment_bytes eid full i = the (packet_bytes (fragment_of eid full i))"

lemma length_chunk: "length (chunk full i) = min 1023 (length full - 1023 * i)"
  by (simp add: chunk_def)

lemma frag_count_less: "i < frag_count full \<longleftrightarrow> 1023 * i < length full"
  using less_eq_div_iff_mult_less_eq[of 1023 "Suc i" "length full + 1022"]
  by (auto simp: frag_count_def Suc_le_eq)

lemma make_fragment_value:
  assumes "i < frag_count full"
  shows "make_fragment eid full i (frag_count full) = Some (fragment_of eid full i)"
proof -
  have i: "1023 * i < length full" using assms by (simp add: frag_count_less)
  have n: "min (length full - 1023 * i) 1023 = length (chunk full i)"
    by (simp add: length_chunk min.commute)
  have c: "take (length (chunk full i)) (drop (1023 * i) full) = chunk full i"
    "1023 * i + length (chunk full i) \<le> length full" "length (chunk full i) \<le> 1023"
    "length (chunk full i) \<le> length full - 1023 * i"
    using i by (simp_all add: length_chunk) (simp_all add: chunk_def min_def)
  show ?thesis
    unfolding make_fragment_def fragment_of_def Let_def kFragmentSize_def mult.commute[of i]
    using i n c by (simp add: copy_into_def)
qed

lemma fragment_fits: "packet_fits (fragment_of eid full i)"
  using word_small_u32[of "length (chunk full i)" 10]
  by (simp add: packet_fits_def fragment_of_def length_chunk kFragmentSize_def)

lemma fragment_ok:
  assumes "i < frag_count full" "frag_count full < 2 ^ 17"
  shows "packet_ok (fragment_of eid full i)"
  using fragment_fits[of eid full i] word_small_u32[of i 17] word_small_u32[of "frag_count full" 17] assms
  by (simp add: packet_fits_def packet_ok_def fragment_of_def)

lemma fragment_bytes_value: "packet_bytes (fragment_of eid full i) = Some (fragment_bytes eid full i)"
  using packet_bytes_value[OF fragment_fits, of eid full i] by (auto simp: fragment_bytes_def)

lemma unat_thisBytes: "unat (thisBytes (fragment_of eid full i)) = length (chunk full i)"
  by (simp add: fragment_of_def unat_small_u32 length_chunk)

text \<open>A fragment parses back, up to the unused tail of its payload array.\<close>

lemma Parse_fragment:
  assumes "i < frag_count full" "frag_count full < 2 ^ 17" "length stack = 1023"
  shows "\<exists>b. Parse stack (mb_of_data (fragment_bytes eid full i)) =
    Some (Some ((fragment_of eid full i)\<lparr>payload := chunk full i @ drop (length (chunk full i)) stack\<rparr>), b)"
proof -
  have "take (length (chunk full i)) (payload (fragment_of eid full i)) = chunk full i"
    by (simp add: fragment_of_def)
  then show ?thesis
    using packet_roundtrip[OF fragment_ok[OF assms(1,2), of eid], of stack] assms(3)
    by (auto simp: unat_thisBytes fragment_bytes_value kFragmentSize_def)
qed

section \<open>A receiver that has some of the fragments\<close>

definition rx :: "int \<Rightarrow> byte list \<Rightarrow> nat set \<Rightarrow> receive_event \<Rightarrow> bool" where
  "rx source full S re \<longleftrightarrow> re_source re = source \<and> \<not> completed re \<and>
     ackedBits re = map (\<lambda>i. i \<in> S) [0..<frag_count full] \<and> omap_ok (packetData re) \<and>
     (\<forall>k. map_of (packetData re) k =
        (if unat k \<in> S then Some (length (chunk full (unat k)), chunk full (unat k)) else None))"

lemma rx_start:
  assumes "frag_count full < 2 ^ 17"
  shows "rx source full {} \<lparr>re_source = source,
    ackedBits = replicate (unat (word_of_nat (frag_count full) :: u32)) False,
    completed = False, timeLastAck = t, packetData = []\<rparr>"
proof -
  have "unat (word_of_nat (frag_count full) :: u32) = frag_count full"
    using assms by (intro unat_small_u32) simp
  then show ?thesis by (simp add: rx_def omap_ok_def map_replicate_const)
qed

lemma rx_add:
  assumes "rx source full S re" "i < frag_count full" "frag_count full < 2 ^ 17"
  shows "rx source full (insert i S) (re\<lparr>ackedBits := (ackedBits re)[i := True],
    packetData := omap_put (word_of_nat i) (length (chunk full i), chunk full i) (packetData re),
    timeLastAck := t\<rparr>)"
proof -
  have i: "unat (word_of_nat i :: u32) = i" using assms(2,3) by (intro unat_small_u32) simp
  have eq: "k = word_of_nat i \<longleftrightarrow> unat k = i" for k :: u32
    using i by (metis word_unat_eq_iff)
  have "(map (\<lambda>i. i \<in> S) [0..<frag_count full])[i := True] = map (\<lambda>j. j \<in> insert i S) [0..<frag_count full]"
    using assms(2) by (intro nth_equalityI) (auto simp: nth_list_update)
  then show ?thesis using assms(1)
    by (auto simp: rx_def omap.valid_store omap.lookup_store eq)
qed

text \<open>With every fragment there, putting them in place gives the event back.\<close>

lemma place_chunks:
  assumes "i \<le> frag_count full" "frag_count full < 2 ^ 17"
  shows "place_fragments (map (\<lambda>j. (word_of_nat j, length (chunk full j), chunk full j)) [i..<frag_count full])
    (take (1023 * i) full @ replicate (1023 * frag_count full - length (take (1023 * i) full)) 0)
    (length (take (1023 * i) full)) =
    Some (full @ replicate (1023 * frag_count full - length full) 0, length full)"
  using assms
proof (induction "frag_count full - i" arbitrary: i)
  case 0
  then have "length full \<le> 1023 * i" by (metis diff_is_0_eq frag_count_less not_less order_refl)
  with 0 show ?case by simp
next
  case (Suc d)
  then have i: "i < frag_count full" by simp
  let ?n = "frag_count full"
  have full: "1023 * i < length full" using i by (simp add: frag_count_less)
  have n: "length full \<le> 1023 * ?n" by (metis frag_count_less nat_less_le not_less)
  have off: "unat (word_of_nat i * word_of_nat kFragmentSize :: u32) = 1023 * i"
  proof -
    have "1023 * i < 4294967296" using i Suc.prems(2) by simp
    then have "unat (word_of_nat (i * 1023) :: u32) = 1023 * i" using unat_small_u32[of "i * 1023"] by simp
    then show ?thesis by (simp add: kFragmentSize_def)
  qed
  have grow: "take (1023 * Suc i) full = take (1023 * i) full @ chunk full i"
    using take_add[of "1023 * i" 1023 full] by (simp add: chunk_def add.commute)
  have len: "length (take (1023 * Suc i) full) \<le> 1023 * ?n" using n by simp
  have step: "copy_into (take (1023 * i) full @ replicate (1023 * ?n - length (take (1023 * i) full)) 0)
      (1023 * i) (chunk full i) (length (chunk full i)) =
    Some (take (1023 * Suc i) full @ replicate (1023 * ?n - length (take (1023 * Suc i) full)) 0)"
    using full n i len unfolding copy_into_def grow by (simp add: length_chunk min_def)
  have "length (take (1023 * Suc i) full) = length (take (1023 * i) full) + length (chunk full i)"
    unfolding grow by simp
  then have "place_fragments (map (\<lambda>j. (word_of_nat j, length (chunk full j), chunk full j)) [i..<?n])
    (take (1023 * i) full @ replicate (1023 * ?n - length (take (1023 * i) full)) 0)
    (length (take (1023 * i) full)) =
    place_fragments (map (\<lambda>j. (word_of_nat j, length (chunk full j), chunk full j)) [Suc i..<?n])
    (take (1023 * Suc i) full @ replicate (1023 * ?n - length (take (1023 * Suc i) full)) 0)
    (length (take (1023 * Suc i) full))"
    using i by (simp only: upt_conv_Cons list.map place_fragments.simps off step bind.bind_lunit)
  also have "\<dots> = Some (full @ replicate (1023 * ?n - length full) 0, length full)"
    using Suc.hyps(2) i Suc.prems(2) by (intro Suc.hyps(1)) simp_all
  finally show ?case .
qed

lemma rx_items:
  assumes "rx source full {..<frag_count full} re" "frag_count full < 2 ^ 17"
  shows "packetData re = map (\<lambda>j. (word_of_nat j, length (chunk full j), chunk full j)) [0..<frag_count full]"
proof -
  let ?n = "frag_count full"
  have small: "unat (word_of_nat j :: u32) = j" if "j < ?n" for j
    using that assms(2) by (intro unat_small_u32) simp
  have mem: "k \<in> word_of_nat ` {..<?n} \<longleftrightarrow> unat k < ?n" for k :: u32
    by (auto simp: small intro!: image_eqI[of _ _ "unat k"])
  have "sorted_wrt (<) (map (word_of_nat :: nat \<Rightarrow> u32) [0..<?n])"
    using small by (auto simp: sorted_wrt_map sorted_wrt_iff_nth_less word_less_nat_alt)
  then have "packetData re = map (\<lambda>k. (k, length (chunk full (unat k)), chunk full (unat k)))
      (map (word_of_nat :: nat \<Rightarrow> u32) [0..<?n])"
    using assms(1) mem by (intro omap.items_upto) (auto simp: rx_def atLeast0LessThan)
  then show ?thesis using small by auto
qed

section \<open>Completing an event\<close>

lemma length_event_image: "length (event_image name pay) = length name + 2 + length pay"
  by (simp add: event_image_def)

lemma event_image_bits:
  "bytes_bits (event_image name pay) = word_bits 16 (word_of_nat (length name) :: u32) @ bytes_bits name @ bytes_bits pay"
  unfolding event_image_def bytes_bits_append size_field_bits by simp

lemma c_string_prefix: "0 \<notin> set name \<Longrightarrow> c_string (name @ 0 # rest) = name"
  unfolding c_string_def by (subst takeWhile_append2) auto

lemma HandleReceivedPacket_complete:
  assumes rx: "rx source full {..<frag_count full} re0"
    and re: "packetData re = packetData re0" "ackedBits re = ackedBits re0"
    and full: "full = event_image name pay" "frag_count full < 2 ^ 17"
    and name: "0 \<notin> set name" "length name < 65536" and buf: "length nm = 65536"
    and limit: "\<not> LimitEvent source"
  shows "\<exists>nm'. HandleReceivedPacket LimitEvent source re nm =
    Some (re\<lparr>packetData := map (\<lambda>(k, _). (k, 0, [])) (packetData re)\<rparr>, nm',
      [QueueEvent name pay (''net:'' @ std_to_string source)]) \<and> length nm' = 65536"
proof -
  let ?n = "frag_count full" and ?len = "length name"
  define b where "b = mb_of_data full"
  have len: "length full = ?len + 2 + length pay" using full(1) by (simp add: length_event_image)
  have n: "length full \<le> 1023 * ?n" by (metis frag_count_less nat_less_le not_less)
  then have wf: "mb_wf b" unfolding b_def using full(2) by (intro mb_wf_of_data) simp
  have place: "place_fragments (packetData re) (replicate (length (ackedBits re) * kFragmentSize) 0) 0 =
      Some (full @ replicate (1023 * ?n - length full) 0, length full)"
    using place_chunks[of 0 full] full(2) rx_items[OF rx full(2)] rx re
    by (simp add: rx_def kFragmentSize_def mult.commute)
  have fits: "16 + 8 * ?len \<le> m_maxBit b" "m_curBit b = 0" "m_data b = full" "m_maxBit b = 8 * length full"
    using len by (simp_all add: b_def mb_of_data_def)
  have pend: "pending b = word_bits 16 (word_of_nat ?len :: u32) @ bytes_bits name @ bytes_bits pay"
    unfolding b_def pending_of_data full(1) event_image_bits ..
  have w: "take_bit 16 (word_of_nat ?len :: u32) = word_of_nat ?len" "unat (word_of_nat ?len :: u32) = ?len"
    using name(2) take_bit_less[OF word_small_u32[of ?len 16]] by (simp_all add: unat_small_u32)
  define b1 where "b1 = b\<lparr>m_curBit := 16\<rparr>"
  have read: "Read False 16 b = Some (word_of_nat ?len, b1)"
    using ReadBitsSingle_value[of b 16 False] wf fits(1,2)
    by (simp add: Read_def pend bits_word_word_bits w(1) b1_def)
  have b1: "mb_wf b1" "m_curBit b1 + 8 * ?len \<le> m_maxBit b1" "m_data b1 = full" "m_curBit b1 = 16"
    using wf fits by (simp_all add: b1_def mb_wf_advance)
  have dest: "8 * ?len \<le> 8 * length nm" "?len \<le> length nm" using name(2) buf by simp_all
  have "\<not> (8 * ?len = 13 \<and> False)" by simp
  from ReadBits_value[OF b1(1) this b1(2) dest(1)] obtain d where
    d: "ReadBits False nm (8 * ?len) b1 = Some (True, d, b1\<lparr>m_curBit := 16 + 8 * ?len\<rparr>)"
      "bits_copied nm d full 0 16 (8 * ?len)"
    using b1 by auto
  from bits_copied_bytes[OF d(2) dest(2) fits(1)] obtain p where
    p: "d = p @ drop ?len nm" "length p = ?len" "bytes_bits p = take (8 * ?len) (map (bit_at full) [16..<m_maxBit b])"
    by blast
  have "map (bit_at full) [16..<m_maxBit b] = pending b1"
    by (simp add: pending_def b1_def fits(3))
  also have "\<dots> = bytes_bits name @ bytes_bits pay"
    using pending_advance[of b 16] by (simp add: b1_def fits(2) pend)
  finally have "p = name" using p by (intro bytes_bits_inject) simp
  define nm' where "nm' = d[?len := 0]"
  have "drop ?len nm \<noteq> []" using name(2) buf by simp
  then obtain x xs where "drop ?len nm = x # xs" by (cases "drop ?len nm") auto
  then have dx: "d = name @ x # xs" using p(1) \<open>p = name\<close> by simp
  have "length d = 65536" using d(2) buf by (simp add: bits_copied_def)
  then have nm': "c_string nm' = name" "length nm' = 65536" "poke d ?len 0 = Some nm'"
    using name(2) by (simp_all add: nm'_def poke_def) (simp add: dx c_string_prefix[OF name(1)])
  have start: "(16 + 8 * ?len) div 8 = 2 + ?len" by simp
  have cur: "GetCurrentBit (b1\<lparr>m_curBit := 16 + 8 * ?len\<rparr>) = 16 + 8 * ?len"
    using fits(1) by (simp add: GetCurrentBit_def b1_def)
  have drp: "drop (2 + ?len) full = pay" using full(1) by (simp add: event_image_def)
  have "HandleReceivedPacket LimitEvent source re nm =
    Some (re\<lparr>packetData := map (\<lambda>(k, _). (k, 0, [])) (packetData re)\<rparr>, nm',
      [QueueEvent name pay (''net:'' @ std_to_string source)])"
    unfolding HandleReceivedPacket_def place
    using read d(1) nm' limit len drp cur
    by (simp add: b_def[symmetric] w(2) mult.commute[of _ 8] Let_def start del: upt_Suc)
  then show ?thesis using nm'(2) by blast
qed

section \<open>Any sequence of fragments\<close>

text \<open>The receiver's record of one event: the fragments it has, or that it is complete.\<close>

definition receiving :: "int \<Rightarrow> u64 \<Rightarrow> byte list \<Rightarrow> nat set \<Rightarrow> reassembly \<Rightarrow> bool" where
  "receiving source eid full S st \<longleftrightarrow> length (static_eventName st) = 65536 \<and>
     (case m_receiveList st (source, eid) of None \<Rightarrow> S = {} | Some re \<Rightarrow> rx source full S re)"

definition received :: "int \<Rightarrow> u64 \<Rightarrow> reassembly \<Rightarrow> bool" where
  "received source eid st \<longleftrightarrow>
     (\<exists>re. m_receiveList st (source, eid) = Some re \<and> re_source re = source \<and> completed re)"

fun is_send :: "effect \<Rightarrow> bool" where
  "is_send (SendPacket _ _) = True"
| "is_send _ = False"

definition queued :: "effect list \<Rightarrow> effect list" where
  "queued out = filter (\<lambda>e. \<not> is_send e) out"

lemma queued_simps [simp]:
  "queued [] = []" "queued (SendPacket t d # out) = queued out"
  "queued (QueueEvent a b c # out) = QueueEvent a b c # queued out" "queued (xs @ ys) = queued xs @ queued ys"
  by (simp_all add: queued_def)

abbreviation arrived :: "u64 \<Rightarrow> byte list \<Rightarrow> byte list \<Rightarrow> nat \<Rightarrow> event_packet" where
  "arrived eid full stack i \<equiv>
     (fragment_of eid full i)\<lparr>payload := chunk full i @ drop (length (chunk full i)) stack\<rparr>"

lemma HandlePacket_fragment:
  assumes "i < frag_count full" "frag_count full < 2 ^ 17" "length stack = 1023"
  shows "HandlePacket L stack now source (fragment_bytes eid full i) st =
    handle_fragment L now source (arrived eid full stack i) st"
proof -
  have "0 < length (chunk full i)" using assms(1) by (simp add: frag_count_less length_chunk)
  then have "thisBytes (arrived eid full stack i) \<noteq> 0"
    using unat_thisBytes[of eid full i] by auto
  then show ?thesis using Parse_fragment[OF assms, of eid] by (auto simp: HandlePacket_def IsAck_def)
qed

lemma ack_bytes:
  assumes "length stack = 1023"
  shows "\<exists>a. packet_bytes ((arrived eid full stack i)\<lparr>thisBytes := 0\<rparr>) = Some a"
proof -
  have "packet_fits ((arrived eid full stack i)\<lparr>thisBytes := 0\<rparr>)"
    using assms by (simp add: packet_fits_def kFragmentSize_def length_chunk)
  from packet_bytes_value[OF this] show ?thesis by auto
qed

lemma arrived_fields:
  assumes "i < frag_count full" "frag_count full < 2 ^ 17"
  shows "eventId (arrived eid full stack i) = eid" "unat (word_of_nat i :: u32) = i"
    "packetIdx (arrived eid full stack i) = word_of_nat i"
    "unat (thisBytes (arrived eid full stack i)) = length (chunk full i)"
    "totalPackets (arrived eid full stack i) = word_of_nat (frag_count full)"
  using assms unat_thisBytes[of eid full i] by (simp_all add: fragment_of_def unat_small_u32)

text \<open>A fragment of a complete event is acknowledged and nothing else.\<close>

lemma step_received:
  assumes "received source eid st" "i < frag_count full" "frag_count full < 2 ^ 17" "length stack = 1023"
  shows "\<exists>st' a. HandlePacket L stack now source (fragment_bytes eid full i) st =
    Some (st', [SendPacket source a]) \<and> received source eid st'"
  unfolding HandlePacket_fragment[OF assms(2-4)]
  using assms(1) ack_bytes[OF assms(4), where eid = eid and full = full and i = i]
  by (auto simp: received_def handle_fragment_def Let_def arrived_fields[OF assms(2,3)])

text \<open>A fragment that is already there is acknowledged and nothing else.\<close>

lemma step_known:
  assumes "receiving source eid full S st" "i \<in> S"
    and i: "i < frag_count full" "frag_count full < 2 ^ 17" "length stack = 1023"
  shows "\<exists>st' a. HandlePacket L stack now source (fragment_bytes eid full i) st =
    Some (st', [SendPacket source a]) \<and> receiving source eid full S st'"
proof -
  obtain re where re: "m_receiveList st (source, eid) = Some re" "rx source full S re"
    using assms(1,2) by (auto simp: receiving_def split: option.splits)
  then have "re_source re = source" "i < length (ackedBits re)" "ackedBits re ! i"
    using assms(2) i by (auto simp: rx_def)
  moreover have "rx source full S (re\<lparr>timeLastAck := now\<rparr>)" using re(2) by (simp add: rx_def)
  ultimately show ?thesis
    unfolding HandlePacket_fragment[OF i]
    using re(1) assms(1) ack_bytes[OF i(3), where eid = eid and full = full and i = i]
    by (auto simp: receiving_def handle_fragment_def Let_def arrived_fields[OF i(1,2)])
qed

text \<open>A new fragment is stored; the last one completes the event.\<close>

lemma arrived_new:
  assumes st: "receiving source eid full S st" and new: "i \<notin> S" "S \<subseteq> {..<frag_count full}"
    and i: "i < frag_count full" "frag_count full < 2 ^ 17" "length stack = 1023"
  shows "\<exists>re a. rx source full (insert i S) re \<and> handle_fragment L now source (arrived eid full stack i) st =
    (if insert i S = {..<frag_count full} then do {
       (re, nm, out) \<leftarrow> HandleReceivedPacket L source (re\<lparr>completed := True\<rparr>) (static_eventName st);
       Some (st\<lparr>m_receiveList := (m_receiveList st)((source, eid) \<mapsto> re), static_eventName := nm\<rparr>,
         SendPacket source a # out) }
     else Some (st\<lparr>m_receiveList := (m_receiveList st)((source, eid) \<mapsto> re)\<rparr>, [SendPacket source a]))"
proof -
  let ?p = "arrived eid full stack i"
  define re where "re = (case m_receiveList st (source, eid) of
      None \<Rightarrow> \<lparr>re_source = source, ackedBits = replicate (unat (word_of_nat (frag_count full) :: u32)) False,
        completed = False, timeLastAck = 0, packetData = []\<rparr> | Some re \<Rightarrow> re)"
  have rx: "rx source full S re"
    using st rx_start[OF i(2)] by (auto simp: re_def receiving_def split: option.splits)
  define re' where "re' = re\<lparr>ackedBits := (ackedBits re)[i := True],
    packetData := omap_put (word_of_nat i) (length (chunk full i), chunk full i) (packetData re),
    timeLastAck := now\<rparr>"
  have rx': "rx source full (insert i S) re'" unfolding re'_def by (rule rx_add[OF rx i(1,2)])
  have bits: "re_source re = source" "\<not> completed re" "i < length (ackedBits re)" "\<not> ackedBits re ! i"
    using rx new i by (auto simp: rx_def)
  have "list_all (\<lambda>b. b) (ackedBits re') \<longleftrightarrow> insert i S = {..<frag_count full}"
    using rx' new(2) i(1) by (auto simp: rx_def list_all_iff)
  then have done_iff: "list_all (\<lambda>b. b) ((ackedBits re)[i := True]) \<longleftrightarrow> insert i S = {..<frag_count full}"
    by (simp add: re'_def)
  have copy: "copy_into (replicate (length (chunk full i)) 0) 0 (payload ?p) (length (chunk full i)) =
      Some (chunk full i)" by (simp add: copy_into_def)
  obtain a where a: "packet_bytes (?p\<lparr>thisBytes := 0\<rparr>) = Some a" using ack_bytes[OF i(3)] by blast
  show ?thesis
    using rx' bits done_iff copy a
    unfolding handle_fragment_def Let_def arrived_fields[OF i(1,2)] re_def[symmetric]
    by (intro exI[of _ re'] exI[of _ a]) (simp add: re'_def)
qed

lemma step_new:
  assumes "receiving source eid full S st" "i \<notin> S" "S \<subseteq> {..<frag_count full}"
    and i: "i < frag_count full" "frag_count full < 2 ^ 17" "length stack = 1023"
    and more: "insert i S \<noteq> {..<frag_count full}"
  shows "\<exists>st' a. HandlePacket L stack now source (fragment_bytes eid full i) st =
    Some (st', [SendPacket source a]) \<and> receiving source eid full (insert i S) st'"
  unfolding HandlePacket_fragment[OF i]
  using arrived_new[OF assms(1-3) i, of L now] more assms(1) by (auto simp: receiving_def)

lemma step_last:
  assumes st: "receiving source eid full S st" "i \<notin> S" "S \<subseteq> {..<frag_count full}"
    and i: "i < frag_count full" "frag_count full < 2 ^ 17" "length stack = 1023"
    and all: "insert i S = {..<frag_count full}"
    and full: "full = event_image name pay" and name: "0 \<notin> set name" "length name < 65536"
    and limit: "\<not> L source"
  shows "\<exists>st' a. HandlePacket L stack now source (fragment_bytes eid full i) st =
    Some (st', [SendPacket source a, QueueEvent name pay (''net:'' @ std_to_string source)]) \<and>
    received source eid st'"
proof -
  obtain re a where re: "rx source full {..<frag_count full} re"
    and h: "handle_fragment L now source (arrived eid full stack i) st = do {
       (re, nm, out) \<leftarrow> HandleReceivedPacket L source (re\<lparr>completed := True\<rparr>) (static_eventName st);
       Some (st\<lparr>m_receiveList := (m_receiveList st)((source, eid) \<mapsto> re), static_eventName := nm\<rparr>,
         SendPacket source a # out) }"
    using arrived_new[OF st i, of L now] all by auto
  have nm: "length (static_eventName st) = 65536" using st by (simp add: receiving_def)
  let ?re = "re\<lparr>completed := True\<rparr>"
  have "packetData ?re = packetData re" "ackedBits ?re = ackedBits re" by simp_all
  from HandleReceivedPacket_complete[where LimitEvent = L, OF re this full i(2) name nm limit] h re
  show ?thesis unfolding HandlePacket_fragment[OF i] by (auto simp: received_def rx_def)
qed

text \<open>
  A run of messages of one event: the index of a fragment, the time, and what happens to be on the
  stack.
\<close>

abbreviation receive_all ::
  "(int \<Rightarrow> bool) \<Rightarrow> int \<Rightarrow> u64 \<Rightarrow> byte list \<Rightarrow> (nat \<times> int \<times> byte list) list \<Rightarrow> reassembly \<Rightarrow>
    (reassembly \<times> effect list) option" where
  "receive_all L source eid full ms st \<equiv>
     for_each (\<lambda>(i, now, stack). HandlePacket L stack now source (fragment_bytes eid full i)) ms st"

lemma for_each_Cons:
  "f x s = Some (s1, out1) \<Longrightarrow> for_each f xs s1 = Some (s2, out2) \<Longrightarrow>
    for_each f (x # xs) s = Some (s2, out1 @ out2)"
  by simp

lemma receive_after:
  assumes "received source eid st" "frag_count full < 2 ^ 17"
    "\<forall>(i, now, stack) \<in> set ms. i < frag_count full \<and> length stack = 1023"
  shows "\<exists>st' out. receive_all L source eid full ms st = Some (st', out) \<and> queued out = []"
  using assms
proof (induction ms arbitrary: st)
  case (Cons m ms)
  obtain i now stack where m: "m = (i, now, stack)" by (cases m)
  then have i: "i < frag_count full" "length stack = 1023" using Cons.prems(3) by simp_all
  obtain st1 a where st1: "HandlePacket L stack now source (fragment_bytes eid full i) st =
      Some (st1, [SendPacket source a])" "received source eid st1"
    using step_received[OF Cons.prems(1) i(1) Cons.prems(2) i(2)] by blast
  obtain st2 out where "receive_all L source eid full ms st1 = Some (st2, out)" "queued out = []"
    using Cons.IH[OF st1(2) Cons.prems(2)] Cons.prems(3) by auto
  with st1(1) m show ?case by auto
qed simp

lemma receive_sequence:
  assumes "receiving source eid full S st" "S \<subset> {..<frag_count full}" "frag_count full < 2 ^ 17"
    "\<forall>(i, now, stack) \<in> set ms. i < frag_count full \<and> length stack = 1023"
    and ev: "full = event_image name pay" "0 \<notin> set name" "length name < 65536" "\<not> L source"
  shows "\<exists>st' out. receive_all L source eid full ms st = Some (st', out) \<and>
    queued out = (if S \<union> fst ` set ms = {..<frag_count full}
      then [QueueEvent name pay (''net:'' @ std_to_string source)] else [])"
  using assms(1-4)
proof (induction ms arbitrary: st S)
  case Nil
  then show ?case by auto
next
  case (Cons m ms)
  obtain i now stack where m: "m = (i, now, stack)" by (cases m)
  have i: "i < frag_count full" "frag_count full < 2 ^ 17" "length stack = 1023"
    using Cons.prems(3,4) m by auto
  have S: "S \<subseteq> {..<frag_count full}" using Cons.prems(2) by blast
  have rest: "\<forall>(i, now, stack) \<in> set ms. i < frag_count full \<and> length stack = 1023"
    using Cons.prems(4) by simp
  consider "i \<in> S" | "i \<notin> S" "insert i S \<noteq> {..<frag_count full}" | "i \<notin> S" "insert i S = {..<frag_count full}"
    by blast
  then show ?case
  proof cases
    case 1
    obtain st1 a where st1: "HandlePacket L stack now source (fragment_bytes eid full i) st =
        Some (st1, [SendPacket source a])" "receiving source eid full S st1"
      using step_known[OF Cons.prems(1) 1 i] by blast
    have "S \<union> fst ` set (m # ms) = S \<union> fst ` set ms" using 1 m by auto
    with Cons.IH[OF st1(2) Cons.prems(2,3) rest] obtain st2 out where
      "receive_all L source eid full ms st1 = Some (st2, out)"
      "queued out = (if S \<union> fst ` set (m # ms) = {..<frag_count full}
        then [QueueEvent name pay (''net:'' @ std_to_string source)] else [])"
      by (auto simp del: image_insert list.set)
    then show ?thesis using st1(1) m by (intro exI[of _ st2] exI[of _ "SendPacket source a # out"]) simp
  next
    case 2
    obtain st1 a where st1: "HandlePacket L stack now source (fragment_bytes eid full i) st =
        Some (st1, [SendPacket source a])" "receiving source eid full (insert i S) st1"
      using step_new[OF Cons.prems(1) 2(1) S i 2(2)] by blast
    have "insert i S \<subset> {..<frag_count full}" using 2 i S by auto
    moreover have "S \<union> fst ` set (m # ms) = insert i S \<union> fst ` set ms" using m by auto
    ultimately obtain st2 out where
      "receive_all L source eid full ms st1 = Some (st2, out)"
      "queued out = (if S \<union> fst ` set (m # ms) = {..<frag_count full}
        then [QueueEvent name pay (''net:'' @ std_to_string source)] else [])"
      using Cons.IH[OF st1(2) _ Cons.prems(3) rest] by (auto simp del: image_insert list.set)
    then show ?thesis using st1(1) m by (intro exI[of _ st2] exI[of _ "SendPacket source a # out"]) simp
  next
    case 3
    obtain st1 a where st1: "HandlePacket L stack now source (fragment_bytes eid full i) st =
        Some (st1, [SendPacket source a, QueueEvent name pay (''net:'' @ std_to_string source)])"
        "received source eid st1"
      using step_last[OF Cons.prems(1) 3(1) S i 3(2) ev(1-3), of L] ev(4) by blast
    have "S \<union> fst ` set (m # ms) = {..<frag_count full}" using 3 m rest by force
    moreover obtain st2 out where "receive_all L source eid full ms st1 = Some (st2, out)" "queued out = []"
      using receive_after[OF st1(2) Cons.prems(3) rest, of L] by blast
    ultimately show ?thesis using st1(1) m by simp
  qed
qed

lemma fragments_reassembled:
  assumes "m_receiveList st (source, eid) = None" "length (static_eventName st) = 65536" "\<not> L source"
    and "0 \<notin> set name" "length name < 65536" "frag_count (event_image name pay) < 2 ^ 17"
    and "\<forall>(i, now, stack) \<in> set ms. i < frag_count (event_image name pay) \<and> length stack = 1023"
  shows "\<exists>st' out.
    for_each (\<lambda>(i, now, stack). HandlePacket L stack now source
      (fragment_bytes eid (event_image name pay) i)) ms st = Some (st', out) \<and>
    queued out = (if fst ` set ms = {..<frag_count (event_image name pay)}
      then [QueueEvent name pay (''net:'' @ std_to_string source)] else [])"
proof -
  have "0 < frag_count (event_image name pay)" by (simp add: frag_count_less length_event_image)
  then have "{} \<subset> {..<frag_count (event_image name pay)}" by auto
  moreover have "receiving source eid (event_image name pay) {} st"
    using assms(1,2) by (simp add: receiving_def)
  ultimately show ?thesis
    using receive_sequence[of source eid "event_image name pay" "{}" st ms name pay L] assms by simp
qed

section \<open>Properties\<close>

text \<open>C1: A receiver that is given the fragments of an event in any order, with any
  repetitions, never leaves its buffers, and hands exactly one event to the event manager, with the
  original name and payload, exactly when every fragment has arrived at least once. The name must be
  a C string that fits the static buffer, and the event must have at most 131071 fragments.\<close>

theorem event_reassembled:
  assumes "m_receiveList st (source, eid) = None" "length (static_eventName st) = 65536" "\<not> L source"
    and "0 \<notin> set name" "length name < 65536" "frag_count (event_image name pay) < 2 ^ 17"
    and "\<forall>(i, now, stack) \<in> set ms. i < frag_count (event_image name pay) \<and> length stack = 1023"
  shows "\<exists>st' out.
    for_each (\<lambda>(i, now, stack). HandlePacket L stack now source
      (fragment_bytes eid (event_image name pay) i)) ms st = Some (st', out) \<and>
    queued out = (if fst ` set ms = {..<frag_count (event_image name pay)}
      then [QueueEvent name pay (''net:'' @ std_to_string source)] else [])"
  using fragments_reassembled[where st = st and source = source and eid = eid and L = L and name = name and pay = pay and ms = ms] assms by simp

theorem event_reassembled_witness:
  "\<exists>st' out. for_each (\<lambda>(i, now, stack). HandlePacket (\<lambda>_. False) stack now 7
      (fragment_bytes 3 (event_image [97, 98] (replicate 1100 5)) i))
      [(1, 10, replicate 1023 0), (1, 11, replicate 1023 9), (0, 12, replicate 1023 0)] (make_reassembly 0) =
      Some (st', out) \<and>
    queued out = [QueueEvent [97, 98] (replicate 1100 5) ''net:7'']"
proof -
  have n: "frag_count (event_image [97, 98] (replicate 1100 5)) = 2"
    by (simp add: frag_count_def length_event_image)
  have str: "''net:'' @ std_to_string 7 = ''net:7''" by (simp add: std_to_string_def digits_of.simps)
  let ?ms = "[(1, 10, replicate 1023 0), (1, 11, replicate 1023 9), (0, 12, replicate 1023 0)] ::
    (nat \<times> int \<times> byte list) list"
  have ms: "fst ` set ?ms = {..<2}" by (auto simp: less_2_cases_iff)
  have "\<exists>st' out. for_each (\<lambda>(i, now, stack). HandlePacket (\<lambda>_. False) stack now 7
      (fragment_bytes 3 (event_image [97, 98] (replicate 1100 5)) i)) ?ms (make_reassembly 0) = Some (st', out) \<and>
    queued out = (if fst ` set ?ms = {..<frag_count (event_image [97, 98] (replicate 1100 5))}
      then [QueueEvent [97, 98] (replicate 1100 5) (''net:'' @ std_to_string 7)] else [])"
    by (rule event_reassembled) (simp_all add: n make_reassembly_def)
  then show ?thesis unfolding n ms str by (simp only: if_True simp_thms)
qed

text \<open>C20: A fragment that opens a new event with a fragment count of zero makes
  the receiver copy its bytes behind the end of an empty buffer: the event counts as complete at
  once, and nothing compares the fragment's index with the fragment count before the copy. The
  sender of the packet chooses the offset and the bytes.\<close>

theorem zero_count_overflows:
  assumes "Parse stack (mb_of_data data) = Some (Some p, b)" "thisBytes p \<noteq> 0" "totalPackets p = 0"
    and "m_receiveList st (source, eventId p) = None"
  shows "HandlePacket L stack now source data st = None"
proof -
  have "place_fragments [(packetIdx p, unat (thisBytes p), bytes)] [] 0 = None" for bytes
    using assms(2) by (simp add: copy_into_def unat_eq_0)
  then have "HandleReceivedPacket L source \<lparr>re_source = source, ackedBits = [], completed = True,
      timeLastAck = now, packetData = [(packetIdx p, unat (thisBytes p), bytes)]\<rparr> nm = None" for bytes nm
    by (simp add: HandleReceivedPacket_def)
  then have "handle_fragment L now source p st = None"
    using assms(3,4) by (simp add: handle_fragment_def Let_def bind_eq_None_conv)
  then show ?thesis using assms(1,2) by (simp add: HandlePacket_def IsAck_def)
qed

theorem zero_count_overflows_witness:
  "\<exists>data. HandlePacket (\<lambda>_. False) (replicate 1023 0) 0 1 data (make_reassembly 0) = None"
proof -
  define p where "p = \<lparr>eventId = 9, packetIdx = 5, totalPackets = 0, thisBytes = 1, payload = replicate 1023 65\<rparr>"
  have "packet_ok p" by (simp add: packet_ok_def p_def kFragmentSize_def)
  then obtain d b where "Parse (replicate 1023 0) (mb_of_data d) =
      Some (Some (p\<lparr>payload := take 1 (payload p) @ drop 1 (replicate 1023 0)\<rparr>), b)"
    using packet_roundtrip[of p "replicate 1023 0"] by (auto simp: kFragmentSize_def p_def)
  from zero_count_overflows[OF this, of "make_reassembly 0" 1 "\<lambda>_. False" 0] show ?thesis
    by (auto simp: p_def make_reassembly_def)
qed

end
