(* ===== verification/Event_Sending.thy ===== *)
theory Event_Sending
  imports Event_Delivery
begin

unbundle bit_operations_syntax

text \<open>
  The sending side of the event protocol: what \<open>TriggerEvent\<close> stores, what a burst and a network
  tick send, when an event leaves the send list, and that no sequence of method calls makes
  the tick read outside its arrays.
\<close>

section \<open>Triggering\<close>

lemma frag_count_TriggerEvent:
  "(if length d mod kFragmentSize \<noteq> 0 then length d div kFragmentSize + 1 else length d div kFragmentSize) =
    frag_count d"
proof -
  have "length d = 1023 * (length d div 1023) + length d mod 1023" by simp
  then obtain q r where qr: "length d = 1023 * q + r" "r < 1023"
    by (metis mod_less_divisor zero_less_numeral)
  have "(1023 * q + r + 1022) div 1023 = q + (r + 1022) div 1023"
    using div_mult_self2[of 1023 "r + 1022" q] by (simp add: add.assoc)
  moreover have "(r + 1022) div 1023 = (if r = 0 then 0 else 1)"
    using qr(2) by (auto simp: div_nat_eqI)
  ultimately show ?thesis unfolding frag_count_def kFragmentSize_def qr(1) using qr(2) by simp
qed

definition fresh_target :: "byte list \<Rightarrow> per_target" where
  "fresh_target d = \<lparr>lastSend = 0, delayNextSend = 0, ackBits = replicate (frag_count d) False, lastBit = 0\<rparr>"

definition fresh_event :: "int set \<Rightarrow> int \<Rightarrow> byte list \<Rightarrow> send_event" where
  "fresh_event ts bps d = \<lparr>se_targets = ts, bytesPerSecond = (if bps \<le> 0 then 25000 else bps), sendPayload = d,
     targetData = (\<lambda>t. if t \<in> ts then Some (Some (fresh_target d)) else None)\<rparr>"

lemma TriggerEvent_value:
  assumes len: "length pay + length name + 2 < kMaxPacketSize" and t: "target = - 1 \<or> target \<in> m_targets st"
  shows "TriggerEvent target name pay bps st = Some (st\<lparr>
    m_sendList := (if m_sendList st (m_eventId st) = None
      then (m_sendList st)(m_eventId st \<mapsto>
        fresh_event (if target = - 1 then m_targets st else {target}) bps (event_image name pay))
      else m_sendList st),
    m_eventId := m_eventId st + 1\<rparr>)"
proof -
  define size' where "size' = length name + 2 + length pay"
  have small: "size' < 134086656" using len by (simp add: size'_def kMaxPacketSize_def packet_consts)
  let ?b0 = "mb_of_size size'"
  have b0: "mb_wok ?b0" "written ?b0 = []" "mb_room ?b0 = 8 * size'"
    using small by (simp_all add: mb_wok_def mb_wf_of_size mb_room_def written_def) (simp_all add: mb_of_size_def)
  obtain b1 where b1: "Write False 16 (word_of_nat (length name)) ?b0 = Some b1" "mb_wok b1"
    "written b1 = word_bits 16 (word_of_nat (length name) :: u32)" "mb_room b1 = 8 * size' - 16"
    using mb_out.wr_value[OF b0(1), of 16 "word_of_nat (length name)"] b0(2,3) by (auto simp: size'_def)
  have "8 * length name \<le> mb_room b1" using b1(4) by (simp add: size'_def)
  then obtain b2 where b2: "WriteBits name (length name * 8) b1 = Some (True, b2)" "mb_wok b2"
    "written b2 = written b1 @ bytes_bits name" "mb_room b2 = 8 * length pay"
    using mb_out.wr_bytes_value[OF b1(2), of "length name" name] b1(4)
    by (auto simp: size'_def mult.commute)
  have cur: "m_curBit b2 = 8 * (2 + length name)"
    using b1(3) b2(3) by (metis length_written length_append length_word_bits length_bytes_bits
        distrib_left mult_2_right numeral_Bit0 mult.commute num_double numeral_times_numeral)
  have data: "length (m_data b2) = size'" and max: "m_curBit b2 \<le> m_maxBit b2"
    using b2(2,4) cur by (auto simp: mb_wok_def mb_wf_def mb_room_def size'_def)
  have "take (2 + length name) (m_data b2) = [word_of_nat (length name div 256), word_of_nat (length name)] @ name"
  proof (rule bytes_bits_inject)
    have "bytes_bits (take (2 + length name) (m_data b2)) = written b2"
      using data unfolding size'_def
      by (intro nth_equalityI) (auto simp: written_def cur bit_at_def less_mult_imp_div_less mult.commute)
    then show "bytes_bits (take (2 + length name) (m_data b2)) =
        bytes_bits ([word_of_nat (length name div 256), word_of_nat (length name)] @ name)"
      unfolding bytes_bits_append size_field_bits b2(3) b1(3) .
  qed
  then have copy: "copy_into (m_data b2) (GetCurrentBit b2 div 8) pay (length pay) = Some (event_image name pay)"
    using data max cur by (simp add: copy_into_def GetCurrentBit_def min_def size'_def event_image_def)
  have "\<not> length pay + length name + 2 \<ge> kMaxPacketSize" using len by simp
  then show ?thesis
    using t b1(1)[unfolded size'_def] b2(1) copy frag_count_TriggerEvent[of "event_image name pay"]
    by (cases "target = - 1"; cases "length (event_image name pay) mod kFragmentSize = 0")
      (simp_all add: TriggerEvent_def Let_def fresh_event_def fresh_target_def cong: if_cong)
qed

section \<open>Bursts\<close>

lemma scan_bits_spec:
  assumes "b + n \<le> length bits"
  shows "(scan_bits bits n b = Some None \<and> (\<forall>i \<in> {b..<b + n}. bits ! i)) \<or>
    (\<exists>i. scan_bits bits n b = Some (Some i) \<and> b \<le> i \<and> i < b + n \<and> \<not> bits ! i)"
  using assms
proof (induction n arbitrary: b)
  case (Suc n)
  show ?case
  proof (cases "bits ! b")
    case True
    have "{b..<b + Suc n} = insert b {Suc b..<Suc b + n}" by auto
    then show ?thesis using Suc.IH[of "Suc b"] Suc.prems True by auto
  qed (use Suc.prems in auto)
qed simp

definition target_ok :: "byte list \<Rightarrow> per_target \<Rightarrow> bool" where
  "target_ok d td \<longleftrightarrow> length (ackBits td) = frag_count d \<and> lastBit td < frag_count d"

definition all_acked :: "per_target \<Rightarrow> bool" where
  "all_acked td \<longleftrightarrow> list_all (\<lambda>b. b) (ackBits td)"

lemma burst_spec:
  assumes "target_ok d td"
  shows "\<exists>r is. burst now latency eid d target startBit resTime td =
      Some (r, map (\<lambda>i. SendPacket target (fragment_bytes eid d i)) is) \<and>
    sorted_wrt (<) is \<and> set is \<subseteq> {i. lastBit td \<le> i \<and> i < frag_count d \<and> \<not> ackBits td ! i} \<and>
    (case r of None \<Rightarrow> all_acked td
     | Some td' \<Rightarrow> ackBits td' = ackBits td \<and> target_ok d td' \<and> \<not> all_acked td)"
  using assms
proof (induction now latency eid d target startBit resTime td rule: burst.induct)
  case (1 now latency eid d target startBit resTime td)
  let ?bits = "ackBits td" and ?n = "frag_count d"
  have ok: "length ?bits = ?n" "lastBit td < ?n" using 1(2) by (simp_all add: target_ok_def)
  note step = burst.simps[of now latency eid d target startBit resTime td]
  from scan_bits_spec[of 0 "lastBit td" ?bits] ok obtain early where
    early: "scan_bits ?bits (lastBit td) 0 = Some early"
      "\<And>i. early = Some i \<Longrightarrow> i < ?n \<and> \<not> ?bits ! i" "early = None \<Longrightarrow> \<forall>i < lastBit td. ?bits ! i"
    by (auto simp: atLeast0LessThan)
  from scan_bits_spec[of "lastBit td" "?n - lastBit td" ?bits] ok obtain nxt where
    nxt: "scan_bits ?bits (?n - lastBit td) (lastBit td) = Some nxt"
      "\<And>i. nxt = Some i \<Longrightarrow> lastBit td \<le> i \<and> i < ?n \<and> \<not> ?bits ! i"
      "nxt = None \<Longrightarrow> \<forall>i \<in> {lastBit td..<?n}. ?bits ! i"
    by auto
  show ?case
  proof (cases nxt)
    case None
    show ?thesis
    proof (cases early)
      case None
      have "all_acked td"
        using early(3)[OF None] nxt(3)[OF \<open>nxt = None\<close>] ok
        by (auto simp: all_acked_def list_all_length not_le[symmetric])
      then show ?thesis using \<open>nxt = None\<close> None early(1) nxt(1) ok
        by (intro exI[of _ None] exI[of _ "[]"]) (simp add: step)
    next
      case (Some i)
      then have "\<not> all_acked td" using early(2) ok by (auto simp: all_acked_def list_all_length)
      then show ?thesis using \<open>nxt = None\<close> Some early nxt(1) ok
        by (intro exI[of _ "Some (td\<lparr>lastBit := i, delayNextSend := now + 250\<rparr>)"] exI[of _ "[]"])
          (simp add: step target_ok_def)
    qed
  next
    case (Some i)
    define lb where "lb = Suc i mod ?n"
    define rt where "rt = (if resTime > latency then resTime - latency else resTime)"
    have i: "lastBit td \<le> i" "i < ?n" "\<not> ?bits ! i" using nxt(2)[OF Some] by simp_all
    have open': "\<not> all_acked td" using i ok by (auto simp: all_acked_def list_all_length)
    have lb: "lb < ?n" using i by (simp add: lb_def)
    have eq: "burst now latency eid d target startBit resTime td =
      (if lb \<le> startBit then
         Some (Some (td\<lparr>lastBit := lb, delayNextSend := now + 250\<rparr>), [SendPacket target (fragment_bytes eid d i)])
       else if rt > latency then do {
         (r, out) \<leftarrow> burst now latency eid d target startBit rt (td\<lparr>lastBit := lb\<rparr>);
         Some (r, SendPacket target (fragment_bytes eid d i) # out) }
       else Some (Some (td\<lparr>lastBit := lb\<rparr>), [SendPacket target (fragment_bytes eid d i)]))"
      using early(1) nxt(1) Some make_fragment_value[OF i(2), of eid] fragment_bytes_value[of eid d i]
      by (subst step) (simp add: ok lb_def[symmetric] rt_def[symmetric] Let_def)
    consider "lb \<le> startBit" | "\<not> lb \<le> startBit" "rt > latency" | "\<not> lb \<le> startBit" "\<not> rt > latency" by blast
    then show ?thesis
    proof cases
      case 1
      then show ?thesis using i lb open' ok
        by (intro exI[of _ "Some (td\<lparr>lastBit := lb, delayNextSend := now + 250\<rparr>)"] exI[of _ "[i]"])
          (simp add: eq target_ok_def)
    next
      case 2
      have "Suc i \<noteq> ?n" using 2(1) by (auto simp: lb_def)
      then have lb_eq: "lb = Suc i" using i(2) by (simp add: lb_def)
      have ok': "target_ok d (td\<lparr>lastBit := lb\<rparr>)" using ok lb by (simp add: target_ok_def)
      have "\<exists>r is. burst now latency eid d target startBit rt (td\<lparr>lastBit := lb\<rparr>) =
          Some (r, map (\<lambda>i. SendPacket target (fragment_bytes eid d i)) is) \<and>
        sorted_wrt (<) is \<and> set is \<subseteq> {i. lb \<le> i \<and> i < ?n \<and> \<not> ?bits ! i} \<and>
        (case r of None \<Rightarrow> all_acked td
         | Some td' \<Rightarrow> ackBits td' = ?bits \<and> target_ok d td' \<and> \<not> all_acked td)"
        using "1.IH"[OF refl early(1) nxt(1)[folded ok(1)] Some refl make_fragment_value[OF i(2), of eid, folded ok(1)]
            fragment_bytes_value[of eid d i] refl] 2 ok ok'
        by (simp add: all_acked_def lb_def rt_def cong: option.case_cong if_cong)
      then obtain r js where r: "burst now latency eid d target startBit rt (td\<lparr>lastBit := lb\<rparr>) =
          Some (r, map (\<lambda>i. SendPacket target (fragment_bytes eid d i)) js)"
        "sorted_wrt (<) js" "set js \<subseteq> {i. lb \<le> i \<and> i < ?n \<and> \<not> ?bits ! i}"
        "case r of None \<Rightarrow> all_acked td
         | Some td' \<Rightarrow> ackBits td' = ?bits \<and> target_ok d td' \<and> \<not> all_acked td"
        by blast
      then show ?thesis using 2 i lb_eq
        by (intro exI[of _ r] exI[of _ "i # js"]) (auto simp: eq)
    next
      case 3
      then show ?thesis using i lb open' ok
        by (intro exI[of _ "Some (td\<lparr>lastBit := lb\<rparr>)"] exI[of _ "[i]"]) (simp add: eq target_ok_def)
    qed
  qed
qed

section \<open>The tick\<close>

text \<open>The well-formedness of what is being sent.\<close>

definition event_ok :: "send_event \<Rightarrow> bool" where
  "event_ok ev \<longleftrightarrow> finite (se_targets ev) \<and>
     (\<forall>t td. targetData ev t = Some (Some td) \<longrightarrow> target_ok (sendPayload ev) td)"

definition pending_for :: "send_event \<Rightarrow> int \<Rightarrow> per_target option" where
  "pending_for ev t = (case targetData ev t of Some (Some td) \<Rightarrow> Some td | _ \<Rightarrow> None)"

definition live_targets :: "send_event \<Rightarrow> bool" where
  "live_targets ev \<longleftrightarrow> (\<forall>t \<in> se_targets ev. pending_for ev t \<noteq> None)"

definition sender_ok :: "reassembly \<Rightarrow> bool" where
  "sender_ok st \<longleftrightarrow> finite (m_targets st) \<and>
     (\<forall>e ev. m_sendList st e = Some ev \<longrightarrow> event_ok ev \<and> live_targets ev)"

text \<open>A target of an event is served: it is gone, or has acknowledged everything.\<close>

definition served :: "int set \<Rightarrow> send_event \<Rightarrow> int \<Rightarrow> bool" where
  "served live ev t \<longleftrightarrow> t \<notin> live \<or> (\<exists>td. pending_for ev t = Some td \<and> all_acked td)"

text \<open>What a tick may change of an event: it drops served targets and moves its timers.\<close>

definition later :: "int set \<Rightarrow> send_event \<Rightarrow> send_event \<times> int set \<Rightarrow> bool" where
  "later live ev0 evD \<longleftrightarrow> (case evD of (ev, D) \<Rightarrow>
     event_ok ev \<and> sendPayload ev = sendPayload ev0 \<and> bytesPerSecond ev = bytesPerSecond ev0 \<and>
     se_targets ev \<subseteq> se_targets ev0 \<and> (\<forall>t \<in> D \<union> (se_targets ev0 - se_targets ev). served live ev0 t) \<and>
     (\<forall>t \<in> se_targets ev - D. pending_for ev t \<noteq> None) \<and>
     (\<forall>t td. pending_for ev t = Some td \<longrightarrow>
        (\<exists>td0. pending_for ev0 t = Some td0 \<and> ackBits td0 = ackBits td)))"

text \<open>The packets a tick may send for an event.\<close>

definition due :: "int set \<Rightarrow> u64 \<Rightarrow> send_event \<Rightarrow> effect \<Rightarrow> bool" where
  "due live eid ev x \<longleftrightarrow> (\<exists>t td i. t \<in> live \<and> t \<in> se_targets ev \<and> pending_for ev t = Some td \<and>
     i < frag_count (sendPayload ev) \<and> \<not> ackBits td ! i \<and>
     x = SendPacket t (fragment_bytes eid (sendPayload ev) i))"

lemma for_each_inv:
  assumes "\<And>x s. x \<in> set xs \<Longrightarrow> I s \<Longrightarrow> \<exists>s' out. f x s = Some (s', out) \<and> I s' \<and> (\<forall>e \<in> set out. Q e)" "I s"
  shows "\<exists>s' out. for_each f xs s = Some (s', out) \<and> I s' \<and> (\<forall>e \<in> set out. Q e)"
  using assms
proof (induction xs arbitrary: s)
  case (Cons x xs)
  obtain s1 out1 where 1: "f x s = Some (s1, out1)" "I s1" "\<forall>e \<in> set out1. Q e"
    using Cons.prems(1)[of x s] Cons.prems(2) by auto
  obtain s2 out2 where "for_each f xs s1 = Some (s2, out2)" "I s2" "\<forall>e \<in> set out2. Q e"
    using Cons.IH[OF Cons.prems(1) 1(2)] by auto
  with 1 show ?case by auto
qed simp

lemma pending_for_upd:
  "pending_for (ev\<lparr>targetData := (targetData ev)(t \<mapsto> x)\<rparr>) t' = (if t' = t then x else pending_for ev t')"
  by (simp add: pending_for_def split: option.split)

lemma event_ok_upd:
  "event_ok ev \<Longrightarrow> (\<And>td. x = Some td \<Longrightarrow> target_ok (sendPayload ev) td) \<Longrightarrow>
    event_ok (ev\<lparr>targetData := (targetData ev)(t \<mapsto> x)\<rparr>)"
  by (auto simp: event_ok_def)

lemma event_ok_pending: "event_ok ev \<Longrightarrow> pending_for ev t = Some td \<Longrightarrow> target_ok (sendPayload ev) td"
  by (auto simp: event_ok_def pending_for_def split: option.splits)

text \<open>One target.\<close>

lemma later_keep:
  assumes "later live ev0 (ev, D)" "pending_for ev t = Some td" "ackBits td' = ackBits td"
    "target_ok (sendPayload ev) td'"
  shows "later live ev0 (ev\<lparr>targetData := (targetData ev)(t \<mapsto> Some td')\<rparr>, D)"
  using assms by (auto simp: later_def pending_for_upd intro!: event_ok_upd)

lemma later_drop:
  assumes "later live ev0 (ev, D)" "served live ev0 t"
  shows "later live ev0 (ev\<lparr>targetData := (targetData ev)(t \<mapsto> None)\<rparr>, insert t D)"
  using assms by (auto simp: later_def pending_for_upd intro!: event_ok_upd)

lemma later_pending:
  "later live ev0 (ev, D) \<Longrightarrow> pending_for ev t = Some td \<Longrightarrow>
    \<exists>td0. pending_for ev0 t = Some td0 \<and> ackBits td0 = ackBits td"
  by (simp add: later_def)

lemma later_ok: "later live ev0 (ev, D) \<Longrightarrow> event_ok ev"
  and later_payload: "later live ev0 (ev, D) \<Longrightarrow> sendPayload ev = sendPayload ev0"
  and later_targets: "later live ev0 (ev, D) \<Longrightarrow> se_targets ev \<subseteq> se_targets ev0"
  by (simp_all add: later_def)

lemma later_served:
  "later live ev0 (ev, D) \<Longrightarrow> served live ev0 t \<Longrightarrow> later live ev0 (ev, insert t D)"
  by (auto simp: later_def)

lemma tick_target_spec:
  assumes st: "later live ev0 (ev, D)" and t: "t \<in> se_targets ev0"
  shows "\<exists>s' out. tick_target now dT live eid t (ev, D) = Some (s', out) \<and> later live ev0 s' \<and>
    (\<forall>x \<in> set out. due live eid ev0 x)"
proof (cases "t \<in> live")
  case False
  then have "served live ev0 t" by (simp add: served_def)
  then show ?thesis using False later_served[OF st] by (simp add: tick_target_def)
next
  case True
  define entry where "entry = pending_for ev t"
  have entry: "(case targetData ev t of None \<Rightarrow> None | Some e \<Rightarrow> e) = entry"
    by (simp add: entry_def pending_for_def split: option.split)
  show ?thesis
  proof (cases entry)
    case None
    then have "pending_for ev t = None" by (simp add: entry_def)
    then have same: "pending_for (ev\<lparr>targetData := (targetData ev)(t \<mapsto> None)\<rparr>) = pending_for ev"
      by (auto simp: pending_for_upd fun_eq_iff)
    then have "later live ev0 (ev\<lparr>targetData := (targetData ev)(t \<mapsto> None)\<rparr>, D)"
      using st by (auto simp: later_def same intro!: event_ok_upd)
    then show ?thesis using True None by (simp add: tick_target_def Let_def entry)
  next
    case (Some td)
    let ?d = "sendPayload ev" and ?td = "\<lambda>td. td\<lparr>lastSend := now\<rparr>"
    note entry_Some = Some
    have td: "pending_for ev t = Some td" using Some by (simp add: entry_def)
    then have ok: "target_ok ?d td" using event_ok_pending[OF later_ok[OF st]] by blast
    obtain td0 where td0: "pending_for ev0 t = Some td0" "ackBits td0 = ackBits td" "?d = sendPayload ev0"
      using later_pending[OF st td] later_payload[OF st] by blast
    have now: "target_ok ?d (?td x) = target_ok ?d x" for x by (simp add: target_ok_def)
    have same: "later live ev0 (ev\<lparr>targetData := (targetData ev)(t \<mapsto> Some (td\<lparr>lastSend := x\<rparr>))\<rparr>, D)" for x
      by (rule later_keep[OF st td]) (use ok in \<open>simp_all add: target_ok_def\<close>)
    obtain r js where b: "burst now (send_latency (bytesPerSecond ev)) eid ?d t (lastBit td) dT td =
        Some (r, map (\<lambda>i. SendPacket t (fragment_bytes eid ?d i)) js)"
      "set js \<subseteq> {i. lastBit td \<le> i \<and> i < frag_count ?d \<and> \<not> ackBits td ! i}"
      "case r of None \<Rightarrow> all_acked td
        | Some td' \<Rightarrow> ackBits td' = ackBits td \<and> target_ok ?d td' \<and> \<not> all_acked td"
      using burst_spec[OF ok] by blast
    have out: "due live eid ev0 (SendPacket t (fragment_bytes eid ?d i))" if "i \<in> set js" for i
      using that b(2) True t td0 unfolding due_def by (intro exI[of _ t] exI[of _ td0] exI[of _ i]) auto
    have id: "(targetData ev)(t \<mapsto> Some td) = targetData ev"
      using td by (auto simp: pending_for_def fun_eq_iff split: option.splits)
    show ?thesis
    proof (cases r)
      case None
      then have "served live ev0 t" using b(3) td0 by (auto simp: served_def all_acked_def)
      note drop = later_drop[OF st this]
      show ?thesis using True entry_Some None b(1) out drop same[of now] st
        by (simp add: tick_target_def Let_def entry id)
    next
      case (Some td')
      have "later live ev0 (ev\<lparr>targetData := (targetData ev)(t \<mapsto> Some (?td td'))\<rparr>, D)"
        by (rule later_keep[OF st td]) (use b(3) Some now in \<open>simp_all\<close>)
      then show ?thesis using True entry_Some Some b(1) out same[of now] st
        by (simp add: tick_target_def Let_def entry id)
    qed
  qed
qed

lemma tick_event_spec:
  assumes "m_sends eid = Some ev" "event_ok ev" "live_targets ev"
  shows "\<exists>ev' dones' out. tick_event now dT live eid (m_sends, dones) = Some ((m_sends(eid \<mapsto> ev'), dones'), out) \<and>
    event_ok ev' \<and> live_targets ev' \<and> later live ev (ev', {}) \<and>
    dones' = (if se_targets ev' = {} then insert eid dones else dones) \<and> (\<forall>x \<in> set out. due live eid ev x)"
proof -
  have "later live ev (ev, {})" using assms by (auto simp: later_def live_targets_def)
  moreover have "set (sorted_list_of_set (se_targets ev)) = se_targets ev"
    using assms(2) by (simp add: event_ok_def)
  ultimately obtain s out where
    s: "for_each (tick_target now dT live eid) (sorted_list_of_set (se_targets ev)) (ev, {}) = Some (s, out)"
      "later live ev s" "\<forall>x \<in> set out. due live eid ev x"
    using for_each_inv[where I = "later live ev" and f = "tick_target now dT live eid" and Q = "due live eid ev"
        and xs = "sorted_list_of_set (se_targets ev)" and s = "(ev, {})"] tick_target_spec
    by (metis surj_pair)
  obtain ev1 D where D: "s = (ev1, D)" by (cases s)
  let ?ev = "ev1\<lparr>se_targets := se_targets ev1 - D\<rparr>"
  have p: "pending_for ?ev = pending_for ev1" by (simp add: pending_for_def fun_eq_iff)
  have "event_ok ?ev" "live_targets ?ev" "later live ev (?ev, {})"
    using s(2) unfolding D by (auto simp: later_def event_ok_def live_targets_def p)
  then show ?thesis using s(1,3) D assms(1)
    by (intro exI[of _ ?ev] exI[of _ "if se_targets ?ev = {} then insert eid dones else dones"] exI[of _ out])
      (simp add: tick_event_def)
qed

lemma served_later:
  assumes "later live ev0 (ev, {})" "served live ev t"
  shows "served live ev0 t"
proof (cases "t \<in> live")
  case True
  then obtain td where td: "pending_for ev t = Some td" "all_acked td" using assms(2) by (auto simp: served_def)
  then obtain td0 where "pending_for ev0 t = Some td0" "ackBits td0 = ackBits td"
    using later_pending[OF assms(1) td(1)] by blast
  with td(2) show ?thesis by (auto simp: served_def all_acked_def)
qed (simp add: served_def)

lemma later_trans:
  assumes "later live ev0 (ev1, {})" "later live ev1 (ev2, {})"
  shows "later live ev0 (ev2, {})"
proof -
  have "served live ev0 t" if "t \<in> se_targets ev0 - se_targets ev2" for t
    using that assms served_later[OF assms(1), of t] by (cases "t \<in> se_targets ev1") (auto simp: later_def)
  moreover have "\<exists>td0. pending_for ev0 t = Some td0 \<and> ackBits td0 = ackBits td" if "pending_for ev2 t = Some td" for t td
    using later_pending[OF assms(2) that] later_pending[OF assms(1)] by metis
  ultimately show ?thesis using assms by (auto simp: later_def)
qed

lemma due_later: "later live ev0 (ev, {}) \<Longrightarrow> due live eid ev x \<Longrightarrow> due live eid ev0 x"
  unfolding due_def by (metis later_pending later_payload later_targets subsetD)

text \<open>The send list during the tick, against the send list before it.\<close>

definition ticking :: "int set \<Rightarrow> (u64 \<rightharpoonup> send_event) \<Rightarrow> (u64 \<rightharpoonup> send_event) \<times> u64 set \<Rightarrow> bool" where
  "ticking live sends0 sD \<longleftrightarrow> (case sD of (sends, dones) \<Rightarrow>
     (\<forall>e. case sends0 e of None \<Rightarrow> sends e = None
        | Some ev0 \<Rightarrow> (\<exists>ev. sends e = Some ev \<and> event_ok ev \<and> live_targets ev \<and> later live ev0 (ev, {}) \<and>
            (e \<in> dones \<longrightarrow> se_targets ev = {}))))"

lemma ticking_None: "ticking live sends0 (sends, dones) \<Longrightarrow> sends0 e = None \<Longrightarrow> sends e = None"
  by (auto simp: ticking_def dest!: spec[of _ e])

lemma ticking_Some:
  "ticking live sends0 (sends, dones) \<Longrightarrow> sends0 e = Some ev0 \<Longrightarrow>
    \<exists>ev. sends e = Some ev \<and> event_ok ev \<and> live_targets ev \<and> later live ev0 (ev, {}) \<and>
      (e \<in> dones \<longrightarrow> se_targets ev = {})"
  by (auto simp: ticking_def dest!: spec[of _ e])

lemma ticking_start: "sender_ok st \<Longrightarrow> ticking live (m_sendList st) (m_sendList st, {})"
  by (auto simp: ticking_def sender_ok_def later_def live_targets_def split: option.split)

lemma ticking_step:
  assumes "ticking live sends0 s"
  shows "\<exists>s' out. tick_event now dT live eid s = Some (s', out) \<and> ticking live sends0 s' \<and>
    (\<forall>x \<in> set out. \<exists>e ev. sends0 e = Some ev \<and> due live e ev x)"
proof -
  obtain sends dones where s: "s = (sends, dones)" by (cases s)
  show ?thesis
  proof (cases "sends0 eid")
    case None
    then have "sends eid = None" using assms ticking_None s by blast
    then show ?thesis using assms by (simp add: tick_event_def s)
  next
    case (Some ev0)
    then obtain ev where ev: "sends eid = Some ev" "event_ok ev" "live_targets ev" "later live ev0 (ev, {})"
      using assms ticking_Some s by blast
    obtain ev' dones' out where t: "tick_event now dT live eid (sends, dones) =
        Some ((sends(eid \<mapsto> ev'), dones'), out)" "event_ok ev'" "live_targets ev'" "later live ev (ev', {})"
      "dones' = (if se_targets ev' = {} then insert eid dones else dones)" "\<forall>x \<in> set out. due live eid ev x"
      using tick_event_spec[of sends eid ev, OF ev(1-3)] by blast
    have "ticking live sends0 (sends(eid \<mapsto> ev'), dones')"
      unfolding ticking_def prod.case
    proof
      fix e
      show "case sends0 e of None \<Rightarrow> (sends(eid \<mapsto> ev')) e = None
        | Some ev0 \<Rightarrow> (\<exists>ev. (sends(eid \<mapsto> ev')) e = Some ev \<and> event_ok ev \<and> live_targets ev \<and>
            later live ev0 (ev, {}) \<and> (e \<in> dones' \<longrightarrow> se_targets ev = {}))"
      proof (cases "e = eid")
        case True
        have "se_targets ev' = {}" if "eid \<in> dones'"
        proof -
          have "eid \<in> dones \<Longrightarrow> se_targets ev = {}"
            using ticking_Some[OF assms[unfolded s] Some] ev(1) by auto
          then show ?thesis using that t(5) later_targets[OF t(4)] by (auto split: if_splits)
        qed
        then show ?thesis using True Some t(2,3) later_trans[OF ev(4) t(4)] by auto
      next
        case False
        then have "e \<in> dones' \<longleftrightarrow> e \<in> dones" using t(5) by auto
        then show ?thesis using False ticking_None[OF assms[unfolded s], of e]
            ticking_Some[OF assms[unfolded s], of e] by (cases "sends0 e") auto
      qed
    qed
    moreover have "\<forall>x \<in> set out. \<exists>e ev. sends0 e = Some ev \<and> due live e ev x"
    proof
      fix x
      assume "x \<in> set out"
      then have "due live eid ev0 x" using t(6) due_later[OF ev(4)] by simp
      with Some show "\<exists>e ev. sends0 e = Some ev \<and> due live e ev x" by blast
    qed
    ultimately show ?thesis unfolding s using t(1) by (intro exI conjI)
  qed
qed

lemma NetworkTick_spec:
  assumes "sender_ok st"
  shows "\<exists>st' out. NetworkTick now order st = Some (st', out) \<and> sender_ok st' \<and> m_targets st' = m_targets st \<and>
    (\<forall>x \<in> set out. \<exists>e ev. m_sendList st e = Some ev \<and> due (m_targets st) e ev x) \<and>
    (\<forall>e ev. m_sendList st e = Some ev \<longrightarrow> (case m_sendList st' e of
       None \<Rightarrow> \<forall>t \<in> se_targets ev. served (m_targets st) ev t
     | Some ev' \<Rightarrow> later (m_targets st) ev (ev', {})))"
proof -
  let ?live = "m_targets st"
  obtain s out where
    s: "for_each (tick_event now (now - m_lastTime st) ?live) order (m_sendList st, {}) = Some (s, out)"
      "ticking ?live (m_sendList st) s"
      "\<forall>x \<in> set out. \<exists>e ev. m_sendList st e = Some ev \<and> due ?live e ev x"
    using for_each_inv[where I = "ticking ?live (m_sendList st)" and xs = order
        and f = "tick_event now (now - m_lastTime st) ?live" and s = "(m_sendList st, {})"
        and Q = "\<lambda>x. \<exists>e ev. m_sendList st e = Some ev \<and> due ?live e ev x", OF ticking_step ticking_start[OF assms]]
    by blast
  obtain sends dones where D: "s = (sends, dones)" by (cases s)
  define st' where "st' = st\<lparr>m_lastTime := now,
    m_sendList := (\<lambda>e. if e \<in> dones then None else sends e),
    m_receiveList := (\<lambda>k. case m_receiveList st k of None \<Rightarrow> None
       | Some re \<Rightarrow> if completed re \<and> now - timeLastAck re \<ge> 120000 then None else Some re)\<rparr>"
  have tick: "NetworkTick now order st = Some (st', out)"
    using s(1) D by (simp add: NetworkTick_def st'_def)
  have was: "\<exists>ev0. m_sendList st e = Some ev0" if "sends e = Some ev" for e ev
    using ticking_None[OF s(2)[unfolded D], of e] that by (cases "m_sendList st e") auto
  have now: "event_ok ev \<and> live_targets ev \<and> later ?live ev0 (ev, {}) \<and> (e \<in> dones \<longrightarrow> se_targets ev = {})"
    if "m_sendList st e = Some ev0" "sends e = Some ev" for e ev ev0
    using ticking_Some[OF s(2)[unfolded D] that(1)] that(2) by auto
  have kept: "\<exists>ev. sends e = Some ev" if "m_sendList st e = Some ev0" for e ev0
    using ticking_Some[OF s(2)[unfolded D] that] by blast
  have "sender_ok st'"
    using assms now was unfolding sender_ok_def st'_def by (fastforce split: if_splits)
  moreover have "case m_sendList st' e of None \<Rightarrow> \<forall>t \<in> se_targets ev. served ?live ev t
      | Some ev' \<Rightarrow> later ?live ev (ev', {})" if e: "m_sendList st e = Some ev" for e ev
  proof -
    obtain ev' where ev': "sends e = Some ev'" using kept[OF e] by blast
    have l: "later ?live ev (ev', {})" "e \<in> dones \<Longrightarrow> se_targets ev' = {}" using now[OF e ev'] by blast+
    then have "e \<in> dones \<Longrightarrow> \<forall>t \<in> se_targets ev. served ?live ev t" by (simp add: later_def)
    with l(1) ev' show ?thesis by (simp add: st'_def)
  qed
  ultimately show ?thesis using tick s(3) by (auto simp: st'_def)
qed

section \<open>Runs of the component\<close>

text \<open>
  The calls the component receives, each executed under the mutex. A packet whose handling runs
  out of bounds has no step.
\<close>

inductive component_step :: "reassembly \<Rightarrow> effect list \<Rightarrow> reassembly \<Rightarrow> bool" where
  register: "component_step st [] (RegisterTarget i st)"
| unregister: "component_step st [] (UnregisterTarget i st)"
| trigger: "TriggerEvent target name pay bps st = Some st' \<Longrightarrow> component_step st [] st'"
| tick: "NetworkTick now order st = Some (st', out) \<Longrightarrow> component_step st out st'"
| packet: "HandlePacket L stack now source data st = Some (st', out) \<Longrightarrow> component_step st out st'"

inductive_cases component_stepE: "component_step st out st'"

inductive component_reachable :: "reassembly \<Rightarrow> bool" where
  start: "component_reachable (make_reassembly now)"
| step: "component_reachable st \<Longrightarrow> component_step st out st' \<Longrightarrow> component_reachable st'"

lemma sender_ok_cong: "m_sendList st' = m_sendList st \<Longrightarrow> m_targets st' = m_targets st \<Longrightarrow> sender_ok st' = sender_ok st"
  by (simp add: sender_ok_def)

lemma forget_target_ok:
  assumes "event_ok ev" "live_targets ev"
  shows "event_ok (ev\<lparr>targetData := (targetData ev)(i := None), se_targets := se_targets ev - {i}\<rparr>)"
    "live_targets (ev\<lparr>targetData := (targetData ev)(i := None), se_targets := se_targets ev - {i}\<rparr>)"
proof -
  have "pending_for (ev\<lparr>targetData := (targetData ev)(i := None), se_targets := T\<rparr>) t = pending_for ev t"
    if "t \<noteq> i" for t T
    using that by (simp add: pending_for_def)
  then show "live_targets (ev\<lparr>targetData := (targetData ev)(i := None), se_targets := se_targets ev - {i}\<rparr>)"
    using assms(2) by (simp add: live_targets_def)
qed (use assms in \<open>simp add: event_ok_def\<close>)

lemma sender_ok_unregister: "sender_ok st \<Longrightarrow> sender_ok (UnregisterTarget i st)"
  using forget_target_ok unfolding sender_ok_def UnregisterTarget_def by (auto simp: map_option_eq_Some)

lemma fresh_event_ok:
  assumes "finite ts" "d \<noteq> []"
  shows "event_ok (fresh_event ts bps d)" "live_targets (fresh_event ts bps d)"
proof -
  have "0 < frag_count d" using assms(2) by (simp add: frag_count_less)
  then show "event_ok (fresh_event ts bps d)" "live_targets (fresh_event ts bps d)"
    using assms(1) by (auto simp: event_ok_def fresh_event_def fresh_target_def target_ok_def
        live_targets_def pending_for_def split: if_splits)
qed

lemma sender_ok_trigger:
  assumes "sender_ok st" "TriggerEvent target name pay bps st = Some st'"
  shows "sender_ok st'"
proof (cases "length pay + length name + 2 < kMaxPacketSize \<and> (target = - 1 \<or> target \<in> m_targets st)")
  case True
  let ?ev = "fresh_event (if target = - 1 then m_targets st else {target}) bps (event_image name pay)"
  have "event_image name pay \<noteq> []" by (simp add: event_image_def)
  moreover have "finite (if target = - 1 then m_targets st else {target})"
    using assms(1) by (simp add: sender_ok_def)
  ultimately have ev: "event_ok ?ev" "live_targets ?ev" by (rule fresh_event_ok[rotated])+
  have st': "st' = st\<lparr>m_sendList := (if m_sendList st (m_eventId st) = None
      then (m_sendList st)(m_eventId st \<mapsto> ?ev) else m_sendList st), m_eventId := m_eventId st + 1\<rparr>"
    using assms(2) TriggerEvent_value[of pay name target st bps] True by simp
  show ?thesis
    unfolding sender_ok_def
  proof (intro conjI allI impI)
    show "finite (m_targets st')" using assms(1) by (simp add: st' sender_ok_def)
    fix e ev'
    assume "m_sendList st' e = Some ev'"
    then have "ev' = ?ev \<or> m_sendList st e = Some ev'" unfolding st' by (auto split: if_splits)
    with ev assms(1) show "event_ok ev'" "live_targets ev'" by (auto simp: sender_ok_def)
  qed
next
  case False
  then have "st' = st" using assms(2) by (auto simp: TriggerEvent_def Let_def split: if_splits)
  with assms(1) show ?thesis by simp
qed

lemma handle_ack_value:
  "handle_ack source p st = st \<or> (\<exists>ev td.
     m_sendList st (eventId p) = Some ev \<and> pending_for ev source = Some td \<and>
     unat (packetIdx p) < length (ackBits td) \<and>
     handle_ack source p st = st\<lparr>m_sendList := (m_sendList st)(eventId p \<mapsto>
       ev\<lparr>targetData := (targetData ev)(source \<mapsto>
         Some (td\<lparr>ackBits := (ackBits td)[unat (packetIdx p) := True]\<rparr>))\<rparr>)\<rparr>)"
  by (auto simp: handle_ack_def pending_for_def split: option.splits)

lemma sender_ok_ack:
  assumes "sender_ok st"
  shows "sender_ok (handle_ack source p st)"
  using handle_ack_value[of source p st]
proof (elim disjE exE conjE)
  fix ev :: send_event and td :: per_target
  let ?td = "td\<lparr>ackBits := (ackBits td)[unat (packetIdx p) := True]\<rparr>"
  assume a: "m_sendList st (eventId p) = Some ev" "pending_for ev source = Some td"
    "handle_ack source p st = st\<lparr>m_sendList := (m_sendList st)(eventId p \<mapsto>
       ev\<lparr>targetData := (targetData ev)(source \<mapsto> Some ?td)\<rparr>)\<rparr>"
  have ev: "event_ok ev" "live_targets ev" using assms a(1) by (auto simp: sender_ok_def)
  have "target_ok (sendPayload ev) ?td" using event_ok_pending[OF ev(1) a(2)] by (simp add: target_ok_def)
  then have "event_ok (ev\<lparr>targetData := (targetData ev)(source \<mapsto> Some ?td)\<rparr>)"
    "live_targets (ev\<lparr>targetData := (targetData ev)(source \<mapsto> Some ?td)\<rparr>)"
    using ev by (auto simp: live_targets_def pending_for_upd intro!: event_ok_upd)
  then show "sender_ok (handle_ack source p st)" using assms by (auto simp: a(3) sender_ok_def)
qed (use assms in simp)

lemma handle_fragment_frame:
  assumes "handle_fragment L now source p st = Some (st', out)"
  shows "m_sendList st' = m_sendList st \<and> m_targets st' = m_targets st \<and> m_eventId st' = m_eventId st"
  using assms unfolding handle_fragment_def Let_def
  by (auto split: if_splits option.splits bind_splits)

lemma sender_ok_packet:
  assumes "sender_ok st" "HandlePacket L stack now source data st = Some (st', out)"
  shows "sender_ok st'"
proof -
  obtain r b where "Parse stack (mb_of_data data) = Some (r, b)"
    using assms(2) by (auto simp: HandlePacket_def split: bind_splits)
  with assms show ?thesis
    by (cases r) (auto simp: HandlePacket_def sender_ok_ack dest!: handle_fragment_frame
        intro: sender_ok_cong[THEN iffD2] split: if_splits)
qed

lemma component_step_ok: "component_step st out st' \<Longrightarrow> sender_ok st \<Longrightarrow> sender_ok st'"
proof (induction rule: component_step.induct)
  case (tick now order st st' out)
  then show ?case using NetworkTick_spec[OF tick.prems, of now order] by auto
next
  case (register st i)
  then show ?case by (simp add: sender_ok_def RegisterTarget_def)
qed (blast intro: sender_ok_unregister sender_ok_trigger sender_ok_packet)+

lemma component_reachable_ok: "component_reachable st \<Longrightarrow> sender_ok st"
proof (induction rule: component_reachable.induct)
  case (start now)
  then show ?case by (simp add: sender_ok_def make_reassembly_def)
qed (rule component_step_ok)

section \<open>Properties\<close>

text \<open>Triggering an event to registered targets stores the size of its name, the
  name and the payload, unchanged and in this order, with one clear acknowledgement bit per
  fragment and target, under the next event id, without leaving the payload buffer.\<close>

theorem trigger_stores_event:
  assumes "length pay + length name + 2 < kMaxPacketSize" "target = - 1 \<or> target \<in> m_targets st"
    and "m_sendList st (m_eventId st) = None"
  shows "TriggerEvent target name pay bps st = Some (st\<lparr>
    m_sendList := (m_sendList st)(m_eventId st \<mapsto>
      fresh_event (if target = - 1 then m_targets st else {target}) bps (event_image name pay)),
    m_eventId := m_eventId st + 1\<rparr>)"
  using TriggerEvent_value[OF assms(1,2)] assms(3) by simp

theorem trigger_stores_event_witness:
  "\<exists>st. m_targets st = {4} \<and> TriggerEvent 4 [97] [1, 2] 0 st = Some (st\<lparr>
    m_sendList := (m_sendList st)(0 \<mapsto> fresh_event {4} 0 [0, 1, 97, 1, 2]), m_eventId := 1\<rparr>)"
  using trigger_stores_event[of "[1, 2]" "[97]" 4 "RegisterTarget 4 (make_reassembly 0)" 0]
  by (intro exI[of _ "RegisterTarget 4 (make_reassembly 0)"])
    (simp add: make_reassembly_def RegisterTarget_def kMaxPacketSize_def packet_consts event_image_def)

text \<open>C4: In every state the component can reach, the network tick stays inside its arrays
  whatever the iteration order of the send list, and every packet it sends is a fragment of an
  event in the send list, for a registered target of that event that has not acknowledged it.\<close>

theorem tick_sends_missing_fragments:
  assumes "component_reachable st"
  shows "\<exists>st' out. NetworkTick now order st = Some (st', out) \<and>
    (\<forall>x \<in> set out. \<exists>e ev t td i. m_sendList st e = Some ev \<and> t \<in> m_targets st \<and> t \<in> se_targets ev \<and>
      targetData ev t = Some (Some td) \<and> i < length (ackBits td) \<and> \<not> ackBits td ! i \<and>
      x = SendPacket t (fragment_bytes e (sendPayload ev) i))"
proof -
  have ok: "sender_ok st" by (rule component_reachable_ok[OF assms])
  have "\<exists>e ev t td i. m_sendList st e = Some ev \<and> t \<in> m_targets st \<and> t \<in> se_targets ev \<and>
      targetData ev t = Some (Some td) \<and> i < length (ackBits td) \<and> \<not> ackBits td ! i \<and>
      x = SendPacket t (fragment_bytes e (sendPayload ev) i)"
    if e: "m_sendList st e = Some ev" and d: "due (m_targets st) e ev x" for e ev x
  proof -
    obtain t td i where d': "t \<in> m_targets st" "t \<in> se_targets ev" "pending_for ev t = Some td"
      "i < frag_count (sendPayload ev)" "\<not> ackBits td ! i" "x = SendPacket t (fragment_bytes e (sendPayload ev) i)"
      using d unfolding due_def by blast
    have "event_ok ev" using ok e by (simp add: sender_ok_def)
    then have "length (ackBits td) = frag_count (sendPayload ev)" "targetData ev t = Some (Some td)"
      using event_ok_pending[OF _ d'(3)] d'(3)
      by (auto simp: target_ok_def pending_for_def split: option.splits)
    with e d' show ?thesis by metis
  qed
  then show ?thesis using NetworkTick_spec[OF ok, of now order] by meson
qed

text \<open>A component with one target, for which an event of one fragment is under way.\<close>

definition one_sent :: reassembly where
  "one_sent = (RegisterTarget 4 (make_reassembly 0))\<lparr>m_sendList := (\<lambda>_. None)(0 \<mapsto> fresh_event {4} 0 (event_image [97] [1, 2])), m_eventId := 1\<rparr>"

lemma one_sent_triggered: "TriggerEvent 4 [97] [1, 2] 0 (RegisterTarget 4 (make_reassembly 0)) = Some one_sent"
  using TriggerEvent_value[of "[1, 2]" "[97]" 4 "RegisterTarget 4 (make_reassembly 0)" 0]
  by (simp add: one_sent_def make_reassembly_def RegisterTarget_def kMaxPacketSize_def packet_consts)

lemma one_sent_reachable: "component_reachable one_sent"
  by (rule component_reachable.step[OF component_reachable.step[OF component_reachable.start
        component_step.register] component_step.trigger[OF one_sent_triggered]])

lemma one_sent_simps:
  "m_sendList one_sent = (\<lambda>_. None)(0 \<mapsto> fresh_event {4} 0 (event_image [97] [1, 2]))" "4 \<in> m_targets one_sent"
  "se_targets (fresh_event {4} 0 (event_image [97] [1, 2])) = {4}" "sendPayload (fresh_event {4} 0 (event_image [97] [1, 2])) = event_image [97] [1, 2]"
  "targetData (fresh_event {4} 0 (event_image [97] [1, 2])) 4 = Some (Some (fresh_target (event_image [97] [1, 2])))"
  "ackBits (fresh_target (event_image [97] [1, 2])) = [False]"
  by (simp_all add: one_sent_def fresh_event_def fresh_target_def RegisterTarget_def frag_count_def length_event_image)

theorem tick_sends_missing_fragments_witness:
  "\<exists>st' out. NetworkTick 900 [0] one_sent = Some (st', out) \<and>
    (\<forall>x \<in> set out. x = SendPacket 4 (fragment_bytes 0 (event_image [97] [1, 2]) 0))"
proof -
  obtain st' out where t: "NetworkTick 900 [0] one_sent = Some (st', out)"
    "\<forall>x \<in> set out. \<exists>e ev t td i. m_sendList one_sent e = Some ev \<and> t \<in> m_targets one_sent \<and> t \<in> se_targets ev \<and>
      targetData ev t = Some (Some td) \<and> i < length (ackBits td) \<and> \<not> ackBits td ! i \<and> x = SendPacket t (fragment_bytes e (sendPayload ev) i)"
    using tick_sends_missing_fragments[OF one_sent_reachable] by blast
  have "x = SendPacket 4 (fragment_bytes 0 (event_image [97] [1, 2]) 0)" if "x \<in> set out" for x
    using t(2) that by (fastforce simp: one_sent_simps split: if_splits)
  with t(1) show ?thesis by blast
qed

text \<open>C5: An event leaves the send list at a tick only when each of its targets has
  acknowledged every fragment or is not registered any more, and a target is dropped from an event
  only for one of these reasons; acknowledgements and payload of what stays are untouched.\<close>

theorem event_kept_until_acknowledged:
  assumes "component_reachable st" "NetworkTick now order st = Some (st', out)"
    and "m_sendList st e = Some ev" "t \<in> se_targets ev"
    and "t \<in> m_targets st" "targetData ev t = Some (Some td)" "\<not> list_all (\<lambda>b. b) (ackBits td)"
  shows "\<exists>ev' td'. m_sendList st' e = Some ev' \<and> sendPayload ev' = sendPayload ev \<and> t \<in> se_targets ev' \<and>
    targetData ev' t = Some (Some td') \<and> ackBits td' = ackBits td"
proof -
  have td: "pending_for ev t = Some td" using assms(6) by (simp add: pending_for_def)
  have open_t: "\<not> served (m_targets st) ev t" using assms(5,7) td by (auto simp: served_def all_acked_def)
  have spec: "case m_sendList st' e of
       None \<Rightarrow> \<forall>t \<in> se_targets ev. served (m_targets st) ev t
     | Some ev' \<Rightarrow> later (m_targets st) ev (ev', {})"
    using NetworkTick_spec[OF component_reachable_ok[OF assms(1)], of now order] assms(2,3) by auto
  then obtain ev' where ev': "m_sendList st' e = Some ev'" "later (m_targets st) ev (ev', {})"
    using open_t assms(4) by (cases "m_sendList st' e") auto
  have in': "t \<in> se_targets ev'" using ev'(2) open_t assms(4) by (auto simp: later_def)
  then obtain td' where td': "pending_for ev' t = Some td'" using ev'(2) by (auto simp: later_def)
  have "ackBits td' = ackBits td" using later_pending[OF ev'(2) td'] td by simp
  moreover have "targetData ev' t = Some (Some td')"
    using td' by (auto simp: pending_for_def split: option.splits)
  ultimately show ?thesis using ev'(1) in' later_payload[OF ev'(2)] by blast
qed

theorem event_kept_until_acknowledged_witness:
  "\<exists>st' out ev' td'. TriggerEvent 4 [97] [1, 2] 0 (RegisterTarget 4 (make_reassembly 0)) = Some one_sent \<and>
    NetworkTick 900 [0] one_sent = Some (st', out) \<and> m_sendList st' 0 = Some ev' \<and> 4 \<in> se_targets ev' \<and>
    targetData ev' 4 = Some (Some td') \<and> ackBits td' = [False]"
proof -
  obtain st' out where tick: "NetworkTick 900 [0] one_sent = Some (st', out)"
    using NetworkTick_spec[OF component_reachable_ok[OF one_sent_reachable], of 900 "[0]"] by auto
  have "m_sendList one_sent 0 = Some (fresh_event {4} 0 (event_image [97] [1, 2]))" by (simp add: one_sent_simps)
  from event_kept_until_acknowledged[OF one_sent_reachable tick this, of 4] one_sent_simps one_sent_triggered tick show ?thesis by auto
qed

text \<open>C21: A burst to one target terminates inside its arrays; it sends unacknowledged fragments
  only, each at most once and in increasing order from the resume position on, and drops the
  target exactly when every fragment is acknowledged.\<close>

theorem burst_order:
  assumes "length (ackBits td) = frag_count d" "lastBit td < frag_count d"
  shows "\<exists>r is. burst now latency eid d target startBit resTime td =
      Some (r, map (\<lambda>i. SendPacket target (fragment_bytes eid d i)) is) \<and>
    sorted_wrt (<) is \<and> (\<forall>i \<in> set is. lastBit td \<le> i \<and> i < frag_count d \<and> \<not> ackBits td ! i) \<and>
    (r = None \<longleftrightarrow> list_all (\<lambda>b. b) (ackBits td))"
proof -
  have "target_ok d td" using assms by (simp add: target_ok_def)
  from burst_spec[OF this, of now latency eid target startBit resTime] show ?thesis
    by (elim exE conjE) (intro exI conjI, assumption, assumption, blast,
        auto simp: all_acked_def split: option.splits)
qed

theorem burst_order_witness:
  "\<exists>r is. burst 900 40 0 (replicate 1100 0) 4 0 100
      \<lparr>lastSend = 0, delayNextSend = 0, ackBits = [True, False], lastBit = 0\<rparr> =
      Some (r, map (\<lambda>i. SendPacket 4 (fragment_bytes 0 (replicate 1100 0) i)) is) \<and>
    sorted_wrt (<) is \<and> set is \<subseteq> {1} \<and> r \<noteq> None"
proof -
  let ?td = "\<lparr>lastSend = 0, delayNextSend = 0, ackBits = [True, False], lastBit = 0\<rparr>"
  have n: "frag_count (replicate 1100 0) = 2" by (simp add: frag_count_def)
  obtain r js where b: "burst 900 40 0 (replicate 1100 0) 4 0 100 ?td =
      Some (r, map (\<lambda>i. SendPacket 4 (fragment_bytes 0 (replicate 1100 0) i)) js)" "sorted_wrt (<) js"
    "\<forall>i \<in> set js. i < 2 \<and> \<not> [True, False] ! i" "r \<noteq> None"
    using burst_order[of ?td "replicate 1100 0" 900 40 0 4 0 100] n by auto
  have "i = 1" if "i \<in> set js" for i
    using b(3) that by (cases i) (auto simp: less_Suc_eq)
  with b show ?thesis by blast
qed

end
