(* ===== verification/State_Bag.thy ===== *)
theory State_Bag
  imports Bit_Stream Std_Containers "HOL-Library.List_Lexorder"
begin

unbundle bit_operations_syntax

text \<open>
  \<open>StateBagComponentImpl\<close> and \<open>StateBagImpl\<close> of
  \<open>code/components/citizen-resources-core/src/StateBagComponent.cpp\<close>: named key/value stores
  that are replicated to network peers.

  Conventions: the C++ objects live in \<open>heap\<close>; \<open>shared_ptr\<close> owners outside the component are counted
  in \<open>refs\<close>, the component's own are \<open>preCreated\<close>; \<open>m_stateBags\<close> holds weak pointers, so
  locking one succeeds when the object is still in the heap. The iteration orders of the two hash
  tables are the arguments \<open>ot\<close> (targets) and \<open>ob\<close> (bags). Change handlers, the game interface and the
  msgpack decoder, which is a library, are the argument \<open>env\<close>. \<open>None\<close> is an access outside an array.
\<close>

section \<open>State\<close>

record state_bag =
  sb_id :: "byte list"
  routingTargets :: "int set"
  owningPeer :: "int option"
  sb_data :: "(byte list, byte list) omap"

datatype bag_role = Client_role | Server_role

record bag_component =
  sbc_role :: bag_role
  sbc_targets :: "int set"
  erasureList :: "byte list set"
  stateBags :: "byte list \<rightharpoonup> nat"
  preCreatePrefixes :: "byte list set"
  preCreated :: "nat set"
  heap :: "nat \<rightharpoonup> state_bag"
  refs :: "nat \<Rightarrow> nat"
  next_addr :: nat
  dataBuffer :: msgbuf

datatype bag_effect =
    Send_state int "byte list"
  | Queue_change nat int "byte list" "byte list" bool

record 'o change_env =
  has_handlers :: bool
  unpack :: "byte list \<Rightarrow> 'o option"
  asynchronous :: bool
  on_change :: "int \<Rightarrow> byte list \<Rightarrow> byte list \<Rightarrow> 'o \<Rightarrow> bool \<Rightarrow> bool"

definition make_bag_component :: "bag_role \<Rightarrow> bag_component" where
  "make_bag_component r = \<lparr>sbc_role = r, sbc_targets = {}, erasureList = {}, stateBags = Map.empty,
     preCreatePrefixes = {}, preCreated = {}, heap = Map.empty, refs = (\<lambda>_. 0), next_addr = 0,
     dataBuffer = mb_of_size 131072\<rparr>"

definition set_bag :: "nat \<Rightarrow> state_bag \<Rightarrow> bag_component \<Rightarrow> bag_component" where
  "set_bag a bag c = c\<lparr>heap := (heap c)(a \<mapsto> bag)\<rparr>"

section \<open>Sending\<close>

text \<open>The lambda \<open>writeStr\<close>: size plus one, the characters, a zero byte.\<close>

definition writeStr :: "byte list \<Rightarrow> msgbuf \<Rightarrow> msgbuf option" where
  "writeStr s b = do {
     b \<leftarrow> Write False 16 (word_of_nat (length s + 1)) b;
     (_, b) \<leftarrow> WriteBits s (length s * 8) b;
     Write False 8 0 b }"

definition write_state :: "byte list \<Rightarrow> byte list \<Rightarrow> byte list \<Rightarrow> msgbuf \<Rightarrow> msgbuf option" where
  "write_state i key v b = do {
     b \<leftarrow> writeStr i (SetCurrentBit 0 b);
     b \<leftarrow> writeStr key b;
     (_, b) \<leftarrow> WriteBits v (length v * 8) b;
     Some b }"

definition SendKey :: "int \<Rightarrow> byte list \<Rightarrow> nat \<Rightarrow> bag_component \<Rightarrow> (bag_component \<times> bag_effect list) option" where
  "SendKey target key a c =
     (case heap c a of
        None \<Rightarrow> None
      | Some bag \<Rightarrow>
          (case map_of (sb_data bag) key of
             None \<Rightarrow> Some (c\<lparr>dataBuffer := SetCurrentBit 0 (dataBuffer c)\<rparr>, [])
           | Some v \<Rightarrow> do {
               b \<leftarrow> write_state (sb_id bag) key v (dataBuffer c);
               Some (c\<lparr>dataBuffer := b\<rparr>, [Send_state target (take (GetCurrentBit b div 8) (m_data b))]) }))"

definition SendAll :: "int \<Rightarrow> nat \<Rightarrow> bag_component \<Rightarrow> (bag_component \<times> bag_effect list) option" where
  "SendAll target a c =
     (case heap c a of
        None \<Rightarrow> None
      | Some bag \<Rightarrow> each (\<lambda>key. SendKey target key a) (map fst (sb_data bag)) c)"

definition SendAllInitial :: "int \<Rightarrow> nat \<Rightarrow> bag_component \<Rightarrow> (bag_component \<times> bag_effect list) option" where
  "SendAllInitial target a c =
     (case heap c a of
        None \<Rightarrow> None
      | Some bag \<Rightarrow>
          if routingTargets bag \<noteq> {} \<and> target \<notin> routingTargets bag then Some (c, [])
          else SendAll target a c)"

definition SendKeyAll :: "(int set \<Rightarrow> int list) \<Rightarrow> byte list \<Rightarrow> nat \<Rightarrow> bag_component \<Rightarrow>
    (bag_component \<times> bag_effect list) option" where
  "SendKeyAll ot key a c =
     (case heap c a of
        None \<Rightarrow> None
      | Some bag \<Rightarrow>
          each (\<lambda>target. SendKey target key a)
            (if routingTargets bag = {} then ot (sbc_targets c) else sorted_list_of_set (routingTargets bag)) c)"

section \<open>Keys\<close>

definition GetKey :: "byte list \<Rightarrow> state_bag \<Rightarrow> byte list option" where
  "GetKey key bag = map_of (sb_data bag) key"

definition SetKeyInternal :: "(int set \<Rightarrow> int list) \<Rightarrow> byte list \<Rightarrow> byte list \<Rightarrow> bool \<Rightarrow> nat \<Rightarrow>
    bag_component \<Rightarrow> (bag_component \<times> bag_effect list) option" where
  "SetKeyInternal ot key v replicated a c =
     (case heap c a of
        None \<Rightarrow> None
      | Some bag \<Rightarrow>
          let lastValue = (if replicated then (case map_of (sb_data bag) key of None \<Rightarrow> [] | Some x \<Rightarrow> x) else []);
              c = set_bag a (bag\<lparr>sb_data := omap_put key v (sb_data bag)\<rparr>) c
          in if replicated \<and> v \<noteq> lastValue then SendKeyAll ot key a c else Some (c, []))"

definition SetKey :: "'o change_env \<Rightarrow> (int set \<Rightarrow> int list) \<Rightarrow> int \<Rightarrow> byte list \<Rightarrow> byte list \<Rightarrow> bool \<Rightarrow> nat \<Rightarrow>
    bag_component \<Rightarrow> (bag_component \<times> bag_effect list) option" where
  "SetKey env ot source key v replicated a c =
     (case heap c a of
        None \<Rightarrow> None
      | Some bag \<Rightarrow>
          if has_handlers env then
            (case unpack env v of
               None \<Rightarrow> Some (c, [])
             | Some up \<Rightarrow>
                 if asynchronous env then
                   Some (c\<lparr>refs := (refs c)(a := refs c a + 1)\<rparr>, [Queue_change a source key v replicated])
                 else if \<not> on_change env source (sb_id bag) key up replicated then Some (c, [])
                 else SetKeyInternal ot key v replicated a c)
          else SetKeyInternal ot key v replicated a c)"

section \<open>Routing\<close>

definition SetRoutingTargets :: "int set \<Rightarrow> nat \<Rightarrow> bag_component \<Rightarrow> (bag_component \<times> bag_effect list) option" where
  "SetRoutingTargets peers a c =
     (case heap c a of
        None \<Rightarrow> None
      | Some bag \<Rightarrow>
          each (\<lambda>target. SendAll target a) (sorted_list_of_set (peers - routingTargets bag))
            (set_bag a (bag\<lparr>routingTargets := peers\<rparr>) c))"

definition AddRoutingTarget :: "int \<Rightarrow> nat \<Rightarrow> bag_component \<Rightarrow> (bag_component \<times> bag_effect list) option" where
  "AddRoutingTarget peer a c =
     (case heap c a of
        None \<Rightarrow> None
      | Some bag \<Rightarrow>
          if peer \<in> routingTargets bag then Some (c, [])
          else SendAll peer a (set_bag a (bag\<lparr>routingTargets := insert peer (routingTargets bag)\<rparr>) c))"

definition RemoveRoutingTarget :: "int \<Rightarrow> state_bag \<Rightarrow> state_bag" where
  "RemoveRoutingTarget peer bag = bag\<lparr>routingTargets := routingTargets bag - {peer}\<rparr>"

definition SetOwningPeer :: "int option \<Rightarrow> state_bag \<Rightarrow> state_bag" where
  "SetOwningPeer peer bag = bag\<lparr>owningPeer := peer\<rparr>"

section \<open>Registration and lifetime\<close>

text \<open>A bag dies when nothing owns it; its destructor puts its name on the erasure list.\<close>

definition collect :: "nat \<Rightarrow> bag_component \<Rightarrow> bag_component" where
  "collect a c =
     (case heap c a of
        None \<Rightarrow> c
      | Some bag \<Rightarrow>
          if refs c a = 0 \<and> a \<notin> preCreated c then
            c\<lparr>heap := (heap c)(a := None), erasureList := insert (sb_id bag) (erasureList c)\<rparr>
          else c)"

text \<open>An owner outside the component's own containers gives its pointer up.\<close>

definition drop_ref :: "nat \<Rightarrow> bag_component \<Rightarrow> bag_component" where
  "drop_ref a c = collect a (c\<lparr>refs := (refs c)(a := refs c a - 1)\<rparr>)"

text \<open>
  The task queued by \<open>SetKey\<close>, when the game interface runs it. Its continuation owns the bag from
  the moment it is queued until it has run.
\<close>

definition run_change :: "'o change_env \<Rightarrow> (int set \<Rightarrow> int list) \<Rightarrow> bag_effect \<Rightarrow> bag_component \<Rightarrow>
    (bag_component \<times> bag_effect list) option" where
  "run_change env ot task c =
     (case task of
        Queue_change a source key v replicated \<Rightarrow>
          (case (heap c a, unpack env v) of
             (Some bag, Some up) \<Rightarrow>
               if on_change env source (sb_id bag) key up replicated then do {
                 (c, out) \<leftarrow> SetKeyInternal ot key v replicated a c;
                 Some (drop_ref a c, out) }
               else Some (drop_ref a c, [])
           | _ \<Rightarrow> None)
      | _ \<Rightarrow> Some (c, []))"

text \<open>Locking the weak pointer; the caller counts as an owner where it keeps the result.\<close>

definition GetStateBag :: "byte list \<Rightarrow> bag_component \<Rightarrow> nat option" where
  "GetStateBag i c =
     (case stateBags c i of None \<Rightarrow> None | Some a \<Rightarrow> if heap c a = None then None else Some a)"

text \<open>The returned pointer is a new owner.\<close>

definition RegisterStateBag :: "byte list \<Rightarrow> bag_component \<Rightarrow> nat \<times> bag_component" where
  "RegisterStateBag i c =
     (case GetStateBag i c of
        Some a \<Rightarrow> (a, c\<lparr>preCreated := preCreated c - {a}, refs := (refs c)(a := refs c a + 1)\<rparr>)
      | None \<Rightarrow>
          let a = next_addr c in
          (a, c\<lparr>heap := (heap c)(a \<mapsto> \<lparr>sb_id = i, routingTargets = {}, owningPeer = None, sb_data = []\<rparr>),
               next_addr := a + 1, refs := (refs c)(a := 1),
               stateBags := (stateBags c)(i \<mapsto> a), erasureList := erasureList c - {i}\<rparr>))"

definition PreCreateStateBag :: "byte list \<Rightarrow> bag_component \<Rightarrow> nat \<times> bag_component" where
  "PreCreateStateBag i c =
     (let (a, c) = RegisterStateBag i c in (a, c\<lparr>preCreated := insert a (preCreated c)\<rparr>))"

definition AddSafePreCreatePrefix :: "byte list \<Rightarrow> bag_component \<Rightarrow> bag_component" where
  "AddSafePreCreatePrefix p c = c\<lparr>preCreatePrefixes := insert p (preCreatePrefixes c)\<rparr>"

definition IsSafePreCreateName :: "byte list \<Rightarrow> bag_component \<Rightarrow> bool" where
  "IsSafePreCreateName i c \<longleftrightarrow> (\<exists>p \<in> preCreatePrefixes c. take (length p) i = p)"

definition RegisterTarget_sb :: "((byte list \<rightharpoonup> nat) \<Rightarrow> nat list) \<Rightarrow> int \<Rightarrow> bag_component \<Rightarrow>
    (bag_component \<times> bag_effect list) option" where
  "RegisterTarget_sb ob i c =
     (if i \<in> sbc_targets c then Some (c, [])
      else
        let c = c\<lparr>sbc_targets := insert i (sbc_targets c)\<rparr> in
        each (\<lambda>a c. if heap c a = None then Some (c, []) else SendAllInitial i a c) (ob (stateBags c)) c)"

definition UnregisterTarget_sb :: "int \<Rightarrow> bag_component \<Rightarrow> bag_component" where
  "UnregisterTarget_sb i c = c\<lparr>sbc_targets := sbc_targets c - {i},
     heap := (\<lambda>a. if a \<in> ran (stateBags c) then map_option (RemoveRoutingTarget i) (heap c a) else heap c a)\<rparr>"

text \<open>The handler that \<open>AttachToObject\<close> connects to the resource manager's tick.\<close>

definition bag_tick :: "bag_component \<Rightarrow> bag_component" where
  "bag_tick c = c\<lparr>erasureList := {}, stateBags := (\<lambda>i. if i \<in> erasureList c then None else stateBags c i)\<rparr>"

text \<open>\<open>Reset\<close> forgets every bag; the pre-created ones that nobody else owns die.\<close>

definition Reset :: "bag_component \<Rightarrow> bag_component" where
  "Reset c =
     (let dead = {a \<in> preCreated c. heap c a \<noteq> None \<and> refs c a = 0} in
      c\<lparr>stateBags := Map.empty, preCreated := {},
        heap := (\<lambda>a. if a \<in> dead then None else heap c a),
        erasureList := erasureList c \<union> {sb_id bag | a bag. a \<in> dead \<and> heap c a = Some bag}\<rparr>)"

section \<open>Receiving\<close>

definition readStr :: "msgbuf \<Rightarrow> (byte list \<times> msgbuf) option" where
  "readStr b = do {
     (r, b) \<leftarrow> ReadBitsSingle False 16 b;
     let len = (case r of None \<Rightarrow> 0 | Some v \<Rightarrow> unat v);
     (if len \<le> 0 then Some ([], b)
      else do {
        (_, rbuffer, b) \<leftarrow> ReadBits False (replicate (len - 1) 0) ((len - 1) * 8) b;
        (_, b) \<leftarrow> ReadBitsSingle False 8 b;
        Some (rbuffer, b) }) }"

text \<open>The first part of \<open>HandlePacket\<close>: name, key and value, or nothing.\<close>

definition read_state :: "byte list \<Rightarrow> (byte list \<times> byte list \<times> byte list) option option" where
  "read_state dataRaw = do {
     let buffer = mb_of_data dataRaw;
     (idName, buffer) \<leftarrow> readStr buffer;
     (if idName = [] then Some None
      else do {
        (key, buffer) \<leftarrow> readStr buffer;
        (if key = [] then Some None
         else
           let dataLength = GetLength buffer * 8 - GetCurrentBit buffer in
           if dataLength = 0 then Some None
           else do {
             (_, v, buffer) \<leftarrow> ReadBits False (replicate (dataLength div 8) 0) dataLength buffer;
             Some (Some (idName, key, v)) }) }) }"

definition apply_state :: "'o change_env \<Rightarrow> (int set \<Rightarrow> int list) \<Rightarrow> int \<Rightarrow> byte list \<Rightarrow> byte list \<Rightarrow> byte list \<Rightarrow>
    bag_component \<Rightarrow> (bag_component \<times> bag_effect list) option" where
  "apply_state env ot source i key v c =
     (let (bag, c) = (case GetStateBag i c of
          Some a \<Rightarrow> (Some a, c\<lparr>refs := (refs c)(a := refs c a + 1)\<rparr>)
        | None \<Rightarrow>
            if IsSafePreCreateName i c then let (a, c) = PreCreateStateBag i c in (Some a, c) else (None, c))
      in case bag of
        None \<Rightarrow> Some (c, [])
      | Some a \<Rightarrow>
          (case heap c a of
             None \<Rightarrow> None
           | Some b \<Rightarrow>
               if (case owningPeer b of None \<Rightarrow> False | Some peer \<Rightarrow> peer \<noteq> source) then Some (drop_ref a c, [])
               else do {
                 (c, out) \<leftarrow> SetKey env ot source key v (sbc_role c = Server_role) a c;
                 Some (drop_ref a c, out) }))"

definition HandlePacket_sb :: "'o change_env \<Rightarrow> (int set \<Rightarrow> int list) \<Rightarrow> int \<Rightarrow> byte list \<Rightarrow> bag_component \<Rightarrow>
    (bag_component \<times> bag_effect list) option" where
  "HandlePacket_sb env ot source dataRaw c = do {
     r \<leftarrow> read_state dataRaw;
     (case r of None \<Rightarrow> Some (c, []) | Some (i, key, v) \<Rightarrow> apply_state env ot source i key v c) }"

end
