(* ===== verification/State_Bag_Properties.thy ===== *)
theory State_Bag_Properties
  imports State_Bag
begin

unbundle bit_operations_syntax

text \<open>
  What state bags promise: the wire format is read back as it was written, changes reach exactly the
  peers they are routed to, packets are accepted only from a bag's owner and for known or
  safe names, and a bag that is still owned stays registered.
\<close>

section \<open>The wire format\<close>

definition str_image :: "byte list \<Rightarrow> byte list" where
  "str_image s = [word_of_nat (Suc (length s) div 256), word_of_nat (Suc (length s))] @ s @ [0]"

definition state_image :: "byte list \<Rightarrow> byte list \<Rightarrow> byte list \<Rightarrow> byte list" where
  "state_image i key v = str_image i @ str_image key @ v"

lemma length_str_image [simp]: "length (str_image s) = length s + 3"
  by (simp add: str_image_def)

lemma length_state_image: "length (state_image i key v) = length i + length key + length v + 6"
  by (simp add: state_image_def)

lemma str_image_bits:
  "bytes_bits (str_image s) = word_bits 16 (word_of_nat (Suc (length s)) :: u32) @ bytes_bits s @ word_bits 8 (0 :: u32)"
  unfolding str_image_def bytes_bits_append size_field_bits zero_byte_bits by simp

definition buffer_ok :: "msgbuf \<Rightarrow> bool" where
  "buffer_ok b \<longleftrightarrow> mb_wok b \<and> length (m_data b) = 131072"

lemma wok_maxBit: "mb_wok b \<Longrightarrow> m_maxBit b = 8 * length (m_data b)"
  by (simp add: mb_wok_def mb_wf_def)

text \<open>Writing never changes the size of a buffer.\<close>

lemma WriteBitsSingle_maxBit:
  "WriteBitsSingle hack v n b = Some (r, b') \<Longrightarrow> m_maxBit b' = m_maxBit b"
  by (auto simp: WriteBitsSingle_def Let_def split: if_splits bind_splits)

lemma WriteBits_maxBit: "WriteBits p n b = Some (r, b') \<Longrightarrow> m_maxBit b' = m_maxBit b"
  by (auto simp: WriteBits_def split: if_splits bind_splits)

lemma Write_maxBit: "Write hack n v b = Some b' \<Longrightarrow> m_maxBit b' = m_maxBit b"
  by (auto simp: Write_def dest!: WriteBitsSingle_maxBit split: bind_splits)

lemma buffer_ok_step: "buffer_ok b \<Longrightarrow> mb_wok b' \<Longrightarrow> m_maxBit b' = m_maxBit b \<Longrightarrow> buffer_ok b'"
  by (simp add: buffer_ok_def wok_maxBit)

lemma buffer_ok_rewind: "buffer_ok b \<Longrightarrow> buffer_ok (SetCurrentBit 0 b)"
  by (simp add: buffer_ok_def mb_wok_def SetCurrentBit_def mb_wf_def)

lemma Write_total:
  assumes "buffer_ok b" "0 < n" "n \<le> 32"
  shows "\<exists>b'. Write False n v b = Some b' \<and> buffer_ok b'"
  using mb_out.wr_total[of b n v] assms buffer_ok_step Write_maxBit unfolding buffer_ok_def by meson

lemma WriteBits_total:
  assumes "buffer_ok b"
  shows "\<exists>r b'. WriteBits s (length s * 8) b = Some (r, b') \<and> buffer_ok b'"
  using mb_out.wr_bytes_total[of b "length s" s] assms buffer_ok_step WriteBits_maxBit
  unfolding buffer_ok_def by (metis mult.commute order_refl)

lemma writeStr_total:
  assumes "buffer_ok b"
  shows "\<exists>b'. writeStr s b = Some b' \<and> buffer_ok b'"
proof -
  obtain b1 where "Write False 16 (word_of_nat (length s + 1)) b = Some b1" "buffer_ok b1"
    using Write_total[OF assms, of 16] by auto
  moreover from this obtain r b2 where "WriteBits s (length s * 8) b1 = Some (r, b2)" "buffer_ok b2"
    using WriteBits_total by blast
  moreover from this obtain b3 where "Write False 8 0 b2 = Some b3" "buffer_ok b3"
    using Write_total[of b2 8] by auto
  ultimately show ?thesis by (simp add: writeStr_def)
qed

lemma write_state_total:
  assumes "buffer_ok b"
  shows "\<exists>b'. write_state i key v b = Some b' \<and> buffer_ok b'"
proof -
  obtain b1 where "writeStr i (SetCurrentBit 0 b) = Some b1" "buffer_ok b1"
    using writeStr_total[OF buffer_ok_rewind[OF assms]] by blast
  moreover from this obtain b2 where "writeStr key b1 = Some b2" "buffer_ok b2"
    using writeStr_total by blast
  moreover from this obtain r b3 where "WriteBits v (length v * 8) b2 = Some (r, b3)" "buffer_ok b3"
    using WriteBits_total by blast
  ultimately show ?thesis by (simp add: write_state_def)
qed

lemma writeStr_bits:
  assumes "mb_wok b" "8 * length (str_image s) \<le> mb_room b"
  shows "\<exists>b'. writeStr s b = Some b' \<and> mb_wok b' \<and> written b' = written b @ bytes_bits (str_image s) \<and>
    mb_room b' = mb_room b - 8 * length (str_image s)"
proof -
  have r: "24 + 8 * length s \<le> mb_room b" using assms(2) by simp
  obtain b1 where b1: "Write False 16 (word_of_nat (Suc (length s))) b = Some b1" "mb_wok b1"
    "written b1 = written b @ word_bits 16 (word_of_nat (Suc (length s)) :: u32)" "mb_room b1 = mb_room b - 16"
    using mb_out.wr_value[OF assms(1), of 16 "word_of_nat (Suc (length s))"] r by auto
  have r1: "8 * length s \<le> mb_room b1" using r b1(4) by simp
  obtain b2 where b2: "WriteBits s (length s * 8) b1 = Some (True, b2)" "mb_wok b2"
    "written b2 = written b1 @ bytes_bits s" "mb_room b2 = mb_room b1 - 8 * length s"
    using mb_out.wr_bytes_value[OF b1(2) r1, of s] by (auto simp: mult.commute)
  have "8 \<le> mb_room b2" using r b1(4) b2(4) by simp
  then obtain b3 where b3: "Write False 8 0 b2 = Some b3" "mb_wok b3"
    "written b3 = written b2 @ word_bits 8 (0 :: u32)" "mb_room b3 = mb_room b2 - 8"
    using mb_out.wr_value[OF b2(2), of 8 0] by auto
  show ?thesis using b1 b2 b3 r by (simp add: writeStr_def str_image_bits)
qed

lemma write_state_value:
  assumes "buffer_ok b" "length (state_image i key v) \<le> 131072"
  shows "\<exists>b'. write_state i key v b = Some b' \<and> buffer_ok b' \<and>
    take (GetCurrentBit b' div 8) (m_data b') = state_image i key v"
proof -
  let ?b = "SetCurrentBit 0 b"
  have b: "mb_wok ?b" "written ?b = []" "mb_room ?b = 1048576"
    using buffer_ok_rewind[OF assms(1)] assms(1)
    by (simp_all add: buffer_ok_def mb_room_def written_def SetCurrentBit_def wok_maxBit)
  have len: "length i + length key + length v + 6 \<le> 131072" using assms(2) by (simp add: length_state_image)
  obtain b1 where b1: "writeStr i ?b = Some b1" "mb_wok b1" "written b1 = bytes_bits (str_image i)"
    "mb_room b1 = 1048576 - 8 * (length i + 3)"
    using writeStr_bits[OF b(1), of i] b(2,3) len by auto
  have "8 * length (str_image key) \<le> mb_room b1" using b1(4) len by simp
  then obtain b2 where b2: "writeStr key b1 = Some b2" "mb_wok b2"
    "written b2 = bytes_bits (str_image i) @ bytes_bits (str_image key)"
    "mb_room b2 = mb_room b1 - 8 * (length key + 3)"
    using writeStr_bits[OF b1(2), of key] b1(3) by auto
  have "8 * length v \<le> mb_room b2" using b1(4) b2(4) len by simp
  then obtain b3 where b3: "WriteBits v (length v * 8) b2 = Some (True, b3)" "mb_wok b3"
    "written b3 = bytes_bits (state_image i key v)"
    using mb_out.wr_bytes_value[OF b2(2), of "length v" v] b2(3)
    by (auto simp: mult.commute state_image_def bytes_bits_append)
  have w: "write_state i key v b = Some b3" using b1(1) b2(1) b3(1) by (simp add: write_state_def)
  then have "buffer_ok b3" using write_state_total[OF assms(1), of i key v] by simp
  with w written_bytes[OF b3(2,3)] show ?thesis by simp
qed

lemma readStr_value:
  assumes "mb_wf b" "pending b = bytes_bits (str_image s) @ rest" "Suc (length s) < 65536"
  shows "\<exists>b'. readStr b = Some (s, b') \<and> mb_wf b' \<and> pending b' = rest"
proof -
  note p = assms(2)[unfolded str_image_bits append.assoc]
  obtain b1 where b1: "ReadBitsSingle False 16 b = Some (Some (word_of_nat (Suc (length s))), b1)" "mb_wf b1"
    "pending b1 = bytes_bits s @ word_bits 8 (0 :: u32) @ rest"
    using mb_in.rd_field[OF assms(1) _ _ p] assms(3) take_bit_word_of_nat[of "Suc (length s)" 16] by auto
  have u: "unat (word_of_nat (Suc (length s)) :: u32) = Suc (length s)"
    using assms(3) by (intro unat_small_u32) simp
  obtain b2 where b2: "ReadBits False (replicate (length s) 0) (length s * 8) b1 = Some (True, s, b2)" "mb_wf b2"
    "pending b2 = word_bits 8 (0 :: u32) @ rest"
    using mb_in.rd_bytes_field[OF b1(2) refl _ b1(3), of "replicate (length s) 0"] by (auto simp: mult.commute)
  obtain b3 where "ReadBitsSingle False 8 b2 = Some (Some 0, b3)" "mb_wf b3" "pending b3 = rest"
    using mb_in.rd_field[OF b2(2) _ _ b2(3)] by auto
  with b1(1) b2(1) u show ?thesis by (simp add: readStr_def del: of_nat_Suc)
qed

lemma rest_bits: "mb_wf b \<Longrightarrow> GetLength b * 8 - GetCurrentBit b = length (pending b)"
  by (auto simp: GetLength_def GetCurrentBit_def mb_wf_def min_def)

lemma read_state_value:
  assumes "i \<noteq> []" "key \<noteq> []" "v \<noteq> []" "Suc (length i) < 65536" "Suc (length key) < 65536"
    and "8 * length (state_image i key v) < 2 ^ 31"
  shows "read_state (state_image i key v) = Some (Some (i, key, v))"
proof -
  let ?b = "mb_of_data (state_image i key v)"
  have wf: "mb_wf ?b" using assms(6) by (rule mb_wf_of_data)
  have p: "pending ?b = bytes_bits (str_image i) @ bytes_bits (str_image key) @ bytes_bits v"
    unfolding pending_of_data state_image_def bytes_bits_append by simp
  obtain b1 where b1: "readStr ?b = Some (i, b1)" "mb_wf b1"
    "pending b1 = bytes_bits (str_image key) @ bytes_bits v"
    using readStr_value[OF wf p assms(4)] by blast
  obtain b2 where b2: "readStr b1 = Some (key, b2)" "mb_wf b2" "pending b2 = bytes_bits v"
    using readStr_value[OF b1(2,3) assms(5)] by blast
  have len: "GetLength b2 * 8 - GetCurrentBit b2 = 8 * length v" using rest_bits[OF b2(2)] b2(3) by simp
  obtain b3 where "ReadBits False (replicate (length v) 0) (8 * length v) b2 = Some (True, v, b3)"
    using mb_in.rd_bytes_field[OF b2(2) refl, of v "replicate (length v) 0" "[]"] b2(3) by auto
  moreover have "\<not> GetLength b2 * 8 \<le> GetCurrentBit b2" by (rule notI) (use len assms(3) in simp)
  ultimately show ?thesis using b1(1) b2(1) len assms(1-3) by (simp add: read_state_def Let_def)
qed

section \<open>Routing\<close>

lemma SendKey_value:
  assumes "buffer_ok (dataBuffer c)" "heap c a = Some bag" "map_of (sb_data bag) key = Some v"
    "length (state_image (sb_id bag) key v) \<le> 131072"
  shows "\<exists>b'. SendKey t key a c = Some (c\<lparr>dataBuffer := b'\<rparr>, [Send_state t (state_image (sb_id bag) key v)]) \<and>
    buffer_ok b'"
  using write_state_value[OF assms(1,4)] assms(2,3) by (auto simp: SendKey_def)

lemma each_SendKey_value:
  assumes "buffer_ok (dataBuffer c)" "heap c a = Some bag" "map_of (sb_data bag) key = Some v"
    "length (state_image (sb_id bag) key v) \<le> 131072"
  shows "\<exists>b'. each (\<lambda>t. SendKey t key a) ts c =
    Some (c\<lparr>dataBuffer := b'\<rparr>, map (\<lambda>t. Send_state t (state_image (sb_id bag) key v)) ts) \<and> buffer_ok b'"
  using assms(1,2)
proof (induction ts arbitrary: c)
  case Nil
  then show ?case by (intro exI[of _ "dataBuffer c"]) simp
next
  case (Cons t ts)
  obtain b1 where b1: "SendKey t key a c = Some (c\<lparr>dataBuffer := b1\<rparr>, [Send_state t (state_image (sb_id bag) key v)])"
    "buffer_ok b1"
    using SendKey_value[OF Cons.prems assms(3,4)] by blast
  obtain b2 where "each (\<lambda>t. SendKey t key a) ts (c\<lparr>dataBuffer := b1\<rparr>) =
    Some (c\<lparr>dataBuffer := b2\<rparr>, map (\<lambda>t. Send_state t (state_image (sb_id bag) key v)) ts)" "buffer_ok b2"
    using Cons.IH[of "c\<lparr>dataBuffer := b1\<rparr>"] b1(2) Cons.prems(2) by auto
  with b1(1) show ?case by auto
qed

definition routed :: "(int set \<Rightarrow> int list) \<Rightarrow> state_bag \<Rightarrow> bag_component \<Rightarrow> int list" where
  "routed ot bag c = (if routingTargets bag = {} then ot (sbc_targets c) else sorted_list_of_set (routingTargets bag))"

lemma SetKeyInternal_value:
  assumes "buffer_ok (dataBuffer c)" "heap c a = Some bag" "omap_ok (sb_data bag)"
    "length (state_image (sb_id bag) key v) \<le> 131072"
  shows "\<exists>b'. SetKeyInternal ot key v replicated a c =
    Some (set_bag a (bag\<lparr>sb_data := omap_put key v (sb_data bag)\<rparr>) c\<lparr>dataBuffer := b'\<rparr>,
      if replicated \<and> GetKey key bag \<noteq> Some v \<and> (v \<noteq> [] \<or> GetKey key bag \<noteq> None)
      then map (\<lambda>t. Send_state t (state_image (sb_id bag) key v)) (routed ot bag c) else []) \<and> buffer_ok b'"
proof -
  let ?bag = "bag\<lparr>sb_data := omap_put key v (sb_data bag)\<rparr>"
  let ?c = "set_bag a ?bag c"
  define old where "old = (if replicated then case map_of (sb_data bag) key of None \<Rightarrow> [] | Some x \<Rightarrow> x else [])"
  have c: "buffer_ok (dataBuffer ?c)" "heap ?c a = Some ?bag" "map_of (sb_data ?bag) key = Some v"
    using assms(1) omap.lookup_store[OF assms(3), of key v key] by (simp_all add: set_bag_def)
  have fits: "length (state_image (sb_id ?bag) key v) \<le> 131072" using assms(4) by simp
  have change: "replicated \<and> v \<noteq> old \<longleftrightarrow>
      replicated \<and> GetKey key bag \<noteq> Some v \<and> (v \<noteq> [] \<or> GetKey key bag \<noteq> None)"
    by (auto simp: old_def GetKey_def split: option.splits)
  have sk: "SetKeyInternal ot key v replicated a c =
      (if replicated \<and> v \<noteq> old then SendKeyAll ot key a ?c else Some (?c, []))"
    using assms(2) by (simp add: SetKeyInternal_def Let_def old_def)
  have targets: "(if routingTargets ?bag = {} then ot (sbc_targets ?c) else sorted_list_of_set (routingTargets ?bag)) =
      routed ot bag c"
    by (simp add: routed_def set_bag_def)
  have all: "SendKeyAll ot key a ?c = each (\<lambda>t. SendKey t key a) (routed ot bag c) ?c"
    unfolding SendKeyAll_def c(2) option.case targets ..
  obtain b' where "each (\<lambda>t. SendKey t key a) (routed ot bag c) ?c = Some (?c\<lparr>dataBuffer := b'\<rparr>,
      map (\<lambda>t. Send_state t (state_image (sb_id bag) key v)) (routed ot bag c))" "buffer_ok b'"
    using each_SendKey_value[OF c fits, of "routed ot bag c"] by auto
  note sent = this
  show ?thesis
  proof (cases "replicated \<and> v \<noteq> old")
    case True
    then show ?thesis unfolding sk all change[symmetric] using sent by (intro exI[of _ b']) simp
  next
    case False
    have "buffer_ok (dataBuffer ?c)" by (rule c(1))
    then show ?thesis unfolding sk change[symmetric] if_not_P[OF False]
      by (intro exI[of _ "dataBuffer ?c"]) simp
  qed
qed

section \<open>Ownership and registration\<close>

definition registry_ok :: "bag_component \<Rightarrow> bool" where
  "registry_ok c \<longleftrightarrow> buffer_ok (dataBuffer c) \<and>
     (\<forall>a bag. heap c a = Some bag \<longrightarrow>
        stateBags c (sb_id bag) = Some a \<and> sb_id bag \<notin> erasureList c) \<and>
     (\<forall>a. heap c a \<noteq> None \<longleftrightarrow> refs c a > 0 \<or> a \<in> preCreated c) \<and>
     (\<forall>a \<ge> next_addr c. heap c a = None) \<and> (\<forall>i a. stateBags c i = Some a \<longrightarrow> a < next_addr c)"

text \<open>Changes that leave the bags, their names and their owners as they are.\<close>

definition same_bags :: "bag_component \<Rightarrow> bag_component \<Rightarrow> bool" where
  "same_bags c c' \<longleftrightarrow> stateBags c' = stateBags c \<and> erasureList c' = erasureList c \<and> refs c' = refs c \<and>
     preCreated c' = preCreated c \<and> next_addr c' = next_addr c \<and> sbc_role c' = sbc_role c \<and>
     (\<forall>a. map_option sb_id (heap c' a) = map_option sb_id (heap c a)) \<and> buffer_ok (dataBuffer c')"

lemma same_bags_refl: "buffer_ok (dataBuffer c) \<Longrightarrow> same_bags c c"
  by (simp add: same_bags_def)

lemma same_bags_trans: "same_bags c c1 \<Longrightarrow> same_bags c1 c2 \<Longrightarrow> same_bags c c2"
  by (simp add: same_bags_def)

lemma same_bags_live: "same_bags c c' \<Longrightarrow> heap c' a = None \<longleftrightarrow> heap c a = None"
  unfolding same_bags_def by (metis map_option_is_None)

lemma same_bags_name:
  "same_bags c c' \<Longrightarrow> heap c' a = Some bag' \<Longrightarrow> \<exists>bag. heap c a = Some bag \<and> sb_id bag = sb_id bag'"
  unfolding same_bags_def by (metis map_option_eq_Some)

lemma registry_ok_same: "registry_ok c \<Longrightarrow> same_bags c c' \<Longrightarrow> registry_ok c'"
  using same_bags_live[of c c'] same_bags_name[of c c']
  unfolding registry_ok_def by (simp add: same_bags_def) metis

lemma each_total:
  assumes "\<And>x s. x \<in> set xs \<Longrightarrow> I s \<Longrightarrow> \<exists>s' out. f x s = Some (s', out) \<and> I s'" "I s"
  shows "\<exists>s' out. each f xs s = Some (s', out) \<and> I s'"
  using assms
proof (induction xs arbitrary: s)
  case (Cons x xs)
  obtain s1 out1 where s1: "f x s = Some (s1, out1)" "I s1" using Cons.prems(1)[of x s] Cons.prems(2) by auto
  have "\<exists>s2 out2. each f xs s1 = Some (s2, out2) \<and> I s2"
    using Cons.prems(1) s1(2) by (intro Cons.IH) auto
  with s1(1) show ?case by auto
qed simp

lemma SendKey_total:
  assumes "buffer_ok (dataBuffer c)" "heap c a \<noteq> None"
  shows "\<exists>c' out. SendKey t key a c = Some (c', out) \<and> same_bags c c'"
proof -
  obtain bag where bag: "heap c a = Some bag" using assms(2) by blast
  show ?thesis
  proof (cases "map_of (sb_data bag) key")
    case None
    then show ?thesis using bag buffer_ok_rewind[OF assms(1)] by (simp add: SendKey_def same_bags_def)
  next
    case (Some v)
    obtain b' where "write_state (sb_id bag) key v (dataBuffer c) = Some b'" "buffer_ok b'"
      using write_state_total[OF assms(1)] by blast
    then show ?thesis using bag Some by (simp add: SendKey_def same_bags_def)
  qed
qed

lemma same_bags_ok: "same_bags c c' \<Longrightarrow> buffer_ok (dataBuffer c')"
  by (simp add: same_bags_def)

lemma each_same:
  assumes "\<And>x s. buffer_ok (dataBuffer s) \<Longrightarrow> heap s a \<noteq> None \<Longrightarrow> \<exists>s' out. f x s = Some (s', out) \<and> same_bags s s'"
    and "buffer_ok (dataBuffer c)" "heap c a \<noteq> None"
  shows "\<exists>c' out. each f xs c = Some (c', out) \<and> same_bags c c'"
proof (rule each_total[where I = "same_bags c"])
  fix x s assume s: "same_bags c s"
  then obtain s' out where "f x s = Some (s', out)" "same_bags s s'"
    using assms(1)[of s x] assms(3) same_bags_ok[OF s] same_bags_live[OF s] by auto
  then show "\<exists>s' out. f x s = Some (s', out) \<and> same_bags c s'" using same_bags_trans[OF s] by blast
qed (rule same_bags_refl[OF assms(2)])

lemma SendAll_total:
  assumes "buffer_ok (dataBuffer c)" "heap c a \<noteq> None"
  shows "\<exists>c' out. SendAll t a c = Some (c', out) \<and> same_bags c c'"
proof -
  obtain bag where "heap c a = Some bag" using assms(2) by blast
  then show ?thesis using each_same[where f = "\<lambda>key. SendKey t key a", OF SendKey_total assms]
    by (simp add: SendAll_def)
qed

lemma SendKeyAll_total:
  assumes "buffer_ok (dataBuffer c)" "heap c a \<noteq> None"
  shows "\<exists>c' out. SendKeyAll ot key a c = Some (c', out) \<and> same_bags c c'"
proof -
  obtain bag where "heap c a = Some bag" using assms(2) by blast
  then show ?thesis using each_same[where f = "\<lambda>t. SendKey t key a", OF SendKey_total assms]
    by (simp add: SendKeyAll_def)
qed

lemma set_bag_same:
  assumes "buffer_ok (dataBuffer c)" "heap c a = Some bag" "sb_id bag' = sb_id bag"
  shows "same_bags c (set_bag a bag' c)" "heap (set_bag a bag' c) a \<noteq> None"
  using assms by (simp_all add: same_bags_def set_bag_def)

lemma SetKeyInternal_total:
  assumes "buffer_ok (dataBuffer c)" "heap c a \<noteq> None"
  shows "\<exists>c' out. SetKeyInternal ot key v replicated a c = Some (c', out) \<and> same_bags c c'"
proof -
  obtain bag where bag: "heap c a = Some bag" using assms(2) by blast
  let ?c = "set_bag a (bag\<lparr>sb_data := omap_put key v (sb_data bag)\<rparr>) c"
  have same: "same_bags c ?c" "heap ?c a \<noteq> None" using set_bag_same[OF assms(1) bag] by simp_all
  obtain c' out where "SendKeyAll ot key a ?c = Some (c', out)" "same_bags ?c c'"
    using SendKeyAll_total[OF same_bags_ok[OF same(1)] same(2)] by blast
  then show ?thesis using bag same(1) same_bags_trans[OF same(1)]
    by (auto simp: SetKeyInternal_def Let_def)
qed

lemma SetRoutingTargets_total:
  assumes "buffer_ok (dataBuffer c)" "heap c a \<noteq> None"
  shows "\<exists>c' out. SetRoutingTargets peers a c = Some (c', out) \<and> same_bags c c'"
proof -
  obtain bag where bag: "heap c a = Some bag" using assms(2) by blast
  let ?c = "set_bag a (bag\<lparr>routingTargets := peers\<rparr>) c"
  have same: "same_bags c ?c" "heap ?c a \<noteq> None" using set_bag_same[OF assms(1) bag] by simp_all
  obtain c' out where "each (\<lambda>t. SendAll t a) (sorted_list_of_set (peers - routingTargets bag)) ?c = Some (c', out)"
    "same_bags ?c c'"
    using each_same[where f = "\<lambda>t. SendAll t a", OF SendAll_total same_bags_ok[OF same(1)] same(2)] by blast
  then show ?thesis using bag same_bags_trans[OF same(1)] by (auto simp: SetRoutingTargets_def)
qed

lemma AddRoutingTarget_total:
  assumes "buffer_ok (dataBuffer c)" "heap c a \<noteq> None"
  shows "\<exists>c' out. AddRoutingTarget peer a c = Some (c', out) \<and> same_bags c c'"
proof -
  obtain bag where bag: "heap c a = Some bag" using assms(2) by blast
  let ?c = "set_bag a (bag\<lparr>routingTargets := insert peer (routingTargets bag)\<rparr>) c"
  have same: "same_bags c ?c" "heap ?c a \<noteq> None" using set_bag_same[OF assms(1) bag] by simp_all
  obtain c' out where "SendAll peer a ?c = Some (c', out)" "same_bags ?c c'"
    using SendAll_total[OF same_bags_ok[OF same(1)] same(2)] by blast
  then show ?thesis using bag same_bags_trans[OF same(1)] same_bags_refl[OF assms(1)]
    by (auto simp: AddRoutingTarget_def)
qed

subsection \<open>Operations on the registry\<close>

lemma registry_bufferD: "registry_ok c \<Longrightarrow> buffer_ok (dataBuffer c)"
  and registry_liveD: "registry_ok c \<Longrightarrow> heap c a \<noteq> None \<longleftrightarrow> refs c a > 0 \<or> a \<in> preCreated c"
  and registry_nameD: "registry_ok c \<Longrightarrow> heap c a = Some bag \<Longrightarrow>
    stateBags c (sb_id bag) = Some a \<and> sb_id bag \<notin> erasureList c"
  and registry_freshD: "registry_ok c \<Longrightarrow> heap c (next_addr c) = None"
  by (simp_all add: registry_ok_def)

lemma registry_ok_ref:
  assumes "registry_ok c" "heap c a \<noteq> None"
  shows "registry_ok (c\<lparr>refs := (refs c)(a := refs c a + 1)\<rparr>)"
proof -
  have "heap c b \<noteq> None \<longleftrightarrow> ((refs c)(a := refs c a + 1)) b > 0 \<or> b \<in> preCreated c" for b
    using registry_liveD[OF assms(1), of b] assms(2) by auto
  with assms(1) show ?thesis by (simp add: registry_ok_def)
qed

lemma registry_ok_collect:
  assumes "buffer_ok (dataBuffer c)"
    "\<And>b bag. heap c b = Some bag \<Longrightarrow> stateBags c (sb_id bag) = Some b \<and> sb_id bag \<notin> erasureList c"
    "\<And>b. b \<noteq> a \<Longrightarrow> heap c b \<noteq> None \<longleftrightarrow> refs c b > 0 \<or> b \<in> preCreated c"
    "refs c a > 0 \<or> a \<in> preCreated c \<Longrightarrow> heap c a \<noteq> None"
    "\<And>b. next_addr c \<le> b \<Longrightarrow> heap c b = None" "\<And>i b. stateBags c i = Some b \<Longrightarrow> b < next_addr c"
  shows "registry_ok (collect a c)"
proof (cases "heap c a")
  case None
  then have "\<not> (refs c a > 0 \<or> a \<in> preCreated c)" using assms(4) by blast
  then have "heap c b \<noteq> None \<longleftrightarrow> refs c b > 0 \<or> b \<in> preCreated c" for b
    using assms(3)[of b] None by (cases "b = a") auto
  then show ?thesis using None assms by (simp add: collect_def registry_ok_def)
next
  case (Some bag)
  show ?thesis
  proof (cases "refs c a = 0 \<and> a \<notin> preCreated c")
    case True
    let ?c = "c\<lparr>heap := (heap c)(a := None), erasureList := insert (sb_id bag) (erasureList c)\<rparr>"
    have "stateBags ?c (sb_id x) = Some b \<and> sb_id x \<notin> erasureList ?c" if x: "heap ?c b = Some x" for b x
    proof -
      have b: "b \<noteq> a" "heap c b = Some x" using x by (auto split: if_splits)
      then have "stateBags c (sb_id x) = Some b" "sb_id x \<notin> erasureList c" using assms(2) by auto
      moreover have "sb_id x \<noteq> sb_id bag" using assms(2)[OF Some] assms(2)[OF b(2)] b(1) by auto
      ultimately show ?thesis by simp
    qed
    moreover have "heap ?c b \<noteq> None \<longleftrightarrow> refs ?c b > 0 \<or> b \<in> preCreated ?c" for b
      using assms(3)[of b] True by (cases "b = a") auto
    ultimately show ?thesis using True Some assms(1,5,6) by (simp add: collect_def registry_ok_def)
  next
    case False
    then have "heap c b \<noteq> None \<longleftrightarrow> refs c b > 0 \<or> b \<in> preCreated c" for b
      using assms(3)[of b] Some by (cases "b = a") auto
    moreover have "collect a c = c" using False Some by (auto simp: collect_def)
    ultimately show ?thesis using assms by (simp add: registry_ok_def)
  qed
qed

lemma registry_ok_drop:
  assumes "registry_ok c" "refs c a > 0"
  shows "registry_ok (drop_ref a c)"
  unfolding drop_ref_def
proof (rule registry_ok_collect)
  show "refs (c\<lparr>refs := (refs c)(a := refs c a - 1)\<rparr>) a > 0 \<or>
      a \<in> preCreated (c\<lparr>refs := (refs c)(a := refs c a - 1)\<rparr>) \<Longrightarrow>
    heap (c\<lparr>refs := (refs c)(a := refs c a - 1)\<rparr>) a \<noteq> None"
    using registry_liveD[OF assms(1), of a] assms(2) by simp
qed (use assms in \<open>simp_all add: registry_ok_def\<close>)

lemma registry_ok_register:
  assumes "registry_ok c"
  shows "registry_ok (snd (RegisterStateBag i c)) \<and> refs (snd (RegisterStateBag i c)) (fst (RegisterStateBag i c)) > 0 \<and>
    heap (snd (RegisterStateBag i c)) (fst (RegisterStateBag i c)) \<noteq> None"
proof (cases "GetStateBag i c")
  case (Some a)
  then have a: "heap c a \<noteq> None" by (auto simp: GetStateBag_def split: option.splits if_splits)
  have "heap c b \<noteq> None \<longleftrightarrow> ((refs c)(a := refs c a + 1)) b > 0 \<or> b \<in> preCreated c - {a}" for b
    using registry_liveD[OF assms, of b] a by auto
  moreover have "RegisterStateBag i c = (a, c\<lparr>preCreated := preCreated c - {a}, refs := (refs c)(a := refs c a + 1)\<rparr>)"
    using Some by (simp add: RegisterStateBag_def)
  moreover have "refs c a > 0 \<or> a \<in> preCreated c" using registry_liveD[OF assms, of a] a by blast
  ultimately show ?thesis using a assms unfolding registry_ok_def by simp
next
  case None
  let ?a = "next_addr c"
  let ?bag = "\<lparr>sb_id = i, routingTargets = {}, owningPeer = None, sb_data = []\<rparr>"
  define c' where "c' = c\<lparr>heap := (heap c)(?a \<mapsto> ?bag), next_addr := ?a + 1, refs := (refs c)(?a := 1),
    stateBags := (stateBags c)(i \<mapsto> ?a), erasureList := erasureList c - {i}\<rparr>"
  have other: "sb_id x \<noteq> i" if "heap c b = Some x" for b x
    using None registry_nameD[OF assms that] that by (auto simp: GetStateBag_def split: if_splits)
  have "stateBags c' (sb_id x) = Some b \<and> sb_id x \<notin> erasureList c'" if "heap c' b = Some x" for b x
    using that registry_nameD[OF assms, of b x] other[of b x] by (auto simp: c'_def split: if_splits)
  moreover have "heap c' b \<noteq> None \<longleftrightarrow> refs c' b > 0 \<or> b \<in> preCreated c'" for b
    using registry_liveD[OF assms, of b] by (simp add: c'_def)
  moreover have "b < next_addr c'" if "stateBags c' j = Some b" for j b
    using that assms by (auto simp: c'_def registry_ok_def less_Suc_eq split: if_splits)
  moreover have "heap c' b = None" if "next_addr c' \<le> b" for b
    using that assms by (auto simp: c'_def registry_ok_def)
  ultimately have "registry_ok c'" using registry_bufferD[OF assms] by (simp add: registry_ok_def c'_def)
  moreover have "RegisterStateBag i c = (?a, c')" using None by (simp add: RegisterStateBag_def c'_def Let_def)
  ultimately show ?thesis by (simp add: c'_def)
qed

lemma registry_ok_precreate:
  assumes "registry_ok c" "PreCreateStateBag i c = (a, c')"
  shows "registry_ok c' \<and> refs c' a > 0 \<and> heap c' a \<noteq> None"
proof -
  obtain c1 where c1: "RegisterStateBag i c = (a, c1)" "c' = c1\<lparr>preCreated := insert a (preCreated c1)\<rparr>"
    using assms(2) by (auto simp: PreCreateStateBag_def split: prod.splits)
  have r: "registry_ok c1" "refs c1 a > 0" "heap c1 a \<noteq> None"
    using registry_ok_register[OF assms(1), of i] c1(1) by simp_all
  have "heap c1 b \<noteq> None \<longleftrightarrow> refs c1 b > 0 \<or> b \<in> insert a (preCreated c1)" for b
    using registry_liveD[OF r(1), of b] r(3) by auto
  then show ?thesis using r c1(2) by (simp add: registry_ok_def)
qed

lemma registry_ok_tick: "registry_ok c \<Longrightarrow> registry_ok (bag_tick c)"
  unfolding registry_ok_def bag_tick_def by simp

lemma RegisterTarget_total:
  assumes "buffer_ok (dataBuffer c)"
  shows "\<exists>c' out. RegisterTarget_sb ob i c = Some (c', out) \<and> same_bags c c'"
proof (cases "i \<in> sbc_targets c")
  case True
  then show ?thesis using same_bags_refl[OF assms] by (simp add: RegisterTarget_sb_def)
next
  case False
  let ?c = "c\<lparr>sbc_targets := insert i (sbc_targets c)\<rparr>"
  have same: "same_bags c ?c" using assms by (simp add: same_bags_def)
  have "\<exists>c' out. each (\<lambda>a c. if heap c a = None then Some (c, []) else SendAllInitial i a c) (ob (stateBags c)) ?c =
      Some (c', out) \<and> same_bags c c'"
  proof (rule each_total[where I = "same_bags c"])
    fix a s assume s: "same_bags c s"
    show "\<exists>s' out. (if heap s a = None then Some (s, []) else SendAllInitial i a s) = Some (s', out) \<and> same_bags c s'"
    proof (cases "heap s a")
      case None
      with s show ?thesis by simp
    next
      case (Some bag)
      obtain s' out where "SendAll i a s = Some (s', out)" "same_bags s s'"
        using SendAll_total[OF same_bags_ok[OF s], of a i] Some by auto
      then show ?thesis using Some s same_bags_trans[OF s] by (simp add: SendAllInitial_def)
    qed
  qed (rule same)
  then show ?thesis using False by (simp add: RegisterTarget_sb_def Let_def)
qed

lemma UnregisterTarget_same: "buffer_ok (dataBuffer c) \<Longrightarrow> same_bags c (UnregisterTarget_sb i c)"
  by (simp add: same_bags_def UnregisterTarget_sb_def option.map_comp RemoveRoutingTarget_def comp_def)

lemma SetKey_registry:
  assumes "registry_ok c" "heap c a \<noteq> None"
  shows "\<exists>c' out. SetKey env ot source key v replicated a c = Some (c', out) \<and> registry_ok c' \<and>
    refs c' a \<ge> refs c a"
proof -
  obtain bag where bag: "heap c a = Some bag" using assms(2) by blast
  note ok = registry_bufferD[OF assms(1)]
  obtain c1 out1 where k: "SetKeyInternal ot key v replicated a c = Some (c1, out1)" "same_bags c c1"
    using SetKeyInternal_total[OF ok assms(2)] by blast
  have r1: "registry_ok c1" "refs c1 = refs c" using registry_ok_same[OF assms(1) k(2)] k(2)
    by (simp_all add: same_bags_def)
  have "registry_ok (c\<lparr>refs := (refs c)(a := refs c a + 1)\<rparr>)" by (rule registry_ok_ref[OF assms])
  with bag k(1) r1 assms(1) show ?thesis by (auto simp: SetKey_def split: option.splits)
qed

subsection \<open>Reading any packet\<close>

lemma ReadBitsSingle_total:
  assumes "mb_wf b" "0 < n" "n \<le> 32"
  shows "\<exists>r b'. ReadBitsSingle False n b = Some (r, b') \<and> mb_wf b' \<and>
    (pending b' = [] \<or> pending b' = drop n (pending b))"
  using mb_in.rd_value[OF assms] mb_in.rd_short[OF assms(1,2)] by (cases "n \<le> length (pending b)") auto

lemma readStr_total:
  assumes "mb_wf b" "8 dvd length (pending b)"
  shows "\<exists>s b'. readStr b = Some (s, b') \<and> mb_wf b' \<and> 8 dvd length (pending b')"
proof -
  have dvd: "8 dvd length (drop n xs)" if "8 dvd n" "8 dvd length xs" for n and xs :: "bool list"
    using that by (cases "n \<le> length xs") (auto simp: dvd_diff_nat)
  obtain r b1 where b1: "ReadBitsSingle False 16 b = Some (r, b1)" "mb_wf b1" "8 dvd length (pending b1)"
    using ReadBitsSingle_total[OF assms(1), of 16] dvd[of 16 "pending b"] assms(2)
    by (auto simp del: length_pending)
  let ?n = "(case r of None \<Rightarrow> 0 | Some v \<Rightarrow> unat v)"
  obtain r2 d b2 where b2: "ReadBits False (replicate (?n - 1) 0) ((?n - 1) * 8) b1 = Some (r2, d, b2)" "mb_wf b2"
    "pending b2 = pending b1 \<or> pending b2 = drop (8 * (?n - 1)) (pending b1)"
    using mb_in.rd_bytes_total[OF b1(2), of "?n - 1" "replicate (?n - 1) 0"] by (auto simp: mult.commute)
  have p2: "8 dvd length (pending b2)" using b2(3) b1(3) dvd[of "8 * (?n - 1)" "pending b1"]
    by (elim disjE) (simp_all only: dvd_triv_left simp_thms)
  obtain r3 b3 where b3: "ReadBitsSingle False 8 b2 = Some (r3, b3)" "mb_wf b3" "8 dvd length (pending b3)"
    using ReadBitsSingle_total[OF b2(2), of 8] dvd[of 8 "pending b2"] p2
    by (auto simp del: length_pending)
  show ?thesis
  proof (cases "?n = 0")
    case True
    then show ?thesis using b1 by (simp add: readStr_def Let_def)
  next
    case False
    then show ?thesis using b1 b2 b3 by (simp add: readStr_def Let_def)
  qed
qed

lemma read_state_total:
  assumes "8 * length d < 2 ^ 31"
  shows "\<exists>r. read_state d = Some r"
proof -
  have "8 dvd length (pending (mb_of_data d))" by (simp add: pending_of_data)
  then obtain i b1 where b1: "readStr (mb_of_data d) = Some (i, b1)" "mb_wf b1" "8 dvd length (pending b1)"
    using readStr_total[OF mb_wf_of_data[OF assms]] by blast
  obtain k b2 where b2: "readStr b1 = Some (k, b2)" "mb_wf b2" "8 dvd length (pending b2)"
    using readStr_total[OF b1(2,3)] by blast
  let ?n = "GetLength b2 * 8 - GetCurrentBit b2"
  have "8 * (?n div 8) = ?n" using b2(3) rest_bits[OF b2(2)] by simp
  then obtain r v b3 where "ReadBits False (replicate (?n div 8) 0) ?n b2 = Some (r, v, b3)"
    using mb_in.rd_bytes_total[OF b2(2), of "?n div 8" "replicate (?n div 8) 0"] by auto
  then show ?thesis using b1(1) b2(1) by (cases "i = []"; cases "k = []"; cases "?n = 0") (auto simp: read_state_def Let_def)
qed

lemma apply_state_registry:
  assumes "registry_ok c"
  shows "\<exists>c' out. apply_state env ot source i key v c = Some (c', out) \<and> registry_ok c'"
proof -
  define p where "p = (case GetStateBag i c of
      Some a \<Rightarrow> (Some a, c\<lparr>refs := (refs c)(a := refs c a + 1)\<rparr>)
    | None \<Rightarrow> if IsSafePreCreateName i c then let (a, c) = PreCreateStateBag i c in (Some a, c) else (None, c))"
  obtain bag c1 where p1: "p = (bag, c1)" by (cases p)
  have c1: "registry_ok c1 \<and> (\<forall>a. bag = Some a \<longrightarrow> refs c1 a > 0 \<and> heap c1 a \<noteq> None)"
  proof (cases "GetStateBag i c")
    case None
    then show ?thesis using p1 assms registry_ok_precreate[OF assms, of i]
      by (auto simp: p_def split: if_splits prod.splits)
  next
    case (Some a)
    then have "heap c a \<noteq> None" by (auto simp: GetStateBag_def split: option.splits if_splits)
    then show ?thesis using Some p1 registry_ok_ref[OF assms, of a] by (auto simp: p_def)
  qed
  have eq: "apply_state env ot source i key v c = (case bag of None \<Rightarrow> Some (c1, [])
      | Some a \<Rightarrow> (case heap c1 a of None \<Rightarrow> None
         | Some b \<Rightarrow> if (case owningPeer b of None \<Rightarrow> False | Some peer \<Rightarrow> peer \<noteq> source) then Some (drop_ref a c1, [])
             else do { (c, out) \<leftarrow> SetKey env ot source key v (sbc_role c1 = Server_role) a c1; Some (drop_ref a c, out) }))"
    unfolding apply_state_def p_def[symmetric] p1 by simp
  show ?thesis
  proof (cases bag)
    case None
    then show ?thesis using eq c1 by simp
  next
    case (Some a)
    then have a: "refs c1 a > 0" "heap c1 a \<noteq> None" using c1 by auto
    then obtain b where b: "heap c1 a = Some b" by blast
    obtain c2 out where k: "SetKey env ot source key v (sbc_role c1 = Server_role) a c1 = Some (c2, out)"
      "registry_ok c2" "refs c2 a \<ge> refs c1 a"
      using SetKey_registry[of c1 a env ot source key v] c1 a(2) by blast
    have "registry_ok (drop_ref a c2)" "registry_ok (drop_ref a c1)"
      using registry_ok_drop[OF k(2)] registry_ok_drop[of c1 a] k(3) a(1) c1 by auto
    then show ?thesis unfolding eq using Some b k(1) by simp
  qed
qed

lemma HandlePacket_registry:
  assumes "registry_ok c" "8 * length d < 2 ^ 31"
  shows "\<exists>c' out. HandlePacket_sb env ot source d c = Some (c', out) \<and> registry_ok c'"
  using read_state_total[OF assms(2)] apply_state_registry[OF assms(1)] assms(1)
  by (auto simp: HandlePacket_sb_def split: option.split)

text \<open>
  The calls the component receives. A caller that works on a bag owns it; every call but \<open>Reset\<close>
  is a step.
\<close>

inductive bag_step :: "'o change_env set \<Rightarrow> bag_component \<Rightarrow> bag_component \<Rightarrow> bool" for E where
  register: "RegisterStateBag i c = (a, c') \<Longrightarrow> bag_step E c c'"
| own: "GetStateBag i c = Some a \<Longrightarrow> bag_step E c (c\<lparr>refs := (refs c)(a := refs c a + 1)\<rparr>)"
| disown: "refs c a > 0 \<Longrightarrow> bag_step E c (drop_ref a c)"
| set_key: "env \<in> E \<Longrightarrow> refs c a > 0 \<Longrightarrow> SetKey env ot source key v replicated a c = Some (c', out) \<Longrightarrow>
    bag_step E c c'"
| change: "env \<in> E \<Longrightarrow> refs c a > 0 \<Longrightarrow>
    run_change env ot (Queue_change a source key v replicated) c = Some (c', out) \<Longrightarrow> bag_step E c c'"
| route: "refs c a > 0 \<Longrightarrow> SetRoutingTargets peers a c = Some (c', out) \<Longrightarrow> bag_step E c c'"
| add_route: "refs c a > 0 \<Longrightarrow> AddRoutingTarget peer a c = Some (c', out) \<Longrightarrow> bag_step E c c'"
| own_peer: "heap c a = Some bag \<Longrightarrow> bag_step E c (set_bag a (SetOwningPeer peer bag) c)"
| target: "RegisterTarget_sb ob t c = Some (c', out) \<Longrightarrow> bag_step E c c'"
| untarget: "bag_step E c (UnregisterTarget_sb t c)"
| prefix: "bag_step E c (AddSafePreCreatePrefix p c)"
| tick: "bag_step E c (bag_tick c)"
| packet: "env \<in> E \<Longrightarrow> 8 * length d < 2 ^ 31 \<Longrightarrow> HandlePacket_sb env ot source d c = Some (c', out) \<Longrightarrow>
    bag_step E c c'"

inductive bag_reachable :: "'o change_env set \<Rightarrow> bag_component \<Rightarrow> bool" for E where
  start: "bag_reachable E (make_bag_component r)"
| step: "bag_reachable E c \<Longrightarrow> bag_step E c c' \<Longrightarrow> bag_reachable E c'"

lemma run_change_registry:
  assumes "registry_ok c" "refs c a > 0" "run_change env ot (Queue_change a source key v replicated) c = Some (c', out)"
  shows "registry_ok c'"
proof -
  have live: "heap c a \<noteq> None" using registry_liveD[OF assms(1), of a] assms(2) by blast
  obtain c1 out1 where k: "SetKeyInternal ot key v replicated a c = Some (c1, out1)" "same_bags c c1"
    using SetKeyInternal_total[OF registry_bufferD[OF assms(1)] live] by blast
  have "registry_ok (drop_ref a c1)" "registry_ok (drop_ref a c)"
    using registry_ok_drop[OF registry_ok_same[OF assms(1) k(2)], of a] registry_ok_drop[OF assms(1,2)] k(2) assms(2)
    by (simp_all add: same_bags_def)
  then show ?thesis using assms(3) k(1) by (auto simp: run_change_def split: option.splits if_splits)
qed

lemma registry_live: "registry_ok c \<Longrightarrow> refs c a > 0 \<Longrightarrow> heap c a \<noteq> None"
  using registry_liveD by blast

lemma bag_step_registry: "bag_step E c c' \<Longrightarrow> registry_ok c \<Longrightarrow> registry_ok c'"
proof (induction rule: bag_step.induct)
  case (register i c a c')
  then show ?case using registry_ok_register[OF register.prems, of i] by simp
next
  case (own i c a)
  then have "heap c a \<noteq> None" by (auto simp: GetStateBag_def split: option.splits if_splits)
  then show ?case using registry_ok_ref[OF own.prems] by simp
next
  case (disown c a)
  then show ?case by (intro registry_ok_drop)
next
  case (set_key env c a ot source key v replicated c' out)
  then show ?case using SetKey_registry[OF set_key.prems registry_live[OF set_key.prems set_key.hyps(2)],
    of env ot source key v replicated] by auto
next
  case (change env c a ot source key v replicated c' out)
  then show ?case using run_change_registry by blast
next
  case (route c a peers c' out)
  then show ?case using SetRoutingTargets_total[OF registry_bufferD registry_live, of c a peers] registry_ok_same by force
next
  case (add_route c a peer c' out)
  then show ?case using AddRoutingTarget_total[OF registry_bufferD registry_live, of c a peer] registry_ok_same by force
next
  case (own_peer c a bag peer)
  then show ?case using set_bag_same(1)[OF registry_bufferD, of c a bag] registry_ok_same
    by (auto simp: SetOwningPeer_def)
next
  case (target ob t c c' out)
  then show ?case using RegisterTarget_total[OF registry_bufferD, of c ob t] registry_ok_same by force
next
  case (untarget c t)
  then show ?case using UnregisterTarget_same registry_bufferD registry_ok_same by blast
next
  case (prefix c p)
  then show ?case by (simp add: registry_ok_def AddSafePreCreatePrefix_def)
next
  case (tick c)
  then show ?case by (rule registry_ok_tick)
next
  case (packet env d ot source c c' out)
  then show ?case using HandlePacket_registry[OF packet.prems packet.hyps(2), of env ot source] by auto
qed

lemma bag_reachable_ok: "bag_reachable E c \<Longrightarrow> registry_ok c"
proof (induction rule: bag_reachable.induct)
  case (start r)
  then show ?case
    by (simp add: registry_ok_def make_bag_component_def buffer_ok_def mb_wok_def mb_wf_of_size)
      (simp add: mb_of_size_def)
qed (rule bag_step_registry)

section \<open>Properties\<close>

text \<open>A key that is set on a bag of the sender, with a value the message buffer can hold, is
  sent to exactly the routing targets of the bag, or to every registered target when it has none,
  once each, and only if it is replicated and its value changes; the message is the name,
  key and value image.\<close>

theorem set_key_routes:
  assumes "bag_reachable E c" "heap c a = Some bag" "omap_ok (sb_data bag)"
    and "length (state_image (sb_id bag) key v) \<le> 131072"
  shows "\<exists>c' out. SetKeyInternal ot key v replicated a c = Some (c', out) \<and>
    heap c' = (heap c)(a \<mapsto> bag\<lparr>sb_data := omap_put key v (sb_data bag)\<rparr>) \<and>
    out = (if replicated \<and> GetKey key bag \<noteq> Some v \<and> (v \<noteq> [] \<or> GetKey key bag \<noteq> None)
      then map (\<lambda>t. Send_state t (state_image (sb_id bag) key v))
        (if routingTargets bag = {} then ot (sbc_targets c) else sorted_list_of_set (routingTargets bag))
      else [])"
proof -
  have "buffer_ok (dataBuffer c)" by (rule registry_bufferD[OF bag_reachable_ok[OF assms(1)]])
  from SetKeyInternal_value[OF this assms(2-4), of ot replicated] obtain b' where
    b': "SetKeyInternal ot key v replicated a c =
      Some (set_bag a (bag\<lparr>sb_data := omap_put key v (sb_data bag)\<rparr>) c\<lparr>dataBuffer := b'\<rparr>,
        if replicated \<and> GetKey key bag \<noteq> Some v \<and> (v \<noteq> [] \<or> GetKey key bag \<noteq> None)
        then map (\<lambda>t. Send_state t (state_image (sb_id bag) key v)) (routed ot bag c) else [])"
    by blast
  show ?thesis
    by (intro exI conjI, rule b', simp add: set_bag_def, simp only: routed_def)
qed

text \<open>A component with one owned bag, for the witnesses.\<close>

definition one_bag :: "byte list \<Rightarrow> bag_role \<Rightarrow> bag_component" where
  "one_bag i r = snd (RegisterStateBag i (make_bag_component r))"

lemma one_bag_reachable: "bag_reachable E (one_bag i r)"
  unfolding one_bag_def
  by (rule bag_reachable.step[OF bag_reachable.start bag_step.register]) (rule surjective_pairing)

lemma one_bag_simps:
  "heap (one_bag i r) 0 = Some \<lparr>sb_id = i, routingTargets = {}, owningPeer = None, sb_data = []\<rparr>"
  "GetStateBag i (one_bag i r) = Some 0" "refs (one_bag i r) 0 = 1" "sbc_targets (one_bag i r) = {}"
  "sbc_role (one_bag i r) = r"
  by (simp_all add: one_bag_def RegisterStateBag_def GetStateBag_def make_bag_component_def Let_def)

theorem set_key_routes_witness:
  "\<exists>c' out. SetKeyInternal (\<lambda>_. [4, 9]) [104, 112] [7] True 0 (one_bag [112] Server_role) = Some (c', out) \<and>
    out = [Send_state 4 (state_image [112] [104, 112] [7]), Send_state 9 (state_image [112] [104, 112] [7])]"
proof -
  let ?bag = "\<lparr>sb_id = [112], routingTargets = {}, owningPeer = None, sb_data = []\<rparr>"
  have "\<exists>c' out. SetKeyInternal (\<lambda>_. [4, 9]) [104, 112] [7] True 0 (one_bag [112] Server_role) = Some (c', out) \<and>
    heap c' = (heap (one_bag [112] Server_role))(0 \<mapsto> ?bag\<lparr>sb_data := omap_put [104, 112] [7] (sb_data ?bag)\<rparr>) \<and>
    out = (if True \<and> GetKey [104, 112] ?bag \<noteq> Some [7] \<and> ([7 :: byte] \<noteq> [] \<or> GetKey [104, 112] ?bag \<noteq> None)
      then map (\<lambda>t. Send_state t (state_image (sb_id ?bag) [104, 112] [7]))
        (if routingTargets ?bag = {} then (\<lambda>_. [4, 9]) (sbc_targets (one_bag [112] Server_role))
         else sorted_list_of_set (routingTargets ?bag)) else [])"
    by (rule set_key_routes[OF one_bag_reachable[of UNIV]])
      (simp_all add: one_bag_simps omap.blank length_state_image)
  then show ?thesis by (auto simp: GetKey_def)
qed

text \<open>The image of a name, key and value, none of them empty and the first two shorter
  than 65535 bytes, is parsed back into exactly this name, key and value.\<close>

theorem state_image_parses:
  assumes "i \<noteq> []" "key \<noteq> []" "v \<noteq> []" "length i < 65535" "length key < 65535"
    and "length (state_image i key v) < 2 ^ 28"
  shows "read_state (state_image i key v) = Some (Some (i, key, v))"
  by (rule read_state_value) (use assms in simp_all)

theorem state_image_parses_witness:
  "read_state (state_image [112, 58, 49] [104, 112] [0xCD, 1, 44]) = Some (Some ([112, 58, 49], [104, 112], [0xCD, 1, 44]))"
  by (rule state_image_parses) (simp_all add: length_state_image)

text \<open>A packet that names a bag owned by another peer changes nothing but the
  component's transient ownership count, runs no change handler and sends nothing.\<close>

theorem foreign_packet_ignored:
  assumes "bag_reachable E c" "8 * length d < 2 ^ 31" "read_state d = Some (Some (i, key, v))"
    and "GetStateBag i c = Some a" "heap c a = Some bag" "owningPeer bag = Some peer" "peer \<noteq> source"
  shows "HandlePacket_sb env ot source d c = Some (c, [])"
proof -
  have "refs c a > 0 \<or> a \<in> preCreated c"
    using registry_liveD[OF bag_reachable_ok[OF assms(1)], of a] assms(5) by auto
  then have "drop_ref a (c\<lparr>refs := (refs c)(a := refs c a + 1)\<rparr>) = c"
    using assms(5) by (auto simp: drop_ref_def collect_def)
  then show ?thesis using assms(3-7) by (simp add: HandlePacket_sb_def apply_state_def)
qed

theorem foreign_packet_ignored_witness:
  "HandlePacket_sb \<lparr>has_handlers = False, unpack = (\<lambda>_. Some ()), asynchronous = False, on_change = (\<lambda>_ _ _ _ _. True)\<rparr>
      sorted_list_of_set 3 (state_image [112] [104] [1])
      (set_bag 0 (SetOwningPeer (Some 5) (the (heap (one_bag [112] Server_role) 0))) (one_bag [112] Server_role)) =
    Some (set_bag 0 (SetOwningPeer (Some 5) (the (heap (one_bag [112] Server_role) 0))) (one_bag [112] Server_role), [])"
proof (rule foreign_packet_ignored[where i = "[112]" and key = "[104]" and v = "[1]" and peer = 5
      and bag = "\<lparr>sb_id = [112], routingTargets = {}, owningPeer = Some 5, sb_data = []\<rparr>"])
  show "bag_reachable UNIV
      (set_bag 0 (SetOwningPeer (Some 5) (the (heap (one_bag [112] Server_role) 0))) (one_bag [112] Server_role))"
    by (rule bag_reachable.step[OF one_bag_reachable bag_step.own_peer]) (simp add: one_bag_simps)
  show "read_state (state_image [112] [104] [1]) = Some (Some ([112], [104], [1]))"
    by (rule read_state_value) (simp_all add: length_state_image)
  show "GetStateBag [112] (set_bag 0 (SetOwningPeer (Some 5) (the (heap (one_bag [112] Server_role) 0)))
      (one_bag [112] Server_role)) = Some 0"
    by (simp add: set_bag_def GetStateBag_def one_bag_def RegisterStateBag_def make_bag_component_def Let_def)
qed (simp_all add: length_state_image set_bag_def one_bag_simps SetOwningPeer_def)

text \<open>A packet for a name that no live bag has and that no safe prefix covers creates
  nothing and has no effect.\<close>

theorem unknown_name_ignored:
  assumes "read_state d = Some (Some (i, key, v))" "GetStateBag i c = None" "\<not> IsSafePreCreateName i c"
  shows "HandlePacket_sb env ot source d c = Some (c, [])"
  using assms by (simp add: HandlePacket_sb_def apply_state_def)

theorem unknown_name_ignored_witness:
  "HandlePacket_sb \<lparr>has_handlers = False, unpack = (\<lambda>_. Some ()), asynchronous = False, on_change = (\<lambda>_ _ _ _ _. True)\<rparr>
    sorted_list_of_set 3 (state_image [112] [104] [1]) (make_bag_component Server_role) = Some (make_bag_component Server_role, [])"
  by (rule unknown_name_ignored[where i = "[112]" and key = "[104]" and v = "[1]"])
    (rule read_state_value, simp_all add: length_state_image make_bag_component_def GetStateBag_def IsSafePreCreateName_def)

text \<open>C28: As long as \<open>Reset\<close> is not called, whatever sequence of registrations, releases, key
  changes, routing changes, packets and ticks happens, a bag that is still owned by somebody is found under
  its name, also after the next tick has worked off the erasure list, and no packet makes
  the component leave its buffers.\<close>

theorem owned_bag_stays_registered:
  assumes "bag_reachable E c" "refs c a > 0 \<or> a \<in> preCreated c" "8 * length d < 2 ^ 31"
  shows "(\<exists>bag. heap c a = Some bag \<and> GetStateBag (sb_id bag) c = Some a \<and>
      GetStateBag (sb_id bag) (bag_tick c) = Some a) \<and>
    HandlePacket_sb env ot source d c \<noteq> None"
proof
  have ok: "registry_ok c" by (rule bag_reachable_ok[OF assms(1)])
  obtain bag where bag: "heap c a = Some bag" using registry_liveD[OF ok, of a] assms(2) by blast
  then show "\<exists>bag. heap c a = Some bag \<and> GetStateBag (sb_id bag) c = Some a \<and>
      GetStateBag (sb_id bag) (bag_tick c) = Some a"
    using registry_nameD[OF ok bag] by (simp add: GetStateBag_def bag_tick_def)
  show "HandlePacket_sb env ot source d c \<noteq> None"
    using HandlePacket_registry[OF ok assms(3), of env ot source] by auto
qed

theorem owned_bag_stays_registered_witness:
  "(\<exists>bag. heap (one_bag [112] Server_role) 0 = Some bag \<and> GetStateBag (sb_id bag) (one_bag [112] Server_role) = Some 0 \<and>
      GetStateBag (sb_id bag) (bag_tick (one_bag [112] Server_role)) = Some 0) \<and>
    HandlePacket_sb \<lparr>has_handlers = False, unpack = (\<lambda>_. Some ()), asynchronous = False, on_change = (\<lambda>_ _ _ _ _. True)\<rparr>
      sorted_list_of_set 3 [0, 9, 1] (one_bag [112] Server_role) \<noteq> None"
  by (rule owned_bag_stays_registered[OF one_bag_reachable[of UNIV]]) (simp_all add: one_bag_simps)

text \<open>\<open>Reset\<close> breaks this: a bag that was alive across the reset and dies after its name was
  registered again puts the name on the erasure list, and the next tick removes the new, owned bag
  from the component.\<close>

theorem reset_loses_live_bag:
  "let (a, c1) = RegisterStateBag i (make_bag_component r);
       (b, c2) = RegisterStateBag i (Reset c1);
       c3 = bag_tick (drop_ref a c2)
   in refs c3 b = 1 \<and> heap c3 b \<noteq> None \<and> GetStateBag i c3 = None"
  by (simp add: RegisterStateBag_def Reset_def GetStateBag_def make_bag_component_def Let_def drop_ref_def
      collect_def bag_tick_def)

text \<open>A value that does not fit the send buffer.\<close>

lemma write_state_oversized:
  assumes "buffer_ok b" "length i + length key + 6 \<le> 131072" "131072 < length (state_image i key v)"
  shows "\<exists>b'. write_state i key v b = Some b' \<and>
    take (GetCurrentBit b' div 8) (m_data b') = str_image i @ str_image key"
proof -
  let ?b = "SetCurrentBit 0 b"
  have b: "mb_wok ?b" "written ?b = []" "mb_room ?b = 1048576"
    using buffer_ok_rewind[OF assms(1)] assms(1)
    by (simp_all add: buffer_ok_def mb_room_def written_def SetCurrentBit_def wok_maxBit)
  obtain b1 where b1: "writeStr i ?b = Some b1" "mb_wok b1" "written b1 = bytes_bits (str_image i)"
    "mb_room b1 = 1048576 - 8 * (length i + 3)"
    using writeStr_bits[OF b(1), of i] b(2,3) assms(2) by auto
  have "8 * length (str_image key) \<le> mb_room b1" using b1(4) assms(2) by simp
  then obtain b2 where b2: "writeStr key b1 = Some b2" "mb_wok b2"
    "written b2 = bytes_bits (str_image i @ str_image key)" "mb_room b2 = mb_room b1 - 8 * (length key + 3)"
    using writeStr_bits[OF b1(2), of key] b1(3) by (auto simp: bytes_bits_append)
  have "mb_room b2 < length v * 8" using b1(4) b2(4) assms(2,3) by (simp add: length_state_image)
  then have "WriteBits v (length v * 8) b2 = Some (False, b2)" by (rule mb_out.wr_bytes_full[OF b2(2)])
  then show ?thesis using b1(1) b2(1) written_bytes[OF b2(2,3)] by (simp add: write_state_def)
qed

lemma read_state_header:
  assumes "i \<noteq> []" "key \<noteq> []" "Suc (length i) < 65536" "Suc (length key) < 65536"
  shows "read_state (str_image i @ str_image key) = Some None"
proof -
  let ?b = "mb_of_data (str_image i @ str_image key)"
  have wf: "mb_wf ?b" using assms(3,4) by (intro mb_wf_of_data) simp
  have p: "pending ?b = bytes_bits (str_image i) @ bytes_bits (str_image key) @ []"
    unfolding pending_of_data bytes_bits_append by simp
  obtain b1 where b1: "readStr ?b = Some (i, b1)" "mb_wf b1" "pending b1 = bytes_bits (str_image key) @ []"
    using readStr_value[OF wf p assms(3)] by blast
  obtain b2 where b2: "readStr b1 = Some (key, b2)" "mb_wf b2" "pending b2 = []"
    using readStr_value[OF b1(2,3) assms(4)] by blast
  have "GetLength b2 * 8 - GetCurrentBit b2 = 0" unfolding rest_bits[OF b2(2)] b2(3) by simp
  then show ?thesis using b1(1) b2(1) assms(1,2) by (simp add: read_state_def Let_def)
qed

text \<open>A value that makes the message longer than the 131072 byte send buffer is lost
  silently: the packet that goes out ends after the key, and every receiver drops it.\<close>

theorem oversized_value_lost:
  assumes "buffer_ok (dataBuffer c)" "heap c a = Some bag" "map_of (sb_data bag) key = Some v"
    and "sb_id bag \<noteq> []" "key \<noteq> []" "length (sb_id bag) < 65535" "length key < 65535"
    and "length (sb_id bag) + length key + 6 \<le> 131072" "131072 < length (state_image (sb_id bag) key v)"
  shows "\<exists>c' d. SendKey t key a c = Some (c', [Send_state t d]) \<and> read_state d = Some None"
proof -
  obtain b' where "write_state (sb_id bag) key v (dataBuffer c) = Some b'"
    "take (GetCurrentBit b' div 8) (m_data b') = str_image (sb_id bag) @ str_image key"
    using write_state_oversized[OF assms(1,8,9)] by blast
  moreover have "read_state (str_image (sb_id bag) @ str_image key) = Some None"
    by (rule read_state_header) (use assms in simp_all)
  ultimately show ?thesis using assms(2,3) by (auto simp: SendKey_def)
qed

theorem oversized_value_lost_witness:
  "\<exists>c' d. SendKey 4 [104] 0 (set_bag 0 \<lparr>sb_id = [112], routingTargets = {}, owningPeer = None,
      sb_data = [([104], replicate 131072 65)]\<rparr> (one_bag [112] Server_role)) = Some (c', [Send_state 4 d]) \<and>
    read_state d = Some None"
proof (rule oversized_value_lost[where v = "replicate 131072 65"])
  show "buffer_ok (dataBuffer (set_bag 0 \<lparr>sb_id = [112], routingTargets = {}, owningPeer = None,
      sb_data = [([104], replicate 131072 65)]\<rparr> (one_bag [112] Server_role)))"
    using registry_bufferD[OF bag_reachable_ok[OF one_bag_reachable]] by (simp add: set_bag_def)
  show "heap (set_bag 0 \<lparr>sb_id = [112], routingTargets = {}, owningPeer = None,
      sb_data = [([104], replicate 131072 65)]\<rparr> (one_bag [112] Server_role)) 0 =
    Some \<lparr>sb_id = [112], routingTargets = {}, owningPeer = None, sb_data = [([104], replicate 131072 65)]\<rparr>"
    by (simp add: set_bag_def)
qed (simp_all add: length_state_image)

text \<open>C22: A replicated change that a component sends for a bag is taken over by every receiver, client or server,
  that has a live bag of this name which is unowned or owned by the sending peer, when its change handlers, if it has any, run at once and accept the
  change; the names and the value are not empty, and the packet fits the buffer of 131072 bytes. Afterwards the key has the new value there; a client does not
  send it on, and a server sends the same packet to everybody it routes to, if the value is new to it.\<close>

theorem replicated_value_arrives:
  assumes "bag_reachable E c" "heap c a = Some bag" "omap_ok (sb_data bag)"
    and "sb_id bag \<noteq> []" "key \<noteq> []" "v \<noteq> []" "length (sb_id bag) < 65535" "length key < 65535"
    and "length (state_image (sb_id bag) key v) \<le> 131072"
    and "SetKeyInternal ot key v True a c = Some (c', out)" "Send_state t d \<in> set out"
    and "bag_reachable F k" "GetStateBag (sb_id bag) k = Some a'" "heap k a' = Some bag'" "sb_id bag' = sb_id bag"
    and "omap_ok (sb_data bag')" "owningPeer bag' = None \<or> owningPeer bag' = Some source"
    and "has_handlers env \<longrightarrow> \<not> asynchronous env \<and>
      (\<exists>up. unpack env v = Some up \<and> on_change env source (sb_id bag) key up (sbc_role k = Server_role))"
  shows "\<exists>k' bag''. HandlePacket_sb env ot' source d k = Some (k',
      if sbc_role k = Server_role \<and> GetKey key bag' \<noteq> Some v then map (\<lambda>t. Send_state t d) (routed ot' bag' k) else []) \<and>
    heap k' a' = Some bag'' \<and> GetKey key bag'' = Some v"
proof -
  have "buffer_ok (dataBuffer c)" by (rule registry_bufferD[OF bag_reachable_ok[OF assms(1)]])
  from SetKeyInternal_value[OF this assms(2,3,9), of ot True] have d: "d = state_image (sb_id bag) key v"
    using assms(10,11) by (auto split: if_splits)
  then have read: "read_state d = Some (Some (sb_id bag, key, v))"
    using read_state_value[OF assms(4-6)] assms(7-9) by simp
  let ?bag = "bag'\<lparr>sb_data := omap_put key v (sb_data bag')\<rparr>"
  let ?k = "k\<lparr>refs := (refs k)(a' := refs k a' + 1)\<rparr>"
  let ?out = "if sbc_role k = Server_role \<and> GetKey key bag' \<noteq> Some v then map (\<lambda>t. Send_state t d) (routed ot' bag' k) else []"
  have kb: "buffer_ok (dataBuffer ?k)" "heap ?k a' = Some bag'" "length (state_image (sb_id bag') key v) \<le> 131072"
    using registry_bufferD[OF bag_reachable_ok[OF assms(12)]] assms(9,14,15) by simp_all
  have routed: "routed ot' bag' ?k = routed ot' bag' k" by (simp add: routed_def)
  obtain b' where "SetKeyInternal ot' key v (sbc_role k = Server_role) a' ?k = Some (set_bag a' ?bag ?k\<lparr>dataBuffer := b'\<rparr>,
      if sbc_role k = Server_role \<and> GetKey key bag' \<noteq> Some v \<and> (v \<noteq> [] \<or> GetKey key bag' \<noteq> None)
      then map (\<lambda>t. Send_state t (state_image (sb_id bag') key v)) (routed ot' bag' ?k) else [])"
    using SetKeyInternal_value[OF kb(1,2) assms(16) kb(3), of ot' "sbc_role k = Server_role"] by blast
  then have "SetKeyInternal ot' key v (sbc_role k = Server_role) a' ?k = Some (set_bag a' ?bag ?k\<lparr>dataBuffer := b'\<rparr>, ?out)"
    unfolding d routed assms(15) using assms(6) by simp
  then have set: "SetKey env ot' source key v (sbc_role k = Server_role) a' ?k = Some (set_bag a' ?bag ?k\<lparr>dataBuffer := b'\<rparr>, ?out)"
    using assms(14,15,18) by (auto simp: SetKey_def)
  let ?k' = "drop_ref a' (set_bag a' ?bag ?k\<lparr>dataBuffer := b'\<rparr>)"
  have "refs k a' > 0 \<or> a' \<in> preCreated k"
    using registry_liveD[OF bag_reachable_ok[OF assms(12)], of a'] assms(14) by auto
  then have live: "heap ?k' a' = Some ?bag"
    by (auto simp: drop_ref_def collect_def set_bag_def)
  have "HandlePacket_sb env ot' source d k = Some (?k', ?out)"
    using read assms(13,14,17) set by (auto simp: HandlePacket_sb_def apply_state_def)
  moreover have "GetKey key ?bag = Some v"
    using omap.lookup_store[OF assms(16), of key v key] by (simp add: GetKey_def)
  ultimately show ?thesis using live by blast
qed

theorem replicated_value_arrives_witness:
  "\<exists>c' out k' bag''. SetKeyInternal (\<lambda>_. [4]) [104] [7] True 0 (one_bag [112] Server_role) = Some (c', out) \<and>
    Send_state 4 (state_image [112] [104] [7]) \<in> set out \<and>
    HandlePacket_sb \<lparr>has_handlers = True, unpack = (\<lambda>_. Some ()), asynchronous = False, on_change = (\<lambda>_ _ _ _ _. True)\<rparr>
      (\<lambda>_. [5, 6]) 65535 (state_image [112] [104] [7]) (one_bag [112] Server_role) =
      Some (k', [Send_state 5 (state_image [112] [104] [7]), Send_state 6 (state_image [112] [104] [7])]) \<and>
    heap k' 0 = Some bag'' \<and> GetKey [104] bag'' = Some [7]"
proof -
  let ?env = "\<lparr>has_handlers = True, unpack = (\<lambda>_. Some ()), asynchronous = False, on_change = (\<lambda>_ _ _ _ _. True)\<rparr>"
  let ?bag = "\<lparr>sb_id = [112], routingTargets = {}, owningPeer = None, sb_data = []\<rparr>"
  have bag: "heap (one_bag [112] r) 0 = Some ?bag" for r by (rule one_bag_simps)
  have name: "GetStateBag (sb_id ?bag) (one_bag [112] Server_role) = Some 0" by (simp add: one_bag_simps)
  have ok: "buffer_ok (dataBuffer (one_bag [112] Server_role))"
    by (rule registry_bufferD[OF bag_reachable_ok[OF one_bag_reachable[of UNIV]]])
  obtain c' out where c': "SetKeyInternal (\<lambda>_. [4]) [104] [7] True 0 (one_bag [112] Server_role) = Some (c', out)"
    "Send_state 4 (state_image [112] [104] [7]) \<in> set out"
    using SetKeyInternal_value[OF ok bag, of "[104]" "[7]" "\<lambda>_. [4]" True]
    by (auto simp: omap.blank length_state_image GetKey_def routed_def)
  obtain k' bag'' where "HandlePacket_sb ?env (\<lambda>_. [5, 6]) 65535 (state_image [112] [104] [7])
      (one_bag [112] Server_role) = Some (k', [Send_state 5 (state_image [112] [104] [7]), Send_state 6 (state_image [112] [104] [7])])"
    "heap k' 0 = Some bag''" "GetKey [104] bag'' = Some [7]"
    using replicated_value_arrives[OF one_bag_reachable[of UNIV] bag _ _ _ _ _ _ _ c' one_bag_reachable[of UNIV] name bag,
        where env = ?env and ot' = "\<lambda>_. [5, 6]" and source = 65535]
    by (auto simp: omap.blank length_state_image one_bag_simps GetKey_def routed_def)
  with c' show ?thesis by blast
qed

end
