(* ===== verification/Text.thy ===== *)
theory Text
  imports Main "HOL-Library.Word" "HOL-Library.List_Lexorder"
begin

text \<open>
  C and C++ strings as the components use them: byte lists, the case-insensitive order of
  \<open>_stricmp\<close> (in the C locale), and string literals.
\<close>

type_synonym str = "8 word list"

definition str_of :: "string \<Rightarrow> str" where
  "str_of s = map of_char s"

definition to_lower :: "8 word \<Rightarrow> 8 word" where
  "to_lower b = (if 65 \<le> b \<and> b \<le> 90 then b + 32 else b)"

text \<open>What \<open>_stricmp\<close> looks at: the characters before the first zero byte, in lower case.\<close>

definition fold_case :: "str \<Rightarrow> str" where
  "fold_case s = map to_lower (takeWhile (\<lambda>b. b \<noteq> 0) s)"

lemma to_lower_idem [simp]: "to_lower (to_lower b) = to_lower b"
proof (cases "65 \<le> b \<and> b \<le> 90")
  case True
  then have b: "65 \<le> unat b" "unat b \<le> 90" by (simp_all add: word_le_nat_alt)
  then have "unat (b + 32) = unat b + 32" by (simp add: unat_plus_if_size word_size)
  then have "\<not> b + 32 \<le> 90" using b by (simp add: word_le_nat_alt)
  then show ?thesis using True by (simp add: to_lower_def)
qed (auto simp: to_lower_def)

lemma to_lower_zero [simp]: "to_lower b = 0 \<longleftrightarrow> b = 0"
proof (cases "65 \<le> b \<and> b \<le> 90")
  case True
  then have b: "65 \<le> unat b" "unat b \<le> 90" by (simp_all add: word_le_nat_alt)
  then have "unat (b + 32) = unat b + 32" by (simp add: unat_plus_if_size word_size)
  then have "b + 32 \<noteq> 0" "b \<noteq> 0" using b by auto
  then show ?thesis using True by (simp add: to_lower_def)
qed (auto simp: to_lower_def)

lemma fold_case_no_zero: "0 \<notin> set (fold_case s)"
  by (auto simp: fold_case_def dest: set_takeWhileD)

lemma fold_case_nul_free: "0 \<notin> set s \<Longrightarrow> fold_case s = map to_lower s"
proof -
  assume "0 \<notin> set s"
  then have "\<forall>b \<in> set s. b \<noteq> 0" by blast
  then have "takeWhile (\<lambda>b. b \<noteq> 0) s = s" by (simp only: takeWhile_eq_all_conv)
  then show "fold_case s = map to_lower s" by (simp only: fold_case_def)
qed

lemma fold_case_idem [simp]: "fold_case (fold_case s) = fold_case s"
proof -
  have "fold_case (fold_case s) = map to_lower (fold_case s)"
    by (rule fold_case_nul_free[OF fold_case_no_zero])
  then show ?thesis by (simp add: fold_case_def)
qed

lemma fold_case_append: "0 \<notin> set p \<Longrightarrow> fold_case (p @ a) = map to_lower p @ fold_case a"
  by (induction p) (auto simp: fold_case_def)

end
