(* ===== verification/Security.thy ===== *)
theory Security
  imports Text Std_Containers
begin

text \<open>
  The access control of \<open>code/client/citicore/se/Security.cpp\<close> and \<open>Security.h\<close>: access control entries
  on objects named by dotted paths, principals that inherit from other principals, the stack of
  acting principals, and the console commands that edit the context.

  Names are compared with \<open>_stricmp\<close>; the containers order and find by that comparison. A multimap
  is the list of its entries in iteration order. A principal source is the list of the principals it
  enumerates. \<open>None\<close> is an operation on an empty deque or stack.
\<close>

section \<open>Names\<close>

datatype principal = Principal (GetIdentifier_p: str)
datatype object = Object (GetIdentifier_o: str)
datatype access_type = Allow | Unset | Deny

instantiation principal :: preorder
begin

definition less_eq_principal :: "principal \<Rightarrow> principal \<Rightarrow> bool" where
  "p \<le> q \<longleftrightarrow> fold_case (GetIdentifier_p p) \<le> fold_case (GetIdentifier_p q)"

definition less_principal :: "principal \<Rightarrow> principal \<Rightarrow> bool" where
  "p < q \<longleftrightarrow> fold_case (GetIdentifier_p p) < fold_case (GetIdentifier_p q)"

instance by standard (auto simp: less_eq_principal_def less_principal_def)

end

instantiation object :: preorder
begin

definition less_eq_object :: "object \<Rightarrow> object \<Rightarrow> bool" where
  "p \<le> q \<longleftrightarrow> fold_case (GetIdentifier_o p) \<le> fold_case (GetIdentifier_o q)"

definition less_object :: "object \<Rightarrow> object \<Rightarrow> bool" where
  "p < q \<longleftrightarrow> fold_case (GetIdentifier_o p) < fold_case (GetIdentifier_o q)"

instance by standard (auto simp: less_eq_object_def less_object_def)

end

text \<open>
  The equality operators of the two classes; it is also the equivalence the ordered containers
  use, neither key being less than the other.
\<close>

definition same_principal :: "principal \<Rightarrow> principal \<Rightarrow> bool" where
  "same_principal p q \<longleftrightarrow> fold_case (GetIdentifier_p p) = fold_case (GetIdentifier_p q)"

definition same_object :: "object \<Rightarrow> object \<Rightarrow> bool" where
  "same_object p q \<longleftrightarrow> fold_case (GetIdentifier_o p) = fold_case (GetIdentifier_o q)"

interpretation principal_keys: multimap "\<lambda>p. fold_case (GetIdentifier_p p)"
  by unfold_locales (simp add: less_principal_def)

interpretation object_keys: multimap "\<lambda>p. fold_case (GetIdentifier_o p)"
  by unfold_locales (simp add: less_object_def)

lemma same_principal_order: "same_principal p q \<longleftrightarrow> \<not> p < q \<and> \<not> q < p"
  by (auto simp: same_principal_def less_principal_def)

lemma same_object_order: "same_object p q \<longleftrightarrow> \<not> p < q \<and> \<not> q < p"
  by (auto simp: same_object_def less_object_def)

definition everyone :: principal where
  "everyone = Principal (str_of ''builtin.everyone'')"

section \<open>The context\<close>

record ace =
  ace_object :: object
  ace_principal :: principal
  ace_type :: access_type

record security_context =
  m_aces :: "(object \<times> ace) list"
  m_principalInheritance :: "(principal \<times> principal) list"

definition new_context :: security_context where
  "new_context = \<lparr>m_aces = [], m_principalInheritance = []\<rparr>"

definition Reset_context :: "security_context \<Rightarrow> security_context" where
  "Reset_context c = c\<lparr>m_aces := [], m_principalInheritance := []\<rparr>"

definition AddPrincipalInheritance :: "principal \<Rightarrow> principal \<Rightarrow> security_context \<Rightarrow> security_context" where
  "AddPrincipalInheritance child parent c =
     c\<lparr>m_principalInheritance := multi_insert child parent (m_principalInheritance c)\<rparr>"

definition RemovePrincipalInheritance :: "principal \<Rightarrow> principal \<Rightarrow> security_context \<Rightarrow> security_context" where
  "RemovePrincipalInheritance child parent c =
     c\<lparr>m_principalInheritance :=
       filter (\<lambda>(a, b). \<not> (same_principal a child \<and> same_principal b parent)) (m_principalInheritance c)\<rparr>"

definition AddAccessControlEntry :: "principal \<Rightarrow> object \<Rightarrow> access_type \<Rightarrow> security_context \<Rightarrow> security_context" where
  "AddAccessControlEntry p obj type c =
     c\<lparr>m_aces := multi_insert obj \<lparr>ace_object = obj, ace_principal = p, ace_type = type\<rparr> (m_aces c)\<rparr>"

definition RemoveAccessControlEntry :: "principal \<Rightarrow> object \<Rightarrow> access_type \<Rightarrow> security_context \<Rightarrow> security_context" where
  "RemoveAccessControlEntry p obj type c =
     c\<lparr>m_aces := filter (\<lambda>(k, e). \<not> (same_object k obj \<and> same_principal (ace_principal e) p \<and> ace_type e = type))
       (m_aces c)\<rparr>"

definition ForAllPrincipalInheritances :: "security_context \<Rightarrow> (principal \<times> principal) list" where
  "ForAllPrincipalInheritances c = m_principalInheritance c"

definition ForAllAccessControlEntries :: "security_context \<Rightarrow> (principal \<times> object \<times> access_type) list" where
  "ForAllAccessControlEntries c = map (\<lambda>(_, e). (ace_principal e, ace_object e, ace_type e)) (m_aces c)"

section \<open>The principals a principal equates to\<close>

definition parents_of :: "(principal \<times> principal) list \<Rightarrow> principal \<Rightarrow> principal list" where
  "parents_of inh p = map snd (filter (\<lambda>(c, _). same_principal c p) inh)"

definition in_principals :: "principal \<Rightarrow> principal list \<Rightarrow> bool" where
  "in_principals p S \<longleftrightarrow> (\<exists>q \<in> set S. same_principal q p)"

text \<open>
  The loop of \<open>AddPrincipals\<close> over the parents of one principal; the recursive call is the inner
  one, on the parents of a parent.
\<close>

function add_parents :: "(principal \<times> principal) list \<Rightarrow> principal list \<Rightarrow> principal list \<Rightarrow> principal list" where
  "add_parents inh [] S = S"
| "add_parents inh (p # ps) S =
     (if in_principals p S then add_parents inh ps S
      else add_parents inh ps (add_parents inh (parents_of inh p) (p # S)))"
  by pat_completeness auto

abbreviation pkey :: "principal \<Rightarrow> str" where
  "pkey p \<equiv> fold_case (GetIdentifier_p p)"

lemma in_principals_key: "in_principals p S \<longleftrightarrow> pkey p \<in> pkey ` set S"
  unfolding in_principals_def same_principal_def image_iff by (simp add: eq_commute)

lemma add_parents_grows:
  "add_parents_dom (inh, ps, S) \<Longrightarrow> set S \<subseteq> set (add_parents inh ps S)"
proof (induction inh ps S rule: add_parents.pinduct)
  case (2 inh p ps S)
  then show ?case by (cases "in_principals p S") (auto simp: add_parents.psimps)
qed (simp add: add_parents.psimps)

lemma parents_subset: "set (parents_of inh p) \<subseteq> snd ` set inh"
  by (force simp: parents_of_def)

text \<open>What is left to find: the names of the known parents and of the pending list that are not in the set.\<close>

definition unseen :: "(principal \<times> principal) list \<Rightarrow> principal list \<Rightarrow> principal list \<Rightarrow> str set" where
  "unseen inh ps S = (pkey ` (snd ` set inh \<union> set ps)) - pkey ` set S"

lemma unseen_less:
  assumes "\<not> in_principals p S" "set qs \<subseteq> snd ` set inh \<union> set ps" "insert p (set S) \<subseteq> set T"
  shows "card (unseen inh qs T) < card (unseen inh (p # ps) S)"
proof (rule psubset_card_mono)
  show "finite (unseen inh (p # ps) S)" by (simp add: unseen_def)
  have "pkey p \<in> unseen inh (p # ps) S" using assms(1) by (simp add: unseen_def in_principals_key)
  moreover have "pkey p \<notin> unseen inh qs T" using assms(3) by (auto simp: unseen_def)
  moreover have "unseen inh qs T \<subseteq> unseen inh (p # ps) S"
    using assms(2,3) unfolding unseen_def by (intro Diff_mono image_mono) auto
  ultimately show "unseen inh qs T \<subset> unseen inh (p # ps) S" by blast
qed

termination add_parents
proof (relation "measures [\<lambda>(inh, ps, S). card (unseen inh ps S), \<lambda>(inh, ps, S). length ps]")
  fix inh :: "(principal \<times> principal) list" and p ps S
  assume p: "in_principals p S"
  have "unseen inh ps S \<subseteq> unseen inh (p # ps) S" by (auto simp: unseen_def)
  then have "card (unseen inh ps S) \<le> card (unseen inh (p # ps) S)"
    by (intro card_mono) (auto simp: unseen_def)
  then show "((inh, ps, S), inh, p # ps, S) \<in>
      measures [\<lambda>(inh, ps, S). card (unseen inh ps S), \<lambda>(inh, ps, S). length ps]"
    by auto
next
  fix inh :: "(principal \<times> principal) list" and p ps S
  assume p: "\<not> in_principals p S"
  show "((inh, parents_of inh p, p # S), inh, p # ps, S) \<in>
      measures [\<lambda>(inh, ps, S). card (unseen inh ps S), \<lambda>(inh, ps, S). length ps]"
    using unseen_less[OF p, of "parents_of inh p" inh ps "p # S"] parents_subset[of inh p] by auto
  assume "add_parents_dom (inh, parents_of inh p, p # S)"
  from add_parents_grows[OF this]
  show "((inh, ps, add_parents inh (parents_of inh p) (p # S)), inh, p # ps, S) \<in>
      measures [\<lambda>(inh, ps, S). card (unseen inh ps S), \<lambda>(inh, ps, S). length ps]"
    using unseen_less[OF p, of ps inh ps "add_parents inh (parents_of inh p) (p # S)"] by auto
qed simp

definition AddPrincipals :: "security_context \<Rightarrow> principal \<Rightarrow> principal list \<Rightarrow> principal list" where
  "AddPrincipals c p S = add_parents (m_principalInheritance c) (parents_of (m_principalInheritance c) p) S"

section \<open>Checking\<close>

text \<open>\<open>'object.parent.child'\<close> becomes \<open>['object.parent.child', 'object.parent', 'object']\<close>.\<close>

definition before_last_dot :: "str \<Rightarrow> str" where
  "before_last_dot s = butlast (rev (dropWhile (\<lambda>b. b \<noteq> 46) (rev s)))"

lemma before_last_dot_shorter: "46 \<in> set s \<Longrightarrow> length (before_last_dot s) < length s"
proof -
  assume "46 \<in> set s"
  then have "0 < length s" by (cases s) auto
  moreover have "length (dropWhile (\<lambda>b. b \<noteq> 46) (rev s)) \<le> length s"
    by (metis length_dropWhile_le length_rev)
  ultimately have "length (dropWhile (\<lambda>b. b \<noteq> 46) (rev s)) - 1 < length s" by linarith
  then show ?thesis by (simp add: before_last_dot_def)
qed

function object_chain :: "str \<Rightarrow> str list" where
  "object_chain s = s # (if 46 \<in> set s then object_chain (before_last_dot s) else [])"
  by pat_completeness auto

termination by (relation "measure length") (auto simp: before_last_dot_shorter)

declare object_chain.simps [simp del]

text \<open>The loop over the entries of all the objects: \<open>Deny\<close> returns at once.\<close>

fun scan_aces :: "principal list \<Rightarrow> ace list \<Rightarrow> bool \<Rightarrow> bool" where
  "scan_aces S [] allowed = allowed"
| "scan_aces S (e # es) allowed =
     (if in_principals (ace_principal e) S then
        (case ace_type e of
           Allow \<Rightarrow> scan_aces S es True
         | Deny \<Rightarrow> False
         | Unset \<Rightarrow> scan_aces S es allowed)
      else scan_aces S es allowed)"

definition aces_of :: "security_context \<Rightarrow> object \<Rightarrow> ace list" where
  "aces_of c obj = map snd (filter (\<lambda>(k, _). same_object k obj) (m_aces c))"

definition CheckPrivilege :: "principal \<Rightarrow> object \<Rightarrow> security_context \<Rightarrow> bool" where
  "CheckPrivilege p obj c =
     (let principals = AddPrincipals c p [p, everyone];
          objects = map Object (object_chain (GetIdentifier_o obj))
      in scan_aces principals (concat (map (aces_of c) objects)) False)"

section \<open>The stack of acting principals\<close>

datatype stack_entry = Ref principal | Source "principal list"

record security_thread =
  principalStack :: "stack_entry list"
  principalStackStack :: "stack_entry list list"

fun first_hit :: "(principal \<Rightarrow> bool) \<Rightarrow> principal list \<Rightarrow> bool" where
  "first_hit f [] = False"
| "first_hit f (p # ps) = (if f p then True else first_hit f ps)"

text \<open>
  \<open>LoopPrincipalStack\<close> with a callback that reports whether it is satisfied, and whether it ever was.
  A satisfied reference stops the loop; a satisfied source stops only its own enumeration.
\<close>

fun LoopPrincipalStack :: "(principal \<Rightarrow> bool) \<Rightarrow> stack_entry list \<Rightarrow> bool" where
  "LoopPrincipalStack f [] = False"
| "LoopPrincipalStack f (Ref p # es) = (if f p then True else LoopPrincipalStack f es)"
| "LoopPrincipalStack f (Source ps # es) = (let hit = first_hit f ps in LoopPrincipalStack f es \<or> hit)"

definition CheckPrivilege_current :: "object \<Rightarrow> security_thread \<Rightarrow> security_context \<Rightarrow> bool" where
  "CheckPrivilege_current obj t c =
     (if principalStack t = [] then CheckPrivilege everyone obj c
      else LoopPrincipalStack (\<lambda>p. CheckPrivilege p obj c) (principalStack t))"

definition PushPrincipal :: "stack_entry \<Rightarrow> security_thread \<Rightarrow> security_thread" where
  "PushPrincipal e t = t\<lparr>principalStack := e # principalStack t\<rparr>"

definition PopPrincipal :: "security_thread \<Rightarrow> security_thread option" where
  "PopPrincipal t = (case principalStack t of [] \<Rightarrow> None | _ # es \<Rightarrow> Some (t\<lparr>principalStack := es\<rparr>))"

definition PushPrincipalReset :: "security_thread \<Rightarrow> security_thread" where
  "PushPrincipalReset t =
     t\<lparr>principalStackStack := principalStack t # principalStackStack t, principalStack := []\<rparr>"

definition PopPrincipalReset :: "security_thread \<Rightarrow> security_thread option" where
  "PopPrincipalReset t =
     (case principalStackStack t of [] \<Rightarrow> None
      | s # ss \<Rightarrow> Some (t\<lparr>principalStack := s, principalStackStack := ss\<rparr>))"

section \<open>The current context and the console commands\<close>

definition default_context :: security_context where
  "default_context =
     AddAccessControlEntry (Principal (str_of ''system.console'')) (Object (str_of ''command'')) Allow new_context"

text \<open>\<open>seGetCurrentContext\<close> on the thread's context and the global one, which it creates on first use.\<close>

definition seGetCurrentContext :: "security_context option \<Rightarrow> security_context option \<Rightarrow>
    security_context \<times> security_context option" where
  "seGetCurrentContext current global =
     (case current of
        Some c \<Rightarrow> (c, global)
      | None \<Rightarrow> (case global of Some g \<Rightarrow> (g, global) | None \<Rightarrow> (default_context, Some default_context)))"

definition parse_access :: "str \<Rightarrow> access_type option" where
  "parse_access s =
     (if s = str_of ''allow'' then Some Allow else if s = str_of ''deny'' then Some Deny else None)"

text \<open>The commands return the new context and what they print.\<close>

definition is_self :: "str \<Rightarrow> security_thread \<Rightarrow> bool" where
  "is_self p t = LoopPrincipalStack (\<lambda>q. p = GetIdentifier_p q) (principalStack t)"

definition edit_ace :: "(principal \<Rightarrow> object \<Rightarrow> access_type \<Rightarrow> security_context \<Rightarrow> security_context) \<Rightarrow>
    str \<Rightarrow> str \<Rightarrow> str \<Rightarrow> security_thread \<Rightarrow> security_context \<Rightarrow> security_context \<times> str list" where
  "edit_ace edit p obj allow t c =
     (case parse_access allow of
        None \<Rightarrow> (c, [str_of ''Access type needs to be 'allow' or 'deny'.'' @ [10]])
      | Some type \<Rightarrow>
          if is_self p t then (c, [str_of ''Changing ones own access is not permitted.'' @ [10]])
          else (edit (Principal p) (Object obj) type c, []))"

definition add_ace :: "str \<Rightarrow> str \<Rightarrow> str \<Rightarrow> security_thread \<Rightarrow> security_context \<Rightarrow> security_context \<times> str list" where
  "add_ace = edit_ace AddAccessControlEntry"

definition remove_ace :: "str \<Rightarrow> str \<Rightarrow> str \<Rightarrow> security_thread \<Rightarrow> security_context \<Rightarrow> security_context \<times> str list" where
  "remove_ace = edit_ace RemoveAccessControlEntry"

definition add_principal :: "str \<Rightarrow> str \<Rightarrow> security_context \<Rightarrow> security_context" where
  "add_principal p parent = AddPrincipalInheritance (Principal p) (Principal parent)"

definition remove_principal :: "str \<Rightarrow> str \<Rightarrow> security_context \<Rightarrow> security_context" where
  "remove_principal p parent = RemovePrincipalInheritance (Principal p) (Principal parent)"

definition test_ace :: "str \<Rightarrow> str \<Rightarrow> security_context \<Rightarrow> str" where
  "test_ace p obj c = p @ str_of '' -> '' @ obj @ str_of '' = '' @
     (if CheckPrivilege (Principal p) (Object obj) c then str_of ''true'' else str_of ''false'') @ [10]"

definition list_principals :: "security_context \<Rightarrow> str list" where
  "list_principals c = map (\<lambda>(child, parent). GetIdentifier_p child @ str_of '' <- '' @ GetIdentifier_p parent @ [10])
     (ForAllPrincipalInheritances c)"

definition list_aces :: "security_context \<Rightarrow> str list" where
  "list_aces c = map (\<lambda>(p, obj, type). GetIdentifier_p p @ str_of '' -> '' @ GetIdentifier_o obj @ str_of '' = '' @
       (if type = Allow then str_of ''ALLOW'' else str_of ''DENY'') @ [10])
     (ForAllAccessControlEntries c)"

end
