(* ===== verification/Security_Properties.thy ===== *)
theory Security_Properties
  imports Security
begin

text \<open>
  What the access control decides: the principals an acting principal counts as, the paths an
  object stands for, the rule that combines the entries, and how scopes and edits compose.
\<close>

section \<open>The principals found\<close>

definition inherits :: "(principal \<times> principal) list \<Rightarrow> (str \<times> str) set" where
  "inherits inh = {(pkey a, pkey b) | a b. (a, b) \<in> set inh}"

lemma pkey_parents: "pkey ` set (parents_of inh p) = inherits inh `` {pkey p}"
proof
  show "pkey ` set (parents_of inh p) \<subseteq> inherits inh `` {pkey p}"
    by (auto simp: parents_of_def inherits_def same_principal_def) metis
  show "inherits inh `` {pkey p} \<subseteq> pkey ` set (parents_of inh p)"
  proof
    fix x assume "x \<in> inherits inh `` {pkey p}"
    then obtain a b where "(a, b) \<in> set inh" "pkey a = pkey p" "x = pkey b"
      by (auto simp: inherits_def)
    then have "b \<in> set (parents_of inh p)" by (auto simp: parents_of_def same_principal_def intro!: image_eqI[of _ _ "(a, b)"])
    then show "x \<in> pkey ` set (parents_of inh p)" using \<open>x = pkey b\<close> by (rule rev_image_eqI)
  qed
qed

definition names :: "principal list \<Rightarrow> str set" where
  "names S = pkey ` set S"

lemma names_Cons [simp]: "names (p # S) = insert (pkey p) (names S)"
  by (simp add: names_def)

lemma in_principals_names: "in_principals p S \<longleftrightarrow> pkey p \<in> names S"
  by (simp add: names_def in_principals_key)

lemma names_grow: "names S \<union> names ps \<subseteq> names (add_parents inh ps S)"
proof (induction inh ps S rule: add_parents.induct)
  case (1 inh S)
  then show ?case by (simp add: names_def)
next
  case (2 inh p ps S)
  then show ?case
  proof (cases "in_principals p S")
    case True
    then show ?thesis using 2(1)[OF True] by (auto simp: in_principals_names)
  next
    case False
    then show ?thesis using 2(2,3)[OF False] by auto
  qed
qed

text \<open>Nothing is found outside a set that the pending principals are in and that is closed under parents.\<close>

lemma names_bounded:
  assumes "names ps \<subseteq> R" "\<And>x. x \<in> R \<Longrightarrow> x \<notin> names S \<Longrightarrow> inherits inh `` {x} \<subseteq> R"
  shows "names (add_parents inh ps S) \<subseteq> names S \<union> R"
  using assms
proof (induction inh ps S rule: add_parents.induct)
  case (1 inh S)
  then show ?case by simp
next
  case (2 inh p ps S)
  show ?case
  proof (cases "in_principals p S")
    case True
    then show ?thesis using 2(1)[OF True] "2.prems" by auto
  next
    case False
    let ?S = "add_parents inh (parents_of inh p) (p # S)"
    have p: "pkey p \<in> R" "pkey p \<notin> names S" using "2.prems"(1) False by (simp_all add: in_principals_names)
    have "names (parents_of inh p) = inherits inh `` {pkey p}" by (simp add: names_def pkey_parents)
    then have "names (parents_of inh p) \<subseteq> R" using "2.prems"(2)[OF p] by simp
    then have 1: "names ?S \<subseteq> names (p # S) \<union> R"
      using 2(2)[OF False] "2.prems"(2) by simp
    have "names S \<subseteq> names ?S" using names_grow[of "p # S" "parents_of inh p" inh] by simp
    then have "names (add_parents inh ps ?S) \<subseteq> names ?S \<union> R"
      using "2.prems" by (intro 2(3)[OF False]) auto
    with 1 p(1) False show ?thesis by auto
  qed
qed

text \<open>Everything that was found, and was not there before, is closed under parents.\<close>

lemma names_closed:
  "x \<in> names (add_parents inh ps S) - names S \<Longrightarrow> inherits inh `` {x} \<subseteq> names (add_parents inh ps S)"
proof (induction inh ps S arbitrary: x rule: add_parents.induct)
  case (1 inh S)
  then show ?case by simp
next
  case (2 inh p ps S)
  show ?case
  proof (cases "in_principals p S")
    case True
    then show ?thesis using 2(1)[OF True, of x] "2.prems" by simp
  next
    case False
    let ?S = "add_parents inh (parents_of inh p) (p # S)"
    have parents: "names (parents_of inh p) = inherits inh `` {pkey p}" by (simp add: names_def pkey_parents)
    have eq: "add_parents inh (p # ps) S = add_parents inh ps ?S" using False by simp
    have sub: "names ?S \<subseteq> names (add_parents inh ps ?S)" using names_grow[of ?S ps inh] by blast
    consider "x \<notin> names ?S" | "x \<in> names ?S" "x \<notin> names (p # S)" | "x = pkey p" | "x \<in> names S"
      by auto
    then show ?thesis
    proof cases
      case 1
      then show ?thesis using 2(3)[OF False, of x] "2.prems" eq by simp
    next
      case 2
      then show ?thesis using "2.IH"(2)[OF False, of x] sub eq by auto
    next
      case 3
      then show ?thesis using parents names_grow[of "p # S" "parents_of inh p" inh] sub eq by auto
    qed (use "2.prems" in simp)
  qed
qed

text \<open>
  The inheritance that counts for a principal: \<open>builtin.everyone\<close> is in the set from the beginning, so
  its own parents are not looked up, unless it is the principal asked about.
\<close>

definition counted :: "security_context \<Rightarrow> principal \<Rightarrow> (str \<times> str) set" where
  "counted c p = {(a, b) \<in> inherits (m_principalInheritance c). a \<noteq> pkey everyone \<or> pkey p = pkey everyone}"

lemma names_AddPrincipals:
  "names (AddPrincipals c p [p, everyone]) = insert (pkey everyone) ((counted c p)\<^sup>* `` {pkey p})"
    (is "?L = ?R")
proof
  let ?inh = "m_principalInheritance c"
  let ?ps = "parents_of ?inh p" and ?S = "[p, everyone]"
  have parents: "names ?ps = inherits ?inh `` {pkey p}" by (simp add: names_def pkey_parents)
  have L: "?L = names (add_parents ?inh ?ps ?S)" by (simp add: AddPrincipals_def)
  have start: "names ?S \<subseteq> ?L" "names ?ps \<subseteq> ?L" unfolding L using names_grow by blast+
  have closed: "inherits ?inh `` {x} \<subseteq> ?L" if "x \<in> ?L" "x \<noteq> pkey everyone \<or> pkey p = pkey everyone" for x
  proof (cases "x = pkey p")
    case True
    then show ?thesis using parents start(2) by blast
  next
    case False
    then have "x \<in> names (add_parents ?inh ?ps ?S) - names ?S" using that L by (auto simp: names_def)
    then show ?thesis unfolding L by (rule names_closed)
  qed
  have "x \<in> ?L" if "(pkey p, x) \<in> (counted c p)\<^sup>*" for x
    using that
  proof (induction rule: rtrancl_induct)
    case base
    then show ?case using start(1) by (simp add: names_def)
  next
    case (step y z)
    then show ?case using closed[of y] by (auto simp: counted_def)
  qed
  then show "?R \<subseteq> ?L" using start(1) by (auto simp: names_def)
  let ?R' = "(counted c p)\<^sup>* `` {pkey p}"
  have down: "inherits ?inh `` {x} \<subseteq> ?R'" if "x \<in> ?R'" "x \<noteq> pkey everyone \<or> pkey p = pkey everyone" for x
  proof
    fix y assume "y \<in> inherits ?inh `` {x}"
    then have "(x, y) \<in> counted c p" using that(2) by (simp add: counted_def)
    with that(1) show "y \<in> ?R'" by (auto intro: rtrancl_into_rtrancl)
  qed
  have "names ?ps \<subseteq> ?R'" unfolding parents by (rule down) auto
  then have "?L \<subseteq> names ?S \<union> ?R'"
    unfolding L
  proof (rule names_bounded)
    fix x assume "x \<in> ?R'" "x \<notin> names ?S"
    then show "inherits ?inh `` {x} \<subseteq> ?R'" by (intro down) (simp_all add: names_def)
  qed
  then show "?L \<subseteq> ?R" by (auto simp: names_def)
qed

section \<open>The paths of an object\<close>

lemma before_last_dot_split:
  assumes "s = xs @ 46 # ys" "46 \<notin> set ys"
  shows "before_last_dot s = xs"
proof -
  have "takeWhile (\<lambda>b. b \<noteq> 46) (rev ys @ [46] @ rev xs) = rev ys"
    using assms(2) by (subst takeWhile_append2) auto
  have "dropWhile (\<lambda>b. b \<noteq> 46) (rev ys @ 46 # rev xs) = 46 # rev xs"
    using assms(2) by (subst dropWhile_append2) auto
  then show ?thesis by (simp add: before_last_dot_def assms(1))
qed

lemma set_object_chain: "set (object_chain s) = insert s {take i s | i. i < length s \<and> s ! i = 46}"
proof (induction s rule: object_chain.induct)
  case (1 s)
  show ?case
  proof (cases "46 \<in> set s")
    case False
    then have none: "{take i s | i. i < length s \<and> s ! i = 46} = {}" by (auto simp: in_set_conv_nth)
    have "object_chain s = [s]" using False by (subst object_chain.simps) simp
    then show ?thesis unfolding none by simp
  next
    case True
    then obtain xs ys where s: "s = xs @ 46 # ys" "46 \<notin> set ys" by (auto dest: split_list_last)
    let ?D = "\<lambda>s. {take i s | i. i < length s \<and> s ! i = 46}"
    have "?D s = insert xs (?D xs)"
    proof
      show "?D s \<subseteq> insert xs (?D xs)"
      proof
        fix t assume "t \<in> ?D s"
        then obtain i where i: "t = take i s" "i < length s" "s ! i = 46" by blast
        have "\<not> length xs < i"
        proof
          assume "length xs < i"
          then have "s ! i = ys ! (i - length xs - 1)" "i - length xs - 1 < length ys"
            using i(2) s(1) by (simp_all add: nth_append nth_Cons')
          then show False using i(3) s(2) by (metis nth_mem)
        qed
        then show "t \<in> insert xs (?D xs)"
          using i s(1) by (cases "i = length xs") (auto simp: nth_append intro!: exI[of _ i])
      qed
      show "insert xs (?D xs) \<subseteq> ?D s"
      proof
        fix t assume "t \<in> insert xs (?D xs)"
        then consider "t = xs" | i where "t = take i xs" "i < length xs" "xs ! i = 46" by blast
        then show "t \<in> ?D s"
        proof cases
          case 1
          then show ?thesis using s(1) by (auto intro!: exI[of _ "length xs"])
        next
          case 2
          then show ?thesis using s(1) by (auto simp: nth_append intro!: exI[of _ i])
        qed
      qed
    qed
    moreover have "set (object_chain s) = insert s (insert xs (?D xs))"
      using 1[OF True] True before_last_dot_split[OF s] by (subst object_chain.simps) simp
    ultimately show ?thesis by simp
  qed
qed

section \<open>Combining the entries\<close>

lemma scan_aces_value:
  "scan_aces S es allowed \<longleftrightarrow>
    (allowed \<or> (\<exists>e \<in> set es. in_principals (ace_principal e) S \<and> ace_type e = Allow)) \<and>
    \<not> (\<exists>e \<in> set es. in_principals (ace_principal e) S \<and> ace_type e = Deny)"
  by (induction S es allowed rule: scan_aces.induct) (auto split: access_type.splits)

text \<open>The entry applies to the object, or to one of the dotted prefixes of its name.\<close>

definition covers :: "object \<Rightarrow> object \<Rightarrow> bool" where
  "covers k obj \<longleftrightarrow> (\<exists>t \<in> insert (GetIdentifier_o obj)
     {take i (GetIdentifier_o obj) | i. i < length (GetIdentifier_o obj) \<and> GetIdentifier_o obj ! i = 46}.
     fold_case (GetIdentifier_o k) = fold_case t)"

definition ace_applies :: "security_context \<Rightarrow> principal \<Rightarrow> object \<Rightarrow> access_type \<Rightarrow> bool" where
  "ace_applies c p obj type \<longleftrightarrow> (\<exists>(k, e) \<in> set (m_aces c). covers k obj \<and> ace_type e = type \<and>
     pkey (ace_principal e) \<in> insert (pkey everyone) ((counted c p)\<^sup>* `` {pkey p}))"

lemma aces_in_scan:
  "e \<in> set (concat (map (aces_of c) (map Object (object_chain s)))) \<longleftrightarrow>
    (\<exists>k. (k, e) \<in> set (m_aces c) \<and> covers k (Object s))"
proof -
  have "e \<in> set (aces_of c (Object t)) \<longleftrightarrow>
      (\<exists>k. (k, e) \<in> set (m_aces c) \<and> fold_case (GetIdentifier_o k) = fold_case t)" for t
    by (force simp: aces_of_def same_object_def)
  then have "e \<in> set (concat (map (aces_of c) (map Object (object_chain s)))) \<longleftrightarrow>
      (\<exists>t \<in> set (object_chain s). \<exists>k. (k, e) \<in> set (m_aces c) \<and> fold_case (GetIdentifier_o k) = fold_case t)"
    by simp
  then show ?thesis unfolding covers_def set_object_chain object.sel by blast
qed

lemma CheckPrivilege_value:
  "CheckPrivilege p obj c \<longleftrightarrow> ace_applies c p obj Allow \<and> \<not> ace_applies c p obj Deny"
proof -
  let ?es = "concat (map (aces_of c) (map Object (object_chain (GetIdentifier_o obj))))"
  let ?S = "AddPrincipals c p [p, everyone]"
  have "(\<exists>e \<in> set ?es. in_principals (ace_principal e) ?S \<and> ace_type e = type) \<longleftrightarrow> ace_applies c p obj type" for type
    unfolding ace_applies_def in_principals_names names_AddPrincipals bex_simps
    using aces_in_scan[of _ c "GetIdentifier_o obj"] by (auto simp del: set_concat)
  then show ?thesis unfolding CheckPrivilege_def Let_def scan_aces_value by simp
qed

section \<open>Properties\<close>

text \<open>C31: A principal has a privilege exactly when some entry allows it and none denies it, over
  the entries for the object and every dotted prefix of its name and for the principal, the principals
  it inherits from in any number of steps, and \<open>builtin.everyone\<close>; names are compared
  without case. The search for the inherited principals terminates on cyclic inheritance.\<close>

theorem privilege_decision:
  "CheckPrivilege p obj c \<longleftrightarrow>
    (\<exists>(k, e) \<in> set (m_aces c). covers k obj \<and> ace_type e = Allow \<and>
       pkey (ace_principal e) \<in> insert (pkey everyone) ((counted c p)\<^sup>* `` {pkey p})) \<and>
    \<not> (\<exists>(k, e) \<in> set (m_aces c). covers k obj \<and> ace_type e = Deny \<and>
       pkey (ace_principal e) \<in> insert (pkey everyone) ((counted c p)\<^sup>* `` {pkey p}))"
  unfolding CheckPrivilege_value ace_applies_def ..

lemma filter_multi_insert:
  "\<not> P (k, v) \<Longrightarrow> filter P (multi_insert k v m) = filter P m"
  by (induction k v m rule: multi_insert.induct) auto

lemma LoopPrincipalStack_value:
  "LoopPrincipalStack f es \<longleftrightarrow> (\<exists>e \<in> set es. case e of Ref p \<Rightarrow> f p | Source ps \<Rightarrow> \<exists>p \<in> set ps. f p)"
proof -
  have "first_hit f ps \<longleftrightarrow> (\<exists>p \<in> set ps. f p)" for ps
    by (induction ps) auto
  then show ?thesis by (induction f es rule: LoopPrincipalStack.induct) (auto simp: Let_def)
qed

text \<open>With acting principals on the stack a privilege is held exactly when one of them, a
  referenced one or one that a source enumerates, has it; with an empty stack \<open>builtin.everyone\<close> decides.\<close>

theorem acting_privilege:
  "CheckPrivilege_current obj t c \<longleftrightarrow>
    (if principalStack t = [] then CheckPrivilege everyone obj c
     else \<exists>e \<in> set (principalStack t). case e of
       Ref p \<Rightarrow> CheckPrivilege p obj c | Source ps \<Rightarrow> \<exists>p \<in> set ps. CheckPrivilege p obj c)"
  by (simp add: CheckPrivilege_current_def LoopPrincipalStack_value)

text \<open>Taking an entry away undoes adding it: what is decided afterwards is what was decided
  without any equal entry before.\<close>

theorem remove_undoes_add:
  "RemoveAccessControlEntry p obj type (AddAccessControlEntry p obj type c) = RemoveAccessControlEntry p obj type c \<and>
    RemovePrincipalInheritance p q (AddPrincipalInheritance p q c) = RemovePrincipalInheritance p q c"
  by (simp add: RemoveAccessControlEntry_def AddAccessControlEntry_def RemovePrincipalInheritance_def
      AddPrincipalInheritance_def filter_multi_insert same_principal_def same_object_def)

text \<open>A scope of the stack: what is pushed is popped, and a reset is undone.\<close>

datatype scope_op = Push stack_entry | Pop | Push_reset | Pop_reset

fun run_scope :: "scope_op list \<Rightarrow> security_thread \<Rightarrow> security_thread option" where
  "run_scope [] t = Some t"
| "run_scope (Push e # ops) t = run_scope ops (PushPrincipal e t)"
| "run_scope (Pop # ops) t = (case PopPrincipal t of None \<Rightarrow> None | Some t \<Rightarrow> run_scope ops t)"
| "run_scope (Push_reset # ops) t = run_scope ops (PushPrincipalReset t)"
| "run_scope (Pop_reset # ops) t = (case PopPrincipalReset t of None \<Rightarrow> None | Some t \<Rightarrow> run_scope ops t)"

inductive scoped :: "scope_op list \<Rightarrow> bool" where
  empty: "scoped []"
| principal: "scoped body \<Longrightarrow> scoped rest \<Longrightarrow> scoped (Push e # body @ Pop # rest)"
| reset: "scoped body \<Longrightarrow> scoped rest \<Longrightarrow> scoped (Push_reset # body @ Pop_reset # rest)"

lemma run_scope_append:
  "run_scope (xs @ ys) t = (case run_scope xs t of None \<Rightarrow> None | Some t \<Rightarrow> run_scope ys t)"
  by (induction xs t rule: run_scope.induct) (auto split: option.split)

lemma scoped_restores: "scoped ops \<Longrightarrow> run_scope ops t = Some t"
  by (induction arbitrary: t rule: scoped.induct)
    (simp_all add: run_scope_append PushPrincipal_def PopPrincipal_def PushPrincipalReset_def PopPrincipalReset_def)

text \<open>Code that brackets its principals with scopes, in any nesting of principal scopes and
  reset scopes, never pops an empty stack and leaves the acting principals as it found them, so every
  privilege is decided afterwards as before.\<close>

theorem scopes_restore:
  assumes "scoped ops"
  shows "\<exists>t'. run_scope ops t = Some t' \<and> CheckPrivilege_current obj t' c = CheckPrivilege_current obj t c"
  using scoped_restores[OF assms] by simp

theorem scopes_restore_witness:
  "\<exists>t'. run_scope [Push (Ref everyone), Push_reset, Push (Source []), Pop, Pop_reset, Pop]
      \<lparr>principalStack = [Ref (Principal [97])], principalStackStack = []\<rparr> = Some t' \<and>
    CheckPrivilege_current (Object [98]) t' default_context =
      CheckPrivilege_current (Object [98]) \<lparr>principalStack = [Ref (Principal [97])], principalStackStack = []\<rparr> default_context"
proof (rule scopes_restore)
  have "scoped (Push (Source []) # [] @ Pop # [])" by (intro scoped.intros)
  then have "scoped (Push_reset # [Push (Source []), Pop] @ Pop_reset # [])" by (intro scoped.intros) simp_all
  then have "scoped (Push (Ref everyone) # [Push_reset, Push (Source []), Pop, Pop_reset] @ Pop # [])"
    by (intro scoped.intros) simp_all
  then show "scoped [Push (Ref everyone), Push_reset, Push (Source []), Pop, Pop_reset, Pop]" by simp
qed

lemma stricmp_facts:
  "pkey (Principal (str_of ''system.console'')) \<noteq> pkey everyone"
  by (simp add: everyone_def fold_case_def str_of_def to_lower_def)

text \<open>The context that exists before any configuration lets exactly \<open>system.console\<close> run
  commands: nobody else has any privilege.\<close>

theorem default_context_decision:
  "CheckPrivilege p obj default_context \<longleftrightarrow>
    pkey p = str_of ''system.console'' \<and> covers (Object (str_of ''command'')) obj"
proof -
  have key: "fold_case (str_of ''system.console'') = str_of ''system.console''"
    by (simp add: fold_case_def str_of_def to_lower_def)
  have c: "counted default_context p = {}"
    by (simp add: counted_def inherits_def default_context_def AddAccessControlEntry_def new_context_def)
  have aces: "m_aces default_context = [(Object (str_of ''command''), \<lparr>ace_object = Object (str_of ''command''),
      ace_principal = Principal (str_of ''system.console''), ace_type = Allow\<rparr>)]"
    by (simp add: default_context_def AddAccessControlEntry_def new_context_def)
  show ?thesis
    unfolding CheckPrivilege_value ace_applies_def aces c using stricmp_facts by (auto simp: key)
qed

text \<open>The guard against changing one's own access compares names exactly, while access is
  decided without case: an acting principal that the exact name is refused for gives itself any access
  by spelling its own name differently.\<close>

theorem self_edit_guard_bypassed:
  assumes "principalStack t = [Ref (Principal p)]" "q \<noteq> p" "fold_case q = fold_case p"
  shows "fst (add_ace p obj (str_of ''allow'') t c) = c \<and>
    add_ace q obj (str_of ''allow'') t new_context =
      (AddAccessControlEntry (Principal q) (Object obj) Allow new_context, []) \<and>
    CheckPrivilege_current (Object obj) t (fst (add_ace q obj (str_of ''allow'') t new_context))"
proof -
  let ?c = "AddAccessControlEntry (Principal q) (Object obj) Allow new_context"
  have allow: "parse_access (str_of ''allow'') = Some Allow" by (simp add: parse_access_def)
  have self: "is_self p t" "\<not> is_self q t" using assms by (simp_all add: is_self_def)
  have edit: "add_ace q obj (str_of ''allow'') t new_context = (?c, [])" using self(2) by (simp add: add_ace_def edit_ace_def allow)
  have aces: "m_aces ?c = [(Object obj, \<lparr>ace_object = Object obj, ace_principal = Principal q, ace_type = Allow\<rparr>)]"
    by (simp add: AddAccessControlEntry_def new_context_def)
  have "CheckPrivilege (Principal p) (Object obj) ?c"
    unfolding CheckPrivilege_value ace_applies_def aces covers_def using assms(3) by auto
  then have "CheckPrivilege_current (Object obj) t ?c" using assms(1) by (simp add: CheckPrivilege_current_def)
  with edit self(1) show ?thesis by (simp add: add_ace_def edit_ace_def allow)
qed

theorem self_edit_guard_bypassed_witness:
  "CheckPrivilege_current (Object (str_of ''command.stop''))
    \<lparr>principalStack = [Ref (Principal (str_of ''group.mod''))], principalStackStack = []\<rparr>
    (fst (add_ace (str_of ''GROUP.mod'') (str_of ''command.stop'') (str_of ''allow'')
      \<lparr>principalStack = [Ref (Principal (str_of ''group.mod''))], principalStackStack = []\<rparr> new_context))"
proof -
  let ?t = "\<lparr>principalStack = [Ref (Principal (str_of ''group.mod''))], principalStackStack = []\<rparr>"
  have "fst (add_ace (str_of ''group.mod'') (str_of ''command.stop'') (str_of ''allow'') ?t new_context) = new_context \<and>
    add_ace (str_of ''GROUP.mod'') (str_of ''command.stop'') (str_of ''allow'') ?t new_context =
      (AddAccessControlEntry (Principal (str_of ''GROUP.mod'')) (Object (str_of ''command.stop'')) Allow new_context, []) \<and>
    CheckPrivilege_current (Object (str_of ''command.stop'')) ?t
      (fst (add_ace (str_of ''GROUP.mod'') (str_of ''command.stop'') (str_of ''allow'') ?t new_context))"
    by (rule self_edit_guard_bypassed) (simp, simp_all add: str_of_def fold_case_def to_lower_def)
  then show ?thesis by blast
qed

end
