(* ===== verification/Utf8.thy ===== *)
theory Utf8
  imports Text
begin

text \<open>
  \<open>std::wstring_convert\<close> over \<open>std::codecvt_utf8\<close> with 32-bit characters, as
  \<open>code/client/citicore/console/Console.cpp\<close> and \<open>ProgramArguments.h\<close> use it: \<open>utf8_decode\<close> is
  \<open>from_bytes\<close>, \<open>utf8_encode\<close> is \<open>to_bytes\<close>, and \<open>None\<close> is \<open>std::range_error\<close>. A character is its
  code point.
\<close>

section \<open>Encoding\<close>

definition code_point :: "nat \<Rightarrow> bool" where
  "code_point c \<longleftrightarrow> c < 0x110000 \<and> \<not> (0xD800 \<le> c \<and> c < 0xE000)"

definition encode_char :: "nat \<Rightarrow> str option" where
  "encode_char c =
     (if \<not> code_point c then None
      else if c < 0x80 then Some [of_nat c]
      else if c < 0x800 then Some [of_nat (0xC0 + c div 64), of_nat (0x80 + c mod 64)]
      else if c < 0x10000 then
        Some [of_nat (0xE0 + c div 4096), of_nat (0x80 + c div 64 mod 64), of_nat (0x80 + c mod 64)]
      else
        Some [of_nat (0xF0 + c div 262144), of_nat (0x80 + c div 4096 mod 64), of_nat (0x80 + c div 64 mod 64),
          of_nat (0x80 + c mod 64)])"

fun utf8_encode :: "nat list \<Rightarrow> str option" where
  "utf8_encode [] = Some []"
| "utf8_encode (c # cs) =
     (case (encode_char c, utf8_encode cs) of (Some x, Some y) \<Rightarrow> Some (x @ y) | _ \<Rightarrow> None)"

section \<open>Decoding\<close>

text \<open>How many bytes follow a leading byte, and the bits it contributes.\<close>

definition lead :: "nat \<Rightarrow> (nat \<times> nat) option" where
  "lead a =
     (if a < 0x80 then Some (0, a) else if a < 0xC0 then None else if a < 0xE0 then Some (1, a mod 32)
      else if a < 0xF0 then Some (2, a mod 16) else if a < 0xF8 then Some (3, a mod 8) else None)"

text \<open>Only the encoding of a character is accepted: no overlong form, no surrogate.\<close>

definition decode_char :: "str \<Rightarrow> (nat \<times> nat) option" where
  "decode_char s =
     (case s of
        [] \<Rightarrow> None
      | a # r \<Rightarrow>
          (case lead (unat a) of
             None \<Rightarrow> None
           | Some (n, v) \<Rightarrow>
               let c = foldl (\<lambda>v b. v * 64 + unat b mod 64) v (take n r) in
               if encode_char c = Some (a # take n r) then Some (c, n) else None))"

function utf8_decode :: "str \<Rightarrow> nat list option" where
  "utf8_decode s =
     (if s = [] then Some []
      else case decode_char s of
        None \<Rightarrow> None
      | Some (c, n) \<Rightarrow> map_option (Cons c) (utf8_decode (drop (Suc n) s)))"
  by pat_completeness auto

termination by (relation "measure length") auto

declare utf8_decode.simps [simp del]

lemma utf8_decode_Nil [simp]: "utf8_decode [] = Some []"
  by (simp add: utf8_decode.simps)

section \<open>Decoding inverts encoding\<close>

lemma unat_byte: "x < 256 \<Longrightarrow> unat (of_nat x :: 8 word) = x"
  by (simp add: unat_of_nat take_bit_nat_eq_self)

lemma low_bits:
  "(128 + x) mod 64 = x mod (64 :: nat)"
  "d < 32 \<Longrightarrow> (192 + d) mod 32 = (d :: nat)"
  "d < 16 \<Longrightarrow> (224 + d) mod 16 = (d :: nat)"
  "d < 8 \<Longrightarrow> (240 + d) mod 8 = (d :: nat)"
  using mod_mult_self4[of 64 2 x] mod_mult_self4[of 32 6 d] mod_mult_self4[of 16 14 d] mod_mult_self4[of 8 30 d]
  by simp_all

lemma six_bits:
  "c div 4096 * 64 + c div 64 mod 64 = c div (64 :: nat)"
  "c div 262144 * 64 + c div 4096 mod 64 = c div (4096 :: nat)"
  using div_mult_mod_eq[of "c div 64" 64] div_mult_mod_eq[of "c div 4096" 64]
  by (simp_all add: div_mult2_eq[symmetric])

lemma decode_char_intro:
  assumes "unat a = u" "lead u = Some (length t, v)" "foldl (\<lambda>v b. v * 64 + unat b mod 64) v t = c"
    and "encode_char c = Some (a # t)"
  shows "decode_char ((a # t) @ s) = Some (c, length (a # t) - 1)"
  using assms by (simp add: decode_char_def)

lemma continuation: "unat (of_nat (0x80 + x mod 64) :: 8 word) mod 64 = x mod 64"
proof -
  have "0x80 + x mod 64 < (256 :: nat)" by (rule order_less_trans[of _ "0x80 + 64"]) simp_all
  from unat_byte[OF this] have "unat (of_nat (0x80 + x mod 64) :: 8 word) mod 64 = (0x80 + x mod 64) mod 64" by (rule arg_cong)
  then show ?thesis by (simp only: low_bits mod_mod_trivial)
qed

lemma decode_encoded_char:
  assumes "encode_char c = Some x"
  shows "decode_char (x @ s) = Some (c, length x - 1)" and "x \<noteq> []"
proof -
  have c: "code_point c" using assms by (auto simp: encode_char_def split: if_splits)
  consider "c < 0x80" | "0x80 \<le> c" "c < 0x800" | "0x800 \<le> c" "c < 0x10000" | "0x10000 \<le> c" "c < 0x110000"
    using c by (force simp: code_point_def)
  then have "decode_char (x @ s) = Some (c, length x - 1) \<and> x \<noteq> []"
  proof cases
    case 1
    then have x: "x = [of_nat c]" using assms c by (simp add: encode_char_def)
    then show ?thesis using 1 assms by (simp add: decode_char_def lead_def unat_byte)
  next
    case 2
    let ?d = "c div 64"
    have d: "?d < 32" using 2 by simp
    have x: "x = [of_nat (0xC0 + ?d), of_nat (0x80 + c mod 64)]"
      using assms c 2 by (simp add: encode_char_def)
    have "decode_char (x @ s) = Some (c, length x - 1)" unfolding x
    proof (rule decode_char_intro)
      show "unat (of_nat (0xC0 + ?d) :: 8 word) = 0xC0 + ?d" by (rule unat_byte) (use d in simp)
      show "lead (0xC0 + ?d) = Some (length [of_nat (0x80 + c mod 64) :: 8 word], ?d)"
        using d by (simp add: lead_def low_bits)
    qed (use assms x in \<open>simp_all only: foldl.simps continuation div_mult_mod_eq\<close>)
    then show ?thesis using x by simp
  next
    case 3
    let ?d = "c div 4096"
    have d: "?d < 16" using 3 by simp
    have x: "x = [of_nat (0xE0 + ?d), of_nat (0x80 + c div 64 mod 64), of_nat (0x80 + c mod 64)]"
      using assms c 3 by (simp add: encode_char_def)
    have "decode_char (x @ s) = Some (c, length x - 1)" unfolding x
    proof (rule decode_char_intro)
      show "unat (of_nat (0xE0 + ?d) :: 8 word) = 0xE0 + ?d" by (rule unat_byte) (use d in simp)
      show "lead (0xE0 + ?d) = Some (length [of_nat (0x80 + c div 64 mod 64) :: 8 word, of_nat (0x80 + c mod 64)], ?d)"
        using d by (simp add: lead_def low_bits)
    qed (use assms x in \<open>simp_all only: foldl.simps continuation six_bits div_mult_mod_eq\<close>)
    then show ?thesis using x by simp
  next
    case 4
    let ?d = "c div 262144"
    have d: "?d < 8" using 4 by simp
    have x: "x = [of_nat (0xF0 + ?d), of_nat (0x80 + c div 4096 mod 64),
        of_nat (0x80 + c div 64 mod 64), of_nat (0x80 + c mod 64)]"
      using assms c 4 by (simp add: encode_char_def)
    have "decode_char (x @ s) = Some (c, length x - 1)" unfolding x
    proof (rule decode_char_intro)
      show "unat (of_nat (0xF0 + ?d) :: 8 word) = 0xF0 + ?d" by (rule unat_byte) (use d in simp)
      show "lead (0xF0 + ?d) = Some (length [of_nat (0x80 + c div 4096 mod 64) :: 8 word,
          of_nat (0x80 + c div 64 mod 64), of_nat (0x80 + c mod 64)], ?d)"
        using d by (simp add: lead_def low_bits)
    qed (use assms x in \<open>simp_all only: foldl.simps continuation six_bits div_mult_mod_eq\<close>)
    then show ?thesis using x by simp
  qed
  then show "decode_char (x @ s) = Some (c, length x - 1)" "x \<noteq> []" by auto
qed

lemma utf8_decode_encoded:
  "utf8_encode cs = Some x \<Longrightarrow> utf8_decode (x @ s) = map_option ((@) cs) (utf8_decode s)"
proof (induction cs arbitrary: x)
  case Nil
  then show ?case by (cases "utf8_decode s") auto
next
  case (Cons c cs)
  then obtain y z where y: "encode_char c = Some y" "utf8_encode cs = Some z" "x = y @ z"
    by (auto split: option.splits)
  note d = decode_encoded_char[OF y(1)]
  have "utf8_decode (x @ s) = map_option (Cons c) (utf8_decode (drop (Suc (length y - 1)) (x @ s)))"
    using d(1)[of "z @ s"] d(2) y(3) by (subst utf8_decode.simps) simp
  also have "drop (Suc (length y - 1)) (x @ s) = z @ s" using d(2) y(3) by (cases y) auto
  finally show ?case using Cons.IH[OF y(2)] by (simp add: option.map_comp comp_def)
qed

lemma utf8_roundtrip: "utf8_encode cs = Some x \<Longrightarrow> utf8_decode x = Some cs"
  using utf8_decode_encoded[of cs x "[]"] by simp

lemma utf8_encode_append:
  "utf8_encode (a @ b) = (case (utf8_encode a, utf8_encode b) of (Some x, Some y) \<Rightarrow> Some (x @ y) | _ \<Rightarrow> None)"
  by (induction a) (auto split: option.splits)

lemma utf8_encode_total: "utf8_encode cs \<noteq> None \<longleftrightarrow> (\<forall>c \<in> set cs. code_point c)"
  by (induction cs) (auto simp: encode_char_def split: option.splits if_splits)

text \<open>What is decoded is the encoding of the characters.\<close>

lemma utf8_decode_encode: "utf8_decode x = Some cs \<Longrightarrow> utf8_encode cs = Some x"
proof (induction x arbitrary: cs rule: utf8_decode.induct)
  case (1 s)
  show ?case
  proof (cases "s = []")
    case False
    then obtain c n ds where c: "decode_char s = Some (c, n)" "utf8_decode (drop (Suc n) s) = Some ds" "cs = c # ds"
      using "1.prems" by (subst (asm) utf8_decode.simps) (auto split: option.splits)
    have "utf8_encode ds = Some (drop (Suc n) s)" by (rule "1.IH"[OF False c(1) refl c(2)])
    moreover have "encode_char c = Some (take (Suc n) s)"
      using c(1) by (auto simp: decode_char_def Let_def split: list.splits option.splits prod.splits if_splits)
    ultimately show ?thesis using c(3) by simp
  qed (use "1.prems" in simp)
qed

lemma ascii_encode: "\<forall>b \<in> set s. b < 0x80 \<Longrightarrow> utf8_encode (map unat s) = Some s"
proof (induction s)
  case (Cons b s)
  then have "unat b < 128" by (simp add: word_less_nat_alt)
  then show ?case using Cons by (simp add: encode_char_def code_point_def)
qed simp

end
