(* ===== verification/Console_Tokenizer.thy ===== *)
theory Console_Tokenizer
  imports Utf8 "HOL-Library.Monad_Syntax"
begin

text \<open>
  Command lines: \<open>console::Tokenize\<close> and the splitting of the command buffer in
  \<open>code/client/citicore/console/Console.cpp\<close>, \<open>ProgramArguments.h\<close>, and the process command line of
  \<open>OptionTokenizer.h\<close>.

  The tokenizer's index into \<open>line\<close> is a position: the character before it (\<open>None\<close> at index 0) and
  the rest of the line; the character at the end of a \<open>std::basic_string\<close> is zero. The JSON parser is
  a library: its argument is the rest of the text and its result is how much of it \<open>oss.tellg()\<close>
  reports as read, or \<open>None\<close> for \<open>json::exception\<close>. Its result decides whether the loops end, so they
  are partial functions, and \<open>None\<close> is a loop that does not end or a read behind the end of the line.
  The tokenizer's \<open>int\<close> indices are exact for lines shorter than \<open>2 ^ 31\<close> characters.
\<close>

type_synonym position = "nat option \<times> nat list"

definition next_char :: "nat list \<Rightarrow> nat" where
  "next_char r = (case r of [] \<Rightarrow> 0 | c # _ \<Rightarrow> c)"

section \<open>White space and comments\<close>

fun skip_space :: "nat option \<Rightarrow> nat list \<Rightarrow> position" where
  "skip_space p [] = (p, [])"
| "skip_space p (c # r) = (if c \<le> 32 then skip_space (Some c) r else (p, c # r))"

text \<open>
  The loop that looks for the end of a block comment. It goes on while the character is no star
  \<^emph>\<open>and\<close> the next one is no slash.
\<close>

fun comment_end :: "nat option \<Rightarrow> nat list \<Rightarrow> position option" where
  "comment_end p [] = None"
| "comment_end p (c # r) =
     (if c \<noteq> 42 \<and> next_char r \<noteq> 47 then comment_end (Some c) r else Some (p, c # r))"

text \<open>The position two characters on (nothing is left when that is behind the end).\<close>

definition forward2 :: "nat list \<Rightarrow> position" where
  "forward2 s = (Some (next_char (drop 1 s)), drop 2 s)"

lemma skip_space_length: "length (snd (skip_space p r)) \<le> length r"
  by (induction p r rule: skip_space.induct) auto

lemma comment_end_length: "comment_end p r = Some q \<Longrightarrow> length (snd q) \<le> length r \<and> snd q \<noteq> []"
  by (induction p r rule: comment_end.induct) (auto split: if_splits)

text \<open>The inner loop: \<open>Some None\<close> is the return with the arguments so far.\<close>

function skip_comments :: "nat option \<Rightarrow> nat list \<Rightarrow> position option option" where
  "skip_comments p r =
     (case skip_space p r of
        (p, []) \<Rightarrow> Some None
      | (None, c # r) \<Rightarrow> Some (Some (None, c # r))
      | (Some b, c # r) \<Rightarrow>
          if (c = 47 \<and> next_char r = 47) \<or> c = 35 then Some None
          else if c = 47 \<and> next_char r = 42 then
            (case comment_end (Some b) (c # r) of
               None \<Rightarrow> None
             | Some (q, s) \<Rightarrow> skip_comments (fst (forward2 s)) (snd (forward2 s)))
          else Some (Some (Some b, c # r)))"
  by pat_completeness auto

termination
proof (relation "measure (\<lambda>(p, r). length r)")
  fix p r p' l b c r' q s x
  assume "(p', l) = skip_space p r" "l = c # r'" "comment_end (Some b) (c # r') = Some x" "(q, s) = x"
  then have "length s \<le> length r" "s \<noteq> []"
    using skip_space_length[of p r] comment_end_length[of "Some b" "c # r'" x]
    by (metis snd_conv le_trans)+
  then have "length (drop 2 s) < length r" by (cases s) auto
  then show "((fst (forward2 s), snd (forward2 s)), p, r) \<in> measure (\<lambda>(p, r). length r)"
    by (simp add: forward2_def)
qed auto

declare skip_comments.simps [simp del]

section \<open>Arguments\<close>

definition IsEscapeChar :: "nat \<Rightarrow> bool" where
  "IsEscapeChar c \<longleftrightarrow> c = 34"

text \<open>The loop of a quoted argument, from the character behind the opening quote: the argument and
  the position behind the closing quote.\<close>

fun quoted :: "bool \<Rightarrow> nat option \<Rightarrow> nat list \<Rightarrow> nat list \<times> position" where
  "quoted inEscape p [] = ([], (p, []))"
| "quoted inEscape p (c # r) =
     (if c = 34 \<and> \<not> inEscape then ([], (Some c, r))
      else if c = 92 \<and> IsEscapeChar (next_char r) then quoted True (Some c) r
      else (let (arg, q) = quoted False (Some c) r in (c # arg, q)))"

definition boundary :: "nat option \<Rightarrow> bool" where
  "boundary p \<longleftrightarrow> p = None \<or> p = Some 32 \<or> p = Some 9"

text \<open>The loop of a bare argument; \<open>None\<close> is the return at a comment, which drops the argument.\<close>

fun bare :: "nat option \<Rightarrow> nat list \<Rightarrow> (nat list \<times> position) option" where
  "bare p [] = Some ([], (p, []))"
| "bare p (c # r) =
     (if c \<le> 32 \<or> c = 34 then Some ([], (p, c # r))
      else if boundary p \<and> c = 35 then None
      else if r \<noteq> [] \<and> boundary p \<and> c = 47 \<and> (next_char r = 47 \<or> next_char r = 42) then None
      else map_option (\<lambda>(arg, q). (c # arg, q)) (bare (Some c) r))"

section \<open>The tokenizer\<close>

text \<open>What the body of the outer loop does at the start of an argument.\<close>

datatype token_step = Return "nat list list" | Continue "nat list list" position

definition token_at :: "(nat list \<Rightarrow> nat option) \<Rightarrow> nat option \<Rightarrow> nat list \<Rightarrow> token_step" where
  "token_at json p r =
     (case (if next_char r = 123 \<or> next_char r = 91 then json r else None) of
        Some n \<Rightarrow> Continue [take n r] (if n = 0 then p else Some (next_char (drop (n - 1) r)), drop n r)
      | None \<Rightarrow>
          if next_char r = 34 then
            (case quoted False (Some 34) (drop 1 r) of
               (arg, (q, s)) \<Rightarrow> if s = [] then Return [arg] else Continue [arg] (q, s))
          else
            (case bare p r of
               None \<Rightarrow> Return []
             | Some (arg, (q, s)) \<Rightarrow>
                 let args = (if arg = [] then [] else [arg]) in
                 if s = [] then Return args else Continue args (q, s)))"

partial_function (option) tokens ::
    "(nat list \<Rightarrow> nat option) \<Rightarrow> nat option \<Rightarrow> nat list \<Rightarrow> nat list list \<Rightarrow> nat list list option" where
  "tokens json p r args =
     (case skip_comments p r of
        None \<Rightarrow> None
      | Some None \<Rightarrow> Some args
      | Some (Some (p, r)) \<Rightarrow>
          (case token_at json p r of
             Return xs \<Rightarrow> Some (args @ xs)
           | Continue xs (q, s) \<Rightarrow> tokens json q s (args @ xs)))"

text \<open>\<open>ProgramArguments\<close> converts every argument; one that cannot be converted stays empty.\<close>

definition ProgramArguments_wide :: "nat list list \<Rightarrow> str list" where
  "ProgramArguments_wide args = map (\<lambda>a. case utf8_encode a of None \<Rightarrow> [] | Some x \<Rightarrow> x) args"

definition Tokenize :: "(nat list \<Rightarrow> nat option) \<Rightarrow> str \<Rightarrow> str list option" where
  "Tokenize json lineUtf8 =
     (case utf8_decode lineUtf8 of
        None \<Rightarrow> Some []
      | Some line \<Rightarrow> map_option ProgramArguments_wide (tokens json None line []))"

definition Count :: "str list \<Rightarrow> nat" where
  "Count args = length args"

text \<open>\<open>Shift\<close> on an empty vector reads behind its end.\<close>

definition Shift :: "str list \<Rightarrow> (str \<times> str list) option" where
  "Shift args = (case args of [] \<Rightarrow> None | a # as \<Rightarrow> Some (a, as))"

section \<open>The command buffer\<close>

text \<open>
  The loop of \<open>ExecuteBuffer\<close> that finds the end of a command: its final index. The index may be
  behind the end when the parser says so.
\<close>

partial_function (option) command_end :: "(str \<Rightarrow> nat option) \<Rightarrow> bool \<Rightarrow> str \<Rightarrow> nat option" where
  "command_end json inQuote s =
     (case s of
        [] \<Rightarrow> Some 0
      | c # r \<Rightarrow>
          (case (if \<not> inQuote \<and> (c = 123 \<or> c = 91) then json s else None) of
             Some n \<Rightarrow> do { i \<leftarrow> command_end json inQuote (drop n s); Some (n + i) }
           | None \<Rightarrow>
               let q = (if c = 34 then \<not> inQuote else inQuote) in
               if \<not> q \<and> c = 59 \<or> c = 13 \<or> c = 10 then Some 0
               else do { i \<leftarrow> command_end json q r; Some (i + 1) }))"

definition is_wait :: "(str \<Rightarrow> str) \<Rightarrow> str \<Rightarrow> bool" where
  "is_wait trim_left command \<longleftrightarrow> take 4 (trim_left command) = str_of ''wait''"

text \<open>The loop over the buffer: the commands to execute and what stays in the buffer.\<close>

partial_function (option) split_buffer ::
    "(str \<Rightarrow> nat option) \<Rightarrow> (str \<Rightarrow> str) \<Rightarrow> str \<Rightarrow> (str list \<times> str) option" where
  "split_buffer json trim_left buf =
     (if buf = [] then Some ([], [])
      else do {
        i \<leftarrow> command_end json False buf;
        let command = take i buf;
        let rest = drop (i + 1) buf;
        (if is_wait trim_left command then Some ([command], rest)
         else do {
           (commands, rest) \<leftarrow> split_buffer json trim_left rest;
           Some (command # commands, rest) }) })"

section \<open>The process command line\<close>

text \<open>
  \<open>TokenizeCommandLine\<close> behind the tokenizer of boost, whose tokens are the argument: the commands
  behind a plus sign with their arguments, and the variables set early.
\<close>

definition is_option :: "str \<Rightarrow> bool" where
  "is_option a \<longleftrightarrow> a \<noteq> [] \<and> a ! 0 = 43"

fun option_loop :: "str list \<Rightarrow> str list list \<times> (str \<times> str) list" where
  "option_loop [] = ([], [])"
| "option_loop (argument # rest) =
     (let (argumentBits, setList) = option_loop rest in
      if length argument > 1 \<and> argument ! 0 = 43 then
        if argument = str_of ''+set'' \<and> 2 \<le> length rest then (argumentBits, (rest ! 0, rest ! 1) # setList)
        else ((drop 1 argument # takeWhile (\<lambda>bit. \<not> is_option bit) rest) # argumentBits, setList)
      else (argumentBits, setList))"

definition TokenizeCommandLine :: "str list \<Rightarrow> str list list \<times> (str \<times> str) list" where
  "TokenizeCommandLine boost_tokens = option_loop (filter (\<lambda>opt. opt \<noteq> []) boost_tokens)"

end
