(* ===== verification/Console_Values.thy ===== *)
theory Console_Values
  imports Text
begin

unbundle bit_operations_syntax

text \<open>
  The values of console arguments and variables: \<open>ConsoleArgumentType\<close> and \<open>Constraints\<close> of
  \<open>code/client/citicore/console/Console.Commands.h\<close> and \<open>Console.Variables.h\<close> for \<open>std::string\<close>,
  \<open>int\<close> and \<open>bool\<close>, over the number conversions of the C++ library, \<open>std::stoull\<close> and
  \<open>std::to_string\<close>. \<open>None\<close> is a C++ exception of the conversion.
\<close>

section \<open>Numbers\<close>

definition digit :: "nat \<Rightarrow> 8 word" where
  "digit d = of_nat (48 + d)"

fun show_nat :: "nat \<Rightarrow> str" where
  "show_nat n = (if n < 10 then [digit n] else show_nat (n div 10) @ [digit (n mod 10)])"

declare show_nat.simps [simp del]

definition show_int :: "int \<Rightarrow> str" where
  "show_int i = (if i < 0 then 45 # show_nat (nat (- i)) else show_nat (nat i))"

definition is_digit :: "8 word \<Rightarrow> bool" where
  "is_digit b \<longleftrightarrow> 48 \<le> b \<and> b \<le> 57"

definition is_space :: "8 word \<Rightarrow> bool" where
  "is_space b \<longleftrightarrow> b = 32 \<or> 9 \<le> b \<and> b \<le> 13"

definition digits_value :: "str \<Rightarrow> nat" where
  "digits_value = foldl (\<lambda>n b. 10 * n + (unat b - 48)) 0"

text \<open>An optional sign; a minus sign negates in the unsigned type.\<close>

definition sign :: "str \<Rightarrow> bool \<times> str" where
  "sign s = (case s of [] \<Rightarrow> (False, []) | c # r \<Rightarrow> if c = 45 then (True, r) else if c = 43 then (False, r) else (False, s))"

definition stoull :: "str \<Rightarrow> 64 word option" where
  "stoull s =
     (case sign (dropWhile is_space s) of
        (negative, r) \<Rightarrow>
          let ds = takeWhile is_digit r; n = digits_value ds in
          if ds = [] \<or> 2 ^ 64 \<le> n then None
          else Some (if negative then - of_nat n else of_nat n))"

section \<open>Values\<close>

datatype vtype = String_type | Int_type | Bool_type

datatype val = Str str | Integer "32 word" | Boolean bool

fun type_of :: "val \<Rightarrow> vtype" where
  "type_of (Str _) = String_type"
| "type_of (Integer _) = Int_type"
| "type_of (Boolean _) = Bool_type"

fun Unparse_value :: "val \<Rightarrow> str" where
  "Unparse_value (Str s) = s"
| "Unparse_value (Integer w) = show_int (sint w)"
| "Unparse_value (Boolean b) = (if b then str_of ''true'' else str_of ''false'')"

definition parse_bool :: "str \<Rightarrow> bool" where
  "parse_bool s =
     (if fold_case s = fold_case (str_of ''TRUE'') then True
      else if fold_case s = fold_case (str_of ''FALSE'') then False
      else (case stoull s of None \<Rightarrow> False | Some v \<Rightarrow> v \<noteq> 0))"

fun Parse_value :: "vtype \<Rightarrow> str \<Rightarrow> val option" where
  "Parse_value String_type s = Some (Str s)"
| "Parse_value Int_type s = (case stoull s of None \<Rightarrow> None | Some v \<Rightarrow> Some (Integer (ucast v)))"
| "Parse_value Bool_type s = Some (Boolean (parse_bool s))"

text \<open>\<open>Compare\<close> of \<open>Constraints\<close>: what is printed, or nothing when the value is in range.\<close>

fun value_less :: "val \<Rightarrow> val \<Rightarrow> bool" where
  "value_less (Integer a) (Integer b) \<longleftrightarrow> a <s b"
| "value_less (Boolean a) (Boolean b) \<longleftrightarrow> \<not> a \<and> b"
| "value_less _ _ \<longleftrightarrow> False"

definition Compare :: "val \<Rightarrow> val \<Rightarrow> val \<Rightarrow> str option" where
  "Compare v minValue maxValue =
     (if value_less maxValue v then
        Some (str_of ''Value out of range ('' @ Unparse_value v @ str_of '') - should be at most '' @ Unparse_value maxValue @ [10])
      else if value_less v minValue then
        Some (str_of ''Value out of range ('' @ Unparse_value v @ str_of '') - should be at least '' @ Unparse_value minValue @ [10])
      else None)"

section \<open>Reading back what was printed\<close>

lemma digit_value: "d < 10 \<Longrightarrow> unat (digit d) = 48 + d"
  by (simp add: digit_def unat_of_nat take_bit_nat_eq_self del: of_nat_add)

lemma is_digit_digit: "d < 10 \<Longrightarrow> is_digit (digit d)"
  using digit_value[of d] by (simp add: is_digit_def word_le_nat_alt)

lemma digits_value_snoc: "digits_value (s @ [b]) = 10 * digits_value s + (unat b - 48)"
  by (simp add: digits_value_def)

lemma show_nat_digits: "\<forall>b \<in> set (show_nat n). is_digit b"
  by (induction n rule: show_nat.induct) (subst show_nat.simps, auto simp: is_digit_digit)

lemma show_nat_not_empty: "show_nat n \<noteq> []"
  by (subst show_nat.simps) simp

lemma digits_value_show: "digits_value (show_nat n) = n"
proof (induction n rule: show_nat.induct)
  case (1 n)
  show ?case
  proof (cases "n < 10")
    case True
    then show ?thesis by (subst show_nat.simps) (simp add: digits_value_def digit_value)
  next
    case False
    then have "digits_value (show_nat n) = 10 * (n div 10) + n mod 10"
      using "1.IH" by (subst show_nat.simps) (simp add: digits_value_snoc digit_value)
    then show ?thesis by simp
  qed
qed

lemma stoull_show_nat:
  assumes "n < 2 ^ 64"
  shows "stoull (show_nat n) = Some (of_nat n)" "stoull (45 # show_nat n) = Some (- of_nat n)"
proof -
  obtain b r where s: "show_nat n = b # r" using show_nat_not_empty[of n] by (cases "show_nat n") auto
  have "is_digit b" using show_nat_digits[of n] s by simp
  then have b: "48 \<le> unat b" by (simp add: is_digit_def word_le_nat_alt)
  then have "\<not> is_space b" "b \<noteq> 45" "b \<noteq> 43" by (auto simp: is_space_def word_le_nat_alt)
  then have "sign (dropWhile is_space (show_nat n)) = (False, show_nat n)" by (simp add: s sign_def)
  moreover have ds: "takeWhile is_digit (show_nat n) = show_nat n"
    using show_nat_digits by (simp only: takeWhile_eq_all_conv)
  ultimately show "stoull (show_nat n) = Some (of_nat n)"
    using assms show_nat_not_empty[of n] by (simp add: stoull_def Let_def digits_value_show del: takeWhile_eq_all_conv)
  have "sign (dropWhile is_space (45 # show_nat n)) = (True, show_nat n)" by (simp add: sign_def is_space_def)
  then show "stoull (45 # show_nat n) = Some (- of_nat n)"
    using assms show_nat_not_empty[of n] ds
    by (simp add: stoull_def Let_def digits_value_show del: takeWhile_eq_all_conv)
qed

lemma stoull_show_int: "stoull (show_int (sint (w :: 32 word))) = Some (scast w)"
proof -
  have r: "- (2 ^ 31) \<le> sint w" "sint w < 2 ^ 31"
    using sint_ge[of w] sint_lt[of w] by simp_all
  show ?thesis
  proof (cases "sint w < 0")
    case True
    then have "nat (- sint w) < 2 ^ 64" using r(1) by simp
    from stoull_show_nat(2)[OF this] show ?thesis using True
      by (simp add: show_int_def word_of_int_minus[symmetric] signed_scast_eq)
  next
    case False
    then have "nat (sint w) < 2 ^ 64" using r(2) by simp
    from stoull_show_nat(1)[OF this] show ?thesis using False by (simp add: show_int_def signed_scast_eq)
  qed
qed

lemma ucast_scast: "ucast (scast w :: 64 word) = (w :: 32 word)"
  by (rule bit_word_eqI) (simp add: bit_simps)

lemma fold_true: "fold_case (str_of ''true'') = fold_case (str_of ''TRUE'')"
  "fold_case (str_of ''false'') = fold_case (str_of ''FALSE'')"
  "fold_case (str_of ''FALSE'') \<noteq> fold_case (str_of ''TRUE'')"
  by (simp_all add: fold_case_def str_of_def to_lower_def)

lemma value_read_back: "Parse_value (type_of v) (Unparse_value v) = Some v"
proof (cases v)
  case (Integer w)
  then show ?thesis by (simp add: stoull_show_int ucast_scast)
next
  case (Boolean b)
  then show ?thesis by (cases b) (simp_all add: parse_bool_def fold_true fold_true(3)[symmetric])
qed simp

end
