(* ===== verification/Console.thy ===== *)
theory Console
  imports Prelude Security Console_Tokenizer Console_Values
begin

text \<open>
  The console of \<open>code/client/citicore/console/\<close>: the command manager (\<open>Console.Commands.cpp\<close>), the
  variable manager (\<open>Console.Variables.cpp\<close>, \<open>Console.Variables.h\<close>, \<open>Console.VariableHelpers.h\<close>) and
  the context that owns both (\<open>Console.cpp\<close>).

  Names are compared with \<open>_stricmp\<close>; a map is the list of its entries in iteration order. Variable
  objects live in \<open>objects\<close>; \<open>var_refs\<close> counts the \<open>shared_ptr\<close> owners outside the variable map. A
  context and the contexts it falls back to are a list, and a context is named by its index. A
  handler is the closure the code registers: the built-in ones are modelled, any other is
  \<open>External\<close> and its effect is a parameter. A tracked C++ variable is its current content. \<open>None\<close> is
  the use of an object that does not exist or of a value that was never initialised, a loop that does
  not end, or a command of another component that does not return. Token counters are exact below \<open>2 ^ 31\<close> registrations.
\<close>

section \<open>State\<close>

datatype icase = Icase str

instantiation icase :: preorder
begin

fun less_eq_icase :: "icase \<Rightarrow> icase \<Rightarrow> bool" where
  "Icase a \<le> Icase b \<longleftrightarrow> fold_case a \<le> fold_case b"

fun less_icase :: "icase \<Rightarrow> icase \<Rightarrow> bool" where
  "Icase a < Icase b \<longleftrightarrow> fold_case a < fold_case b"

instance
proof
  fix x y z :: icase
  show "x < y \<longleftrightarrow> x \<le> y \<and> \<not> y \<le> x" by (cases x; cases y) auto
  show "x \<le> x" by (cases x) simp
  show "x \<le> y \<Longrightarrow> y \<le> z \<Longrightarrow> x \<le> z" by (cases x; cases y; cases z) auto
qed

end

fun name_key :: "icase \<Rightarrow> str" where
  "name_key (Icase a) = fold_case a"

interpretation name_keys: multimap name_key
proof unfold_locales
  show "a < b \<longleftrightarrow> name_key a < name_key b" for a b by (cases a; cases b) simp
qed

fun same_name :: "str \<Rightarrow> icase \<Rightarrow> bool" where
  "same_name a (Icase b) \<longleftrightarrow> fold_case b = fold_case a"

datatype handler =
    Wait | Cmdlist
  | Set_command "32 word" | Toggle | Toggle_values | Vstr | Vstr_hold | Vstr_release
  | Get_variable nat | Set_variable nat
  | External nat

record command_entry =
  ce_name :: str
  ce_function :: handler
  ce_token :: nat
  ce_arity :: nat

record var_object =
  m_name :: str
  m_curValue :: val
  m_offlineValue :: "val option"
  m_constraints :: "(val \<times> val) option"
  m_defaultValue :: val
  m_trackingVar :: "val option"
  m_onChangeCallback :: bool
  m_getCommand :: nat
  m_setCommand :: nat

record var_entry =
  ve_name :: str
  ve_flags :: "32 word"
  ve_variable :: nat
  ve_token :: nat

record console =
  commands :: "(icase \<times> command_entry) list"
  command_token :: nat
  m_rawCommand :: str
  variables :: "(icase \<times> var_entry) list"
  variable_token :: nat
  m_suppressReadOnlyWarning :: bool
  objects :: "nat \<rightharpoonup> var_object"
  next_object :: nat
  var_refs :: "nat \<Rightarrow> nat"
  m_commandBuffer :: str
  waitUntil :: int
  m_executing :: bool
  m_variableModifiedFlags :: "32 word"

record world =
  contexts :: "console list"
  acting :: security_thread
  acl :: security_context

datatype console_effect =
    Printf str str
  | PrintWarning str str
  | OnConvarModified str
  | Change_callback nat val
  | FallbackEvent nat str "str list" str
  | Write_file str "str list"

text \<open>
  What the console calls: the JSON parsers, \<open>boost::algorithm::trim_left\<close>, the clock (nanoseconds, one
  reading per call), the build, the names of types, the result of the fallback event, the handlers
  of other components, and the file writer.
\<close>

record console_env =
  json_bytes :: "str \<Rightarrow> nat option"
  json_chars :: "nat list \<Rightarrow> nat option"
  trim_left :: "str \<Rightarrow> str"
  clock :: int
  fxserver :: bool
  argument_name :: "vtype \<Rightarrow> str"
  type_id :: "vtype \<Rightarrow> str"
  fallback_result :: "nat \<Rightarrow> str \<Rightarrow> str list \<Rightarrow> str \<Rightarrow> bool"
  external :: "nat \<Rightarrow> str list \<Rightarrow> str \<Rightarrow> world \<Rightarrow> (bool \<times> str \<times> world \<times> console_effect list) option"
  writer_ok :: bool
  on_save :: "str list"

definition ConVar_None :: "32 word" where "ConVar_None = 0"
definition ConVar_Archive :: "32 word" where "ConVar_Archive = 0x1"
definition ConVar_Modified :: "32 word" where "ConVar_Modified = 0x2"
definition ConVar_ServerInfo :: "32 word" where "ConVar_ServerInfo = 0x4"
definition ConVar_Replicated :: "32 word" where "ConVar_Replicated = 0x8"
definition ConVar_ReadOnly :: "32 word" where "ConVar_ReadOnly = 0x10"

lemmas flag_defs = ConVar_None_def ConVar_Archive_def ConVar_Modified_def ConVar_ServerInfo_def
  ConVar_Replicated_def ConVar_ReadOnly_def

definition c_str :: "str \<Rightarrow> str" where
  "c_str s = takeWhile (\<lambda>b. b \<noteq> 0) s"

fun remove_first :: "('a \<Rightarrow> bool) \<Rightarrow> 'a list \<Rightarrow> 'a list" where
  "remove_first P [] = []"
| "remove_first P (x # xs) = (if P x then xs else x # remove_first P xs)"

section \<open>The command manager\<close>

definition Register_command :: "str \<Rightarrow> handler \<Rightarrow> nat \<Rightarrow> console \<Rightarrow> nat \<times> console" where
  "Register_command name h arity c =
     (let token = command_token c in
      (token, c\<lparr>command_token := token + 1,
        commands := multi_insert (Icase name)
          \<lparr>ce_name = name, ce_function = h, ce_token = token, ce_arity = arity\<rparr> (commands c)\<rparr>))"

definition Unregister_command :: "nat \<Rightarrow> console \<Rightarrow> console" where
  "Unregister_command token c = c\<lparr>commands := remove_first (\<lambda>(_, e). ce_token e = token) (commands c)\<rparr>"

definition equal_range :: "str \<Rightarrow> console \<Rightarrow> command_entry list" where
  "equal_range name c = map snd (filter (\<lambda>(k, _). same_name name k) (commands c))"

definition HasCommand :: "str \<Rightarrow> console \<Rightarrow> bool" where
  "HasCommand name c \<longleftrightarrow> equal_range name c \<noteq> []"

definition ForAllCommands :: "console \<Rightarrow> str list" where
  "ForAllCommands c = map (\<lambda>(k, _). case k of Icase name \<Rightarrow> name) (commands c)"

definition ForAllCommands2 :: "console \<Rightarrow> (str \<times> nat) list" where
  "ForAllCommands2 c = map (\<lambda>(k, e). (case k of Icase name \<Rightarrow> name, ce_arity e)) (commands c)"

definition GetRawCommand :: "console \<Rightarrow> str" where
  "GetRawCommand c = m_rawCommand c"

section \<open>The variable manager\<close>

definition find_entry :: "str \<Rightarrow> console \<Rightarrow> var_entry option" where
  "find_entry name c = map_option snd (List.find (\<lambda>(k, _). same_name name k) (variables c))"

definition FindEntryRaw :: "str \<Rightarrow> console \<Rightarrow> nat option" where
  "FindEntryRaw name c = map_option ve_variable (find_entry name c)"

definition set_object :: "nat \<Rightarrow> var_object \<Rightarrow> console \<Rightarrow> console" where
  "set_object i x c = c\<lparr>objects := (objects c)(i \<mapsto> x)\<rparr>"

text \<open>An object that nothing owns dies, and its destructor unregisters its two commands.\<close>

definition collect_object :: "nat \<Rightarrow> console \<Rightarrow> console" where
  "collect_object i c =
     (case objects c i of
        None \<Rightarrow> c
      | Some x \<Rightarrow>
          if var_refs c i = 0 \<and> i \<notin> (ve_variable \<circ> snd) ` set (variables c) then
            Unregister_command (m_getCommand x) (Unregister_command (m_setCommand x)
              (c\<lparr>objects := (objects c)(i := None)\<rparr>))
          else c)"

definition drop_object :: "nat \<Rightarrow> console \<Rightarrow> console" where
  "drop_object i c = collect_object i (c\<lparr>var_refs := (var_refs c)(i := var_refs c i - 1)\<rparr>)"

definition Register :: "str \<Rightarrow> 32 word \<Rightarrow> nat \<Rightarrow> console \<Rightarrow> nat \<times> console" where
  "Register name flags i c =
     (let token = variable_token c;
          erased = filter (\<lambda>(k, _). same_name name k) (variables c);
          kept = filter (\<lambda>(k, _). \<not> same_name name k) (variables c);
          c = c\<lparr>variable_token := token + 1, variables := multi_insert (Icase name)
            \<lparr>ve_name = name, ve_flags = flags, ve_variable = i, ve_token = token\<rparr> kept\<rparr>
      in (token, fold (\<lambda>(_, e). collect_object (ve_variable e)) erased c))"

definition erase_first :: "(icase \<times> var_entry \<Rightarrow> bool) \<Rightarrow> console \<Rightarrow> console" where
  "erase_first P c =
     (case List.find P (variables c) of
        None \<Rightarrow> c
      | Some (_, e) \<Rightarrow> collect_object (ve_variable e) (c\<lparr>variables := remove_first P (variables c)\<rparr>))"

definition Unregister :: "nat \<Rightarrow> console \<Rightarrow> console" where
  "Unregister token = erase_first (\<lambda>(_, e). ve_token e = token)"

text \<open>The overload on names compares with \<open>==\<close>.\<close>

definition Unregister_name :: "str \<Rightarrow> console \<Rightarrow> console" where
  "Unregister_name name = erase_first (\<lambda>(k, _). k = Icase name)"

definition update_flags :: "str \<Rightarrow> (32 word \<Rightarrow> 32 word) \<Rightarrow> console \<Rightarrow> console" where
  "update_flags name f c =
     c\<lparr>variables := map (\<lambda>(k, e). (k, if same_name name k then e\<lparr>ve_flags := f (ve_flags e)\<rparr> else e)) (variables c)\<rparr>"

definition SetVariableModifiedFlags :: "32 word \<Rightarrow> console \<Rightarrow> console" where
  "SetVariableModifiedFlags flags c = c\<lparr>m_variableModifiedFlags := m_variableModifiedFlags c OR flags\<rparr>"

definition GetEntryFlags :: "str \<Rightarrow> console \<Rightarrow> 32 word" where
  "GetEntryFlags name c = (case find_entry name c of None \<Rightarrow> 0 | Some e \<Rightarrow> ve_flags e)"

definition AddEntryFlags :: "str \<Rightarrow> 32 word \<Rightarrow> console \<Rightarrow> console" where
  "AddEntryFlags name flags c =
     (case find_entry name c of
        None \<Rightarrow> c
      | Some e \<Rightarrow> SetVariableModifiedFlags (ve_flags e OR flags) (update_flags name (\<lambda>f. f OR flags) c))"

definition RemoveEntryFlags :: "str \<Rightarrow> 32 word \<Rightarrow> console \<Rightarrow> console" where
  "RemoveEntryFlags name flags c = update_flags name (\<lambda>f. f AND NOT flags) c"

text \<open>The variables a call of \<open>ForAllVariables\<close> visits; the list is made before the first visit.\<close>

definition ForAllVariables :: "32 word \<Rightarrow> console \<Rightarrow> (str \<times> 32 word \<times> nat) list" where
  "ForAllVariables flagMask c =
     map (\<lambda>(_, e). (ve_name e, ve_flags e, ve_variable e))
       (filter (\<lambda>(_, e). ve_flags e AND flagMask \<noteq> 0 \<or> ve_flags e = 0 \<and> flagMask = - 1) (variables c))"

definition RemoveVariablesWithFlag :: "32 word \<Rightarrow> console \<Rightarrow> console" where
  "RemoveVariablesWithFlag flagMask c =
     fold Unregister (map (\<lambda>(_, e). ve_token e) (filter (\<lambda>(_, e). ve_flags e AND flagMask \<noteq> 0) (variables c))) c"

definition ShouldSuppressReadOnlyWarning :: "bool \<Rightarrow> console \<Rightarrow> console" where
  "ShouldSuppressReadOnlyWarning should c = c\<lparr>m_suppressReadOnlyWarning := should\<rparr>"

section \<open>Variable objects\<close>

definition ConsoleFlagsToString :: "32 word \<Rightarrow> str" where
  "ConsoleFlagsToString flags =
     (if flags AND ConVar_None \<noteq> 0 then str_of ''None '' else []) @
     (if flags AND ConVar_Archive \<noteq> 0 then str_of ''Archive '' else []) @
     (if flags AND ConVar_Modified \<noteq> 0 then str_of ''Modified '' else []) @
     (if flags AND ConVar_ServerInfo \<noteq> 0 then str_of ''ServerInfo '' else []) @
     (if flags AND ConVar_Replicated \<noteq> 0 then str_of ''Replicated '' else []) @
     (if flags AND ConVar_ReadOnly \<noteq> 0 then str_of ''ReadOnly '' else [])"

text \<open>The constructor registers the two commands of the variable; the caller owns the object.\<close>

definition ConsoleVariableEntry :: "str \<Rightarrow> val \<Rightarrow> console \<Rightarrow> nat \<times> console" where
  "ConsoleVariableEntry name v c =
     (let i = next_object c;
          (g, c) = Register_command name (Get_variable i) 0 (c\<lparr>next_object := i + 1\<rparr>);
          (s, c) = Register_command name (Set_variable i) 1 c
      in (i, c\<lparr>var_refs := (var_refs c)(i := 1), objects := (objects c)(i \<mapsto>
          \<lparr>m_name = name, m_curValue = v, m_offlineValue = (if type_of v = String_type then Some (Str []) else None),
           m_constraints = None, m_defaultValue = v, m_trackingVar = None, m_onChangeCallback = False,
           m_getCommand = g, m_setCommand = s\<rparr>)\<rparr>))"

definition SetConstraints :: "val \<Rightarrow> val \<Rightarrow> nat \<Rightarrow> console \<Rightarrow> console option" where
  "SetConstraints minValue maxValue i c =
     (case objects c i of None \<Rightarrow> None | Some x \<Rightarrow> Some (set_object i (x\<lparr>m_constraints := Some (minValue, maxValue)\<rparr>) c))"

text \<open>Tracking starts by writing the value to the tracked variable.\<close>

definition SetTrackingVar :: "bool \<Rightarrow> nat \<Rightarrow> console \<Rightarrow> console option" where
  "SetTrackingVar tracks i c =
     (case objects c i of
        None \<Rightarrow> None
      | Some x \<Rightarrow> Some (set_object i (x\<lparr>m_trackingVar := (if tracks then Some (m_curValue x) else None)\<rparr>) c))"

definition SetChangeCallback :: "bool \<Rightarrow> nat \<Rightarrow> console \<Rightarrow> console option" where
  "SetChangeCallback callback i c =
     (case objects c i of None \<Rightarrow> None | Some x \<Rightarrow> Some (set_object i (x\<lparr>m_onChangeCallback := callback\<rparr>) c))"

definition GetRawValue :: "nat \<Rightarrow> console \<Rightarrow> val option" where
  "GetRawValue i c = map_option m_curValue (objects c i)"

definition GetValue :: "nat \<Rightarrow> console \<Rightarrow> (str \<times> console) option" where
  "GetValue i c =
     (case objects c i of
        None \<Rightarrow> None
      | Some x \<Rightarrow>
          (let x = (case m_trackingVar x of
                None \<Rightarrow> x
              | Some t \<Rightarrow> if t \<noteq> m_curValue x then x\<lparr>m_curValue := t\<rparr> else x)
           in Some (Unparse_value (m_curValue x), set_object i x c)))"

definition MarkConsoleVarModified :: "str \<Rightarrow> console \<Rightarrow> console \<times> console_effect list" where
  "MarkConsoleVarModified name c = (AddEntryFlags name ConVar_Modified c, [OnConvarModified name])"

text \<open>\<open>priv\<close> is \<open>seCheckPrivilege\<close>; the result says whether the value was set.\<close>

definition SetRawValue :: "console_env \<Rightarrow> (str \<Rightarrow> bool) \<Rightarrow> nat \<Rightarrow> val \<Rightarrow> console \<Rightarrow>
    (bool \<times> console \<times> console_effect list) option" where
  "SetRawValue env priv i newValue c =
     (case objects c i of
        None \<Rightarrow> None
      | Some x \<Rightarrow>
          (case (case m_constraints x of None \<Rightarrow> None | Some (lo, hi) \<Rightarrow> Compare newValue lo hi) of
             Some message \<Rightarrow> Some (False, c, [Printf (str_of ''cmd'') message])
           | None \<Rightarrow>
               if \<not> fxserver env \<and> GetEntryFlags (m_name x) c AND ConVar_Replicated \<noteq> 0 \<and>
                  \<not> priv (str_of ''builtin.setReplicated'') then
                 Some (False, c, [Printf (str_of ''cmd'') (str_of ''Cannot set server-replicated ConVar '' @ m_name x @
                   str_of '' from client console.'' @ [10])])
               else
                 let oldValue = m_curValue x;
                     tracking = (case m_trackingVar x of None \<Rightarrow> None | Some _ \<Rightarrow> Some newValue);
                     c = set_object i (x\<lparr>m_curValue := newValue, m_trackingVar := tracking\<rparr>) c;
                     called = (if m_onChangeCallback x then [Change_callback i newValue] else []);
                     (c, marked) = (if oldValue \<noteq> newValue then MarkConsoleVarModified (m_name x) c else (c, []))
                 in Some (True, c, called @ marked)))"

definition read_only_warning :: "str \<Rightarrow> str \<Rightarrow> console_effect" where
  "read_only_warning name hint = PrintWarning (str_of ''cmd'') ([39] @ name @ [39] @ str_of '' is read only. Try using `+set` in the command line'' @ hint @ str_of ''.'' @ [10])"

definition SetValue :: "console_env \<Rightarrow> (str \<Rightarrow> bool) \<Rightarrow> nat \<Rightarrow> str \<Rightarrow> console \<Rightarrow>
    (bool \<times> console \<times> console_effect list) option" where
  "SetValue env priv i s c =
     (case objects c i of
        None \<Rightarrow> None
      | Some x \<Rightarrow>
          if GetEntryFlags (m_name x) c AND ConVar_ReadOnly \<noteq> 0 then
            Some (False, c, if m_suppressReadOnlyWarning c then [] else [read_only_warning (m_name x) []])
          else
            (case Parse_value (type_of (m_curValue x)) s of
               None \<Rightarrow> Some (False, c, [])
             | Some v \<Rightarrow> SetRawValue env priv i v c))"

definition GetOfflineValue :: "nat \<Rightarrow> console \<Rightarrow> str option" where
  "GetOfflineValue i c =
     (case objects c i of None \<Rightarrow> None | Some x \<Rightarrow> map_option Unparse_value (m_offlineValue x))"

definition SaveOfflineValue :: "nat \<Rightarrow> console \<Rightarrow> console option" where
  "SaveOfflineValue i c =
     (case objects c i of None \<Rightarrow> None | Some x \<Rightarrow> Some (set_object i (x\<lparr>m_offlineValue := Some (m_curValue x)\<rparr>) c))"

definition UpdateTrackingVariable :: "console_env \<Rightarrow> (str \<Rightarrow> bool) \<Rightarrow> nat \<Rightarrow> console \<Rightarrow>
    (console \<times> console_effect list) option" where
  "UpdateTrackingVariable env priv i c =
     (case objects c i of
        None \<Rightarrow> None
      | Some x \<Rightarrow>
          (case m_trackingVar x of
             None \<Rightarrow> Some (c, [])
           | Some t \<Rightarrow> if t \<noteq> m_curValue x then map_option snd (SetRawValue env priv i t c) else Some (c, [])))"

text \<open>The returned pointer is an owner. The type of the template argument is that of the default.\<close>

definition CreateVariableEntry :: "console_env \<Rightarrow> (str \<Rightarrow> bool) \<Rightarrow> str \<Rightarrow> val \<Rightarrow> console \<Rightarrow>
    (nat \<times> console \<times> console_effect list) option" where
  "CreateVariableEntry env priv name defaultValue c =
     (case FindEntryRaw name c of
        None \<Rightarrow> (case ConsoleVariableEntry name defaultValue c of (i, c) \<Rightarrow> Some (i, c, []))
      | Some old \<Rightarrow>
          (case objects c old of
             None \<Rightarrow> None
           | Some x \<Rightarrow>
               if type_of (m_curValue x) = type_of defaultValue then
                 Some (old, c\<lparr>var_refs := (var_refs c)(old := var_refs c old + 1)\<rparr>, [])
               else do {
                 (oldValue, c) \<leftarrow> GetValue old c;
                 (let (i, c) = ConsoleVariableEntry name defaultValue c in do {
                    (_, c, out) \<leftarrow> SetValue env priv i oldValue c;
                    Some (i, c, out) }) }))"

text \<open>\<open>ConVar\<close>: its token, and the object it owns.\<close>

record convar =
  m_token :: nat
  m_helper :: nat

definition make_ConVar :: "console_env \<Rightarrow> (str \<Rightarrow> bool) \<Rightarrow> str \<Rightarrow> 32 word \<Rightarrow> val \<Rightarrow> bool \<Rightarrow> bool \<Rightarrow> console \<Rightarrow>
    (convar \<times> console \<times> console_effect list) option" where
  "make_ConVar env priv name flags defaultValue trackingVar changeCallback c = do {
     (helper, c, out) \<leftarrow> CreateVariableEntry env priv name defaultValue c;
     let (token, c) = Register name flags helper c;
     c \<leftarrow> (if trackingVar then SetTrackingVar True helper c else Some c);
     c \<leftarrow> (if changeCallback then SetChangeCallback True helper c else Some c);
     Some (\<lparr>m_token = token, m_helper = helper\<rparr>, c, out) }"

definition destroy_ConVar :: "convar \<Rightarrow> console \<Rightarrow> console" where
  "destroy_ConVar v c = drop_object (m_helper v) (Unregister (m_token v) c)"

section \<open>The built-in handlers\<close>

text \<open>\<open>set\<close>, \<open>seta\<close>, \<open>sets\<close> and \<open>setr\<close>.\<close>

definition setCommand :: "console_env \<Rightarrow> (str \<Rightarrow> bool) \<Rightarrow> 32 word \<Rightarrow> str \<Rightarrow> str \<Rightarrow> console \<Rightarrow>
    (console \<times> console_effect list) option" where
  "setCommand env priv addFlags name s c =
     (case find_entry name c of
        Some e \<Rightarrow> do {
          (_, c, out) \<leftarrow> SetValue env priv (ve_variable e) s c;
          Some (update_flags name (\<lambda>f. f OR addFlags) c, out) }
      | None \<Rightarrow> do {
          (i, c, out) \<leftarrow> CreateVariableEntry env priv name (Str []) c;
          let (_, c) = Register name (ConVar_Modified OR addFlags) i c;
          (_, c, out') \<leftarrow> SetValue env priv i s c;
          Some (drop_object i c, out @ out') })"

definition toggleCommand :: "console_env \<Rightarrow> (str \<Rightarrow> bool) \<Rightarrow> str \<Rightarrow> str \<Rightarrow> str \<Rightarrow> console \<Rightarrow>
    (console \<times> console_effect list) option" where
  "toggleCommand env priv name value1 value2 c =
     (case FindEntryRaw name c of
        None \<Rightarrow> Some (c, [])
      | Some i \<Rightarrow> do {
          (v, c) \<leftarrow> GetValue i c;
          let v = (if v = str_of ''true'' then str_of ''1'' else if v = str_of ''false'' then str_of ''0'' else v);
          (_, c, out) \<leftarrow> SetValue env priv i (if v = value1 then value2 else value1) c;
          Some (c, out) })"

definition AddToBuffer :: "str \<Rightarrow> console \<Rightarrow> console" where
  "AddToBuffer text c = c\<lparr>m_commandBuffer := m_commandBuffer c @ text\<rparr>"

text \<open>\<open>vstr\<close>, \<open>+vstr\<close> and \<open>-vstr\<close> on the name they use.\<close>

definition vstrCommand :: "str \<Rightarrow> console \<Rightarrow> console option" where
  "vstrCommand name c =
     (case FindEntryRaw name c of
        None \<Rightarrow> Some c
      | Some i \<Rightarrow> do { (v, c) \<leftarrow> GetValue i c; Some (AddToBuffer (v @ [10]) c) })"

definition waitCommand :: "console_env \<Rightarrow> int \<Rightarrow> console \<Rightarrow> console" where
  "waitCommand env msec c =
     c\<lparr>waitUntil := (if waitUntil c = 0 then clock env div 1000000 else waitUntil c) + msec\<rparr>"

definition getCommand :: "console_env \<Rightarrow> nat \<Rightarrow> console \<Rightarrow> (console \<times> console_effect list) option" where
  "getCommand env i c = do {
     (v, c) \<leftarrow> GetValue i c;
     x \<leftarrow> objects c i;
     Some (c, [Printf (str_of ''cmd'')
       (str_of '' '' @ [34] @ c_str (m_name x) @ [34] @ str_of '' is '' @ [34] @ c_str v @ [34, 10] @
        str_of '' default: '' @ [34] @ c_str (Unparse_value (m_defaultValue x)) @ [34] @ str_of '' - flags( '' @
        ConsoleFlagsToString (GetEntryFlags (m_name x) c) @ str_of '')'' @ [10] @
        str_of '' type: '' @ argument_name env (type_of (m_curValue x)) @ [10])]) }"

text \<open>The suppression compares the current value with itself.\<close>

definition setVariableCommand :: "console_env \<Rightarrow> (str \<Rightarrow> bool) \<Rightarrow> nat \<Rightarrow> val \<Rightarrow> console \<Rightarrow>
    (console \<times> console_effect list) option" where
  "setVariableCommand env priv i newValue c =
     (case objects c i of
        None \<Rightarrow> None
      | Some x \<Rightarrow>
          if GetEntryFlags (m_name x) c AND ConVar_ReadOnly \<noteq> 0 then
            Some (c, if \<not> m_suppressReadOnlyWarning c \<or> m_curValue x \<noteq> m_curValue x
              then [read_only_warning (m_name x) (str_of '', or prefixing the command with `set` in the server startup script'')]
              else [])
          else map_option snd (SetRawValue env priv i newValue c))"

text \<open>The constructor of a context: the variable manager registers its commands first.\<close>

definition new_console :: "console_env \<Rightarrow> console" where
  "new_console env =
     (let register = (\<lambda>(name, h, arity) c. snd (Register_command (str_of name) h arity c)) in
      fold register
        ([(''set'', Set_command ConVar_None, 2), (''seta'', Set_command ConVar_Archive, 2)] @
         (if fxserver env then [(''sets'', Set_command ConVar_ServerInfo, 2)] else []) @
         [(''setr'', Set_command ConVar_Replicated, 2), (''toggle'', Toggle, 1), (''toggle'', Toggle_values, 3),
          (''vstr'', Vstr, 1), (''+vstr'', Vstr_hold, 2), (''-vstr'', Vstr_release, 2), (''wait'', Wait, 1),
          (''cmdlist'', Cmdlist, 0)])
        \<lparr>commands = [], command_token = 0, m_rawCommand = [], variables = [], variable_token = 0,
         m_suppressReadOnlyWarning = False, objects = Map.empty, next_object = 0, var_refs = (\<lambda>_. 0),
         m_commandBuffer = [], waitUntil = 0, m_executing = False, m_variableModifiedFlags = 0\<rparr>)"

section \<open>Invocation\<close>

definition seCheckPrivilege :: "world \<Rightarrow> str \<Rightarrow> bool" where
  "seCheckPrivilege w name = CheckPrivilege_current (Object name) (acting w) (acl w)"

definition on_context :: "nat \<Rightarrow> (console \<Rightarrow> (console \<times> console_effect list) option) \<Rightarrow> world \<Rightarrow>
    (world \<times> console_effect list) option" where
  "on_context k f w =
     (if k < length (contexts w) then do {
        (c, out) \<leftarrow> f (contexts w ! k);
        Some (w\<lparr>contexts := (contexts w)[k := c]\<rparr>, out) }
      else None)"

definition silent :: "(console \<Rightarrow> console) \<Rightarrow> console \<Rightarrow> (console \<times> console_effect list) option" where
  "silent f c = Some (f c, [])"

text \<open>\<open>cmdlist\<close>: the names of both contexts, each once, and one line for each that is allowed.\<close>

fun insert_name :: "str \<Rightarrow> str list \<Rightarrow> str list" where
  "insert_name a [] = [a]"
| "insert_name a (b # bs) =
     (if fold_case a = fold_case b then b # bs else if fold_case a < fold_case b then a # b # bs
      else b # insert_name a bs)"

definition list_line :: "nat \<Rightarrow> str \<Rightarrow> world \<Rightarrow> (world \<times> console_effect list) option" where
  "list_line k name w =
     (if \<not> seCheckPrivilege w (str_of ''command.'' @ name) then Some (w, [])
      else
        let show = (\<lambda>i c. do {
              (v, c) \<leftarrow> GetValue i c;
              Some (c, [Printf (str_of ''CmdSystem'') (name @ str_of '' = '' @ v @ str_of ''^7'' @ [10])]) })
        in case FindEntryRaw name (contexts w ! k) of
             Some i \<Rightarrow> on_context k (show i) w
           | None \<Rightarrow>
               (case (if k + 1 < length (contexts w) then FindEntryRaw name (contexts w ! (k + 1)) else None) of
                  Some i \<Rightarrow> on_context (k + 1) (show i) w
                | None \<Rightarrow> Some (w, [Printf (str_of ''CmdSystem'') (name @ [10])])))"

definition cmdlistCommand :: "nat \<Rightarrow> world \<Rightarrow> (world \<times> console_effect list) option" where
  "cmdlistCommand k w =
     (let names = ForAllCommands (contexts w ! k) @
            (if k + 1 < length (contexts w) then ForAllCommands (contexts w ! (k + 1)) else [])
      in each (list_line k) (fold insert_name names []) w)"

fun arity :: "handler \<Rightarrow> nat" where
  "arity Wait = 1" | "arity Cmdlist = 0" | "arity (Set_command _) = 2" | "arity Toggle = 1"
| "arity Toggle_values = 3" | "arity Vstr = 1" | "arity Vstr_hold = 2" | "arity Vstr_release = 2"
| "arity (Get_variable _) = 0" | "arity (Set_variable _) = 1" | "arity (External _) = 0"

text \<open>The body of a built-in handler, once its arguments have been converted.\<close>

fun handle :: "console_env \<Rightarrow> nat \<Rightarrow> handler \<Rightarrow> str list \<Rightarrow> val \<Rightarrow> world \<Rightarrow>
    (world \<times> console_effect list) option" where
  "handle env k Wait args v w = on_context k (silent (waitCommand env (case v of Integer m \<Rightarrow> sint m | _ \<Rightarrow> 0))) w"
| "handle env k Cmdlist args v w = cmdlistCommand k w"
| "handle env k (Set_command flags) args v w =
     on_context k (setCommand env (seCheckPrivilege w) flags (args ! 0) (args ! 1)) w"
| "handle env k Toggle args v w =
     on_context k (toggleCommand env (seCheckPrivilege w) (args ! 0) (str_of ''1'') (str_of ''0'')) w"
| "handle env k Toggle_values args v w =
     on_context k (toggleCommand env (seCheckPrivilege w) (args ! 0) (args ! 1) (args ! 2)) w"
| "handle env k Vstr args v w = on_context k (\<lambda>c. map_option (\<lambda>c. (c, [])) (vstrCommand (args ! 0) c)) w"
| "handle env k Vstr_hold args v w = on_context k (\<lambda>c. map_option (\<lambda>c. (c, [])) (vstrCommand (args ! 0) c)) w"
| "handle env k Vstr_release args v w = on_context k (\<lambda>c. map_option (\<lambda>c. (c, [])) (vstrCommand (args ! 1) c)) w"
| "handle env k (Get_variable i) args v w = on_context k (getCommand env i) w"
| "handle env k (Set_variable i) args v w = on_context k (setVariableCommand env (seCheckPrivilege w) i v) w"
| "handle env k (External e) args v w = Some (w, [])"

text \<open>The type the only converted argument of a handler has, if it is not a string.\<close>

definition converted :: "handler \<Rightarrow> console \<Rightarrow> vtype option" where
  "converted h c =
     (case h of
        Wait \<Rightarrow> Some Int_type
      | Set_variable i \<Rightarrow> map_option (type_of \<circ> m_curValue) (objects c i)
      | _ \<Rightarrow> Some String_type)"

text \<open>\<open>Call\<close> of \<open>ConsoleCommandFunction\<close>: the number of arguments, their conversion, the function.
  The string is what is in the error buffer afterwards.\<close>

definition Call :: "console_env \<Rightarrow> nat \<Rightarrow> handler \<Rightarrow> str list \<Rightarrow> str \<Rightarrow> world \<Rightarrow>
    (bool \<times> str \<times> world \<times> console_effect list) option" where
  "Call env k h args contextRef w =
     (case h of
        External e \<Rightarrow> external env e args contextRef w
      | _ \<Rightarrow>
          if arity h \<noteq> length args then
            Some (False, str_of ''Argument count mismatch (passed '' @ show_nat (length args) @ str_of '', wanted '' @
              show_nat (arity h) @ str_of '')'' @ [10], w, [])
          else do {
            type \<leftarrow> converted h (contexts w ! k);
            (case Parse_value type (if args = [] then [] else args ! 0) of
               None \<Rightarrow> Some (False, str_of ''Could not convert argument 0 ('' @ args ! 0 @ str_of '') to '' @
                 type_id env type @ [10], w, [])
             | Some v \<Rightarrow> do {
                 (w, out) \<leftarrow> handle env k h args v w;
                 Some (True, [], w, out) }) })"

text \<open>The overloads in the order of their registration, until one accepts the arguments.\<close>

fun attempts :: "console_env \<Rightarrow> nat \<Rightarrow> handler list \<Rightarrow> str list \<Rightarrow> str \<Rightarrow> str \<Rightarrow> world \<Rightarrow>
    (bool \<times> str \<times> world \<times> console_effect list) option" where
  "attempts env k [] args contextRef err w = Some (False, err, w, [])"
| "attempts env k (h # hs) args contextRef err w = do {
     (ok, err, w, out) \<leftarrow> Call env k h args contextRef w;
     (if ok then Some (True, err, w, out)
      else do {
        (ok, err, w, out') \<leftarrow> attempts env k hs args contextRef err w;
        Some (ok, err, w, out @ out') }) }"

definition set_raw :: "nat \<Rightarrow> str \<Rightarrow> world \<Rightarrow> world" where
  "set_raw k raw w = w\<lparr>contexts := (contexts w)[k := (contexts w ! k)\<lparr>m_rawCommand := raw\<rparr>]\<rparr>"

function InvokeDirect :: "console_env \<Rightarrow> nat \<Rightarrow> str \<Rightarrow> str list \<Rightarrow> str \<Rightarrow> world \<Rightarrow>
    (world \<times> console_effect list) option" where
  "InvokeDirect env k commandName args executionContext w =
     (let functions = map ce_function (equal_range commandName (contexts w ! k)) in
      if functions = [] then
        let event = FallbackEvent k commandName args executionContext in
        if \<not> fallback_result env k commandName args executionContext then Some (w, [event])
        else if k + 1 < length (contexts w) then do {
          (w, out) \<leftarrow> InvokeDirect env (k + 1) commandName args executionContext
            (set_raw (k + 1) (m_rawCommand (contexts w ! k)) w);
          Some (w, event # out) }
        else Some (w, event # (if executionContext = [] then
          [Printf (str_of ''cmdsys'') (str_of ''No such command '' @ c_str commandName @ str_of ''.'' @ [10])] else []))
      else if \<not> seCheckPrivilege w (str_of ''command.'' @ commandName) then
        Some (w, [Printf (str_of ''cmd'') (str_of ''Access denied for command '' @ commandName @ str_of ''.'' @ [10])])
      else do {
        (ok, err, w, out) \<leftarrow> attempts env k functions args executionContext [] w;
        Some (w, out @ (if ok then [] else [Printf (str_of ''cmd'') (c_str err)])) })"
  by pat_completeness auto

termination
  by (relation "measure (\<lambda>(env, k, name, args, ctx, w). length (contexts w) - k)") (auto simp: set_raw_def)

declare InvokeDirect.simps [simp del]

lemma InvokeDirect_next:
  "equal_range name (contexts w ! k) = [] \<Longrightarrow> fallback_result env k name args ctx \<Longrightarrow> k + 1 < length (contexts w) \<Longrightarrow>
    InvokeDirect env k name args ctx w = map_option (\<lambda>(w, out). (w, FallbackEvent k name args ctx # out))
      (InvokeDirect env (k + 1) name args ctx (set_raw (k + 1) (m_rawCommand (contexts w ! k)) w))"
  by (subst InvokeDirect.simps)
    (cases "InvokeDirect env (k + 1) name args ctx (set_raw (k + 1) (m_rawCommand (contexts w ! k)) w)", auto simp: Let_def)

lemma InvokeDirect_stop:
  "equal_range name (contexts w ! k) = [] \<Longrightarrow> \<not> (fallback_result env k name args ctx \<and> k + 1 < length (contexts w)) \<Longrightarrow>
    InvokeDirect env k name args ctx w = Some (w, FallbackEvent k name args ctx #
      (if fallback_result env k name args ctx \<and> ctx = [] then
        [Printf (str_of ''cmdsys'') (str_of ''No such command '' @ c_str name @ str_of ''.'' @ [10])] else []))"
  by (subst InvokeDirect.simps) (simp add: Let_def)

lemma InvokeDirect_denied:
  "equal_range name (contexts w ! k) \<noteq> [] \<Longrightarrow> \<not> seCheckPrivilege w (str_of ''command.'' @ name) \<Longrightarrow>
    InvokeDirect env k name args ctx w = Some (w, [Printf (str_of ''cmd'')
      (str_of ''Access denied for command '' @ name @ str_of ''.'' @ [10])])"
  by (subst InvokeDirect.simps) (simp add: Let_def)

lemma InvokeDirect_found:
  "equal_range name (contexts w ! k) \<noteq> [] \<Longrightarrow> seCheckPrivilege w (str_of ''command.'' @ name) \<Longrightarrow>
    InvokeDirect env k name args ctx w =
      map_option (\<lambda>(ok, err, w, out). (w, out @ (if ok then [] else [Printf (str_of ''cmd'') (c_str err)])))
        (attempts env k (map ce_function (equal_range name (contexts w ! k))) args ctx [] w)"
  by (subst InvokeDirect.simps)
    (cases "attempts env k (map ce_function (equal_range name (contexts w ! k))) args ctx [] w", auto simp: Let_def)

definition Invoke :: "console_env \<Rightarrow> nat \<Rightarrow> str \<Rightarrow> str \<Rightarrow> world \<Rightarrow> (world \<times> console_effect list) option" where
  "Invoke env k commandString executionContext w = do {
     arguments \<leftarrow> Tokenize (json_chars env) commandString;
     (if Count arguments = 0 then Some (w, [])
      else do {
        (command, arguments) \<leftarrow> Shift arguments;
        (w, out) \<leftarrow> InvokeDirect env k command arguments executionContext (set_raw k commandString w);
        Some (set_raw k [] w, out) }) }"

section \<open>The context\<close>

definition ExecuteSingleCommand :: "console_env \<Rightarrow> nat \<Rightarrow> str \<Rightarrow> world \<Rightarrow> (world \<times> console_effect list) option" where
  "ExecuteSingleCommand env k command w = Invoke env k command [] w"

definition ExecuteSingleCommandDirect :: "console_env \<Rightarrow> nat \<Rightarrow> str list \<Rightarrow> world \<Rightarrow>
    (world \<times> console_effect list) option" where
  "ExecuteSingleCommandDirect env k arguments w =
     (if Count arguments = 0 then Some (w, [])
      else do {
        (command, localArgs) \<leftarrow> Shift arguments;
        InvokeDirect env k command localArgs [] w })"

definition waiting :: "console_env \<Rightarrow> console \<Rightarrow> bool" where
  "waiting env c \<longleftrightarrow> waitUntil c \<noteq> 0 \<and> clock env \<le> waitUntil c * 1000000"

definition ExecuteBuffer :: "console_env \<Rightarrow> nat \<Rightarrow> world \<Rightarrow> (world \<times> console_effect list) option" where
  "ExecuteBuffer env k w =
     (if waiting env (contexts w ! k) then Some (w, [])
      else do {
        (toExecute, rest) \<leftarrow> split_buffer (json_bytes env) (trim_left env) (m_commandBuffer (contexts w ! k));
        (w, out) \<leftarrow> on_context k (silent (\<lambda>c. c\<lparr>waitUntil := 0, m_commandBuffer := rest, m_executing := True\<rparr>)) w;
        (w, out) \<leftarrow> each (ExecuteSingleCommand env k) toExecute w;
        (w, _) \<leftarrow> on_context k (silent (\<lambda>c. c\<lparr>m_executing := False\<rparr>)) w;
        Some (w, out) })"

definition IsBufferEmpty :: "console \<Rightarrow> bool" where
  "IsBufferEmpty c \<longleftrightarrow> m_commandBuffer c = [] \<and> \<not> m_executing c"

section \<open>Saving the variables\<close>

definition save_line :: "str \<Rightarrow> str \<Rightarrow> str" where
  "save_line name v = str_of ''seta '' @ [34] @ name @ [34, 32, 34] @ v @ [34]"

fun save_lines :: "(str \<times> 32 word \<times> nat) list \<Rightarrow> console \<Rightarrow> (str list \<times> console) option" where
  "save_lines [] c = Some ([], c)"
| "save_lines ((name, flags, i) # es) c = do {
     (v, c) \<leftarrow> (if flags AND ConVar_Replicated \<noteq> 0 then map_option (\<lambda>v. (v, c)) (GetOfflineValue i c)
       else GetValue i c);
     (ls, c) \<leftarrow> save_lines es c;
     Some (save_line name v # ls, c) }"

definition SaveConfiguration_variables :: "console \<Rightarrow> (str list \<times> console) option" where
  "SaveConfiguration_variables c = save_lines (ForAllVariables ConVar_Archive c) c"

text \<open>Every line is written with a carriage return and a line feed behind it.\<close>

definition SaveConfiguration :: "console_env \<Rightarrow> str \<Rightarrow> console \<Rightarrow> (console \<times> console_effect list) option" where
  "SaveConfiguration env path c =
     (if \<not> writer_ok env then Some (c, [])
      else do {
        (ls, c) \<leftarrow> SaveConfiguration_variables c;
        Some (c, [Write_file path (map (\<lambda>l. l @ [13, 10]) (str_of ''// generated by CitizenFX'' # on_save env @ ls))]) })"

text \<open>The two static variables of \<open>SaveConfigurationIfNeeded\<close>.\<close>

record save_state =
  lastCheck :: int
  wasSavedBefore :: bool

definition SaveConfigurationIfNeeded :: "console_env \<Rightarrow> (str \<Rightarrow> bool) \<Rightarrow> str \<Rightarrow> save_state \<Rightarrow> console \<Rightarrow>
    (save_state \<times> console \<times> console_effect list) option" where
  "SaveConfigurationIfNeeded env priv path st c =
     (let now = clock env div 1000000; check = now - lastCheck st > 2500 in do {
        (c, out) \<leftarrow> (if check
          then each (\<lambda>(_, _, i). UpdateTrackingVariable env priv i) (ForAllVariables (- 1) c) c
          else Some (c, []));
        let st = (if check then st\<lparr>lastCheck := now\<rparr> else st);
        (if \<not> wasSavedBefore st \<or> m_variableModifiedFlags c AND ConVar_Archive \<noteq> 0 then do {
           (c, out') \<leftarrow> SaveConfiguration env path c;
           Some (st\<lparr>wasSavedBefore := True\<rparr>,
             c\<lparr>m_variableModifiedFlags := m_variableModifiedFlags c AND NOT ConVar_Archive\<rparr>, out @ out') }
         else Some (st, c, out)) })"

end
