(* ===== verification/Console_Text_Properties.thy ===== *)
theory Console_Text_Properties
  imports Console_Tokenizer
begin

text \<open>
  What the text side of the console guarantees: both scanning loops end and stay inside the text, a
  line of quoted arguments is read back exactly, the buffer is cut into its commands without loss, and
  block comments are not skipped.
\<close>

section \<open>Termination\<close>

text \<open>What a JSON parser that succeeded has done: read something, and only what was there.\<close>

definition json_ok :: "('c list \<Rightarrow> nat option) \<Rightarrow> bool" where
  "json_ok json \<longleftrightarrow> (\<forall>s n. json s = Some n \<longrightarrow> 0 < n \<and> n \<le> length s)"

lemma json_okD: "json_ok json \<Longrightarrow> json s = Some n \<Longrightarrow> 0 < n \<and> n \<le> length s"
  by (auto simp: json_ok_def)

lemma skip_comments_unfold:
  assumes "skip_space p r = (q, s)"
  shows "skip_comments p r =
    (if s = [] then Some None
     else if q \<noteq> None \<and> (next_char s = 47 \<and> next_char (drop 1 s) = 47 \<or> next_char s = 35) then Some None
     else if q \<noteq> None \<and> next_char s = 47 \<and> next_char (drop 1 s) = 42
       then skip_comments (Some (next_char (drop 2 s))) (drop 3 s)
     else Some (Some (q, s)))"
proof (cases "q \<noteq> None \<and> next_char s = 47 \<and> next_char (drop 1 s) = 42")
  case True
  then obtain b u where "q = Some b" "s = 47 # 42 # u"
    by (cases s; cases "tl s") (auto simp: next_char_def)
  then show ?thesis using assms
    by (subst skip_comments.simps) (simp add: next_char_def forward2_def split: list.split)
next
  case False
  then show ?thesis using assms
    by (subst skip_comments.simps) (cases q; cases s; auto simp: next_char_def)
qed

lemma block_comment:
  "skip_comments (Some b) (47 # 42 # r) = skip_comments (Some (next_char r)) (drop 1 r)"
  by (subst skip_comments_unfold[where q = "Some b" and s = "47 # 42 # r"])
    (simp_all add: next_char_def)

lemma skip_space_stops: "skip_space p r = (q, c # t) \<Longrightarrow> 32 < c"
  by (induction p r rule: skip_space.induct) (auto split: if_splits)

text \<open>The inner loop ends; it stops at a character that is no white space, or at the end.\<close>

lemma skip_comments_result:
  "\<exists>x. skip_comments p r = Some x \<and>
    (case x of None \<Rightarrow> True | Some (q, s) \<Rightarrow> s \<noteq> [] \<and> length s \<le> length r \<and> 32 < next_char s)"
proof (induction "length r" arbitrary: p r rule: less_induct)
  case less
  obtain q s where s: "skip_space p r = (q, s)" by force
  have len: "length s \<le> length r" using skip_space_length[of p r] s by simp
  show ?case
  proof (cases "s \<noteq> [] \<and> q \<noteq> None \<and> next_char s = 47 \<and> next_char (drop 1 s) = 42")
    case True
    then have "skip_comments p r = skip_comments (Some (next_char (drop 2 s))) (drop 3 s)"
      using skip_comments_unfold[OF s] by simp
    moreover have "length (drop 3 s) < length r" using len True by (cases s) auto
    ultimately show ?thesis
      using less[of "drop 3 s" "Some (next_char (drop 2 s))"] by (fastforce split: option.splits)
  next
    case False
    moreover have "s = [] \<or> 32 < next_char s"
      using skip_space_stops[of p r q] s by (cases s) (auto simp: next_char_def)
    ultimately show ?thesis using skip_comments_unfold[OF s] len by auto
  qed
qed

lemma quoted_length: "length (snd (snd (quoted e p r))) \<le> length r"
  by (induction e p r rule: quoted.induct) (auto split: prod.splits)

lemma bare_length: "bare p r = Some (a, q, s) \<Longrightarrow> length a + length s = length r"
  by (induction p r arbitrary: a rule: bare.induct) (auto split: if_splits)

lemma bare_progress:
  "bare p (c # r) = Some (a, q, s) \<Longrightarrow> 32 < c \<Longrightarrow> c \<noteq> 34 \<Longrightarrow> a \<noteq> []"
  by (auto split: if_splits)

lemma token_progress:
  assumes "json_ok json" "token_at json p r = Continue xs (q, s)" "r \<noteq> []" "32 < next_char r"
  shows "length s < length r"
proof -
  obtain c t where r: "r = c # t" using assms(3) by (cases r) auto
  show ?thesis
  proof (cases "if next_char r = 123 \<or> next_char r = 91 then json r else None")
    case (Some n)
    then have "0 < n" "s = drop n r"
      using assms(2) json_okD[OF assms(1), of r n] by (auto simp: token_at_def split: if_splits)
    then show ?thesis using r by simp
  next
    case None
    then show ?thesis
    proof (cases "next_char r = 34")
      case True
      then have "s = snd (snd (quoted False (Some 34) (drop 1 r)))"
        using None assms(2) by (auto simp: token_at_def split: prod.splits if_splits)
      then show ?thesis using quoted_length[of False "Some 34" "drop 1 r"] r by simp
    next
      case False
      then obtain a where a: "bare p r = Some (a, q, s)"
        using None assms(2) by (auto simp: token_at_def Let_def split: option.splits if_splits)
      moreover have "a \<noteq> []"
        using bare_progress[of p c t a q s] a False assms(4) r by (simp add: next_char_def)
      ultimately show ?thesis using bare_length[OF a] by (cases a) auto
    qed
  qed
qed

lemma tokens_total:
  assumes "json_ok json"
  shows "\<exists>args'. tokens json p r args = Some args'"
proof (induction "length r" arbitrary: p r args rule: less_induct)
  case less
  obtain x where x: "skip_comments p r = Some x"
    "case x of None \<Rightarrow> True | Some (q, s) \<Rightarrow> s \<noteq> [] \<and> length s \<le> length r \<and> 32 < next_char s"
    using skip_comments_result by blast
  show ?case
  proof (cases x)
    case None
    then show ?thesis using x by (subst tokens.simps) simp
  next
    case (Some y)
    obtain q s where y: "y = (q, s)" by force
    have s: "s \<noteq> []" "length s \<le> length r" "32 < next_char s"
      using x Some y by auto
    show ?thesis
    proof (cases "token_at json q s")
      case (Return xs)
      then show ?thesis using x Some y by (subst tokens.simps) simp
    next
      case (Continue xs z)
      obtain q' s' where z: "z = (q', s')" by force
      have "length s' < length r"
        using token_progress[OF assms _ s(1,3), of q xs q' s'] Continue z s(2) by simp
      then show ?thesis using less[of s' q' "args @ xs"] x Some y Continue z by (subst tokens.simps) simp
    qed
  qed
qed

lemma command_end_total:
  assumes "json_ok json"
  shows "\<exists>i. command_end json q s = Some i \<and> i \<le> length s \<and> (i < length s \<longrightarrow> s ! i \<in> {59, 13, 10})"
proof (induction "length s" arbitrary: q s rule: less_induct)
  case less
  show ?case
  proof (cases s)
    case Nil
    then show ?thesis by (subst command_end.simps) simp
  next
    case (Cons c r)
    show ?thesis
    proof (cases "if \<not> q \<and> (c = 123 \<or> c = 91) then json s else None")
      case (Some n)
      then have n: "0 < n" "n \<le> length s" using json_okD[OF assms, of s n] by (auto split: if_splits)
      obtain i where i: "command_end json q (drop n s) = Some i" "i \<le> length (drop n s)"
        "i < length (drop n s) \<longrightarrow> drop n s ! i \<in> {59, 13, 10}"
        using less[of "drop n s" q] n Cons by auto
      have "command_end json q s = Some (n + i)"
        using Some i(1) Cons by (subst command_end.simps) simp
      then show ?thesis using i(2,3) n by (auto simp: add.commute)
    next
      case None
      let ?q = "if c = 34 then \<not> q else q"
      show ?thesis
      proof (cases "\<not> ?q \<and> c = 59 \<or> c = 13 \<or> c = 10")
        case True
        then have "command_end json q s = Some 0"
          using None Cons by (subst command_end.simps) (auto simp: Let_def)
        then show ?thesis using True Cons by auto
      next
        case False
        obtain i where i: "command_end json ?q r = Some i" "i \<le> length r" "i < length r \<longrightarrow> r ! i \<in> {59, 13, 10}"
          using less[of r ?q] Cons by auto
        have "command_end json q s = Some (i + 1)"
          using None False i(1) Cons by (subst command_end.simps) (simp add: Let_def)
        then show ?thesis using i(2,3) Cons by auto
      qed
    qed
  qed
qed

section \<open>Quoting\<close>

text \<open>A quoted argument: quotes are escaped, nothing else is. Lines of such arguments.\<close>

fun escape :: "nat list \<Rightarrow> nat list" where
  "escape [] = []"
| "escape (c # cs) = (if c = 34 then [92, 34] else [c]) @ escape cs"

definition quote_arg :: "nat list \<Rightarrow> nat list" where
  "quote_arg a = 34 # escape a @ [34]"

fun arg_line :: "nat list list \<Rightarrow> nat list" where
  "arg_line [] = []"
| "arg_line [a] = quote_arg a"
| "arg_line (a # as) = quote_arg a @ 32 # arg_line as"

definition quotable :: "nat list \<Rightarrow> bool" where
  "quotable a \<longleftrightarrow> a = [] \<or> last a \<noteq> 92"

lemma escape_next: "a \<noteq> [] \<Longrightarrow> next_char (escape a @ r) \<noteq> 34"
  by (cases a) (auto simp: next_char_def)

lemma quoted_escape:
  "quotable a \<Longrightarrow> quoted False p (escape a @ 34 # r) = (a, (Some 34, r))"
proof (induction a arbitrary: p)
  case (Cons c cs)
  have cs: "quotable cs" using Cons.prems by (auto simp: quotable_def split: if_splits)
  note IH = Cons.IH[OF cs]
  show ?case
  proof (cases "c = 92")
    case True
    then have "cs \<noteq> []" using Cons.prems by (auto simp: quotable_def)
    then show ?thesis using True IH escape_next by (simp add: IsEscapeChar_def)
  qed (use IH in \<open>auto simp: IsEscapeChar_def next_char_def\<close>)
qed simp

lemma token_at_quoted:
  "quotable a \<Longrightarrow> token_at json p (quote_arg a @ r) = (if r = [] then Return [a] else Continue [a] (Some 34, r))"
  using quoted_escape[of a "Some 34" r] by (simp add: token_at_def quote_arg_def next_char_def)

lemma skip_comments_quote: "skip_comments p (34 # r) = Some (Some (p, 34 # r))"
  by (subst skip_comments_unfold[where q = p and s = "34 # r"]) (simp_all add: next_char_def)

lemma skip_comments_space:
  assumes "c \<le> 32"
  shows "skip_comments p (c # r) = skip_comments (Some c) r"
proof -
  obtain q s where "skip_space (Some c) r = (q, s)" by force
  then show ?thesis
    using skip_comments_unfold[of p "c # r" q s] skip_comments_unfold[of "Some c" r q s] assms by simp
qed

lemma tokens_quoted:
  assumes "quotable a"
  shows "tokens json p (quote_arg a @ r) args =
    (if r = [] then Some (args @ [a]) else tokens json (Some 34) r (args @ [a]))"
proof -
  have "skip_comments p (quote_arg a @ r) = Some (Some (p, quote_arg a @ r))"
    using skip_comments_quote by (simp add: quote_arg_def)
  then show ?thesis using token_at_quoted[OF assms, of json p r] by (subst tokens.simps) simp
qed

lemma tokens_space: "c \<le> 32 \<Longrightarrow> tokens json p (c # r) args = tokens json (Some c) r args"
  using skip_comments_space[of c p r] by (subst (1 2) tokens.simps) simp

lemma tokens_end: "tokens json p [] args = Some args"
  by (subst tokens.simps) (simp add: skip_comments.simps split: option.split)

lemma tokens_arg_line:
  "\<forall>a \<in> set as. quotable a \<Longrightarrow> tokens json p (arg_line as) args = Some (args @ as)"
proof (induction as arbitrary: p args rule: arg_line.induct)
  case 1
  show ?case by (simp add: tokens_end)
next
  case (2 a)
  then show ?case using tokens_quoted[of a json p "[]" args] by simp
next
  case (3 a b as)
  then show ?case
    using tokens_quoted[of a json p "32 # arg_line (b # as)" args] by (simp add: tokens_space)
qed

lemma set_quote_arg: "set (quote_arg a) \<subseteq> {34, 92} \<union> set a" "set a \<subseteq> set (quote_arg a)"
proof -
  have "set (escape a) \<subseteq> {34, 92} \<union> set a \<and> set a \<subseteq> set (escape a)" by (induction a) auto
  then show "set (quote_arg a) \<subseteq> {34, 92} \<union> set a" "set a \<subseteq> set (quote_arg a)"
    by (auto simp: quote_arg_def)
qed

lemma set_arg_line: "a \<in> set as \<Longrightarrow> set a \<subseteq> set (arg_line as)"
  by (induction as rule: arg_line.induct) (use set_quote_arg(2) in auto)

lemma arg_line_encoded:
  assumes "utf8_encode (arg_line as) = Some line"
  shows "map utf8_encode as = map Some (ProgramArguments_wide as)"
proof -
  have "\<forall>c \<in> set (arg_line as). code_point c" using assms utf8_encode_total[of "arg_line as"] by simp
  then have "\<forall>a \<in> set as. utf8_encode a \<noteq> None"
    using set_arg_line utf8_encode_total by blast
  then show ?thesis by (auto simp: ProgramArguments_wide_def)
qed

section \<open>The buffer\<close>

text \<open>The text of a list of commands, each with the separator behind it.\<close>

fun joined :: "str list \<Rightarrow> str list \<Rightarrow> str" where
  "joined (c # cs) (s # ss) = c @ s @ joined cs ss"
| "joined _ _ = []"

text \<open>The buffer cut into commands: nothing is lost, the separators are the ones of the code, and
  something stays only behind a \<open>wait\<close>.\<close>

definition cut :: "(str \<Rightarrow> str) \<Rightarrow> str \<Rightarrow> str list \<Rightarrow> str list \<Rightarrow> str \<Rightarrow> bool" where
  "cut trim_left buf cs seps rest \<longleftrightarrow>
    length seps = length cs \<and> buf = joined cs seps @ rest \<and> set seps \<subseteq> {[], [59], [13], [10]} \<and>
    (\<forall>c \<in> set (butlast cs). \<not> is_wait trim_left c) \<and>
    (rest \<noteq> [] \<longrightarrow> cs \<noteq> [] \<and> is_wait trim_left (last cs))"

lemma cut_Cons:
  assumes "cut trim_left buf cs seps rest" "sep \<in> {[], [59], [13], [10]}" "\<not> is_wait trim_left c"
  shows "cut trim_left (c @ sep @ buf) (c # cs) (sep # seps) rest"
  using assms unfolding cut_def by auto

lemma split_buffer_value:
  assumes "json_ok json"
  shows "\<exists>cs seps rest. split_buffer json trim_left buf = Some (cs, rest) \<and> cut trim_left buf cs seps rest"
proof (induction "length buf" arbitrary: buf rule: less_induct)
  case less
  show ?case
  proof (cases "buf = []")
    case True
    then have "split_buffer json trim_left buf = Some ([], [])" by (subst split_buffer.simps) simp
    then show ?thesis using True by (intro exI[of _ "[]"]) (simp add: cut_def)
  next
    case False
    obtain i where i: "command_end json False buf = Some i" "i \<le> length buf"
      "i < length buf \<longrightarrow> buf ! i \<in> {59, 13, 10}"
      using command_end_total[OF assms] by blast
    let ?sep = "take 1 (drop i buf)"
    have sep: "?sep \<in> {[], [59], [13], [10]}"
      using i(2,3) by (cases "i < length buf") (auto simp: Cons_nth_drop_Suc[symmetric])
    have buf: "take i buf @ ?sep @ drop (i + 1) buf = buf"
      by (metis append_take_drop_id drop_drop add.commute)
    show ?thesis
    proof (cases "is_wait trim_left (take i buf)")
      case True
      then have "split_buffer json trim_left buf = Some ([take i buf], drop (i + 1) buf)"
        using False i(1) by (subst split_buffer.simps) simp
      moreover have "cut trim_left buf [take i buf] [?sep] (drop (i + 1) buf)"
        unfolding cut_def using buf sep True by auto
      ultimately show ?thesis by blast
    next
      case no_wait: False
      have "length (drop (i + 1) buf) < length buf" using False by simp
      from less[OF this] obtain cs seps rest where rec:
        "split_buffer json trim_left (drop (i + 1) buf) = Some (cs, rest)"
        "cut trim_left (drop (i + 1) buf) cs seps rest" by blast
      have "split_buffer json trim_left buf = Some (take i buf # cs, rest)"
        using False i(1) no_wait rec(1) by (subst split_buffer.simps) simp
      moreover have "cut trim_left buf (take i buf # cs) (?sep # seps) rest"
        using cut_Cons[OF rec(2) sep no_wait] buf by simp
      ultimately show ?thesis by blast
    qed
  qed
qed

section \<open>Properties\<close>

text \<open>Tokenizing ends for every line, without reading behind its end, whatever the JSON parser
  does as long as it consumes what it accepts; so does cutting the command buffer, and every
  separator it cuts at is a semicolon or a line break.\<close>

theorem tokenize_total:
  assumes "json_ok json" "json_ok json'"
  shows "(\<exists>args. Tokenize json line = Some args) \<and>
    (\<exists>cs rest. split_buffer json' trim_left buf = Some (cs, rest))"
proof
  show "\<exists>args. Tokenize json line = Some args"
  proof (cases "utf8_decode line")
    case (Some cs)
    then show ?thesis using tokens_total[OF assms(1), of None cs "[]"] by (auto simp: Tokenize_def)
  qed (simp add: Tokenize_def)
  show "\<exists>cs rest. split_buffer json' trim_left buf = Some (cs, rest)"
    using split_buffer_value[OF assms(2), of trim_left buf] by blast
qed

text \<open>A parser that knows only the empty object.\<close>

definition braces :: "('c :: numeral) list \<Rightarrow> nat option" where
  "braces s = (if take 2 s = [123, 125] then Some 2 else None)"

lemma braces_ok: "json_ok braces"
  unfolding json_ok_def braces_def
proof (intro allI impI)
  fix s :: "'a list" and n :: nat
  assume "(if take 2 s = [123, 125] then Some 2 else None) = Some n"
  then have "take 2 s = [123, 125]" "n = 2" by (auto split: if_splits)
  moreover from this have "length (take 2 s) = 2" by (simp del: length_take)
  then have "2 \<le> length s" by simp
  ultimately show "0 < n \<and> n \<le> length s" by simp
qed

theorem tokenize_total_witness:
  "(\<exists>args. Tokenize braces (str_of ''say {} \"a;b'') = Some args) \<and>
    (\<exists>cs rest. split_buffer braces (dropWhile (\<lambda>b. b \<le> 32)) (str_of ''say {}; \"a;b'') = Some (cs, rest))"
  by (rule tokenize_total[OF braces_ok braces_ok])

text \<open>A line of quoted arguments in which quotes are escaped with a backslash is read back
  exactly, for any text that can be encoded, as long as no argument ends in a backslash
  (a backslash cannot itself be escaped).\<close>

theorem quoted_line_read_back:
  assumes "utf8_encode (arg_line as) = Some line" "\<forall>a \<in> set as. quotable a"
  shows "\<exists>args. Tokenize json line = Some args \<and> map utf8_encode as = map Some args"
proof -
  have "Tokenize json line = Some (ProgramArguments_wide as)"
    using utf8_roundtrip[OF assms(1)] tokens_arg_line[OF assms(2), of json None "[]"] by (simp add: Tokenize_def)
  then show ?thesis using arg_line_encoded[OF assms(1)] by blast
qed

theorem quoted_line_read_back_witness:
  "\<exists>args. Tokenize braces [34, 115, 97, 121, 34, 32, 34, 97, 92, 92, 34, 98, 34, 32, 34, 34] = Some args \<and>
    map utf8_encode [[115, 97, 121], [97, 92, 34, 98], []] = map Some args"
  by (rule quoted_line_read_back)
    (simp_all add: encode_char_def code_point_def quote_arg_def quotable_def)

text \<open>Block comments are not skipped: of one that is preceded by white space, only the opening
  and the character behind it disappear; the rest of its text and its end become arguments.\<close>

theorem block_comment_not_skipped:
  "skip_comments (Some b) (47 # 42 # c # r) = skip_comments (Some c) r \<and>
   Tokenize (\<lambda>_. None) (str_of ''set x /* off */ 1'') = Some (map str_of [''set'', ''x'', ''off'', ''*/'', ''1''])"
proof
  have "skip_comments (Some b) (47 # 42 # c # r) = skip_comments (Some c) r"
    by (simp add: block_comment next_char_def)
  then show "skip_comments (Some b) (47 # 42 # c # r) = skip_comments (Some c) r" .
  have "utf8_encode (map of_char ''set x /* off */ 1'') = Some (str_of ''set x /* off */ 1'')"
    by (simp add: str_of_def encode_char_def code_point_def)
  from utf8_roundtrip[OF this]
  have "utf8_decode (str_of ''set x /* off */ 1'') = Some (map of_char ''set x /* off */ 1'')" .
  moreover have "tokens (\<lambda>_. None) None (map of_char ''set x /* off */ 1'') [] =
      Some (map (map of_char) [''set'', ''x'', ''off'', ''*/'', ''1''])"
    by (simp add: tokens.simps skip_comments.simps token_at_def next_char_def forward2_def boundary_def)
  ultimately show "Tokenize (\<lambda>_. None) (str_of ''set x /* off */ 1'') =
      Some (map str_of [''set'', ''x'', ''off'', ''*/'', ''1''])"
    by (simp add: Tokenize_def ProgramArguments_wide_def str_of_def encode_char_def code_point_def)
qed

end
