(* ===== verification/Console_Safety.thy ===== *)
theory Console_Safety
  imports Console Console_Text_Properties
begin

text \<open>
  The console never uses a variable object that is gone: the invariant that ties commands, variables
  and objects together, and that every operation keeps it and returns.
\<close>

section \<open>The invariant\<close>

definition owns :: "console \<Rightarrow> command_entry \<Rightarrow> bool" where
  "owns c e \<longleftrightarrow>
    (\<forall>i. ce_function e = Get_variable i \<longrightarrow> (\<exists>x. objects c i = Some x \<and> m_getCommand x = ce_token e)) \<and>
    (\<forall>i. ce_function e = Set_variable i \<longrightarrow> (\<exists>x. objects c i = Some x \<and> m_setCommand x = ce_token e))"

definition console_ok :: "console \<Rightarrow> bool" where
  "console_ok c \<longleftrightarrow>
    distinct (map (ce_token \<circ> snd) (commands c)) \<and>
    (\<forall>k e. (k, e) \<in> set (commands c) \<longrightarrow> ce_token e < command_token c \<and> owns c e) \<and>
    (\<forall>k e. (k, e) \<in> set (variables c) \<longrightarrow> objects c (ve_variable e) \<noteq> None) \<and>
    (\<forall>i x. objects c i = Some x \<longrightarrow> i < next_object c) \<and>
    (\<forall>i. 0 < var_refs c i \<longrightarrow> objects c i \<noteq> None)"

lemma console_okD:
  assumes "console_ok c"
  shows "distinct (map (ce_token \<circ> snd) (commands c))"
    and "(k, e) \<in> set (commands c) \<Longrightarrow> ce_token e < command_token c"
    and "(k, e) \<in> set (commands c) \<Longrightarrow> owns c e"
    and "(k, v) \<in> set (variables c) \<Longrightarrow> objects c (ve_variable v) \<noteq> None"
    and "objects c i = Some x \<Longrightarrow> i < next_object c"
    and "0 < var_refs c i \<Longrightarrow> objects c i \<noteq> None"
  using assms unfolding console_ok_def by blast+

lemma console_okI:
  assumes "distinct (map (ce_token \<circ> snd) (commands c))"
    and "\<And>k e. (k, e) \<in> set (commands c) \<Longrightarrow> ce_token e < command_token c"
    and "\<And>k e. (k, e) \<in> set (commands c) \<Longrightarrow> owns c e"
    and "\<And>k v. (k, v) \<in> set (variables c) \<Longrightarrow> objects c (ve_variable v) \<noteq> None"
    and "\<And>i x. objects c i = Some x \<Longrightarrow> i < next_object c"
    and "\<And>i. 0 < var_refs c i \<Longrightarrow> objects c i \<noteq> None"
  shows "console_ok c"
  using assms unfolding console_ok_def by blast

lemma owns_mono:
  assumes "owns c e" "\<And>i x. objects c i = Some x \<Longrightarrow>
      \<exists>y. objects c' i = Some y \<and> m_getCommand y = m_getCommand x \<and> m_setCommand y = m_setCommand x"
  shows "owns c' e"
  unfolding owns_def
proof (intro conjI allI impI)
  fix i
  assume "ce_function e = Get_variable i"
  then obtain x where x: "objects c i = Some x" "m_getCommand x = ce_token e" using assms(1) by (auto simp: owns_def)
  with assms(2)[OF x(1)] show "\<exists>x. objects c' i = Some x \<and> m_getCommand x = ce_token e" by auto
next
  fix i
  assume "ce_function e = Set_variable i"
  then obtain x where x: "objects c i = Some x" "m_setCommand x = ce_token e" using assms(1) by (auto simp: owns_def)
  with assms(2)[OF x(1)] show "\<exists>x. objects c' i = Some x \<and> m_setCommand x = ce_token e" by auto
qed

section \<open>Tables\<close>

lemma distinct_multi_insert:
  "distinct (map (f \<circ> snd) (multi_insert k v m)) \<longleftrightarrow> f v \<notin> (f \<circ> snd) ` set m \<and> distinct (map (f \<circ> snd) m)"
  by (induction k v m rule: multi_insert.induct) auto

lemma remove_first_subset: "set (remove_first P xs) \<subseteq> set xs"
  by (induction xs) auto

lemma distinct_remove_first: "distinct (map f xs) \<Longrightarrow> distinct (map f (remove_first P xs))"
  by (induction xs) (auto dest: remove_first_subset[THEN subsetD])

lemma set_remove_first:
  "distinct (map f xs) \<Longrightarrow> set (remove_first (\<lambda>x. f x = t) xs) = {x \<in> set xs. f x \<noteq> t}"
proof (induction xs)
  case (Cons a xs)
  then have "f a \<notin> f ` set xs" by simp
  then have "f x \<noteq> f a" if "x \<in> set xs" for x using that by (metis imageI)
  with Cons show ?case by auto
qed simp

section \<open>Commands and objects\<close>

lemma ok_Unregister_command:
  assumes "console_ok c"
  shows "console_ok (Unregister_command token c)"
proof (rule console_okI)
  note sub = remove_first_subset[THEN subsetD]
  show "distinct (map (ce_token \<circ> snd) (commands (Unregister_command token c)))"
    by (simp add: Unregister_command_def distinct_remove_first console_okD(1)[OF assms])
  show "ce_token e < command_token (Unregister_command token c)"
    if "(k, e) \<in> set (commands (Unregister_command token c))" for k e
    using that console_okD(2)[OF assms, of k e] by (auto simp: Unregister_command_def dest: sub)
  show "owns (Unregister_command token c) e"
    if "(k, e) \<in> set (commands (Unregister_command token c))" for k e
    using console_okD(3)[OF assms sub[OF that[unfolded Unregister_command_def, simplified]]]
    by (simp add: Unregister_command_def owns_def)
qed (use console_okD(4-6)[OF assms] in \<open>simp_all add: Unregister_command_def\<close>)

lemma ok_Register_command:
  assumes "console_ok c" "Register_command name h n c = (token, c')" "\<And>i. h \<noteq> Get_variable i \<and> h \<noteq> Set_variable i"
  shows "console_ok c'"
proof (rule console_okI)
  have c': "c' = snd (Register_command name h n c)" using assms(2) by simp
  have "command_token c \<notin> (ce_token \<circ> snd) ` set (commands c)" using console_okD(2)[OF assms(1)] by fastforce
  then show "distinct (map (ce_token \<circ> snd) (commands c'))"
    using console_okD(1)[OF assms(1)] by (simp add: c' Register_command_def Let_def distinct_multi_insert)
  show "ce_token e < command_token c'" if "(k, e) \<in> set (commands c')" for k e
    using that console_okD(2)[OF assms(1), of k e] by (auto simp: c' Register_command_def Let_def less_Suc_eq)
  show "owns c' e" if "(k, e) \<in> set (commands c')" for k e
    using that console_okD(3)[OF assms(1), of k e] assms(3)
    by (auto simp: c' Register_command_def Let_def owns_def)
  show "objects c' (ve_variable v) \<noteq> None" if "(k, v) \<in> set (variables c')" for k v
    using that console_okD(4)[OF assms(1), of k v] by (simp add: c' Register_command_def Let_def)
  show "i < next_object c'" if "objects c' i = Some x" for i x
    using that console_okD(5)[OF assms(1), of i x] by (simp add: c' Register_command_def Let_def)
  show "objects c' i \<noteq> None" if "0 < var_refs c' i" for i
    using that console_okD(6)[OF assms(1), of i] by (simp add: c' Register_command_def Let_def)
qed

lemma ok_set_object:
  assumes "console_ok c" "objects c i = Some x" "m_getCommand y = m_getCommand x" "m_setCommand y = m_setCommand x"
  shows "console_ok (set_object i y c)"
proof (rule console_okI)
  show "owns (set_object i y c) e" if "(k, e) \<in> set (commands (set_object i y c))" for k e
    using that console_okD(3)[OF assms(1), of k e] assms(2-4)
    by (auto simp: set_object_def elim!: owns_mono)
  show "objects (set_object i y c) (ve_variable v) \<noteq> None" if "(k, v) \<in> set (variables (set_object i y c))" for k v
    using that console_okD(4)[OF assms(1), of k v] by (simp add: set_object_def)
  show "j < next_object (set_object i y c)" if "objects (set_object i y c) j = Some z" for j z
    using that console_okD(5)[OF assms(1), of j] assms(2) by (auto simp: set_object_def split: if_splits)
  show "objects (set_object i y c) j \<noteq> None" if "0 < var_refs (set_object i y c) j" for j
    using that console_okD(6)[OF assms(1), of j] by (simp add: set_object_def)
  show "ce_token e < command_token (set_object i y c)" if "(k, e) \<in> set (commands (set_object i y c))" for k e
    using that console_okD(2)[OF assms(1), of k e] by (simp add: set_object_def)
qed (use console_okD(1)[OF assms(1)] in \<open>simp add: set_object_def\<close>)

lemma ok_collect:
  assumes "console_ok c"
  shows "console_ok (collect_object i c)"
proof (cases "objects c i")
  case None
  then show ?thesis using assms by (simp add: collect_object_def)
next
  case (Some x)
  show ?thesis
  proof (cases "var_refs c i = 0 \<and> i \<notin> (ve_variable \<circ> snd) ` set (variables c)")
    case False
    then show ?thesis using assms Some by (auto simp: collect_object_def)
  next
    case True
    let ?t = "\<lambda>t. remove_first (\<lambda>(_, e). ce_token e = t)"
    have eq: "(\<lambda>(_ :: icase, e). ce_token e = t) = (\<lambda>x. (ce_token \<circ> snd) x = t)" for t by auto
    let ?cs = "?t (m_getCommand x) (?t (m_setCommand x) (commands c))"
    have d: "distinct (map (ce_token \<circ> snd) (?t (m_setCommand x) (commands c)))"
      using console_okD(1)[OF assms] by (rule distinct_remove_first)
    have cs: "set ?cs = {p \<in> set (commands c). ce_token (snd p) \<noteq> m_setCommand x \<and> ce_token (snd p) \<noteq> m_getCommand x}"
      using set_remove_first[OF d, of "m_getCommand x"] set_remove_first[OF console_okD(1)[OF assms], of "m_setCommand x"]
      by (auto simp: eq)
    have col: "collect_object i c = c\<lparr>objects := (objects c)(i := None), commands := ?cs\<rparr>"
      using Some True by (simp add: collect_object_def Unregister_command_def)
    show ?thesis
    proof (rule console_okI)
      show "distinct (map (ce_token \<circ> snd) (commands (collect_object i c)))"
        using distinct_remove_first[OF d] by (simp add: col)
      show "owns (collect_object i c) e" if e: "(k, e) \<in> set (commands (collect_object i c))" for k e
      proof -
        have "(k, e) \<in> set (commands c)" "ce_token e \<noteq> m_setCommand x" "ce_token e \<noteq> m_getCommand x"
          using e by (auto simp: col cs)
        then show ?thesis using console_okD(3)[OF assms, of k e] Some by (auto simp: col owns_def)
      qed
      show "objects (collect_object i c) (ve_variable v) \<noteq> None" if "(k, v) \<in> set (variables (collect_object i c))" for k v
        using that console_okD(4)[OF assms, of k v] True by (force simp: col)
      show "ce_token e < command_token (collect_object i c)" if "(k, e) \<in> set (commands (collect_object i c))" for k e
        using that console_okD(2)[OF assms, of k e] by (auto simp: col cs)
      show "j < next_object (collect_object i c)" if "objects (collect_object i c) j = Some z" for j z
        using that console_okD(5)[OF assms, of j] by (auto simp: col split: if_splits)
      show "objects (collect_object i c) j \<noteq> None" if "0 < var_refs (collect_object i c) j" for j
        using that console_okD(6)[OF assms, of j] True by (auto simp: col)
    qed
  qed
qed

lemma ok_new_object:
  assumes "console_ok c" "ConsoleVariableEntry name v c = (i, c')"
  shows "console_ok c'" "i = next_object c" "objects c' = (objects c)(i \<mapsto> the (objects c' i))"
    "m_curValue (the (objects c' i)) = v" "m_name (the (objects c' i)) = name" "0 < var_refs c' i"
    "variables c' = variables c" "m_trackingVar (the (objects c' i)) = None" "var_refs c' = (var_refs c)(i := 1)"
proof -
  have c': "c' = snd (ConsoleVariableEntry name v c)" and i: "i = fst (ConsoleVariableEntry name v c)"
    using assms(2) by simp_all
  have fresh: "objects c j \<noteq> Some x" if "j = next_object c" for j x
    using console_okD(5)[OF assms(1), of j x] that by auto
  have "ce_token e \<noteq> command_token c \<and> ce_token e \<noteq> Suc (command_token c)" if "(k, e) \<in> set (commands c)" for k e
    using console_okD(2)[OF assms(1) that] by auto
  then have tokens: "command_token c \<notin> (ce_token \<circ> snd) ` set (commands c)"
    "Suc (command_token c) \<notin> (ce_token \<circ> snd) ` set (commands c)"
    unfolding image_iff comp_def by (metis prod.collapse)+
  note unf = c' ConsoleVariableEntry_def Register_command_def Let_def
  show "console_ok c'"
  proof (rule console_okI)
    show "distinct (map (ce_token \<circ> snd) (commands c'))"
      using console_okD(1)[OF assms(1)] tokens by (simp add: unf distinct_multi_insert)
    show "ce_token e < command_token c'" if "(k, e) \<in> set (commands c')" for k e
      using that console_okD(2)[OF assms(1), of k e] by (auto simp: unf)
    show "owns c' e" if e: "(k, e) \<in> set (commands c')" for k e
    proof (cases "(k, e) \<in> set (commands c)")
      case True
      show ?thesis by (rule owns_mono[OF console_okD(3)[OF assms(1) True]]) (use fresh in \<open>auto simp: unf\<close>)
    next
      case False
      then show ?thesis using e by (auto simp: unf owns_def)
    qed
    show "objects c' (ve_variable u) \<noteq> None" if "(k, u) \<in> set (variables c')" for k u
      using that console_okD(4)[OF assms(1), of k u] by (auto simp: unf)
    show "j < next_object c'" if "objects c' j = Some z" for j z
      using that console_okD(5)[OF assms(1), of j z] by (auto simp: unf less_Suc_eq split: if_splits)
    show "objects c' j \<noteq> None" if "0 < var_refs c' j" for j
      using that console_okD(6)[OF assms(1), of j] by (auto simp: unf split: if_splits)
  qed
  show "i = next_object c" "objects c' = (objects c)(i \<mapsto> the (objects c' i))"
    "m_curValue (the (objects c' i)) = v" "m_name (the (objects c' i)) = name" "0 < var_refs c' i"
    "variables c' = variables c" "m_trackingVar (the (objects c' i)) = None" "var_refs c' = (var_refs c)(i := 1)"
    by (simp_all add: i unf)
qed

section \<open>Operations on objects\<close>

named_theorems frame "updates of fields the invariant does not read"

lemma owns_frame [frame]:
  "owns (c\<lparr>m_rawCommand := raw\<rparr>) e = owns c e" "owns (c\<lparr>m_commandBuffer := buf\<rparr>) e = owns c e"
  "owns (c\<lparr>waitUntil := t\<rparr>) e = owns c e" "owns (c\<lparr>m_executing := b\<rparr>) e = owns c e"
  "owns (c\<lparr>m_variableModifiedFlags := f\<rparr>) e = owns c e" "owns (c\<lparr>m_suppressReadOnlyWarning := b\<rparr>) e = owns c e"
  "owns (c\<lparr>variables := vs\<rparr>) e = owns c e" "owns (c\<lparr>variable_token := n\<rparr>) e = owns c e"
  "owns (c\<lparr>var_refs := r\<rparr>) e = owns c e"
  by (simp_all add: owns_def)

lemma ok_frame [frame]:
  "console_ok (c\<lparr>m_rawCommand := raw\<rparr>) = console_ok c" "console_ok (c\<lparr>m_commandBuffer := buf\<rparr>) = console_ok c"
  "console_ok (c\<lparr>waitUntil := t\<rparr>) = console_ok c" "console_ok (c\<lparr>m_executing := b\<rparr>) = console_ok c"
  "console_ok (c\<lparr>m_variableModifiedFlags := f\<rparr>) = console_ok c"
  "console_ok (c\<lparr>m_suppressReadOnlyWarning := b\<rparr>) = console_ok c"
  "console_ok (c\<lparr>variable_token := n\<rparr>) = console_ok c"
  by (simp_all add: console_ok_def owns_frame)

text \<open>An operation on one object: the invariant holds, and no object, owner or entry comes or goes.\<close>

definition owners :: "console \<Rightarrow> (icase \<times> nat) list" where
  "owners c = map (\<lambda>(k, e). (k, ve_variable e)) (variables c)"

definition kept :: "console \<Rightarrow> console \<Rightarrow> bool" where
  "kept c c' \<longleftrightarrow> console_ok c' \<and> dom (objects c') = dom (objects c) \<and> var_refs c' = var_refs c \<and> owners c' = owners c"

lemma keptD:
  assumes "kept c c'"
  shows "console_ok c'" "objects c' i = None \<longleftrightarrow> objects c i = None" "var_refs c' = var_refs c" "owners c' = owners c"
proof -
  have "i \<in> dom (objects c') \<longleftrightarrow> i \<in> dom (objects c)" using assms by (simp add: kept_def)
  then show "objects c' i = None \<longleftrightarrow> objects c i = None"
    by (cases "objects c' i"; cases "objects c i") auto
qed (use assms in \<open>simp_all add: kept_def\<close>)

lemma kept_refl [simp]: "console_ok c \<Longrightarrow> kept c c"
  by (simp add: kept_def)

lemma kept_trans: "kept a b \<Longrightarrow> kept b c \<Longrightarrow> kept a c"
  by (auto simp: kept_def)

lemma kept_set_object:
  assumes "console_ok c" "objects c i = Some x" "m_getCommand y = m_getCommand x" "m_setCommand y = m_setCommand x"
  shows "kept c (set_object i y c)"
  using ok_set_object[OF assms] assms(2) by (auto simp: kept_def set_object_def owners_def)

lemma kept_update_flags:
  assumes "console_ok c"
  shows "kept c (update_flags name f c)"
proof -
  let ?g = "\<lambda>(k, e). (k, if same_name name k then e\<lparr>ve_flags := f (ve_flags e)\<rparr> else e)"
  have o: "owners (update_flags name f c) = owners c" by (auto simp: owners_def update_flags_def)
  have "objects c (ve_variable e) \<noteq> None" if e: "(k, e) \<in> set (map ?g (variables c))" for k e
  proof -
    obtain e' where "(k, e') \<in> set (variables c)" "ve_variable e = ve_variable e'"
      using e by (auto split: if_splits)
    then show ?thesis using console_okD(4)[OF assms] by metis
  qed
  then have "console_ok (update_flags name f c)"
    using assms unfolding console_ok_def update_flags_def by (simp add: owns_frame)
  then show ?thesis using o by (simp add: kept_def) (simp add: update_flags_def)
qed

lemma kept_AddEntryFlags: "console_ok c \<Longrightarrow> kept c (AddEntryFlags name flags c)"
  using kept_update_flags[of c name "\<lambda>f. f OR flags"]
  by (auto simp: AddEntryFlags_def SetVariableModifiedFlags_def kept_def frame owners_def split: option.split)

lemma SetRawValue_kept:
  assumes "console_ok c" "objects c i \<noteq> None"
  shows "\<exists>b c' out. SetRawValue env priv i v c = Some (b, c', out) \<and> kept c c'"
proof -
  obtain x where x: "objects c i = Some x" using assms(2) by blast
  let ?y = "x\<lparr>m_curValue := v, m_trackingVar := (case m_trackingVar x of None \<Rightarrow> None | Some _ \<Rightarrow> Some v)\<rparr>"
  have k: "kept c (set_object i ?y c)" by (rule kept_set_object[OF assms(1) x]) simp_all
  have "kept c (AddEntryFlags (m_name x) ConVar_Modified (set_object i ?y c))"
    by (rule kept_trans[OF k kept_AddEntryFlags[OF keptD(1)[OF k]]])
  with k assms(1) show ?thesis
    by (cases "m_trackingVar x")
      (auto simp: SetRawValue_def x Let_def MarkConsoleVarModified_def split: option.split)
qed

lemma SetValue_kept:
  assumes "console_ok c" "objects c i \<noteq> None"
  shows "\<exists>b c' out. SetValue env priv i s c = Some (b, c', out) \<and> kept c c'"
  using assms SetRawValue_kept[OF assms] by (auto simp: SetValue_def split: option.split)

lemma GetValue_kept:
  assumes "console_ok c" "objects c i \<noteq> None"
  shows "\<exists>s c'. GetValue i c = Some (s, c') \<and> kept c c'"
proof -
  obtain x where x: "objects c i = Some x" using assms(2) by blast
  let ?y = "case m_trackingVar x of None \<Rightarrow> x | Some t \<Rightarrow> if t \<noteq> m_curValue x then x\<lparr>m_curValue := t\<rparr> else x"
  have "kept c (set_object i ?y c)"
    by (rule kept_set_object[OF assms(1) x]) (simp_all split: option.split)
  then show ?thesis by (auto simp: GetValue_def x Let_def)
qed

lemma UpdateTrackingVariable_kept:
  assumes "console_ok c" "objects c i \<noteq> None"
  shows "\<exists>c' out. UpdateTrackingVariable env priv i c = Some (c', out) \<and> kept c c'"
  using assms SetRawValue_kept[OF assms]
  by (fastforce simp: UpdateTrackingVariable_def split: option.split)

section \<open>Operations on the tables\<close>

lemma collect_keeps:
  "variables (collect_object i c) = variables c" "var_refs (collect_object i c) = var_refs c"
  "0 < var_refs c j \<or> j \<in> snd ` set (owners c) \<Longrightarrow> objects (collect_object i c) j = objects c j"
  by (auto simp: collect_object_def Unregister_command_def owners_def image_iff split: option.split)

lemma fold_collect:
  fixes es :: "(icase \<times> var_entry) list"
  assumes "console_ok c"
  defines "d \<equiv> fold (\<lambda>(_, e). collect_object (ve_variable e)) es c"
  shows "console_ok d" "variables d = variables c" "var_refs d = var_refs c"
    "0 < var_refs c j \<or> j \<in> snd ` set (owners c) \<Longrightarrow> objects d j = objects c j"
proof -
  have "console_ok d \<and> variables d = variables c \<and> var_refs d = var_refs c \<and>
    (0 < var_refs c j \<or> j \<in> snd ` set (owners c) \<longrightarrow> objects d j = objects c j)"
    using assms(1) unfolding d_def
  proof (induction es arbitrary: c)
    case (Cons e es)
    obtain k v where e: "e = (k, v)" by force
    let ?c = "collect_object (ve_variable v) c"
    have "console_ok ?c" by (rule ok_collect[OF Cons.prems])
    from Cons.IH[OF this] show ?case
      using collect_keeps[where i = "ve_variable v" and c = c] e by (auto simp: owners_def)
  qed simp
  then show "console_ok d" "variables d = variables c" "var_refs d = var_refs c"
    "0 < var_refs c j \<or> j \<in> snd ` set (owners c) \<Longrightarrow> objects d j = objects c j"
    by blast+
qed

lemma Register_ok:
  assumes "console_ok c" "objects c i \<noteq> None" "Register name flags i c = (token, c')"
  shows "console_ok c'" "objects c' i = objects c i" "var_refs c' = var_refs c"
    "0 < var_refs c j \<Longrightarrow> objects c' j = objects c j"
proof -
  let ?e = "\<lparr>ve_name = name, ve_flags = flags, ve_variable = i, ve_token = variable_token c\<rparr>"
  let ?kept = "filter (\<lambda>(k, _). \<not> same_name name k) (variables c)"
  let ?c = "c\<lparr>variable_token := variable_token c + 1, variables := multi_insert (Icase name) ?e ?kept\<rparr>"
  have c': "c' = fold (\<lambda>(_, e). collect_object (ve_variable e)) (filter (\<lambda>(k, _). same_name name k) (variables c)) ?c"
    using arg_cong[OF assms(3), of snd] by (simp add: Register_def Let_def)
  have "console_ok ?c"
    using assms(1,2) unfolding console_ok_def by (auto simp: owns_frame)
  note f = fold_collect[OF this]
  show "console_ok c'" unfolding c' by (rule f(1))
  show "var_refs c' = var_refs c" unfolding c' f(3) by simp
  have "i \<in> snd ` set (owners ?c)" by (force simp: owners_def)
  then show "objects c' i = objects c i" unfolding c' by (subst f(4)) simp_all
  show "objects c' j = objects c j" if "0 < var_refs c j" unfolding c' by (subst f(4)) (use that in simp_all)
qed

lemma erase_first_ok:
  assumes "console_ok c"
  shows "console_ok (erase_first P c)" "0 < var_refs c j \<Longrightarrow> objects (erase_first P c) j = objects c j"
    "var_refs (erase_first P c) = var_refs c"
proof -
  let ?c = "c\<lparr>variables := remove_first P (variables c)\<rparr>"
  have "console_ok ?c"
    using assms remove_first_subset[of P "variables c"] unfolding console_ok_def by (fastforce simp: owns_frame)
  from ok_collect[OF this] assms show "console_ok (erase_first P c)"
    by (auto simp: erase_first_def split: option.split)
  show "0 < var_refs c j \<Longrightarrow> objects (erase_first P c) j = objects c j" "var_refs (erase_first P c) = var_refs c"
    by (auto simp: erase_first_def collect_keeps split: option.split)
qed

lemma drop_object_ok:
  assumes "console_ok c"
  shows "console_ok (drop_object i c)"
proof -
  have "console_ok (c\<lparr>var_refs := (var_refs c)(i := var_refs c i - 1)\<rparr>)"
    using assms unfolding console_ok_def by (auto simp: owns_frame)
  then show ?thesis by (simp add: drop_object_def ok_collect)
qed

lemma owner_ok:
  assumes "console_ok c" "FindEntryRaw name c = Some i"
  shows "objects c i \<noteq> None"
proof -
  obtain k e where "(k, e) \<in> set (variables c)" "ve_variable e = i"
    using assms(2) by (auto simp: FindEntryRaw_def find_entry_def find_Some_iff) (metis nth_mem)
  then show ?thesis using console_okD(4)[OF assms(1)] by metis
qed

lemma CreateVariableEntry_ok:
  assumes "console_ok c"
  shows "\<exists>i c' out. CreateVariableEntry env priv name v c = Some (i, c', out) \<and> console_ok c' \<and>
    objects c' i \<noteq> None \<and> 0 < var_refs c' i"
proof (cases "FindEntryRaw name c")
  case None
  obtain i c' where n: "ConsoleVariableEntry name v c = (i, c')" by force
  note o = ok_new_object[OF assms n]
  have "objects c' i \<noteq> None" using o(3) by (metis fun_upd_same option.distinct(1))
  then show ?thesis using None n o(1,6) by (simp add: CreateVariableEntry_def)
next
  case (Some old)
  obtain x where x: "objects c old = Some x" using owner_ok[OF assms Some] by blast
  show ?thesis
  proof (cases "type_of (m_curValue x) = type_of v")
    case True
    have "console_ok (c\<lparr>var_refs := (var_refs c)(old := var_refs c old + 1)\<rparr>)"
      using assms x unfolding console_ok_def by (auto simp: owns_frame)
    then show ?thesis using True Some x by (simp add: CreateVariableEntry_def)
  next
    case False
    obtain s c1 where g: "GetValue old c = Some (s, c1)" "kept c c1"
      using GetValue_kept[OF assms, of old] x by auto
    obtain i c2 where n: "ConsoleVariableEntry name v c1 = (i, c2)" by force
    note o = ok_new_object[OF keptD(1)[OF g(2)] n]
    have live: "objects c2 i \<noteq> None" using o(3) by (metis fun_upd_same option.distinct(1))
    obtain b c3 out where r: "SetValue env priv i s c2 = Some (b, c3, out)" "kept c2 c3"
      using SetValue_kept[OF o(1) live] by blast
    have "CreateVariableEntry env priv name v c = Some (i, c3, out)"
      using False Some x g(1) n r(1) by (simp add: CreateVariableEntry_def)
    moreover have "console_ok c3" "objects c3 i \<noteq> None" "0 < var_refs c3 i"
      using keptD[OF r(2)] live o(6) by auto
    ultimately show ?thesis by blast
  qed
qed

lemma make_ConVar_ok:
  assumes "console_ok c"
  shows "\<exists>v c' out. make_ConVar env priv name flags d tracks callback c = Some (v, c', out) \<and> console_ok c'"
proof -
  obtain i c1 out where 1: "CreateVariableEntry env priv name d c = Some (i, c1, out)" "console_ok c1"
    "objects c1 i \<noteq> None" "0 < var_refs c1 i"
    using CreateVariableEntry_ok[OF assms] by blast
  obtain t c2 where 2: "Register name flags i c1 = (t, c2)" by force
  note r = Register_ok[OF 1(2,3) 2]
  have "\<exists>c3. (if tracks then SetTrackingVar True i c2 else Some c2) = Some c3 \<and> kept c2 c3"
  proof (cases tracks)
    case True
    obtain x where x: "objects c2 i = Some x" using r(2) 1(3) by auto
    then show ?thesis using True kept_set_object[OF r(1) x, of "x\<lparr>m_trackingVar := Some (m_curValue x)\<rparr>"]
      by (simp add: SetTrackingVar_def)
  qed (use r(1) in simp)
  then obtain c3 where 3: "(if tracks then SetTrackingVar True i c2 else Some c2) = Some c3" "kept c2 c3" by blast
  have "\<exists>c4. (if callback then SetChangeCallback True i c3 else Some c3) = Some c4 \<and> kept c3 c4"
  proof (cases callback)
    case True
    obtain x where x: "objects c3 i = Some x" using r(2) 1(3) keptD(2)[OF 3(2), of i] by auto
    then show ?thesis using True kept_set_object[OF keptD(1)[OF 3(2)] x, of "x\<lparr>m_onChangeCallback := True\<rparr>"]
      by (simp add: SetChangeCallback_def)
  qed (use keptD(1)[OF 3(2)] in simp)
  then obtain c4 where 4: "(if callback then SetChangeCallback True i c3 else Some c3) = Some c4" "kept c3 c4" by blast
  have "make_ConVar env priv name flags d tracks callback c = Some (\<lparr>m_token = t, m_helper = i\<rparr>, c4, out)"
    using 1(1) 2 3(1) 4(1) by (simp add: make_ConVar_def)
  then show ?thesis using keptD(1)[OF 4(2)] by blast
qed

lemma destroy_ConVar_ok: "console_ok c \<Longrightarrow> console_ok (destroy_ConVar v c)"
  by (simp add: destroy_ConVar_def Unregister_def drop_object_ok erase_first_ok)

section \<open>The built-in handlers\<close>

text \<open>An operation that returns and keeps the invariant.\<close>

definition safe :: "(console \<Rightarrow> (console \<times> console_effect list) option) \<Rightarrow> console \<Rightarrow> bool" where
  "safe f c \<longleftrightarrow> (\<exists>c' out. f c = Some (c', out) \<and> console_ok c')"

lemma safeI: "f c = Some (c', out) \<Longrightarrow> console_ok c' \<Longrightarrow> safe f c"
  by (auto simp: safe_def)

lemma setCommand_safe:
  assumes "console_ok c"
  shows "safe (setCommand env priv flags name s) c"
proof (cases "find_entry name c")
  case (Some e)
  then have "objects c (ve_variable e) \<noteq> None" using owner_ok[OF assms, of name] by (simp add: FindEntryRaw_def)
  from SetValue_kept[OF assms this] obtain b c' out where
    v: "SetValue env priv (ve_variable e) s c = Some (b, c', out)" "kept c c'" by blast
  then have "setCommand env priv flags name s c = Some (update_flags name (\<lambda>f. f OR flags) c', out)"
    using Some by (simp add: setCommand_def)
  then show ?thesis using keptD(1)[OF kept_update_flags[OF keptD(1)[OF v(2)]]] by (rule safeI)
next
  case None
  obtain i c1 out where 1: "CreateVariableEntry env priv name (Str []) c = Some (i, c1, out)" "console_ok c1"
    "objects c1 i \<noteq> None" "0 < var_refs c1 i"
    using CreateVariableEntry_ok[OF assms] by blast
  obtain t c2 where 2: "Register name (ConVar_Modified OR flags) i c1 = (t, c2)" by force
  note r = Register_ok[OF 1(2,3) 2]
  have "objects c2 i \<noteq> None" using r(2) 1(3) by simp
  from SetValue_kept[OF r(1) this] obtain b c3 out' where
    3: "SetValue env priv i s c2 = Some (b, c3, out')" "kept c2 c3" by blast
  have "setCommand env priv flags name s c = Some (drop_object i c3, out @ out')"
    using None 1(1) 2 3(1) by (simp add: setCommand_def)
  then show ?thesis using drop_object_ok[OF keptD(1)[OF 3(2)]] by (rule safeI)
qed

lemma toggleCommand_safe:
  assumes "console_ok c"
  shows "safe (toggleCommand env priv name a b) c"
proof (cases "FindEntryRaw name c")
  case None
  then show ?thesis using assms by (simp add: toggleCommand_def safe_def)
next
  case (Some i)
  obtain v c1 where 1: "GetValue i c = Some (v, c1)" "kept c c1"
    using GetValue_kept[OF assms owner_ok[OF assms Some]] by blast
  let ?v = "if v = str_of ''true'' then str_of ''1'' else if v = str_of ''false'' then str_of ''0'' else v"
  have "objects c1 i \<noteq> None" using owner_ok[OF assms Some] keptD(2)[OF 1(2)] by simp
  from SetValue_kept[OF keptD(1)[OF 1(2)] this] obtain ok c2 out where
    2: "SetValue env priv i (if ?v = a then b else a) c1 = Some (ok, c2, out)" "kept c1 c2" by blast
  have "toggleCommand env priv name a b c = Some (c2, out)"
    using Some 1(1) 2(1) by (simp add: toggleCommand_def Let_def cong: if_cong)
  then show ?thesis using keptD(1)[OF 2(2)] by (rule safeI)
qed

lemma vstrCommand_safe:
  assumes "console_ok c"
  shows "\<exists>c'. vstrCommand name c = Some c' \<and> console_ok c'"
proof (cases "FindEntryRaw name c")
  case None
  then show ?thesis using assms by (simp add: vstrCommand_def)
next
  case (Some i)
  obtain v c1 where 1: "GetValue i c = Some (v, c1)" "kept c c1"
    using GetValue_kept[OF assms owner_ok[OF assms Some]] by blast
  then show ?thesis using Some keptD(1)[OF 1(2)] by (simp add: vstrCommand_def AddToBuffer_def frame)
qed

lemma getCommand_safe:
  assumes "console_ok c" "objects c i \<noteq> None"
  shows "safe (getCommand env i) c"
proof -
  obtain v c1 where 1: "GetValue i c = Some (v, c1)" "kept c c1" using GetValue_kept[OF assms] by blast
  obtain x where "objects c1 i = Some x" using assms(2) keptD(2)[OF 1(2), of i] by auto
  then show ?thesis using 1(1) keptD(1)[OF 1(2)] by (simp add: getCommand_def safe_def)
qed

lemma setVariableCommand_safe:
  assumes "console_ok c" "objects c i \<noteq> None"
  shows "safe (setVariableCommand env priv i v) c"
  using assms SetRawValue_kept[OF assms, of env priv v]
  by (auto simp: setVariableCommand_def safe_def dest: keptD(1))

section \<open>Worlds\<close>

definition world_ok :: "world \<Rightarrow> bool" where
  "world_ok w \<longleftrightarrow> (\<forall>c \<in> set (contexts w). console_ok c)"

lemma world_okD: "world_ok w \<Longrightarrow> k < length (contexts w) \<Longrightarrow> console_ok (contexts w ! k)"
  by (simp add: world_ok_def)

lemma world_ok_update:
  "world_ok w \<Longrightarrow> console_ok c \<Longrightarrow> world_ok (w\<lparr>contexts := (contexts w)[k := c]\<rparr>)"
  by (auto simp: world_ok_def dest: set_update_subset_insert[THEN subsetD])

text \<open>What a step of the world gives: the invariant and the same contexts in number.\<close>

definition good :: "world \<Rightarrow> world \<Rightarrow> bool" where
  "good w w' \<longleftrightarrow> world_ok w' \<and> length (contexts w') = length (contexts w)"

lemma goodD: "good w w' \<Longrightarrow> world_ok w'" "good w w' \<Longrightarrow> length (contexts w') = length (contexts w)"
  by (auto simp: good_def)

lemma good_refl [simp]: "world_ok w \<Longrightarrow> good w w"
  by (simp add: good_def)

lemma good_trans: "good a b \<Longrightarrow> good b c \<Longrightarrow> good a c"
  by (auto simp: good_def)

lemma on_context_good:
  assumes "world_ok w" "k < length (contexts w)" "safe f (contexts w ! k)"
  shows "\<exists>w' out. on_context k f w = Some (w', out) \<and> good w w'"
  using assms world_ok_update[OF assms(1)] by (auto simp: on_context_def safe_def good_def)

lemma each_good:
  assumes "\<And>x w. x \<in> set xs \<Longrightarrow> world_ok w \<Longrightarrow> k < length (contexts w) \<Longrightarrow> \<exists>w' out. f x w = Some (w', out) \<and> good w w'"
    and "world_ok w" "k < length (contexts w)"
  shows "\<exists>w' out. each f xs w = Some (w', out) \<and> good w w'"
  using assms
proof (induction xs arbitrary: w)
  case (Cons x xs)
  obtain w1 out1 where 1: "f x w = Some (w1, out1)" "good w w1"
    using Cons.prems(1)[of x w] Cons.prems(2,3) by (metis list.set_intros(1))
  have "\<exists>w' out. each f xs w1 = Some (w', out) \<and> good w1 w'"
    by (rule Cons.IH) (use Cons.prems 1(2) in \<open>auto simp: good_def\<close>)
  then show ?case using 1 good_trans by fastforce
qed simp

lemma list_line_good:
  assumes "world_ok w" "k < length (contexts w)"
  shows "\<exists>w' out. list_line k name w = Some (w', out) \<and> good w w'"
proof -
  let ?show = "\<lambda>i c. do {
    (v, c) \<leftarrow> GetValue i c;
    Some (c, [Printf (str_of ''CmdSystem'') (name @ str_of '' = '' @ v @ str_of ''^7'' @ [10])]) }"
  have s: "\<exists>w' out. on_context j (?show i) w = Some (w', out) \<and> good w w'"
    if j: "j < length (contexts w)" and i: "FindEntryRaw name (contexts w ! j) = Some i" for j i
  proof (rule on_context_good[OF assms(1) j])
    note ok = world_okD[OF assms(1) j]
    obtain v c where "GetValue i (contexts w ! j) = Some (v, c)" "kept (contexts w ! j) c"
      using GetValue_kept[OF ok owner_ok[OF ok i]] by blast
    then show "safe (?show i) (contexts w ! j)" by (simp add: safe_def keptD(1))
  qed
  show ?thesis
    using assms s[of k] s[of "k + 1"] unfolding list_line_def Let_def
    by (auto split: option.split)
qed

lemma cmdlistCommand_good:
  assumes "world_ok w" "k < length (contexts w)"
  shows "\<exists>w' out. cmdlistCommand k w = Some (w', out) \<and> good w w'"
  unfolding cmdlistCommand_def Let_def
  by (rule each_good[where k = k]) (use assms list_line_good in auto)

text \<open>The objects a handler captures are alive.\<close>

definition captured :: "handler \<Rightarrow> console \<Rightarrow> bool" where
  "captured h c \<longleftrightarrow> (\<forall>i. h = Get_variable i \<or> h = Set_variable i \<longrightarrow> objects c i \<noteq> None)"

lemma equal_range_captured:
  assumes "console_ok c" "e \<in> set (equal_range name c)"
  shows "captured (ce_function e) c"
proof -
  obtain k where "(k, e) \<in> set (commands c)" using assms(2) by (auto simp: equal_range_def)
  from console_okD(3)[OF assms(1) this] show ?thesis by (auto simp: owns_def captured_def)
qed

lemma handle_good:
  assumes "world_ok w" "k < length (contexts w)" "captured h (contexts w ! k)"
  shows "\<exists>w' out. handle env k h args v w = Some (w', out) \<and> good w w'"
proof -
  note ok = world_okD[OF assms(1,2)] and on = on_context_good[OF assms(1,2)]
  have v: "safe (\<lambda>c. map_option (\<lambda>c. (c, [])) (vstrCommand name c)) (contexts w ! k)" for name
    using vstrCommand_safe[OF ok, of name] by (auto simp: safe_def)
  show ?thesis
  proof (cases h)
    case Wait
    have "safe (silent (waitCommand env m)) (contexts w ! k)" for m
      using ok by (simp add: safe_def silent_def waitCommand_def frame)
    then show ?thesis using Wait on by simp
  next
    case Cmdlist
    then show ?thesis using cmdlistCommand_good[OF assms(1,2)] by simp
  next
    case (Get_variable i)
    then show ?thesis using on[OF getCommand_safe[OF ok]] assms(3) by (simp add: captured_def)
  next
    case (Set_variable i)
    then show ?thesis using on[OF setVariableCommand_safe[OF ok]] assms(3) by (simp add: captured_def)
  qed (use assms(1) on setCommand_safe[OF ok] toggleCommand_safe[OF ok] v in simp_all)
qed

section \<open>Execution\<close>

text \<open>
  What running commands needs: the JSON parsers consume what they accept, and the commands of other
  components keep the console's objects; one that rejects its arguments has done nothing, as
  \<open>ConsoleCommandFunction::Call\<close> rejects before it calls the function. That they keep the objects is proved below from what they can do.
\<close>

definition env_keeps :: "console_env \<Rightarrow> bool" where
  "env_keeps env \<longleftrightarrow> json_ok (json_bytes env) \<and> json_ok (json_chars env) \<and>
    (\<forall>e args ctx w ok err w' out. world_ok w \<longrightarrow> external env e args ctx w = Some (ok, err, w', out) \<longrightarrow> good w w' \<and> (ok \<or> w' = w))"

lemma env_keepsD:
  assumes "env_keeps env"
  shows "json_ok (json_bytes env)" "json_ok (json_chars env)"
    and "world_ok w \<Longrightarrow> external env e args ctx w = Some (ok, err, w', out) \<Longrightarrow> good w w' \<and> (ok \<or> w' = w)"
  using assms unfolding env_keeps_def by blast+

text \<open>The commands of other components return. \<close>

definition others_return :: "console_env \<Rightarrow> bool" where
  "others_return env \<longleftrightarrow> (\<forall>e args ctx w. world_ok w \<longrightarrow> external env e args ctx w \<noteq> None)"

text \<open>A result that is missing only if such a command does not return.\<close>

definition fine :: "console_env \<Rightarrow> world \<Rightarrow> (world \<times> 'a) option \<Rightarrow> bool" where
  "fine env w r \<longleftrightarrow> (case r of None \<Rightarrow> \<not> others_return env | Some (w', out) \<Rightarrow> good w w')"

lemma fine_cases:
  assumes "fine env w r"
  obtains "r = None" "\<not> others_return env" | w' out where "r = Some (w', out)" "good w w'"
  using assms by (cases r) (auto simp: fine_def)

lemma fine_None: "\<not> others_return env \<Longrightarrow> fine env w None"
  by (simp add: fine_def)

lemma fine_Some: "good w w' \<Longrightarrow> fine env w (Some (w', out))"
  by (simp add: fine_def)

lemma each_fine:
  assumes "\<And>x w. world_ok w \<Longrightarrow> k < length (contexts w) \<Longrightarrow> fine env w (f x w)" "world_ok w" "k < length (contexts w)"
  shows "fine env w (each f xs w)"
  using assms(2,3)
proof (induction xs arbitrary: w)
  case (Cons x xs)
  from assms(1)[OF Cons.prems, of x] show ?case
  proof (cases rule: fine_cases)
    case (2 w1 out1)
    have "fine env w1 (each f xs w1)" using Cons.IH Cons.prems(2) 2(2) by (simp add: good_def)
    then show ?thesis using 2 good_trans[OF 2(2)] by (cases rule: fine_cases) (auto simp: fine_def)
  qed (simp_all add: fine_None)
qed (simp add: fine_Some)

lemma Call_builtin:
  assumes "\<And>e. h \<noteq> External e"
  shows "Call env k h args contextRef w =
    (if arity h \<noteq> length args then
       Some (False, str_of ''Argument count mismatch (passed '' @ show_nat (length args) @ str_of '', wanted '' @
         show_nat (arity h) @ str_of '')'' @ [10], w, [])
     else do {
       type \<leftarrow> converted h (contexts w ! k);
       (case Parse_value type (if args = [] then [] else args ! 0) of
          None \<Rightarrow> Some (False, str_of ''Could not convert argument 0 ('' @ args ! 0 @ str_of '') to '' @
            type_id env type @ [10], w, [])
        | Some v \<Rightarrow> do {
            (w, out) \<leftarrow> handle env k h args v w;
            Some (True, [], w, out) }) })"
proof (cases h)
  case (External e)
  then show ?thesis using assms by blast
qed (simp_all only: Call_def handler.case)

lemma Call_fine:
  assumes "env_keeps env" "world_ok w" "k < length (contexts w)" "captured h (contexts w ! k)"
  shows "case Call env k h args ctx w of None \<Rightarrow> \<not> others_return env | Some (ok, err, w', out) \<Rightarrow> good w w' \<and> (ok \<or> w' = w)"
proof (cases "\<exists>e. h = External e")
  case True
  then obtain e where e: "h = External e" by blast
  show ?thesis
  proof (cases "external env e args ctx w")
    case None
    then have "\<not> others_return env" using assms(2) unfolding others_return_def by blast
    then show ?thesis using e None by (simp add: Call_def)
  next
    case (Some r)
    obtain ok err w' out where "r = (ok, err, w', out)" by (metis prod_cases4)
    with env_keepsD(3)[OF assms(1,2)] Some e show ?thesis by (simp add: Call_def)
  qed
next
  case False
  have "\<exists>type. converted h (contexts w ! k) = Some type"
    using assms(4) by (cases h) (auto simp: converted_def captured_def)
  then obtain type where type: "converted h (contexts w ! k) = Some type" by blast
  note call = Call_builtin[of h env k args ctx w]
  show ?thesis
  proof (cases "arity h \<noteq> length args")
    case True
    then show ?thesis using call False assms(2) by auto
  next
    case arity: False
    show ?thesis
    proof (cases "Parse_value type (if args = [] then [] else args ! 0)")
      case None
      then show ?thesis using call False arity type assms(2) by auto
    next
      case (Some v)
      obtain w' out where "handle env k h args v w = Some (w', out)" "good w w'"
        using handle_good[OF assms(2-4)] by blast
      then show ?thesis using call False arity type Some by auto
    qed
  qed
qed

lemma attempts_fine:
  assumes "env_keeps env" "world_ok w" "k < length (contexts w)" "\<forall>h \<in> set hs. captured h (contexts w ! k)"
  shows "case attempts env k hs args ctx err w of None \<Rightarrow> \<not> others_return env | Some (ok, err', w', out) \<Rightarrow> good w w'"
  using assms(4)
proof (induction hs arbitrary: err)
  case (Cons h hs)
  have call: "case Call env k h args ctx w of None \<Rightarrow> \<not> others_return env | Some (ok, err, w', out) \<Rightarrow> good w w' \<and> (ok \<or> w' = w)"
    using Call_fine[OF assms(1-3)] Cons.prems by simp
  show ?case
  proof (cases "Call env k h args ctx w")
    case None
    then show ?thesis using call by simp
  next
    case (Some r)
    obtain ok err1 w1 out1 where r: "r = (ok, err1, w1, out1)" by (metis prod_cases4)
    have ih: "case attempts env k hs args ctx err1 w of None \<Rightarrow> \<not> others_return env | Some (ok, err', w', out) \<Rightarrow> good w w'"
      using Cons by simp
    show ?thesis
    proof (cases ok)
      case True
      then show ?thesis using call Some r by simp
    next
      case False
      then have "w1 = w" using call Some r by simp
      then show ?thesis using ih Some r False by (cases "attempts env k hs args ctx err1 w") auto
    qed
  qed
qed (use assms(2) in auto)

lemma world_ok_set_raw:
  "world_ok w \<Longrightarrow> k < length (contexts w) \<Longrightarrow> good w (set_raw k raw w)"
  using world_ok_update[of w "(contexts w ! k)\<lparr>m_rawCommand := raw\<rparr>" k] world_okD[of w k]
  by (simp add: good_def set_raw_def frame)

lemma InvokeDirect_fine:
  assumes "env_keeps env" "world_ok w" "k < length (contexts w)"
  shows "fine env w (InvokeDirect env k name args ctx w)"
  using assms
proof (induction env k name args ctx w rule: InvokeDirect.induct)
  case (1 env k name args ctx w)
  let ?fs = "map ce_function (equal_range name (contexts w ! k))"
  show ?case
  proof (cases "?fs = []")
    case True
    show ?thesis
    proof (cases "fallback_result env k name args ctx \<and> k + 1 < length (contexts w)")
      case rec: True
      let ?w = "set_raw (k + 1) (m_rawCommand (contexts w ! k)) w"
      have r: "good w ?w" using world_ok_set_raw[OF "1.prems"(2)] rec by simp
      have "fine env ?w (InvokeDirect env (k + 1) name args ctx ?w)"
        using "1.IH"[OF refl True refl] rec "1.prems"(1) r by (auto simp: good_def)
      then show ?thesis using InvokeDirect_next[of name w k env args ctx] True rec good_trans[OF r]
        by (cases rule: fine_cases) (auto simp: fine_def)
    next
      case False
      then show ?thesis using InvokeDirect_stop[of name w k env args ctx] True "1.prems"(2) by (simp add: fine_def)
    qed
  next
    case False
    have "\<forall>h \<in> set ?fs. captured h (contexts w ! k)"
      using equal_range_captured[OF world_okD[OF "1.prems"(2,3)]] by auto
    note a = attempts_fine[OF "1.prems" this, of args ctx "[]"]
    show ?thesis
    proof (cases "seCheckPrivilege w (str_of ''command.'' @ name)")
      case True
      then show ?thesis using False a InvokeDirect_found[of name w k env args ctx]
        by (cases "attempts env k ?fs args ctx [] w") (auto simp: fine_def)
    qed (use False "1.prems"(2) InvokeDirect_denied[of name w k env args ctx] in \<open>auto simp: fine_def\<close>)
  qed
qed

lemma Invoke_fine:
  assumes "env_keeps env" "world_ok w" "k < length (contexts w)"
  shows "fine env w (Invoke env k cmd ctx w)"
proof -
  obtain args where args: "Tokenize (json_chars env) cmd = Some args"
  proof (cases "utf8_decode cmd")
    case (Some cs)
    then show ?thesis
      using tokens_total[OF env_keepsD(2)[OF assms(1)], of None cs "[]"] that by (auto simp: Tokenize_def)
  qed (use that in \<open>simp add: Tokenize_def\<close>)
  show ?thesis
  proof (cases args)
    case Nil
    then show ?thesis using args assms(2) by (simp add: Invoke_def Count_def fine_def)
  next
    case (Cons name rest)
    note r = world_ok_set_raw[OF assms(2,3), of cmd]
    have "fine env (set_raw k cmd w) (InvokeDirect env k name rest ctx (set_raw k cmd w))"
      using InvokeDirect_fine[OF assms(1) goodD(1)[OF r]] assms(3) goodD(2)[OF r] by simp
    then show ?thesis
    proof (cases rule: fine_cases)
      case (2 w1 out)
      have "k < length (contexts w1)" using assms(3) goodD(2)[OF r] goodD(2)[OF 2(2)] by simp
      from world_ok_set_raw[OF goodD(1)[OF 2(2)] this, of "[]"] have "good w (set_raw k [] w1)"
        using good_trans[OF r good_trans[OF 2(2)]] by blast
      then show ?thesis using args Cons 2(1) by (simp add: Invoke_def Count_def Shift_def fine_def)
    qed (use args Cons in \<open>simp add: Invoke_def Count_def Shift_def fine_def\<close>)
  qed
qed

lemma ExecuteBuffer_fine:
  assumes "env_keeps env" "world_ok w" "k < length (contexts w)"
  shows "fine env w (ExecuteBuffer env k w)"
proof (cases "waiting env (contexts w ! k)")
  case True
  then show ?thesis using assms(2) by (simp add: ExecuteBuffer_def fine_def)
next
  case False
  obtain cs rest where s: "split_buffer (json_bytes env) (trim_left env) (m_commandBuffer (contexts w ! k)) = Some (cs, rest)"
    using split_buffer_value[OF env_keepsD(1)[OF assms(1)]] by blast
  note ok = world_okD[OF assms(2,3)]
  let ?f = "silent (\<lambda>c. c\<lparr>waitUntil := 0, m_commandBuffer := rest, m_executing := True\<rparr>)"
  have "safe ?f (contexts w ! k)" using ok by (simp add: safe_def silent_def frame)
  from on_context_good[OF assms(2,3) this] obtain w1 out1 where 1: "on_context k ?f w = Some (w1, out1)" "good w w1" by blast
  have k1: "k < length (contexts w1)" using assms(3) goodD(2)[OF 1(2)] by simp
  have "fine env w1 (each (ExecuteSingleCommand env k) cs w1)"
    unfolding ExecuteSingleCommand_def by (rule each_fine[OF Invoke_fine[OF assms(1)] goodD(1)[OF 1(2)] k1])
  then show ?thesis
  proof (cases rule: fine_cases)
    case (2 w2 out2)
    have k2: "k < length (contexts w2)" using k1 goodD(2)[OF 2(2)] by simp
    let ?g = "silent (\<lambda>c. c\<lparr>m_executing := False\<rparr>)"
    have "safe ?g (contexts w2 ! k)" using world_okD[OF goodD(1)[OF 2(2)] k2] by (simp add: safe_def silent_def frame)
    from on_context_good[OF goodD(1)[OF 2(2)] k2 this] obtain w3 out3 where
      3: "on_context k ?g w2 = Some (w3, out3)" "good w2 w3" by blast
    have "ExecuteBuffer env k w = Some (w3, out2)"
      using False s 1(1) 2(1) 3(1) by (simp add: ExecuteBuffer_def)
    then show ?thesis using good_trans[OF 1(2) good_trans[OF 2(2) 3(2)]] by (simp add: fine_def)
  qed (use False s 1(1) in \<open>simp add: ExecuteBuffer_def fine_def\<close>)
qed

section \<open>Reachable worlds\<close>

lemma new_console_ok: "console_ok (new_console env)"
proof -
  have r: "console_ok (snd (Register_command name h n c))"
    if "console_ok c" "\<And>i. h \<noteq> Get_variable i \<and> h \<noteq> Set_variable i" for name h n c
    using ok_Register_command[OF that(1), of name h n] that(2) by (cases "Register_command name h n c") auto
  show ?thesis
    unfolding new_console_def Let_def
    by (cases "fxserver env") (auto intro!: r, auto simp: console_ok_def)
qed

text \<open>What the code of other components does to a console through its interface.\<close>

inductive console_step :: "console_env set \<Rightarrow> console \<Rightarrow> console \<Rightarrow> bool" for E where
  buffer: "console_step E c (AddToBuffer text c)"
| command: "Register_command name (External e) n c = (t, c') \<Longrightarrow> console_step E c c'"
| uncommand: "console_step E c (Unregister_command t c)"
| convar: "make_ConVar env priv name flags d tracks callback c = Some (v, c', out) \<Longrightarrow> console_step E c c'"
| unconvar: "console_step E c (destroy_ConVar v c)"
| unregister: "console_step E c (Unregister t c)"
| unregister_name: "console_step E c (Unregister_name name c)"
| add_flags: "console_step E c (AddEntryFlags name flags c)"
| remove_flags: "console_step E c (RemoveEntryFlags name flags c)"
| remove_flagged: "console_step E c (RemoveVariablesWithFlag flags c)"
| suppress: "console_step E c (ShouldSuppressReadOnlyWarning b c)"
| constrain: "SetConstraints lo hi i c = Some c' \<Longrightarrow> console_step E c c'"
| set_value: "SetValue env priv i s c = Some (b, c', out) \<Longrightarrow> console_step E c c'"
| set_raw_value: "SetRawValue env priv i v c = Some (b, c', out) \<Longrightarrow> console_step E c c'"
| save_offline: "SaveOfflineValue i c = Some c' \<Longrightarrow> console_step E c c'"
| tracked_write: "objects c i = Some x \<Longrightarrow> m_trackingVar x = Some t \<Longrightarrow>
    console_step E c (set_object i (x\<lparr>m_trackingVar := Some t'\<rparr>) c)"
| save: "env \<in> E \<Longrightarrow> SaveConfigurationIfNeeded env priv path st c = Some (st', c', out) \<Longrightarrow> console_step E c c'"

lemma save_lines_kept:
  "save_lines es c = Some (ls, c') \<Longrightarrow> console_ok c \<Longrightarrow> kept c c'"
proof (induction es arbitrary: c ls c')
  case (Cons e es)
  obtain name flags i where e: "e = (name, flags, i)" by (metis prod_cases3)
  from Cons.prems(1) e obtain v c1 ls1 where
    1: "(if flags AND ConVar_Replicated \<noteq> 0 then map_option (\<lambda>v. (v, c)) (GetOfflineValue i c) else GetValue i c) = Some (v, c1)"
    and 2: "save_lines es c1 = Some (ls1, c')"
    by (auto split: bind_splits)
  have "kept c c1"
  proof (cases "flags AND ConVar_Replicated \<noteq> 0")
    case True
    then show ?thesis using 1 Cons.prems(2) by auto
  next
    case False
    then have "GetValue i c = Some (v, c1)" using 1 by simp
    moreover from this have "objects c i \<noteq> None" by (cases "objects c i") (auto simp: GetValue_def)
    ultimately show ?thesis using GetValue_kept[OF Cons.prems(2), of i] by auto
  qed
  then show ?case using Cons.IH[OF 2 keptD(1)] kept_trans by blast
qed simp

lemma each_kept:
  assumes "\<And>x c c' out. f x c = Some (c', out) \<Longrightarrow> console_ok c \<Longrightarrow> kept c c'"
  shows "each f xs c = Some (c', out) \<Longrightarrow> console_ok c \<Longrightarrow> kept c c'"
proof (induction xs arbitrary: c out)
  case (Cons x xs)
  then obtain c1 o1 o2 where 1: "f x c = Some (c1, o1)" "each f xs c1 = Some (c', o2)"
    by (auto split: bind_splits)
  have "kept c c1" by (rule assms[OF 1(1) Cons.prems(2)])
  then show ?case using Cons.IH[OF 1(2) keptD(1)] kept_trans by blast
qed simp

lemma UpdateTrackingVariable_kept':
  assumes "UpdateTrackingVariable env priv i c = Some (c', out)" "console_ok c"
  shows "kept c c'"
proof -
  have "objects c i \<noteq> None" using assms(1) by (cases "objects c i") (auto simp: UpdateTrackingVariable_def)
  from UpdateTrackingVariable_kept[OF assms(2) this, of env priv] assms(1) show ?thesis by auto
qed

lemma SaveConfiguration_kept:
  "SaveConfiguration env path c = Some (c', out) \<Longrightarrow> console_ok c \<Longrightarrow> kept c c'"
  unfolding SaveConfiguration_def SaveConfiguration_variables_def
  by (auto split: if_splits bind_splits dest: save_lines_kept)

lemma SaveConfigurationIfNeeded_ok:
  assumes "SaveConfigurationIfNeeded env priv path st c = Some (st', c', out)" "console_ok c"
  shows "console_ok c'"
proof -
  let ?check = "clock env div 1000000 - lastCheck st > 2500"
  obtain c1 out1 where 1: "(if ?check then each (\<lambda>(_, _, i). UpdateTrackingVariable env priv i) (ForAllVariables (- 1) c) c
      else Some (c, [])) = Some (c1, out1)"
    using assms(1) by (auto simp: SaveConfigurationIfNeeded_def Let_def split: bind_splits)
  have "kept c c1"
  proof (cases ?check)
    case True
    then have e: "each (\<lambda>(_, _, i). UpdateTrackingVariable env priv i) (ForAllVariables (- 1) c) c = Some (c1, out1)"
      using 1 by simp
    show ?thesis by (rule each_kept[OF _ e assms(2)]) (auto dest: UpdateTrackingVariable_kept')
  qed (use 1 assms(2) in simp)
  then have ok: "console_ok c1" by (rule keptD)
  from assms(1) 1 have "c' = c1 \<or> (\<exists>c2 out2. SaveConfiguration env path c1 = Some (c2, out2) \<and>
      c' = c2\<lparr>m_variableModifiedFlags := m_variableModifiedFlags c2 AND NOT ConVar_Archive\<rparr>)"
    by (auto simp: SaveConfigurationIfNeeded_def Let_def split: bind_splits if_splits)
  then show ?thesis using ok by (auto simp: frame dest!: SaveConfiguration_kept[OF _ ok, THEN keptD(1)])
qed

lemma fold_Unregister_ok: "console_ok c \<Longrightarrow> console_ok (fold Unregister ts c)"
  by (induction ts arbitrary: c) (auto simp: Unregister_def erase_first_ok)

lemma console_step_ok:
  assumes "console_step E c c'" "console_ok c"
  shows "console_ok c'"
  using assms
proof (induction rule: console_step.induct)
  case (convar env priv name flags d tracks callback c v c' out)
  then show ?case using make_ConVar_ok[OF convar.prems, of env priv name flags d tracks callback] by auto
next
  case (set_value env priv i s c b c' out)
  then have "objects c i \<noteq> None" by (cases "objects c i") (auto simp: SetValue_def)
  from SetValue_kept[OF set_value.prems this, of env priv s] set_value(1) show ?case by (auto dest: keptD(1))
next
  case (set_raw_value env priv i v c b c' out)
  then have "objects c i \<noteq> None" by (cases "objects c i") (auto simp: SetRawValue_def)
  from SetRawValue_kept[OF set_raw_value.prems this, of env priv v] set_raw_value(1) show ?case by (auto dest: keptD(1))
next
  case (constrain lo hi i c c')
  then show ?case by (auto simp: SetConstraints_def split: option.splits intro: ok_set_object)
next
  case (save_offline i c c')
  then show ?case by (auto simp: SaveOfflineValue_def split: option.splits intro: ok_set_object)
next
  case (remove_flags c name flags)
  then show ?case unfolding RemoveEntryFlags_def by (rule keptD(1)[OF kept_update_flags])
next
  case (add_flags c name flags)
  then show ?case by (rule keptD(1)[OF kept_AddEntryFlags])
next
  case (save env priv path st c st' c' out)
  then show ?case using SaveConfigurationIfNeeded_ok by blast
next
  case (command name e n c t c')
  then show ?case using ok_Register_command by blast
qed (auto simp: AddToBuffer_def frame ok_Unregister_command destroy_ConVar_ok Unregister_def erase_first_ok
    Unregister_name_def RemoveVariablesWithFlag_def fold_Unregister_ok ShouldSuppressReadOnlyWarning_def
    intro: ok_set_object)

text \<open>
  The environment: the JSON parsers consume what they accept; and the commands of other components, when they return, have made calls
  of the interface of the consoles, among them (as \<open>exec\<close> does) runs of a buffer and of commands, in which the nested commands are of
  that kind too, and changes of the access control. A run that nests without end does not return.
\<close>

inductive env_ok :: "console_env \<Rightarrow> bool" and uses_console :: "world \<Rightarrow> world \<Rightarrow> bool" where
  env: "json_ok (json_bytes env) \<Longrightarrow> json_ok (json_chars env) \<Longrightarrow>
    (\<And>e args ctx w ok err w' out. external env e args ctx w = Some (ok, err, w', out) \<Longrightarrow> uses_console w w') \<Longrightarrow>
    (\<And>e args ctx w err w' out. external env e args ctx w = Some (False, err, w', out) \<Longrightarrow> w' = w) \<Longrightarrow> env_ok env"
| nothing: "uses_console w w"
| interface: "uses_console w w1 \<Longrightarrow> k < length (contexts w1) \<Longrightarrow> console_step UNIV (contexts w1 ! k) c \<Longrightarrow>
    uses_console w (w1\<lparr>contexts := (contexts w1)[k := c]\<rparr>)"
| execute: "uses_console w w1 \<Longrightarrow> env_ok env \<Longrightarrow> k < length (contexts w1) \<Longrightarrow> ExecuteBuffer env k w1 = Some (w', out) \<Longrightarrow> uses_console w w'"
| invoke: "uses_console w w1 \<Longrightarrow> env_ok env \<Longrightarrow> k < length (contexts w1) \<Longrightarrow> Invoke env k cmd ctx w1 = Some (w', out) \<Longrightarrow> uses_console w w'"
| direct: "uses_console w w1 \<Longrightarrow> env_ok env \<Longrightarrow> k < length (contexts w1) \<Longrightarrow> InvokeDirect env k name args ctx w1 = Some (w', out) \<Longrightarrow>
    uses_console w w'"
| access: "uses_console w w1 \<Longrightarrow> uses_console w (w1\<lparr>acting := t, acl := a\<rparr>)"

lemma fine_good: "fine env w r \<Longrightarrow> r = Some (w', out) \<Longrightarrow> good w w'"
  by (simp add: fine_def)

lemma env_ok_keeps: "env_ok env \<Longrightarrow> env_keeps env"
  and uses_console_good: "uses_console w w' \<Longrightarrow> world_ok w \<longrightarrow> good w w'"
proof (induction rule: env_ok_uses_console.inducts)
  case (env env)
  have "ok \<or> w' = w" if "external env e args ctx w = Some (ok, err, w', out)" for e args ctx w ok err w' out
    using env.hyps(4) that by (cases ok) auto
  moreover have "good w w'" if "world_ok w" "external env e args ctx w = Some (ok, err, w', out)" for e args ctx w ok err w' out
    using env.IH[OF that(2)] that(1) by simp
  ultimately show ?case unfolding env_keeps_def using env.hyps(1,2) by simp
next
  case (interface w w1 k c)
  then show ?case using world_ok_update[OF _ console_step_ok[OF interface.hyps(3)]] world_okD[of w1 k] by (auto simp: good_def)
next
  case (execute w w1 env k w' out)
  then show ?case using fine_good[OF ExecuteBuffer_fine] goodD good_trans by metis
next
  case (invoke w w1 env k cmd ctx w' out)
  then show ?case using fine_good[OF Invoke_fine] goodD good_trans by metis
next
  case (direct w w1 env k name args ctx w' out)
  then show ?case using fine_good[OF InvokeDirect_fine] goodD good_trans by metis
next
  case (access w w1 t a)
  then show ?case by (auto simp: good_def world_ok_def)
qed simp

text \<open>Worlds the program can get into, starting from fresh contexts: execution, calls of the
  interface, and any change of the access control.\<close>

inductive world_reachable :: "console_env set \<Rightarrow> world \<Rightarrow> bool" for E where
  start: "world_reachable E \<lparr>contexts = map new_console envs, acting = t, acl = a\<rparr>"
| execute: "world_reachable E w \<Longrightarrow> env \<in> E \<Longrightarrow> k < length (contexts w) \<Longrightarrow>
    ExecuteBuffer env k w = Some (w', out) \<Longrightarrow> world_reachable E w'"
| invoke: "world_reachable E w \<Longrightarrow> env \<in> E \<Longrightarrow> k < length (contexts w) \<Longrightarrow>
    Invoke env k cmd ctx w = Some (w', out) \<Longrightarrow> world_reachable E w'"
| direct: "world_reachable E w \<Longrightarrow> env \<in> E \<Longrightarrow> k < length (contexts w) \<Longrightarrow>
    InvokeDirect env k name args ctx w = Some (w', out) \<Longrightarrow> world_reachable E w'"
| interface: "world_reachable E w \<Longrightarrow> k < length (contexts w) \<Longrightarrow> console_step E (contexts w ! k) c \<Longrightarrow>
    world_reachable E (w\<lparr>contexts := (contexts w)[k := c]\<rparr>)"
| access: "world_reachable E w \<Longrightarrow> world_reachable E (w\<lparr>acting := t, acl := a\<rparr>)"

lemma world_reachable_ok:
  assumes "world_reachable E w" "\<forall>env \<in> E. env_ok env"
  shows "world_ok w"
  using assms(1)
proof induction
  case (start envs t a)
  then show ?case by (auto simp: world_ok_def new_console_ok)
next
  case (execute w env k w' out)
  then show ?case using fine_good[OF ExecuteBuffer_fine[OF env_ok_keeps]] assms(2) goodD by blast
next
  case (invoke w env k cmd ctx w' out)
  then show ?case using fine_good[OF Invoke_fine[OF env_ok_keeps]] assms(2) goodD by blast
next
  case (direct w env k name args ctx w' out)
  then show ?case using fine_good[OF InvokeDirect_fine[OF env_ok_keeps]] assms(2) goodD by blast
next
  case (interface w k c)
  then show ?case using world_ok_update console_step_ok world_okD by blast
qed (simp add: world_ok_def)

section \<open>Properties\<close>

text \<open>C32: In every state the consoles can get into by commands, by their interface and by changes of
  the access control, where the commands of other components do what they do with the consoles through the interface (which includes running
  buffers and commands), no registered variable is gone: each can be read; and running the buffer, a command line or a command never uses a variable
  object that is gone and ends, unless a command of another component does not return.\<close>

theorem console_never_fails:
  assumes "world_reachable E w" "\<forall>env \<in> E. env_ok env" "env \<in> E" "k < length (contexts w)"
  shows "(others_return env \<longrightarrow>
      ExecuteBuffer env k w \<noteq> None \<and> Invoke env k cmd ctx w \<noteq> None \<and> InvokeDirect env k name args ctx w \<noteq> None) \<and>
    (case FindEntryRaw name (contexts w ! k) of None \<Rightarrow> True | Some i \<Rightarrow> GetValue i (contexts w ! k) \<noteq> None)"
proof -
  have ok: "env_keeps env" "world_ok w" using assms(2,3) env_ok_keeps world_reachable_ok[OF assms(1,2)] by auto
  have "others_return env \<longrightarrow> r \<noteq> None" if "fine env w r" for r :: "(world \<times> console_effect list) option"
    using that by (cases r) (auto simp: fine_def)
  then show ?thesis
    using ExecuteBuffer_fine[OF ok assms(4)] Invoke_fine[OF ok assms(4), of cmd ctx]
      InvokeDirect_fine[OF ok assms(4), of name args ctx]
      GetValue_kept[OF world_okD[OF ok(2) assms(4)] owner_ok[OF world_okD[OF ok(2) assms(4)]]]
    by (fastforce split: option.split)
qed

text \<open>An environment: a server on a parser that knows the empty object, where the commands of other components do nothing to the consoles, as \<open>quit\<close>.\<close>

definition plain_env :: console_env where
  "plain_env = \<lparr>json_bytes = braces, json_chars = braces, trim_left = dropWhile is_space, clock = 5000000000,
     fxserver = True, argument_name = (\<lambda>_. []), type_id = (\<lambda>_. []), fallback_result = (\<lambda>_ _ _ _. True),
     external = (\<lambda>e args ctx w. Some (True, [], w, [])), writer_ok = True, on_save = []\<rparr>"

lemma plain_env_ok: "env_ok plain_env"
  by (rule env_ok_uses_console.env) (auto simp: plain_env_def braces_ok intro: env_ok_uses_console.nothing)

lemma plain_others_return: "others_return plain_env"
  by (simp add: others_return_def plain_env_def)

text \<open>A console with the command \<open>quit\<close> and a buffer that sets a variable and reads it, and then quits.\<close>

definition busy_console :: console where
  "busy_console = AddToBuffer (str_of ''set x 1'' @ [10] @ str_of ''x'' @ [10] @ str_of ''quit'' @ [10])
     (snd (Register_command (str_of ''quit'') (External 0) 0 (new_console plain_env)))"

theorem console_never_fails_witness:
  "ExecuteBuffer plain_env 0 \<lparr>contexts = [busy_console, new_console plain_env],
      acting = \<lparr>principalStack = [Ref (Principal (str_of ''system.console''))], principalStackStack = []\<rparr>, acl = default_context\<rparr> \<noteq> None"
proof -
  let ?w = "\<lambda>c. \<lparr>contexts = [c, new_console plain_env],
      acting = \<lparr>principalStack = [Ref (Principal (str_of ''system.console''))], principalStackStack = []\<rparr>, acl = default_context\<rparr>"
  let ?c = "snd (Register_command (str_of ''quit'') (External 0) 0 (new_console plain_env))"
  have 0: "world_reachable {plain_env} (?w (new_console plain_env))"
    using world_reachable.start[of "{plain_env}" "[plain_env, plain_env]"] by simp
  have "console_step {plain_env} (new_console plain_env) ?c" by (rule console_step.command[of _ 0]) (rule prod.collapse[symmetric])
  from world_reachable.interface[OF 0, of 0] this have 1: "world_reachable {plain_env} (?w ?c)" by simp
  have "console_step {plain_env} ?c busy_console" unfolding busy_console_def by (rule console_step.buffer)
  from world_reachable.interface[OF 1, of 0] this have "world_reachable {plain_env} (?w busy_console)" by simp
  from console_never_fails[OF this, of plain_env 0 "[]" "[]" "[]" "[]"] show ?thesis
    by (simp add: plain_env_ok plain_others_return)
qed

end
