(* ===== verification/Console_Properties.thy ===== *)
theory Console_Properties
  imports Console_Safety Security_Properties
begin

unbundle bit_operations_syntax

text \<open>
  What the console promises: commands run only with the privilege, whatever the spelling of their
  names; the first overload that accepts the arguments runs; read-only variables keep their values; what
  is saved can be read back; and the places where it does not keep its promises.
\<close>

section \<open>The privilege check\<close>

text \<open>The console relies on a check that treats spellings of a name alike, as its tables do.\<close>

locale privileges =
  fixes check :: "'s \<Rightarrow> str \<Rightarrow> bool"
  assumes spelling: "fold_case a = fold_case b \<Longrightarrow> check s a = check s b"
begin

lemma command_spelling:
  assumes "fold_case a = fold_case b" "0 \<notin> set p"
  shows "check s (p @ a) = check s (p @ b)"
  by (rule spelling) (use assms in \<open>simp add: fold_case_append\<close>)

end

text \<open>The spellings of an object name have the same dotted prefixes.\<close>

lemma to_lower_dot: "to_lower b = 46 \<longleftrightarrow> b = 46"
proof (cases "65 \<le> b \<and> b \<le> 90")
  case True
  then have b: "65 \<le> unat b" "unat b \<le> 90" by (simp_all add: word_le_nat_alt)
  then have "unat (b + 32) = unat b + 32" by (simp add: unat_plus_if_size word_size)
  then have "b + 32 \<noteq> 46" "b \<noteq> 46" using b by auto
  then show ?thesis using True by (simp add: to_lower_def)
qed (auto simp: to_lower_def)

lemma takeWhile_of_take: "takeWhile P (take n xs) = take n (takeWhile P xs)"
  by (induction xs arbitrary: n) (auto simp: take_Cons split: nat.split)

lemma covers_fold:
  "covers k (Object s) \<longleftrightarrow> fold_case (GetIdentifier_o k) \<in> insert (fold_case s)
    {take i (fold_case s) | i. i < length (fold_case s) \<and> fold_case s ! i = 46}"
proof -
  let ?a = "takeWhile (\<lambda>b. b \<noteq> 0) s"
  have f: "fold_case (take i s) = take i (fold_case s)" for i
    by (simp add: fold_case_def take_map[symmetric] takeWhile_of_take)
  have nth: "fold_case s ! i = to_lower (s ! i)" if "i < length (fold_case s)" for i
    using that by (simp add: fold_case_def takeWhile_nth)
  have len: "length (fold_case s) \<le> length s" by (simp add: fold_case_def length_takeWhile_le)
  let ?F = "insert (fold_case s) {take i (fold_case s) | i. i < length (fold_case s) \<and> fold_case s ! i = 46}"
  have 1: "fold_case (take i s) \<in> ?F" if "s ! i = 46" for i
  proof (cases "i < length (fold_case s)")
    case True
    then have "fold_case s ! i = 46" using nth[OF True] that by (simp add: to_lower_dot)
    with True show ?thesis unfolding f by blast
  qed (simp add: f)
  have two: "take i (fold_case s) = fold_case (take i s) \<and> i < length s \<and> s ! i = 46"
    if "i < length (fold_case s)" "fold_case s ! i = 46" for i
    using nth[OF that(1)] that f len by (simp add: to_lower_dot)
  show ?thesis
  proof
    assume "covers k (Object s)"
    then consider "fold_case (GetIdentifier_o k) = fold_case s"
      | i where "s ! i = 46" "fold_case (GetIdentifier_o k) = fold_case (take i s)"
      unfolding covers_def object.sel by blast
    then show "fold_case (GetIdentifier_o k) \<in> ?F" 
    proof cases
      case (2 i)
      show ?thesis unfolding 2(2) by (rule 1[OF 2(1)])
    qed simp
  next
    assume "fold_case (GetIdentifier_o k) \<in> ?F"
    then consider "fold_case (GetIdentifier_o k) = fold_case s"
      | i where "i < length (fold_case s)" "fold_case s ! i = 46" "fold_case (GetIdentifier_o k) = take i (fold_case s)"
      by blast
    then show "covers k (Object s)"
    proof cases
      case (2 i)
      then have "fold_case (GetIdentifier_o k) = fold_case (take i s) \<and> i < length s \<and> s ! i = 46"
        using two[OF 2(1,2)] by simp
      then show ?thesis unfolding covers_def object.sel by blast
    qed (simp add: covers_def)
  qed
qed

lemma CheckPrivilege_spelling:
  assumes "fold_case a = fold_case b"
  shows "CheckPrivilege p (Object a) c = CheckPrivilege p (Object b) c"
  unfolding CheckPrivilege_value ace_applies_def covers_fold assms ..

interpretation se: privileges seCheckPrivilege
proof unfold_locales
  fix a b and w :: world
  assume "fold_case a = fold_case b"
  then have "CheckPrivilege p (Object a) c = CheckPrivilege p (Object b) c" for p c
    by (rule CheckPrivilege_spelling)
  then show "seCheckPrivilege w a = seCheckPrivilege w b"
    by (simp add: seCheckPrivilege_def CheckPrivilege_current_def)
qed

lemma command_prefix: "0 \<notin> set (str_of ''command.'')"
  by (simp add: str_of_def)

lemma equal_range_spelling:
  assumes "fold_case a = fold_case b"
  shows "equal_range a c = equal_range b c"
proof -
  have "same_name a = same_name b" using assms by (intro ext) (metis same_name.elims(2) same_name.simps)
  then show ?thesis by (simp add: equal_range_def)
qed

lemma find_entry_spelling:
  assumes "fold_case a = fold_case b"
  shows "find_entry a c = find_entry b c"
proof -
  have "same_name a = same_name b" using assms by (intro ext) (metis same_name.elims(2) same_name.simps)
  then show ?thesis by (simp add: find_entry_def)
qed

text \<open>Only the commands of the console itself are registered.\<close>

definition builtin_only :: "console \<Rightarrow> bool" where
  "builtin_only c \<longleftrightarrow> (\<forall>e \<in> set (commands c). \<forall>x. ce_function (snd e) \<noteq> External x)"

section \<open>A world to instantiate the properties with\<close>

definition console_principal :: security_thread where
  "console_principal = \<lparr>principalStack = [Ref (Principal (str_of ''system.console''))], principalStackStack = []\<rparr>"

definition nobody :: security_thread where
  "nobody = \<lparr>principalStack = [], principalStackStack = []\<rparr>"

definition plain_world :: "security_thread \<Rightarrow> console \<Rightarrow> world" where
  "plain_world t c = \<lparr>contexts = [c], acting = t, acl = default_context\<rparr>"

lemma plain_world_simps [simp]:
  "contexts (plain_world t c) = [c]" "acting (plain_world t c) = t" "acl (plain_world t c) = default_context"
  by (simp_all add: plain_world_def)

lemma plain_aces: "m_aces default_context = [(Object (str_of ''command''), \<lparr>ace_object = Object (str_of ''command''),
    ace_principal = Principal (str_of ''system.console''), ace_type = Allow\<rparr>)]"
  by (simp add: default_context_def AddAccessControlEntry_def new_context_def)

lemma plain_allowed: "seCheckPrivilege (plain_world console_principal c) (str_of ''command.'' @ name)"
proof -
  have "fold_case (str_of ''command.'' @ name) = map to_lower (str_of ''command.'') @ fold_case name"
    by (rule fold_case_append[OF command_prefix])
  then have f: "fold_case (str_of ''command.'' @ name) = str_of ''command.'' @ fold_case name"
    by (simp add: str_of_def to_lower_def)
  have "covers (Object (str_of ''command'')) (Object (str_of ''command.'' @ name))"
    unfolding covers_fold f by (auto simp: str_of_def fold_case_def to_lower_def intro!: exI[of _ 7])
  then show ?thesis
    by (simp add: seCheckPrivilege_def CheckPrivilege_current_def console_principal_def CheckPrivilege_value
        ace_applies_def plain_aces)
qed

lemma plain_denied: "\<not> seCheckPrivilege (plain_world nobody c) name"
proof -
  have "fold_case (str_of ''system.console'') \<noteq> fold_case (str_of ''builtin.everyone'')"
    by (simp add: str_of_def fold_case_def to_lower_def)
  moreover have "counted default_context everyone = {}"
    by (simp add: counted_def inherits_def default_context_def AddAccessControlEntry_def new_context_def)
  ultimately show ?thesis
    by (simp add: seCheckPrivilege_def CheckPrivilege_current_def nobody_def CheckPrivilege_value
        ace_applies_def plain_aces everyone_def)
qed

lemma plain_commands:
  "map ce_function (equal_range (str_of ''toggle'') (new_console plain_env)) = [Toggle, Toggle_values]"
  "map ce_function (equal_range (str_of ''set'') (new_console plain_env)) = [Set_command ConVar_None]"
  "map ce_function (equal_range (str_of ''seta'') (new_console plain_env)) = [Set_command ConVar_Archive]"
  "find_entry name (new_console plain_env) = None" "objects (new_console plain_env) = Map.empty"
  by (simp_all add: new_console_def plain_env_def Register_command_def equal_range_def str_of_def fold_case_def
      to_lower_def find_entry_def)

lemma plain_builtin: "builtin_only (new_console plain_env)"
  by (simp add: new_console_def plain_env_def Register_command_def builtin_only_def)

lemma plain_reachable: "world_reachable {plain_env} (plain_world t (new_console plain_env))"
  using world_reachable.start[of "{plain_env}" "[plain_env]" t default_context] by (simp add: plain_world_def)

section \<open>Invocation\<close>

text \<open>A console without the command line it is executing.\<close>

definition unraw :: "console \<Rightarrow> console" where
  "unraw c = c\<lparr>m_rawCommand := []\<rparr>"

lemma set_raw_unraw [simp]:
  "map unraw (contexts (set_raw k raw w)) = map unraw (contexts w)"
  "acting (set_raw k raw w) = acting w" "acl (set_raw k raw w) = acl w"
  "length (contexts (set_raw k raw w)) = length (contexts w)"
proof -
  have "map unraw ((contexts w)[k := (contexts w ! k)\<lparr>m_rawCommand := raw\<rparr>]) = map unraw (contexts w)"
    by (cases "k < length (contexts w)") (auto simp: nth_list_update unraw_def intro!: nth_equalityI)
  then show "map unraw (contexts (set_raw k raw w)) = map unraw (contexts w)" by (simp add: set_raw_def)
qed (simp_all add: set_raw_def)

lemma seCheckPrivilege_set_raw [simp]: "seCheckPrivilege (set_raw k raw w) = seCheckPrivilege w"
  by (simp add: seCheckPrivilege_def fun_eq_iff)

text \<open>A command without the privilege does nothing: whatever is registered under its name, in the
  context or in the contexts it falls back to, no handler runs; the consoles, the access control
  and the acting principals stay as they are but for the raw command line, and what happens
  outside is the fallback event and a message.\<close>

theorem denied_command_does_nothing:
  assumes "k < length (contexts w)" "\<not> seCheckPrivilege w (str_of ''command.'' @ name)"
  shows "\<exists>w' out. InvokeDirect env k name args ctx w = Some (w', out) \<and>
    map unraw (contexts w') = map unraw (contexts w) \<and> acting w' = acting w \<and> acl w' = acl w \<and>
    set out \<subseteq> range (\<lambda>i. FallbackEvent i name args ctx) \<union> range (\<lambda>(channel, text). Printf channel text)"
  using assms
proof (induction env k name args ctx w rule: InvokeDirect.induct)
  case (1 env k name args ctx w)
  let ?fs = "map ce_function (equal_range name (contexts w ! k))"
  show ?case
  proof (cases "?fs = [] \<and> fallback_result env k name args ctx \<and> k + 1 < length (contexts w)")
    case True
    let ?w = "set_raw (k + 1) (m_rawCommand (contexts w ! k)) w"
    have "\<exists>w' out. InvokeDirect env (k + 1) name args ctx ?w = Some (w', out) \<and>
      map unraw (contexts w') = map unraw (contexts ?w) \<and> acting w' = acting ?w \<and> acl w' = acl ?w \<and>
      set out \<subseteq> range (\<lambda>i. FallbackEvent i name args ctx) \<union> range (\<lambda>(channel, text). Printf channel text)"
      by (rule "1.IH"[OF refl]) (use True "1.prems"(2) in auto)
    then obtain w' out where "InvokeDirect env (k + 1) name args ctx ?w = Some (w', out)"
      "map unraw (contexts w') = map unraw (contexts w)" "acting w' = acting w" "acl w' = acl w"
      "set out \<subseteq> range (\<lambda>i. FallbackEvent i name args ctx) \<union> range (\<lambda>(channel, text). Printf channel text)"
      by auto
    with True show ?thesis using InvokeDirect_next[of name w k env args ctx] by simp
  next
    case False
    then show ?thesis
      using InvokeDirect_stop[of name w k env args ctx] InvokeDirect_denied[of name w k env args ctx] "1.prems"(2)
      by (cases "?fs = []") (auto simp: image_iff)
  qed
qed

theorem denied_command_does_nothing_witness:
  "\<exists>w' out. InvokeDirect plain_env 0 (str_of ''set'') [[97], [98]] [] (plain_world nobody (new_console plain_env)) = Some (w', out) \<and>
    map unraw (contexts w') = map unraw (contexts (plain_world nobody (new_console plain_env))) \<and>
    acting w' = acting (plain_world nobody (new_console plain_env)) \<and>
    acl w' = acl (plain_world nobody (new_console plain_env)) \<and>
    set out \<subseteq> range (\<lambda>i. FallbackEvent i (str_of ''set'') [[97], [98]] []) \<union> range (\<lambda>(channel, text). Printf channel text)"
  by (rule denied_command_does_nothing) (simp_all add: plain_denied)

text \<open>What the code decides about an overload before its function runs.\<close>

definition rejects :: "console \<Rightarrow> str list \<Rightarrow> handler \<Rightarrow> bool" where
  "rejects c args h \<longleftrightarrow> (\<forall>e. h \<noteq> External e) \<and>
    (arity h \<noteq> length args \<or>
     (\<exists>type. converted h c = Some type \<and> Parse_value type (if args = [] then [] else args ! 0) = None))"

definition accepts :: "console \<Rightarrow> str list \<Rightarrow> handler \<Rightarrow> val \<Rightarrow> bool" where
  "accepts c args h v \<longleftrightarrow> (\<forall>e. h \<noteq> External e) \<and> arity h = length args \<and>
    (\<exists>type. converted h c = Some type \<and> Parse_value type (if args = [] then [] else args ! 0) = Some v)"

lemma Call_rejects: "rejects (contexts w ! k) args h \<Longrightarrow> \<exists>err. Call env k h args ctx w = Some (False, err, w, [])"
  using Call_builtin[of h env k args ctx w] by (auto simp: rejects_def)

lemma Call_accepts:
  "accepts (contexts w ! k) args h v \<Longrightarrow>
    Call env k h args ctx w = map_option (\<lambda>(w, out). (True, [], w, out)) (handle env k h args v w)"
  using Call_builtin[of h env k args ctx w] by (cases "handle env k h args v w") (auto simp: accepts_def)

lemma attempts_first:
  assumes "\<forall>g \<in> set hs. rejects (contexts w ! k) args g" "accepts (contexts w ! k) args h v"
  shows "attempts env k (hs @ h # hs') args ctx err w =
    map_option (\<lambda>(w, out). (True, [], w, out)) (handle env k h args v w)"
  using assms(1)
proof (induction hs arbitrary: err)
  case Nil
  show ?case using Call_accepts[OF assms(2), of env ctx] by (cases "handle env k h args v w") auto
next
  case (Cons g hs)
  then obtain e where "Call env k g args ctx w = Some (False, e, w, [])" using Call_rejects by fastforce
  with Cons show ?case by (cases "handle env k h args v w") auto
qed

lemma InvokeDirect_first:
  assumes "map ce_function (equal_range name (contexts w ! k)) = hs @ h # hs'"
    and "seCheckPrivilege w (str_of ''command.'' @ name)"
    and "\<forall>g \<in> set hs. rejects (contexts w ! k) args g" "accepts (contexts w ! k) args h v"
  shows "InvokeDirect env k name args ctx w = handle env k h args v w"
proof -
  note a = attempts_first[OF assms(3,4), of env hs' ctx "[]"]
  show ?thesis
    using InvokeDirect_found[OF _ assms(2), of k env args ctx] assms(1) a
    by (cases "handle env k h args v w"; cases "equal_range name (contexts w ! k)") auto
qed

text \<open>Of the overloads of an allowed command, exactly the first one runs whose number and kinds of
  arguments fit; the ones before it have no effect and the ones behind it are not tried.\<close>

theorem first_fitting_overload_runs:
  assumes "map ce_function (equal_range name (contexts w ! k)) = hs @ h # hs'"
    and "seCheckPrivilege w (str_of ''command.'' @ name)"
    and "\<forall>g \<in> set hs. rejects (contexts w ! k) args g" "accepts (contexts w ! k) args h v"
  shows "InvokeDirect env k name args ctx w = handle env k h args v w"
  by (rule InvokeDirect_first[OF assms])

theorem first_fitting_overload_runs_witness:
  "InvokeDirect plain_env 0 (str_of ''toggle'') [[97], [98], [99]] [] (plain_world console_principal (new_console plain_env)) =
    on_context 0 (toggleCommand plain_env (seCheckPrivilege (plain_world console_principal (new_console plain_env))) [97] [98] [99])
      (plain_world console_principal (new_console plain_env))"
proof -
  let ?w = "plain_world console_principal (new_console plain_env)"
  have "InvokeDirect plain_env 0 (str_of ''toggle'') [[97], [98], [99]] [] ?w =
    handle plain_env 0 Toggle_values [[97], [98], [99]] (Str [97]) ?w"
    by (rule first_fitting_overload_runs[where hs = "[Toggle]" and hs' = "[]"])
      (simp_all add: plain_commands plain_allowed rejects_def accepts_def converted_def)
  then show ?thesis by simp
qed

text \<open>Commands and variables are found, and privileges are decided, alike for all spellings of a
  name: a command invoked under another spelling leads to the same state.\<close>

theorem spelling_is_irrelevant:
  assumes "fold_case a = fold_case b" "equal_range a (contexts w ! k) \<noteq> []"
  shows "map_option fst (InvokeDirect env k a args ctx w) = map_option fst (InvokeDirect env k b args ctx w) \<and>
    FindEntryRaw a c = FindEntryRaw b c \<and> GetEntryFlags a c = GetEntryFlags b c"
proof -
  have p: "seCheckPrivilege w (str_of ''command.'' @ a) = seCheckPrivilege w (str_of ''command.'' @ b)"
    by (rule se.command_spelling[OF assms(1) command_prefix])
  note eq = equal_range_spelling[OF assms(1)]
  have "map_option fst (InvokeDirect env k a args ctx w) = map_option fst (InvokeDirect env k b args ctx w)"
    using assms(2) p InvokeDirect_denied[of _ w k env args ctx] InvokeDirect_found[of _ w k env args ctx]
    by (cases "seCheckPrivilege w (str_of ''command.'' @ b)") (simp_all add: eq)
  then show ?thesis by (simp add: FindEntryRaw_def GetEntryFlags_def find_entry_spelling[OF assms(1)])
qed

theorem spelling_is_irrelevant_witness:
  "map_option fst (InvokeDirect plain_env 0 (str_of ''toggle'') [[120]] [] (plain_world nobody (new_console plain_env))) =
    map_option fst (InvokeDirect plain_env 0 (str_of ''Toggle'') [[120]] [] (plain_world nobody (new_console plain_env)))"
proof -
  let ?c = "new_console plain_env"
  have "equal_range (str_of ''toggle'') (contexts (plain_world nobody ?c) ! 0) \<noteq> []"
    using plain_commands(1) by auto
  from spelling_is_irrelevant[OF _ this, of "str_of ''Toggle''" plain_env "[[120]]" "[]" ?c] show ?thesis
    by (simp add: str_of_def fold_case_def to_lower_def)
qed

section \<open>What setting a value changes\<close>

definition with_value :: "val \<Rightarrow> var_object \<Rightarrow> var_object" where
  "with_value v x = x\<lparr>m_curValue := v, m_trackingVar := (case m_trackingVar x of None \<Rightarrow> None | Some _ \<Rightarrow> Some v)\<rparr>"

lemma SetRawValue_result:
  assumes "SetRawValue env priv i v c = Some (b, c', out)"
  obtains x where "objects c i = Some x"
    and "c' = c \<or> c' = set_object i (with_value v x) c \<or>
      c' = AddEntryFlags (m_name x) ConVar_Modified (set_object i (with_value v x) c)"
proof -
  obtain x where x: "objects c i = Some x" using assms by (cases "objects c i") (auto simp: SetRawValue_def)
  show thesis
  proof (rule that[OF x])
    show "c' = c \<or> c' = set_object i (with_value v x) c \<or>
      c' = AddEntryFlags (m_name x) ConVar_Modified (set_object i (with_value v x) c)"
      using assms by (simp add: SetRawValue_def x with_value_def MarkConsoleVarModified_def Let_def
          split: option.splits if_splits)
  qed
qed

lemma SetValue_result:
  assumes "SetValue env priv i s c = Some (b, c', out)"
  obtains x where "objects c i = Some x"
    and "c' = c \<or> GetEntryFlags (m_name x) c AND ConVar_ReadOnly = 0 \<and>
      (\<exists>v. c' = set_object i (with_value v x) c \<or>
        c' = AddEntryFlags (m_name x) ConVar_Modified (set_object i (with_value v x) c))"
proof -
  obtain x where x: "objects c i = Some x" using assms by (cases "objects c i") (auto simp: SetValue_def)
  show thesis
  proof (rule that[OF x])
    show "c' = c \<or> GetEntryFlags (m_name x) c AND ConVar_ReadOnly = 0 \<and>
      (\<exists>v. c' = set_object i (with_value v x) c \<or>
        c' = AddEntryFlags (m_name x) ConVar_Modified (set_object i (with_value v x) c))"
    proof (cases "GetEntryFlags (m_name x) c AND ConVar_ReadOnly = 0")
      case True
      then show ?thesis
      proof (cases "Parse_value (type_of (m_curValue x)) s")
        case (Some v)
        then have "SetRawValue env priv i v c = Some (b, c', out)" using assms x True by (simp add: SetValue_def)
        then show ?thesis using x True by (elim SetRawValue_result) auto
      qed (use assms x in \<open>simp add: SetValue_def\<close>)
    qed (use assms x in \<open>simp add: SetValue_def\<close>)
  qed
qed

lemma find_update_flags:
  "find_entry a (update_flags b f c) =
    map_option (\<lambda>e. if fold_case a = fold_case b then e\<lparr>ve_flags := f (ve_flags e)\<rparr> else e) (find_entry a c)"
proof -
  have "same_name b k \<longleftrightarrow> fold_case a = fold_case b" if "same_name a k" for k
    using that by (cases k) auto
  then have "map_option snd (List.find (\<lambda>(k, _). same_name a k)
      (map (\<lambda>(k, e). (k, if same_name b k then e\<lparr>ve_flags := f (ve_flags e)\<rparr> else e)) vs)) =
    map_option (\<lambda>e. if fold_case a = fold_case b then e\<lparr>ve_flags := f (ve_flags e)\<rparr> else e)
      (map_option snd (List.find (\<lambda>(k, _). same_name a k) vs))" for vs :: "(icase \<times> var_entry) list"
    by (induction vs) auto
  then show ?thesis by (simp add: find_entry_def update_flags_def)
qed

lemma find_set_object [simp]: "find_entry a (set_object i x c) = find_entry a c"
  by (simp add: find_entry_def set_object_def)

lemma find_modified_flags [simp]: "find_entry a (SetVariableModifiedFlags f c) = find_entry a c"
  by (simp add: find_entry_def SetVariableModifiedFlags_def)

lemma find_AddEntryFlags:
  "find_entry a (AddEntryFlags b f c) =
    map_option (\<lambda>e. if fold_case a = fold_case b then e\<lparr>ve_flags := ve_flags e OR f\<rparr> else e) (find_entry a c)"
proof (cases "find_entry b c")
  case None
  then have "fold_case a = fold_case b \<Longrightarrow> find_entry a c = None" using find_entry_spelling by metis
  then show ?thesis using None by (cases "find_entry a c") (auto simp: AddEntryFlags_def)
qed (simp add: AddEntryFlags_def find_update_flags)

lemma objects_of_flags [simp]:
  "objects (AddEntryFlags a f c) = objects c" "objects (update_flags a g c) = objects c"
  by (auto simp: AddEntryFlags_def SetVariableModifiedFlags_def update_flags_def split: option.split)

lemma modified_AddEntryFlags:
  "m_variableModifiedFlags (AddEntryFlags n f c) =
    (case find_entry n c of None \<Rightarrow> m_variableModifiedFlags c | Some e \<Rightarrow> m_variableModifiedFlags c OR (ve_flags e OR f))"
  by (auto simp: AddEntryFlags_def SetVariableModifiedFlags_def update_flags_def split: option.split)

lemma modified_set_object [simp]: "m_variableModifiedFlags (set_object i x c) = m_variableModifiedFlags c"
  by (simp add: set_object_def)

section \<open>Archived variables\<close>

text \<open>\<open>seta\<close> on a variable that exists and is not archived yet does not get the new value saved:
  the entry is archived afterwards, but the context is marked as modified with the flags from before, so
  that the periodic save does nothing.\<close>

theorem seta_not_saved:
  assumes "find_entry name c = Some e" "objects c (ve_variable e) = Some x" "fold_case (m_name x) = fold_case name"
    and "ve_flags e AND ConVar_Archive = 0" "m_variableModifiedFlags c AND ConVar_Archive = 0"
    and "setCommand env priv ConVar_Archive name s c = Some (c', out)"
    and "wasSavedBefore st" "clock env' div 1000000 - lastCheck st \<le> 2500"
  shows "GetEntryFlags name c' AND ConVar_Archive \<noteq> 0 \<and>
    SaveConfigurationIfNeeded env' priv path st c' = Some (st, c', [])"
proof -
  obtain b c1 where 1: "SetValue env priv (ve_variable e) s c = Some (b, c1, out)"
    and c': "c' = update_flags name (\<lambda>f. f OR ConVar_Archive) c1"
    using assms(6) by (auto simp: setCommand_def assms(1) split: bind_splits)
  have e: "find_entry (m_name x) c = Some e" using find_entry_spelling[OF assms(3)] assms(1) by simp
  have "find_entry name c1 \<noteq> None \<and> m_variableModifiedFlags c1 AND ConVar_Archive = 0"
    using SetValue_result[OF 1]
  proof cases
    case (1 y)
    then have [simp]: "y = x" using assms(2) by simp
    have m: "m_variableModifiedFlags (AddEntryFlags (m_name x) ConVar_Modified (set_object i z c)) =
        m_variableModifiedFlags c OR (ve_flags e OR ConVar_Modified)" for i z
      by (simp add: modified_AddEntryFlags e)
    have "(m_variableModifiedFlags c OR (ve_flags e OR ConVar_Modified)) AND ConVar_Archive = 0"
      using assms(4,5) by (simp add: bit.conj_disj_distrib2 flag_defs)
    then show ?thesis using 1(2) assms(1,5) m
      by (auto simp: find_AddEntryFlags)
  qed
  then obtain e1 where e1: "find_entry name c1 = Some e1" and m: "m_variableModifiedFlags c1 AND ConVar_Archive = 0"
    by auto
  have "(ve_flags e1 OR ConVar_Archive) AND ConVar_Archive = ConVar_Archive" by (simp add: bit.conj_disj_distrib2)
  then have "GetEntryFlags name c' AND ConVar_Archive \<noteq> 0"
    by (simp add: c' GetEntryFlags_def find_update_flags e1 ConVar_Archive_def)
  moreover have "m_variableModifiedFlags c' AND ConVar_Archive = 0" using m by (simp add: c' update_flags_def)
  ultimately show ?thesis using assms(7,8) by (simp add: SaveConfigurationIfNeeded_def Let_def)
qed

text \<open>A console with one variable.\<close>

definition one_variable :: "32 word \<Rightarrow> val \<Rightarrow> val option \<Rightarrow> console" where
  "one_variable flags v t = (new_console plain_env)\<lparr>variables := [(Icase [120], \<lparr>ve_name = [120], ve_flags = flags,
      ve_variable = 0, ve_token = 0\<rparr>)],
    objects := [0 \<mapsto> \<lparr>m_name = [120], m_curValue = v, m_offlineValue = None, m_constraints = None, m_defaultValue = v,
      m_trackingVar = t, m_onChangeCallback = False, m_getCommand = 0, m_setCommand = 0\<rparr>]\<rparr>"

lemma one_variable_simps [simp]:
  "find_entry [120] (one_variable flags v t) = Some \<lparr>ve_name = [120], ve_flags = flags, ve_variable = 0, ve_token = 0\<rparr>"
  "objects (one_variable flags v t) 0 = Some \<lparr>m_name = [120], m_curValue = v, m_offlineValue = None,
      m_constraints = None, m_defaultValue = v, m_trackingVar = t, m_onChangeCallback = False, m_getCommand = 0, m_setCommand = 0\<rparr>"
  "m_variableModifiedFlags (one_variable flags v t) = 0"
  by (simp_all add: one_variable_def find_entry_def new_console_def plain_env_def Register_command_def)

theorem seta_not_saved_witness:
  "\<exists>c' out. setCommand plain_env (\<lambda>_. True) ConVar_Archive [120] [50] (one_variable 0 (Str [49]) None) = Some (c', out) \<and>
    GetEntryFlags [120] c' AND ConVar_Archive \<noteq> 0 \<and>
    SaveConfigurationIfNeeded plain_env (\<lambda>_. True) [] \<lparr>lastCheck = 5000, wasSavedBefore = True\<rparr> c' =
      Some (\<lparr>lastCheck = 5000, wasSavedBefore = True\<rparr>, c', [])"
proof -
  have "\<exists>r. setCommand plain_env (\<lambda>_. True) ConVar_Archive [120] [50] (one_variable 0 (Str [49]) None) = Some r"
    by (simp add: setCommand_def SetValue_def GetEntryFlags_def SetRawValue_def plain_env_def MarkConsoleVarModified_def)
  then obtain c' out where c': "setCommand plain_env (\<lambda>_. True) ConVar_Archive [120] [50] (one_variable 0 (Str [49]) None) = Some (c', out)"
    by auto
  have "GetEntryFlags [120] c' AND ConVar_Archive \<noteq> 0 \<and>
    SaveConfigurationIfNeeded plain_env (\<lambda>_. True) [] \<lparr>lastCheck = 5000, wasSavedBefore = True\<rparr> c' =
      Some (\<lparr>lastCheck = 5000, wasSavedBefore = True\<rparr>, c', [])"
    by (rule seta_not_saved[OF one_variable_simps(1), unfolded var_entry.simps, OF one_variable_simps(2) _ _ _ c'])
      (simp_all add: plain_env_def)
  then show ?thesis using c' by blast
qed

text \<open>A change of a tracked variable that is seen by a read of the console variable first is
  swallowed: the periodic check no longer notices it, no change event is raised, and an archived
  variable is not saved.\<close>

theorem tracked_change_swallowed:
  assumes "objects c i = Some x" "m_trackingVar x = Some t" "t \<noteq> m_curValue x" "GetValue i c = Some (s, c')"
  shows "s = Unparse_value t \<and> UpdateTrackingVariable env priv i c' = Some (c', []) \<and>
    m_variableModifiedFlags c' = m_variableModifiedFlags c \<and> variables c' = variables c"
  using assms by (auto simp: GetValue_def UpdateTrackingVariable_def set_object_def)

theorem tracked_change_swallowed_witness:
  "\<exists>c'. GetValue 0 (one_variable 1 (Integer 5) (Some (Integer 7))) = Some (str_of ''7'', c') \<and>
    UpdateTrackingVariable plain_env (\<lambda>_. True) 0 c' = Some (c', []) \<and> m_variableModifiedFlags c' = 0"
proof -
  let ?c = "one_variable 1 (Integer 5) (Some (Integer 7))"
  obtain s c' where g: "GetValue 0 ?c = Some (s, c')" by (simp add: GetValue_def Let_def)
  from tracked_change_swallowed[OF one_variable_simps(2) _ _ g, of "Integer 7" plain_env "\<lambda>_. True"]
  have "s = Unparse_value (Integer 7)" "UpdateTrackingVariable plain_env (\<lambda>_. True) 0 c' = Some (c', [])"
    "m_variableModifiedFlags c' = 0" by auto
  moreover have "Unparse_value (Integer 7) = str_of ''7''"
    by (simp add: show_int_def show_nat.simps digit_def str_of_def)
  ultimately show ?thesis using g by auto
qed

section \<open>Read-only variables\<close>

text \<open>Object \<open>i\<close> is not tracked, its name is registered as read-only, and its value is \<open>v\<close>.\<close>

definition fixed_at :: "nat \<Rightarrow> val \<Rightarrow> console \<Rightarrow> bool" where
  "fixed_at i v c \<longleftrightarrow> (\<exists>x. objects c i = Some x \<and> m_curValue x = v \<and> m_trackingVar x = None \<and>
     GetEntryFlags (m_name x) c AND ConVar_ReadOnly \<noteq> 0)"

lemma fixed_frame [frame]:
  "fixed_at i v (c\<lparr>m_rawCommand := raw\<rparr>) = fixed_at i v c" "fixed_at i v (c\<lparr>m_commandBuffer := buf\<rparr>) = fixed_at i v c"
  "fixed_at i v (c\<lparr>waitUntil := t\<rparr>) = fixed_at i v c" "fixed_at i v (c\<lparr>var_refs := r\<rparr>) = fixed_at i v c"
  "fixed_at i v (c\<lparr>commands := cs\<rparr>) = fixed_at i v c"
  by (simp_all add: fixed_at_def GetEntryFlags_def find_entry_def)

text \<open>Flags are only added, and other objects written.\<close>

lemma read_only_or: "(f :: 32 word) AND ConVar_ReadOnly \<noteq> 0 \<Longrightarrow> (f OR g) AND ConVar_ReadOnly \<noteq> 0"
  by (simp add: bit.conj_disj_distrib2 or_eq_0_iff)

lemma fixed_update_flags: "fixed_at i v c \<Longrightarrow> fixed_at i v (update_flags name (\<lambda>f. f OR g) c)"
  unfolding fixed_at_def
  by (auto simp: GetEntryFlags_def find_update_flags read_only_or split: option.splits)

lemma fixed_AddEntryFlags: "fixed_at i v c \<Longrightarrow> fixed_at i v (AddEntryFlags name g c)"
  unfolding fixed_at_def
  by (auto simp: GetEntryFlags_def find_AddEntryFlags read_only_or split: option.splits)

lemma fixed_set_object: "fixed_at i v c \<Longrightarrow> j \<noteq> i \<Longrightarrow> fixed_at i v (set_object j x c)"
  unfolding fixed_at_def GetEntryFlags_def find_set_object by (simp add: set_object_def)

lemma fixed_SetRawValue:
  assumes "fixed_at i v c" "SetRawValue env priv j u c = Some (b, c', out)" "j \<noteq> i"
  shows "fixed_at i v c'"
  using assms(2) by (elim SetRawValue_result)
    (auto simp: assms(1) fixed_AddEntryFlags fixed_set_object[OF assms(1,3)])

lemma fixed_SetValue:
  assumes "fixed_at i v c" "SetValue env priv j s c = Some (b, c', out)"
  shows "fixed_at i v c'"
  using assms(2)
proof (rule SetValue_result)
  fix x assume x: "objects c j = Some x" and c': "c' = c \<or> GetEntryFlags (m_name x) c AND ConVar_ReadOnly = 0 \<and>
      (\<exists>v. c' = set_object j (with_value v x) c \<or>
        c' = AddEntryFlags (m_name x) ConVar_Modified (set_object j (with_value v x) c))"
  show "fixed_at i v c'"
  proof (cases "j = i")
    case True
    then show ?thesis using assms(1) c' x by (auto simp: fixed_at_def)
  next
    case False
    then show ?thesis using assms(1) c' by (auto simp: fixed_AddEntryFlags fixed_set_object)
  qed
qed

lemma fixed_GetValue:
  assumes "fixed_at i v c" "GetValue j c = Some (s, c')"
  shows "fixed_at i v c'"
proof (cases "j = i")
  case True
  obtain x where x: "objects c i = Some x" "m_trackingVar x = None" using assms(1) by (auto simp: fixed_at_def)
  then have "c' = set_object i x c" using assms(2) True by (simp add: GetValue_def)
  then have "c' = c" using x(1) by (simp add: set_object_def fun_upd_idem)
  then show ?thesis using assms(1) by simp
next
  case False
  have "\<exists>x. c' = set_object j x c"
    using assms(2) by (cases "objects c j") (auto simp: GetValue_def Let_def)
  then show ?thesis using assms(1) False fixed_set_object by auto
qed

text \<open>A new variable takes a new object and a name that was free.\<close>

lemma find_multi_insert:
  "\<not> P (k, v) \<Longrightarrow> List.find P (multi_insert k v m) = List.find P m"
  by (induction k v m rule: multi_insert.induct) auto

lemma fixed_find: "fixed_at i v c \<Longrightarrow> \<exists>x. objects c i = Some x \<and> find_entry (m_name x) c \<noteq> None"
  by (auto simp: fixed_at_def GetEntryFlags_def split: option.splits)

lemma fixed_new_object:
  assumes "console_ok c" "fixed_at i v c" "ConsoleVariableEntry name u c = (j, c')"
  shows "fixed_at i v c'" "j \<noteq> i"
proof -
  note n = ok_new_object[OF assms(1,3)]
  show "j \<noteq> i" using assms(2) n(2) console_okD(5)[OF assms(1), of i] by (auto simp: fixed_at_def)
  then have "objects c' i = objects c i" using n(3) by (metis fun_upd_other)
  moreover have "find_entry a c' = find_entry a c" for a using n(7) by (simp add: find_entry_def)
  ultimately show "fixed_at i v c'" using assms(2) by (simp add: fixed_at_def GetEntryFlags_def)
qed

lemma fixed_Register_free:
  assumes "fixed_at i v c" "find_entry name c = None" "Register name flags j c = (t, c')"
  shows "fixed_at i v c'"
proof -
  have none: "filter (\<lambda>(k, _). same_name name k) (variables c) = []"
    using assms(2) by (auto simp: find_entry_def find_None_iff filter_empty_conv)
  have all: "filter (\<lambda>(k, _). \<not> same_name name k) (variables c) = variables c"
    using none by (auto simp: filter_empty_conv filter_id_conv)
  have c': "c' = c\<lparr>variable_token := variable_token c + 1, variables := multi_insert (Icase name)
      \<lparr>ve_name = name, ve_flags = flags, ve_variable = j, ve_token = variable_token c\<rparr> (variables c)\<rparr>"
    using arg_cong[OF assms(3), of snd] by (simp add: Register_def Let_def none all)
  obtain x where x: "objects c i = Some x" "find_entry (m_name x) c \<noteq> None" using fixed_find[OF assms(1)] by blast
  then have "fold_case name \<noteq> fold_case (m_name x)" using assms(2) find_entry_spelling by metis
  then have "find_entry (m_name x) c' = find_entry (m_name x) c"
    by (simp add: c' find_entry_def find_multi_insert)
  then show ?thesis using assms(1) x by (auto simp: fixed_at_def GetEntryFlags_def c')
qed

lemma fixed_drop:
  assumes "fixed_at i v c" "j \<noteq> i"
  shows "fixed_at i v (drop_object j c)"
proof -
  have "objects (drop_object j c) i = objects c i" using assms(2)
    by (auto simp: drop_object_def collect_object_def Unregister_command_def split: option.split)
  moreover have "variables (drop_object j c) = variables c"
    by (auto simp: drop_object_def collect_object_def Unregister_command_def split: option.split)
  ultimately show ?thesis using assms(1) by (simp add: fixed_at_def GetEntryFlags_def find_entry_def)
qed

lemma fixed_setCommand:
  assumes "console_ok c" "fixed_at i v c" "setCommand env priv flags name s c = Some (c', out)"
  shows "fixed_at i v c'"
proof (cases "find_entry name c")
  case (Some e)
  then obtain b c1 where "SetValue env priv (ve_variable e) s c = Some (b, c1, out)"
    "c' = update_flags name (\<lambda>f. f OR flags) c1"
    using assms(3) by (auto simp: setCommand_def split: bind_splits)
  then show ?thesis using fixed_SetValue[OF assms(2)] fixed_update_flags by blast
next
  case None
  obtain j c1 where n: "ConsoleVariableEntry name (Str []) c = (j, c1)" by force
  obtain t c2 where r: "Register name (ConVar_Modified OR flags) j c1 = (t, c2)" by force
  have create: "CreateVariableEntry env priv name (Str []) c = Some (j, c1, [])"
    using None n by (simp add: CreateVariableEntry_def FindEntryRaw_def)
  obtain b c3 out' where "SetValue env priv j s c2 = Some (b, c3, out')" "c' = drop_object j c3"
    using assms(3) None create r by (auto simp: setCommand_def split: bind_splits)
  moreover have "find_entry name c1 = None"
    using None ok_new_object(7)[OF assms(1) n] by (simp add: find_entry_def)
  ultimately show ?thesis
    using fixed_new_object[OF assms(1,2) n] fixed_Register_free[OF _ _ r] fixed_SetValue fixed_drop by blast
qed

lemma fixed_toggleCommand:
  assumes "fixed_at i v c" "toggleCommand env priv name a b c = Some (c', out)"
  shows "fixed_at i v c'"
proof (cases "FindEntryRaw name c")
  case None
  then show ?thesis using assms by (simp add: toggleCommand_def)
next
  case (Some j)
  then obtain s c1 ok t where 1: "GetValue j c = Some (s, c1)" "SetValue env priv j t c1 = Some (ok, c', out)"
    using assms(2) by (auto simp: toggleCommand_def split: bind_splits)
  show ?thesis by (rule fixed_SetValue[OF fixed_GetValue[OF assms(1) 1(1)] 1(2)])
qed

lemma fixed_vstrCommand:
  assumes "fixed_at i v c" "vstrCommand name c = Some c'"
  shows "fixed_at i v c'"
proof (cases "FindEntryRaw name c")
  case None
  then show ?thesis using assms by (simp add: vstrCommand_def)
next
  case (Some j)
  then obtain s c1 where 1: "GetValue j c = Some (s, c1)" "c' = AddToBuffer (s @ [10]) c1"
    using assms(2) by (auto simp: vstrCommand_def split: bind_splits)
  show ?thesis using fixed_GetValue[OF assms(1) 1(1)] 1(2) by (simp add: AddToBuffer_def frame)
qed

lemma fixed_getCommand:
  assumes "fixed_at i v c" "getCommand env j c = Some (c', out)"
  shows "fixed_at i v c'"
proof -
  obtain s where "GetValue j c = Some (s, c')" using assms(2) by (auto simp: getCommand_def split: bind_splits)
  then show ?thesis by (rule fixed_GetValue[OF assms(1)])
qed

lemma fixed_setVariableCommand:
  assumes "fixed_at i v c" "setVariableCommand env priv j u c = Some (c', out)"
  shows "fixed_at i v c'"
proof -
  obtain y where y: "objects c j = Some y" using assms(2) by (cases "objects c j") (auto simp: setVariableCommand_def)
  show ?thesis
  proof (cases "GetEntryFlags (m_name y) c AND ConVar_ReadOnly = 0")
    case True
    then have "j \<noteq> i" using assms(1) y by (auto simp: fixed_at_def)
    moreover from True y assms(2) obtain b where "SetRawValue env priv j u c = Some (b, c', out)"
      by (auto simp: setVariableCommand_def)
    ultimately show ?thesis using fixed_SetRawValue[OF assms(1)] by blast
  next
    case False
    then show ?thesis using assms y by (simp add: setVariableCommand_def)
  qed
qed

lemma fixed_on_context:
  assumes "on_context k f w = Some (w', out)" "fixed_at i v (contexts w ! j)" "j < length (contexts w)"
    and "\<And>c' out. f (contexts w ! k) = Some (c', out) \<Longrightarrow> fixed_at i v (contexts w ! k) \<Longrightarrow> fixed_at i v c'"
  shows "fixed_at i v (contexts w' ! j) \<and> j < length (contexts w')"
  using assms by (auto simp: on_context_def nth_list_update split: if_splits bind_splits)

lemma fixed_list_line:
  assumes "list_line k name w = Some (w', out)" "fixed_at i v (contexts w ! j) \<and> j < length (contexts w)"
  shows "fixed_at i v (contexts w' ! j) \<and> j < length (contexts w')"
proof -
  let ?show = "\<lambda>i c. do {
    (v, c) \<leftarrow> GetValue i c;
    Some (c, [Printf (str_of ''CmdSystem'') (name @ str_of '' = '' @ v @ str_of ''^7'' @ [10])]) }"
  have "fixed_at i v c'" if "?show n c = Some (c', out)" "fixed_at i v c" for n c c' out
    using that fixed_GetValue[OF that(2)] by (auto split: bind_splits)
  then have *: "fixed_at i v (contexts w' ! j) \<and> j < length (contexts w')"
    if "on_context n (?show m) w = Some (w', out)" for n m
    using fixed_on_context[OF that] assms(2) by blast
  from assms(1) have "w' = w \<or> (\<exists>n m. on_context n (?show m) w = Some (w', out))"
    unfolding list_line_def Let_def by (auto split: if_splits option.splits)
  then show ?thesis using * assms(2) by blast
qed

lemma fixed_handle:
  assumes "world_ok w" "k < length (contexts w)" "handle env k h args u w = Some (w', out)"
    and "fixed_at i v (contexts w ! j)" "j < length (contexts w)"
  shows "fixed_at i v (contexts w' ! j) \<and> j < length (contexts w')"
proof -
  note on = fixed_on_context[OF _ assms(4,5)] and ok = world_okD[OF assms(1,2)]
  have v: "fixed_at i v c'" if "map_option (\<lambda>c. (c, [])) (vstrCommand name c) = Some (c', out)" "fixed_at i v c"
    for name c c' and out :: "console_effect list"
    using that fixed_vstrCommand by auto
  show ?thesis
  proof (cases h)
    case Wait
    show ?thesis
      by (rule on[OF assms(3)[unfolded Wait handle.simps]]) (auto simp: silent_def waitCommand_def frame)
  next
    case Cmdlist
    then have "cmdlistCommand k w = Some (w', out)" using assms(3) by simp
    then show ?thesis unfolding cmdlistCommand_def Let_def
      by (rule each_invariant[rotated]) (use assms(4,5) fixed_list_line in auto)
  next
    case h: (Set_command flags)
    show ?thesis by (rule on[OF assms(3)[unfolded h handle.simps]]) (rule fixed_setCommand[OF ok])
  next
    case Toggle
    show ?thesis by (rule on[OF assms(3)[unfolded Toggle handle.simps]]) (rule fixed_toggleCommand)
  next
    case Toggle_values
    show ?thesis by (rule on[OF assms(3)[unfolded Toggle_values handle.simps]]) (rule fixed_toggleCommand)
  next
    case Vstr
    show ?thesis by (rule on[OF assms(3)[unfolded Vstr handle.simps]]) (rule v)
  next
    case Vstr_hold
    show ?thesis by (rule on[OF assms(3)[unfolded Vstr_hold handle.simps]]) (rule v)
  next
    case Vstr_release
    show ?thesis by (rule on[OF assms(3)[unfolded Vstr_release handle.simps]]) (rule v)
  next
    case h: (Get_variable n)
    show ?thesis by (rule on[OF assms(3)[unfolded h handle.simps]]) (rule fixed_getCommand)
  next
    case h: (Set_variable n)
    show ?thesis by (rule on[OF assms(3)[unfolded h handle.simps]]) (rule fixed_setVariableCommand)
  next
    case (External e)
    then show ?thesis using assms(3-5) by simp
  qed
qed

lemma Call_builtin_result:
  assumes "\<And>e. h \<noteq> External e" "Call env k h args ctx w = Some (ok, err, w', out)"
  shows "\<not> ok \<and> w' = w \<or> ok \<and> (\<exists>u. handle env k h args u w = Some (w', out))"
  using assms(2) unfolding Call_builtin[OF assms(1)] by (auto split: if_splits option.splits bind_splits)

lemma fixed_attempts:
  assumes "world_ok w" "k < length (contexts w)" "\<forall>h \<in> set hs. \<forall>e. h \<noteq> External e"
    and "fixed_at i v (contexts w ! j)" "j < length (contexts w)"
    and "attempts env k hs args ctx err w = Some (ok, err', w', out)"
  shows "fixed_at i v (contexts w' ! j)"
  using assms(3,6)
proof (induction hs arbitrary: err out)
  case (Cons h hs)
  then obtain ok1 err1 w1 out1 where 1: "Call env k h args ctx w = Some (ok1, err1, w1, out1)"
    by (auto split: bind_splits)
  have h: "\<And>e. h \<noteq> External e" using Cons.prems by auto
  from Call_builtin_result[OF h 1] show ?case
  proof (elim disjE conjE exE)
    assume "\<not> ok1" "w1 = w"
    then show ?thesis using Cons 1 by (auto split: bind_splits)
  next
    fix u assume "ok1" "handle env k h args u w = Some (w1, out1)"
    then show ?thesis using Cons.prems(2) 1 fixed_handle[OF assms(1,2) _ assms(4,5)] by auto
  qed
qed (use assms(4) in simp)

lemma builtin_set_raw:
  assumes "\<forall>c \<in> set (contexts w). builtin_only c" "k < length (contexts w)"
  shows "\<forall>c \<in> set (contexts (set_raw k raw w)). builtin_only c"
proof -
  have "builtin_only (contexts w ! k)" using assms by simp
  then have "builtin_only ((contexts w ! k)\<lparr>m_rawCommand := raw\<rparr>)" by (simp add: builtin_only_def)
  then show ?thesis using assms(1) set_update_subset_insert[of "contexts w" k] by (auto simp: set_raw_def)
qed

text \<open>A read-only variable cannot be changed by commands: whatever built-in command is invoked,
  under whatever name, with whatever arguments and in whatever context of the chain, a variable that is
  not tracked and whose name is flagged read-only keeps its value and its flag.\<close>

theorem read_only_value_kept:
  assumes "world_reachable E w" "\<forall>env \<in> E. env_ok env"
    and "\<forall>c \<in> set (contexts w). builtin_only c"
    and "k < length (contexts w)" "j < length (contexts w)" "fixed_at i v (contexts w ! j)"
    and "InvokeDirect env k name args ctx w = Some (w', out)"
  shows "fixed_at i v (contexts w' ! j)"
proof -
  have "world_ok w" by (rule world_reachable_ok[OF assms(1,2)])
  then show ?thesis using assms(3-7)
  proof (induction env k name args ctx w arbitrary: out rule: InvokeDirect.induct)
    case (1 env k name args ctx w)
    let ?fs = "map ce_function (equal_range name (contexts w ! k))"
    show ?case
    proof (cases "?fs = []")
      case True
      let ?w = "set_raw (k + 1) (m_rawCommand (contexts w ! k)) w"
      show ?thesis
      proof (cases "fallback_result env k name args ctx \<and> k + 1 < length (contexts w)")
        case rec: True
        obtain out1 where r: "InvokeDirect env (k + 1) name args ctx ?w = Some (w', out1)"
          using "1.prems"(6) InvokeDirect_next[of name w k env args ctx] True rec
          by (cases "InvokeDirect env (k + 1) name args ctx ?w") auto
        have "contexts ?w ! j = contexts w ! j \<or> contexts ?w ! j = (contexts w ! j)\<lparr>m_rawCommand := m_rawCommand (contexts w ! k)\<rparr>"
          using "1.prems"(4) by (cases "j = k + 1") (auto simp: set_raw_def)
        then have f: "fixed_at i v (contexts ?w ! j)" using "1.prems"(5) by (auto simp: frame)
        have ext: "\<forall>c \<in> set (contexts ?w). builtin_only c"
          using builtin_set_raw[OF "1.prems"(2)] rec by blast
        show ?thesis
          by (rule "1.IH"[OF refl True refl _ _ _ ext _ _ f r])
            (use rec "1.prems"(1,4) goodD(1)[OF world_ok_set_raw] in auto)
      next
        case False
        then have "w' = w" using "1.prems"(6) InvokeDirect_stop[of name w k env args ctx] True by simp
        then show ?thesis using "1.prems"(5) by simp
      qed
    next
      case False
      have "builtin_only (contexts w ! k)" using "1.prems"(2,3) by simp
      then have no: "\<forall>h \<in> set ?fs. \<forall>e. h \<noteq> External e" by (auto simp: equal_range_def builtin_only_def)
      from "1.prems"(6) False have "w' = w \<or> (\<exists>ok err out1. attempts env k ?fs args ctx [] w = Some (ok, err, w', out1))"
        using InvokeDirect_denied[of name w k env args ctx] InvokeDirect_found[of name w k env args ctx]
        by (cases "seCheckPrivilege w (str_of ''command.'' @ name)"; cases "attempts env k ?fs args ctx [] w") auto
      then show ?thesis using "1.prems"(5) fixed_attempts[OF "1.prems"(1,3) no "1.prems"(5,4)] by blast
    qed
  qed
qed

text \<open>A server whose variable \<open>x\<close> was created read-only.\<close>

theorem read_only_value_kept_witness:
  "\<exists>v c out w' out'. make_ConVar plain_env (\<lambda>_. True) [120] ConVar_ReadOnly (Str [49]) False False (new_console plain_env) = Some (v, c, out) \<and>
    InvokeDirect plain_env 0 (str_of ''set'') [[120], [50]] [] (plain_world console_principal c) = Some (w', out') \<and>
    fixed_at 0 (Str [49]) (contexts w' ! 0)"
proof -
  let ?make = "make_ConVar plain_env (\<lambda>_. True) [120] ConVar_ReadOnly (Str [49]) False False (new_console plain_env)"
  note defs = make_ConVar_def CreateVariableEntry_def FindEntryRaw_def plain_commands ConsoleVariableEntry_def
    Register_command_def Register_def Let_def
  have zero: "next_object (new_console plain_env) = 0" "variables (new_console plain_env) = []"
    by (simp_all add: new_console_def plain_env_def Register_command_def)
  obtain v c where c: "?make = Some (v, c, [])" by (simp add: defs)
  have f: "fixed_at 0 (Str [49]) c"
    using c by (auto simp: defs zero fixed_at_def GetEntryFlags_def find_entry_def ConVar_ReadOnly_def)
  have b: "builtin_only c"
    using c plain_builtin unfolding builtin_only_def by (simp add: defs zero) (elim conjE, hypsubst, simp)
  have "world_reachable {plain_env} ((plain_world console_principal (new_console plain_env))
      \<lparr>contexts := (contexts (plain_world console_principal (new_console plain_env)))[0 := c]\<rparr>)"
    by (rule world_reachable.interface[OF plain_reachable]) (use console_step.convar[OF c] in simp_all)
  then have r: "world_reachable {plain_env} (plain_world console_principal c)" by (simp add: plain_world_def)
  then have "world_ok (plain_world console_principal c)" by (rule world_reachable_ok) (simp add: plain_env_ok)
  from InvokeDirect_fine[OF env_ok_keeps[OF plain_env_ok] this, of 0 "str_of ''set''" "[[120], [50]]" "[]"] obtain w' out' where
    i: "InvokeDirect plain_env 0 (str_of ''set'') [[120], [50]] [] (plain_world console_principal c) = Some (w', out')"
    by (auto simp: fine_def plain_others_return split: option.splits)
  have "fixed_at 0 (Str [49]) (contexts w' ! 0)"
    by (rule read_only_value_kept[OF r _ _ _ _ _ i]) (simp_all add: plain_env_ok b f)
  then show ?thesis using c i by blast
qed

end
