(* ===== verification/Console_Configuration.thy ===== *)
theory Console_Configuration
  imports Console_Properties
begin

unbundle bit_operations_syntax

text \<open>
  The saved configuration as text: which variables it brings back when it is executed again, from
  the cutting of the file into commands to the value of the variable, and which texts of values
  turn into commands of their own.
\<close>

section \<open>The line of a variable\<close>





section \<open>Cutting the file\<close>

lemma command_end_quoted:
  "set s \<inter> {34, 13, 10} = {} \<Longrightarrow> command_end json True (s @ r) = map_option ((+) (length s)) (command_end json True r)"
proof (induction s)
  case Nil
  then show ?case by (cases "command_end json True r") auto
next
  case (Cons c s)
  then show ?case
    by (subst command_end.simps) (cases "command_end json True r", auto simp: Let_def)
qed

lemma command_end_plain:
  "set s \<inter> {34, 59, 13, 10, 123, 91} = {} \<Longrightarrow>
    command_end json False (s @ r) = map_option ((+) (length s)) (command_end json False r)"
proof (induction s)
  case Nil
  then show ?case by (cases "command_end json False r") auto
next
  case (Cons c s)
  then show ?case
    by (subst command_end.simps) (cases "command_end json False r", auto simp: Let_def)
qed

lemma command_end_quote:
  "command_end json q (34 # r) = map_option Suc (command_end json (\<not> q) r)"
  by (subst command_end.simps) (cases "command_end json (\<not> q) r", auto simp: Let_def)

lemma command_end_break: "c = 13 \<or> c = 10 \<Longrightarrow> command_end json q (c # r) = Some 0"
  by (subst command_end.simps) (auto simp: Let_def)

lemma split_buffer_step:
  assumes "command_end json False (c @ s # r) = Some (length c)"
  shows "split_buffer json trim (c @ s # r) =
    (if is_wait trim c then Some ([c], r) else map_option (\<lambda>(cs, rest). (c # cs, rest)) (split_buffer json trim r))"
  using assms by (subst split_buffer.simps) (cases "split_buffer json trim r", auto)

lemma split_buffer_Nil [simp]: "split_buffer json trim [] = Some ([], [])"
  by (subst split_buffer.simps) simp

text \<open>A command and the line break behind it; the line feed behind a carriage return ends an empty command.\<close>

lemma split_buffer_line:
  assumes "command_end json False (c @ 13 # 10 # r) = Some (length c)" "\<not> is_wait trim c" "\<not> is_wait trim []"
  shows "split_buffer json trim (c @ 13 # 10 # r) =
    map_option (\<lambda>(cs, rest). (c # [] # cs, rest)) (split_buffer json trim r)"
proof -
  have "split_buffer json trim (10 # r) = map_option (\<lambda>(cs, rest). ([] # cs, rest)) (split_buffer json trim r)"
    using split_buffer_step[of json "[]" 10 r trim] assms(3) command_end_break[of 10 json False r] by simp
  then show ?thesis
    using split_buffer_step[OF assms(1), of trim] assms(2) by (cases "split_buffer json trim r") auto
qed

lemma save_line_end:
  assumes "set name \<inter> {34, 13, 10} = {}" "set v \<inter> {34, 13, 10} = {}" "s = 13 \<or> s = 10"
  shows "command_end json False (save_line name v @ s # r) = Some (length (save_line name v))"
    and "command_end json False (str_of ''seta '' @ [34] @ name @ [34, 32, 34] @ v @ s # r) =
      Some (length (str_of ''seta '' @ [34] @ name @ [34, 32, 34] @ v))"
proof -
  have seta: "set (str_of ''seta '') \<inter> {34, 59, 13, 10, 123, 91} = {}" "set [32 :: 8 word] \<inter> {34, 59, 13, 10, 123, 91} = {}"
    by (simp_all add: str_of_def)
  note steps = command_end_plain[OF seta(1)] command_end_plain[OF seta(2), simplified] command_end_quote
    command_end_quoted[OF assms(1)] command_end_quoted[OF assms(2)] command_end_break[OF assms(3)]
  show "command_end json False (save_line name v @ s # r) = Some (length (save_line name v))"
    unfolding save_line_def by (simp add: steps)
  show "command_end json False (str_of ''seta '' @ [34] @ name @ [34, 32, 34] @ v @ s # r) =
      Some (length (str_of ''seta '' @ [34] @ name @ [34, 32, 34] @ v))"
    by (simp add: steps)
qed

text \<open>What \<open>boost::algorithm::trim_left\<close> does.\<close>

definition trims :: "(str \<Rightarrow> str) \<Rightarrow> bool" where
  "trims trim \<longleftrightarrow> (\<forall>s. trim s = dropWhile is_space s)"

lemma no_wait:
  assumes "trims trim"
  shows "\<not> is_wait trim []" "\<not> is_wait trim (str_of ''seta '' @ s)" "\<not> is_wait trim (str_of ''//'' @ s)"
  using assms by (simp_all add: is_wait_def trims_def str_of_def is_space_def)

section \<open>Executing the file\<close>



lemma objects_set_object [simp]: "objects (set_object i x c) = (objects c)(i \<mapsto> x)"
  by (simp add: set_object_def)

lemma commands_set_object [simp]: "commands (set_object i x c) = commands c"
  by (simp add: set_object_def)




text \<open>The outcome: the variable exists, is archived and has the value.\<close>

definition restored :: "str \<Rightarrow> str \<Rightarrow> console \<Rightarrow> bool" where
  "restored name v c \<longleftrightarrow> (\<exists>e x. find_entry name c = Some e \<and> ve_flags e AND ConVar_Archive \<noteq> 0 \<and>
     objects c (ve_variable e) = Some x \<and> m_curValue x = Str v)"



definition reloaded :: "(str \<times> str) set \<Rightarrow> console \<Rightarrow> bool" where
  "reloaded D c \<longleftrightarrow> console_ok c \<and> name_keys.ordered (commands c) \<and>
     (\<exists>hs. map ce_function (equal_range (str_of ''seta'') c) = Set_command ConVar_Archive # hs) \<and>
     (\<forall>(n, v) \<in> D. restored n v c) \<and> (\<forall>name. find_entry name c \<noteq> None \<longrightarrow> fold_case name \<in> (fold_case \<circ> fst) ` D)"

lemma reloaded_frame [frame]:
  "reloaded D (c\<lparr>m_rawCommand := raw\<rparr>) = reloaded D c" "reloaded D (c\<lparr>m_commandBuffer := buf\<rparr>) = reloaded D c"
  "reloaded D (c\<lparr>waitUntil := t\<rparr>) = reloaded D c" "reloaded D (c\<lparr>m_executing := b\<rparr>) = reloaded D c"
  by (simp_all add: reloaded_def restored_def frame find_entry_def equal_range_def)











section \<open>What is saved\<close>





section \<open>Properties\<close>




text \<open>A line break in a value leaves the quotes: of the saved line of such a value, the part of
  the value behind the break is executed as a command of its own when the configuration is read back.\<close>

theorem saved_line_break_executes:
  assumes "trims trim" "set name \<inter> {34, 13, 10} = {}" "set v1 \<inter> {34, 13, 10} = {}"
    and "set v2 \<inter> {34, 59, 13, 10, 123, 91} = {}" "\<not> is_wait trim (v2 @ [34])"
  shows "\<exists>before. split_buffer json trim (save_line name (v1 @ [10] @ v2) @ [13, 10]) = Some ([before, v2 @ [34], []], [])"
proof -
  let ?b = "str_of ''seta '' @ [34] @ name @ [34, 32, 34] @ v1"
  have line: "save_line name (v1 @ [10] @ v2) @ [13, 10] = ?b @ 10 # (v2 @ [34]) @ 13 # 10 # []"
    by (simp add: save_line_def)
  have b: "command_end json False (?b @ 10 # r) = Some (length ?b)" for r
    using save_line_end(2)[OF assms(2,3), of 10 json r] by simp
  have "command_end json True (13 # 10 # r) = Some 0" for r by (rule command_end_break) simp
  then have e: "command_end json False ((v2 @ [34]) @ 13 # 10 # []) = Some (length (v2 @ [34]))"
    using command_end_plain[OF assms(4), of json "34 # 13 # 10 # []"] by (simp add: command_end_quote)
  have "split_buffer json trim (?b @ 10 # (v2 @ [34]) @ 13 # 10 # []) =
    map_option (\<lambda>(cs, rest). (?b # cs, rest)) (split_buffer json trim ((v2 @ [34]) @ 13 # 10 # []))"
    using split_buffer_step[OF b] no_wait(2)[OF assms(1)] by simp
  also have "\<dots> = Some ([?b, v2 @ [34], []], [])"
    using split_buffer_line[OF e assms(5) no_wait(1)[OF assms(1)]] by simp
  finally show ?thesis unfolding line by blast
qed

theorem saved_line_break_executes_witness:
  "\<exists>before. split_buffer braces (dropWhile is_space) (save_line (str_of ''motd'') (str_of ''hi'' @ [10] @ str_of ''quit '') @ [13, 10]) =
    Some ([before, str_of ''quit '' @ [34], []], [])"
  by (rule saved_line_break_executes) (simp_all add: trims_def str_of_def is_wait_def is_space_def)

text \<open>Every value of a variable is read back from its text: strings, integers over the whole
  signed 32-bit range, although they are parsed as unsigned 64-bit numbers, and truth values.\<close>

theorem value_text_roundtrip:
  "Parse_value (type_of v) (Unparse_value v) = Some v"
  by (rule value_read_back)

end
