(* ===== verification/Console_Exec.thy ===== *)
theory Console_Exec
  imports Console_Configuration
begin

text \<open>
  The command \<open>exec\<close> of the server (\<open>components/citizen-server-main/src/ServerInstance.cpp\<close>), which is a command of another component
  for the console and runs the console's buffer from within a command: it is one that the console's properties allow, as long as it
  returns, and a file that executes itself does not.
\<close>

section \<open>The command\<close>

text \<open>
  The files are what the virtual file system reads, and \<open>k\<close> is the context of the server. \<open>env\<close> is the environment in which the nested commands run.
\<close>

definition execCommand :: "(str \<Rightarrow> str option) \<Rightarrow> nat \<Rightarrow> console_env \<Rightarrow> str list \<Rightarrow> world \<Rightarrow>
    (bool \<times> str \<times> world \<times> console_effect list) option" where
  "execCommand files k env args w =
     (if length args \<noteq> 1 then
        Some (False, str_of ''Argument count mismatch (passed '' @ show_nat (length args) @ str_of '', wanted '' @ show_nat 1 @ str_of '')'' @ [10], w, [])
      else (case files (args ! 0) of
          None \<Rightarrow> Some (True, [], w, [Printf (str_of ''cmd'') (str_of ''No such config file: '' @ c_str (args ! 0) @ [10])])
        | Some data \<Rightarrow> do {
            (w, _) \<leftarrow> on_context k (silent (AddToBuffer (data @ [10]))) w;
            (w, out) \<leftarrow> ExecuteBuffer env k w;
            Some (True, [], w, out) }))"

text \<open>The server's environment when \<open>exec\<close>, the command 0, may nest \<open>n\<close> times; it does not return when it nests deeper.\<close>

fun exec_env :: "(str \<Rightarrow> str option) \<Rightarrow> nat \<Rightarrow> console_env \<Rightarrow> nat \<Rightarrow> console_env" where
  "exec_env files k env 0 = env\<lparr>external := (\<lambda>e args ctx w. if e = 0 then None else external env e args ctx w)\<rparr>"
| "exec_env files k env (Suc n) = env\<lparr>external := (\<lambda>e args ctx w.
     if e = 0 then execCommand files k (exec_env files k env n) args w else external env e args ctx w)\<rparr>"


text \<open>\<open>exec\<close> uses the console as the properties of the console assume.\<close>

lemma execCommand_uses:
  assumes "env_ok env" "execCommand files k env args w = Some (ok, err, w', out)"
  shows "uses_console w w' \<and> (ok \<or> w' = w)"
proof (cases "length args \<noteq> 1 \<or> files (args ! 0) = None")
  case True
  then show ?thesis using assms(2) env_ok_uses_console.nothing[of w] by (auto simp: execCommand_def split: if_splits)
next
  case False
  then obtain data where data: "files (args ! 0) = Some data" "length args = 1" by auto
  let ?c = "AddToBuffer (data @ [10]) (contexts w ! k)"
  let ?w = "w\<lparr>contexts := (contexts w)[k := ?c]\<rparr>"
  from assms(2) data have k: "k < length (contexts w)" and e: "ExecuteBuffer env k ?w = Some (w', out)" "ok"
    by (auto simp: execCommand_def on_context_def silent_def split: if_splits bind_splits)
  have "uses_console w ?w" by (rule env_ok_uses_console.interface[OF env_ok_uses_console.nothing k console_step.buffer])
  from env_ok_uses_console.execute[OF this assms(1) _ e(1)] k show ?thesis using e(2) by simp
qed

lemma exec_env_ok: "env_ok env \<Longrightarrow> env_ok (exec_env files k env n)"
proof (induction n)
  case 0
  from \<open>env_ok env\<close> show ?case
    by (cases rule: env_ok.cases) (auto intro!: env_ok_uses_console.env split: if_splits)
next
  case (Suc n)
  note uses = execCommand_uses[OF Suc.IH[OF Suc.prems]]
  from \<open>env_ok env\<close> show ?case
    by (cases rule: env_ok.cases) (auto intro!: env_ok_uses_console.env dest: uses split: if_splits)
qed

section \<open>A file that executes itself\<close>







end
