(* ===== verification/Event_Core.thy ===== *)
theory Event_Core
  imports Prelude
begin

text \<open>
  \<open>fwEvent\<close> (client/shared/EventCore.h): a linked list of callbacks, ordered by the \<open>order\<close> they
  were connected with, each under the cookie that disconnects it. A node of the list is identified
  by its cookie; a pointer to a node is a cookie, the null pointer is \<open>None\<close>. The invocation, whose
  callbacks may change the list it runs over, is part of the theory \<open>Resource_Runtime\<close>, which uses
  \<open>m_callbacks.get()\<close> (\<open>first_node\<close>) and the access through a pointer (\<open>node_at\<close>).
\<close>

section \<open>The event\<close>

record 'f callback =
  cb_function :: 'f
  cb_order :: int
  cb_cookie :: u64

record 'f fwevent =
  m_callbacks :: "'f callback list"
  m_connectCookie :: u64

definition fresh_event :: "'f fwevent" where
  "fresh_event = \<lparr>m_callbacks = [], m_connectCookie = 0\<rparr>"

text \<open>The loop that goes past every callback whose order is not larger.\<close>

fun place_callback :: "'f callback \<Rightarrow> 'f callback list \<Rightarrow> 'f callback list" where
  "place_callback cb [] = [cb]"
| "place_callback cb (c # cs) = (if cb_order cb \<ge> cb_order c then c # place_callback cb cs else cb # c # cs)"

text \<open>An empty \<open>std::function\<close> is not connected, and its cookie is \<open>-1\<close>.\<close>

definition ConnectInternal :: "'f option \<Rightarrow> int \<Rightarrow> 'f fwevent \<Rightarrow> u64 \<times> 'f fwevent" where
  "ConnectInternal func order ev =
     (case func of
        None \<Rightarrow> (- 1, ev)
      | Some f \<Rightarrow>
          let cookie = m_connectCookie ev in
          (cookie, ev\<lparr>m_connectCookie := cookie + 1,
            m_callbacks := place_callback \<lparr>cb_function = f, cb_order = order, cb_cookie = cookie\<rparr> (m_callbacks ev)\<rparr>))"

fun unlink :: "u64 \<Rightarrow> 'f callback list \<Rightarrow> 'f callback list" where
  "unlink cookie [] = []"
| "unlink cookie (c # cs) = (if cb_cookie c = cookie then cs else c # unlink cookie cs)"

definition Disconnect_callback :: "u64 \<Rightarrow> 'f fwevent \<Rightarrow> 'f fwevent" where
  "Disconnect_callback cookie ev =
     (if cookie = - 1 then ev else ev\<lparr>m_callbacks := unlink cookie (m_callbacks ev)\<rparr>)"

definition Reset_callbacks :: "'f fwevent \<Rightarrow> 'f fwevent" where
  "Reset_callbacks ev = ev\<lparr>m_callbacks := []\<rparr>"

text \<open>\<open>m_callbacks.get()\<close>, and the node a pointer leads to with its \<open>next.get()\<close>; there is no such
  node any more when it has been unlinked, which frees it.\<close>

definition head_cookie :: "'f callback list \<Rightarrow> u64 option" where
  "head_cookie cs = (case cs of [] \<Rightarrow> None | c # _ \<Rightarrow> Some (cb_cookie c))"

definition first_node :: "'f fwevent \<Rightarrow> u64 option" where
  "first_node ev = head_cookie (m_callbacks ev)"

fun node_at :: "u64 \<Rightarrow> 'f callback list \<Rightarrow> ('f callback \<times> u64 option) option" where
  "node_at cookie [] = None"
| "node_at cookie (c # cs) =
     (if cb_cookie c = cookie then Some (c, head_cookie cs) else node_at cookie cs)"

section \<open>The list of connections it implements\<close>

text \<open>The operations of an event, on the code's list and on the plain list of the live connections in
  the order in which they were made.\<close>

datatype 'f event_op = Do_connect "'f option" int | Do_disconnect u64 | Do_reset

fun apply_op :: "'f event_op \<Rightarrow> 'f fwevent \<Rightarrow> 'f fwevent" where
  "apply_op (Do_connect f ord) ev = snd (ConnectInternal f ord ev)"
| "apply_op (Do_disconnect cookie) ev = Disconnect_callback cookie ev"
| "apply_op Do_reset ev = Reset_callbacks ev"

fun spec_op :: "'f event_op \<Rightarrow> 'f callback list \<times> nat \<Rightarrow> 'f callback list \<times> nat" where
  "spec_op (Do_connect None ord) (xs, n) = (xs, n)"
| "spec_op (Do_connect (Some f) ord) (xs, n) =
     (xs @ [\<lparr>cb_function = f, cb_order = ord, cb_cookie = word_of_nat n\<rparr>], n + 1)"
| "spec_op (Do_disconnect cookie) (xs, n) = (filter (\<lambda>c. cb_cookie c \<noteq> cookie) xs, n)"
| "spec_op Do_reset (xs, n) = ([], n)"

lemma place_insort: "place_callback c (insort_key cb_order x ys) = insort_key cb_order x (place_callback c ys)"
  by (induction ys) auto

lemma place_sorted: "place_callback c (sort_key cb_order xs) = sort_key cb_order (xs @ [c])"
  by (induction xs) (simp_all add: place_insort)

lemma unlink_filter: "distinct (map cb_cookie cs) \<Longrightarrow> unlink k cs = filter (\<lambda>c. cb_cookie c \<noteq> k) cs"
proof (induction cs)
  case (Cons c cs)
  have "filter (\<lambda>c. cb_cookie c \<noteq> k) cs = cs" if "cb_cookie c = k"
    using Cons.prems that by (auto simp: filter_id_conv) (metis image_eqI)
  then show ?case using Cons by auto
qed simp

text \<open>The relation between the two; the cookies are numbered and the next one is fresh.\<close>

definition implements :: "'f fwevent \<Rightarrow> 'f callback list \<times> nat \<Rightarrow> bool" where
  "implements ev s \<longleftrightarrow> (case s of (xs, n) \<Rightarrow>
     m_callbacks ev = sort_key cb_order xs \<and> m_connectCookie ev = word_of_nat n \<and>
     distinct (map cb_cookie xs) \<and> (\<forall>c \<in> set xs. unat (cb_cookie c) < n))"

lemma distinct_map_sort [simp]: "distinct (map f (sort_key g xs)) = distinct (map f xs)"
  by (simp add: distinct_map)

lemma implements_op:
  assumes "implements ev (xs, n)" "n + 1 < 2 ^ 64"
  shows "implements (apply_op op ev) (spec_op op (xs, n))"
proof (cases op)
  case (Do_connect f ord)
  show ?thesis
  proof (cases f)
    case (Some g)
    have "unat (word_of_nat n :: u64) = n" using assms(2) by (simp add: unsigned_of_nat take_bit_nat_eq_self)
    then show ?thesis
      using assms(1) Some Do_connect place_sorted[of "\<lparr>cb_function = g, cb_order = ord, cb_cookie = word_of_nat n\<rparr>" xs]
      by (auto simp: implements_def ConnectInternal_def Let_def)
  qed (use assms Do_connect in \<open>simp add: ConnectInternal_def\<close>)
next
  case (Do_disconnect k)
  have "filter (\<lambda>c. cb_cookie c \<noteq> k) xs = xs" if "k = - 1"
  proof (rule filter_True, intro ballI notI)
    fix c assume "c \<in> set xs" "cb_cookie c = k"
    then have "unat (- 1 :: u64) < n" using assms(1) that by (auto simp: implements_def)
    then show False using assms(2) by (simp add: unsigned_minus_1_eq_mask mask_eq_exp_minus_1)
  qed
  then show ?thesis
    using assms(1) Do_disconnect
    by (auto simp: implements_def Disconnect_callback_def unlink_filter filter_sort distinct_map_filter)
next
  case Do_reset
  then show ?thesis using assms(1) by (simp add: implements_def Reset_callbacks_def)
qed

lemma spec_op_count: "snd (spec_op op s) \<le> snd s + 1"
  by (cases "(op, s)" rule: spec_op.cases) auto

lemma implements_fold:
  assumes "implements ev s" "snd s + length ops < 2 ^ 64"
  shows "implements (fold apply_op ops ev) (fold spec_op ops s)"
  using assms
proof (induction ops arbitrary: ev s)
  case (Cons op ops)
  obtain xs n where s: "s = (xs, n)" by (cases s)
  have "implements (apply_op op ev) (spec_op op (xs, n))"
    using Cons.prems s by (intro implements_op) auto
  moreover have "snd (spec_op op s) + length ops < 2 ^ 64"
    using Cons.prems(2) spec_op_count[of op s] by simp
  ultimately show ?case using Cons.IH s by simp
qed simp

lemma event_refinement:
  assumes "length ops < 2 ^ 64"
  shows "m_callbacks (fold apply_op ops fresh_event) = sort_key cb_order (fst (fold spec_op ops ([], 0)))"
proof -
  have "implements fresh_event ([], 0)" by (simp add: implements_def fresh_event_def)
  then have "implements (fold apply_op ops fresh_event) (fold spec_op ops ([], 0))"
    by (rule implements_fold) (use assms in simp)
  then show ?thesis by (auto simp: implements_def split: prod.splits)
qed

text \<open>C29: The linked list of an event holds, in the order in which they are invoked, exactly the live
  connections sorted by their order, those of equal order as they were connected: any sequence of
  connecting, disconnecting and resetting on the code's list does what it does on the plain list of
  connections.\<close>

theorem event_refines_connections:
  assumes "length ops < 2 ^ 64"
  shows "m_callbacks (fold apply_op ops fresh_event) = sort_key cb_order (fst (fold spec_op ops ([], 0)))"
  by (rule event_refinement[OF assms])

theorem event_refines_connections_witness:
  "map cb_function (m_callbacks (fold apply_op
     [Do_connect (Some CHR ''a'') 5, Do_connect (Some CHR ''b'') 0, Do_connect None 1, Do_connect (Some CHR ''c'') 5,
      Do_disconnect 0, Do_connect (Some CHR ''d'') (- 3)] fresh_event)) = ''dbc''"
  by (subst event_refines_connections) (simp_all add: sort_key_def)

end
