(* ===== verification/Resource_Runtime.thy ===== *)
theory Resource_Runtime
  imports Event_Core Text
begin

text \<open>
  Resources, their manager and the events they exchange (components/citizen-resources-core:
  Resource.cpp, ResourceManager.cpp, ResourceEventComponent.cpp). Handlers are code outside these
  files that calls back into them, so the model is a machine: a stack of frames of the functions
  that have not returned, over the state of the runtime. One step runs a function up to its next
  call. A listener of an event that is native to the three files is a constructor of \<open>listener\<close>; any
  other is \<open>External i\<close>, whose code is the program \<open>code h i args\<close>, which may make any call of the
  interface and may depend on the answers. All of it runs on the one thread that ticks the manager.
\<close>

section \<open>The state\<close>

datatype resource_state = Uninitialized | Stopped | Starting | Started | Stopping

record resource =
  r_name :: str
  m_rootPath :: str
  m_state :: resource_state

text \<open>The events of a resource (those of \<open>Resource\<close> and the \<open>OnTriggerEvent\<close> of its event component)
  and of the manager (those of \<open>ResourceManager\<close> and of its event component).\<close>

datatype occasion = On_load | On_before_start | On_start | On_stop | On_enter | On_leave | On_remove | On_trigger

datatype event_key = Of_resource nat occasion | Manager_trigger | Manager_queue | Manager_tick | Manager_after_reset

datatype listener =
    Announce_starting nat | Queue_started nat | Announce_started nat
  | Queue_stopped nat | Forget_listeners nat | Announce_stopping nat
  | Run_queue | Drop_queue
  | External nat

record event_data =
  eventName :: str
  eventPayload :: str
  eventSource :: str
  event_filter :: "nat option"

datatype event_args = No_args | Event_args str str str

text \<open>
  \<open>m_resources\<close> is an \<open>unordered_map\<close>: the list is in its iteration order. Indexing it with \<open>[]\<close>
  can leave a null reference. \<open>currentResources\<close> is the static vector of \<open>ForAllResources\<close>. Resources
  are counted references; the counter never matters because no raw pointer to a resource is followed.
  \<open>calls\<close> is a trace of the external listeners invoked.
\<close>

record runtime =
  resource_heap :: "nat \<Rightarrow> resource option"
  next_resource :: nat
  listeners :: "event_key \<Rightarrow> listener fwevent"
  m_resources :: "(str \<times> nat option) list"
  m_resourceProvides :: "(str \<times> nat) list"
  m_mounters :: "nat list"
  currentResources :: "nat option list"
  m_eventQueue :: "event_data list"
  g_eventCancelationStack :: "bool list"
  g_wasLastEventCanceled :: bool
  calls :: "(nat \<times> event_args) list"

section \<open>Code outside the component\<close>

text \<open>The calls of the interface.\<close>

datatype operation =
    Do_trigger str str str "nat option" | Do_queue str str str "nat option"
  | Do_cancel | Ask_canceled
  | Do_load nat str | Do_start nat | Do_stop nat | Do_run nat nat | Ask_state nat
  | Do_create str | Ask_resource str bool | Do_provide nat | Do_remove nat | Do_mount nat | Ask_mounter str | Do_reset_all | Do_tick
  | Do_listen event_key nat int | Do_unlisten event_key u64

datatype answer = Nothing | Truth bool | In_state resource_state | Ref "nat option" | Cookie u64

text \<open>Code that makes calls; the truth value is the listener's (\<open>True\<close> for one without a result).\<close>

datatype program = Return bool | Call operation "answer \<Rightarrow> program"

text \<open>
  What is outside: the external code, the loader of metadata (an error, or the \<open>provide\<close> entries),
  the position of a new entry in a hash table, the packing of one string as an argument list with
  msgpack, which program this is, the protocol (with its colon) that the URL library finds in a URI, and
  which schemes the mounters (numbered by the external code) handle.
\<close>

record host =
  code :: "nat \<Rightarrow> event_args \<Rightarrow> program"
  load_error :: "nat \<Rightarrow> str \<Rightarrow> bool"
  provide_entries :: "nat \<Rightarrow> str list"
  put_resource :: "str \<times> nat option \<Rightarrow> (str \<times> nat option) list \<Rightarrow> (str \<times> nat option) list"
  put_provide :: "str \<times> nat \<Rightarrow> (str \<times> nat) list \<Rightarrow> (str \<times> nat) list"
  pack :: "str \<Rightarrow> str"
  is_server :: bool
  url_protocol :: "str \<Rightarrow> str option"
  handles_scheme :: "nat \<Rightarrow> str \<Rightarrow> bool"

section \<open>Operations that make no call\<close>

definition resource_of :: "nat \<Rightarrow> runtime \<Rightarrow> resource" where
  "resource_of r w = (case resource_heap w r of Some x \<Rightarrow> x | None \<Rightarrow> \<lparr>r_name = [], m_rootPath = [], m_state = Uninitialized\<rparr>)"

definition GetName :: "nat \<Rightarrow> runtime \<Rightarrow> str" where
  "GetName r w = r_name (resource_of r w)"

definition GetState :: "nat \<Rightarrow> runtime \<Rightarrow> resource_state" where
  "GetState r w = m_state (resource_of r w)"

definition set_state :: "nat \<Rightarrow> resource_state \<Rightarrow> runtime \<Rightarrow> runtime" where
  "set_state r s w = w\<lparr>resource_heap := (resource_heap w)(r \<mapsto> (resource_of r w)\<lparr>m_state := s\<rparr>)\<rparr>"

definition on_event :: "event_key \<Rightarrow> (listener fwevent \<Rightarrow> listener fwevent) \<Rightarrow> runtime \<Rightarrow> runtime" where
  "on_event e f w = w\<lparr>listeners := (listeners w)(e := f (listeners w e))\<rparr>"

definition listen :: "event_key \<Rightarrow> listener \<Rightarrow> int \<Rightarrow> runtime \<Rightarrow> runtime" where
  "listen e l ord = on_event e (\<lambda>ev. snd (ConnectInternal (Some l) ord ev))"

definition find_resource :: "str \<Rightarrow> runtime \<Rightarrow> nat option" where
  "find_resource name w = (case map_of (m_resources w) name of None \<Rightarrow> None | Some r \<Rightarrow> r)"

text \<open>\<open>m_resources[name] = r\<close>.\<close>

definition put_entry :: "host \<Rightarrow> str \<Rightarrow> nat option \<Rightarrow> runtime \<Rightarrow> runtime" where
  "put_entry h name r w = w\<lparr>m_resources :=
     (if map_of (m_resources w) name = None then put_resource h (name, r) (m_resources w)
      else map (\<lambda>(k, x). if k = name then (k, r) else (k, x)) (m_resources w))\<rparr>"

definition GetResource :: "str \<Rightarrow> bool \<Rightarrow> runtime \<Rightarrow> nat option" where
  "GetResource identifier withProvides w =
     (let resource = find_resource identifier w in
      if withProvides \<and> (case resource of None \<Rightarrow> True | Some r \<Rightarrow> GetState r w = Stopped) then
        (case List.find (\<lambda>(k, r). k = identifier \<and> (GetState r w = Started \<or> resource = None)) (m_resourceProvides w) of
           Some (_, r) \<Rightarrow> Some r
         | None \<Rightarrow> resource)
      else resource)"

text \<open>What \<open>AddResourceWithError\<close> does when the mounter has loaded the resource.\<close>

definition AddResource_loaded :: "host \<Rightarrow> nat \<Rightarrow> runtime \<Rightarrow> runtime" where
  "AddResource_loaded h r w =
     w\<lparr>m_resourceProvides := fold (\<lambda>name. put_provide h (name, r)) (provide_entries h r) (m_resourceProvides w)\<rparr>"

definition AddMounter :: "nat \<Rightarrow> runtime \<Rightarrow> runtime" where
  "AddMounter mounter w = w\<lparr>m_mounters := m_mounters w @ [mounter]\<rparr>"

text \<open>The protocol without its colon; a URI that does not parse has no mounter.\<close>

definition GetMounterForUri :: "host \<Rightarrow> str \<Rightarrow> runtime \<Rightarrow> nat option" where
  "GetMounterForUri h uri w =
     (case url_protocol h uri of
        None \<Rightarrow> None
      | Some protocol \<Rightarrow> List.find (\<lambda>m. handles_scheme h m (take (length protocol - 1) protocol)) (m_mounters w))"

text \<open>The event component connects its listeners when a resource is constructed.\<close>

definition AttachToResource :: "nat \<Rightarrow> runtime \<Rightarrow> runtime" where
  "AttachToResource r =
     listen (Of_resource r On_stop) (Announce_stopping r) (- 99999) \<circ>
     listen (Of_resource r On_stop) (Forget_listeners r) 2147483647 \<circ>
     listen (Of_resource r On_stop) (Queue_stopped r) 0 \<circ>
     listen (Of_resource r On_start) (Announce_started r) 99999 \<circ>
     listen (Of_resource r On_start) (Queue_started r) 0 \<circ>
     listen (Of_resource r On_before_start) (Announce_starting r) (- 10000)"

definition CreateResource :: "host \<Rightarrow> str \<Rightarrow> runtime \<Rightarrow> nat \<times> runtime" where
  "CreateResource h name w =
     (let r = next_resource w;
          w = w\<lparr>next_resource := r + 1,
            resource_heap := (resource_heap w)(r \<mapsto> \<lparr>r_name = name, m_rootPath = [], m_state = Uninitialized\<rparr>)\<rparr>
      in (r, put_entry h name (Some r) (AttachToResource r w)))"

definition CancelEvent :: "runtime \<Rightarrow> runtime" where
  "CancelEvent w = (case g_eventCancelationStack w of
     [] \<Rightarrow> w
   | _ # flags \<Rightarrow> w\<lparr>g_eventCancelationStack := True # flags\<rparr>)"

text \<open>The part of \<open>ForAllResources\<close> that holds the lock: the static vector is filled again.\<close>

definition snapshot :: "runtime \<Rightarrow> runtime" where
  "snapshot w = w\<lparr>currentResources := map snd (m_resources w) @ drop (length (m_resources w)) (currentResources w)\<rparr>"

definition initial_runtime :: runtime where
  "initial_runtime =
     listen Manager_after_reset Drop_queue 0 (listen Manager_tick Run_queue 0
       \<lparr>resource_heap = (\<lambda>_. None), next_resource = 0, listeners = (\<lambda>_. fresh_event), m_resources = [],
        m_resourceProvides = [], m_mounters = [], currentResources = [], m_eventQueue = [], g_eventCancelationStack = [],
        g_wasLastEventCanceled = False, calls = []\<rparr>)"

section \<open>The frames\<close>

text \<open>
  \<^item> \<open>Code p\<close>: external code running \<open>p\<close>; \<open>Await k\<close>: external code waiting for the answer of a call.
  \<^item> \<open>Invoking e args n\<close>: an event's \<open>operator()\<close> about to use the pointer \<open>n\<close>; \<open>Invoked e args n\<close>: the
    same while a callback runs, \<open>n\<close> being the saved \<open>next\<close>.
  \<^item> \<open>Succeed\<close> and \<open>Void\<close>: the end of a listener and of a call without a result.
  \<^item> \<open>Starting_before\<close>, \<open>Starting_after\<close>, \<open>Stopping_after\<close>, \<open>Running_enter\<close>, \<open>Running_body\<close>, \<open>Loaded\<close>:
    \<open>ResourceImpl\<close>'s methods at the return of the event they invoke.
  \<^item> \<open>Trigger_resources\<close>, \<open>Trigger_each\<close>: \<open>TriggerEvent\<close> after the manager's listeners, and in the loop of
    \<open>ForAllResources\<close> with \<open>idx\<close> and \<open>resCount\<close>.
  \<^item> \<open>Queue_loop\<close>: the loop of \<open>ResourceEventManagerComponent::Tick\<close>.
  \<^item> \<open>Remove_stopped\<close>, \<open>Remove_destroyed\<close>, \<open>Reset_each\<close>, \<open>Reset_stopped\<close>: \<open>RemoveResource\<close> and
    \<open>ResetResources\<close>.
\<close>

datatype frame =
    Code program | Await "answer \<Rightarrow> program"
  | Invoking event_key event_args "u64 option" | Invoked event_key event_args "u64 option"
  | Succeed | Void
  | Starting_before nat | Starting_after nat | Stopping_after nat
  | Running_enter nat nat | Running_body nat | Loaded
  | Trigger_resources event_args "nat option" | Trigger_each event_args "nat option" nat nat
  | Queue_loop
  | Remove_stopped nat | Remove_destroyed nat
  | Reset_each "nat option" nat nat | Reset_stopped nat

definition invoke :: "event_key \<Rightarrow> event_args \<Rightarrow> runtime \<Rightarrow> frame" where
  "invoke e args w = Invoking e args (first_node (listeners w e))"

section \<open>Calls\<close>

text \<open>The start of a call: the frames it pushes, what it answers if it is already over, and the state.\<close>

definition begin_trigger :: "str \<Rightarrow> str \<Rightarrow> str \<Rightarrow> nat option \<Rightarrow> runtime \<Rightarrow> frame list \<times> answer \<times> runtime" where
  "begin_trigger name payload source filt w =
     (let args = Event_args name payload source;
          w = w\<lparr>g_eventCancelationStack := False # g_eventCancelationStack w\<rparr>
      in ([invoke Manager_trigger args w, Trigger_resources args filt], Nothing, w))"

definition begin_queue :: "str \<Rightarrow> str \<Rightarrow> str \<Rightarrow> nat option \<Rightarrow> runtime \<Rightarrow> frame list \<times> answer \<times> runtime" where
  "begin_queue name payload source filt w =
     (let w = w\<lparr>m_eventQueue := m_eventQueue w @
        [\<lparr>eventName = name, eventPayload = payload, eventSource = source, event_filter = filt\<rparr>]\<rparr>
      in (if filt = None then [invoke Manager_queue (Event_args name payload source) w, Void] else [], Nothing, w))"

definition begin_load :: "host \<Rightarrow> nat \<Rightarrow> str \<Rightarrow> runtime \<Rightarrow> frame list \<times> answer \<times> runtime" where
  "begin_load h r path w =
     (if GetState r w \<noteq> Uninitialized then ([], Truth True, w)
      else
        let w = w\<lparr>resource_heap := (resource_heap w)(r \<mapsto> (resource_of r w)\<lparr>m_rootPath := path, m_state := Stopped\<rparr>)\<rparr>
        in if load_error h r path then ([], Truth False, w)
           else ([invoke (Of_resource r On_load) No_args w, Loaded], Nothing, w))"

definition begin_start :: "nat \<Rightarrow> runtime \<Rightarrow> frame list \<times> answer \<times> runtime" where
  "begin_start r w =
     (if GetState r w = Started then ([], Truth True, w)
      else if GetState r w = Starting then ([invoke (Of_resource r On_start) No_args w, Starting_after r], Nothing, w)
      else let w = set_state r Starting w
           in ([invoke (Of_resource r On_before_start) No_args w, Starting_before r], Nothing, w))"

definition begin_stop :: "nat \<Rightarrow> runtime \<Rightarrow> frame list \<times> answer \<times> runtime" where
  "begin_stop r w =
     (if GetState r w = Stopped then ([], Truth True, w)
      else ([invoke (Of_resource r On_stop) No_args w, Stopping_after r], Nothing, w))"

definition begin_run :: "nat \<Rightarrow> nat \<Rightarrow> runtime \<Rightarrow> frame list \<times> answer \<times> runtime" where
  "begin_run r i w =
     (if GetState r w \<noteq> Started then ([], Nothing, w)
      else ([invoke (Of_resource r On_enter) No_args w, Running_enter r i], Nothing, w))"

text \<open>\<open>ResetResources\<close> up to the first resource; \<open>m_resources["_cfx_internal"]\<close> inserts a null reference
  when there is no such resource.\<close>

definition cfx_internal :: str where
  "cfx_internal = str_of ''_cfx_internal''"

definition begin_reset :: "host \<Rightarrow> runtime \<Rightarrow> frame list \<times> answer \<times> runtime" where
  "begin_reset h w =
     (let cfxInternal = find_resource cfx_internal w;
          w = snapshot (if map_of (m_resources w) cfx_internal = None then put_entry h cfx_internal None w else w)
      in ([Reset_each cfxInternal 0 (length (m_resources w))], Nothing, w))"

fun begin_call :: "host \<Rightarrow> operation \<Rightarrow> runtime \<Rightarrow> frame list \<times> answer \<times> runtime" where
  "begin_call h (Do_trigger name payload source filt) w = begin_trigger name payload source filt w"
| "begin_call h (Do_queue name payload source filt) w = begin_queue name payload source filt w"
| "begin_call h Do_cancel w = ([], Nothing, CancelEvent w)"
| "begin_call h Ask_canceled w = ([], Truth (g_wasLastEventCanceled w), w)"
| "begin_call h (Do_load r path) w = begin_load h r path w"
| "begin_call h (Do_start r) w = begin_start r w"
| "begin_call h (Do_stop r) w = begin_stop r w"
| "begin_call h (Do_run r i) w = begin_run r i w"
| "begin_call h (Ask_state r) w = ([], In_state (GetState r w), w)"
| "begin_call h (Do_create name) w = (let (r, w) = CreateResource h name w in ([], Ref (Some r), w))"
| "begin_call h (Ask_resource name withProvides) w = ([], Ref (GetResource name withProvides w), w)"
| "begin_call h (Do_provide r) w = ([], Nothing, AddResource_loaded h r w)"
| "begin_call h (Do_mount m) w = ([], Nothing, AddMounter m w)"
| "begin_call h (Ask_mounter uri) w = ([], Ref (GetMounterForUri h uri w), w)"
| "begin_call h (Do_remove r) w = (let (fs, a, w) = begin_stop r w in (fs @ [Remove_stopped r], a, w))"
| "begin_call h Do_reset_all w = begin_reset h w"
| "begin_call h Do_tick w = ([invoke Manager_tick No_args w, Void], Nothing, w)"
| "begin_call h (Do_listen e i ord) w =
     (let (cookie, ev) = ConnectInternal (Some (External i)) ord (listeners w e) in ([], Cookie cookie, on_event e (\<lambda>_. ev) w))"
| "begin_call h (Do_unlisten e cookie) w = ([], Nothing, on_event e (Disconnect_callback cookie) w)"

text \<open>The lambdas of \<open>AttachToObject\<close>; what they pass is the name of their resource.\<close>

definition trigger_named :: "host \<Rightarrow> string \<Rightarrow> nat \<Rightarrow> runtime \<Rightarrow> frame list \<times> answer \<times> runtime" where
  "trigger_named h event r w = begin_trigger (str_of event) (pack h (GetName r w)) [] None w"

definition queue_named :: "host \<Rightarrow> string \<Rightarrow> string \<Rightarrow> nat \<Rightarrow> runtime \<Rightarrow> frame list \<times> answer \<times> runtime" where
  "queue_named h client server r w =
     begin_queue (str_of (if is_server h then server else client)) (pack h (GetName r w)) [] None w"

fun run_listener :: "host \<Rightarrow> listener \<Rightarrow> event_args \<Rightarrow> runtime \<Rightarrow> frame list \<times> runtime" where
  "run_listener h (Announce_starting r) args w =
     (let (fs, _, w) = trigger_named h ''onResourceStarting'' r w in (fs, w))"
| "run_listener h (Queue_started r) args w =
     (let (fs, _, w) = queue_named h ''onClientResourceStart'' ''onServerResourceStart'' r w in (fs @ [Succeed], w))"
| "run_listener h (Announce_started r) args w =
     (let (fs, _, w) = trigger_named h ''onResourceStart'' r w in (fs @ [Succeed], w))"
| "run_listener h (Queue_stopped r) args w =
     (let (fs, _, w) = queue_named h ''onClientResourceStop'' ''onServerResourceStop'' r w in (fs @ [Succeed], w))"
| "run_listener h (Forget_listeners r) args w = ([Succeed], on_event (Of_resource r On_trigger) Reset_callbacks w)"
| "run_listener h (Announce_stopping r) args w =
     (let (fs, _, w) = trigger_named h ''onResourceStop'' r w in (fs @ [Succeed], w))"
| "run_listener h Run_queue args w = ([Queue_loop, Succeed], w)"
| "run_listener h Drop_queue args w = ([Succeed], w\<lparr>m_eventQueue := []\<rparr>)"
| "run_listener h (External i) args w = ([Code (code h i args)], w\<lparr>calls := calls w @ [(i, args)]\<rparr>)"

section \<open>One step\<close>

datatype fault = Use_after_free | Null_resource | Out_of_range | Empty_stack

type_synonym machine = "frame list \<times> answer \<times> runtime"

text \<open>
  The parts of the functions between their calls. Each takes the frames below, the answer of the
  function that has returned where it looks at it, and the state.
\<close>

type_synonym continuation = "frame list \<Rightarrow> answer \<Rightarrow> runtime \<Rightarrow> fault + machine"

text \<open>The loop of an event's \<open>operator()\<close>.\<close>

definition invoke_next :: "host \<Rightarrow> event_key \<Rightarrow> event_args \<Rightarrow> u64 option \<Rightarrow> continuation" where
  "invoke_next h e args n fs a w =
     (case n of
        None \<Rightarrow> Inr (fs, Truth True, w)
      | Some cookie \<Rightarrow>
          (case node_at cookie (m_callbacks (listeners w e)) of
             None \<Rightarrow> Inl Use_after_free
           | Some (cb, nxt) \<Rightarrow>
               let (gs, w) = run_listener h (cb_function cb) args w in Inr (gs @ Invoked e args nxt # fs, a, w)))"

definition callback_returned :: "event_key \<Rightarrow> event_args \<Rightarrow> u64 option \<Rightarrow> continuation" where
  "callback_returned e args nxt fs a w =
     (if a = Truth False then Inr (fs, Truth False, w) else Inr (Invoking e args nxt # fs, a, w))"

text \<open>\<open>ResourceImpl::Start\<close> at the returns of \<open>OnBeforeStart\<close> and of \<open>OnStart\<close>, and \<open>Stop\<close> at that of \<open>OnStop\<close>.\<close>

definition to_stopped :: "nat \<Rightarrow> runtime \<Rightarrow> runtime" where
  "to_stopped r w = (if GetState r w \<noteq> Started then set_state r Stopped w else w)"

definition before_start_returned :: "nat \<Rightarrow> continuation" where
  "before_start_returned r fs a w =
     (if a = Truth False then Inr (fs, Truth False, to_stopped r w)
      else Inr (invoke (Of_resource r On_start) No_args w # Starting_after r # fs, Nothing, w))"

definition start_returned :: "nat \<Rightarrow> continuation" where
  "start_returned r fs a w =
     (if a = Truth False then Inr (fs, Truth False, to_stopped r w) else Inr (fs, Truth True, set_state r Started w))"

definition stop_returned :: "nat \<Rightarrow> continuation" where
  "stop_returned r fs a w =
     (if a = Truth False then Inr (fs, Truth False, w) else Inr (fs, Truth True, set_state r Stopped w))"

text \<open>\<open>ResourceImpl::Run\<close> after \<open>OnEnter\<close> and after the function.\<close>

definition run_entered :: "host \<Rightarrow> nat \<Rightarrow> nat \<Rightarrow> continuation" where
  "run_entered h r i fs a w = Inr (Code (code h i No_args) # Running_body r # fs, Nothing, w)"

definition run_body_returned :: "nat \<Rightarrow> continuation" where
  "run_body_returned r fs a w = Inr (invoke (Of_resource r On_leave) No_args w # Void # fs, Nothing, w)"

text \<open>\<open>ResourceImpl::Destroy\<close>.\<close>

definition destroy :: "nat \<Rightarrow> runtime \<Rightarrow> frame \<times> runtime" where
  "destroy r w = (let w = set_state r Uninitialized w in (invoke (Of_resource r On_remove) No_args w, w))"

text \<open>\<open>TriggerEvent\<close> in the loop over the resources, and behind it.\<close>

definition trigger_each :: "event_args \<Rightarrow> nat option \<Rightarrow> nat \<Rightarrow> nat \<Rightarrow> continuation" where
  "trigger_each args filt idx n fs a w =
     (if idx < n then
        (if length (currentResources w) \<le> idx then Inl Out_of_range
         else case currentResources w ! idx of
           None \<Rightarrow> Inl Null_resource
         | Some r \<Rightarrow>
             Inr ((if filt \<noteq> None \<and> filt \<noteq> Some r then [] else [invoke (Of_resource r On_trigger) args w]) @
               Trigger_each args filt (idx + 1) n # fs, Nothing, w))
      else
        (case g_eventCancelationStack w of
           [] \<Rightarrow> Inl Empty_stack
         | canceled # flags \<Rightarrow> Inr (fs, Truth (\<not> canceled),
             w\<lparr>g_eventCancelationStack := flags, g_wasLastEventCanceled := canceled\<rparr>)))"

text \<open>\<open>ResourceEventManagerComponent::Tick\<close>.\<close>

definition queue_next :: continuation where
  "queue_next fs a w =
     (case m_eventQueue w of
        [] \<Rightarrow> Inr (fs, Nothing, w)
      | ev # evs \<Rightarrow>
          let (gs, a, w) = begin_trigger (eventName ev) (eventPayload ev) (eventSource ev) (event_filter ev) (w\<lparr>m_eventQueue := evs\<rparr>)
          in Inr (gs @ Queue_loop # fs, a, w))"

text \<open>\<open>RemoveResource\<close> after \<open>Stop\<close> and after \<open>Destroy\<close>.\<close>

definition remove_stopped :: "nat \<Rightarrow> continuation" where
  "remove_stopped r fs a w = (let (f, w) = destroy r w in Inr (f # Remove_destroyed r # fs, Nothing, w))"

definition remove_destroyed :: "nat \<Rightarrow> continuation" where
  "remove_destroyed r fs a w =
     Inr (fs, Nothing, w\<lparr>m_resources := filter (\<lambda>(k, _). k \<noteq> GetName r w) (m_resources w)\<rparr>)"

text \<open>\<open>ResetResources\<close> in its loop and behind it.\<close>

definition reset_each :: "nat option \<Rightarrow> nat \<Rightarrow> nat \<Rightarrow> continuation" where
  "reset_each cfx idx n fs a w =
     (if idx < n then
        (if length (currentResources w) \<le> idx then Inl Out_of_range
         else case currentResources w ! idx of
           None \<Rightarrow> Inl Null_resource
         | Some r \<Rightarrow>
             if GetName r w \<noteq> cfx_internal then
               (let (gs, a, w) = begin_stop r w in Inr (gs @ Reset_stopped r # Reset_each cfx (idx + 1) n # fs, a, w))
             else Inr (Reset_each cfx (idx + 1) n # fs, a, w))
      else
        let w = w\<lparr>m_resourceProvides := [], m_resources := [(cfx_internal, cfx)]\<rparr>
        in Inr (invoke Manager_after_reset No_args w # Void # fs, Nothing, w))"

definition reset_stopped :: "nat \<Rightarrow> continuation" where
  "reset_stopped r fs a w = (let (f, w) = destroy r w in Inr (f # fs, Nothing, w))"

text \<open>The top frame goes on; the answer is what the function it waited for has returned.\<close>

fun step :: "host \<Rightarrow> machine \<Rightarrow> fault + machine" where
  "step h ([], a, w) = Inr ([], a, w)"
| "step h (Code (Return b) # fs, a, w) = Inr (fs, Truth b, w)"
| "step h (Code (Call op k) # fs, a, w) = (let (gs, a, w) = begin_call h op w in Inr (gs @ Await k # fs, a, w))"
| "step h (Await k # fs, a, w) = Inr (Code (k a) # fs, a, w)"
| "step h (Invoking e args n # fs, a, w) = invoke_next h e args n fs a w"
| "step h (Invoked e args nxt # fs, a, w) = callback_returned e args nxt fs a w"
| "step h (Succeed # fs, a, w) = Inr (fs, Truth True, w)"
| "step h (Void # fs, a, w) = Inr (fs, Nothing, w)"
| "step h (Loaded # fs, a, w) = Inr (fs, Truth True, w)"
| "step h (Starting_before r # fs, a, w) = before_start_returned r fs a w"
| "step h (Starting_after r # fs, a, w) = start_returned r fs a w"
| "step h (Stopping_after r # fs, a, w) = stop_returned r fs a w"
| "step h (Running_enter r i # fs, a, w) = run_entered h r i fs a w"
| "step h (Running_body r # fs, a, w) = run_body_returned r fs a w"
| "step h (Trigger_resources args filt # fs, a, w) =
     Inr (Trigger_each args filt 0 (length (m_resources w)) # fs, Nothing, snapshot w)"
| "step h (Trigger_each args filt idx n # fs, a, w) = trigger_each args filt idx n fs a w"
| "step h (Queue_loop # fs, a, w) = queue_next fs a w"
| "step h (Remove_stopped r # fs, a, w) = remove_stopped r fs a w"
| "step h (Remove_destroyed r # fs, a, w) = remove_destroyed r fs a w"
| "step h (Reset_each cfx idx n # fs, a, w) = reset_each cfx idx n fs a w"
| "step h (Reset_stopped r # fs, a, w) = reset_stopped r fs a w"

declare step.simps [simp del]

lemmas step_simps = step.simps invoke_next_def callback_returned_def before_start_returned_def start_returned_def
  stop_returned_def run_entered_def run_body_returned_def destroy_def trigger_each_def queue_next_def remove_stopped_def
  remove_destroyed_def reset_each_def reset_stopped_def

text \<open>Running for a number of steps; a fault ends the run.\<close>

fun run :: "host \<Rightarrow> nat \<Rightarrow> machine \<Rightarrow> fault + machine" where
  "run h 0 m = Inr m"
| "run h (Suc n) m = (case step h m of Inl f \<Rightarrow> Inl f | Inr m \<Rightarrow> run h n m)"

text \<open>The machines that a program can lead to, started in the fresh runtime.\<close>

inductive reachable :: "host \<Rightarrow> machine \<Rightarrow> bool" for h where
  start: "reachable h ([Code p], Nothing, initial_runtime)"
| step: "reachable h m \<Longrightarrow> step h m = Inr m' \<Longrightarrow> reachable h m'"

end
