(* ===== verification/Runtime_Safety.thy ===== *)
theory Runtime_Safety
  imports Resource_Runtime
begin

text \<open>
  What holds in every machine that can be reached, whatever the external code does: the stack of
  cancelation flags has one flag for each \<open>TriggerEvent\<close> that has not returned, and the loops of
  \<open>ForAllResources\<close> stay inside the static vector although nested loops refill it.
\<close>

section \<open>Runs\<close>

definition runs :: "host \<Rightarrow> machine \<Rightarrow> machine \<Rightarrow> bool" where
  "runs h m m' \<longleftrightarrow> (\<exists>n. run h n m = Inr m')"

lemma run_add: "run h (n + n') m = (case run h n m of Inl f \<Rightarrow> Inl f | Inr m' \<Rightarrow> run h n' m')"
  by (induction n arbitrary: m) (auto split: sum.split)

lemma runs_refl [intro, simp]: "runs h m m"
  unfolding runs_def by (rule exI[of _ 0]) simp

lemma runs_trans [trans]: "runs h m m' \<Longrightarrow> runs h m' m'' \<Longrightarrow> runs h m m''"
  unfolding runs_def by (metis run_add sum.case(2))

lemma runs_step: "step h m = Inr m' \<Longrightarrow> runs h m' m'' \<Longrightarrow> runs h m m''"
  unfolding runs_def
  by (erule exE, rule_tac x = "Suc n" in exI) simp

lemma runs_step1: "step h m = Inr m' \<Longrightarrow> runs h m m'"
  by (erule runs_step) simp

lemma reachable_runs: "reachable h m \<Longrightarrow> runs h m m' \<Longrightarrow> reachable h m'"
proof -
  have "run h n m = Inr m' \<Longrightarrow> reachable h m \<Longrightarrow> reachable h m'" for n
  proof (induction n arbitrary: m)
    case (Suc n)
    then obtain m1 where "step h m = Inr m1" "run h n m1 = Inr m'" by (cases "step h m") auto
    then show ?case using Suc by (blast intro: reachable.step)
  qed simp
  then show "reachable h m \<Longrightarrow> runs h m m' \<Longrightarrow> reachable h m'" by (auto simp: runs_def)
qed

section \<open>The invariant\<close>

text \<open>The number of \<open>TriggerEvent\<close> calls on the stack.\<close>

fun is_trigger :: "frame \<Rightarrow> bool" where
  "is_trigger (Trigger_resources args filt) = True"
| "is_trigger (Trigger_each args filt idx n) = True"
| "is_trigger _ = False"

definition triggers :: "frame list \<Rightarrow> nat" where
  "triggers fs = length (filter is_trigger fs)"

lemma triggers_simps [simp]:
  "triggers [] = 0" "triggers (f # fs) = (if is_trigger f then 1 else 0) + triggers fs"
  "triggers (fs @ gs) = triggers fs + triggers gs"
  by (simp_all add: triggers_def)

fun within :: "nat \<Rightarrow> frame \<Rightarrow> bool" where
  "within len (Trigger_each args filt idx n) = (n \<le> len)"
| "within len (Reset_each cfx idx n) = (n \<le> len)"
| "within len _ = True"

lemma within_mono: "within len f \<Longrightarrow> len \<le> len' \<Longrightarrow> within len' f"
  by (cases "(len, f)" rule: within.cases) auto

definition machine_ok :: "machine \<Rightarrow> bool" where
  "machine_ok m \<longleftrightarrow> (case m of (fs, a, w) \<Rightarrow>
     length (g_eventCancelationStack w) = triggers fs \<and> (\<forall>f \<in> set fs. within (length (currentResources w)) f))"

lemma invoke_frame [simp]: "is_trigger (invoke e args w) = False" "within n (invoke e args w) = True"
  by (simp_all add: invoke_def)

text \<open>What a call or a listener does to the flags and the vector, and the frames it pushes.\<close>

definition pushes :: "runtime \<Rightarrow> frame list \<Rightarrow> runtime \<Rightarrow> bool" where
  "pushes w gs w' \<longleftrightarrow>
     length (g_eventCancelationStack w') = length (g_eventCancelationStack w) + triggers gs \<and>
     length (currentResources w) \<le> length (currentResources w') \<and>
     (\<forall>g \<in> set gs. within (length (currentResources w')) g)"

lemma untouched [simp]:
  "g_eventCancelationStack (set_state r s w) = g_eventCancelationStack w"
  "currentResources (set_state r s w) = currentResources w"
  "g_eventCancelationStack (on_event e f w) = g_eventCancelationStack w"
  "currentResources (on_event e f w) = currentResources w"
  "g_eventCancelationStack (put_entry h name x w) = g_eventCancelationStack w"
  "currentResources (put_entry h name x w) = currentResources w"
  "g_eventCancelationStack (AddResource_loaded h r w) = g_eventCancelationStack w"
  "currentResources (AddResource_loaded h r w) = currentResources w"
  "g_eventCancelationStack (AddMounter m w) = g_eventCancelationStack w"
  "currentResources (AddMounter m w) = currentResources w"
  "g_eventCancelationStack (snapshot w) = g_eventCancelationStack w"
  "m_resources (snapshot w) = m_resources w"
  "currentResources (CancelEvent w) = currentResources w"
  "length (g_eventCancelationStack (CancelEvent w)) = length (g_eventCancelationStack w)"
  "g_eventCancelationStack (to_stopped r w) = g_eventCancelationStack w"
  "currentResources (to_stopped r w) = currentResources w"
  by (simp_all add: set_state_def on_event_def put_entry_def AddResource_loaded_def AddMounter_def snapshot_def CancelEvent_def
      to_stopped_def split: list.split)

lemma untouched_attach [simp]:
  "g_eventCancelationStack (AttachToResource r w) = g_eventCancelationStack w"
  "currentResources (AttachToResource r w) = currentResources w"
  by (simp_all add: AttachToResource_def listen_def)

lemma length_snapshot [simp]:
  "length (currentResources (snapshot w)) = max (length (m_resources w)) (length (currentResources w))"
  by (simp add: snapshot_def)

lemmas call_defs = begin_trigger_def begin_queue_def begin_load_def begin_start_def begin_stop_def begin_run_def
  begin_reset_def trigger_named_def queue_named_def CreateResource_def ConnectInternal_def Let_def

lemma begin_call_pushes: "begin_call h op w = (gs, a, w') \<Longrightarrow> pushes w gs w'"
  by (cases op) (auto simp: call_defs pushes_def split: if_splits)

lemma run_listener_pushes: "run_listener h l args w = (gs, w') \<Longrightarrow> pushes w gs w'"
  by (cases l) (auto simp: call_defs pushes_def split: if_splits)

lemma begin_stop_pushes: "begin_stop r w = (gs, a, w') \<Longrightarrow> pushes w gs w'"
  using begin_call_pushes[of undefined "Do_stop r" w] by simp

lemma begin_trigger_pushes: "begin_trigger name payload source filt w = (gs, a, w') \<Longrightarrow> pushes w gs w'"
  using begin_call_pushes[of undefined "Do_trigger name payload source filt" w] by simp

lemma machine_ok_push:
  assumes "machine_ok (f # fs, a, w)" "pushes w gs w'" "\<not> is_trigger f" "triggers gs' = 0"
    and "\<forall>g \<in> set gs'. within (length (currentResources w')) g"
  shows "machine_ok (gs @ gs' @ fs, a', w')"
  using assms within_mono[of "length (currentResources w)"] by (auto simp: machine_ok_def pushes_def)

lemma machine_ok_step:
  assumes "machine_ok m" "step h m = Inr m'"
  shows "machine_ok m'"
proof -
  obtain fs a w where m: "m = (fs, a, w)" by (cases m)
  show ?thesis
  proof (cases fs)
    case (Cons f gs)
    show ?thesis
    proof (cases f)
      case (Code p)
      show ?thesis
      proof (cases p)
        case (Call op k)
        obtain cs a' w' where c: "begin_call h op w = (cs, a', w')" by (cases "begin_call h op w")
        show ?thesis
          using assms machine_ok_push[OF _ begin_call_pushes[OF c], of f gs a "[Await k]" a'] m Cons Code Call c
          by (simp add: step_simps)
      qed (use assms m Cons Code in \<open>auto simp: step_simps machine_ok_def\<close>)
    next
      case (Invoking e args n)
      show ?thesis
      proof (cases n)
        case (Some cookie)
        then obtain cb nxt where cb: "node_at cookie (m_callbacks (listeners w e)) = Some (cb, nxt)"
          using assms m Cons Invoking by (auto simp: step_simps split: option.splits)
        obtain cs w' where c: "run_listener h (cb_function cb) args w = (cs, w')"
          by (cases "run_listener h (cb_function cb) args w")
        show ?thesis
          using assms machine_ok_push[OF _ run_listener_pushes[OF c], of f gs a "[Invoked e args nxt]" a] m Cons Invoking Some cb c
          by (simp add: step_simps)
      qed (use assms m Cons Invoking in \<open>auto simp: step_simps machine_ok_def\<close>)
    next
      case Queue_loop
      show ?thesis
      proof (cases "m_eventQueue w")
        case (Cons ev evs)
        obtain cs a' w' where c: "begin_trigger (eventName ev) (eventPayload ev) (eventSource ev) (event_filter ev)
            (w\<lparr>m_eventQueue := evs\<rparr>) = (cs, a', w')"
          by (metis prod_cases3)
        have "pushes w cs w'" using begin_trigger_pushes[OF c] by (simp add: pushes_def)
        then show ?thesis
          using assms machine_ok_push[of f gs a w cs w' "[Queue_loop]" a'] m \<open>fs = f # gs\<close> Queue_loop Cons c
          by (simp add: step_simps)
      qed (use assms m Cons Queue_loop in \<open>auto simp: step_simps machine_ok_def\<close>)
    next
      case (Reset_each cfx idx n)
      show ?thesis
      proof (cases "idx < n")
        case True
        then obtain r where r: "currentResources w ! idx = Some r"
          using assms m Cons Reset_each by (auto simp: step_simps split: option.splits if_splits)
        obtain cs a' w' where c: "begin_stop r w = (cs, a', w')" by (metis prod_cases3)
        note pushed = begin_stop_pushes[OF c]
        have n: "n \<le> length (currentResources w)" "n \<le> length (currentResources w')"
          using assms m Cons Reset_each pushed by (auto simp: machine_ok_def pushes_def)
        show ?thesis
          using assms machine_ok_push[OF _ pushed, of f gs a "[Reset_stopped r, Reset_each cfx (idx + 1) n]" a'] n
            m Cons Reset_each True r c
          by (auto simp: step_simps machine_ok_def split: if_splits)
      qed (use assms m Cons Reset_each in \<open>auto simp: step_simps machine_ok_def Let_def\<close>)
    next
      case (Trigger_each args filt idx n)
      then show ?thesis
        using assms m Cons by (auto simp: step_simps machine_ok_def split: if_splits option.splits list.splits)
    next
      case (Trigger_resources args filt)
      then show ?thesis
        using assms m Cons within_mono by (fastforce simp: step_simps machine_ok_def)
    qed (use assms m Cons in \<open>auto simp: step_simps machine_ok_def Let_def split: if_splits\<close>)
  qed (use assms m in \<open>auto simp: step_simps machine_ok_def\<close>)
qed

lemma reachable_ok: "reachable h m \<Longrightarrow> machine_ok m"
proof (induction rule: reachable.induct)
  case (start p)
  then show ?case by (simp add: machine_ok_def initial_runtime_def listen_def)
qed (rule machine_ok_step)

lemma machine_ok_faults:
  assumes "machine_ok m" "step h m = Inl f"
  shows "f = Use_after_free \<or> f = Null_resource"
proof -
  obtain fs a w where m: "m = (fs, a, w)" by (cases m)
  show ?thesis
    using assms m
    by (cases "(h, m)" rule: step.cases)
      (auto simp: step_simps machine_ok_def Let_def split: if_splits option.splits list.splits prod.splits)
qed

text \<open>C7: Whatever external code runs, in every reachable machine the cancelation stack has exactly one
  flag for each \<open>TriggerEvent\<close> that has not returned (so it is empty again when all code has returned,
  and \<open>pop\<close> is never called on an empty stack), and no loop over the resources leaves the static
  vector. The only faults left are a callback freed while it was next, and a null resource.\<close>

theorem cancelation_stack_matches_triggers:
  assumes "reachable h (fs, a, w)"
  shows "length (g_eventCancelationStack w) = triggers fs \<and>
    (\<forall>f. step h (fs, a, w) = Inl f \<longrightarrow> f = Use_after_free \<or> f = Null_resource)"
proof -
  note ok = reachable_ok[OF assms]
  show ?thesis
  proof (intro conjI allI impI)
    show "length (g_eventCancelationStack w) = triggers fs" using ok by (simp add: machine_ok_def)
    show "step h (fs, a, w) = Inl f \<Longrightarrow> f = Use_after_free \<or> f = Null_resource" for f
      by (rule machine_ok_faults[OF ok])
  qed
qed

section \<open>A run\<close>

text \<open>A host whose external code does nothing.\<close>

definition plain_host :: host where
  "plain_host = \<lparr>code = (\<lambda>_ _. Return True), load_error = (\<lambda>_ _. False), provide_entries = (\<lambda>_. []),
     put_resource = (#), put_provide = (#), pack = (\<lambda>s. 145 # s), is_server = True,
     url_protocol = (\<lambda>_. None), handles_scheme = (\<lambda>_ _. False)\<rparr>"

lemma plain_host_simps [simp]:
  "code plain_host i args = Return True" "load_error plain_host r path = False" "provide_entries plain_host r = []"
  "put_resource plain_host x xs = x # xs" "put_provide plain_host y ys = y # ys" "pack plain_host s = 145 # s"
  "is_server plain_host"
  by (simp_all add: plain_host_def)

text \<open>Inside a triggered event.\<close>

theorem cancelation_stack_matches_triggers_witness:
  "\<exists>fs w. run plain_host 1 ([Code (Call (Do_trigger [101] [] [] None) (\<lambda>_. Return True))], Nothing, initial_runtime) = Inr (fs, Nothing, w) \<and>
    length (g_eventCancelationStack w) = triggers fs \<and> triggers fs = 1"
proof -
  let ?m = "([Code (Call (Do_trigger [101] [] [] None) (\<lambda>_. Return True))], Nothing, initial_runtime)"
  obtain fs w where r: "step plain_host ?m = Inr (fs, Nothing, w)" and t: "triggers fs = 1"
    by (simp add: step_simps begin_trigger_def Let_def)
  have "reachable plain_host (fs, Nothing, w)" by (rule reachable.step[OF reachable.start r])
  from cancelation_stack_matches_triggers[OF this] show ?thesis using r t by simp
qed

end
