(* ===== verification/Runtime_Delivery.thy ===== *)
theory Runtime_Delivery
  imports Runtime_Safety
begin

text \<open>
  What \<open>TriggerEvent\<close>, the queue of events and \<open>Start\<close> do when the listeners are passive: external code
  that cancels events and asks for states, and makes no other call. The small steps of the machine are
  compared with a description of the whole event: who hears it, in which order, and what it answers.
\<close>

section \<open>Passive code\<close>

fun is_question :: "operation \<Rightarrow> bool" where
  "is_question Do_cancel = True"
| "is_question Ask_canceled = True"
| "is_question (Ask_state r) = True"
| "is_question (Ask_resource name p) = True"
| "is_question _ = False"

inductive only_asks :: "program \<Rightarrow> bool" where
  "only_asks (Return b)"
| "is_question op \<Longrightarrow> (\<And>a. only_asks (k a)) \<Longrightarrow> only_asks (Call op k)"

text \<open>What passive code returns and whether it cancels, given the answers it gets in a state.\<close>

definition answer_of :: "host \<Rightarrow> runtime \<Rightarrow> operation \<Rightarrow> answer" where
  "answer_of h w op = fst (snd (begin_call h op w))"

primrec verdict :: "host \<Rightarrow> runtime \<Rightarrow> program \<Rightarrow> bool \<times> bool" where
  "verdict h w (Return b) = (b, False)"
| "verdict h w (Call op k) = (let (b, c) = verdict h w (k (answer_of h w op)) in (b, c \<or> op = Do_cancel))"

text \<open>What changes while an event is delivered: the flags, the trace and the static vector.\<close>

definition same_view :: "runtime \<Rightarrow> runtime \<Rightarrow> bool" where
  "same_view w w' \<longleftrightarrow> resource_heap w' = resource_heap w \<and> next_resource w' = next_resource w \<and>
     listeners w' = listeners w \<and> m_resources w' = m_resources w \<and> m_resourceProvides w' = m_resourceProvides w \<and>
     g_wasLastEventCanceled w' = g_wasLastEventCanceled w"

lemma same_view_state: "same_view w w' \<Longrightarrow> GetState r w' = GetState r w"
  by (simp add: GetState_def resource_of_def same_view_def)

lemma same_view_find:
  assumes "same_view w w'"
  shows "GetResource name p w' = GetResource name p w"
proof -
  have eqs: "m_resources w' = m_resources w" "m_resourceProvides w' = m_resourceProvides w"
    using assms by (simp_all add: same_view_def)
  show ?thesis unfolding GetResource_def find_resource_def same_view_state[OF assms] eqs by (rule refl)
qed

lemma same_view_answer: "same_view w w' \<Longrightarrow> is_question op \<Longrightarrow> answer_of h w' op = answer_of h w op"
  by (cases op) (simp_all add: answer_of_def same_view_state same_view_find, simp add: same_view_def)

lemma same_view_verdict: "only_asks p \<Longrightarrow> same_view w w' \<Longrightarrow> verdict h w' p = verdict h w p"
  by (induction rule: only_asks.induct) (simp_all add: same_view_answer)

lemma same_view_refl [simp]: "same_view w w"
  by (simp add: same_view_def)

lemma same_view_trans [trans]: "same_view w w' \<Longrightarrow> same_view w' w'' \<Longrightarrow> same_view w w''"
  by (simp add: same_view_def)

definition cancel_if :: "bool \<Rightarrow> runtime \<Rightarrow> runtime" where
  "cancel_if c w = (if c then CancelEvent w else w)"

lemma same_view_updates [simp]:
  "same_view w (w\<lparr>calls := log\<rparr>)" "same_view w (w\<lparr>g_eventCancelationStack := stack\<rparr>)" "same_view w (w\<lparr>currentResources := vec\<rparr>)"
  "same_view w (w\<lparr>m_eventQueue := evs\<rparr>)" "same_view w (snapshot w)" "same_view w (CancelEvent w)" "same_view w (cancel_if c w)"
  by (simp_all add: same_view_def snapshot_def cancel_if_def CancelEvent_def split: list.split)

lemma cancel_if_simps [simp]:
  "cancel_if False w = w" "cancel_if c (cancel_if c' w) = cancel_if (c \<or> c') w"
  "cancel_if c (w\<lparr>calls := log\<rparr>) = (cancel_if c w)\<lparr>calls := log\<rparr>"
  "calls (cancel_if c w) = calls w" "currentResources (cancel_if c w) = currentResources w"
  "listeners (cancel_if c w) = listeners w"
  by (auto simp: cancel_if_def CancelEvent_def split: list.splits)

lemma question_call:
  "is_question op \<Longrightarrow> begin_call h op w = ([], answer_of h w op, cancel_if (op = Do_cancel) w)"
  by (cases op) (simp_all add: answer_of_def cancel_if_def)

lemma run_code:
  "only_asks p \<Longrightarrow> runs h (Code p # fs, a, w)
    (fs, Truth (fst (verdict h w p)), cancel_if (snd (verdict h w p)) w)"
proof (induction arbitrary: a w rule: only_asks.induct)
  case (1 b)
  then show ?case by (simp add: runs_step1 step_simps)
next
  case (2 op k)
  let ?a = "answer_of h w op" and ?w = "cancel_if (op = Do_cancel) w"
  have "runs h (Code (Call op k) # fs, a, w) (Code (k ?a) # fs, ?a, ?w)"
    by (rule runs_step, simp add: step_simps question_call[OF 2(1)])
      (rule runs_step1, simp add: step_simps)
  also have "runs h (Code (k ?a) # fs, ?a, ?w)
      (fs, Truth (fst (verdict h ?w (k ?a))), cancel_if (snd (verdict h ?w (k ?a))) ?w)"
    by (rule 2(3))
  finally show ?case
    using same_view_verdict[OF 2(2), of w ?w h ?a] by (simp add: split_beta)
qed

section \<open>Who hears an event\<close>

text \<open>The external listeners that a list of callbacks leads to: up to the first that returns \<open>False\<close>.\<close>

fun heard :: "host \<Rightarrow> event_args \<Rightarrow> runtime \<Rightarrow> listener callback list \<Rightarrow> nat list" where
  "heard h args w [] = []"
| "heard h args w (c # cs) =
     (case cb_function c of
        External i \<Rightarrow> i # (if fst (verdict h w (code h i args)) then heard h args w cs else [])
      | _ \<Rightarrow> [])"

fun asks :: "host \<Rightarrow> event_args \<Rightarrow> listener \<Rightarrow> bool" where
  "asks h args (External i) = only_asks (code h i args)"
| "asks h args _ = False"

definition cancels :: "host \<Rightarrow> event_args \<Rightarrow> runtime \<Rightarrow> nat \<Rightarrow> bool" where
  "cancels h args w i = snd (verdict h w (code h i args))"

text \<open>The listeners of an event that asks only: distinct cookies, external, passive.\<close>

definition asks_only :: "host \<Rightarrow> event_args \<Rightarrow> runtime \<Rightarrow> event_key \<Rightarrow> bool" where
  "asks_only h args w e \<longleftrightarrow> distinct (map cb_cookie (m_callbacks (listeners w e))) \<and>
     (\<forall>c \<in> set (m_callbacks (listeners w e)). asks h args (cb_function c))"

abbreviation callbacks :: "event_key \<Rightarrow> runtime \<Rightarrow> listener callback list" where
  "callbacks e w \<equiv> m_callbacks (listeners w e)"

text \<open>The state after listeners \<open>is\<close> have run.\<close>

definition after_hearing :: "host \<Rightarrow> event_args \<Rightarrow> runtime \<Rightarrow> nat list \<Rightarrow> runtime \<Rightarrow> runtime" where
  "after_hearing h args v is w =
     cancel_if (\<exists>i \<in> set is. cancels h args v i) (w\<lparr>calls := calls w @ map (\<lambda>i. (i, args)) is\<rparr>)"

lemma after_hearing_Nil [simp]: "after_hearing h args v [] w = w"
  by (simp add: after_hearing_def)

lemma after_hearing_append:
  "after_hearing h args v js (after_hearing h args v is w) = after_hearing h args v (is @ js) w"
  by (simp add: after_hearing_def bex_Un disj_commute)

lemma same_view_hearing [simp]: "same_view w (after_hearing h args v is w)"
  unfolding after_hearing_def by (rule same_view_trans[OF same_view_updates(1) same_view_updates(7)])

lemma heard_view:
  "same_view w w' \<Longrightarrow> (\<forall>c \<in> set cs. asks h args (cb_function c)) \<Longrightarrow> heard h args w' cs = heard h args w cs"
  by (induction cs) (auto simp: same_view_verdict split: listener.split)

lemma node_at_append:
  "cb_cookie c \<notin> cb_cookie ` set pre \<Longrightarrow> node_at (cb_cookie c) (pre @ c # cs) = Some (c, head_cookie cs)"
  by (induction pre) auto

text \<open>The invocation of one listener, and of the rest \<open>cs\<close> of a list.\<close>

lemma run_node:
  assumes "callbacks e w = pre @ c # cs" "distinct (map cb_cookie (callbacks e w))" "cb_function c = External i" "only_asks (code h i args)" "same_view v w"
  shows "runs h (Invoking e args (head_cookie (c # cs)) # fs, a, w)
    (Invoked e args (head_cookie cs) # fs, Truth (fst (verdict h v (code h i args))), after_hearing h args v [i] w)"
proof -
  let ?w1 = "w\<lparr>calls := calls w @ [(i, args)]\<rparr>"
  have v1: "verdict h ?w1 (code h i args) = verdict h v (code h i args)"
    by (rule same_view_verdict[OF assms(4) same_view_trans[OF assms(5) same_view_updates(1)]])
  have w2: "cancel_if (snd (verdict h v (code h i args))) ?w1 = after_hearing h args v [i] w" (is "_ = ?w2")
    by (simp add: after_hearing_def cancels_def)
  have node: "node_at (cb_cookie c) (callbacks e w) = Some (c, head_cookie cs)"
    using assms(1,2) by (auto intro: node_at_append)
  have "runs h (Invoking e args (head_cookie (c # cs)) # fs, a, w)
      (Code (code h i args) # Invoked e args (head_cookie cs) # fs, a, ?w1)"
    by (rule runs_step1) (simp add: head_cookie_def step_simps node assms(3))
  also have "runs h \<dots> (Invoked e args (head_cookie cs) # fs, Truth (fst (verdict h v (code h i args))), ?w2)"
    using run_code[OF assms(4), of h "Invoked e args (head_cookie cs) # fs" a ?w1] by (simp only: v1 w2)
  finally show ?thesis .
qed

lemma run_returned_true: "runs h (Invoked e args n # fs, Truth True, w) (Invoking e args n # fs, Truth True, w)"
  by (rule runs_step1) (simp add: step_simps)

lemma run_invoking:
  assumes "callbacks e w = pre @ cs" "asks_only h args w e" "same_view v w"
  shows "\<exists>b. runs h (Invoking e args (head_cookie cs) # fs, a, w)
    (fs, Truth b, after_hearing h args v (heard h args v cs) w)"
  using assms
proof (induction cs arbitrary: pre a w)
  case Nil
  then show ?case by (auto simp: head_cookie_def step_simps intro!: exI[of _ True] runs_step1)
next
  case (Cons c cs)
  obtain i where i: "cb_function c = External i" and p: "only_asks (code h i args)"
    using Cons.prems(1,2) by (cases "cb_function c") (auto simp: asks_only_def)
  let ?w2 = "after_hearing h args v [i] w"
  have dist: "distinct (map cb_cookie (callbacks e w))" using Cons.prems(2) by (simp add: asks_only_def)
  have 1: "runs h (Invoking e args (head_cookie (c # cs)) # fs, a, w)
      (Invoked e args (head_cookie cs) # fs, Truth (fst (verdict h v (code h i args))), ?w2)"
    by (rule run_node[OF Cons.prems(1) dist i p Cons.prems(3)])
  show ?case
  proof (cases "fst (verdict h v (code h i args))")
    case False
    have "runs h (Invoked e args (head_cookie cs) # fs, Truth False, ?w2) (fs, Truth False, ?w2)"
      by (rule runs_step1) (simp add: step_simps)
    then show ?thesis using 1 False i by (auto intro: runs_trans)
  next
    case True
    have l: "listeners ?w2 = listeners w" by (simp add: after_hearing_def)
    have "\<exists>b. runs h (Invoking e args (head_cookie cs) # fs, Truth True, ?w2)
        (fs, Truth b, after_hearing h args v (heard h args v cs) ?w2)"
      by (rule Cons.IH[of _ "pre @ [c]"])
        (use Cons.prems in \<open>simp_all add: l asks_only_def same_view_trans[OF _ same_view_hearing]\<close>)
    then obtain b where b: "runs h (Invoking e args (head_cookie cs) # fs, Truth True, ?w2)
        (fs, Truth b, after_hearing h args v (heard h args v cs) ?w2)" by blast
    have "runs h (Invoking e args (head_cookie (c # cs)) # fs, a, w) (Invoked e args (head_cookie cs) # fs, Truth True, ?w2)"
      using 1 True by simp
    from runs_trans[OF runs_trans[OF this run_returned_true] b] have "runs h (Invoking e args (head_cookie (c # cs)) # fs, a, w)
        (fs, Truth b, after_hearing h args v (heard h args v cs) ?w2)" .
    then show ?thesis using True i by (intro exI[of _ b]) (simp add: after_hearing_append)
  qed
qed

text \<open>Passive listeners that return \<open>True\<close>, before any others.\<close>

definition passes :: "host \<Rightarrow> event_args \<Rightarrow> runtime \<Rightarrow> listener callback \<Rightarrow> bool" where
  "passes h args w c = (case cb_function c of
     External i \<Rightarrow> only_asks (code h i args) \<and> fst (verdict h w (code h i args))
   | _ \<Rightarrow> False)"

lemma run_passing:
  assumes "callbacks e w = pre @ xs @ cs" "distinct (map cb_cookie (callbacks e w))" "\<forall>c \<in> set xs. passes h args v c" "same_view v w"
  shows "\<exists>b. runs h (Invoking e args (head_cookie (xs @ cs)) # fs, a, w)
    (Invoking e args (head_cookie cs) # fs, b, after_hearing h args v (heard h args v xs) w)"
  using assms
proof (induction xs arbitrary: pre a w)
  case (Cons c xs)
  obtain i where i: "cb_function c = External i" "only_asks (code h i args)" "fst (verdict h v (code h i args))"
    using Cons.prems(3) by (cases "cb_function c") (auto simp: passes_def)
  let ?w2 = "after_hearing h args v [i] w"
  have l: "listeners ?w2 = listeners w" by (simp add: after_hearing_def)
  have "runs h (Invoking e args (head_cookie ((c # xs) @ cs)) # fs, a, w) (Invoked e args (head_cookie (xs @ cs)) # fs, Truth True, ?w2)"
    using run_node[where w = w and e = e and pre = pre and c = c and cs = "xs @ cs" and i = i and h = h and args = args and v = v and fs = fs and a = a]
      Cons.prems i by simp
  also note run_returned_true
  finally have 1: "runs h (Invoking e args (head_cookie ((c # xs) @ cs)) # fs, a, w) (Invoking e args (head_cookie (xs @ cs)) # fs, Truth True, ?w2)" .
  have "\<exists>b. runs h (Invoking e args (head_cookie (xs @ cs)) # fs, Truth True, ?w2)
      (Invoking e args (head_cookie cs) # fs, b, after_hearing h args v (heard h args v xs) ?w2)"
    by (rule Cons.IH[of _ "pre @ [c]"]) (use Cons.prems in \<open>simp_all add: l same_view_trans[OF _ same_view_hearing]\<close>)
  with 1 i show ?case by (auto simp: after_hearing_append intro: runs_trans)
qed auto

text \<open>An event that leads to a listener of the runtime itself: the calls that it makes, with its result.\<close>

lemma run_native:
  assumes "callbacks e w = pre @ cb # post" "distinct (map cb_cookie (callbacks e w))" "\<forall>c \<in> set pre. passes h args v c" "same_view v w"
    and "run_listener h (cb_function cb) args (after_hearing h args v (heard h args v pre) w) = (gs, w')"
    and "\<And>fs a. runs h (gs @ fs, a, w') (fs, Truth b, w'')"
  shows "runs h (invoke e args w # fs, a, w) (Invoked e args (head_cookie post) # fs, Truth b, w'')"
proof -
  let ?w = "after_hearing h args v (heard h args v pre) w"
  obtain b0 where "runs h (Invoking e args (head_cookie (pre @ cb # post)) # fs, a, w) (Invoking e args (head_cookie (cb # post)) # fs, b0, ?w)"
    using run_passing[where w = w and e = e and pre = "[]" and xs = pre and cs = "cb # post" and v = v and h = h and args = args and fs = fs and a = a]
    assms(1-4) by auto
  moreover have "node_at (cb_cookie cb) (callbacks e ?w) = Some (cb, head_cookie post)"
    using assms(1,2) by (auto simp: after_hearing_def intro!: node_at_append)
  then have "runs h (Invoking e args (head_cookie (cb # post)) # fs, b0, ?w) (gs @ Invoked e args (head_cookie post) # fs, b0, w')"
    by (intro runs_step1) (simp add: head_cookie_def step_simps assms(5))
  ultimately show ?thesis using assms(1,6) by (auto simp: invoke_def first_node_def intro: runs_trans)
qed

lemma run_invoke:
  assumes "asks_only h args w e" "same_view v w"
  shows "\<exists>b. runs h (invoke e args w # fs, a, w) (fs, Truth b, after_hearing h args v (heard h args v (callbacks e w)) w)"
  using run_invoking[where pre = "[]" and cs = "callbacks e w", OF _ assms] by (simp add: invoke_def first_node_def)

section \<open>The delivery of an event\<close>

text \<open>The resources an event is for, in the order of the table, and everybody who hears it.\<close>

definition recipients :: "nat option \<Rightarrow> runtime \<Rightarrow> nat list" where
  "recipients filt w = filter (\<lambda>r. filt = None \<or> filt = Some r) (List.map_filter snd (m_resources w))"

definition hearers :: "host \<Rightarrow> event_args \<Rightarrow> nat option \<Rightarrow> runtime \<Rightarrow> nat list" where
  "hearers h args filt w = heard h args w (callbacks Manager_trigger w) @
     concat (map (\<lambda>r. heard h args w (callbacks (Of_resource r On_trigger) w)) (recipients filt w))"

definition canceled :: "host \<Rightarrow> event_args \<Rightarrow> nat option \<Rightarrow> runtime \<Rightarrow> bool" where
  "canceled h args filt w \<longleftrightarrow> (\<exists>i \<in> set (hearers h args filt w). cancels h args w i)"

definition after_trigger :: "host \<Rightarrow> event_args \<Rightarrow> nat option \<Rightarrow> runtime \<Rightarrow> runtime" where
  "after_trigger h args filt w = (snapshot w)\<lparr>calls := calls w @ map (\<lambda>i. (i, args)) (hearers h args filt w),
     g_wasLastEventCanceled := canceled h args filt w\<rparr>"

text \<open>An event whose listeners only ask, in a runtime without null resources.\<close>

definition quiet_event :: "host \<Rightarrow> event_args \<Rightarrow> nat option \<Rightarrow> runtime \<Rightarrow> bool" where
  "quiet_event h args filt w \<longleftrightarrow> asks_only h args w Manager_trigger \<and>
     (\<forall>r \<in> set (recipients filt w). asks_only h args w (Of_resource r On_trigger)) \<and>
     (\<forall>(k, r) \<in> set (m_resources w). r \<noteq> None)"

lemma asks_only_view: "same_view w w' \<Longrightarrow> asks_only h args w' e = asks_only h args w e"
  by (simp add: asks_only_def same_view_def)

lemma run_trigger_each:
  assumes "currentResources w = xs @ map Some rs @ ys" "same_view v w"
    and "\<forall>r \<in> set rs. filt = None \<or> filt = Some r \<longrightarrow> asks_only h args v (Of_resource r On_trigger)"
  shows "\<exists>b. runs h (Trigger_each args filt (length xs) (length xs + length rs) # fs, a, w)
    (Trigger_each args filt (length xs + length rs) (length xs + length rs) # fs, b,
      after_hearing h args v (concat (map (\<lambda>r. heard h args v (callbacks (Of_resource r On_trigger) v))
        (filter (\<lambda>r. filt = None \<or> filt = Some r) rs))) w)"
  using assms
proof (induction rs arbitrary: xs w a)
  case (Cons r rs)
  let ?n = "length xs + length (r # rs)" and ?hear = "\<lambda>r. heard h args v (callbacks (Of_resource r On_trigger) v)"
  let ?match = "filt = None \<or> filt = Some r"
  let ?w1 = "if ?match then after_hearing h args v (?hear r) w else w"
  have "\<exists>b. runs h (Trigger_each args filt (length xs) ?n # fs, a, w) (Trigger_each args filt (length xs + 1) ?n # fs, b, ?w1)"
  proof (cases ?match)
    case True
    then have m: "\<not> (filt \<noteq> None \<and> filt \<noteq> Some r)" by blast
    have q: "asks_only h args w (Of_resource r On_trigger)" using Cons.prems True by (auto simp: asks_only_view)
    obtain b where "runs h (invoke (Of_resource r On_trigger) args w # Trigger_each args filt (length xs + 1) ?n # fs, Nothing, w)
        (Trigger_each args filt (length xs + 1) ?n # fs, Truth b, ?w1)"
      using run_invoke[OF q Cons.prems(2)] Cons.prems(2) True by (auto simp: same_view_def)
    moreover have "step h (Trigger_each args filt (length xs) ?n # fs, a, w) =
        Inr (invoke (Of_resource r On_trigger) args w # Trigger_each args filt (length xs + 1) ?n # fs, Nothing, w)"
      using Cons.prems(1) m by (auto simp: step_simps nth_append)
    ultimately show ?thesis by (blast intro: runs_step)
  next
    case False
    then have "step h (Trigger_each args filt (length xs) ?n # fs, a, w) = Inr (Trigger_each args filt (length xs + 1) ?n # fs, Nothing, w)"
      using Cons.prems(1) by (auto simp: step_simps nth_append)
    then show ?thesis using False by (auto intro: runs_step1)
  qed
  then obtain b where 1: "runs h (Trigger_each args filt (length xs) ?n # fs, a, w) (Trigger_each args filt (length xs + 1) ?n # fs, b, ?w1)" ..
  have w1: "currentResources ?w1 = (xs @ [Some r]) @ map Some rs @ ys" "same_view v ?w1"
    using Cons.prems same_view_trans[OF Cons.prems(2) same_view_hearing] by (auto simp: after_hearing_def)
  from Cons.IH[OF w1, of b] Cons.prems(3)
  obtain b' where "runs h (Trigger_each args filt (length xs + 1) ?n # fs, b, ?w1) (Trigger_each args filt ?n ?n # fs, b',
      after_hearing h args v (concat (map ?hear (filter (\<lambda>r. filt = None \<or> filt = Some r) rs))) ?w1)"
    by auto
  then have "runs h (Trigger_each args filt (length xs) ?n # fs, a, w) (Trigger_each args filt ?n ?n # fs, b',
      after_hearing h args v (concat (map ?hear (filter (\<lambda>r. filt = None \<or> filt = Some r) rs))) ?w1)"
    using 1 by (rule runs_trans[rotated])
  then show ?case by (cases ?match) (auto simp: after_hearing_append)
qed auto

lemma recipients_view: "same_view w w' \<Longrightarrow> recipients filt w' = recipients filt w"
  by (simp add: recipients_def same_view_def)

lemma somes: "(\<forall>(k, r) \<in> set xs. r \<noteq> None) \<Longrightarrow> map snd xs = map Some (List.map_filter snd xs)"
  by (induction xs) (auto simp: map_filter_simps)

text \<open>The flags, the trace and the vector during the delivery, written out.\<close>

lemma hearing_flag:
  "after_hearing h args v is (w\<lparr>g_eventCancelationStack := b # st\<rparr>) =
    w\<lparr>g_eventCancelationStack := ((\<exists>i \<in> set is. cancels h args v i) \<or> b) # st, calls := calls w @ map (\<lambda>i. (i, args)) is\<rparr>"
  by (cases "\<exists>i \<in> set is. cancels h args v i") (simp_all add: after_hearing_def cancel_if_def CancelEvent_def)

lemma run_trigger:
  assumes "begin_trigger name payload source filt v = (gs, a, w)" "quiet_event h (Event_args name payload source) filt v"
  shows "runs h (gs @ fs, a', w)
    (fs, Truth (\<not> canceled h (Event_args name payload source) filt v), after_trigger h (Event_args name payload source) filt v)"
proof -
  let ?args = "Event_args name payload source" and ?st = "g_eventCancelationStack v"
  let ?hear = "\<lambda>r. heard h ?args v (callbacks (Of_resource r On_trigger) v)"
  let ?global = "heard h ?args v (callbacks Manager_trigger v)"
  have gs: "gs = [invoke Manager_trigger ?args w, Trigger_resources ?args filt]"
    and w: "w = v\<lparr>g_eventCancelationStack := False # ?st\<rparr>"
    using assms(1) by (auto simp: begin_trigger_def Let_def)
  have view: "same_view v w" by (simp add: w)
  let ?w1 = "after_hearing h ?args v ?global w"
  have q: "asks_only h ?args w Manager_trigger" using assms(2) view by (simp add: quiet_event_def asks_only_view)
  obtain b where 1: "runs h (gs @ fs, a', w) (Trigger_resources ?args filt # fs, Truth b, ?w1)"
    using run_invoke[OF q view, of "Trigger_resources ?args filt # fs" a'] view by (auto simp: gs same_view_def)
  let ?rs = "List.map_filter snd (m_resources v)"
  have view1: "same_view v (snapshot ?w1)" by (rule same_view_trans[OF same_view_trans[OF view same_view_hearing] same_view_updates(5)])
  have m: "m_resources ?w1 = m_resources v" using same_view_trans[OF view same_view_hearing] by (simp add: same_view_def)
  have some: "map snd (m_resources v) = map Some ?rs" using assms(2) by (intro somes) (simp add: quiet_event_def)
  then have len: "length (m_resources v) = length ?rs" by (metis length_map)
  have vec: "currentResources (snapshot ?w1) = [] @ map Some ?rs @ drop (length ?rs) (currentResources ?w1)"
    by (simp add: snapshot_def m some len)
  have ask: "\<forall>r \<in> set ?rs. filt = None \<or> filt = Some r \<longrightarrow> asks_only h ?args v (Of_resource r On_trigger)"
    using assms(2) by (auto simp: quiet_event_def recipients_def)
  let ?js = "concat (map ?hear (recipients filt v))"
  let ?n = "length ?rs"
  have "runs h (Trigger_resources ?args filt # fs, Truth b, ?w1) (Trigger_each ?args filt 0 ?n # fs, Nothing, snapshot ?w1)"
    by (rule runs_step1) (simp add: step_simps m len)
  moreover obtain b' where "runs h (Trigger_each ?args filt 0 ?n # fs, Nothing, snapshot ?w1)
      (Trigger_each ?args filt ?n ?n # fs, b', after_hearing h ?args v ?js (snapshot ?w1))"
    using run_trigger_each[OF vec view1 ask, of fs Nothing] by (auto simp: recipients_def)
  ultimately have 2: "runs h (gs @ fs, a', w) (Trigger_each ?args filt ?n ?n # fs, b', after_hearing h ?args v ?js (snapshot ?w1))"
    using 1 by (blast intro: runs_trans)
  let ?c = "canceled h ?args filt v"
  have w1: "?w1 = v\<lparr>g_eventCancelationStack := (\<exists>i \<in> set ?global. cancels h ?args v i) # ?st,
      calls := calls v @ map (\<lambda>i. (i, ?args)) ?global\<rparr>"
    unfolding w hearing_flag by simp
  have snap: "snapshot (v\<lparr>g_eventCancelationStack := st, calls := l\<rparr>) =
      (snapshot v)\<lparr>calls := l, g_eventCancelationStack := st\<rparr>" for st l
    by (simp add: snapshot_def)
  have c: "?c \<longleftrightarrow> (\<exists>i \<in> set ?js. cancels h ?args v i) \<or> (\<exists>i \<in> set ?global. cancels h ?args v i)"
    unfolding canceled_def hearers_def set_append bex_Un by (rule disj_commute)
  have end_state: "after_hearing h ?args v ?js (snapshot ?w1) =
      (snapshot v)\<lparr>g_eventCancelationStack := ?c # ?st, calls := calls v @ map (\<lambda>i. (i, ?args)) (hearers h ?args filt v)\<rparr>"
    unfolding w1 snap hearing_flag c by (simp add: hearers_def)
  have "step h (Trigger_each ?args filt ?n ?n # fs, b', after_hearing h ?args v ?js (snapshot ?w1)) =
      Inr (fs, Truth (\<not> ?c), after_trigger h ?args filt v)"
    by (simp add: step_simps end_state after_trigger_def)
  then show ?thesis using 2 by (blast intro: runs_trans runs_step1)
qed

section \<open>The calls, as the external code sees them\<close>

lemma trigger_call:
  assumes "quiet_event h (Event_args name payload source) filt w"
  shows "runs h (Code (Call (Do_trigger name payload source filt) k) # fs, a, w)
    (Code (k (Truth (\<not> canceled h (Event_args name payload source) filt w))) # fs,
      Truth (\<not> canceled h (Event_args name payload source) filt w), after_trigger h (Event_args name payload source) filt w)"
proof -
  obtain gs b w' where b: "begin_trigger name payload source filt w = (gs, b, w')" by (metis prod_cases3)
  have "runs h (Code (Call (Do_trigger name payload source filt) k) # fs, a, w) (gs @ Await k # fs, b, w')"
    by (rule runs_step1) (simp add: step_simps b)
  also note run_trigger[OF b assms]
  also have "runs h (Await k # fs, Truth c, v) (Code (k (Truth c)) # fs, Truth c, v)" for c v
    by (rule runs_step1) (simp add: step_simps)
  finally show ?thesis .
qed

subsection \<open>The queue\<close>

definition args_of :: "event_data \<Rightarrow> event_args" where
  "args_of ev = Event_args (eventName ev) (eventPayload ev) (eventSource ev)"

definition after_queue :: "host \<Rightarrow> event_data list \<Rightarrow> runtime \<Rightarrow> runtime" where
  "after_queue h = fold (\<lambda>ev. after_trigger h (args_of ev) (event_filter ev))"

definition quiet_data :: "host \<Rightarrow> runtime \<Rightarrow> event_data \<Rightarrow> bool" where
  "quiet_data h w ev \<longleftrightarrow> quiet_event h (args_of ev) (event_filter ev) w"

text \<open>Whether an event is quiet depends on the listeners and the table only.\<close>

lemma quiet_event_frame:
  "listeners w' = listeners w \<Longrightarrow> m_resources w' = m_resources w \<Longrightarrow> quiet_event h args filt w' = quiet_event h args filt w"
  by (simp add: quiet_event_def asks_only_def recipients_def)

lemma after_trigger_simps [simp]:
  "listeners (after_trigger h args filt w) = listeners w" "m_resources (after_trigger h args filt w) = m_resources w"
  "resource_heap (after_trigger h args filt w) = resource_heap w" "m_eventQueue (after_trigger h args filt w) = m_eventQueue w"
  by (simp_all add: after_trigger_def snapshot_def)

lemma hearers_view:
  assumes "same_view w w'" "quiet_event h args filt w"
  shows "hearers h args filt w' = hearers h args filt w"
    "i \<in> set (hearers h args filt w) \<Longrightarrow> cancels h args w' i = cancels h args w i"
proof -
  note defs = quiet_event_def asks_only_def
  have l: "listeners w' = listeners w" using assms(1) by (simp add: same_view_def)
  show "hearers h args filt w' = hearers h args filt w"
    unfolding hearers_def recipients_view[OF assms(1)] l using assms
    by (auto simp: defs heard_view intro!: arg_cong[where f = concat])
  have ext: "j \<in> set (heard h args w cs) \<Longrightarrow> \<forall>c \<in> set cs. asks h args (cb_function c) \<Longrightarrow> only_asks (code h j args)" for j cs
  proof (induction cs)
    case (Cons c cs)
    then show ?case by (cases "cb_function c") (auto split: if_splits)
  qed simp
  show "i \<in> set (hearers h args filt w) \<Longrightarrow> cancels h args w' i = cancels h args w i"
    using assms ext by (auto simp: hearers_def defs cancels_def same_view_verdict)
qed

lemma canceled_view: "same_view w w' \<Longrightarrow> quiet_event h args filt w \<Longrightarrow> canceled h args filt w' = canceled h args filt w"
  by (simp add: canceled_def hearers_view)

lemma after_trigger_queue:
  assumes "quiet_event h args filt w"
  shows "after_trigger h args filt (w\<lparr>m_eventQueue := evs\<rparr>) = (after_trigger h args filt w)\<lparr>m_eventQueue := evs\<rparr>"
proof -
  have v: "same_view w (w\<lparr>m_eventQueue := evs\<rparr>)" by simp
  show ?thesis by (simp add: after_trigger_def hearers_view(1)[OF v assms] canceled_view[OF v assms] snapshot_def)
qed

lemma run_queue:
  "(\<forall>ev \<in> set evs. quiet_data h w ev) \<Longrightarrow>
    runs h (Queue_loop # fs, a, w\<lparr>m_eventQueue := evs\<rparr>) (fs, Nothing, after_queue h evs (w\<lparr>m_eventQueue := []\<rparr>))"
proof (induction evs arbitrary: a w)
  case Nil
  then show ?case by (simp add: after_queue_def runs_step1 step_simps)
next
  case (Cons ev evs)
  let ?w = "w\<lparr>m_eventQueue := evs\<rparr>" and ?w1 = "after_trigger h (args_of ev) (event_filter ev) w"
  obtain gs b w' where b: "begin_trigger (eventName ev) (eventPayload ev) (eventSource ev) (event_filter ev) ?w = (gs, b, w')"
    by (metis prod_cases3)
  have q: "quiet_event h (args_of ev) (event_filter ev) w" using Cons.prems by (simp add: quiet_data_def)
  have q': "quiet_event h (Event_args (eventName ev) (eventPayload ev) (eventSource ev)) (event_filter ev) ?w"
    using q quiet_event_frame[of ?w w] by (simp add: args_of_def)
  obtain c where c: "runs h (gs @ Queue_loop # fs, b, w') (Queue_loop # fs, c, ?w1\<lparr>m_eventQueue := evs\<rparr>)"
    using run_trigger[OF b q', of "Queue_loop # fs" b] after_trigger_queue[OF q, of evs] by (auto simp: args_of_def)
  have "runs h (Queue_loop # fs, a, w\<lparr>m_eventQueue := ev # evs\<rparr>) (gs @ Queue_loop # fs, b, w')"
    by (rule runs_step1) (simp add: step_simps b)
  also note c
  also have "\<forall>ev \<in> set evs. quiet_data h ?w1 ev"
    using Cons.prems quiet_event_frame[of ?w1 w] by (simp add: quiet_data_def)
  note Cons.IH[OF this, of c]
  also have "after_queue h evs (?w1\<lparr>m_eventQueue := []\<rparr>) = after_queue h (ev # evs) (w\<lparr>m_eventQueue := []\<rparr>)"
    by (simp add: after_queue_def after_trigger_queue[OF q])
  finally show ?case .
qed

lemma after_queue_empty: "m_eventQueue (after_queue h evs w) = m_eventQueue w"
  by (induction evs arbitrary: w) (simp_all add: after_queue_def)

text \<open>
  A tick in which the queue has its turn behind passive listeners; what comes behind it (the ticks of the scripts, say) is arbitrary.
\<close>

definition ticks_queue :: "host \<Rightarrow> runtime \<Rightarrow> listener callback list \<Rightarrow> listener callback list \<Rightarrow> bool" where
  "ticks_queue h w pre post \<longleftrightarrow> distinct (map cb_cookie (callbacks Manager_tick w)) \<and>
     (\<exists>cb. callbacks Manager_tick w = pre @ cb # post \<and> cb_function cb = Run_queue) \<and> (\<forall>c \<in> set pre. passes h No_args w c)"

lemma passes_view: "same_view w w' \<Longrightarrow> passes h args w' c = passes h args w c"
  by (auto simp: passes_def same_view_verdict split: listener.split)

lemma ticks_queue_view: "same_view w w' \<Longrightarrow> ticks_queue h w' pre post = ticks_queue h w pre post"
  by (simp add: ticks_queue_def passes_view) (simp add: same_view_def)

definition after_tick :: "host \<Rightarrow> listener callback list \<Rightarrow> runtime \<Rightarrow> runtime" where
  "after_tick h pre w =
     fold (\<lambda>ev. after_trigger h (args_of ev) (event_filter ev)) (m_eventQueue w)
       ((after_hearing h No_args w (heard h No_args w pre) w)\<lparr>m_eventQueue := []\<rparr>)"

lemma hearing_keeps [simp]:
  "m_eventQueue (after_hearing h args v is w) = m_eventQueue w" "listeners (after_hearing h args v is w) = listeners w"
  "m_resources (after_hearing h args v is w) = m_resources w"
  by (auto simp: after_hearing_def cancel_if_def CancelEvent_def split: list.split)

lemma after_tick_empty: "m_eventQueue (after_tick h pre w) = []"
  using after_queue_empty[of h "m_eventQueue w"] by (simp add: after_tick_def after_queue_def)

lemma tick_call:
  assumes "ticks_queue h w pre post" "\<forall>ev \<in> set (m_eventQueue w). quiet_data h w ev"
  shows "runs h (Code (Call Do_tick k) # fs, a, w)
    (Invoking Manager_tick No_args (head_cookie post) # Void # Await k # fs, Truth True, after_tick h pre w)"
proof -
  obtain cb where cb: "callbacks Manager_tick w = pre @ cb # post" "cb_function cb = Run_queue" "distinct (map cb_cookie (callbacks Manager_tick w))"
    "\<forall>c \<in> set pre. passes h No_args w c"
    using assms(1) by (auto simp: ticks_queue_def)
  let ?w = "after_hearing h No_args w (heard h No_args w pre) w"
  have same: "?w\<lparr>m_eventQueue := m_eventQueue w\<rparr> = ?w" by (rule runtime.equality) simp_all
  have "\<forall>ev \<in> set (m_eventQueue w). quiet_data h ?w ev" using assms(2) quiet_event_frame[of ?w w h] by (simp add: quiet_data_def)
  then have q: "runs h (Queue_loop # fs, a, ?w) (fs, Nothing, after_tick h pre w)" for fs a
    using run_queue[of "m_eventQueue w" h ?w fs a] unfolding same by (simp add: after_tick_def after_queue_def)
  have "runs h ([Queue_loop, Succeed] @ fs, a, ?w) (fs, Truth True, after_tick h pre w)" for fs a
    using runs_trans[OF q runs_step1] by (simp add: step_simps)
  from run_native[OF cb(1,3,4) same_view_refl _ this] cb(2)
  have "runs h (invoke Manager_tick No_args w # fs, a, w) (Invoked Manager_tick No_args (head_cookie post) # fs, Truth True, after_tick h pre w)" for fs a
    by simp
  then have "runs h (invoke Manager_tick No_args w # fs, a, w) (Invoking Manager_tick No_args (head_cookie post) # fs, Truth True, after_tick h pre w)" for fs a
    using run_returned_true runs_trans by blast
  moreover have "runs h (Code (Call Do_tick k) # fs, a, w) (invoke Manager_tick No_args w # Void # Await k # fs, Nothing, w)"
    by (rule runs_step1) (simp add: step_simps)
  ultimately show ?thesis using runs_trans by blast
qed

lemma tick_ends: "runs h (Invoking Manager_tick No_args (head_cookie []) # Void # Await k # fs, b, w) (Code (k Nothing) # fs, Nothing, w)"
  by (rule runs_step, simp add: step_simps head_cookie_def, rule runs_step, simp add: step_simps, rule runs_step1) (simp add: step_simps)

subsection \<open>Starting a resource\<close>

lemma set_state_simps [simp]:
  "listeners (set_state r s w) = listeners w" "m_resources (set_state r s w) = m_resources w"
  "GetState r (set_state r s w) = s" "GetName r (set_state r s w) = GetName r w"
  "set_state r s (set_state r s' w) = set_state r s w" "m_eventQueue (set_state r s w) = m_eventQueue w"
  by (simp_all add: set_state_def GetState_def GetName_def resource_of_def)

lemma after_trigger_resource [simp]:
  "GetState r (after_trigger h args filt w) = GetState r w" "GetName r (after_trigger h args filt w) = GetName r w"
  by (simp_all add: GetState_def GetName_def resource_of_def)

definition starting_args :: "host \<Rightarrow> nat \<Rightarrow> runtime \<Rightarrow> event_args" where
  "starting_args h r w = Event_args (str_of ''onResourceStarting'') (pack h (GetName r w)) []"

text \<open>
  The announcement (with the order -10000) has its turn behind passive listeners; what comes behind it, for example the dependency loader, is arbitrary.
\<close>

definition announces_start :: "host \<Rightarrow> nat \<Rightarrow> runtime \<Rightarrow> listener callback list \<Rightarrow> listener callback list \<Rightarrow> bool" where
  "announces_start h r w pre post \<longleftrightarrow> distinct (map cb_cookie (callbacks (Of_resource r On_before_start) w)) \<and>
     (\<exists>cb. callbacks (Of_resource r On_before_start) w = pre @ cb # post \<and> cb_function cb = Announce_starting r) \<and>
     (\<forall>c \<in> set pre. passes h No_args (set_state r Starting w) c)"

definition after_announcing :: "host \<Rightarrow> nat \<Rightarrow> listener callback list \<Rightarrow> runtime \<Rightarrow> runtime" where
  "after_announcing h r pre w =
     (let w = set_state r Starting w
      in after_trigger h (starting_args h r w) None (after_hearing h No_args w (heard h No_args w pre) w))"

lemma start_vetoed_returns:
  assumes "GetState r w \<noteq> Started"
  shows "runs h (Invoked e args n # Starting_before r # Await k # fs, Truth False, w) (Code (k (Truth False)) # fs, Truth False, set_state r Stopped w)"
  by (rule runs_step, simp add: step_simps, rule runs_step, simp add: step_simps to_stopped_def assms, rule runs_step1) (simp add: step_simps)

lemma start_call_vetoed:
  assumes "GetState r w \<noteq> Started" "GetState r w \<noteq> Starting" "announces_start h r w pre post"
    and "quiet_event h (starting_args h r w) None w" "canceled h (starting_args h r w) None (set_state r Starting w)"
  shows "runs h (Code (Call (Do_start r) k) # fs, a, w) (Code (k (Truth False)) # fs, Truth False, set_state r Stopped (after_announcing h r pre w))"
proof -
  let ?w = "set_state r Starting w" and ?args = "starting_args h r w" and ?e = "Of_resource r On_before_start"
  let ?v = "after_hearing h No_args ?w (heard h No_args ?w pre) ?w"
  have view: "same_view ?w ?v" by simp
  then have name: "GetName r ?v = GetName r w" using set_state_simps(4)[of r Starting w]
    by (simp add: same_view_def GetName_def resource_of_def del: set_state_simps(4))
  obtain cb where cb: "callbacks ?e ?w = pre @ cb # post" "cb_function cb = Announce_starting r" "distinct (map cb_cookie (callbacks ?e ?w))"
    "\<forall>c \<in> set pre. passes h No_args ?w c"
    using assms(3) by (auto simp: announces_start_def)
  have q: "quiet_event h ?args None ?w" "quiet_event h ?args None ?v" using assms(4) quiet_event_frame[of ?w w] quiet_event_frame[of ?v w] by simp_all
  have c: "canceled h ?args None ?v" using canceled_view[OF view q(1)] assms(5) by simp
  obtain gs b w' where t: "trigger_named h ''onResourceStarting'' r ?v = (gs, b, w')" by (metis prod_cases3)
  have t': "begin_trigger (str_of ''onResourceStarting'') (pack h (GetName r w)) [] None ?v = (gs, b, w')"
    using t name by (simp add: trigger_named_def)
  have end_state: "after_announcing h r pre w = after_trigger h ?args None ?v" by (simp add: after_announcing_def Let_def starting_args_def)
  have "runs h (gs @ fs, a, w') (fs, Truth False, after_announcing h r pre w)" for fs a
    using run_trigger[OF t', of h fs a] q(2) c by (simp add: end_state starting_args_def)
  from run_native[OF cb(1,3,4) same_view_refl _ this] cb(2) t
  have n: "runs h (invoke ?e No_args ?w # fs, a, ?w) (Invoked ?e No_args (head_cookie post) # fs, Truth False, after_announcing h r pre w)" for fs a
    by simp
  have "runs h (Code (Call (Do_start r) k) # fs, a, w) (invoke ?e No_args ?w # Starting_before r # Await k # fs, Nothing, ?w)"
    by (rule runs_step1) (simp add: step_simps begin_start_def assms(1,2) Let_def)
  also note n
  also have "GetState r (after_announcing h r pre w) \<noteq> Started"
    using same_view_state[OF view, of r] by (simp add: end_state)
  note start_vetoed_returns[OF this]
  finally show ?thesis .
qed

end
