(* ===== verification/Runtime_Properties.thy ===== *)
theory Runtime_Properties
  imports Runtime_Delivery
begin

text \<open>
  The properties of the resource runtime: delivery of an event, the queue, a canceled start, and what
  happens when handlers start, stop, create or remove resources while an event is being delivered.
\<close>

section \<open>A small runtime\<close>

text \<open>One resource with one listener, which cancels every event (0), and another which does nothing (1).\<close>

lemmas runtime_defs = initial_runtime_def listen_def on_event_def ConnectInternal_def fresh_event_def AttachToResource_def
  CreateResource_def put_entry_def Let_def

definition canceling_host :: host where
  "canceling_host = plain_host\<lparr>code := (\<lambda>i _. if i = 0 then Call Do_cancel (\<lambda>_. Return True) else Return True)\<rparr>"

definition one_resource :: runtime where
  "one_resource =
     listen (Of_resource 0 On_trigger) (External 1) 5 (listen (Of_resource 0 On_trigger) (External 0) 0
       (snd (CreateResource canceling_host [97] initial_runtime)))"

lemma canceling_host_simps [simp]:
  "code canceling_host 0 args = Call Do_cancel (\<lambda>_. Return True)" "code canceling_host (Suc n) args = Return True"
  "pack canceling_host s = 145 # s" "put_resource canceling_host x xs = x # xs"
  by (simp_all add: canceling_host_def)

lemma one_resource_simps [simp]:
  "m_resources one_resource = [([97], Some 0)]" "callbacks Manager_trigger one_resource = []"
  "callbacks (Of_resource 0 On_trigger) one_resource =
    [\<lparr>cb_function = External 0, cb_order = 0, cb_cookie = 0\<rparr>, \<lparr>cb_function = External 1, cb_order = 5, cb_cookie = 1\<rparr>]"
  "callbacks Manager_tick one_resource = [\<lparr>cb_function = Run_queue, cb_order = 0, cb_cookie = 0\<rparr>]"
  "callbacks Manager_queue one_resource = []"
  "callbacks (Of_resource 0 On_before_start) one_resource = [\<lparr>cb_function = Announce_starting 0, cb_order = - 10000, cb_cookie = 0\<rparr>]"
  "calls one_resource = []" "GetState 0 one_resource = Uninitialized" "GetName 0 one_resource = [97]"
  by (simp_all add: one_resource_def runtime_defs GetState_def GetName_def resource_of_def)

lemma one_resource_queue [simp]: "m_eventQueue one_resource = []"
  by (simp add: one_resource_def runtime_defs)

lemma one_resource_recipients [simp]: "recipients None one_resource = [0]"
  by (simp add: recipients_def map_filter_simps)

lemma canceling_asks [simp]: "only_asks (Call Do_cancel (\<lambda>_. Return True))" "only_asks (Return b)"
  by (simp_all add: only_asks.intros)

lemma one_resource_quiet [simp]: "quiet_event canceling_host args None one_resource"
  by (simp add: quiet_event_def asks_only_def)

lemma one_resource_hearers [simp]: "hearers canceling_host args None one_resource = [0, 1]"
  by (simp add: hearers_def)

lemma one_resource_canceled [simp]: "canceled canceling_host args None one_resource"
  by (simp add: canceled_def cancels_def)

section \<open>Delivery\<close>

text \<open>C6: \<open>TriggerEvent\<close> invokes the manager's listeners and then, resource by resource in the order of
  the table, the listeners of every resource the event is for, each list in its order and up to the
  first listener that returns \<open>False\<close>; it answers whether nobody canceled the event, which is then what
  \<open>WasLastEventCanceled\<close> answers; and nothing else changes but the scratch vector. This is for listeners that
  cancel and ask only, in any way that depends on the event and the answers: what listeners that trigger events or create resources
  do to a delivery is shown below.\<close>

theorem trigger_delivers:
  assumes "quiet_event h (Event_args name payload source) filt w"
  shows "runs h (Code (Call (Do_trigger name payload source filt) k) # fs, a, w)
    (Code (k (Truth (\<not> canceled h (Event_args name payload source) filt w))) # fs,
      Truth (\<not> canceled h (Event_args name payload source) filt w),
      w\<lparr>currentResources := currentResources (snapshot w),
        calls := calls w @ map (\<lambda>i. (i, Event_args name payload source)) (hearers h (Event_args name payload source) filt w),
        g_wasLastEventCanceled := canceled h (Event_args name payload source) filt w\<rparr>)"
  using trigger_call[OF assms, of k fs a] by (simp add: after_trigger_def snapshot_def)

theorem trigger_delivers_witness:
  "\<exists>w. runs canceling_host ([Code (Call (Do_trigger [101] [] [] None) (\<lambda>_. Return True))], Nothing, one_resource)
      ([Code (Return True)], Truth False, w) \<and>
    calls w = [(0, Event_args [101] [] []), (1, Event_args [101] [] [])] \<and> g_wasLastEventCanceled w"
  using trigger_delivers[of canceling_host "[101]" "[]" "[]" None one_resource "\<lambda>_. Return True" "[]" Nothing] by auto

text \<open>C8: The turn of the queue in a tick ends, when the listeners of the queued events and those that the tick invokes before the queue
  cancel and ask only: the queued events are triggered one after the other in the order in which they were queued, each exactly once, the
  queue is empty, and the tick goes on with the listeners behind, which may be any code; without such listeners the tick is over. A handler
  that queues an event again is not passive: the event is triggered in the same tick.\<close>

theorem tick_drains_queue:
  assumes "ticks_queue h w pre post" "\<forall>ev \<in> set (m_eventQueue w). quiet_data h w ev"
  shows "\<exists>w'. runs h (Code (Call Do_tick k) # fs, a, w) (Invoking Manager_tick No_args (head_cookie post) # Void # Await k # fs, Truth True, w') \<and>
    w' = fold (\<lambda>ev. after_trigger h (args_of ev) (event_filter ev)) (m_eventQueue w)
      ((after_hearing h No_args w (heard h No_args w pre) w)\<lparr>m_eventQueue := []\<rparr>) \<and>
    m_eventQueue w' = [] \<and>
    (post = [] \<longrightarrow> runs h (Code (Call Do_tick k) # fs, a, w) (Code (k Nothing) # fs, Nothing, w'))"
proof -
  have t: "runs h (Code (Call Do_tick k) # fs, a, w)
      (Invoking Manager_tick No_args (head_cookie post) # Void # Await k # fs, Truth True, after_tick h pre w)"
    by (rule tick_call[OF assms])
  moreover have "runs h (Code (Call Do_tick k) # fs, a, w) (Code (k Nothing) # fs, Nothing, after_tick h pre w)" if "post = []"
    using runs_trans[OF t] tick_ends that by blast
  ultimately show ?thesis using after_tick_empty[of h pre w] by (auto simp: after_tick_def)
qed

text \<open>A runtime with another listener (2) before the queue and one (3) behind it.\<close>

definition busy_runtime :: runtime where
  "busy_runtime = listen Manager_tick (External 3) 7 (listen Manager_tick (External 2) (- 7)
     (one_resource\<lparr>m_eventQueue := [\<lparr>eventName = [101], eventPayload = [], eventSource = [], event_filter = None\<rparr>]\<rparr>))"

definition early_listener :: "listener callback" where
  "early_listener = \<lparr>cb_function = External 2, cb_order = - 7, cb_cookie = 1\<rparr>"

definition late_listener :: "listener callback" where
  "late_listener = \<lparr>cb_function = External 3, cb_order = 7, cb_cookie = 2\<rparr>"

lemma busy_runtime_ticks: "ticks_queue canceling_host busy_runtime [early_listener] [late_listener]"
  by (simp add: ticks_queue_def passes_def early_listener_def late_listener_def busy_runtime_def one_resource_def runtime_defs numeral_2_eq_2)

lemma busy_runtime_quiet: "quiet_event canceling_host args None busy_runtime"
  using one_resource_quiet[of args]
  by (simp add: quiet_event_def asks_only_def busy_runtime_def listen_def on_event_def recipients_def)

theorem tick_drains_queue_witness:
  "\<exists>w'. runs canceling_host ([Code (Call Do_tick (\<lambda>_. Return True))], Nothing, busy_runtime)
      ([Invoking Manager_tick No_args (Some 2), Void, Await (\<lambda>_. Return True)], Truth True, w') \<and> m_eventQueue w' = []"
proof -
  have "\<forall>ev \<in> set (m_eventQueue busy_runtime). event_filter ev = None" by (simp add: busy_runtime_def listen_def on_event_def)
  then have "\<forall>ev \<in> set (m_eventQueue busy_runtime). quiet_data canceling_host busy_runtime ev"
    using busy_runtime_quiet by (simp add: quiet_data_def)
  from tick_drains_queue[OF busy_runtime_ticks this, of "\<lambda>_. Return True" "[]" Nothing] show ?thesis
    by (auto simp: head_cookie_def late_listener_def)
qed

text \<open>C30: A resource whose \<open>onResourceStarting\<close> event is canceled does not start: \<open>Start\<close> answers
  \<open>False\<close>, the resource is stopped, and besides the listeners of that event, and passive listeners of \<open>OnBeforeStart\<close> before the event
  component's, nothing runs: neither the listeners of \<open>OnBeforeStart\<close> behind it nor those of \<open>OnStart\<close>, whatever they are. The listeners of
  the event itself cancel and ask only.\<close>

theorem canceled_start_stays_stopped:
  assumes "GetState r w \<noteq> Started" "GetState r w \<noteq> Starting" "announces_start h r w pre post"
    and "quiet_event h (starting_args h r w) None w" "canceled h (starting_args h r w) None (set_state r Starting w)"
  shows "\<exists>w'. runs h (Code (Call (Do_start r) k) # fs, a, w) (Code (k (Truth False)) # fs, Truth False, w') \<and>
    w' = set_state r Stopped (after_announcing h r pre w) \<and> GetState r w' = Stopped"
  using start_call_vetoed[OF assms, of k fs a] by simp

text \<open>The resource with the listener (4) that the dependency loader connects behind the event component's.\<close>

definition dependent_resource :: runtime where
  "dependent_resource = listen (Of_resource 0 On_before_start) (External 4) 0 one_resource"

lemma dependent_resource_simps [simp]:
  "quiet_event canceling_host args None dependent_resource" "GetState 0 dependent_resource = Uninitialized"
  "hearers canceling_host args None (set_state 0 Starting dependent_resource) = [0, 1]"
proof -
  show "quiet_event canceling_host args None dependent_resource" using one_resource_quiet[of args]
    by (simp add: quiet_event_def asks_only_def dependent_resource_def listen_def on_event_def recipients_def)
  show "GetState 0 dependent_resource = Uninitialized"
    by (simp add: dependent_resource_def listen_def on_event_def GetState_def resource_of_def one_resource_def runtime_defs)
  show "hearers canceling_host args None (set_state 0 Starting dependent_resource) = [0, 1]"
    by (simp add: hearers_def recipients_def map_filter_simps dependent_resource_def listen_def on_event_def)
qed

theorem canceled_start_stays_stopped_witness:
  "\<exists>w'. runs canceling_host ([Code (Call (Do_start 0) (\<lambda>_. Return True))], Nothing, dependent_resource)
      ([Code (Return True)], Truth False, w') \<and> GetState 0 w' = Stopped"
proof -
  have "canceled canceling_host args None (set_state 0 Starting dependent_resource)" for args
    by (simp add: canceled_def cancels_def)
  moreover have "announces_start canceling_host 0 dependent_resource [] [\<lparr>cb_function = External 4, cb_order = 0, cb_cookie = 1\<rparr>]"
    by (simp add: announces_start_def dependent_resource_def one_resource_def runtime_defs)
  ultimately show ?thesis
    using canceled_start_stays_stopped[of 0 dependent_resource canceling_host "[]" _ "\<lambda>_. Return True" "[]" Nothing] by fastforce
qed

section \<open>Handlers that change what is being run\<close>

lemmas machine_defs = runtime_defs step_simps eval_nat_numeral begin_trigger_def begin_stop_def begin_start_def begin_queue_def
  trigger_named_def queue_named_def invoke_def first_node_def head_cookie_def snapshot_def GetResource_def find_resource_def
  GetState_def GetName_def resource_of_def set_state_def to_stopped_def Reset_callbacks_def AddResource_loaded_def

text \<open>The external listeners that a trace shows for an event.\<close>

fun heard_of :: "str \<Rightarrow> (nat \<times> event_args) list \<Rightarrow> nat list" where
  "heard_of name [] = []"
| "heard_of name ((i, Event_args n p s) # cs) = (if n = name then i # heard_of name cs else heard_of name cs)"
| "heard_of name ((i, No_args) # cs) = heard_of name cs"

text \<open>The listener of resource 1 (\<open>b\<close>) creates a resource \<open>c\<close> when there is none and triggers another event.\<close>

definition creating_host :: host where
  "creating_host = plain_host\<lparr>code := (\<lambda>i args.
     if i = 1 then Call (Ask_resource [99] True) (\<lambda>a. if a = Ref None then
       Call (Do_create [99]) (\<lambda>_. Call (Do_trigger [102] [] [] None) (\<lambda>_. Return True)) else Return True)
     else Return True)\<rparr>"

definition two_resources :: program where
  "two_resources = Call (Do_create [97]) (\<lambda>_. Call (Do_create [98]) (\<lambda>_.
     Call (Do_listen (Of_resource 0 On_trigger) 0 0) (\<lambda>_. Call (Do_listen (Of_resource 1 On_trigger) 1 0) (\<lambda>_.
     Call (Do_trigger [101] [] [] None) (\<lambda>_. Return True)))))"

text \<open>\<open>ForAllResources\<close> iterates over a static vector that a nested call fills again. When a handler of
  the event \<open>e\<close> adds a resource to the front of the table and triggers another event, the handler of \<open>b\<close>
  hears \<open>e\<close> twice and the resource \<open>a\<close>, which is there all the time, does not hear it at all.\<close>

theorem nested_iteration_redirects_event:
  "\<exists>w. run creating_host 60 ([Code two_resources], Nothing, initial_runtime) = Inr ([], Truth True, w) \<and>
    heard_of [101] (calls w) = [1, 1] \<and> find_resource [97] w = Some 0 \<and>
    map cb_function (callbacks (Of_resource 0 On_trigger) w) = [External 0]"
  by (simp add: creating_host_def two_resources_def machine_defs)

text \<open>The first of two listeners of resource 0 stops the resource when it hears \<open>e\<close>.\<close>

definition stopping_host :: host where
  "stopping_host = plain_host\<lparr>code := (\<lambda>i args.
     if i = 0 \<and> args = Event_args [101] [] [] then Call (Do_stop 0) (\<lambda>_. Return True) else Return True)\<rparr>"

definition started_resource :: "program \<Rightarrow> program" where
  "started_resource p = Call (Do_create [97]) (\<lambda>_. Call (Do_start 0) (\<lambda>_.
     Call (Do_listen (Of_resource 0 On_trigger) 0 0) (\<lambda>_. Call (Do_listen (Of_resource 0 On_trigger) 1 100) (\<lambda>_. p))))"

text \<open>A resource that is stopped while it hears an event loses its listeners, among them the one the
  delivery has saved as the next: the delivery then follows a pointer to freed memory.\<close>

theorem stop_during_event_uses_freed_callback:
  "run stopping_host 70 ([Code (started_resource (Call (Do_trigger [101] [] [] None) (\<lambda>_. Return True)))], Nothing, initial_runtime) =
    Inl Use_after_free"
  by (simp add: stopping_host_def started_resource_def machine_defs)

text \<open>Removing a resource does not remove what it provides: it can still be found under the name it
  provides, and started again, although it is not in the table any more.\<close>

definition providing_host :: host where
  "providing_host = plain_host\<lparr>provide_entries := (\<lambda>_. [[112]])\<rparr>"

definition remove_and_restart :: program where
  "remove_and_restart = Call (Do_create [97]) (\<lambda>_. Call (Do_provide 0) (\<lambda>_. Call (Do_remove 0) (\<lambda>_.
     Call (Ask_resource [112] True) (\<lambda>a. case a of
       Ref (Some r) \<Rightarrow> Call (Do_start r) (\<lambda>_. Return (r = 0))
     | _ \<Rightarrow> Return False))))"

theorem removed_resource_still_provided:
  "\<exists>w. run providing_host 70 ([Code remove_and_restart], Nothing, initial_runtime) = Inr ([], Truth True, w) \<and>
    m_resources w = [] \<and> GetState 0 w = Started"
  by (simp add: providing_host_def remove_and_restart_def machine_defs)

text \<open>A listener of \<open>OnStart\<close> that stops its own resource.\<close>

definition self_stopping_host :: host where
  "self_stopping_host = plain_host\<lparr>code := (\<lambda>i args.
     if i = 0 then Call (Do_stop 0) (\<lambda>a. Return (a = Truth True)) else Return True)\<rparr>"

definition stop_while_starting :: program where
  "stop_while_starting = Call (Do_create [97]) (\<lambda>_. Call (Do_listen (Of_resource 0 On_start) 0 0) (\<lambda>_.
     Call (Do_start 0) (\<lambda>_. Return True)))"

text \<open>\<open>Start\<close> does not look at the state again: a resource that one of its start listeners stops,
  successfully and with all stop listeners, ends up as started.\<close>

theorem stop_while_starting_ends_started:
  "\<exists>w. run self_stopping_host 70 ([Code stop_while_starting], Nothing, initial_runtime) = Inr ([], Truth True, w) \<and>
    GetState 0 w = Started \<and>
    eventName ` set (m_eventQueue w) = {str_of ''onServerResourceStart'', str_of ''onServerResourceStop''}"
  by (simp add: self_stopping_host_def stop_while_starting_def machine_defs)

end
