(* ===== verification/Network_Event.thy ===== *)
theory Network_Event
  imports Event_Delivery Runtime_Properties
begin

text \<open>
  From the network to the listeners: the reassembly component hands a complete event to the event
  manager (\<open>eventManager->QueueEvent\<close> in \<open>HandleReceivedPacket\<close>), whose tick triggers it.
\<close>

section \<open>The calls between the two components\<close>

text \<open>The reassembly component's calls, made on the runtime, and the tick that follows.\<close>

fun network_program :: "effect list \<Rightarrow> program" where
  "network_program [] = Call Do_tick (\<lambda>_. Return True)"
| "network_program (QueueEvent name pay source # out) =
     Call (Do_queue name pay (str_of source) None) (\<lambda>_. network_program out)"
| "network_program (_ # out) = network_program out"

lemma network_program_queued: "network_program (queued out) = network_program out"
  by (induction out rule: network_program.induct) (simp_all add: queued_def)

text \<open>The state once the event has been queued and the queue's listeners have heard it.\<close>

definition network_data :: "str \<Rightarrow> str \<Rightarrow> string \<Rightarrow> event_data" where
  "network_data name pay source = \<lparr>eventName = name, eventPayload = pay, eventSource = str_of source, event_filter = None\<rparr>"

definition after_queueing :: "host \<Rightarrow> event_data \<Rightarrow> runtime \<Rightarrow> runtime" where
  "after_queueing h ev w =
     after_hearing h (args_of ev) w (heard h (args_of ev) w (callbacks Manager_queue w)) (w\<lparr>m_eventQueue := m_eventQueue w @ [ev]\<rparr>)"

lemma queue_call:
  assumes "asks_only h (Event_args name pay (str_of source)) w Manager_queue"
  shows "runs h (Code (Call (Do_queue name pay (str_of source) None) k) # fs, a, w)
    (Code (k Nothing) # fs, Nothing, after_queueing h (network_data name pay source) w)"
proof -
  let ?args = "Event_args name pay (str_of source)" and ?ev = "network_data name pay source"
  let ?w = "w\<lparr>m_eventQueue := m_eventQueue w @ [?ev]\<rparr>"
  have args: "args_of ?ev = ?args" by (simp add: args_of_def network_data_def)
  have view: "same_view w ?w" by simp
  then have q: "asks_only h ?args ?w Manager_queue" using assms asks_only_view[OF view] by blast
  obtain b where "runs h (invoke Manager_queue ?args ?w # Void # Await k # fs, Nothing, ?w)
      (Void # Await k # fs, Truth b, after_queueing h ?ev w)"
    using run_invoke[OF q view, of "Void # Await k # fs" Nothing] by (auto simp: after_queueing_def args)
  moreover have "runs h (Code (Call (Do_queue name pay (str_of source) None) k) # fs, a, w) (invoke Manager_queue ?args ?w # Void # Await k # fs, Nothing, ?w)"
    by (rule runs_step1) (simp add: step_simps begin_queue_def Let_def network_data_def)
  moreover have "runs h (Void # Await k # fs, Truth b, v) (Code (k Nothing) # fs, Nothing, v)" for v
    by (rule runs_step, simp add: step_simps, rule runs_step1) (simp add: step_simps)
  ultimately show ?thesis using runs_trans by blast
qed

lemma queueing_view: "same_view w (after_queueing h ev w)"
  unfolding after_queueing_def by (rule same_view_trans[OF same_view_updates(4) same_view_hearing])

lemma queued_event_triggered:
  assumes "asks_only h (Event_args name pay (str_of source)) w Manager_queue" "ticks_queue h w pre post"
    and "\<forall>ev \<in> set (m_eventQueue w). quiet_data h w ev" "quiet_event h (Event_args name pay (str_of source)) None w"
  shows "runs h ([Code (network_program [QueueEvent name pay source])], a, w)
    ([Invoking Manager_tick No_args (head_cookie post), Void, Await (\<lambda>_. Return True)], Truth True,
      after_tick h pre (after_queueing h (network_data name pay source) w))"
proof -
  let ?ev = "network_data name pay source"
  let ?w = "after_queueing h ?ev w"
  have t: "ticks_queue h ?w pre post" using assms(2) ticks_queue_view[OF queueing_view] by blast
  have "quiet_data h w ?ev" using assms(4) by (simp add: quiet_data_def args_of_def network_data_def)
  moreover have "m_eventQueue ?w = m_eventQueue w @ [?ev]" by (simp add: after_queueing_def)
  moreover have "quiet_data h ?w ev = quiet_data h w ev" for ev
    using queueing_view[of w h ?ev] quiet_event_frame[of ?w w] by (simp add: quiet_data_def same_view_def)
  ultimately have q: "\<forall>ev \<in> set (m_eventQueue ?w). quiet_data h ?w ev" using assms(3) by auto
  have "runs h ([Code (network_program [QueueEvent name pay source])], a, w) ([Code (Call Do_tick (\<lambda>_. Return True))], Nothing, ?w)"
    using queue_call[OF assms(1)] by simp
  also note tick_call[OF t q]
  finally show ?thesis .
qed

text \<open>C2: An event that arrives from a client as fragments, in any order and with any repetitions, is
  triggered at the next tick exactly once, with the sender's name and payload and the source
  \<open>net:\<close> and the sender's identifier, behind the events that were queued before it: exactly the listeners that an event of this name
  triggered locally would reach hear it, in the same order, and the runtime is left as \<open>TriggerEvent\<close> leaves it. The tick then goes on with
  its other listeners, which may be any code. The listeners of these events and of the queue, and those of the tick before the queue's, cancel
  and ask only.\<close>

theorem network_event_triggered:
  assumes "m_receiveList st (source, eid) = None" "length (static_eventName st) = 65536" "\<not> L source"
    and "0 \<notin> set name" "length name < 65536" "frag_count (event_image name pay) < 2 ^ 17"
    and "\<forall>(i, now, stack) \<in> set ms. i < frag_count (event_image name pay) \<and> length stack = 1023"
    and "fst ` set ms = {..<frag_count (event_image name pay)}"
    and "asks_only h (Event_args name pay (str_of (''net:'' @ std_to_string source))) w Manager_queue" "ticks_queue h w pre post"
    and "\<forall>ev \<in> set (m_eventQueue w). quiet_data h w ev"
    and "quiet_event h (Event_args name pay (str_of (''net:'' @ std_to_string source))) None w"
    and "w1 = after_queueing h (network_data name pay (''net:'' @ std_to_string source)) w"
  shows "\<exists>st' out w'.
    for_each (\<lambda>(i, now, stack). HandlePacket L stack now source
      (fragment_bytes eid (event_image name pay) i)) ms st = Some (st', out) \<and>
    runs h ([Code (network_program out)], a, w)
      ([Invoking Manager_tick No_args (head_cookie post), Void, Await (\<lambda>_. Return True)], Truth True, w') \<and>
    w' = after_trigger h (Event_args name pay (str_of (''net:'' @ std_to_string source))) None
      (fold (\<lambda>ev. after_trigger h (args_of ev) (event_filter ev)) (m_eventQueue w)
        ((after_hearing h No_args w1 (heard h No_args w1 pre) w1)\<lparr>m_eventQueue := []\<rparr>)) \<and>
    (post = [] \<longrightarrow> runs h ([Code (network_program out)], a, w) ([], Truth True, w'))"
proof -
  let ?source = "''net:'' @ std_to_string source"
  let ?w' = "after_tick h pre w1"
  obtain st' out where r: "for_each (\<lambda>(i, now, stack). HandlePacket L stack now source
      (fragment_bytes eid (event_image name pay) i)) ms st = Some (st', out)"
    and q: "queued out = [QueueEvent name pay ?source]"
    using fragments_reassembled[where st = st and source = source and eid = eid and L = L and name = name and pay = pay and ms = ms]
      assms(1-8) by auto
  have runs: "runs h ([Code (network_program out)], a, w)
      ([Invoking Manager_tick No_args (head_cookie post), Void, Await (\<lambda>_. Return True)], Truth True, ?w')"
    using queued_event_triggered[OF assms(9-12), of a] network_program_queued[of out] by (simp add: q assms(13))
  moreover have "runs h ([Code (network_program out)], a, w) ([], Truth True, ?w')" if "post = []"
  proof -
    have "runs h ([Code (Return True)], Nothing, ?w') ([], Truth True, ?w')" by (rule runs_step1) (simp add: step_simps)
    then show ?thesis using runs_trans[OF runs] tick_ends runs_trans that by blast
  qed
  moreover have "m_eventQueue w1 = m_eventQueue w @ [network_data name pay ?source]" by (simp add: assms(13) after_queueing_def)
  then have "?w' = after_trigger h (Event_args name pay (str_of ?source)) None
      (fold (\<lambda>ev. after_trigger h (args_of ev) (event_filter ev)) (m_eventQueue w)
        ((after_hearing h No_args w1 (heard h No_args w1 pre) w1)\<lparr>m_eventQueue := []\<rparr>))"
    by (simp add: after_tick_def args_of_def network_data_def)
  ultimately show ?thesis using r by blast
qed

lemma after_trigger_canceled: "g_wasLastEventCanceled (after_trigger h args filt w) = canceled h args filt w"
  by (simp add: after_trigger_def)

text \<open>A runtime with one resource, whose listener 0 cancels every event, with other listeners of the tick and with an event in the queue.\<close>

theorem network_event_triggered_witness:
  "\<exists>st' out w. for_each (\<lambda>(i, now, stack). HandlePacket (\<lambda>_. False) stack now 7
      (fragment_bytes 3 (event_image [97, 98] (replicate 1100 5)) i))
      [(1, 10, replicate 1023 0), (1, 11, replicate 1023 9), (0, 12, replicate 1023 0)] (make_reassembly 0) = Some (st', out) \<and>
    runs canceling_host ([Code (network_program out)], Nothing, busy_runtime)
      ([Invoking Manager_tick No_args (Some 2), Void, Await (\<lambda>_. Return True)], Truth True, w) \<and> g_wasLastEventCanceled w"
proof -
  have n: "frag_count (event_image [97, 98] (replicate 1100 5)) = 2"
    by (simp add: frag_count_def length_event_image)
  let ?ms = "[(1, 10, replicate 1023 0), (1, 11, replicate 1023 9), (0, 12, replicate 1023 0)] ::
    (nat \<times> int \<times> byte list) list"
  let ?args = "Event_args [97, 98] (replicate 1100 5) (str_of (''net:'' @ std_to_string 7))"
  have ms: "fst ` set ?ms = {..<2}" by (auto simp: less_2_cases_iff)
  have quiet: "\<forall>ev \<in> set (m_eventQueue busy_runtime). quiet_data canceling_host busy_runtime ev"
    using busy_runtime_quiet by (simp add: quiet_data_def) (simp add: busy_runtime_def listen_def on_event_def)
  have queue: "asks_only canceling_host ?args busy_runtime Manager_queue"
    using one_resource_simps(5) by (simp add: asks_only_def busy_runtime_def listen_def on_event_def)
  have canceled: "canceled canceling_host args None w" if "listeners w = listeners busy_runtime" "m_resources w = m_resources busy_runtime" for args w
    using that by (simp add: canceled_def cancels_def hearers_def recipients_def map_filter_simps busy_runtime_def listen_def on_event_def)
  let ?w1 = "after_queueing canceling_host (network_data [97, 98] (replicate 1100 5) (''net:'' @ std_to_string 7)) busy_runtime"
  have "\<exists>st' out w'. for_each (\<lambda>(i, now, stack). HandlePacket (\<lambda>_. False) stack now 7
      (fragment_bytes 3 (event_image [97, 98] (replicate 1100 5)) i)) ?ms (make_reassembly 0) = Some (st', out) \<and>
    runs canceling_host ([Code (network_program out)], Nothing, busy_runtime)
      ([Invoking Manager_tick No_args (head_cookie [late_listener]), Void, Await (\<lambda>_. Return True)], Truth True, w') \<and>
    w' = after_trigger canceling_host ?args None
      (fold (\<lambda>ev. after_trigger canceling_host (args_of ev) (event_filter ev)) (m_eventQueue busy_runtime)
        ((after_hearing canceling_host No_args ?w1 (heard canceling_host No_args ?w1 [early_listener]) ?w1)\<lparr>m_eventQueue := []\<rparr>)) \<and>
    ([late_listener] = [] \<longrightarrow> runs canceling_host ([Code (network_program out)], Nothing, busy_runtime) ([], Truth True, w'))"
    by (rule network_event_triggered[OF _ _ _ _ _ _ _ _ queue busy_runtime_ticks quiet busy_runtime_quiet refl])
      (simp_all only: n ms, simp_all add: make_reassembly_def)
  then obtain st' out w' where r: "for_each (\<lambda>(i, now, stack). HandlePacket (\<lambda>_. False) stack now 7
      (fragment_bytes 3 (event_image [97, 98] (replicate 1100 5)) i)) ?ms (make_reassembly 0) = Some (st', out) \<and>
    runs canceling_host ([Code (network_program out)], Nothing, busy_runtime)
      ([Invoking Manager_tick No_args (head_cookie [late_listener]), Void, Await (\<lambda>_. Return True)], Truth True, w') \<and>
    w' = after_trigger canceling_host ?args None
      (fold (\<lambda>ev. after_trigger canceling_host (args_of ev) (event_filter ev)) (m_eventQueue busy_runtime)
        ((after_hearing canceling_host No_args ?w1 (heard canceling_host No_args ?w1 [early_listener]) ?w1)\<lparr>m_eventQueue := []\<rparr>)) \<and>
    ([late_listener] = [] \<longrightarrow> runs canceling_host ([Code (network_program out)], Nothing, busy_runtime) ([], Truth True, w'))"
    by (elim exE)
  have "g_wasLastEventCanceled w'"
    unfolding r[THEN conjunct2, THEN conjunct2, THEN conjunct1] after_trigger_canceled
    by (rule canceled) (simp_all add: busy_runtime_def listen_def on_event_def after_queueing_def)
  moreover have "head_cookie [late_listener] = Some 2" by (simp add: head_cookie_def late_listener_def)
  then have "runs canceling_host ([Code (network_program out)], Nothing, busy_runtime)
      ([Invoking Manager_tick No_args (Some 2), Void, Await (\<lambda>_. Return True)], Truth True, w')"
    using r[THEN conjunct2, THEN conjunct1] by (simp only:)
  ultimately show ?thesis using r[THEN conjunct1] by (intro exI[of _ st'] exI[of _ out] exI[of _ w'] conjI)
qed

end
