(* ===== verification/Resource_Metadata.thy ===== *)
theory Resource_Metadata
  imports Prelude Text Std_Containers
begin

text \<open>
  The metadata of a resource (components/citizen-resources-core: ResourceMetaDataComponent.h and .cpp,
  ManifestVersion.h, ManifestVersions.h, ManifestVersionsV2.h): a multimap of the entries of its
  manifest, and the comparison of the version the manifest declares. \<open>None\<close> is a read outside a string.
  The globbing of files belongs to the virtual file system.
\<close>

section \<open>The entries\<close>

text \<open>A \<open>std::multimap\<close> ordered by \<open>std::string\<close>'s order.\<close>

record metadata =
  m_metaDataEntries :: "(str \<times> str) list"

interpretation text_keys: multimap "\<lambda>k :: str. k"
  by unfold_locales (rule refl)

definition AddMetaData :: "str \<Rightarrow> str \<Rightarrow> metadata \<Rightarrow> metadata" where
  "AddMetaData k v md = md\<lparr>m_metaDataEntries := multi_insert k v (m_metaDataEntries md)\<rparr>"

text \<open>The loader (a script host, or a parser of another component) adds entries, and may report an error.\<close>

definition LoadMetaData :: "(metadata \<Rightarrow> str \<Rightarrow> str option \<times> metadata) \<Rightarrow> str \<Rightarrow> metadata \<Rightarrow> str option \<times> metadata" where
  "LoadMetaData loader path md = loader (md\<lparr>m_metaDataEntries := []\<rparr>) path"

definition GetEntries :: "str \<Rightarrow> metadata \<Rightarrow> str list" where
  "GetEntries k md = range_of (\<lambda>k. k) k (m_metaDataEntries md)"

text \<open>\<open>newMap[it->first].push_back(it->second)\<close> for all entries.\<close>

fun collect_entries :: "(str \<times> str) list \<Rightarrow> (str, str list) omap \<Rightarrow> (str, str list) omap" where
  "collect_entries [] newMap = newMap"
| "collect_entries ((k, v) # es) newMap =
     collect_entries es (omap_put k ((case map_of newMap k of None \<Rightarrow> [] | Some vs \<Rightarrow> vs) @ [v]) newMap)"

definition GetAllEntries :: "metadata \<Rightarrow> (str, str list) omap" where
  "GetAllEntries md = collect_entries (m_metaDataEntries md) []"

section \<open>GUIDs\<close>

record guid =
  data1 :: u32
  data2 :: u16
  data3 :: u16
  data4 :: "byte list"

definition null_guid :: guid where
  "null_guid = \<lparr>data1 = 0, data2 = 0, data3 = 0, data4 = replicate 8 0\<rparr>"

definition IsValidHex :: "byte \<Rightarrow> bool" where
  "IsValidHex c \<longleftrightarrow> 48 \<le> c \<and> c \<le> 57 \<or> 97 \<le> c \<and> c \<le> 102 \<or> 65 \<le> c \<and> c \<le> 70"

definition guid_conv_table :: "byte \<Rightarrow> byte" where
  "guid_conv_table c =
     (if 48 \<le> c \<and> c \<le> 57 then c - 48 else if 65 \<le> c \<and> c \<le> 70 then c - 55
      else if 97 \<le> c \<and> c \<le> 102 then c - 87 else 0)"

text \<open>Reading a view of a terminated string: the terminator is still inside the memory, nothing behind it is.\<close>

definition view_at :: "str \<Rightarrow> nat \<Rightarrow> byte option" where
  "view_at s i = (if i < length s then Some (s ! i) else if i = length s then Some 0 else None)"

text \<open>The digits from \<open>i\<close> on; the inner \<open>None\<close> is a character that does not belong there.\<close>

fun hex_field :: "str \<Rightarrow> nat \<Rightarrow> nat \<Rightarrow> 'a::len word \<Rightarrow> 'a word option option" where
  "hex_field s i 0 acc = Some (Some acc)"
| "hex_field s i (Suc n) acc = do {
     c \<leftarrow> view_at s i;
     if \<not> IsValidHex c then Some None
     else hex_field s (i + 1) n (push_bit 4 acc OR ucast (guid_conv_table c)) }"

definition dash :: "str \<Rightarrow> nat \<Rightarrow> bool option" where
  "dash s i = do { c \<leftarrow> view_at s i; Some (c = 45) }"

function hex_bytes :: "str \<Rightarrow> nat \<Rightarrow> byte list \<Rightarrow> byte list option option" where
  "hex_bytes s i bs =
     (if i < 36 then do {
        ok \<leftarrow> (if i = 23 then dash s i else Some True);
        if \<not> ok then Some None
        else let i = (if i = 23 then i + 1 else i) in do {
          a \<leftarrow> view_at s i;
          if \<not> IsValidHex a then Some None
          else do {
            b \<leftarrow> view_at s (i + 1);
            if \<not> IsValidHex b then Some None
            else hex_bytes s (i + 2) (bs[(i - 19) div 2 := push_bit 4 (guid_conv_table a) OR guid_conv_table b]) } } }
      else Some (Some bs))"
  by auto

termination by (relation "measure (\<lambda>(s, i, bs). 36 - i)") auto

declare hex_bytes.simps [simp del]

text \<open>The fields in turn; the first character that does not belong there ends the parse with the null GUID.\<close>

definition field_then :: "'a option option \<Rightarrow> ('a \<Rightarrow> guid option) \<Rightarrow> guid option" where
  "field_then x k = do { y \<leftarrow> x; case y of None \<Rightarrow> Some null_guid | Some v \<Rightarrow> k v }"

definition dash_then :: "bool option \<Rightarrow> guid option \<Rightarrow> guid option" where
  "dash_then x k = do { ok \<leftarrow> x; if ok then k else Some null_guid }"

definition ParseGuid :: "str \<Rightarrow> guid option" where
  "ParseGuid s =
     field_then (hex_field s 0 8 0) (\<lambda>d1. dash_then (dash s 8)
       (field_then (hex_field s 9 4 0) (\<lambda>d2. dash_then (dash s 13)
         (field_then (hex_field s 14 4 0) (\<lambda>d3. dash_then (dash s 18)
           (field_then (hex_bytes s 19 (replicate 8 0)) (\<lambda>d4.
             Some \<lparr>data1 = d1, data2 = d2, data3 = d3, data4 = d4\<rparr>)))))))"

section \<open>Versions\<close>

definition FindManifestVersionIndex :: "'a list \<Rightarrow> 'a \<Rightarrow> u64" where
  "FindManifestVersionIndex versions x =
     (let n = length (takeWhile (\<lambda>y. y \<noteq> x) versions) in if n = length versions then - 1 else word_of_nat n)"

definition g_manifestVersionOrder :: "guid option list" where
  "g_manifestVersionOrder = Some null_guid # map (ParseGuid \<circ> str_of)
     [''77731fab-63ca-442c-a67b-abc70f28dfa5'', ''f15e72ec-3972-4fe4-9c7d-afc5394ae207'',
      ''44febabe-d386-4d18-afbe-5e627f4af937'', ''05cfa83c-a124-4cfa-a768-c24a5811d8f9'']"

definition g_manifestVersionOrderV2 :: "str list" where
  "g_manifestVersionOrderV2 = map str_of ['''', ''adamant'', ''bodacious'', ''cerulean'']"

text \<open>The two overloads have the same text; an index that was not found is the largest number.\<close>

definition version_between :: "'a list \<Rightarrow> 'a \<Rightarrow> 'a \<Rightarrow> 'a \<Rightarrow> 'a \<Rightarrow> bool option" where
  "version_between versions nullVersion manifestVersion lowerBound upperBound =
     (let resourceVersion = FindManifestVersionIndex versions manifestVersion in
      if resourceVersion = - 1 then None
      else
        let matches = True;
            matches = (if lowerBound \<noteq> nullVersion \<and> resourceVersion < FindManifestVersionIndex versions lowerBound then False else matches);
            matches = (if matches \<and> upperBound \<noteq> nullVersion \<and> FindManifestVersionIndex versions upperBound \<le> resourceVersion then False else matches)
        in Some matches)"

definition IsManifestVersionBetween_guid :: "guid \<Rightarrow> guid \<Rightarrow> metadata \<Rightarrow> bool option option" where
  "IsManifestVersionBetween_guid lowerBound upperBound md =
     (let manifestVersion = (case GetEntries (str_of ''resource_manifest_version'') md of [] \<Rightarrow> Some null_guid | v # _ \<Rightarrow> ParseGuid v)
      in case manifestVersion of None \<Rightarrow> None
      | Some v \<Rightarrow> Some (version_between g_manifestVersionOrder (Some null_guid) (Some v) (Some lowerBound) (Some upperBound)))"

definition IsManifestVersionBetween :: "str \<Rightarrow> str \<Rightarrow> metadata \<Rightarrow> bool option" where
  "IsManifestVersionBetween lowerBound upperBound md =
     (let manifestVersion = (case GetEntries (str_of ''fx_version'') md of [] \<Rightarrow> [] | v # _ \<Rightarrow> v)
      in version_between g_manifestVersionOrderV2 [] manifestVersion lowerBound upperBound)"

end
