(* ===== verification/Resource_Constraints.thy ===== *)
theory Resource_Constraints
  imports Prelude Text
begin

text \<open>
  The constraints a resource can put on the server it runs on
  (components/citizen-resources-core/src/ResourceManagerConstraintsComponent.cpp): a dependency that starts with a
  slash, like \<open>/server:4500\<close>, is not a resource but is matched against a table of constraints.
\<close>

section \<open>The table\<close>

text \<open>A callback is a number; \<open>poll\<close> below is the code behind it.\<close>

datatype constraint = Int_constraint int | Bool_constraint bool | String_constraint str | Callback_constraint nat

record constraints =
  m_constraints :: "str \<Rightarrow> constraint option"
  m_enforcingConstraints :: bool

definition new_constraints :: constraints where
  "new_constraints = \<lparr>m_constraints = (\<lambda>_. None), m_enforcingConstraints = False\<rparr>"

definition SetEnforcingConstraints :: "bool \<Rightarrow> constraints \<Rightarrow> constraints" where
  "SetEnforcingConstraints enabled cs = cs\<lparr>m_enforcingConstraints := enabled\<rparr>"

text \<open>The four overloads differ in the alternative of the variant only.\<close>

definition RegisterConstraint :: "str \<Rightarrow> constraint \<Rightarrow> constraints \<Rightarrow> constraints" where
  "RegisterConstraint k v cs = cs\<lparr>m_constraints := (m_constraints cs)(k \<mapsto> v)\<rparr>"

section \<open>Expressions\<close>

text \<open>The class \<open>[a-z/0-9_-]\<close>, case-insensitive.\<close>

definition constraint_char :: "byte \<Rightarrow> bool" where
  "constraint_char c \<longleftrightarrow> 97 \<le> c \<and> c \<le> 122 \<or> 65 \<le> c \<and> c \<le> 90 \<or> 48 \<le> c \<and> c \<le> 57 \<or> c = 47 \<or> c = 95 \<or> c = 45"

text \<open>
  \<open>regex_match\<close> with \<open>^/(class+)(?::(class+))?$\<close>: the two groups. A group that took no part in
  the match is the empty string. The class has no colon, so the match is unique.
\<close>

definition constraint_match :: "str \<Rightarrow> (str \<times> str) option" where
  "constraint_match s =
     (case s of
        [] \<Rightarrow> None
      | slash # rest \<Rightarrow>
          let name = takeWhile constraint_char rest; rest = dropWhile constraint_char rest in
          if slash \<noteq> 47 \<or> name = [] then None
          else case rest of
            [] \<Rightarrow> Some (name, [])
          | colon # v \<Rightarrow> if colon = 58 \<and> v \<noteq> [] \<and> list_all constraint_char v then Some (name, v) else None)"

text \<open>\<open>atoi\<close> on such a value: an optional sign and digits. Numbers that do not fit an \<open>int\<close> are not considered.\<close>

definition digit :: "byte \<Rightarrow> bool" where
  "digit c \<longleftrightarrow> 48 \<le> c \<and> c \<le> 57"

fun digits_value :: "int \<Rightarrow> str \<Rightarrow> int" where
  "digits_value acc [] = acc"
| "digits_value acc (c # s) = (if digit c then digits_value (10 * acc + (int (unat c) - 48)) s else acc)"

definition atoi :: "str \<Rightarrow> int" where
  "atoi s = (case s of [] \<Rightarrow> 0 | c # r \<Rightarrow> if c = 45 then - digits_value 0 r else digits_value 0 s)"

section \<open>Matching\<close>

datatype ConstraintMatchResult = Pass | Fail | NoConstraint

text \<open>The error messages, by what they are made from.\<close>

datatype constraint_error =
    Syntax_error | Unknown_constraint str | Not_enabled str | Callback_failed str str str
  | Needs_at_least str int | Needs_disabled str | Needs_enabled str | Not_a_boolean str | Needs_value str str

definition no_details :: str where
  "no_details = str_of ''no details specified''"

text \<open>
  \<open>poll i v\<close> is the answer of callback \<open>i\<close> and the message it leaves, if it leaves one. The result is
  the verdict and the error written, if any.
\<close>

definition MatchConstraint ::
    "(nat \<Rightarrow> str \<Rightarrow> bool \<times> str option) \<Rightarrow> constraints \<Rightarrow> str \<Rightarrow> ConstraintMatchResult \<times> constraint_error option" where
  "MatchConstraint poll cs constraintExpression =
     (let fail = (\<lambda>message. (if m_enforcingConstraints cs then Fail else Pass, Some message)) in
      if constraintExpression = [] \<or> hd constraintExpression \<noteq> 47 then (NoConstraint, None)
      else case constraint_match constraintExpression of
        None \<Rightarrow> fail Syntax_error
      | Some (name, constraintValue) \<Rightarrow>
          (case m_constraints cs name of
             None \<Rightarrow> fail (Unknown_constraint name)
           | Some c \<Rightarrow>
               if constraintValue = [] then
                 (case c of
                    Bool_constraint b \<Rightarrow> if \<not> b then fail (Not_enabled name) else (Pass, None)
                  | Callback_constraint i \<Rightarrow>
                      let (ok, message) = poll i constraintValue in
                      if \<not> ok then fail (Callback_failed name [] (case message of None \<Rightarrow> no_details | Some m \<Rightarrow> m)) else (Pass, None)
                  | _ \<Rightarrow> (Pass, None))
               else
                 (case c of
                    Int_constraint n \<Rightarrow> if n < atoi constraintValue then fail (Needs_at_least name (atoi constraintValue)) else (Pass, None)
                  | Bool_constraint b \<Rightarrow>
                      if b \<and> constraintValue = str_of ''false'' then fail (Needs_disabled name)
                      else if \<not> b \<and> constraintValue = str_of ''true'' then fail (Needs_enabled name)
                      else if constraintValue \<noteq> str_of ''true'' \<and> constraintValue \<noteq> str_of ''false'' then fail (Not_a_boolean constraintValue)
                      else (Pass, None)
                  | String_constraint v \<Rightarrow> if v \<noteq> constraintValue then fail (Needs_value name constraintValue) else (Pass, None)
                  | Callback_constraint i \<Rightarrow>
                      let (ok, message) = poll i constraintValue in
                      if \<not> ok then fail (Callback_failed name constraintValue (case message of None \<Rightarrow> no_details | Some m \<Rightarrow> m))
                      else (Pass, None))))"

end
