(* ===== verification/Metadata_Properties.thy ===== *)
theory Metadata_Properties
  imports Resource_Metadata Resource_Constraints
begin

text \<open>
  What a manifest's entries mean: they keep the order they were added in, a version is compared by
  its place in the list of versions, a GUID is parsed without leaving its string and printed ones are read back,
  and a constraint is matched exactly when the server satisfies it.
\<close>

section \<open>Entries\<close>

text \<open>The metadata a loader has built by adding entries.\<close>

definition metadata_of :: "(str \<times> str) list \<Rightarrow> metadata" where
  "metadata_of es = fold (\<lambda>(k, v). AddMetaData k v) es \<lparr>m_metaDataEntries = []\<rparr>"

lemma m_metaDataEntries_fold:
  "m_metaDataEntries (fold (\<lambda>(k, v). AddMetaData k v) es md) = fold (\<lambda>(k, v). multi_insert k v) es (m_metaDataEntries md)"
  by (induction es arbitrary: md) (auto simp: AddMetaData_def)

lemma metadata_of_entries:
  "text_keys.ordered (m_metaDataEntries (metadata_of es))" "GetEntries k (metadata_of es) = range_of (\<lambda>k. k) k es"
  using text_keys.range_insert_all[where m = "[]" and es = es and i = k]
  by (simp_all add: metadata_of_def GetEntries_def m_metaDataEntries_fold)

lemma collect_entries_ok:
  "omap_ok acc \<Longrightarrow> omap_ok (collect_entries es acc) \<and>
    map_of (collect_entries es acc) k =
      (case map_of acc k of
         None \<Rightarrow> if range_of (\<lambda>k. k) k es = [] then None else Some (range_of (\<lambda>k. k) k es)
       | Some vs \<Rightarrow> Some (vs @ range_of (\<lambda>k. k) k es))"
proof (induction es acc rule: collect_entries.induct)
  case (2 k' v es newMap)
  let ?put = "omap_put k' ((case map_of newMap k' of None \<Rightarrow> [] | Some vs \<Rightarrow> vs) @ [v]) newMap"
  have "omap_ok ?put" using omap.valid_store[OF 2(2)] by blast
  then show ?case
    using 2(1) omap.lookup_store[OF 2(2), of k' "(case map_of newMap k' of None \<Rightarrow> [] | Some vs \<Rightarrow> vs) @ [v]" k]
    by (auto split: option.split)
qed (simp split: option.split)

text \<open>The entries under a key are those that were added under it, in the order of the manifest, and
  \<open>GetAllEntries\<close> is the same table, with one item per key, in the order of the keys.\<close>

theorem entries_keep_order:
  "GetEntries k (metadata_of es) = map snd (filter (\<lambda>(k', _). k' = k) es) \<and>
   omap_ok (GetAllEntries (metadata_of es)) \<and>
   map_of (GetAllEntries (metadata_of es)) k =
     (if GetEntries k (metadata_of es) = [] then None else Some (GetEntries k (metadata_of es)))"
proof -
  have g: "GetEntries k (metadata_of es) = map snd (filter (\<lambda>(k', _). k' = k) es)"
    using metadata_of_entries(2)[of k es] by (simp add: range_of_def)
  have "omap_ok ([] :: (str \<times> str list) list)" by (rule omap.blank)
  from collect_entries_ok[OF this, of "m_metaDataEntries (metadata_of es)" k] g
  show ?thesis unfolding GetAllEntries_def GetEntries_def by (simp only: map_of.simps option.case simp_thms)
qed

section \<open>GUIDs\<close>

lemma valid_hex_nonzero: "\<not> IsValidHex 0"
  by (simp add: IsValidHex_def)

lemma view_at_inside: "i \<le> length s \<Longrightarrow> \<exists>c. view_at s i = Some c \<and> (c \<noteq> 0 \<longrightarrow> i < length s)"
  by (auto simp: view_at_def)

lemma hex_field_inside: "i \<le> length s \<Longrightarrow> \<exists>r. hex_field s i n acc = Some r \<and> (r \<noteq> None \<longrightarrow> i + n \<le> length s)"
proof (induction n arbitrary: i acc)
  case (Suc n)
  obtain c where c: "view_at s i = Some c" "c \<noteq> 0 \<longrightarrow> i < length s" using view_at_inside[OF Suc.prems] by blast
  show ?case
  proof (cases "IsValidHex c")
    case True
    then have "i + 1 \<le> length s" using c(2) valid_hex_nonzero by (metis Suc_eq_plus1 Suc_leI)
    then show ?thesis using Suc.IH[of "i + 1"] c(1) True by auto
  qed (simp add: c(1))
qed simp

lemma dash_inside: "i \<le> length s \<Longrightarrow> \<exists>b. dash s i = Some b \<and> (b \<longrightarrow> i + 1 \<le> length s)"
  using view_at_inside[of i s] by (auto simp: dash_def)

lemma hex_bytes_inside: "i \<le> length s \<Longrightarrow> length bs = 8 \<Longrightarrow> \<exists>r. hex_bytes s i bs = Some r \<and> (\<forall>bs'. r = Some bs' \<longrightarrow> length bs' = 8)"
proof (induction s i bs rule: hex_bytes.induct)
  case (1 s i bs)
  show ?case
  proof (cases "i < 36")
    case True
    let ?j = "if i = 23 then i + 1 else i"
    obtain ok where ok: "(if i = 23 then dash s i else Some True) = Some ok" "ok \<longrightarrow> ?j \<le> length s"
      using dash_inside[OF 1(2)] 1(2) by (cases "i = 23") auto
    show ?thesis
    proof (cases ok)
      case ok': True
      obtain a where a: "view_at s ?j = Some a" "a \<noteq> 0 \<longrightarrow> ?j < length s" using view_at_inside[of ?j s] ok(2) ok' by blast
      show ?thesis
      proof (cases "IsValidHex a")
        case a': True
        then have "?j + 1 \<le> length s" using a(2) valid_hex_nonzero by (metis Suc_eq_plus1 Suc_leI)
        then obtain b where b: "view_at s (?j + 1) = Some b" "b \<noteq> 0 \<longrightarrow> ?j + 1 < length s" using view_at_inside by blast
        show ?thesis
        proof (cases "IsValidHex b")
          case b': True
          then have l: "?j + 2 \<le> length s" using b(2) valid_hex_nonzero by (metis Suc_leI add_2_eq_Suc' add_Suc_right nat_arith.rule0 One_nat_def)
          let ?bs = "bs[(?j - 19) div 2 := push_bit 4 (guid_conv_table a) OR guid_conv_table b]"
          have "hex_bytes s i bs = hex_bytes s (?j + 2) ?bs"
            using True ok(1) ok' a(1) a' b(1) b' by (subst hex_bytes.simps) (simp add: Let_def)
          then show ?thesis using 1(1)[OF True ok(1) _ refl a(1) _ b(1) _ l] 1(3) ok' a' b' by simp
        qed (use True ok a a' b ok' in \<open>subst hex_bytes.simps, simp add: Let_def\<close>)
      qed (use True ok a ok' in \<open>subst hex_bytes.simps, simp add: Let_def\<close>)
    qed (use True ok in \<open>subst hex_bytes.simps, simp\<close>)
  qed (use 1 in \<open>subst hex_bytes.simps, simp\<close>)
qed

lemma hex_bytes_step:
  assumes "i < 36" "i = 23 \<longrightarrow> view_at s 23 = Some 45" "j = (if i = 23 then i + 1 else i)"
    "view_at s j = Some a" "IsValidHex a" "view_at s (j + 1) = Some b" "IsValidHex b"
  shows "hex_bytes s i bs = hex_bytes s (j + 2) (bs[(j - 19) div 2 := push_bit 4 (guid_conv_table a) OR guid_conv_table b])"
  using assms by (subst hex_bytes.simps) (auto simp: dash_def Let_def)

text \<open>Every field is found inside the string, or the parse ends with the null GUID.\<close>

definition parses :: "guid option \<Rightarrow> bool" where
  "parses x \<longleftrightarrow> (\<exists>g. x = Some g \<and> length (data4 g) = 8)"

lemma parses_field: "i \<le> length s \<Longrightarrow> (\<And>v. i + n \<le> length s \<Longrightarrow> parses (k v)) \<Longrightarrow> parses (field_then (hex_field s i n acc) k)"
  using hex_field_inside[of i s n acc] by (auto simp: parses_def field_then_def null_guid_def split: option.split)

lemma parses_dash: "i \<le> length s \<Longrightarrow> (i + 1 \<le> length s \<Longrightarrow> parses k) \<Longrightarrow> parses (dash_then (dash s i) k)"
  using dash_inside[of i s] by (auto simp: parses_def dash_then_def null_guid_def)

lemma parses_bytes: "i \<le> length s \<Longrightarrow> parses (field_then (hex_bytes s i (replicate 8 0)) (\<lambda>d4. Some \<lparr>data1 = a, data2 = b, data3 = c, data4 = d4\<rparr>))"
  using hex_bytes_inside[of i s "replicate 8 0"] by (auto simp: parses_def field_then_def null_guid_def split: option.split)

lemma ParseGuid_total: "parses (ParseGuid s)"
  unfolding ParseGuid_def by (intro parses_field parses_dash parses_bytes) simp_all

text \<open>The usual text of a GUID.\<close>

definition hex_char :: "byte \<Rightarrow> byte" where
  "hex_char d = (if d < 10 then d + 48 else d + 87)"

definition hex_text :: "nat \<Rightarrow> 'a::len word \<Rightarrow> str" where
  "hex_text n w = map (\<lambda>i. hex_char (take_bit 4 (ucast (drop_bit (4 * (n - 1 - i)) w)))) [0..<n]"

definition guid_text :: "guid \<Rightarrow> str" where
  "guid_text g = hex_text 8 (data1 g) @ [45] @ hex_text 4 (data2 g) @ [45] @ hex_text 4 (data3 g) @ [45] @
     concat (map (hex_text 2) (take 2 (data4 g))) @ [45] @ concat (map (hex_text 2) (drop 2 (data4 g)))"

lemma hex_char_digit:
  assumes "d < 16"
  shows "IsValidHex (hex_char d)" "guid_conv_table (hex_char d) = d"
proof -
  have d: "unat d < 16" using assms by (simp add: word_less_nat_alt)
  have u: "unat (d + 48) = unat d + 48" "unat (d + 87) = unat d + 87" using d by (simp_all add: unat_plus_if_size word_size)
  show "IsValidHex (hex_char d)" using d u by (auto simp: IsValidHex_def hex_char_def word_le_nat_alt word_less_nat_alt)
  show "guid_conv_table (hex_char d) = d"
    using d u by (auto simp: guid_conv_table_def hex_char_def word_le_nat_alt word_less_nat_alt)
qed

lemma nibble_less: "take_bit 4 (w :: byte) < 16"
proof -
  have "unat (take_bit 4 w) < 2 ^ 4" unfolding unsigned_take_bit_eq by (rule take_bit_nat_less_exp)
  then show ?thesis by (simp add: word_less_nat_alt)
qed

lemmas hex_nibble = hex_char_digit[OF nibble_less]

lemma length_hex_text [simp]: "length (hex_text n w) = n"
  by (simp add: hex_text_def)

lemma nth_hex_text: "i < n \<Longrightarrow> hex_text n w ! i = hex_char (take_bit 4 (ucast (drop_bit (4 * (n - 1 - i)) w)))"
  by (simp add: hex_text_def)

lemma view_at_text: "i < length t \<Longrightarrow> view_at (pre @ t @ post) (length pre + i) = Some (t ! i)"
  by (simp add: view_at_def nth_append)

lemma nibble_step:
  fixes w acc :: "'a::len word"
  shows "push_bit (4 * k) (push_bit 4 acc OR ucast (take_bit 4 (ucast (drop_bit (4 * k) w)) :: byte)) OR take_bit (4 * k) w =
    push_bit (4 * Suc k) acc OR take_bit (4 * Suc k) w"
proof (rule bit_word_eqI)
  fix i assume i: "i < LENGTH('a)"
  have "4 * Suc k = 4 * k + 4" by simp
  then show "bit (push_bit (4 * k) (push_bit 4 acc OR ucast (take_bit 4 (ucast (drop_bit (4 * k) w)) :: byte)) OR take_bit (4 * k) w) i =
      bit (push_bit (4 * Suc k) acc OR take_bit (4 * Suc k) w) i"
    using i by (cases "i < 4 * k"; cases "i < 4 * k + 4") (auto simp: bit_simps simp del: mult_Suc_right)
qed

text \<open>Reading the digits of a word puts the word together again, behind what was there.\<close>

lemma hex_field_text:
  assumes "\<And>i. i < n \<Longrightarrow> view_at s (at + i) = Some (hex_text n w ! i)"
  shows "hex_field s at n acc = Some (Some (push_bit (4 * n) acc OR take_bit (4 * n) w))"
proof -
  have "hex_field s (at + (n - k)) k acc = Some (Some (push_bit (4 * k) acc OR take_bit (4 * k) w))" if "k \<le> n" for k acc
    using that
  proof (induction k arbitrary: acc)
    case (Suc k)
    let ?d = "take_bit 4 (ucast (drop_bit (4 * k) w)) :: byte"
    have v: "view_at s (at + (n - Suc k)) = Some (hex_char ?d)"
      using assms[of "n - Suc k"] Suc.prems by (simp add: nth_hex_text)
    have at: "at + (n - Suc k) + 1 = at + (n - k)" using Suc.prems by simp
    have "push_bit (4 * k) (push_bit 4 acc OR ucast ?d) OR take_bit (4 * k) w = push_bit (4 * Suc k) acc OR take_bit (4 * Suc k) w"
      by (rule nibble_step)
    then show ?case using Suc v at by (simp add: hex_nibble del: mult_Suc_right)
  qed simp
  from this[of n] show ?thesis by simp
qed

definition high :: "byte \<Rightarrow> byte" where
  "high b = hex_char (take_bit 4 (drop_bit 4 b))"

definition low :: "byte \<Rightarrow> byte" where
  "low b = hex_char (take_bit 4 b)"

lemma byte_text: "hex_text 2 b = [high b, low b]" for b :: byte
  by (simp add: hex_text_def high_def low_def numeral_2_eq_2)

lemma byte_digits: "IsValidHex (high b)" "IsValidHex (low b)" "push_bit 4 (guid_conv_table (high b)) OR guid_conv_table (low b) = b"
proof -
  have "push_bit 4 (take_bit 4 (drop_bit 4 b)) OR take_bit 4 b = b" by (rule bit_word_eqI) (auto simp: bit_simps)
  then show "IsValidHex (high b)" "IsValidHex (low b)" "push_bit 4 (guid_conv_table (high b)) OR guid_conv_table (low b) = b"
    unfolding high_def low_def by (simp_all only: hex_nibble)
qed

lemma list_of_8: "length xs = 8 \<Longrightarrow> \<exists>a b c d e f g h. xs = [a, b, c, d, e, f, g, h]"
  by (auto simp: eval_nat_numeral length_Suc_conv)

lemma hex_bytes_next:
  assumes "i < 36" "i = 23 \<longrightarrow> view_at s 23 = Some 45" "j = (if i = 23 then i + 1 else i)"
    "view_at s j = Some (high b)" "view_at s (j + 1) = Some (low b)" "(j - 19) div 2 = length pre"
  shows "hex_bytes s i (pre @ x # post) = hex_bytes s (j + 2) (pre @ b # post)"
  using hex_bytes_step[OF assms(1-4) byte_digits(1) assms(5) byte_digits(2), where bs = "pre @ x # post"]
  by (simp only: assms(6) byte_digits list_update_length)

lemma hex_bytes_text:
  assumes "\<And>i. i < 17 \<Longrightarrow> view_at s (19 + i) =
    Some ([high a, low a, high b, low b, 45, high c, low c, high d, low d, high e, low e, high f, low f, high g, low g, high h, low h] ! i)"
  shows "hex_bytes s 19 (replicate 8 0) = Some (Some [a, b, c, d, e, f, g, h])"
proof -
  note v = assms[of 0] assms[of 1] assms[of 2] assms[of 3] assms[of 4] assms[of 5] assms[of 6] assms[of 7] assms[of 8] assms[of 9]
    assms[of 10] assms[of 11] assms[of 12] assms[of 13] assms[of 14] assms[of 15] assms[of 16]
  have "hex_bytes s 19 (replicate 8 0) = hex_bytes s 19 ([] @ 0 # [0, 0, 0, 0, 0, 0, 0])" by (simp add: eval_nat_numeral)
  also have "\<dots> = hex_bytes s 21 ([a] @ 0 # [0, 0, 0, 0, 0, 0])"
    using hex_bytes_next[of 19 s 19 a "[]" 0] v(1,2) by simp
  also have "\<dots> = hex_bytes s 23 ([a, b] @ 0 # [0, 0, 0, 0, 0])"
    using hex_bytes_next[of 21 s 21 b "[a]" 0] v(3,4) by simp
  also have "\<dots> = hex_bytes s 26 ([a, b, c] @ 0 # [0, 0, 0, 0])"
    using hex_bytes_next[of 23 s 24 c "[a, b]" 0] v(5-7) by simp
  also have "\<dots> = hex_bytes s 28 ([a, b, c, d] @ 0 # [0, 0, 0])"
    using hex_bytes_next[of 26 s 26 d "[a, b, c]" 0] v(8,9) by simp
  also have "\<dots> = hex_bytes s 30 ([a, b, c, d, e] @ 0 # [0, 0])"
    using hex_bytes_next[of 28 s 28 e "[a, b, c, d]" 0] v(10,11) by simp
  also have "\<dots> = hex_bytes s 32 ([a, b, c, d, e, f] @ 0 # [0])"
    using hex_bytes_next[of 30 s 30 f "[a, b, c, d, e]" 0] v(12,13) by simp
  also have "\<dots> = hex_bytes s 34 ([a, b, c, d, e, f, g] @ 0 # [])"
    using hex_bytes_next[of 32 s 32 g "[a, b, c, d, e, f]" 0] v(14,15) by simp
  also have "\<dots> = hex_bytes s 36 ([a, b, c, d, e, f, g] @ h # [])"
    using hex_bytes_next[of 34 s 34 h "[a, b, c, d, e, f, g]" 0] v(16,17) by simp
  finally show ?thesis by (simp add: hex_bytes.simps)
qed

lemma take_bit_full: "take_bit 32 d = d" "take_bit 16 e = e" for d :: u32 and e :: u16
  using take_bit_length_eq[of d] take_bit_length_eq[of e] by simp_all

lemma guid_text_bytes:
  "guid_text \<lparr>data1 = d1, data2 = d2, data3 = d3, data4 = [a, b, c, d, e, f, g, h]\<rparr> =
    hex_text 8 d1 @ [45] @ hex_text 4 d2 @ [45] @ hex_text 4 d3 @ [45] @
    [high a, low a, high b, low b, 45, high c, low c, high d, low d, high e, low e, high f, low f, high g, low g, high h, low h]"
  by (simp add: guid_text_def byte_text)

text \<open>No text makes \<open>ParseGuid\<close> read behind the terminator of its string, and the text of a GUID is read back,
  whatever follows it.\<close>

theorem guid_text_parses:
  "(\<exists>g. ParseGuid s = Some g \<and> length (data4 g) = 8) \<and>
   (\<forall>g rest. length (data4 g) = 8 \<longrightarrow> ParseGuid (guid_text g @ rest) = Some g)"
proof (intro conjI allI impI)
  show "\<exists>g. ParseGuid s = Some g \<and> length (data4 g) = 8" using ParseGuid_total by (simp add: parses_def)
next
  fix g :: guid and rest
  assume "length (data4 g) = 8"
  then obtain b0 b1 b2 b3 b4 b5 b6 b7 where g: "data4 g = [b0, b1, b2, b3, b4, b5, b6, b7]" using list_of_8 by blast
  let ?bytes = "[high b0, low b0, high b1, low b1, 45, high b2, low b2, high b3, low b3, high b4, low b4, high b5, low b5,
    high b6, low b6, high b7, low b7]"
  let ?p1 = "hex_text 8 (data1 g) @ [45]"
  let ?p2 = "?p1 @ hex_text 4 (data2 g) @ [45]"
  let ?p3 = "?p2 @ hex_text 4 (data3 g) @ [45]"
  let ?s = "guid_text g @ rest"
  have s: "?s = ?p3 @ ?bytes @ rest"
    using guid_text_bytes[of "data1 g" "data2 g" "data3 g" b0 b1 b2 b3 b4 b5 b6 b7] g by (cases g) simp
  have f1: "hex_field ?s 0 8 0 = Some (Some (data1 g))"
    using hex_field_text[of 8 ?s 0 "data1 g" 0] view_at_text[of _ "hex_text 8 (data1 g)" "[]" "[45] @ drop 9 ?s"]
    by (simp add: s take_bit_full)
  have f2: "hex_field ?s 9 4 0 = Some (Some (data2 g))"
    using hex_field_text[of 4 ?s 9 "data2 g" 0] view_at_text[of _ "hex_text 4 (data2 g)" ?p1 "[45] @ drop 14 ?s"]
    by (simp add: s take_bit_full)
  have f3: "hex_field ?s 14 4 0 = Some (Some (data3 g))"
    using hex_field_text[of 4 ?s 14 "data3 g" 0] view_at_text[of _ "hex_text 4 (data3 g)" ?p2 "[45] @ ?bytes @ rest"]
    by (simp add: s take_bit_full)
  have d: "dash ?s 8 = Some True" "dash ?s 13 = Some True" "dash ?s 18 = Some True"
    by (simp_all add: dash_def view_at_def s nth_append)
  have f4: "hex_bytes ?s 19 (replicate 8 0) = Some (Some (data4 g))"
    unfolding g by (rule hex_bytes_text) (use view_at_text[of _ ?bytes ?p3 rest] in \<open>simp add: s\<close>)
  show "ParseGuid ?s = Some g" by (simp add: ParseGuid_def field_then_def dash_then_def f1 f2 f3 f4 d)
qed

lemma guid_text_parses_witness:
  "ParseGuid (guid_text \<lparr>data1 = 0x77731fab, data2 = 0x63ca, data3 = 0x442c, data4 = [0xa6, 0x7b, 0xab, 0xc7, 0x0f, 0x28, 0xdf, 0xa5]\<rparr>) =
    Some \<lparr>data1 = 0x77731fab, data2 = 0x63ca, data3 = 0x442c, data4 = [0xa6, 0x7b, 0xab, 0xc7, 0x0f, 0x28, 0xdf, 0xa5]\<rparr>"
  using guid_text_parses[THEN conjunct2, rule_format,
    of "\<lparr>data1 = 0x77731fab, data2 = 0x63ca, data3 = 0x442c, data4 = [0xa6, 0x7b, 0xab, 0xc7, 0x0f, 0x28, 0xdf, 0xa5]\<rparr>" "[]"]
  by simp

section \<open>Versions\<close>

text \<open>The place of a version in a list of versions, \<open>None\<close> when it is not there.\<close>

fun place_of :: "'a list \<Rightarrow> 'a \<Rightarrow> nat option" where
  "place_of [] x = None"
| "place_of (v # vs) x = (if v = x then Some 0 else map_option Suc (place_of vs x))"

lemma place_of_takeWhile:
  "place_of vs x = (let n = length (takeWhile (\<lambda>y. y \<noteq> x) vs) in if n = length vs then None else Some n)"
  by (induction vs) (auto simp: Let_def)

lemma place_less: "place_of vs x = Some n \<Longrightarrow> n < length vs"
  by (induction vs arbitrary: n) (auto split: if_splits)

lemma version_index:
  assumes "length vs < 2 ^ 64 - 1"
  shows "unat (FindManifestVersionIndex vs x) = (case place_of vs x of None \<Rightarrow> 2 ^ 64 - 1 | Some n \<Rightarrow> n)"
  using assms place_less[of vs x]
  by (auto simp: FindManifestVersionIndex_def place_of_takeWhile Let_def unsigned_minus_1_eq_mask mask_eq_exp_minus_1
    unat_of_nat take_bit_nat_eq_self_iff split: option.splits if_splits)

definition between_places :: "'a list \<Rightarrow> 'a \<Rightarrow> 'a \<Rightarrow> 'a \<Rightarrow> 'a \<Rightarrow> bool option" where
  "between_places vs null v lower upper =
    (case place_of vs v of
       None \<Rightarrow> None
     | Some n \<Rightarrow> Some ((lower = null \<or> (\<exists>l. place_of vs lower = Some l \<and> l \<le> n)) \<and>
         (upper = null \<or> (\<forall>u. place_of vs upper = Some u \<longrightarrow> n < u))))"

lemma version_between_places:
  assumes "length vs < 2 ^ 64 - 1"
  shows "version_between vs null v lower upper = between_places vs null v lower upper"
proof -
  note idx = version_index[OF assms]
  have none: "FindManifestVersionIndex vs v = - 1 \<longleftrightarrow> place_of vs v = None"
    using idx[of v] place_less[of vs v] assms
    by (auto simp: word_unat_eq_iff unsigned_minus_1_eq_mask mask_eq_exp_minus_1 split: option.splits)
  show ?thesis
  proof (cases "place_of vs v")
    case None
    then show ?thesis by (simp add: version_between_def between_places_def none Let_def)
  next
    case (Some n)
    have "FindManifestVersionIndex vs v < FindManifestVersionIndex vs lower \<longleftrightarrow> \<not> (\<exists>l. place_of vs lower = Some l \<and> l \<le> n)"
      using idx[of v] idx[of lower] Some place_less[OF Some] assms by (auto simp: word_less_nat_alt split: option.splits)
    moreover have "FindManifestVersionIndex vs upper \<le> FindManifestVersionIndex vs v \<longleftrightarrow> \<not> (\<forall>u. place_of vs upper = Some u \<longrightarrow> n < u)"
      using idx[of v] idx[of upper] Some place_less[OF Some] assms by (auto simp: word_le_nat_alt split: option.splits)
    ultimately show ?thesis using Some none by (auto simp: version_between_def between_places_def Let_def)
  qed
qed

definition declared :: "string \<Rightarrow> metadata \<Rightarrow> str" where
  "declared k md = (case GetEntries (str_of k) md of [] \<Rightarrow> [] | v # _ \<Rightarrow> v)"

lemma ParseGuid_Nil: "ParseGuid [] = Some null_guid"
  by code_simp

lemma manifest_versions:
  "IsManifestVersionBetween lower upper md = between_places g_manifestVersionOrderV2 [] (declared ''fx_version'' md) lower upper"
  "IsManifestVersionBetween_guid lowerGuid upperGuid md =
     Some (between_places g_manifestVersionOrder (Some null_guid) (ParseGuid (declared ''resource_manifest_version'' md))
       (Some lowerGuid) (Some upperGuid))"
proof -
  have "length g_manifestVersionOrderV2 < 2 ^ 64 - 1" by (simp add: g_manifestVersionOrderV2_def)
  then show "IsManifestVersionBetween lower upper md = between_places g_manifestVersionOrderV2 [] (declared ''fx_version'' md) lower upper"
    by (simp add: IsManifestVersionBetween_def declared_def version_between_places Let_def)
  have "length g_manifestVersionOrder < 2 ^ 64 - 1" by (simp add: g_manifestVersionOrder_def)
  note guids = version_between_places[OF this]
  have "(case GetEntries (str_of ''resource_manifest_version'') md of [] \<Rightarrow> Some null_guid | v # _ \<Rightarrow> ParseGuid v) =
      ParseGuid (declared ''resource_manifest_version'' md)"
    by (simp add: declared_def ParseGuid_Nil split: list.split)
  moreover obtain g where "ParseGuid (declared ''resource_manifest_version'' md) = Some g" using ParseGuid_total by (auto simp: parses_def)
  ultimately show "IsManifestVersionBetween_guid lowerGuid upperGuid md =
     Some (between_places g_manifestVersionOrder (Some null_guid) (ParseGuid (declared ''resource_manifest_version'' md))
       (Some lowerGuid) (Some upperGuid))"
    by (simp add: IsManifestVersionBetween_guid_def guids)
qed

text \<open>The manifest's version is compared by its place in the list of versions: it is at or behind a lower bound
  and in front of an upper bound. A version that is not in the list gives no answer; an unknown lower bound
  is met by nothing and an unknown upper bound by everything. This holds for both kinds of versions, the
  names and the GUIDs, a missing entry being the empty name or the null GUID.\<close>

theorem manifest_version_decision:
  "IsManifestVersionBetween lower upper md = between_places g_manifestVersionOrderV2 [] (declared ''fx_version'' md) lower upper \<and>
   IsManifestVersionBetween_guid lowerGuid upperGuid md =
     Some (between_places g_manifestVersionOrder (Some null_guid) (ParseGuid (declared ''resource_manifest_version'' md))
       (Some lowerGuid) (Some upperGuid))"
  by (intro conjI manifest_versions)

text \<open>A resource of the third version, of the first, and of a version this build does not know.\<close>

lemma sample_versions:
  "IsManifestVersionBetween (str_of ''bodacious'') [] (metadata_of [(str_of ''fx_version'', str_of ''cerulean'')]) = Some True"
  "IsManifestVersionBetween (str_of ''bodacious'') [] (metadata_of [(str_of ''fx_version'', str_of ''adamant'')]) = Some False"
  "IsManifestVersionBetween (str_of ''bodacious'') [] (metadata_of [(str_of ''fx_version'', str_of ''zany'')]) = None"
  by (simp_all add: manifest_versions declared_def metadata_of_entries between_places_def g_manifestVersionOrderV2_def str_of_def)

section \<open>Constraints\<close>

text \<open>What an expression asks for, and when a constraint holds.\<close>

definition expression_of :: "str \<Rightarrow> str \<Rightarrow> str" where
  "expression_of k v = 47 # k @ (if v = [] then [] else 58 # v)"

definition constraint_name :: "str \<Rightarrow> bool" where
  "constraint_name k \<longleftrightarrow> list_all constraint_char k"

fun constraint_holds :: "(nat \<Rightarrow> str \<Rightarrow> bool \<times> str option) \<Rightarrow> constraint \<Rightarrow> str \<Rightarrow> bool" where
  "constraint_holds poll (Int_constraint n) v \<longleftrightarrow> v = [] \<or> atoi v \<le> n"
| "constraint_holds poll (Bool_constraint b) v \<longleftrightarrow> (if v = [] then b else v = str_of (if b then ''true'' else ''false''))"
| "constraint_holds poll (String_constraint w) v \<longleftrightarrow> v = [] \<or> v = w"
| "constraint_holds poll (Callback_constraint i) v \<longleftrightarrow> fst (poll i v)"

lemma colon_not_in_class: "\<not> constraint_char 58"
  by (simp add: constraint_char_def)

lemma constraint_match_iff:
  "constraint_match s = Some (k, v) \<longleftrightarrow> s = expression_of k v \<and> k \<noteq> [] \<and> constraint_name k \<and> constraint_name v"
proof
  assume m: "constraint_match s = Some (k, v)"
  then obtain rest where s: "s = 47 # rest" by (auto simp: constraint_match_def Let_def split: list.splits if_splits)
  have k: "k = takeWhile constraint_char rest" "k \<noteq> []"
    using m s by (auto simp: constraint_match_def Let_def split: list.splits if_splits)
  have r: "dropWhile constraint_char rest = (if v = [] then [] else 58 # v)" "constraint_name v"
    using m s by (auto simp: constraint_match_def constraint_name_def Let_def split: list.splits if_splits)
  have "rest = k @ (if v = [] then [] else 58 # v)" using k(1) r(1) takeWhile_dropWhile_id[of constraint_char rest] by simp
  moreover have "constraint_name k" unfolding k(1) constraint_name_def list_all_iff by (auto dest: set_takeWhileD)
  ultimately show "s = expression_of k v \<and> k \<noteq> [] \<and> constraint_name k \<and> constraint_name v"
    using s k(2) r(2) by (simp add: expression_of_def)
next
  assume "s = expression_of k v \<and> k \<noteq> [] \<and> constraint_name k \<and> constraint_name v"
  then have a: "s = 47 # k @ (if v = [] then [] else 58 # v)" "k \<noteq> []" "\<forall>c \<in> set k. constraint_char c" "list_all constraint_char v"
    by (auto simp: expression_of_def constraint_name_def list_all_iff)
  show "constraint_match s = Some (k, v)"
  proof (cases "v = []")
    case True
    have all: "takeWhile constraint_char k = k" "dropWhile constraint_char k = []" using a(3) by (simp_all only: takeWhile_eq_all_conv dropWhile_eq_Nil_conv)
    show ?thesis using a(1,2) True by (simp add: constraint_match_def Let_def all)
  next
    case False
    then show ?thesis using a colon_not_in_class by (simp add: constraint_match_def Let_def takeWhile_append2 dropWhile_append2)
  qed
qed

text \<open>A dependency with a leading slash is a constraint. It is met when it is a well-formed expression, its name
  is registered, and the registered constraint holds for its value; otherwise it fails, with an error, when
  constraints are enforced, and passes when they are not.\<close>

theorem constraint_verdict:
  assumes "s = 47 # rest"
  shows "if \<exists>k v c. s = expression_of k v \<and> k \<noteq> [] \<and> constraint_name k \<and> constraint_name v \<and> m_constraints cs k = Some c \<and>
      constraint_holds poll c v
    then MatchConstraint poll cs s = (Pass, None)
    else \<exists>e. MatchConstraint poll cs s = (if m_enforcingConstraints cs then Fail else Pass, Some e)"
proof (cases "constraint_match s")
  case None
  then have "\<not> (s = expression_of k v \<and> k \<noteq> [] \<and> constraint_name k \<and> constraint_name v)" for k v
    by (metis constraint_match_iff option.distinct(1))
  then show ?thesis using assms None by (auto simp: MatchConstraint_def)
next
  case (Some kv)
  then obtain k v where m: "constraint_match s = Some (k, v)" by (cases kv) auto
  then have unique: "s = expression_of k' v' \<and> k' \<noteq> [] \<and> constraint_name k' \<and> constraint_name v' \<longleftrightarrow> k' = k \<and> v' = v" for k' v'
    using constraint_match_iff[of s k' v'] by auto
  have iff: "(\<exists>k v c. s = expression_of k v \<and> k \<noteq> [] \<and> constraint_name k \<and> constraint_name v \<and> m_constraints cs k = Some c \<and>
      constraint_holds poll c v) \<longleftrightarrow> (\<exists>c. m_constraints cs k = Some c \<and> constraint_holds poll c v)" (is "?l \<longleftrightarrow> ?r")
  proof
    assume ?l
    then obtain k' v' c where l: "s = expression_of k' v'" "k' \<noteq> []" "constraint_name k'" "constraint_name v'"
      "m_constraints cs k' = Some c" "constraint_holds poll c v'" by blast
    then have "k' = k \<and> v' = v" using unique[of k' v'] by simp
    then show ?r using l by auto
  next
    assume ?r
    then show ?l using unique[of k v] by auto
  qed
  have verdict: "if constraint_holds poll c v then MatchConstraint poll cs s = (Pass, None)
      else \<exists>e. MatchConstraint poll cs s = (if m_enforcingConstraints cs then Fail else Pass, Some e)"
    if c: "m_constraints cs k = Some c" for c
  proof -
    have s: "\<not> (s = [] \<or> hd s \<noteq> 47)" using assms by simp
    have words: "str_of ''true'' \<noteq> []" "str_of ''false'' \<noteq> []" "str_of ''true'' \<noteq> str_of ''false''" by (simp_all add: str_of_def)
    note unfold = MatchConstraint_def Let_def m option.case prod.case c if_not_P[OF s]
    show ?thesis
    proof (cases c)
      case (Int_constraint n)
      then show ?thesis unfolding unfold by simp
    next
      case (Bool_constraint b)
      have "v = [] \<or> v = str_of ''true'' \<or> v = str_of ''false'' \<or> v \<notin> {[], str_of ''true'', str_of ''false''}" by blast
      then show ?thesis unfolding unfold Bool_constraint constraint.case constraint_holds.simps using words by (elim disjE) (cases b, simp, simp)+
    next
      case (String_constraint w)
      then show ?thesis unfolding unfold by auto
    next
      case (Callback_constraint i)
      then show ?thesis unfolding unfold by (cases "poll i v"; cases "v = []") simp_all
    qed
  qed
  show ?thesis
  proof (cases "m_constraints cs k")
    case None
    then show ?thesis unfolding iff using assms m by (simp add: MatchConstraint_def)
  next
    case (Some c)
    then show ?thesis unfolding iff using verdict[OF Some] by simp
  qed
qed

lemma constraint_verdict_witness:
  "MatchConstraint (\<lambda>i v. (True, None)) (RegisterConstraint (str_of ''server'') (Int_constraint 5000) (SetEnforcingConstraints True new_constraints))
      (str_of ''/server:4500'') = (Pass, None) \<and>
   (\<exists>e. MatchConstraint (\<lambda>i v. (True, None)) (RegisterConstraint (str_of ''server'') (Int_constraint 5000) (SetEnforcingConstraints True new_constraints))
      (str_of ''/servers:4500'') = (Fail, Some e))"
proof -
  let ?cs = "RegisterConstraint (str_of ''server'') (Int_constraint 5000) (SetEnforcingConstraints True new_constraints)"
  let ?poll = "\<lambda>i v. (True, None :: str option)"
  have s: "str_of ''/server:4500'' = 47 # str_of ''server:4500''" "str_of ''/servers:4500'' = 47 # str_of ''servers:4500''"
    "str_of ''/server:4500'' = expression_of (str_of ''server'') (str_of ''4500'')"
    "str_of ''/servers:4500'' = expression_of (str_of ''servers'') (str_of ''4500'')"
    by (simp_all add: str_of_def expression_of_def)
  have names: "constraint_name (str_of ''server'')" "constraint_name (str_of ''servers'')" "constraint_name (str_of ''4500'')" "str_of ''server'' \<noteq> []"
    "str_of ''servers'' \<noteq> []" "str_of ''servers'' \<noteq> str_of ''server''"
    by code_simp+
  have registered: "m_constraints ?cs (str_of ''server'') = Some (Int_constraint 5000)" "m_constraints ?cs (str_of ''servers'') = None" "m_enforcingConstraints ?cs"
    using names(6) by (simp_all add: RegisterConstraint_def SetEnforcingConstraints_def new_constraints_def)
  have "constraint_holds ?poll (Int_constraint 5000) (str_of ''4500'')" by code_simp
  then have "MatchConstraint ?poll ?cs (str_of ''/server:4500'') = (Pass, None)"
    using constraint_verdict[OF s(1), of ?cs ?poll] s(3) names(1,3,4) registered(1) by (metis (no_types))
  moreover have "k = str_of ''servers''" if "str_of ''/servers:4500'' = expression_of k v \<and> k \<noteq> [] \<and> constraint_name k \<and> constraint_name v" for k v
    using iffD2[OF constraint_match_iff that] iffD2[OF constraint_match_iff, OF conjI[OF s(4) conjI[OF names(5) conjI[OF names(2,3)]]]]
    by (simp only: option.inject prod.inject)
  then have "\<exists>e. MatchConstraint ?poll ?cs (str_of ''/servers:4500'') = (Fail, Some e)"
    using constraint_verdict[OF s(2), of ?cs ?poll] registered by (auto split: if_splits)
  ultimately show ?thesis by blast
qed

end
