(* ===== verification/Client_Registry.thy ===== *)
theory Client_Registry
  imports Prelude Security
begin

text \<open>
  The server's clients and the registry that finds them (components/citizen-server-impl:
  include/ClientRegistry.h, src/ClientRegistry.cpp, include/Client.h, src/Client.cpp). Clients are objects
  behind counted references: the table \<open>m_clients\<close> and code elsewhere (\<open>held\<close>) own them, the aliases by
  net id, slot, peer, token and end point are weak references, which lock while the object lives.
\<close>

section \<open>The state\<close>

record client =
  m_guid :: str
  m_netId :: u32
  m_slotId :: u32
  m_peer :: "int option"
  m_connectionToken :: str
  m_tcpEndPoint :: str
  m_dropping :: bool
  m_identifiers :: "str list"
  m_principals :: "principal list"

text \<open>A weak reference is the number of an object, \<open>None\<close> when it was reset; numbers are not used again.\<close>

record registry =
  client_heap :: "nat \<Rightarrow> client option"
  next_client :: nat
  held :: "nat set"
  m_clients :: "str \<Rightarrow> nat option"
  m_clientsByNetId :: "u32 \<Rightarrow> nat option"
  m_clientsByTcpEndPoint :: "str \<Rightarrow> nat option"
  m_clientsByConnectionToken :: "str \<Rightarrow> nat option"
  m_clientsByConnectionTokenHash :: "u32 \<Rightarrow> nat option"
  m_clientsByPeer :: "int \<Rightarrow> nat option"
  m_clientsBySlotId :: "nat option list"
  m_curNetId :: u16
  m_hostNetId :: u16

text \<open>The mode of the server, the string hash, and \<open>fmt::sprintf\<close> of a net id.\<close>

record server_env =
  IsOneSync :: bool
  IsBigMode :: bool
  HashString :: "str \<Rightarrow> u32"
  print_id :: "u32 \<Rightarrow> str"

definition MAX_CLIENTS :: nat where
  "MAX_CLIENTS = 2048 + 1"

definition new_registry :: "server_env \<Rightarrow> registry" where
  "new_registry env = \<lparr>client_heap = (\<lambda>_. None), next_client = 0, held = {}, m_clients = (\<lambda>_. None),
     m_clientsByNetId = (\<lambda>_. None), m_clientsByTcpEndPoint = (\<lambda>_. None), m_clientsByConnectionToken = (\<lambda>_. None),
     m_clientsByConnectionTokenHash = (\<lambda>_. None), m_clientsByPeer = (\<lambda>_. None),
     m_clientsBySlotId = replicate (if IsBigMode env then MAX_CLIENTS else 129) None,
     m_curNetId = 1, m_hostNetId = - 1\<rparr>"

section \<open>References\<close>

definition alive :: "registry \<Rightarrow> nat \<Rightarrow> bool" where
  "alive reg c \<longleftrightarrow> client_heap reg c \<noteq> None"

definition lock :: "registry \<Rightarrow> nat option \<Rightarrow> nat option" where
  "lock reg ref = (case ref of None \<Rightarrow> None | Some c \<Rightarrow> if alive reg c then Some c else None)"

definition change :: "nat \<Rightarrow> (client \<Rightarrow> client) \<Rightarrow> registry \<Rightarrow> registry" where
  "change c f reg = reg\<lparr>client_heap := (client_heap reg)(c := map_option f (client_heap reg c))\<rparr>"

text \<open>Code elsewhere gives up its reference; an object without an owner dies.\<close>

definition release :: "nat \<Rightarrow> registry \<Rightarrow> registry" where
  "release c reg = reg\<lparr>held := held reg - {c},
     client_heap := (if c \<in> ran (m_clients reg) then client_heap reg else (client_heap reg)(c := None))\<rparr>"

section \<open>The client\<close>

definition new_client :: "str \<Rightarrow> client" where
  "new_client guid = \<lparr>m_guid = guid, m_netId = 0xFFFF, m_slotId = - 1, m_peer = None, m_connectionToken = [],
     m_tcpEndPoint = [], m_dropping = False, m_identifiers = [], m_principals = []\<rparr>"

definition GetPeer :: "client \<Rightarrow> int" where
  "GetPeer x = (case m_peer x of None \<Rightarrow> 0 | Some p \<Rightarrow> p)"

definition UpdateCachedPrincipalValues :: "server_env \<Rightarrow> client \<Rightarrow> client" where
  "UpdateCachedPrincipalValues env x = x\<lparr>m_principals :=
     map (\<lambda>i. Principal (str_of ''identifier.'' @ i)) (m_identifiers x) @ [Principal (str_of ''player.'' @ print_id env (m_netId x))]\<rparr>"

definition AddIdentifier :: "server_env \<Rightarrow> nat \<Rightarrow> str \<Rightarrow> registry \<Rightarrow> registry" where
  "AddIdentifier env c i = change c (\<lambda>x. UpdateCachedPrincipalValues env (x\<lparr>m_identifiers := m_identifiers x @ [i]\<rparr>))"

definition SetDropping :: "nat \<Rightarrow> registry \<Rightarrow> registry" where
  "SetDropping c = change c (\<lambda>x. x\<lparr>m_dropping := True\<rparr>)"

text \<open>The setters with the listeners that the registry connects in \<open>MakeClient\<close>.\<close>

definition SetNetId :: "server_env \<Rightarrow> nat \<Rightarrow> u32 \<Rightarrow> registry \<Rightarrow> registry" where
  "SetNetId env c netId reg =
     (let reg = change c (\<lambda>x. x\<lparr>m_netId := netId\<rparr>) reg;
          reg = reg\<lparr>m_clientsByNetId := (m_clientsByNetId reg)(netId \<mapsto> c)\<rparr>
      in change c (UpdateCachedPrincipalValues env) reg)"

definition SetTcpEndPoint :: "nat \<Rightarrow> str \<Rightarrow> registry \<Rightarrow> registry" where
  "SetTcpEndPoint c v reg =
     (change c (\<lambda>x. x\<lparr>m_tcpEndPoint := v\<rparr>) reg)\<lparr>m_clientsByTcpEndPoint := (m_clientsByTcpEndPoint reg)(v \<mapsto> c)\<rparr>"

definition SetConnectionToken :: "server_env \<Rightarrow> nat \<Rightarrow> str \<Rightarrow> registry \<Rightarrow> registry" where
  "SetConnectionToken env c v reg =
     (change c (\<lambda>x. x\<lparr>m_connectionToken := v\<rparr>) reg)\<lparr>
       m_clientsByConnectionToken := (m_clientsByConnectionToken reg)(v \<mapsto> c),
       m_clientsByConnectionTokenHash := (m_clientsByConnectionTokenHash reg)(HashString env v \<mapsto> c)\<rparr>"

text \<open>The slots are tried from the last to the first; 31 is a special case.\<close>

definition free_slot :: "registry \<Rightarrow> nat option" where
  "free_slot reg = List.find (\<lambda>s. s \<noteq> 31 \<and> lock reg (m_clientsBySlotId reg ! s) = None) (rev [0..<length (m_clientsBySlotId reg)])"

definition SetPeer :: "server_env \<Rightarrow> nat \<Rightarrow> int \<Rightarrow> registry \<Rightarrow> registry" where
  "SetPeer env c p reg =
     (let reg = change c (\<lambda>x. x\<lparr>m_peer := Some p\<rparr>) reg;
          reg = reg\<lparr>m_clientsByPeer := (m_clientsByPeer reg)(p \<mapsto> c)\<rparr>
      in
      if \<not> IsOneSync env then reg
      else if (case client_heap reg c of None \<Rightarrow> True | Some x \<Rightarrow> m_slotId x \<noteq> - 1) then reg
      else case free_slot reg of
        None \<Rightarrow> reg
      | Some s \<Rightarrow> (change c (\<lambda>x. x\<lparr>m_slotId := word_of_nat s\<rparr>) reg)\<lparr>m_clientsBySlotId := (m_clientsBySlotId reg)[s := Some c]\<rparr>)"

section \<open>The registry\<close>

text \<open>\<open>emplace\<close> does nothing when the key is there. The caller gets a reference.\<close>

definition MakeClient :: "str \<Rightarrow> registry \<Rightarrow> nat \<times> registry" where
  "MakeClient guid reg =
     (let c = next_client reg in
      (c, reg\<lparr>next_client := c + 1, client_heap := (client_heap reg)(c \<mapsto> new_client guid), held := insert c (held reg),
        m_clients := (if m_clients reg guid = None then (m_clients reg)(guid \<mapsto> c) else m_clients reg)\<rparr>))"

text \<open>0xFFFF is the invalid id and 0 is not valid.\<close>

definition incrementId :: "u16 \<Rightarrow> u16" where
  "incrementId n = (let n = n + 1 in if n = 0xFFFF then 1 else n)"

partial_function (option) free_id :: "(u16 \<Rightarrow> bool) \<Rightarrow> u16 \<Rightarrow> u16 option" where
  "free_id taken n = (if taken n then free_id taken (incrementId n) else Some n)"

definition id_taken :: "registry \<Rightarrow> u16 \<Rightarrow> bool" where
  "id_taken reg n \<longleftrightarrow> lock reg (m_clientsByNetId reg (ucast n)) \<noteq> None"

definition HandleConnectingClient :: "server_env \<Rightarrow> nat \<Rightarrow> registry \<Rightarrow> registry option" where
  "HandleConnectingClient env c reg =
     (case free_id (id_taken reg) (m_curNetId reg) of
        None \<Rightarrow> None
      | Some n \<Rightarrow> Some ((SetNetId env c (ucast n) reg)\<lparr>m_curNetId := incrementId n\<rparr>))"

text \<open>The table gives up its reference; the caller's own object \<open>c\<close> lives on.\<close>

definition erase_client :: "nat \<Rightarrow> str \<Rightarrow> registry \<Rightarrow> registry" where
  "erase_client c guid reg =
     (let reg' = reg\<lparr>m_clients := (m_clients reg)(guid := None)\<rparr> in
      case m_clients reg guid of
        None \<Rightarrow> reg'
      | Some d \<Rightarrow> if d = c \<or> d \<in> held reg then reg' else reg'\<lparr>client_heap := (client_heap reg')(d := None)\<rparr>)"

text \<open>The listeners of \<open>OnDrop\<close> belong to other components. The caller holds a reference.\<close>

definition RemoveClient :: "server_env \<Rightarrow> nat \<Rightarrow> registry \<Rightarrow> registry option" where
  "RemoveClient env c reg =
     (case client_heap reg c of
        None \<Rightarrow> None
      | Some x \<Rightarrow>
          let reg = reg\<lparr>m_clientsByPeer := (m_clientsByPeer reg)(GetPeer x := None),
                m_clientsByNetId := (m_clientsByNetId reg)(m_netId x := None),
                m_clientsByConnectionToken := (m_clientsByConnectionToken reg)(m_connectionToken x := None),
                m_clientsByConnectionTokenHash := (m_clientsByConnectionTokenHash reg)(HashString env (m_connectionToken x) := None)\<rparr>;
              s = unat (m_slotId x);
              reg = (if s < length (m_clientsBySlotId reg)
                then reg\<lparr>m_clientsBySlotId := (m_clientsBySlotId reg)[s := None]\<rparr> else reg);
              reg = erase_client c (m_guid x) reg
          in Some (change c (\<lambda>x. x\<lparr>m_slotId := - 1\<rparr>) reg))"

definition GetClientByGuid :: "str \<Rightarrow> registry \<Rightarrow> nat option" where
  "GetClientByGuid guid reg = m_clients reg guid"

definition GetClientByPeer :: "int \<Rightarrow> registry \<Rightarrow> nat option" where
  "GetClientByPeer p reg = lock reg (m_clientsByPeer reg p)"

definition GetClientByTcpEndPoint :: "str \<Rightarrow> registry \<Rightarrow> nat option" where
  "GetClientByTcpEndPoint address reg = lock reg (m_clientsByTcpEndPoint reg address)"

definition GetClientByNetID :: "u32 \<Rightarrow> registry \<Rightarrow> nat option" where
  "GetClientByNetID netId reg = lock reg (m_clientsByNetId reg netId)"

definition GetClientBySlotID :: "nat \<Rightarrow> registry \<Rightarrow> nat option" where
  "GetClientBySlotID s reg = lock reg (m_clientsBySlotId reg ! s)"

definition GetClientByConnectionToken :: "str \<Rightarrow> registry \<Rightarrow> nat option" where
  "GetClientByConnectionToken token reg = lock reg (m_clientsByConnectionToken reg token)"

definition HasClientByConnectionTokenHash :: "u32 \<Rightarrow> registry \<Rightarrow> bool" where
  "HasClientByConnectionTokenHash h reg \<longleftrightarrow> lock reg (m_clientsByConnectionTokenHash reg h) \<noteq> None"

definition GetHost :: "registry \<Rightarrow> nat option" where
  "GetHost reg = (if m_hostNetId reg = 0xFFFF then None else GetClientByNetID (ucast (m_hostNetId reg)) reg)"

text \<open>The net id is cut to 16 bits.\<close>

definition SetHost :: "server_env \<Rightarrow> nat option \<Rightarrow> registry \<Rightarrow> registry" where
  "SetHost env client reg =
     (case client of
        None \<Rightarrow> reg\<lparr>m_hostNetId := - 1\<rparr>
      | Some c \<Rightarrow>
          if IsOneSync env then reg
          else case client_heap reg c of None \<Rightarrow> reg | Some x \<Rightarrow> reg\<lparr>m_hostNetId := ucast (m_netId x)\<rparr>)"

section \<open>Steps\<close>

text \<open>
  What the server does with the registry: it makes clients, gives them temporary ids above 0xFFFF (the
  counter of \<open>InitConnect\<close>), connects them, and removes them; code that has a reference may change a client, remove it,
  even when it was never registered or is removed already, and give the reference up.
\<close>

inductive registry_step :: "server_env \<Rightarrow> registry \<Rightarrow> registry \<Rightarrow> bool" for env where
  make: "registry_step env reg (snd (MakeClient guid reg))"
| temporary: "alive reg c \<Longrightarrow> t < 2 ^ 32 - 2 ^ 16 \<Longrightarrow> registry_step env reg (SetNetId env c (0x10000 + word_of_nat t) reg)"
| connecting: "alive reg c \<Longrightarrow> HandleConnectingClient env c reg = Some reg' \<Longrightarrow> registry_step env reg reg'"
| peer: "alive reg c \<Longrightarrow> registry_step env reg (SetPeer env c p reg)"
| token: "alive reg c \<Longrightarrow> registry_step env reg (SetConnectionToken env c v reg)"
| end_point: "alive reg c \<Longrightarrow> registry_step env reg (SetTcpEndPoint c v reg)"
| add_identifier: "alive reg c \<Longrightarrow> registry_step env reg (AddIdentifier env c i reg)"
| dropping: "alive reg c \<Longrightarrow> registry_step env reg (SetDropping c reg)"
| remove: "RemoveClient env c reg = Some reg' \<Longrightarrow> registry_step env reg reg'"
| release: "registry_step env reg (release c reg)"
| host: "registry_step env reg (SetHost env client reg)"

inductive registry_reachable :: "server_env \<Rightarrow> registry \<Rightarrow> bool" for env where
  start: "registry_reachable env (new_registry env)"
| step: "registry_reachable env reg \<Longrightarrow> registry_step env reg reg' \<Longrightarrow> registry_reachable env reg'"

text \<open>
  A client that was removed keeps its net id, which may be given to another when the ids have gone round once, after 65534 connections;
  removing the old client again takes the id from the new one. The runs in which that does not happen:
\<close>

definition own_id :: "registry \<Rightarrow> nat \<Rightarrow> bool" where
  "own_id reg c = (case client_heap reg c of
     None \<Rightarrow> False
   | Some x \<Rightarrow> (case GetClientByNetID (m_netId x) reg of None \<Rightarrow> True | Some d \<Rightarrow> d = c))"

inductive orderly_reachable :: "server_env \<Rightarrow> registry \<Rightarrow> bool" for env where
  start: "orderly_reachable env (new_registry env)"
| step: "orderly_reachable env reg \<Longrightarrow> registry_step env reg reg' \<Longrightarrow>
    (\<forall>c. RemoveClient env c reg = Some reg' \<longrightarrow> own_id reg c) \<Longrightarrow> orderly_reachable env reg'"

end
