(* ===== verification/Client_Deferral.thy ===== *)
theory Client_Deferral
  imports Prelude Text Std_Containers
begin

text \<open>
  Deferred connections (components/citizen-server-impl: ClientDeferral.h and ClientDeferral.cpp): while a
  client connects, resources may defer the connection, report progress, present a card, and finish, with
  or without a reason to refuse it. What the object tells the connection through its callbacks is the list of
  outcomes an operation returns. Arguments are msgpack objects: text, an extension (a function reference) or
  anything else; unpacking a thing that is not text as a string throws, after what was done before.
\<close>

section \<open>State\<close>

record deferral_state =
  ds_done :: bool
  ds_rejected :: bool
  resourceKey :: str
  description :: str
  message :: str

text \<open>\<open>timers\<close> counts the keep-alive timers started; the object closes the last one only.\<close>

record deferral =
  m_deferralStates :: "(str, deferral_state) omap"
  m_handoverData :: "(str, str) omap"
  m_nextCard :: str
  m_completed :: bool
  m_ranEvents :: bool
  m_pending :: bool
  m_cardResponseCallback :: "str option"
  timers :: nat

datatype outcome = Resolve | Reject str | Progress str | Card str

datatype packed = Packed_text str | Packed_ext int str | Packed_other nat

text \<open>Serializing an object as JSON (it may fail), and reading it as a dictionary, in the order of its keys.\<close>

record msgpack_env =
  to_json :: "packed \<Rightarrow> str option"
  to_dict :: "packed \<Rightarrow> (str \<times> packed) list option"

definition new_state :: deferral_state where
  "new_state = \<lparr>ds_done = False, ds_rejected = False, resourceKey = [], description = [], message = []\<rparr>"

definition new_deferral :: deferral where
  "new_deferral = \<lparr>m_deferralStates = [], m_handoverData = [], m_nextCard = [], m_completed = False, m_ranEvents = False,
     m_pending = False, m_cardResponseCallback = None, timers = 0\<rparr>"

section \<open>The state of all deferrals\<close>

definition IsDeferred :: "deferral \<Rightarrow> bool" where
  "IsDeferred d \<longleftrightarrow> m_deferralStates d \<noteq> []"

text \<open>\<open>fmt::sprintf("%s: %s\n", description, message)\<close>.\<close>

definition progress_line :: "deferral_state \<Rightarrow> str" where
  "progress_line ds = description ds @ str_of '': '' @ message ds @ [10]"

text \<open>The loop over the states: the progress, whether all are done, and the first rejection.\<close>

fun scan_states :: "deferral_state list \<Rightarrow> str \<Rightarrow> bool \<Rightarrow> str \<times> bool \<times> str option" where
  "scan_states [] progressMsg allDone = (progressMsg, allDone, None)"
| "scan_states (ds # dss) progressMsg allDone =
     (let progressMsg = (if \<not> ds_done ds then progressMsg @ progress_line ds else progressMsg);
          allDone = (allDone \<and> ds_done ds)
      in if ds_rejected ds then (progressMsg, allDone, Some (message ds)) else scan_states dss progressMsg allDone)"

definition UpdateDeferrals :: "deferral \<Rightarrow> deferral \<times> outcome list" where
  "UpdateDeferrals d =
     (if \<not> m_ranEvents d then (d\<lparr>m_pending := True\<rparr>, [])
      else case scan_states (map snd (m_deferralStates d)) [] True of
        (progressMsg, allDone, rejection) \<Rightarrow>
          (case rejection of
             Some rejectionMsg \<Rightarrow> (d\<lparr>m_completed := True\<rparr>, [Reject rejectionMsg])
           | None \<Rightarrow>
               if allDone then (d\<lparr>m_completed := True\<rparr>, [Resolve])
               else (d, [Progress progressMsg])))"

definition PresentCard :: "str \<Rightarrow> deferral \<Rightarrow> deferral \<times> outcome list" where
  "PresentCard cardJson d = (if \<not> m_ranEvents d then (d\<lparr>m_nextCard := cardJson\<rparr>, []) else (d, [Card cardJson]))"

definition RanEvents :: "deferral \<Rightarrow> deferral \<times> outcome list" where
  "RanEvents d =
     (let d = d\<lparr>m_ranEvents := True\<rparr>;
          (d, out) = (if m_pending d then (let (d, out) = UpdateDeferrals d in (d\<lparr>m_pending := False\<rparr>, out)) else (d, []));
          card = m_nextCard d;
          d = d\<lparr>m_nextCard := []\<rparr>;
          (d, out') = (if card \<noteq> [] then PresentCard card d else (d, []))
      in (d, out @ out'))"

definition SetHandoverData :: "str \<Rightarrow> str \<Rightarrow> deferral \<Rightarrow> deferral" where
  "SetHandoverData key jsonValue d = d\<lparr>m_handoverData := omap_put key jsonValue (m_handoverData d)\<rparr>"

definition StartTimer :: "deferral \<Rightarrow> deferral" where
  "StartTimer d = d\<lparr>timers := timers d + 1\<rparr>"

section \<open>What resources call\<close>

text \<open>\<open>m_deferralStates[key]\<close> creates a state when there is none.\<close>

definition state_at :: "str \<Rightarrow> deferral \<Rightarrow> deferral_state" where
  "state_at key d = (case map_of (m_deferralStates d) key of None \<Rightarrow> new_state | Some ds \<Rightarrow> ds)"

definition set_deferral_state :: "str \<Rightarrow> deferral_state \<Rightarrow> deferral \<Rightarrow> deferral" where
  "set_deferral_state key ds d = d\<lparr>m_deferralStates := omap_put key ds (m_deferralStates d)\<rparr>"

text \<open>The last component tells whether an exception leaves the callback.\<close>

type_synonym callback_result = "deferral \<times> outcome list \<times> bool"

definition update_then :: "deferral \<Rightarrow> callback_result" where
  "update_then d = (case UpdateDeferrals d of (d, out) \<Rightarrow> (d, out, False))"

definition cb_defer :: "str \<Rightarrow> deferral \<Rightarrow> callback_result" where
  "cb_defer key d =
     (let ds = new_state\<lparr>description := key, resourceKey := key, message := str_of ''Deferring connection...''\<rparr>
      in case UpdateDeferrals (set_deferral_state key ds d) of (d, out) \<Rightarrow> (StartTimer d, out, False))"

definition cb_update :: "str \<Rightarrow> packed list \<Rightarrow> deferral \<Rightarrow> callback_result" where
  "cb_update key obj d =
     (let ds = state_at key d; d = set_deferral_state key ds d in
      case obj of
        [Packed_text s] \<Rightarrow> update_then (set_deferral_state key (ds\<lparr>message := s\<rparr>) d)
      | [_] \<Rightarrow> (d, [], True)
      | _ \<Rightarrow> (d, [], False))"

text \<open>The types 10 and 11 are local and remote function references.\<close>

definition SetCardResponseHandler :: "packed list \<Rightarrow> deferral \<Rightarrow> deferral" where
  "SetCardResponseHandler obj d =
     (case obj of
        _ # Packed_ext t ref # _ \<Rightarrow> if t = 10 \<or> t = 11 then d\<lparr>m_cardResponseCallback := Some ref\<rparr> else d
      | _ \<Rightarrow> d)"

definition cb_presentCard :: "msgpack_env \<Rightarrow> str \<Rightarrow> packed list \<Rightarrow> deferral \<Rightarrow> callback_result" where
  "cb_presentCard env key obj d =
     (let d = set_deferral_state key (state_at key d) d in
      case obj of
        [] \<Rightarrow> (d, [], False)
      | arg # _ \<Rightarrow>
          (let json = (case arg of Packed_text s \<Rightarrow> Some s | _ \<Rightarrow> to_json env arg);
               (d, out) = (case json of None \<Rightarrow> (d, []) | Some s \<Rightarrow> PresentCard s d)
           in (SetCardResponseHandler obj d, out, False)))"

definition cb_done :: "str \<Rightarrow> packed list \<Rightarrow> deferral \<Rightarrow> callback_result" where
  "cb_done key obj d =
     (let ds = (state_at key d)\<lparr>ds_done := True\<rparr>; d = set_deferral_state key ds d in
      case obj of
        [Packed_text s] \<Rightarrow> update_then (set_deferral_state key (ds\<lparr>message := s, ds_rejected := True\<rparr>) d)
      | [_] \<Rightarrow> (d, [], True)
      | _ \<Rightarrow> update_then d)"

definition cb_handover :: "msgpack_env \<Rightarrow> packed list \<Rightarrow> deferral \<Rightarrow> callback_result" where
  "cb_handover env obj d =
     (case obj of
        [] \<Rightarrow> (d, [], False)
      | data # _ \<Rightarrow>
          (case to_dict env data of
             None \<Rightarrow> (d, [], False)
           | Some dict \<Rightarrow>
               (fold (\<lambda>(key, v) d. case to_json env v of None \<Rightarrow> d | Some json \<Rightarrow> SetHandoverData key json d) dict d, [], False)))"

datatype deferral_call =
    Call_defer | Call_update "packed list" | Call_presentCard "packed list" | Call_done "packed list" | Call_handover "packed list"

text \<open>\<open>createDeferralCallback\<close>: nothing happens any more once the deferral is completed. The key is the name of the
  resource whose script runtime is running.\<close>

definition deferral_callback :: "msgpack_env \<Rightarrow> str \<Rightarrow> deferral_call \<Rightarrow> deferral \<Rightarrow> callback_result" where
  "deferral_callback env key call d =
     (if m_completed d then (d, [], False)
      else case call of
        Call_defer \<Rightarrow> cb_defer key d
      | Call_update obj \<Rightarrow> cb_update key obj d
      | Call_presentCard obj \<Rightarrow> cb_presentCard env key obj d
      | Call_done obj \<Rightarrow> cb_done key obj d
      | Call_handover obj \<Rightarrow> cb_handover env obj d)"

end
