(* ===== verification/Client_Connection.thy ===== *)
theory Client_Connection
  imports Client_Registry Client_Deferral
begin

text \<open>
  How a client gets into the server (components/citizen-server-impl: the second half of the \<open>initConnect\<close> method in
  InitConnectMethod.cpp, and the handshake packet in GameServer.cpp). The HTTP request of the client stays open
  while resources defer the connection; what it is answered is the list \<open>answers\<close>. Later the client sends a
  handshake packet over its new peer; it is let in when its token is right and it has passed the validation.
\<close>

section \<open>The request\<close>

datatype response =
    Deferring str | Show_card str | Accepted "(str, str) omap" | Refused str | End_of_response

text \<open>
  The shared pointers of the callbacks: \<open>cbRef\<close> is the response as long as it may be answered, \<open>deferral_ref\<close>
  whether \<open>*deferrals\<close> is set. \<open>validated\<close> is the set of clients with \<open>passedValidation\<close>. \<open>in_events\<close> holds from the
  start of the connection to the end of the function that triggers \<open>playerConnecting\<close>.
\<close>

record connection =
  clients :: registry
  conn_client :: nat
  deferrals :: deferral
  deferral_ref :: bool
  cbRef :: bool
  answers :: "response list"
  noReason :: str
  earlyReject :: bool
  didSucceed :: bool
  validated :: "nat set"
  in_events :: bool
  turned_away :: bool

definition prevented :: str where
  "prevented = str_of ''Resource prevented connection.''"

text \<open>The start: authentication is over, the client is registered, its token is set.\<close>

definition begin_connecting :: "registry \<Rightarrow> nat \<Rightarrow> nat set \<Rightarrow> connection" where
  "begin_connecting reg c v = \<lparr>clients = reg, conn_client = c, deferrals = new_deferral, deferral_ref = True, cbRef = True,
     answers = [], noReason = prevented, earlyReject = False, didSucceed = False, validated = v, in_events = True,
     turned_away = False\<rparr>"

definition answer_via :: "response list \<Rightarrow> connection \<Rightarrow> connection" where
  "answer_via rs cn = (if cbRef cn then cn\<lparr>answers := answers cn @ rs\<rparr> else cn)"

definition drop_refs :: "connection \<Rightarrow> connection" where
  "drop_refs cn = cn\<lparr>cbRef := False, deferral_ref := False\<rparr>"

definition allowClient :: "connection \<Rightarrow> connection" where
  "allowClient cn =
     (if alive (clients cn) (conn_client cn) then cn\<lparr>validated := insert (conn_client cn) (validated cn), didSucceed := True\<rparr>
      else cn\<lparr>didSucceed := True\<rparr>)"

definition remove_if_alive :: "server_env \<Rightarrow> connection \<Rightarrow> connection" where
  "remove_if_alive env cn =
     (case RemoveClient env (conn_client cn) (clients cn) of None \<Rightarrow> cn | Some reg \<Rightarrow> cn\<lparr>clients := reg\<rparr>)"

text \<open>The handover data is added when \<open>*deferrals\<close> is still set.\<close>

definition handover_of :: "connection \<Rightarrow> (str, str) omap" where
  "handover_of cn = (if deferral_ref cn then m_handoverData (deferrals cn) else [])"

text \<open>The callbacks that \<open>initConnect\<close> gives to the deferral.\<close>

fun on_outcome :: "server_env \<Rightarrow> outcome \<Rightarrow> connection \<Rightarrow> connection" where
  "on_outcome env (Progress msg) cn = answer_via [Deferring msg] cn"
| "on_outcome env (Card json) cn = answer_via [Show_card json] cn"
| "on_outcome env Resolve cn =
     (let cn = allowClient cn in drop_refs (answer_via [Accepted (handover_of cn), End_of_response] cn))"
| "on_outcome env (Reject msg) cn =
     (let cn = (if in_events cn then cn\<lparr>noReason := msg, earlyReject := True\<rparr> else cn) in
      if alive (clients cn) (conn_client cn)
      then drop_refs (answer_via [Refused msg, End_of_response] (remove_if_alive env cn))
      else drop_refs cn)"

section \<open>What happens to it\<close>

text \<open>The deferral lives while something refers to it: the connection, the function that triggers the event,
  or its own handler for card responses, which captures it.\<close>

definition deferral_alive :: "connection \<Rightarrow> bool" where
  "deferral_alive cn \<longleftrightarrow> deferral_ref cn \<or> in_events cn \<or> m_cardResponseCallback (deferrals cn) \<noteq> None"

definition resource_call :: "server_env \<Rightarrow> msgpack_env \<Rightarrow> str \<Rightarrow> deferral_call \<Rightarrow> connection \<Rightarrow> connection" where
  "resource_call env menv key call cn =
     (if \<not> deferral_alive cn then cn
      else case deferral_callback menv key call (deferrals cn) of
        (d, out, _) \<Rightarrow> fold (on_outcome env) out (cn\<lparr>deferrals := d\<rparr>))"

text \<open>The function \<open>setKickReason\<close> of the event.\<close>

definition set_kick_reason :: "packed list \<Rightarrow> connection \<Rightarrow> connection" where
  "set_kick_reason obj cn = (case obj of [Packed_text s] \<Rightarrow> cn\<lparr>noReason := s\<rparr> | _ \<Rightarrow> cn)"

text \<open>The timer sends an empty message.\<close>

definition keep_alive :: "connection \<Rightarrow> connection" where
  "keep_alive cn = (if deferral_alive cn then answer_via [Deferring []] cn else cn)"

text \<open>The HTTP connection breaks off.\<close>

definition cancel_request :: "server_env \<Rightarrow> connection \<Rightarrow> connection" where
  "cancel_request env cn =
     (let cn = (if \<not> didSucceed cn \<and> alive (clients cn) (conn_client cn) then remove_if_alive env cn else cn) in drop_refs cn)"

definition sendError :: "str \<Rightarrow> connection \<Rightarrow> connection" where
  "sendError msg cn = cn\<lparr>answers := answers cn @ [Refused msg, End_of_response], turned_away := True\<rparr>"

text \<open>
  Behind the event \<open>playerConnecting\<close>, which was triggered unless the request had already been canceled:
  \<open>shouldAllow\<close> is its result. \<open>None\<close> is the use of \<open>*deferrals\<close> when it has been reset.
\<close>

definition finish_events :: "server_env \<Rightarrow> bool \<Rightarrow> connection \<Rightarrow> connection option" where
  "finish_events env shouldAllow cn =
     (case RanEvents (deferrals cn) of (d, out) \<Rightarrow>
        let cn = fold (on_outcome env) out (cn\<lparr>deferrals := d\<rparr>) in
        if \<not> shouldAllow \<or> earlyReject cn then
          (let cn = sendError (noReason cn) (remove_if_alive env cn) in Some (cn\<lparr>in_events := False\<rparr>))
        else if \<not> IsDeferred (deferrals cn) then
          (let cn = allowClient cn in
           if \<not> deferral_ref cn then None
           else let h = handover_of cn; cn = drop_refs cn
             in Some (cn\<lparr>answers := answers cn @ [Accepted h, End_of_response], in_events := False\<rparr>))
        else Some (cn\<lparr>in_events := False\<rparr>))"

section \<open>The handshake packet\<close>

datatype handshake_result =
    Ignored | Invalid_token | Invalid_connection | No_slot | Connect_ok u32 bool

text \<open>
  \<open>GameServer::ProcessPacket\<close> for a message of type 1: the peer, the guid and the token it sends, and the clients
  that passed the validation. \<open>None\<close> when the search for a net id does not end.
\<close>

definition process_handshake ::
    "server_env \<Rightarrow> int \<Rightarrow> str \<Rightarrow> str \<Rightarrow> nat set \<Rightarrow> registry \<Rightarrow> (handshake_result \<times> registry) option" where
  "process_handshake env p guid token v reg =
     (if GetClientByPeer p reg \<noteq> None then Some (Ignored, reg)
      else case GetClientByGuid guid reg of
        None \<Rightarrow> Some (Ignored, reg)
      | Some c \<Rightarrow>
          (case client_heap reg c of
             None \<Rightarrow> None
           | Some x \<Rightarrow>
               if token \<noteq> m_connectionToken x then do { reg \<leftarrow> RemoveClient env c reg; Some (Invalid_token, reg) }
               else if c \<notin> v then do { reg \<leftarrow> RemoveClient env c reg; Some (Invalid_connection, reg) }
               else
                 let reg = SetPeer env c p reg in
                 (case client_heap reg c of
                    None \<Rightarrow> None
                  | Some x \<Rightarrow>
                      if IsOneSync env \<and> m_slotId x = - 1 then do { reg \<leftarrow> RemoveClient env c reg; Some (No_slot, reg) }
                      else if 0xFFFF \<le> m_netId x then do {
                        reg \<leftarrow> HandleConnectingClient env c reg;
                        x \<leftarrow> client_heap reg c;
                        Some (Connect_ok (m_netId x) True, reg) }
                      else Some (Connect_ok (m_netId x) False, reg))))"

section \<open>Steps\<close>

text \<open>Meanwhile the registry changes by whatever else the server does, and others pass their validation.\<close>

inductive connection_step :: "server_env \<Rightarrow> msgpack_env \<Rightarrow> connection \<Rightarrow> connection \<Rightarrow> bool" for env menv where
  call: "connection_step env menv cn (resource_call env menv key call cn)"
| reason: "in_events cn \<Longrightarrow> connection_step env menv cn (set_kick_reason obj cn)"
| timer: "connection_step env menv cn (keep_alive cn)"
| cancel: "connection_step env menv cn (cancel_request env cn)"
| finish: "in_events cn \<Longrightarrow> finish_events env shouldAllow cn = Some cn' \<Longrightarrow> connection_step env menv cn cn'"
| other: "registry_step env (clients cn) reg \<Longrightarrow> connection_step env menv cn (cn\<lparr>clients := reg\<rparr>)"
| others_validated: "conn_client cn \<notin> v \<Longrightarrow> connection_step env menv cn (cn\<lparr>validated := validated cn \<union> v\<rparr>)"

inductive connecting :: "server_env \<Rightarrow> msgpack_env \<Rightarrow> connection \<Rightarrow> bool" for env menv where
  start: "registry_reachable env reg \<Longrightarrow> alive reg c \<Longrightarrow> c \<notin> v \<Longrightarrow> connecting env menv (begin_connecting reg c v)"
| step: "connecting env menv cn \<Longrightarrow> connection_step env menv cn cn' \<Longrightarrow> connecting env menv cn'"

end
