(* ===== verification/Client_Registry_Properties.thy ===== *)
theory Client_Registry_Properties
  imports Client_Registry
begin

text \<open>
  In every reachable registry no two live clients share a slot and no two registered clients share a net
  id, and the aliases find them; the search for a net id ends; and what happens when a client
  connects under a guid whose old client has not been removed yet.
\<close>

section \<open>The invariant\<close>

definition slots_ok :: "registry \<Rightarrow> bool" where
  "slots_ok reg \<longleftrightarrow>
     (\<forall>s c x. s < length (m_clientsBySlotId reg) \<longrightarrow> m_clientsBySlotId reg ! s = Some c \<longrightarrow> client_heap reg c = Some x \<longrightarrow>
        m_slotId x = word_of_nat s) \<and>
     (\<forall>c x. client_heap reg c = Some x \<longrightarrow> m_slotId x \<noteq> - 1 \<longrightarrow>
        unat (m_slotId x) < length (m_clientsBySlotId reg) \<and> m_clientsBySlotId reg ! unat (m_slotId x) = Some c \<and> m_slotId x \<noteq> 31)"

definition clients_ok :: "registry \<Rightarrow> bool" where
  "clients_ok reg \<longleftrightarrow>
     slots_ok reg \<and> length (m_clientsBySlotId reg) \<le> MAX_CLIENTS \<and>
     (\<forall>c x. client_heap reg c = Some x \<longrightarrow> c < next_client reg) \<and>
     (\<forall>s < length (m_clientsBySlotId reg). \<forall>c. m_clientsBySlotId reg ! s = Some c \<longrightarrow> c < next_client reg) \<and>
     (\<forall>g c. m_clients reg g = Some c \<longrightarrow> (\<exists>x. client_heap reg c = Some x \<and> m_guid x = g)) \<and>
     1 \<le> m_curNetId reg \<and> m_curNetId reg < 0xFFFF"

lemma clients_okD:
  assumes "clients_ok reg"
  shows "slots_ok reg" "length (m_clientsBySlotId reg) \<le> MAX_CLIENTS"
    "client_heap reg c = Some x \<Longrightarrow> c < next_client reg"
    "s < length (m_clientsBySlotId reg) \<Longrightarrow> m_clientsBySlotId reg ! s = Some c \<Longrightarrow> c < next_client reg"
    "m_clients reg g = Some c \<Longrightarrow> \<exists>x. client_heap reg c = Some x \<and> m_guid x = g"
    "1 \<le> m_curNetId reg" "m_curNetId reg < 0xFFFF"
  using assms unfolding clients_ok_def by blast+

lemma clients_okI:
  assumes "slots_ok reg" "length (m_clientsBySlotId reg) \<le> MAX_CLIENTS"
    "\<And>c x. client_heap reg c = Some x \<Longrightarrow> c < next_client reg"
    "\<And>s c. s < length (m_clientsBySlotId reg) \<Longrightarrow> m_clientsBySlotId reg ! s = Some c \<Longrightarrow> c < next_client reg"
    "\<And>g c. m_clients reg g = Some c \<Longrightarrow> \<exists>x. client_heap reg c = Some x \<and> m_guid x = g"
    "1 \<le> m_curNetId reg" "m_curNetId reg < 0xFFFF"
  shows "clients_ok reg"
  using assms unfolding clients_ok_def by blast

text \<open>A change of one client that keeps what the invariant reads.\<close>

lemma change_simps [simp]:
  "next_client (change c f reg) = next_client reg" "held (change c f reg) = held reg"
  "m_clients (change c f reg) = m_clients reg" "m_clientsByNetId (change c f reg) = m_clientsByNetId reg"
  "m_clientsBySlotId (change c f reg) = m_clientsBySlotId reg" "m_curNetId (change c f reg) = m_curNetId reg"
  "client_heap (change c f reg) = (client_heap reg)(c := map_option f (client_heap reg c))"
  by (simp_all add: change_def)

lemma change_other: "m_clientsByPeer (change c f reg) = m_clientsByPeer reg"
  by (simp add: change_def)

lemma slots_ok_change:
  assumes "slots_ok reg" "\<And>x. m_slotId (f x) = m_slotId x" "client_heap reg' = (client_heap reg)(c := map_option f (client_heap reg c))"
    "m_clientsBySlotId reg' = m_clientsBySlotId reg"
  shows "slots_ok reg'"
  using assms(1,2) unfolding slots_ok_def assms(3,4) by (auto split: if_splits)

lemma clients_ok_change:
  assumes "clients_ok reg" "\<And>x. m_slotId (f x) = m_slotId x" "\<And>x. m_guid (f x) = m_guid x" "\<And>x. m_netId (f x) = m_netId x"
  shows "clients_ok (change c f reg)"
proof (rule clients_okI)
  show "slots_ok (change c f reg)" by (rule slots_ok_change[OF clients_okD(1)[OF assms(1)], where f = f]) (simp_all add: assms(2))
  show "\<exists>x. client_heap (change c f reg) d = Some x \<and> m_guid x = g" if "m_clients (change c f reg) g = Some d" for g d
    using that clients_okD(5)[OF assms(1), of g d] assms(3) by auto
qed (use clients_okD(2-4,6,7)[OF assms(1)] assms(3,4) in \<open>auto split: if_splits\<close>)

text \<open>Tables that the invariant does not read.\<close>

lemma clients_ok_frame [simp]:
  "clients_ok (reg\<lparr>m_clientsByTcpEndPoint := a\<rparr>) = clients_ok reg" "clients_ok (reg\<lparr>m_clientsByConnectionToken := b\<rparr>) = clients_ok reg"
  "clients_ok (reg\<lparr>m_clientsByConnectionTokenHash := d\<rparr>) = clients_ok reg" "clients_ok (reg\<lparr>m_clientsByPeer := e\<rparr>) = clients_ok reg"
  "clients_ok (reg\<lparr>m_hostNetId := f\<rparr>) = clients_ok reg" "clients_ok (reg\<lparr>held := g\<rparr>) = clients_ok reg"
  by (simp_all add: clients_ok_def slots_ok_def)

section \<open>Net ids\<close>

lemma clients_ok_SetNetId:
  assumes "clients_ok reg"
  shows "clients_ok (SetNetId env c n reg)"
proof -
  let ?reg = "(change c (\<lambda>x. x\<lparr>m_netId := n\<rparr>) reg)\<lparr>m_clientsByNetId := (m_clientsByNetId reg)(n \<mapsto> c)\<rparr>"
  have "clients_ok ?reg"
  proof (rule clients_okI)
    show "slots_ok ?reg"
      by (rule slots_ok_change[OF clients_okD(1)[OF assms(1)], where f = "\<lambda>x. x\<lparr>m_netId := n\<rparr>" and c = c]) simp_all
    show "\<exists>x. client_heap ?reg d = Some x \<and> m_guid x = g" if "m_clients ?reg g = Some d" for g d
      using that clients_okD(5)[OF assms(1)] by fastforce
  qed (use clients_okD(2-4,6,7)[OF assms(1)] in \<open>auto split: if_splits\<close>)
  then show ?thesis
    unfolding SetNetId_def Let_def by (intro clients_ok_change) (simp_all add: UpdateCachedPrincipalValues_def)
qed

lemma incrementId_range: "1 \<le> n \<Longrightarrow> n < 0xFFFF \<Longrightarrow> 1 \<le> incrementId n \<and> incrementId n < 0xFFFF"
proof -
  assume n: "1 \<le> n" "n < (0xFFFF :: u16)"
  have u: "unat (n + 1) = unat n + 1" using n by (simp add: word_less_nat_alt unat_plus_if_size word_size)
  have "n + 1 \<noteq> 0xFFFF \<Longrightarrow> unat (n + 1) \<noteq> 65535" by (simp add: word_unat_eq_iff)
  then show ?thesis using n u by (auto simp: incrementId_def Let_def word_le_nat_alt word_less_nat_alt)
qed

text \<open>The search visits the ids in a circle; it ends at the first that is free.\<close>

lemma funpow_incrementId:
  assumes "1 \<le> n" "n < 0xFFFF"
  shows "unat ((incrementId ^^ k) n) = (unat n - 1 + k) mod 65534 + 1"
proof (induction k)
  case 0
  have "unat n - 1 < 65534" "1 \<le> unat n" using assms by (auto simp: word_less_nat_alt word_le_nat_alt)
  then show ?case by simp
next
  case (Suc k)
  let ?m = "(incrementId ^^ k) n" and ?j = "unat n - 1 + k"
  have "?j mod 65534 < 65534" by simp
  then have u: "unat (?m + 1) = ?j mod 65534 + 2" using Suc by (simp add: unat_plus_if_size word_size)
  have eq: "?m + 1 = 0xFFFF \<longleftrightarrow> ?j mod 65534 = 65533" using u by (simp add: word_unat_eq_iff)
  have "Suc ?j mod 65534 = (if ?j mod 65534 = 65533 then 0 else Suc (?j mod 65534))" by (simp add: mod_Suc)
  moreover have "(incrementId ^^ Suc k) n = (if ?m + 1 = 0xFFFF then 1 else ?m + 1)"
    by (simp only: funpow.simps comp_apply incrementId_def[of ?m] Let_def)
  ultimately show ?case using u eq by simp
qed

lemma free_id_steps: "(\<forall>j < k. taken ((incrementId ^^ j) n)) \<Longrightarrow> \<not> taken ((incrementId ^^ k) n) \<Longrightarrow>
    free_id taken n = Some ((incrementId ^^ k) n)"
proof (induction k arbitrary: n)
  case 0
  then show ?case by (simp add: free_id.simps[of taken n])
next
  case (Suc k)
  have "taken n" using Suc.prems(1) by (metis funpow_0 zero_less_Suc)
  moreover have "\<forall>j < k. taken ((incrementId ^^ j) (incrementId n))" using Suc.prems(1) by (auto simp: funpow_swap1)
  ultimately show ?case using Suc.IH[of "incrementId n"] Suc.prems(2) by (simp add: free_id.simps[of taken n] funpow_swap1)
qed

lemma free_id_ends:
  assumes "1 \<le> n" "n < 0xFFFF" "1 \<le> m" "m < 0xFFFF" "\<not> taken m"
  shows "\<exists>i. free_id taken n = Some i \<and> \<not> taken i \<and> 1 \<le> i \<and> i < 0xFFFF"
proof -
  let ?k = "(unat m + 65534 - unat n) mod 65534"
  have u: "1 \<le> unat n" "unat n < 65535" "1 \<le> unat m" "unat m < 65535"
    using assms(1-4) by (auto simp: word_less_nat_alt word_le_nat_alt)
  have "(unat n - 1 + ?k) mod 65534 = (unat n - 1 + (unat m + 65534 - unat n)) mod 65534" by (simp add: mod_add_right_eq)
  also have "\<dots> = (unat m - 1 + 65534) mod 65534" using u by (intro arg_cong[where f = "\<lambda>x. x mod 65534"]) linarith
  also have "\<dots> = unat m - 1" unfolding mod_add_self2 using u by (intro mod_less) linarith
  finally have "unat ((incrementId ^^ ?k) n) = unat m" using funpow_incrementId[OF assms(1,2), of ?k] u by simp
  then have "(incrementId ^^ ?k) n = m" by (simp add: word_unat_eq_iff)
  then have "\<exists>k. \<not> taken ((incrementId ^^ k) n)" using assms(5) by metis
  then obtain k where k: "\<not> taken ((incrementId ^^ k) n)" "\<forall>j < k. taken ((incrementId ^^ j) n)"
    using exists_least_iff[of "\<lambda>k. \<not> taken ((incrementId ^^ k) n)"] by blast
  have "1 \<le> (incrementId ^^ k) n \<and> (incrementId ^^ k) n < 0xFFFF" for k
    by (induction k) (use assms(1,2) incrementId_range in auto)
  then show ?thesis using free_id_steps[OF k(2,1)] k(1) by blast
qed

lemma free_id_range:
  assumes "free_id taken n = Some i"
  shows "1 \<le> n \<longrightarrow> n < 0xFFFF \<longrightarrow> \<not> taken i \<and> 1 \<le> i \<and> i < 0xFFFF"
proof (rule free_id.raw_induct[where P = "\<lambda>taken n i. 1 \<le> n \<longrightarrow> n < 0xFFFF \<longrightarrow> \<not> taken i \<and> 1 \<le> i \<and> i < 0xFFFF", OF _ assms])
  fix free :: "(u16 \<Rightarrow> bool) \<Rightarrow> u16 \<Rightarrow> u16 option" and taken n i
  assume IH: "\<And>taken n y. free taken n = Some y \<Longrightarrow> 1 \<le> n \<longrightarrow> n < 0xFFFF \<longrightarrow> \<not> taken y \<and> 1 \<le> y \<and> y < 0xFFFF"
    and eq: "(if taken n then free taken (incrementId n) else Some n) = Some i"
  show "1 \<le> n \<longrightarrow> n < 0xFFFF \<longrightarrow> \<not> taken i \<and> 1 \<le> i \<and> i < 0xFFFF"
  proof (cases "taken n")
    case True
    then show ?thesis using eq IH[of taken "incrementId n" i] incrementId_range by simp
  next
    case False
    then show ?thesis using eq by simp
  qed
qed

section \<open>Every step keeps the invariant\<close>

lemma clients_ok_new: "clients_ok (new_registry env)"
  by (auto simp: clients_ok_def slots_ok_def new_registry_def MAX_CLIENTS_def)

lemma clients_ok_MakeClient:
  assumes "clients_ok reg"
  shows "clients_ok (snd (MakeClient guid reg))"
proof -
  let ?c = "next_client reg"
  have fresh: "client_heap reg ?c = None" using clients_okD(3)[OF assms, of ?c] by (cases "client_heap reg ?c") auto
  have slot: "s < length (m_clientsBySlotId reg) \<Longrightarrow> m_clientsBySlotId reg ! s \<noteq> Some ?c" for s
    using clients_okD(4)[OF assms, of s ?c] by auto
  have no: "m_clients reg g \<noteq> Some ?c" for g using clients_okD(5)[OF assms, of g ?c] fresh by auto
  show ?thesis
  proof (rule clients_okI)
    show "slots_ok (snd (MakeClient guid reg))"
      using clients_okD(1)[OF assms] fresh slot by (auto simp: slots_ok_def MakeClient_def Let_def new_client_def)
    show "\<exists>x. client_heap (snd (MakeClient guid reg)) d = Some x \<and> m_guid x = g" if "m_clients (snd (MakeClient guid reg)) g = Some d" for g d
      using that clients_okD(5)[OF assms, of g d] no by (auto simp: MakeClient_def Let_def new_client_def split: if_splits)
    show "d < next_client (snd (MakeClient guid reg))" if "client_heap (snd (MakeClient guid reg)) d = Some x" for d x
      using that clients_okD(3)[OF assms, of d x] by (auto simp: MakeClient_def Let_def split: if_splits)
    show "d < next_client (snd (MakeClient guid reg))"
      if "s < length (m_clientsBySlotId (snd (MakeClient guid reg)))" "m_clientsBySlotId (snd (MakeClient guid reg)) ! s = Some d" for s d
      using that clients_okD(4)[OF assms, of s d] by (auto simp: MakeClient_def Let_def)
  qed (use clients_okD(2,6,7)[OF assms] in \<open>auto simp: MakeClient_def Let_def\<close>)
qed

lemma free_slot_Some:
  assumes "free_slot reg = Some s"
  shows "s < length (m_clientsBySlotId reg)" "s \<noteq> 31" "lock reg (m_clientsBySlotId reg ! s) = None"
  using assms unfolding free_slot_def by (auto simp: find_Some_iff rev_nth)

lemma free_slot_None: "free_slot reg = None \<longleftrightarrow> (\<forall>s < length (m_clientsBySlotId reg). s \<noteq> 31 \<longrightarrow> lock reg (m_clientsBySlotId reg ! s) \<noteq> None)"
  unfolding free_slot_def find_None_iff by auto

lemma free_slot_highest:
  assumes "free_slot reg = Some s" "s < t" "t < length (m_clientsBySlotId reg)" "t \<noteq> 31"
  shows "lock reg (m_clientsBySlotId reg ! t) \<noteq> None"
proof -
  let ?n = "length (m_clientsBySlotId reg)"
  obtain i where i: "i < ?n" "s = ?n - Suc i"
    "\<forall>j < i. \<not> (rev [0..<?n] ! j \<noteq> 31 \<and> lock reg (m_clientsBySlotId reg ! (rev [0..<?n] ! j)) = None)"
    using assms(1) unfolding free_slot_def by (auto simp: find_Some_iff rev_nth)
  have "?n - Suc t < i" "rev [0..<?n] ! (?n - Suc t) = t" using assms(2,3) i(1,2) by (auto simp: rev_nth)
  then show ?thesis using i(3) assms(4) by metis
qed

lemma small_slot:
  assumes "s < length (m_clientsBySlotId reg)" "length (m_clientsBySlotId reg) \<le> MAX_CLIENTS"
  shows "unat (word_of_nat s :: u32) = s" "(word_of_nat s :: u32) \<noteq> - 1"
proof -
  show u: "unat (word_of_nat s :: u32) = s" using assms by (simp add: MAX_CLIENTS_def unat_of_nat take_bit_nat_eq_self_iff)
  show "(word_of_nat s :: u32) \<noteq> - 1" using u assms by (auto simp: MAX_CLIENTS_def unsigned_minus_1_eq_mask mask_eq_exp_minus_1)
qed

lemma clients_ok_slot:
  assumes ok: "clients_ok reg" and free: "free_slot reg = Some s" and x: "client_heap reg c = Some x" "m_slotId x = - 1"
  shows "clients_ok ((change c (\<lambda>x. x\<lparr>m_slotId := word_of_nat s\<rparr>) reg)\<lparr>m_clientsBySlotId := (m_clientsBySlotId reg)[s := Some c]\<rparr>)"
    (is "clients_ok ?reg")
proof (rule clients_okI)
  note s = free_slot_Some[OF free] and small = small_slot[OF _ clients_okD(2)[OF ok]]
  note slots = clients_okD(1)[OF ok, unfolded slots_ok_def]
  have other: "s' \<noteq> s \<Longrightarrow> s' < length (m_clientsBySlotId reg) \<Longrightarrow> m_clientsBySlotId reg ! s' \<noteq> Some c" for s'
    using slots x small(2)[of s'] by auto
  have held: "unat (m_slotId y) \<noteq> s" if "client_heap reg d = Some y" "m_slotId y \<noteq> - 1" for d y
    using slots s(3) that by (auto simp: lock_def alive_def)
  have "(word_of_nat s :: u32) \<noteq> 31" using small(1)[OF s(1)] s(2) by auto
  then have new: "unat (word_of_nat s :: u32) < length (m_clientsBySlotId reg)" "(word_of_nat s :: u32) \<noteq> 31" using small(1)[OF s(1)] s(1) by auto
  show "slots_ok ?reg"
    unfolding slots_ok_def
  proof (intro conjI allI impI)
    fix s' d y
    assume a: "s' < length (m_clientsBySlotId ?reg)" "m_clientsBySlotId ?reg ! s' = Some d" "client_heap ?reg d = Some y"
    show "m_slotId y = word_of_nat s'"
    proof (cases "s' = s")
      case True
      then show ?thesis using a s(1) x(1) by auto
    next
      case False
      then have "d \<noteq> c" "m_clientsBySlotId reg ! s' = Some d" "client_heap reg d = Some y" using a other[of s'] by auto
      then show ?thesis using slots a(1) by simp
    qed
  next
    fix d y
    assume a: "client_heap ?reg d = Some y" "m_slotId y \<noteq> - 1"
    have "(d = c \<and> m_slotId y = word_of_nat s) \<or> (d \<noteq> c \<and> client_heap reg d = Some y)"
      using a(1) x(1) by (auto split: if_splits)
    then consider "d = c" "m_slotId y = word_of_nat s" | "d \<noteq> c" "client_heap reg d = Some y" by blast
    note cases = this
    show "unat (m_slotId y) < length (m_clientsBySlotId ?reg)"
      using cases by cases (use new slots a(2) in auto)
    show "m_clientsBySlotId ?reg ! unat (m_slotId y) = Some d"
      using cases by cases (use new slots a(2) small(1)[OF s(1)] s(1) held[of d y] in auto)
    show "m_slotId y \<noteq> 31"
      using cases by cases (use new slots a(2) in auto)
  qed
  show "d < next_client ?reg" if "client_heap ?reg d = Some y" for d y
    using that clients_okD(3)[OF ok] by (auto split: if_splits)
  show "d < next_client ?reg" if "s' < length (m_clientsBySlotId ?reg)" "m_clientsBySlotId ?reg ! s' = Some d" for s' d
    using that clients_okD(3)[OF ok x(1)] clients_okD(4)[OF ok, of s' d] s(1) by (cases "s' = s") auto
  show "\<exists>y. client_heap ?reg d = Some y \<and> m_guid y = g" if "m_clients ?reg g = Some d" for g d
    using that clients_okD(5)[OF ok] by fastforce
qed (use clients_okD(2,6,7)[OF ok] in \<open>auto split: if_splits\<close>)

lemma clients_ok_SetPeer:
  assumes "clients_ok reg"
  shows "clients_ok (SetPeer env c p reg)"
proof -
  let ?reg = "(change c (\<lambda>x. x\<lparr>m_peer := Some p\<rparr>) reg)\<lparr>m_clientsByPeer := (m_clientsByPeer reg)(p \<mapsto> c)\<rparr>"
  have ok: "clients_ok ?reg" by (simp add: clients_ok_change[OF assms])
  have eq: "SetPeer env c p reg =
      (if \<not> IsOneSync env then ?reg
       else if (case client_heap ?reg c of None \<Rightarrow> True | Some x \<Rightarrow> m_slotId x \<noteq> - 1) then ?reg
       else case free_slot ?reg of
         None \<Rightarrow> ?reg
       | Some s \<Rightarrow> (change c (\<lambda>x. x\<lparr>m_slotId := word_of_nat s\<rparr>) ?reg)\<lparr>m_clientsBySlotId := (m_clientsBySlotId ?reg)[s := Some c]\<rparr>)"
    by (simp only: SetPeer_def Let_def change_other)
  show ?thesis
  proof (cases "free_slot ?reg")
    case None
    then show ?thesis unfolding eq using ok by (cases "client_heap ?reg c") simp_all
  next
    case (Some s)
    show ?thesis
      unfolding eq Some option.case using ok clients_ok_slot[OF ok Some]
      by (cases "client_heap ?reg c") (simp_all only: option.case split: if_split, blast+)
  qed
qed

lemma clients_ok_connecting:
  assumes "clients_ok reg" "HandleConnectingClient env c reg = Some reg'"
  shows "clients_ok reg'"
proof -
  obtain n where n: "free_id (id_taken reg) (m_curNetId reg) = Some n" "reg' = (SetNetId env c (ucast n) reg)\<lparr>m_curNetId := incrementId n\<rparr>"
    using assms(2) by (auto simp: HandleConnectingClient_def split: option.splits)
  have free: "\<not> id_taken reg n" "1 \<le> n" "n < 0xFFFF"
    using free_id_range[OF n(1)] clients_okD(6,7)[OF assms(1)] by auto
  have "clients_ok (SetNetId env c (ucast n) reg)" by (rule clients_ok_SetNetId[OF assms(1)])
  then show ?thesis
    unfolding n(2) using incrementId_range[OF free(2,3)] by (simp add: clients_ok_def slots_ok_def)
qed

lemma clients_ok_release:
  assumes "clients_ok reg"
  shows "clients_ok (release c reg)"
proof (rule clients_okI)
  show "slots_ok (release c reg)" using clients_okD(1)[OF assms] by (auto simp: release_def slots_ok_def split: if_splits)
  show "\<exists>x. client_heap (release c reg) d = Some x \<and> m_guid x = g" if "m_clients (release c reg) g = Some d" for g d
    using that clients_okD(5)[OF assms, of g d] by (auto simp: release_def ran_def)
  show "d < next_client (release c reg)" if "client_heap (release c reg) d = Some x" for d x
    using that clients_okD(3)[OF assms, of d x] by (auto simp: release_def split: if_splits)
qed (use clients_okD(2,4,6,7)[OF assms] in \<open>auto simp: release_def\<close>)

text \<open>Removing a client: its slot and its net id become free, its guid leaves the table.\<close>

definition without_aliases :: "client \<Rightarrow> registry \<Rightarrow> registry" where
  "without_aliases x reg = reg\<lparr>m_clientsByNetId := (m_clientsByNetId reg)(m_netId x := None),
     m_clients := (m_clients reg)(m_guid x := None),
     m_clientsBySlotId := (if unat (m_slotId x) < length (m_clientsBySlotId reg)
       then (m_clientsBySlotId reg)[unat (m_slotId x) := None] else m_clientsBySlotId reg)\<rparr>"

lemma clients_ok_remove:
  assumes ok: "clients_ok reg" and x: "client_heap reg c = Some x"
  shows "clients_ok (change c (\<lambda>x. x\<lparr>m_slotId := - 1\<rparr>) (without_aliases x reg))" (is "clients_ok ?reg")
proof (rule clients_okI)
  note slots = clients_okD(1)[OF ok, unfolded slots_ok_def]
  have other: "unat (m_slotId y) \<noteq> unat (m_slotId x)"
    if "d \<noteq> c" "client_heap reg d = Some y" "m_slotId y \<noteq> - 1" for d y
    using slots that x by (metis option.inject word_unat_eq_iff)
  have gone: "m_clientsBySlotId ?reg ! s \<noteq> Some c" if "s < length (m_clientsBySlotId ?reg)" for s
  proof
    assume a: "m_clientsBySlotId ?reg ! s = Some c"
    then have s: "s < length (m_clientsBySlotId reg)" "m_clientsBySlotId reg ! s = Some c" "unat (m_slotId x) \<noteq> s"
      using that by (auto simp: without_aliases_def nth_list_update split: if_splits)
    then have "m_slotId x = word_of_nat s" using slots x by blast
    then show False using s small_slot(1)[OF s(1) clients_okD(2)[OF ok]] by simp
  qed
  show "slots_ok ?reg"
    unfolding slots_ok_def
  proof (intro conjI allI impI)
    fix s d y
    assume a: "s < length (m_clientsBySlotId ?reg)" "m_clientsBySlotId ?reg ! s = Some d" "client_heap ?reg d = Some y"
    then have "d \<noteq> c" using gone by blast
    moreover have "s < length (m_clientsBySlotId reg)" "m_clientsBySlotId reg ! s = Some d"
      using a by (auto simp: without_aliases_def nth_list_update split: if_splits)
    ultimately show "m_slotId y = word_of_nat s" using a(3) slots by (auto simp: without_aliases_def)
  next
    fix d y
    assume a: "client_heap ?reg d = Some y" "m_slotId y \<noteq> - 1"
    then have d: "d \<noteq> c" "client_heap reg d = Some y" by (auto simp: without_aliases_def split: if_splits)
    show "unat (m_slotId y) < length (m_clientsBySlotId ?reg)" "m_slotId y \<noteq> 31"
      using slots d a(2) by (auto simp: without_aliases_def)
    show "m_clientsBySlotId ?reg ! unat (m_slotId y) = Some d"
      using slots d a(2) other[OF d a(2)] by (auto simp: without_aliases_def)
  qed
  show "\<exists>y. client_heap ?reg d = Some y \<and> m_guid y = g'" if "m_clients ?reg g' = Some d" for g' d
    using that clients_okD(5)[OF ok, of g' d] by (fastforce simp: without_aliases_def split: if_splits)
qed (use clients_okD(2-4,6,7)[OF ok] in \<open>auto simp: without_aliases_def nth_list_update split: if_splits\<close>)

text \<open>Another client may be registered under its guid, and dies with its place in the table unless it is held.\<close>

lemma clients_ok_dies:
  assumes "clients_ok reg" "\<And>g. m_clients reg g \<noteq> Some d"
  shows "clients_ok (reg\<lparr>client_heap := (client_heap reg)(d := None)\<rparr>)" (is "clients_ok ?reg")
proof (rule clients_okI)
  show "slots_ok ?reg" using clients_okD(1)[OF assms(1)] by (auto simp: slots_ok_def split: if_splits)
  show "\<exists>x. client_heap ?reg e = Some x \<and> m_guid x = g" if "m_clients ?reg g = Some e" for g e
    using that clients_okD(5)[OF assms(1), of g e] assms(2)[of g] by auto
qed (use clients_okD(2-4,6,7)[OF assms(1)] in \<open>auto split: if_splits\<close>)

lemma RemoveClient_form:
  assumes "RemoveClient env c reg = Some reg'"
  obtains x peers tokens hashes base where "client_heap reg c = Some x"
    "base = (change c (\<lambda>x. x\<lparr>m_slotId := - 1\<rparr>) (without_aliases x reg))\<lparr>m_clientsByPeer := peers,
       m_clientsByConnectionToken := tokens, m_clientsByConnectionTokenHash := hashes\<rparr>"
    "reg' = base \<or> (\<exists>d. d \<noteq> c \<and> m_clients reg (m_guid x) = Some d \<and> reg' = base\<lparr>client_heap := (client_heap base)(d := None)\<rparr>)"
proof -
  obtain x where x: "client_heap reg c = Some x" using assms by (auto simp: RemoveClient_def split: option.splits)
  define base where "base = (change c (\<lambda>x. x\<lparr>m_slotId := - 1\<rparr>) (without_aliases x reg))\<lparr>
       m_clientsByPeer := (m_clientsByPeer reg)(GetPeer x := None),
       m_clientsByConnectionToken := (m_clientsByConnectionToken reg)(m_connectionToken x := None),
       m_clientsByConnectionTokenHash := (m_clientsByConnectionTokenHash reg)(HashString env (m_connectionToken x) := None)\<rparr>"
  show thesis
  proof (rule that[OF x base_def])
    show "reg' = base \<or> (\<exists>d. d \<noteq> c \<and> m_clients reg (m_guid x) = Some d \<and> reg' = base\<lparr>client_heap := (client_heap base)(d := None)\<rparr>)"
      using assms x by (auto simp: RemoveClient_def Let_def erase_client_def change_def without_aliases_def base_def
        fun_upd_twist split: option.splits if_splits)
  qed
qed

lemma clients_ok_RemoveClient:
  assumes ok: "clients_ok reg" and r: "RemoveClient env c reg = Some reg'"
  shows "clients_ok reg'"
proof -
  obtain x a b e base where x: "client_heap reg c = Some x"
    and base: "base = (change c (\<lambda>x. x\<lparr>m_slotId := - 1\<rparr>) (without_aliases x reg))\<lparr>m_clientsByPeer := a,
       m_clientsByConnectionToken := b, m_clientsByConnectionTokenHash := e\<rparr>"
    and reg': "reg' = base \<or> (\<exists>d. d \<noteq> c \<and> m_clients reg (m_guid x) = Some d \<and> reg' = base\<lparr>client_heap := (client_heap base)(d := None)\<rparr>)"
    by (rule RemoveClient_form[OF r])
  have b: "clients_ok base" unfolding base using clients_ok_remove[OF ok x] by simp
  have "m_clients base g \<noteq> Some d" if "m_clients reg (m_guid x) = Some d" for g d
    using clients_okD(5)[OF ok, of g d] clients_okD(5)[OF ok that] unfolding base by (auto simp: without_aliases_def)
  then show ?thesis using reg' b clients_ok_dies[OF b] by blast
qed

lemma RemoveClient_registered:
  assumes ok: "clients_ok reg" and c: "m_clients reg g = Some c" and r: "RemoveClient env c reg = Some reg'"
  obtains x peers tokens hashes where "client_heap reg c = Some x" "m_guid x = g"
    "reg' = (change c (\<lambda>x. x\<lparr>m_slotId := - 1\<rparr>) (without_aliases x reg))\<lparr>m_clientsByPeer := peers,
       m_clientsByConnectionToken := tokens, m_clientsByConnectionTokenHash := hashes\<rparr>"
proof -
  obtain x where x: "client_heap reg c = Some x" "m_guid x = g" using clients_okD(5)[OF ok c] by blast
  show thesis
    by (rule that[OF x, where peers = "(m_clientsByPeer reg)(GetPeer x := None)"
          and tokens = "(m_clientsByConnectionToken reg)(m_connectionToken x := None)"
          and hashes = "(m_clientsByConnectionTokenHash reg)(HashString env (m_connectionToken x) := None)"])
      (use r x c in \<open>auto simp: RemoveClient_def Let_def erase_client_def change_def without_aliases_def\<close>)
qed

lemma big_temporary_id: "t < 2 ^ 32 - 2 ^ 16 \<Longrightarrow> \<not> (0x10000 + word_of_nat t :: u32) < 0xFFFF"
  by (simp add: word_less_nat_alt unat_plus_if_size word_size unat_of_nat take_bit_nat_eq_self_iff)

lemma registry_step_ok:
  assumes "registry_step env reg reg'" "clients_ok reg"
  shows "clients_ok reg'"
  using assms(1)
proof cases
  case (make guid)
  then show ?thesis using clients_ok_MakeClient[OF assms(2)] by simp
next
  case (temporary c t)
  then show ?thesis using clients_ok_SetNetId[OF assms(2)] big_temporary_id by blast
next
  case (connecting c)
  then show ?thesis using clients_ok_connecting[OF assms(2)] by blast
next
  case (peer c p)
  then show ?thesis using clients_ok_SetPeer[OF assms(2)] by simp
next
  case (token c v)
  then show ?thesis by (simp add: SetConnectionToken_def clients_ok_change[OF assms(2)])
next
  case (end_point c v)
  then show ?thesis by (simp add: SetTcpEndPoint_def clients_ok_change[OF assms(2)])
next
  case (add_identifier c i)
  then show ?thesis by (simp add: AddIdentifier_def UpdateCachedPrincipalValues_def clients_ok_change[OF assms(2)])
next
  case (dropping c)
  then show ?thesis by (simp add: SetDropping_def clients_ok_change[OF assms(2)])
next
  case (remove c)
  then show ?thesis using clients_ok_RemoveClient[OF assms(2)] by blast
next
  case (release c)
  then show ?thesis using clients_ok_release[OF assms(2)] by simp
next
  case (host client)
  then show ?thesis using assms(2) by (auto simp: SetHost_def split: option.split)
qed

lemma clients_reachable_ok: "registry_reachable env reg \<Longrightarrow> clients_ok reg"
  by (induction rule: registry_reachable.induct) (auto intro: clients_ok_new registry_step_ok)

section \<open>Net ids of registered clients\<close>

definition ids_ok :: "registry \<Rightarrow> bool" where
  "ids_ok reg \<longleftrightarrow> (\<forall>g c x. m_clients reg g = Some c \<longrightarrow> client_heap reg c = Some x \<longrightarrow> m_netId x < 0xFFFF \<longrightarrow>
     m_clientsByNetId reg (m_netId x) = Some c)"

lemma ids_okD:
  "ids_ok reg \<Longrightarrow> m_clients reg g = Some c \<Longrightarrow> client_heap reg c = Some x \<Longrightarrow> m_netId x < 0xFFFF \<Longrightarrow> m_clientsByNetId reg (m_netId x) = Some c"
  unfolding ids_ok_def by blast

lemma ids_ok_frame [simp]:
  "ids_ok (reg\<lparr>m_clientsByTcpEndPoint := a\<rparr>) = ids_ok reg" "ids_ok (reg\<lparr>m_clientsByConnectionToken := b\<rparr>) = ids_ok reg"
  "ids_ok (reg\<lparr>m_clientsByConnectionTokenHash := d\<rparr>) = ids_ok reg" "ids_ok (reg\<lparr>m_clientsByPeer := e\<rparr>) = ids_ok reg"
  "ids_ok (reg\<lparr>m_hostNetId := f\<rparr>) = ids_ok reg" "ids_ok (reg\<lparr>m_clientsBySlotId := h\<rparr>) = ids_ok reg"
  "ids_ok (reg\<lparr>m_curNetId := i\<rparr>) = ids_ok reg"
  by (simp_all add: ids_ok_def)

lemma ids_ok_change:
  assumes "ids_ok reg" "\<And>x. m_netId (f x) = m_netId x"
  shows "ids_ok (change c f reg)"
  using assms by (auto simp: ids_ok_def split: if_splits)

text \<open>A net id is given to a client when no other registered client has it.\<close>

lemma ids_ok_SetNetId:
  assumes "ids_ok reg"
    and "\<And>g d x. m_clients reg g = Some d \<Longrightarrow> client_heap reg d = Some x \<Longrightarrow> m_netId x = n \<Longrightarrow> n < 0xFFFF \<Longrightarrow> d = c"
  shows "ids_ok (SetNetId env c n reg)"
proof -
  have "ids_ok ((change c (\<lambda>x. x\<lparr>m_netId := n\<rparr>) reg)\<lparr>m_clientsByNetId := (m_clientsByNetId reg)(n \<mapsto> c)\<rparr>)"
    using assms by (auto simp: ids_ok_def split: if_splits)
  then show ?thesis unfolding SetNetId_def Let_def change_simps(4) by (intro ids_ok_change) (simp_all add: UpdateCachedPrincipalValues_def)
qed

lemma ids_ok_SetPeer: "ids_ok reg \<Longrightarrow> ids_ok (SetPeer env c p reg)"
  by (auto simp: SetPeer_def Let_def ids_ok_change split: option.split)

lemma ids_ok_RemoveClient:
  assumes ok: "clients_ok reg" and ids: "ids_ok reg" and r: "RemoveClient env c reg = Some reg'" and own: "own_id reg c"
  shows "ids_ok reg'"
proof -
  obtain x a b e base where x: "client_heap reg c = Some x"
    and base: "base = (change c (\<lambda>x. x\<lparr>m_slotId := - 1\<rparr>) (without_aliases x reg))\<lparr>m_clientsByPeer := a,
       m_clientsByConnectionToken := b, m_clientsByConnectionTokenHash := e\<rparr>"
    and reg': "reg' = base \<or> (\<exists>d. d \<noteq> c \<and> m_clients reg (m_guid x) = Some d \<and> reg' = base\<lparr>client_heap := (client_heap base)(d := None)\<rparr>)"
    by (rule RemoveClient_form[OF r])
  have "ids_ok base"
    unfolding ids_ok_def
  proof (intro allI impI)
    fix g d y
    assume g: "m_clients base g = Some d" and y: "client_heap base d = Some y" and n: "m_netId y < 0xFFFF"
    have g': "m_clients reg g = Some d" "g \<noteq> m_guid x" using g by (auto simp: base without_aliases_def split: if_splits)
    have d: "d \<noteq> c" using clients_okD(5)[OF ok g'(1)] g'(2) x by auto
    then have y': "client_heap reg d = Some y" using y by (auto simp: base without_aliases_def)
    have m: "m_clientsByNetId reg (m_netId y) = Some d" by (rule ids_okD[OF ids g'(1) y' n])
    moreover have "m_netId y \<noteq> m_netId x" using own x m d y' by (auto simp: own_id_def GetClientByNetID_def lock_def alive_def split: option.splits)
    ultimately show "m_clientsByNetId base (m_netId y) = Some d" by (simp add: base without_aliases_def)
  qed
  then show ?thesis using reg' by (auto simp: ids_ok_def split: if_splits)
qed

lemma registry_step_ids:
  assumes step: "registry_step env reg reg'" and ok: "clients_ok reg" and ids: "ids_ok reg"
    and own: "\<And>c. RemoveClient env c reg = Some reg' \<Longrightarrow> own_id reg c"
  shows "ids_ok reg'"
  using step
proof cases
  case (make guid)
  have "client_heap reg (next_client reg) = None" using clients_okD(3)[OF ok, of "next_client reg"] by (cases "client_heap reg (next_client reg)") auto
  then have "m_clients reg g \<noteq> Some (next_client reg)" for g using clients_okD(5)[OF ok, of g "next_client reg"] by auto
  then show ?thesis using ids make by (auto simp: ids_ok_def MakeClient_def Let_def new_client_def split: if_splits)
next
  case (temporary c t)
  then show ?thesis using ids_ok_SetNetId[OF ids] big_temporary_id by blast
next
  case (connecting c)
  then obtain n where n: "free_id (id_taken reg) (m_curNetId reg) = Some n" "reg' = (SetNetId env c (ucast n) reg)\<lparr>m_curNetId := incrementId n\<rparr>"
    by (auto simp: HandleConnectingClient_def split: option.splits)
  have free: "\<not> id_taken reg n" using free_id_range[OF n(1)] clients_okD(6,7)[OF ok] by auto
  have "ids_ok (SetNetId env c (ucast n) reg)"
  proof (rule ids_ok_SetNetId[OF ids])
    fix g d x
    assume "m_clients reg g = Some d" "client_heap reg d = Some x" "m_netId x = ucast n" "ucast n < (0xFFFF :: u32)"
    then show "d = c" using ids_okD[OF ids, of g d x] free by (auto simp: id_taken_def lock_def alive_def)
  qed
  then show ?thesis using n(2) by simp
next
  case (peer c p)
  then show ?thesis using ids_ok_SetPeer[OF ids] by simp
next
  case (remove c)
  then show ?thesis using ids_ok_RemoveClient[OF ok ids] own by blast
next
  case (release c)
  then show ?thesis using ids by (auto simp: ids_ok_def release_def split: if_splits)
qed (use ids in \<open>auto simp: SetConnectionToken_def SetTcpEndPoint_def AddIdentifier_def SetDropping_def SetHost_def UpdateCachedPrincipalValues_def
  intro: ids_ok_change split: option.split\<close>)

lemma orderly_registry: "orderly_reachable env reg \<Longrightarrow> registry_reachable env reg"
  by (induction rule: orderly_reachable.induct) (auto intro: registry_reachable.intros)

lemma orderly_ids_ok: "orderly_reachable env reg \<Longrightarrow> ids_ok reg"
proof (induction rule: orderly_reachable.induct)
  case start
  then show ?case by (simp add: ids_ok_def new_registry_def)
next
  case (step reg reg')
  then show ?case using registry_step_ids[OF step(2) clients_reachable_ok[OF orderly_registry[OF step(1)]]] by blast
qed

text \<open>A step that leaves a table in which every client is registered and nothing was erased is no removal.\<close>

lemma RemoveClient_unregisters:
  assumes "RemoveClient env c reg = Some reg'" "client_heap reg c = Some x"
  shows "m_clients reg' (m_guid x) = None" "next_client reg' = next_client reg"
  by (rule RemoveClient_form[OF assms(1)]; use assms(2) in \<open>auto simp: without_aliases_def\<close>)+

section \<open>Cached principals\<close>

text \<open>The principals of a client are those of its identifiers and its present net id, once it has one of these.\<close>

definition principals_ok :: "server_env \<Rightarrow> client \<Rightarrow> bool" where
  "principals_ok env x \<longleftrightarrow> m_principals x = m_principals (UpdateCachedPrincipalValues env x) \<or>
     m_principals x = [] \<and> m_identifiers x = [] \<and> m_netId x = 0xFFFF"

lemma principals_ok_update [simp]: "principals_ok env (UpdateCachedPrincipalValues env x)" "principals_ok env (new_client guid)"
  by (simp_all add: principals_ok_def UpdateCachedPrincipalValues_def new_client_def)

lemma principals_ok_fields [simp]:
  "principals_ok env (x\<lparr>m_peer := a\<rparr>) = principals_ok env x" "principals_ok env (x\<lparr>m_slotId := b\<rparr>) = principals_ok env x"
  "principals_ok env (x\<lparr>m_dropping := d\<rparr>) = principals_ok env x" "principals_ok env (x\<lparr>m_connectionToken := e\<rparr>) = principals_ok env x"
  "principals_ok env (x\<lparr>m_tcpEndPoint := f\<rparr>) = principals_ok env x"
  by (simp_all add: principals_ok_def UpdateCachedPrincipalValues_def)

lemma principals_ok_change:
  assumes "\<forall>c x. client_heap reg c = Some x \<longrightarrow> principals_ok env x" "\<And>x. principals_ok env x \<Longrightarrow> principals_ok env (f x)"
  shows "\<forall>d x. client_heap (change c f reg) d = Some x \<longrightarrow> principals_ok env x"
  using assms by auto

lemma principals_ok_SetNetId:
  assumes "\<forall>c x. client_heap reg c = Some x \<longrightarrow> principals_ok env x"
  shows "\<forall>d x. client_heap (SetNetId env c n reg) d = Some x \<longrightarrow> principals_ok env x"
  using assms by (auto simp: SetNetId_def Let_def)

lemma registry_step_principals:
  assumes "registry_step env reg reg'" "\<forall>c x. client_heap reg c = Some x \<longrightarrow> principals_ok env x"
  shows "\<forall>c x. client_heap reg' c = Some x \<longrightarrow> principals_ok env x"
  using assms(1)
proof cases
  case (temporary c t)
  then show ?thesis using principals_ok_SetNetId[OF assms(2)] by simp
next
  case (connecting c)
  then obtain n m where "reg' = (SetNetId env c n reg)\<lparr>m_curNetId := m\<rparr>" by (auto simp: HandleConnectingClient_def split: option.splits)
  then show ?thesis using principals_ok_SetNetId[OF assms(2), of c n] by simp
next
  case (peer c p)
  then show ?thesis using assms(2) by (auto simp: SetPeer_def Let_def split: option.splits if_splits)
next
  case (remove c)
  then show ?thesis using assms(2) by (auto simp: RemoveClient_def Let_def erase_client_def split: option.splits if_splits)
qed (use assms(2) in \<open>auto simp: MakeClient_def Let_def SetConnectionToken_def SetTcpEndPoint_def AddIdentifier_def SetDropping_def
  release_def SetHost_def split: option.splits if_splits\<close>)

lemma reachable_principals: "registry_reachable env reg \<Longrightarrow> \<forall>c x. client_heap reg c = Some x \<longrightarrow> principals_ok env x"
proof (induction rule: registry_reachable.induct)
  case start
  then show ?case by (simp add: new_registry_def)
next
  case (step reg reg')
  then show ?case using registry_step_principals by blast
qed

section \<open>A client joins\<close>

definition sample_env :: server_env where
  "sample_env = \<lparr>IsOneSync = True, IsBigMode = False, HashString = (\<lambda>_. 0), print_id = (\<lambda>_. [])\<rparr>"

definition sample_made :: registry where
  "sample_made = SetNetId sample_env 0 0x10000 (snd (MakeClient [1] (new_registry sample_env)))"

definition sample_connected :: registry where
  "sample_connected = (SetNetId sample_env 0 1 sample_made)\<lparr>m_curNetId := 2\<rparr>"

definition sample_joined :: registry where
  "sample_joined = SetPeer sample_env 0 7 sample_connected"

lemma sample_made_orderly: "orderly_reachable sample_env sample_made"
proof -
  let ?made = "snd (MakeClient [1] (new_registry sample_env))"
  have made_values: "next_client ?made = 1" "client_heap ?made c = (if c = 0 then Some (new_client [1]) else None)" "m_clients ?made [1] = Some 0" for c
    by (simp_all add: MakeClient_def Let_def new_registry_def)
  have made: "orderly_reachable sample_env ?made"
    by (rule orderly_reachable.step[OF orderly_reachable.start registry_step.make]) (simp add: RemoveClient_def new_registry_def)
  have "registry_step sample_env ?made (SetNetId sample_env 0 (0x10000 + word_of_nat 0) ?made)"
    by (rule registry_step.temporary) (simp_all add: alive_def made_values)
  moreover have "RemoveClient sample_env c ?made \<noteq> Some (SetNetId sample_env 0 n ?made)" for c n
  proof
    assume a: "RemoveClient sample_env c ?made = Some (SetNetId sample_env 0 n ?made)"
    then have "c = 0" by (auto simp: RemoveClient_def made_values split: if_splits)
    then show False using RemoveClient_unregisters(1)[OF a, of "new_client [1]"] by (simp add: made_values new_client_def SetNetId_def Let_def)
  qed
  ultimately show ?thesis using orderly_reachable.step[OF made] by (simp add: sample_made_def)
qed

lemmas sample_made_reachable = orderly_registry[OF sample_made_orderly]

lemma sample_made_values: "alive sample_made 0" "GetClientByGuid [1] sample_made = Some 0" "\<not> id_taken sample_made 1"
    "m_curNetId sample_made = 1" "alive sample_connected 0"
  by code_simp+

lemma sample_connects: "HandleConnectingClient sample_env 0 sample_made = Some sample_connected"
  using free_id.simps[of "id_taken sample_made" 1] sample_made_values(3,4)
  by (simp add: HandleConnectingClient_def sample_connected_def incrementId_def)

lemma sample_joined_values:
  "map_option m_slotId (client_heap sample_joined 0) = Some 128" "map_option m_netId (client_heap sample_joined 0) = Some 1"
  "GetClientByGuid [1] sample_joined = Some 0"
  by code_simp+

lemma only_one_client:
  assumes "orderly_reachable sample_env reg" "registry_step sample_env reg reg'" "m_clients reg' [1] = Some 0"
    and "\<And>c x. client_heap reg c = Some x \<Longrightarrow> m_guid x = [1]"
  shows "orderly_reachable sample_env reg'"
proof (rule orderly_reachable.step[OF assms(1,2)], intro allI impI)
  fix c
  assume r: "RemoveClient sample_env c reg = Some reg'"
  then obtain x where "client_heap reg c = Some x" by (auto simp: RemoveClient_def split: option.splits)
  then show "own_id reg c" using RemoveClient_unregisters(1)[OF r] assms(3,4) by fastforce
qed

lemma sample_heaps:
  "client_heap sample_made c = Some x \<Longrightarrow> m_guid x = [1]" "client_heap sample_connected c = Some x \<Longrightarrow> m_guid x = [1]"
  by (auto simp: sample_made_def sample_connected_def SetNetId_def Let_def MakeClient_def new_registry_def new_client_def
    UpdateCachedPrincipalValues_def split: if_splits)

lemma sample_joined_orderly: "orderly_reachable sample_env sample_joined"
proof -
  have "m_clients sample_connected [1] = Some 0" by code_simp
  then have c: "orderly_reachable sample_env sample_connected"
    by (rule only_one_client[OF sample_made_orderly registry_step.connecting[OF sample_made_values(1) sample_connects] _ sample_heaps(1)])
  have "m_clients sample_joined [1] = Some 0" by code_simp
  then show ?thesis unfolding sample_joined_def
    by (intro only_one_client[OF c registry_step.peer[OF sample_made_values(5)] _ sample_heaps(2)])
qed

lemmas sample_joined_reachable = orderly_registry[OF sample_joined_orderly]

section \<open>Lookups\<close>

lemma slot_of_client:
  assumes "clients_ok reg" "client_heap reg c = Some x" "m_slotId x \<noteq> - 1"
  shows "GetClientBySlotID (unat (m_slotId x)) reg = Some c" "unat (m_slotId x) < length (m_clientsBySlotId reg)" "m_slotId x \<noteq> 31"
  using clients_okD(1)[OF assms(1)] assms(2,3) by (auto simp: slots_ok_def GetClientBySlotID_def lock_def alive_def)

text \<open>C23: In every registry the server can reach, a live client that has a slot is the client found there, the
  slot is inside the table and is not 31; so two live clients never share a slot.
\<close>

theorem slots_exclusive:
  assumes "registry_reachable env reg" "client_heap reg c = Some x" "m_slotId x \<noteq> - 1"
  shows "GetClientBySlotID (unat (m_slotId x)) reg = Some c \<and> unat (m_slotId x) < length (m_clientsBySlotId reg) \<and> m_slotId x \<noteq> 31 \<and>
    (\<forall>d y. client_heap reg d = Some y \<and> m_slotId y = m_slotId x \<longrightarrow> d = c)"
  using slot_of_client[OF clients_reachable_ok[OF assms(1)]] assms(2,3) by (metis option.inject)

lemma slots_exclusive_witness: "GetClientBySlotID 128 sample_joined = Some 0"
proof -
  obtain x where x: "client_heap sample_joined 0 = Some x" "m_slotId x = 128" using sample_joined_values(1) by auto
  then show ?thesis using slots_exclusive[OF sample_joined_reachable x(1)] by simp
qed

text \<open>C24: As long as no client is removed again after its net id was given to another one, a registered client
  with an assigned net id is the client found by that id, so two registered clients never share one; and a registered client is
  found by its guid.
\<close>

theorem net_id_finds_client:
  assumes "orderly_reachable env reg" "GetClientByGuid g reg = Some c"
  shows "\<exists>x. client_heap reg c = Some x \<and> m_guid x = g \<and> (m_netId x < 0xFFFF \<longrightarrow> GetClientByNetID (m_netId x) reg = Some c)"
proof -
  note ok = clients_reachable_ok[OF orderly_registry[OF assms(1)]]
  obtain x where x: "client_heap reg c = Some x" "m_guid x = g" using clients_okD(5)[OF ok] assms(2) unfolding GetClientByGuid_def by blast
  then show ?thesis using ids_okD[OF orderly_ids_ok[OF assms(1)]] assms(2) by (auto simp: GetClientByGuid_def GetClientByNetID_def lock_def alive_def)
qed

lemma connecting_result:
  assumes ok: "clients_ok reg" and x: "client_heap reg c = Some x"
    and m: "1 \<le> m" "m < 0xFFFF" "\<not> id_taken reg m"
  shows "\<exists>reg' (n :: u16) x'. HandleConnectingClient env c reg = Some reg' \<and> client_heap reg' c = Some x' \<and> m_netId x' = ucast n \<and>
    1 \<le> n \<and> n < 0xFFFF \<and> GetClientByNetID (ucast n) reg = None \<and> GetClientByNetID (ucast n) reg' = Some c"
proof -
  obtain n where n: "free_id (id_taken reg) (m_curNetId reg) = Some n" "\<not> id_taken reg n" "1 \<le> n" "n < 0xFFFF"
    using free_id_ends[where taken = "id_taken reg", OF clients_okD(6,7)[OF ok] m] by blast
  let ?y = "UpdateCachedPrincipalValues env (x\<lparr>m_netId := ucast n\<rparr>)"
  have "client_heap ((SetNetId env c (ucast n) reg)\<lparr>m_curNetId := incrementId n\<rparr>) c = Some ?y"
    "m_clientsByNetId ((SetNetId env c (ucast n) reg)\<lparr>m_curNetId := incrementId n\<rparr>) (ucast n) = Some c"
    "m_netId ?y = ucast n" "lock reg (m_clientsByNetId reg (ucast n)) = None"
    using x n(2) by (auto simp: SetNetId_def Let_def change_def UpdateCachedPrincipalValues_def id_taken_def)
  then have "HandleConnectingClient env c reg = Some ((SetNetId env c (ucast n) reg)\<lparr>m_curNetId := incrementId n\<rparr>)"
    "GetClientByNetID (ucast n) reg = None"
    "GetClientByNetID (ucast n) ((SetNetId env c (ucast n) reg)\<lparr>m_curNetId := incrementId n\<rparr>) = Some c"
    using n(1) by (simp_all add: HandleConnectingClient_def GetClientByNetID_def lock_def alive_def)
  then show ?thesis using n(3,4) \<open>client_heap _ c = Some ?y\<close> \<open>m_netId ?y = ucast n\<close> by blast
qed

lemma net_id_finds_client_witness: "GetClientByNetID 1 sample_joined = Some 0"
  using net_id_finds_client[OF sample_joined_orderly sample_joined_values(3)] sample_joined_values(2) by auto

text \<open>C25: As long as one of the ids 1 to 0xFFFE is free, the search for a net id ends; the connecting client
  gets an id of that range by which no live client was found, and is found by it. When none is free
  the search does not end.
\<close>

theorem connecting_gets_free_id:
  assumes "registry_reachable env reg" "client_heap reg c = Some x"
  shows "if \<exists>m. 1 \<le> m \<and> m < 0xFFFF \<and> \<not> id_taken reg m
    then \<exists>reg' (n :: u16) x'. HandleConnectingClient env c reg = Some reg' \<and> client_heap reg' c = Some x' \<and> m_netId x' = ucast n \<and>
      1 \<le> n \<and> n < 0xFFFF \<and> GetClientByNetID (ucast n) reg = None \<and> GetClientByNetID (ucast n) reg' = Some c
    else HandleConnectingClient env c reg = None"
proof -
  note ok = clients_reachable_ok[OF assms(1)]
  have "free_id (id_taken reg) (m_curNetId reg) = None" if "\<not> (\<exists>m. 1 \<le> m \<and> m < 0xFFFF \<and> \<not> id_taken reg m)"
    using that free_id_range clients_okD(6,7)[OF ok] by (cases "free_id (id_taken reg) (m_curNetId reg)") blast+
  then show ?thesis using connecting_result[OF ok assms(2)] by (auto simp: HandleConnectingClient_def)
qed

lemma connecting_gets_free_id_witness: "\<exists>reg' n x'. HandleConnectingClient sample_env 0 sample_made = Some reg' \<and>
    client_heap reg' 0 = Some x' \<and> m_netId x' = ucast (n :: u16) \<and> GetClientByNetID (ucast n) reg' = Some 0"
proof -
  obtain x where x: "client_heap sample_made 0 = Some x" using sample_made_values(1) by (auto simp: alive_def)
  have "\<exists>m. 1 \<le> m \<and> m < 0xFFFF \<and> \<not> id_taken sample_made m" using sample_made_values(3) by (intro exI[of _ 1]) simp
  then show ?thesis using connecting_gets_free_id[OF sample_made_reachable x] by auto
qed

text \<open>A peer gives a client without a slot the highest free slot but 31; a client that has a slot (a
  reconnecting one) keeps it, and when no slot is free the client stays without one, for which the
  server turns it away.
\<close>

theorem peer_takes_highest_slot:
  assumes "registry_reachable env reg" "IsOneSync env" "client_heap reg c = Some x" "SetPeer env c p reg = reg'"
  shows "\<exists>y. client_heap reg' c = Some y \<and> GetPeer y = p \<and> GetClientByPeer p reg' = Some c \<and>
    (if m_slotId x \<noteq> - 1 then m_slotId y = m_slotId x
     else if \<forall>s < length (m_clientsBySlotId reg). s \<noteq> 31 \<longrightarrow> GetClientBySlotID s reg \<noteq> None then m_slotId y = - 1
     else \<exists>s. m_slotId y = word_of_nat s \<and> s < length (m_clientsBySlotId reg) \<and> s \<noteq> 31 \<and> GetClientBySlotID s reg = None \<and>
       GetClientBySlotID s reg' = Some c \<and> (\<forall>t. s < t \<and> t < length (m_clientsBySlotId reg) \<and> t \<noteq> 31 \<longrightarrow> GetClientBySlotID t reg \<noteq> None))"
proof -
  let ?reg = "(change c (\<lambda>x. x\<lparr>m_peer := Some p\<rparr>) reg)\<lparr>m_clientsByPeer := (m_clientsByPeer reg)(p \<mapsto> c)\<rparr>"
  have found: "GetClientBySlotID s ?reg = GetClientBySlotID s reg" for s
    by (cases "m_clientsBySlotId reg ! s") (auto simp: GetClientBySlotID_def lock_def alive_def)
  have x: "client_heap ?reg c = Some (x\<lparr>m_peer := Some p\<rparr>)" using assms(3) by simp
  have eq: "reg' = (if m_slotId x \<noteq> - 1 then ?reg else case free_slot ?reg of None \<Rightarrow> ?reg
      | Some s \<Rightarrow> (change c (\<lambda>x. x\<lparr>m_slotId := word_of_nat s\<rparr>) ?reg)\<lparr>m_clientsBySlotId := (m_clientsBySlotId ?reg)[s := Some c]\<rparr>)"
    using assms(2,3) unfolding assms(4)[symmetric] SetPeer_def Let_def change_other by simp
  show ?thesis
  proof (cases "m_slotId x \<noteq> - 1 \<or> free_slot ?reg = None")
    case True
    then have "reg' = ?reg" using eq by auto
    moreover have "\<forall>s < length (m_clientsBySlotId reg). s \<noteq> 31 \<longrightarrow> GetClientBySlotID s reg \<noteq> None" if "m_slotId x = - 1"
      using True that found by (auto simp: free_slot_None GetClientBySlotID_def)
    ultimately show ?thesis using x by (auto simp: GetPeer_def GetClientByPeer_def lock_def alive_def)
  next
    case False
    then obtain s where s: "free_slot ?reg = Some s" by blast
    note fs = free_slot_Some[OF s] free_slot_highest[OF s]
    have "reg' = (change c (\<lambda>x. x\<lparr>m_slotId := word_of_nat s\<rparr>) ?reg)\<lparr>m_clientsBySlotId := (m_clientsBySlotId ?reg)[s := Some c]\<rparr>"
      using eq s False by simp
    then have "client_heap reg' c = Some (x\<lparr>m_peer := Some p, m_slotId := word_of_nat s\<rparr>)" "GetClientByPeer p reg' = Some c"
      "GetClientBySlotID s reg' = Some c"
      using assms(3) fs(1) by (simp_all add: GetClientByPeer_def GetClientBySlotID_def lock_def alive_def change_other)
    moreover have "GetClientBySlotID s reg = None" "\<forall>t. s < t \<and> t < length (m_clientsBySlotId reg) \<and> t \<noteq> 31 \<longrightarrow> GetClientBySlotID t reg \<noteq> None"
      using fs found by (auto simp: GetClientBySlotID_def)
    ultimately show ?thesis
      using fs(1,2) False by (intro exI[of _ "x\<lparr>m_peer := Some p, m_slotId := word_of_nat s\<rparr>"]) (auto simp: GetPeer_def)
  qed
qed

lemma peer_takes_highest_slot_witness: "GetClientByPeer 7 (SetPeer sample_env 0 7 sample_made) = Some 0"
proof -
  obtain x where x: "client_heap sample_made 0 = Some x" using sample_made_values(1) by (auto simp: alive_def)
  have "IsOneSync sample_env" by (simp add: sample_env_def)
  then show ?thesis using peer_takes_highest_slot[OF sample_made_reachable _ x refl, where p = 7] by auto
qed

text \<open>C26: A removed client is found no more: not by its guid, its net id, its token or its peer, and its slot
  and net id are free for others; other clients keep their slots and are found as before.
\<close>

theorem removed_client_not_found:
  assumes "registry_reachable env reg" "GetClientByGuid g reg = Some c" "RemoveClient env c reg = Some reg'" "client_heap reg c = Some x"
  shows "GetClientByGuid g reg' = None \<and> GetClientByNetID (m_netId x) reg' = None \<and>
    GetClientByConnectionToken (m_connectionToken x) reg' = None \<and> GetClientByPeer (GetPeer x) reg' = None \<and>
    (m_slotId x \<noteq> - 1 \<longrightarrow> GetClientBySlotID (unat (m_slotId x)) reg' = None) \<and>
    (\<forall>h d. h \<noteq> g \<longrightarrow> (GetClientByGuid h reg' = Some d \<longleftrightarrow> GetClientByGuid h reg = Some d)) \<and>
    (\<forall>d. d \<noteq> c \<longrightarrow> client_heap reg' d = client_heap reg d)"
proof -
  note ok = clients_reachable_ok[OF assms(1)]
  have c: "m_clients reg g = Some c" "m_guid x = g" using assms(2,4) clients_okD(5)[OF ok, of g c] by (auto simp: GetClientByGuid_def)
  have slot: "unat (m_slotId x) < length (m_clientsBySlotId reg)" if "m_slotId x \<noteq> - 1" by (rule slot_of_client(2)[OF ok assms(4) that])
  have "reg' = (change c (\<lambda>x. x\<lparr>m_slotId := - 1\<rparr>) (without_aliases x reg))\<lparr>
       m_clientsByPeer := (m_clientsByPeer reg)(GetPeer x := None),
       m_clientsByConnectionToken := (m_clientsByConnectionToken reg)(m_connectionToken x := None),
       m_clientsByConnectionTokenHash := (m_clientsByConnectionTokenHash reg)(HashString env (m_connectionToken x) := None)\<rparr>"
    using assms(3,4) c by (auto simp: RemoveClient_def Let_def erase_client_def change_def without_aliases_def)
  then show ?thesis
    using c slot by (auto simp: without_aliases_def GetClientByGuid_def GetClientByNetID_def GetClientByPeer_def
      GetClientByConnectionToken_def GetClientBySlotID_def lock_def)
qed

lemma removed_client_not_found_witness: "\<exists>reg'. RemoveClient sample_env 0 sample_joined = Some reg' \<and> GetClientByGuid [1] reg' = None \<and>
    GetClientByNetID 1 reg' = None \<and> GetClientBySlotID 128 reg' = None"
proof -
  obtain x where x: "client_heap sample_joined 0 = Some x" "m_slotId x = 128" "m_netId x = 1"
    using sample_joined_values(1,2) by auto
  then obtain reg' where "RemoveClient sample_env 0 sample_joined = Some reg'" by (auto simp: RemoveClient_def Let_def)
  then show ?thesis using removed_client_not_found[OF sample_joined_reachable sample_joined_values(3) _ x(1)] x(2,3) by auto
qed

text \<open>A client that is made while its guid still has a registered client is not registered; when the
  old client is removed afterwards (\<open>DropClient\<close> removes it later, on the main thread) the guid finds nobody, and the
  new client dies with the reference of its connection.
\<close>

theorem late_drop_loses_new_client:
  assumes "registry_reachable env reg" "GetClientByGuid g reg = Some old" "MakeClient g reg = (new, reg1)"
    "RemoveClient env old reg1 = Some reg2"
  shows "GetClientByGuid g reg1 = Some old \<and> alive reg1 new \<and> GetClientByGuid g reg2 = None \<and> alive reg2 new \<and>
    \<not> alive (release new reg2) new"
proof -
  note ok = clients_reachable_ok[OF assms(1)]
  have old: "m_clients reg g = Some old" using assms(2) by (simp add: GetClientByGuid_def)
  have new: "new = next_client reg" "reg1 = snd (MakeClient g reg)" using assms(3) by (auto simp: MakeClient_def Let_def)
  have fresh: "m_clients reg h \<noteq> Some new" for h
    using clients_okD(5)[OF ok, of h new] clients_okD(3)[OF ok, of new] new(1) by auto
  have reg1: "m_clients reg1 = m_clients reg" "alive reg1 new" "clients_ok reg1"
    using old clients_ok_MakeClient[OF ok, of g] unfolding new by (simp_all add: MakeClient_def Let_def alive_def)
  obtain x a b d where r: "client_heap reg1 old = Some x" "m_guid x = g"
    "reg2 = (change old (\<lambda>x. x\<lparr>m_slotId := - 1\<rparr>) (without_aliases x reg1))\<lparr>m_clientsByPeer := a,
       m_clientsByConnectionToken := b, m_clientsByConnectionTokenHash := d\<rparr>"
    using RemoveClient_registered[OF reg1(3) _ assms(4), of g] old reg1(1) by metis
  have m: "m_clients reg2 = (m_clients reg)(g := None)" using r reg1(1) by (simp add: without_aliases_def)
  then have "new \<notin> ran (m_clients reg2)" using fresh by (auto simp: ran_def split: if_splits)
  then show ?thesis using old m reg1 r fresh[of g] by (auto simp: GetClientByGuid_def alive_def release_def without_aliases_def)
qed

lemma late_drop_loses_new_client_witness: "\<exists>reg2. RemoveClient sample_env 0 (snd (MakeClient [1] sample_joined)) = Some reg2 \<and>
    GetClientByGuid [1] reg2 = None \<and> \<not> alive (release 1 reg2) 1"
proof -
  let ?reg1 = "snd (MakeClient [1] sample_joined)"
  have "next_client sample_joined = 1" by code_simp
  then have m: "MakeClient [1] sample_joined = (1, ?reg1)" by (simp add: MakeClient_def Let_def)
  have "alive ?reg1 0" by code_simp
  then obtain reg2 where "RemoveClient sample_env 0 ?reg1 = Some reg2" by (auto simp: alive_def RemoveClient_def Let_def)
  then show ?thesis using late_drop_loses_new_client[OF sample_joined_reachable sample_joined_values(3) m(1)] by auto
qed

text \<open>C27: The cached principals of a client never lag behind: in every reachable registry a client acts as
  exactly its identifiers and the player of its present net id, so a client that moved from its
  temporary to its final id no longer acts as the temporary player.
\<close>

theorem principals_follow_identity:
  assumes "registry_reachable env reg" "client_heap reg c = Some x" "m_identifiers x \<noteq> [] \<or> m_netId x \<noteq> 0xFFFF"
  shows "set (m_principals x) = (\<lambda>i. Principal (str_of ''identifier.'' @ i)) ` set (m_identifiers x) \<union>
    {Principal (str_of ''player.'' @ print_id env (m_netId x))}"
proof -
  have "m_principals x = m_principals (UpdateCachedPrincipalValues env x)"
    using reachable_principals[OF assms(1)] assms(2,3) by (auto simp: principals_ok_def)
  then show ?thesis by (simp only: UpdateCachedPrincipalValues_def) simp
qed

lemma principals_follow_identity_witness: "map_option (\<lambda>x. set (m_principals x)) (client_heap sample_joined 0) =
    Some ((\<lambda>i. Principal (str_of ''identifier.'' @ i)) ` set [] \<union> {Principal (str_of ''player.'' @ print_id sample_env 1)})"
proof -
  obtain x where x: "client_heap sample_joined 0 = Some x" "m_netId x = 1" using sample_joined_values(2) by auto
  have "map_option m_identifiers (client_heap sample_joined 0) = Some []" by code_simp
  then show ?thesis using principals_follow_identity[OF sample_joined_reachable x(1)] x by simp
qed

end
