(* ===== verification/Connection_Properties.thy ===== *)
theory Connection_Properties
  imports Client_Connection Client_Registry_Properties
begin

text \<open>
  What the deferral decides, that a request is answered once, who may pass the validation, and that a client
  that was turned away is not let in by the handshake, whatever happens in between.
\<close>

section \<open>The verdict of the deferrals\<close>

lemma scan_states_value:
  "scan_states dss msg allDone =
    (case filter ds_rejected dss of
       [] \<Rightarrow> (msg @ concat (map progress_line (filter (\<lambda>ds. \<not> ds_done ds) dss)), allDone \<and> list_all ds_done dss, None)
     | ds # _ \<Rightarrow> (fst (scan_states dss msg allDone), fst (snd (scan_states dss msg allDone)), Some (message ds)))"
  by (induction dss arbitrary: msg allDone) (auto simp: Let_def split: list.splits)

lemma UpdateDeferrals_value:
  assumes "m_ranEvents d" "dss = map snd (m_deferralStates d)"
  shows "UpdateDeferrals d =
    (case filter ds_rejected dss of
       ds # _ \<Rightarrow> (d\<lparr>m_completed := True\<rparr>, [Reject (message ds)])
     | [] \<Rightarrow> if list_all ds_done dss then (d\<lparr>m_completed := True\<rparr>, [Resolve])
            else (d, [Progress (concat (map progress_line (filter (\<lambda>ds. \<not> ds_done ds) dss)))]))"
proof (cases "filter ds_rejected dss")
  case Nil
  then have "scan_states dss [] True = (concat (map progress_line (filter (\<lambda>ds. \<not> ds_done ds) dss)), list_all ds_done dss, None)"
    using scan_states_value[of dss "[]" True] by simp
  then show ?thesis using assms Nil by (simp add: UpdateDeferrals_def)
next
  case (Cons ds rest)
  then obtain a b where "scan_states dss [] True = (a, b, Some (message ds))"
    using scan_states_value[of dss "[]" True] by (metis list.simps(5) prod.collapse)
  then show ?thesis using assms Cons by (simp add: UpdateDeferrals_def)
qed

text \<open>Once the event has run, a connection is refused exactly when some resource has refused it, with the message of the
  first such resource in the order of their names; it is accepted exactly when none has and all are done; otherwise
  the client is shown one line for every resource that is not done.\<close>

theorem deferral_verdict:
  assumes "m_ranEvents d" "dss = map snd (m_deferralStates d)"
  shows "snd (UpdateDeferrals d) =
    (if \<exists>ds \<in> set dss. ds_rejected ds then [Reject (message (hd (filter ds_rejected dss)))]
     else if \<forall>ds \<in> set dss. ds_done ds then [Resolve]
     else [Progress (concat (map progress_line (filter (\<lambda>ds. \<not> ds_done ds) dss)))]) \<and>
    m_completed (fst (UpdateDeferrals d)) = (m_completed d \<or> (\<exists>ds \<in> set dss. ds_rejected ds) \<or> (\<forall>ds \<in> set dss. ds_done ds)) \<and>
    m_deferralStates (fst (UpdateDeferrals d)) = m_deferralStates d"
proof (cases "filter ds_rejected dss")
  case Nil
  then have "\<not> (\<exists>ds \<in> set dss. ds_rejected ds)" by (simp add: filter_empty_conv)
  then show ?thesis unfolding UpdateDeferrals_value[OF assms] using Nil by (auto simp: list_all_iff)
next
  case (Cons ds rest)
  then have "ds \<in> set (filter ds_rejected dss)" by simp
  then have "\<exists>ds \<in> set dss. ds_rejected ds" by auto
  then show ?thesis unfolding UpdateDeferrals_value[OF assms] using Cons by simp
qed

text \<open>Two resources, \<open>a\<close> still at work and \<open>b\<close> refusing.\<close>

definition two_deferred :: deferral where
  "two_deferred = new_deferral\<lparr>m_ranEvents := True,
     m_deferralStates := [([97], new_state\<lparr>description := [97], message := [120]\<rparr>), ([98], new_state\<lparr>ds_done := True, ds_rejected := True, message := [110]\<rparr>)]\<rparr>"

lemma deferral_verdict_witness: "snd (UpdateDeferrals two_deferred) = [Reject [110]]"
  using deferral_verdict[of two_deferred, OF _ refl] by (simp add: two_deferred_def new_deferral_def new_state_def)

text \<open>The end of the event makes up for the updates that came before it, then shows the card.\<close>

lemma UpdateDeferrals_keeps [simp]:
  "m_deferralStates (fst (UpdateDeferrals d)) = m_deferralStates d" "m_ranEvents (fst (UpdateDeferrals d)) = m_ranEvents d"
  "m_cardResponseCallback (fst (UpdateDeferrals d)) = m_cardResponseCallback d"
  by (simp_all add: UpdateDeferrals_def split: prod.split option.split)

lemma RanEvents_value:
  assumes "RanEvents d = (d', out)" "update = (if m_pending d then UpdateDeferrals (d\<lparr>m_ranEvents := True\<rparr>) else (d, []))"
  shows "\<exists>cards. out = snd update @ cards \<and> (\<forall>oc \<in> set cards. \<exists>json. oc = Card json)" "m_completed d' = m_completed (fst update)"
    "m_deferralStates d' = m_deferralStates d" "m_ranEvents d'" "m_cardResponseCallback d' = m_cardResponseCallback d"
proof -
  obtain d1 out1 where u: "update = (d1, out1)" by fastforce
  have "m_deferralStates (fst update) = m_deferralStates d" "m_cardResponseCallback (fst update) = m_cardResponseCallback d"
    "m_pending d \<longrightarrow> m_ranEvents (fst update)"
    by (simp_all add: assms(2))
  moreover have "m_pending d \<Longrightarrow> UpdateDeferrals (d\<lparr>m_ranEvents := True\<rparr>) = (d1, out1)" "\<not> m_pending d \<Longrightarrow> d1 = d \<and> out1 = []"
    using u assms(2) by auto
  ultimately show "\<exists>cards. out = snd update @ cards \<and> (\<forall>oc \<in> set cards. \<exists>json. oc = Card json)" "m_completed d' = m_completed (fst update)"
    "m_deferralStates d' = m_deferralStates d" "m_ranEvents d'" "m_cardResponseCallback d' = m_cardResponseCallback d"
    using assms(1) u by (auto simp: RanEvents_def Let_def PresentCard_def split: if_splits prod.splits)
qed

section \<open>What the callbacks leave alone\<close>

lemma answer_via_simps [simp]:
  "clients (answer_via rs cn) = clients cn" "conn_client (answer_via rs cn) = conn_client cn" "deferrals (answer_via rs cn) = deferrals cn"
  "deferral_ref (answer_via rs cn) = deferral_ref cn" "cbRef (answer_via rs cn) = cbRef cn" "validated (answer_via rs cn) = validated cn"
  "in_events (answer_via rs cn) = in_events cn" "turned_away (answer_via rs cn) = turned_away cn"
  "answers (answer_via rs cn) = answers cn @ (if cbRef cn then rs else [])"
  by (simp_all add: answer_via_def)

lemma drop_refs_simps [simp]:
  "clients (drop_refs cn) = clients cn" "conn_client (drop_refs cn) = conn_client cn" "deferrals (drop_refs cn) = deferrals cn"
  "deferral_ref (drop_refs cn) = False" "cbRef (drop_refs cn) = False" "validated (drop_refs cn) = validated cn"
  "in_events (drop_refs cn) = in_events cn" "turned_away (drop_refs cn) = turned_away cn" "answers (drop_refs cn) = answers cn"
  by (simp_all add: drop_refs_def)

lemma allowClient_simps [simp]:
  "clients (allowClient cn) = clients cn" "conn_client (allowClient cn) = conn_client cn" "deferrals (allowClient cn) = deferrals cn"
  "deferral_ref (allowClient cn) = deferral_ref cn" "cbRef (allowClient cn) = cbRef cn" "in_events (allowClient cn) = in_events cn"
  "turned_away (allowClient cn) = turned_away cn" "answers (allowClient cn) = answers cn"
  by (simp_all add: allowClient_def)

lemma remove_if_alive_simps [simp]:
  "conn_client (remove_if_alive env cn) = conn_client cn" "deferrals (remove_if_alive env cn) = deferrals cn"
  "deferral_ref (remove_if_alive env cn) = deferral_ref cn" "cbRef (remove_if_alive env cn) = cbRef cn"
  "in_events (remove_if_alive env cn) = in_events cn" "validated (remove_if_alive env cn) = validated cn"
  "turned_away (remove_if_alive env cn) = turned_away cn" "answers (remove_if_alive env cn) = answers cn"
  by (simp_all add: remove_if_alive_def split: option.split)

lemma sendError_simps [simp]:
  "clients (sendError msg cn) = clients cn" "conn_client (sendError msg cn) = conn_client cn" "deferrals (sendError msg cn) = deferrals cn"
  "deferral_ref (sendError msg cn) = deferral_ref cn" "cbRef (sendError msg cn) = cbRef cn" "in_events (sendError msg cn) = in_events cn"
  "validated (sendError msg cn) = validated cn" "turned_away (sendError msg cn)"
  by (simp_all add: sendError_def)

lemma on_outcome_keeps [simp]:
  "conn_client (on_outcome env o1 cn) = conn_client cn" "deferrals (on_outcome env o1 cn) = deferrals cn"
  "in_events (on_outcome env o1 cn) = in_events cn" "turned_away (on_outcome env o1 cn) = turned_away cn"
  by (cases o1; simp add: Let_def)+

lemma fold_outcomes_keep [simp]:
  "conn_client (fold (on_outcome env) out cn) = conn_client cn" "deferrals (fold (on_outcome env) out cn) = deferrals cn"
  "in_events (fold (on_outcome env) out cn) = in_events cn" "turned_away (fold (on_outcome env) out cn) = turned_away cn"
  by (induction out arbitrary: cn) simp_all

section \<open>A request is answered once\<close>

definition request_ok :: "connection \<Rightarrow> bool" where
  "request_ok cn \<longleftrightarrow> deferral_ref cn = cbRef cn \<and>
     (\<not> turned_away cn \<longrightarrow> (cbRef cn \<longrightarrow> End_of_response \<notin> set (answers cn)) \<and> End_of_response \<notin> set (butlast (answers cn)))"

lemma request_ok_outcome: "request_ok cn \<Longrightarrow> request_ok (on_outcome env o1 cn)"
  by (cases o1) (auto simp: request_ok_def Let_def butlast_append dest: in_set_butlastD)

lemma request_ok_outcomes: "request_ok cn \<Longrightarrow> request_ok (fold (on_outcome env) out cn)"
  by (induction out arbitrary: cn) (simp_all add: request_ok_outcome)

lemma request_ok_frame [simp]: "request_ok (cn\<lparr>deferrals := d\<rparr>) = request_ok cn" "request_ok (cn\<lparr>clients := reg\<rparr>) = request_ok cn"
  "request_ok (cn\<lparr>validated := v\<rparr>) = request_ok cn" "request_ok (cn\<lparr>noReason := s\<rparr>) = request_ok cn"
  "request_ok (cn\<lparr>in_events := b\<rparr>) = request_ok cn"
  by (simp_all add: request_ok_def)

lemma request_ok_step: "connection_step env menv cn cn' \<Longrightarrow> request_ok cn \<Longrightarrow> request_ok cn'"
proof (induction rule: connection_step.induct)
  case (call cn key call)
  then show ?case by (simp add: resource_call_def request_ok_outcomes split: prod.split)
next
  case (reason cn obj)
  then show ?case by (simp add: set_kick_reason_def split: list.split packed.split)
next
  case (timer cn)
  then show ?case by (auto simp: keep_alive_def request_ok_def butlast_append dest: in_set_butlastD)
next
  case (cancel cn)
  then show ?case by (simp add: cancel_request_def request_ok_def Let_def)
next
  case (finish cn shouldAllow cn')
  obtain d out where r: "RanEvents (deferrals cn) = (d, out)" by fastforce
  let ?cn = "fold (on_outcome env) out (cn\<lparr>deferrals := d\<rparr>)"
  have ok: "request_ok ?cn" using finish by (simp add: request_ok_outcomes)
  show ?case
    using finish(2) ok
    by (auto simp: finish_events_def r Let_def request_ok_def butlast_append sendError_def[of "noReason ?cn"] split: if_splits)
qed simp_all

lemma connecting_request_ok: "connecting env menv cn \<Longrightarrow> request_ok cn"
  by (induction rule: connecting.induct) (simp_all add: request_ok_step, simp add: request_ok_def begin_connecting_def)

text \<open>C34: However a connection goes - resources defer it, report, finish it at any time, timers fire, the request is
  canceled - nothing is sent after the end of the response, unless the event itself turned the client away.\<close>

theorem answered_once:
  assumes "connecting env menv cn" "\<not> turned_away cn"
  shows "End_of_response \<notin> set (butlast (answers cn))"
  using connecting_request_ok[OF assms(1)] assms(2) by (simp add: request_ok_def)

text \<open>A client that nobody defers: the event allows it.\<close>

definition no_json :: msgpack_env where
  "no_json = \<lparr>to_json = (\<lambda>_. None), to_dict = (\<lambda>_. None)\<rparr>"

definition sample_start :: connection where
  "sample_start = begin_connecting sample_made 0 {}"

lemma sample_starts: "connecting sample_env no_json sample_start"
  unfolding sample_start_def
  by (rule connecting.start[OF sample_made_reachable sample_made_values(1)]) simp

lemmas finish_simps = finish_events_def RanEvents_def Let_def IsDeferred_def handover_of_def

lemma sample_finish: "\<exists>cn. finish_events sample_env True sample_start = Some cn \<and> answers cn = [Accepted [], End_of_response] \<and>
    validated cn = {0} \<and> conn_client cn = 0 \<and> deferrals cn = new_deferral\<lparr>m_ranEvents := True\<rparr> \<and> \<not> turned_away cn"
  using sample_made_values(1)
  by (simp add: finish_simps sample_start_def begin_connecting_def new_deferral_def allowClient_def drop_refs_def)

lemma sample_admitted: "\<exists>cn. connecting sample_env no_json cn \<and> answers cn = [Accepted [], End_of_response] \<and>
    validated cn = {0} \<and> conn_client cn = 0 \<and> deferrals cn = new_deferral\<lparr>m_ranEvents := True\<rparr> \<and> \<not> turned_away cn"
proof -
  have "in_events sample_start" by (simp add: sample_start_def begin_connecting_def)
  then show ?thesis
    using sample_finish connecting.step[OF sample_starts connection_step.finish] by blast
qed

lemma answered_once_witness: "\<exists>cn :: connection. answers cn = [Accepted [], End_of_response] \<and> End_of_response \<notin> set (butlast (answers cn))"
proof -
  obtain cn where cn: "connecting sample_env no_json cn" "answers cn = [Accepted [], End_of_response]" "\<not> turned_away cn"
    using sample_admitted by metis
  then show ?thesis using answered_once[OF cn(1,3)] by blast
qed

lemma in_omap_put: "e \<in> set (omap_put k v m) \<Longrightarrow> e = (k, v) \<or> e \<in> set m"
  by (induction k v m rule: omap_put.induct) (auto split: if_splits)

lemma only_match_put:
  "\<forall>e \<in> set m. \<not> P (snd e) \<Longrightarrow> P v \<Longrightarrow> filter P (map snd (omap_put k v m)) = [v]"
proof (induction k v m rule: omap_put.induct)
  case (2 k v k' v' m)
  have "filter P (map snd m) = []" using 2(2) by (simp add: filter_empty_conv)
  then show ?case using 2 by simp
qed simp

lemma finish_deferred:
  assumes "IsDeferred (fst (RanEvents (deferrals cn)))"
  shows "\<exists>cn'. finish_events env shouldAllow cn = Some cn'"
proof -
  obtain d out where "RanEvents (deferrals cn) = (d, out)" by fastforce
  then show ?thesis using assms by (simp add: finish_events_def Let_def)
qed

text \<open>A resource that refuses a client while the event still runs (it calls \<open>done\<close> with a reason before any has been
  given) has the client refused twice: the response is ended, and what the end of the event sends goes behind it.\<close>

theorem early_rejection_answers_twice:
  assumes "in_events cn" "cbRef cn" "alive (clients cn) (conn_client cn)" "\<not> m_ranEvents (deferrals cn)" "\<not> m_completed (deferrals cn)"
    "\<forall>e \<in> set (m_deferralStates (deferrals cn)). \<not> ds_rejected (snd e)"
    "finish_events env shouldAllow (resource_call env menv key (Call_done [Packed_text s]) cn) = Some cn'"
  shows "answers cn' = answers cn @ [Refused s, End_of_response, Refused s, End_of_response]"
proof -
  define d where "d = deferrals cn"
  define ds where "ds = (state_at key d)\<lparr>ds_done := True, message := s, ds_rejected := True\<rparr>"
  define m where "m = omap_put key ds (omap_put key ((state_at key d)\<lparr>ds_done := True\<rparr>) (m_deferralStates d))"
  define d1 where "d1 = d\<lparr>m_deferralStates := m, m_pending := True\<rparr>"
  have "\<not> ds_rejected (state_at key d)"
    using assms(6) map_of_SomeD[of "m_deferralStates d" key]
    by (cases "map_of (m_deferralStates d) key") (simp add: state_at_def new_state_def, metis d_def option.case(2) snd_conv state_at_def)
  then have "\<forall>e \<in> set (omap_put key ((state_at key d)\<lparr>ds_done := True\<rparr>) (m_deferralStates d)). \<not> ds_rejected (snd e)"
    using assms(6) by (auto simp: d_def dest!: in_omap_put)
  then have rejected: "filter ds_rejected (map snd m) = [ds]"
    unfolding m_def by (rule only_match_put) (simp add: ds_def)
  have "deferral_callback menv key (Call_done [Packed_text s]) d = (d1, [], False)"
    using assms(4,5) by (simp add: d_def deferral_callback_def cb_done_def update_then_def UpdateDeferrals_def Let_def
        set_deferral_state_def m_def ds_def d1_def)
  then have called: "resource_call env menv key (Call_done [Packed_text s]) cn = cn\<lparr>deferrals := d1\<rparr>"
    using assms(1) by (simp add: resource_call_def deferral_alive_def d_def)
  have "UpdateDeferrals (d1\<lparr>m_ranEvents := True\<rparr>) = (d1\<lparr>m_ranEvents := True, m_completed := True\<rparr>, [Reject s])"
    using UpdateDeferrals_value[of "d1\<lparr>m_ranEvents := True\<rparr>" "map snd m"] rejected by (simp add: d1_def ds_def)
  then obtain d' out where r: "RanEvents d1 = (d', Reject s # out)" "\<forall>oc \<in> set out. \<exists>json. oc = Card json"
    using RanEvents_value(1)[of d1 _ _, OF _ refl] by (cases "RanEvents d1") (fastforce simp: d1_def)
  let ?cn = "fold (on_outcome env) (Reject s # out) (cn\<lparr>deferrals := d'\<rparr>)"
  have cards: "\<forall>oc \<in> set out. \<exists>json. oc = Card json \<Longrightarrow> \<not> cbRef c \<Longrightarrow> fold (on_outcome env) out c = c" for c
    by (induction out) (auto simp: answer_via_def)
  have "?cn = on_outcome env (Reject s) (cn\<lparr>deferrals := d'\<rparr>)"
    using r(2) by (simp only: fold_Cons comp_apply) (rule cards, simp_all add: Let_def assms(3))
  then have "answers ?cn = answers cn @ [Refused s, End_of_response]" "noReason ?cn = s" "earlyReject ?cn"
    using assms(1,2,3) by (simp_all add: Let_def drop_refs_def answer_via_def remove_if_alive_def split: option.split)
  then show ?thesis
    using assms(7) unfolding called
    by (auto simp: finish_events_def r(1) Let_def sendError_def remove_if_alive_def split: option.splits)
qed

lemma early_rejection_answers_twice_witness:
  "\<exists>cn'. finish_events sample_env True (resource_call sample_env no_json [97] (Call_done [Packed_text [110]]) sample_start) = Some cn' \<and>
     answers cn' = [Refused [110], End_of_response, Refused [110], End_of_response]"
proof -
  have s: "in_events sample_start" "cbRef sample_start" "alive (clients sample_start) (conn_client sample_start)"
    "\<not> m_ranEvents (deferrals sample_start)" "\<not> m_completed (deferrals sample_start)"
    "\<forall>e \<in> set (m_deferralStates (deferrals sample_start)). \<not> ds_rejected (snd e)" "answers sample_start = []"
    using sample_made_values(1) by (simp_all add: sample_start_def begin_connecting_def new_deferral_def)
  let ?cn = "resource_call sample_env no_json [97] (Call_done [Packed_text [110]]) sample_start"
  have "m_deferralStates (deferrals ?cn) \<noteq> []"
    by (simp add: resource_call_def deferral_alive_def sample_start_def begin_connecting_def deferral_callback_def cb_done_def
        update_then_def UpdateDeferrals_def set_deferral_state_def new_deferral_def Let_def)
  then have "IsDeferred (fst (RanEvents (deferrals ?cn)))"
    by (auto simp: RanEvents_def IsDeferred_def PresentCard_def UpdateDeferrals_def Let_def split: prod.split option.split)
  then obtain cn' where "finish_events sample_env True ?cn = Some cn'" using finish_deferred by blast
  then show ?thesis using early_rejection_answers_twice[OF s(1-6)] s(7) by fastforce
qed

section \<open>Who passes the validation\<close>

text \<open>The deferral has come to a good end.\<close>

definition all_done :: "deferral \<Rightarrow> bool" where
  "all_done d \<longleftrightarrow> m_ranEvents d \<and> (\<forall>e \<in> set (m_deferralStates d). ds_done (snd e) \<and> \<not> ds_rejected (snd e))"

lemma UpdateDeferrals_resolves:
  assumes "Resolve \<in> set (snd (UpdateDeferrals d))"
  shows "all_done d" "m_completed (fst (UpdateDeferrals d))"
proof -
  have r: "m_ranEvents d" using assms by (cases "m_ranEvents d") (simp_all add: UpdateDeferrals_def)
  let ?dss = "map snd (m_deferralStates d)"
  have "filter ds_rejected ?dss = [] \<and> list_all ds_done ?dss \<and> m_completed (fst (UpdateDeferrals d))"
    using assms unfolding UpdateDeferrals_value[OF r refl] by (cases "filter ds_rejected ?dss") (auto split: if_splits)
  then show "all_done d" "m_completed (fst (UpdateDeferrals d))"
    using r by (auto simp: all_done_def filter_empty_conv list_all_iff)
qed

lemma all_done_update [simp]: "all_done (fst (UpdateDeferrals d)) = all_done d"
  by (simp add: all_done_def)

text \<open>What a call of a resource does to the deferral, as far as it matters here.\<close>

lemma StartTimer_keeps [simp]: "all_done (StartTimer d) = all_done d" "m_completed (StartTimer d) = m_completed d"
    "m_ranEvents (StartTimer d) = m_ranEvents d" "m_deferralStates (StartTimer d) = m_deferralStates d"
    "m_cardResponseCallback (StartTimer d) = m_cardResponseCallback d"
  by (simp_all add: StartTimer_def all_done_def)

lemma SetCardResponseHandler_keeps [simp]: "m_ranEvents (SetCardResponseHandler obj d) = m_ranEvents d"
    "m_deferralStates (SetCardResponseHandler obj d) = m_deferralStates d"
  by (simp_all add: SetCardResponseHandler_def split: list.split packed.split)

lemma PresentCard_keeps [simp]: "m_ranEvents (fst (PresentCard s d)) = m_ranEvents d"
    "m_deferralStates (fst (PresentCard s d)) = m_deferralStates d" "Resolve \<notin> set (snd (PresentCard s d))"
  by (simp_all add: PresentCard_def)

lemma omap_put_nonempty [simp]: "omap_put k v m \<noteq> []"
  by (cases "(k, v, m)" rule: omap_put.cases) simp_all

text \<open>Whatever ends in \<open>UpdateDeferrals\<close> resolves only a deferral that is all done, and completes it.\<close>

definition good_result :: "deferral \<Rightarrow> callback_result \<Rightarrow> bool" where
  "good_result d r \<longleftrightarrow> m_ranEvents (fst r) = m_ranEvents d \<and>
     (Resolve \<in> set (fst (snd r)) \<longrightarrow> all_done (fst r) \<and> m_completed (fst r)) \<and>
     (m_cardResponseCallback (fst r) \<noteq> None \<longrightarrow> m_cardResponseCallback d \<noteq> None \<or> m_deferralStates (fst r) \<noteq> []) \<and>
     (m_deferralStates d \<noteq> [] \<longrightarrow> m_deferralStates (fst r) \<noteq> [])"

lemma set_deferral_state_keeps [simp]: "m_ranEvents (set_deferral_state key ds d) = m_ranEvents d"
    "m_deferralStates (set_deferral_state key ds d) \<noteq> []" "m_cardResponseCallback (set_deferral_state key ds d) = m_cardResponseCallback d"
  by (simp_all add: set_deferral_state_def)

lemma update_then_value: "update_then d = (fst (UpdateDeferrals d), snd (UpdateDeferrals d), False)"
  by (simp add: update_then_def split: prod.split)

lemma good_update_then:
  assumes "m_ranEvents d1 = m_ranEvents d" "m_cardResponseCallback d1 = m_cardResponseCallback d" "m_deferralStates d1 \<noteq> []"
  shows "good_result d (update_then d1)"
  using UpdateDeferrals_resolves[of d1] assms by (simp add: good_result_def update_then_value)

lemma good_defer: "good_result d (cb_defer key d)"
proof -
  let ?d1 = "set_deferral_state key (new_state\<lparr>description := key, resourceKey := key, message := str_of ''Deferring connection...''\<rparr>) d"
  have "cb_defer key d = (StartTimer (fst (UpdateDeferrals ?d1)), snd (UpdateDeferrals ?d1), False)"
    by (simp add: cb_defer_def Let_def split: prod.split)
  then show ?thesis using UpdateDeferrals_resolves[of ?d1] by (simp add: good_result_def)
qed

lemma SetHandoverData_keeps [simp]: "m_ranEvents (SetHandoverData key s d) = m_ranEvents d"
    "m_deferralStates (SetHandoverData key s d) = m_deferralStates d"
    "m_cardResponseCallback (SetHandoverData key s d) = m_cardResponseCallback d"
  by (simp_all add: SetHandoverData_def)

lemma good_handover: "good_result d (cb_handover env obj d)"
proof -
  let ?f = "\<lambda>(key, v) d. case to_json env v of None \<Rightarrow> d | Some json \<Rightarrow> SetHandoverData key json d"
  have one: "m_ranEvents (?f e d) = m_ranEvents d \<and> m_deferralStates (?f e d) = m_deferralStates d \<and>
      m_cardResponseCallback (?f e d) = m_cardResponseCallback d" for e d
    by (cases e) (simp split: option.split)
  have "m_ranEvents (fold ?f dict d) = m_ranEvents d \<and> m_deferralStates (fold ?f dict d) = m_deferralStates d \<and>
      m_cardResponseCallback (fold ?f dict d) = m_cardResponseCallback d" for dict
    by (induction dict arbitrary: d) (simp_all only: fold_simps one)
  then show ?thesis by (simp add: good_result_def cb_handover_def split: list.split option.split)
qed

lemma good_presentCard: "good_result d (cb_presentCard env key obj d)"
proof (cases obj)
  case Nil
  then show ?thesis by (simp add: good_result_def cb_presentCard_def)
next
  case (Cons arg rest)
  let ?d = "set_deferral_state key (state_at key d) d"
  obtain json where "cb_presentCard env key obj d =
      (case case json of None \<Rightarrow> (?d, []) | Some s \<Rightarrow> PresentCard s ?d of (d, out) \<Rightarrow> (SetCardResponseHandler obj d, out, False))"
    unfolding Cons cb_presentCard_def Let_def list.case by blast
  then show ?thesis by (cases json) (simp_all add: good_result_def case_prod_unfold)
qed

lemma good_callback: "good_result d (deferral_callback env key call d)"
proof (cases "m_completed d")
  case True
  then show ?thesis by (simp add: deferral_callback_def good_result_def)
next
  case False
  have no: "good_result d (set_deferral_state key ds d, [], b)" for ds b by (simp add: good_result_def)
  show ?thesis
  proof (cases call)
    case (Call_update obj)
    then show ?thesis
      using False no by (auto simp: deferral_callback_def cb_update_def Let_def good_update_then split: list.split packed.split)
  next
    case (Call_done obj)
    then show ?thesis
      using False no by (auto simp: deferral_callback_def cb_done_def Let_def good_update_then split: list.split packed.split)
  qed (simp_all add: False deferral_callback_def good_defer good_presentCard good_handover)
qed

definition validation_ok :: "connection \<Rightarrow> bool" where
  "validation_ok cn \<longleftrightarrow>
     (m_cardResponseCallback (deferrals cn) \<noteq> None \<longrightarrow> m_deferralStates (deferrals cn) \<noteq> []) \<and>
     (in_events cn \<longrightarrow> \<not> m_ranEvents (deferrals cn)) \<and>
     (conn_client cn \<in> validated cn \<longrightarrow> all_done (deferrals cn) \<and> (m_completed (deferrals cn) \<or> \<not> deferral_alive cn))"

lemma validated_by_outcome:
  "c \<in> validated (fold (on_outcome env) out cn) \<Longrightarrow> c \<in> validated cn \<or> Resolve \<in> set out"
proof (induction out arbitrary: cn)
  case (Cons o1 out)
  have "c \<in> validated (on_outcome env o1 cn) \<Longrightarrow> c \<in> validated cn \<or> o1 = Resolve"
    by (cases o1) (simp_all add: Let_def split: if_splits)
  then show ?case using Cons by auto
qed simp

lemma validation_ok_call:
  assumes "validation_ok cn"
  shows "validation_ok (resource_call env menv key call cn)"
proof (cases "\<not> deferral_alive cn \<or> m_completed (deferrals cn)")
  case True
  then have "resource_call env menv key call cn = cn" by (auto simp: resource_call_def deferral_callback_def)
  then show ?thesis using assms by simp
next
  case False
  obtain d out ex where r: "deferral_callback menv key call (deferrals cn) = (d, out, ex)" by (cases "deferral_callback menv key call (deferrals cn)")
  have good: "m_ranEvents d = m_ranEvents (deferrals cn)" "Resolve \<in> set out \<Longrightarrow> all_done d \<and> m_completed d"
    "m_cardResponseCallback d \<noteq> None \<Longrightarrow> m_deferralStates d \<noteq> []"
    using good_callback[of "deferrals cn" menv key call] r assms by (auto simp: good_result_def validation_ok_def)
  have "resource_call env menv key call cn = fold (on_outcome env) out (cn\<lparr>deferrals := d\<rparr>)"
    using False r by (simp add: resource_call_def)
  then show ?thesis
    using good False assms by (auto simp: validation_ok_def dest!: validated_by_outcome)
qed

lemma validation_ok_finish:
  assumes "in_events cn" "finish_events env shouldAllow cn = Some cn'" "validation_ok cn"
  shows "validation_ok cn'"
proof -
  obtain d out where r: "RanEvents (deferrals cn) = (d, out)" by fastforce
  note ran = RanEvents_value[OF r refl]
  let ?cn = "fold (on_outcome env) out (cn\<lparr>deferrals := d\<rparr>)"
  have "conn_client cn \<notin> validated cn" using assms(1,3) by (auto simp: validation_ok_def all_done_def)
  moreover have "all_done d \<and> m_completed d" if "Resolve \<in> set out"
  proof (cases "m_pending (deferrals cn)")
    case True
    let ?u = "UpdateDeferrals (deferrals cn\<lparr>m_ranEvents := True\<rparr>)"
    have "Resolve \<in> set (snd ?u)" using ran(1) that True by auto
    then show ?thesis using UpdateDeferrals_resolves ran(2-4) True by (auto simp: all_done_def)
  next
    case False
    then show ?thesis using ran(1) that by auto
  qed
  ultimately have res: "conn_client cn \<in> validated ?cn \<Longrightarrow> all_done d \<and> m_completed d" by (auto dest!: validated_by_outcome)
  have card: "m_cardResponseCallback d \<noteq> None \<Longrightarrow> m_deferralStates d \<noteq> []" using ran(3,5) assms(3) by (simp add: validation_ok_def)
  show ?thesis
  proof (cases "\<not> shouldAllow \<or> earlyReject ?cn \<or> IsDeferred d")
    case True
    then show ?thesis using assms(2) res card by (auto simp: finish_events_def r Let_def validation_ok_def split: if_splits)
  next
    case False
    then have "m_deferralStates d = []" by (simp add: IsDeferred_def)
    then have "all_done d" using ran(4) by (simp add: all_done_def)
    have "m_cardResponseCallback d = None" using card \<open>m_deferralStates d = []\<close> by (cases "m_cardResponseCallback d") auto
    then show ?thesis
      using assms(2) False \<open>all_done d\<close> by (auto simp: finish_events_def r Let_def validation_ok_def deferral_alive_def split: if_splits)
  qed
qed

lemma validation_ok_step: "connection_step env menv cn cn' \<Longrightarrow> validation_ok cn \<Longrightarrow> validation_ok cn'"
proof (induction rule: connection_step.induct)
  case (call cn key call)
  then show ?case by (rule validation_ok_call)
next
  case (reason cn obj)
  then show ?case by (simp add: set_kick_reason_def validation_ok_def deferral_alive_def split: list.split packed.split)
next
  case (timer cn)
  then show ?case by (simp add: keep_alive_def validation_ok_def deferral_alive_def)
next
  case (cancel cn)
  then show ?case by (auto simp: cancel_request_def validation_ok_def deferral_alive_def Let_def)
next
  case (finish cn shouldAllow cn')
  then show ?case by (rule validation_ok_finish)
next
  case (other cn reg)
  then show ?case by (simp add: validation_ok_def deferral_alive_def)
next
  case (others_validated cn v)
  then show ?case by (simp add: validation_ok_def deferral_alive_def)
qed

lemma connecting_validation_ok: "connecting env menv cn \<Longrightarrow> validation_ok cn"
proof (induction rule: connecting.induct)
  case (start reg c v)
  then show ?case by (simp add: validation_ok_def begin_connecting_def new_deferral_def)
next
  case (step cn cn')
  then show ?case using validation_ok_step by blast
qed

text \<open>The client of a connection passes the validation only when the event has run and every resource that took part
  in the deferral is done without having refused it; and this stays so, whatever the resources call afterwards.\<close>

theorem validated_only_when_done:
  assumes "connecting env menv cn" "conn_client cn \<in> validated cn"
  shows "m_ranEvents (deferrals cn) \<and> (\<forall>e \<in> set (m_deferralStates (deferrals cn)). ds_done (snd e) \<and> \<not> ds_rejected (snd e))"
  using connecting_validation_ok[OF assms(1)] assms(2) by (simp add: validation_ok_def all_done_def)

lemma validated_only_when_done_witness: "\<exists>cn :: connection. conn_client cn \<in> validated cn \<and> m_ranEvents (deferrals cn)"
proof -
  obtain cn where cn: "connecting sample_env no_json cn" "validated cn = {0}" "conn_client cn = 0"
    using sample_admitted by metis
  then have "conn_client cn \<in> validated cn" by simp
  then show ?thesis using validated_only_when_done[OF cn(1)] by blast
qed

section \<open>A client that was turned away\<close>

text \<open>The number of the client is used, and where the table names it, it is the live client with that guid.\<close>

definition listed :: "nat \<Rightarrow> registry \<Rightarrow> bool" where
  "listed c reg \<longleftrightarrow> c < next_client reg \<and> (\<forall>g. m_clients reg g = Some c \<longrightarrow> (\<exists>x. client_heap reg c = Some x \<and> m_guid x = g))"

definition unlisted :: "nat \<Rightarrow> registry \<Rightarrow> bool" where
  "unlisted c reg \<longleftrightarrow> c < next_client reg \<and> (\<forall>g. m_clients reg g \<noteq> Some c)"

lemma listed_clients_ok: "clients_ok reg \<Longrightarrow> alive reg c \<Longrightarrow> listed c reg"
  using clients_okD(3,5)[of reg] by (auto simp: listed_def alive_def)

lemma unlisted_listed: "unlisted c reg \<Longrightarrow> listed c reg"
  by (simp add: listed_def unlisted_def)

text \<open>A change of the registry that adds no old client to the table, and keeps the guid of what it keeps there.\<close>

lemma listed_mono:
  assumes "next_client reg \<le> next_client reg'" "\<And>g. m_clients reg' g = Some c \<Longrightarrow> c < next_client reg \<Longrightarrow> m_clients reg g = Some c"
    "\<And>g x. m_clients reg' g = Some c \<Longrightarrow> c < next_client reg \<Longrightarrow> client_heap reg c = Some x \<Longrightarrow>
      \<exists>y. client_heap reg' c = Some y \<and> m_guid y = m_guid x"
  shows "(listed c reg \<longrightarrow> listed c reg') \<and> (unlisted c reg \<longrightarrow> unlisted c reg')"
proof (intro conjI impI)
  assume l: "listed c reg"
  have "\<exists>y. client_heap reg' c = Some y \<and> m_guid y = g" if "m_clients reg' g = Some c" for g
    using l assms(2)[OF that] assms(3)[OF that] by (auto simp: listed_def)
  then show "listed c reg'" using l assms(1) by (auto simp: listed_def)
next
  assume "unlisted c reg"
  then show "unlisted c reg'" using assms(1) assms(2) by (fastforce simp: unlisted_def)
qed

lemma SetPeer_table: "m_clients (SetPeer env c p reg) = m_clients reg" "next_client (SetPeer env c p reg) = next_client reg"
    "client_heap reg d = Some x \<Longrightarrow> \<exists>y. client_heap (SetPeer env c p reg) d = Some y \<and> m_guid y = m_guid x"
  by (auto simp: SetPeer_def Let_def split: option.split if_split)

lemma RemoveClient_table:
  assumes "RemoveClient env c reg = Some reg'" "client_heap reg c = Some x"
  shows "m_clients reg' = (m_clients reg)(m_guid x := None)" "next_client reg' = next_client reg"
    "client_heap reg d = Some y \<Longrightarrow> m_clients reg (m_guid x) \<noteq> Some d \<or> d = c \<Longrightarrow> \<exists>z. client_heap reg' d = Some z \<and> m_guid z = m_guid y"
proof -
  have "\<exists>r. reg' = change c (\<lambda>x. x\<lparr>m_slotId := - 1\<rparr>) (erase_client c (m_guid x) r) \<and>
      client_heap r = client_heap reg \<and> m_clients r = m_clients reg \<and> next_client r = next_client reg"
    by (intro exI conjI, rule assms(1)[unfolded RemoveClient_def assms(2) option.case Let_def option.inject, symmetric]) simp_all
  then show "m_clients reg' = (m_clients reg)(m_guid x := None)" "next_client reg' = next_client reg"
    "client_heap reg d = Some y \<Longrightarrow> m_clients reg (m_guid x) \<noteq> Some d \<or> d = c \<Longrightarrow> \<exists>z. client_heap reg' d = Some z \<and> m_guid z = m_guid y"
    by (auto simp: erase_client_def Let_def split: option.split)
qed

lemma RemoveClient_listed:
  assumes "RemoveClient env c reg = Some reg'"
  shows "listed d reg \<Longrightarrow> listed d reg'" "unlisted d reg \<Longrightarrow> unlisted d reg'" "listed c reg \<Longrightarrow> unlisted c reg'"
proof -
  obtain x where x: "client_heap reg c = Some x" using assms by (cases "client_heap reg c") (simp_all add: RemoveClient_def)
  note t = RemoveClient_table[OF assms x]
  show "listed d reg'" if l: "listed d reg"
  proof -
    have "\<exists>z. client_heap reg' d = Some z \<and> m_guid z = g" if g: "m_clients reg' g = Some d" for g
    proof -
      have d: "m_clients reg g = Some d" "g \<noteq> m_guid x" using g t(1) by (simp_all split: if_splits)
      then obtain y where y: "client_heap reg d = Some y" "m_guid y = g" using l unfolding listed_def by blast
      then have "m_clients reg (m_guid x) \<noteq> Some d" using l d(2) unfolding listed_def by force
      then show ?thesis using t(3)[OF y(1)] y(2) by simp
    qed
    then show ?thesis using l t(2) by (simp add: listed_def)
  qed
  show "unlisted d reg'" if "unlisted d reg" using that t(1,2) by (auto simp: unlisted_def)
  show "unlisted c reg'" if "listed c reg" using that t(1,2) x by (auto simp: unlisted_def listed_def)
qed

lemma registry_step_listed:
  assumes "registry_step env reg reg'"
  shows "(listed c reg \<longrightarrow> listed c reg') \<and> (unlisted c reg \<longrightarrow> unlisted c reg')"
  using assms
proof cases
  case (make guid)
  then show ?thesis by (intro listed_mono) (auto simp: MakeClient_def Let_def split: if_splits)
next
  case (temporary d t)
  then show ?thesis by (intro listed_mono) (auto simp: SetNetId_def Let_def UpdateCachedPrincipalValues_def)
next
  case (connecting d)
  then show ?thesis by (intro listed_mono) (auto simp: HandleConnectingClient_def SetNetId_def Let_def UpdateCachedPrincipalValues_def split: option.splits)
next
  case (peer d p)
  then show ?thesis using SetPeer_table(3) by (intro listed_mono) (auto simp: SetPeer_table(1,2))
next
  case (token d v)
  then show ?thesis by (intro listed_mono) (auto simp: SetConnectionToken_def)
next
  case (end_point d v)
  then show ?thesis by (intro listed_mono) (auto simp: SetTcpEndPoint_def)
next
  case (add_identifier d i)
  then show ?thesis by (intro listed_mono) (auto simp: AddIdentifier_def UpdateCachedPrincipalValues_def)
next
  case (dropping d)
  then show ?thesis by (intro listed_mono) (auto simp: SetDropping_def)
next
  case (remove d)
  then show ?thesis using RemoveClient_listed by blast
next
  case (release d)
  then show ?thesis by (intro listed_mono) (auto simp: release_def ran_def)
next
  case (host client)
  then show ?thesis by (intro listed_mono) (auto simp: SetHost_def split: option.splits if_splits)
qed

lemma remove_if_alive_listed:
  "listed d (clients cn) \<Longrightarrow> listed d (clients (remove_if_alive env cn))"
  "unlisted d (clients cn) \<Longrightarrow> unlisted d (clients (remove_if_alive env cn))"
  "listed (conn_client cn) (clients cn) \<Longrightarrow> unlisted (conn_client cn) (clients (remove_if_alive env cn))"
proof -
  show "listed d (clients cn) \<Longrightarrow> listed d (clients (remove_if_alive env cn))"
    "unlisted d (clients cn) \<Longrightarrow> unlisted d (clients (remove_if_alive env cn))"
    using RemoveClient_listed(1,2)[of env "conn_client cn" "clients cn"] by (simp_all add: remove_if_alive_def split: option.split)
  assume l: "listed (conn_client cn) (clients cn)"
  show "unlisted (conn_client cn) (clients (remove_if_alive env cn))"
  proof (cases "RemoveClient env (conn_client cn) (clients cn)")
    case None
    then have "client_heap (clients cn) (conn_client cn) = None" by (cases "client_heap (clients cn) (conn_client cn)") (simp_all add: RemoveClient_def Let_def)
    then show ?thesis using l None by (simp add: remove_if_alive_def unlisted_def listed_def)
  next
    case (Some reg)
    then show ?thesis using RemoveClient_listed(3)[OF Some l] by (simp add: remove_if_alive_def)
  qed
qed

lemma fold_outcomes_listed:
  "listed d (clients cn) \<Longrightarrow> listed d (clients (fold (on_outcome env) out cn))"
  "unlisted d (clients cn) \<Longrightarrow> unlisted d (clients (fold (on_outcome env) out cn))"
proof -
  have one: "listed d (clients cn) \<Longrightarrow> listed d (clients (on_outcome env o1 cn))"
    "unlisted d (clients cn) \<Longrightarrow> unlisted d (clients (on_outcome env o1 cn))" for cn o1
    by (cases o1; simp add: Let_def remove_if_alive_listed)+
  show "listed d (clients cn) \<Longrightarrow> listed d (clients (fold (on_outcome env) out cn))"
    by (induction out arbitrary: cn) (simp_all add: one)
  show "unlisted d (clients cn) \<Longrightarrow> unlisted d (clients (fold (on_outcome env) out cn))"
    by (induction out arbitrary: cn) (simp_all add: one)
qed

definition away_ok :: "connection \<Rightarrow> bool" where
  "away_ok cn \<longleftrightarrow> listed (conn_client cn) (clients cn) \<and> (turned_away cn \<longrightarrow> unlisted (conn_client cn) (clients cn))"

lemma away_ok_step: "connection_step env menv cn cn' \<Longrightarrow> away_ok cn \<Longrightarrow> away_ok cn'"
proof (induction rule: connection_step.induct)
  case (call cn key call)
  then show ?case by (simp add: resource_call_def away_ok_def fold_outcomes_listed split: prod.split)
next
  case (reason cn obj)
  then show ?case by (simp add: set_kick_reason_def away_ok_def split: list.split packed.split)
next
  case (timer cn)
  then show ?case by (simp add: keep_alive_def away_ok_def)
next
  case (cancel cn)
  then show ?case by (simp add: cancel_request_def away_ok_def Let_def remove_if_alive_listed)
next
  case (finish cn shouldAllow cn')
  obtain d out where r: "RanEvents (deferrals cn) = (d, out)" by fastforce
  let ?cn = "fold (on_outcome env) out (cn\<lparr>deferrals := d\<rparr>)"
  have l: "listed (conn_client cn) (clients ?cn)" using finish(3) by (simp add: away_ok_def fold_outcomes_listed)
  show ?case
    using finish(2,3) l remove_if_alive_listed(3)[of ?cn env]
    by (auto simp: finish_events_def r Let_def away_ok_def fold_outcomes_listed remove_if_alive_listed split: if_splits)
next
  case (other cn reg)
  then show ?case using registry_step_listed[OF other(1)] by (simp add: away_ok_def)
next
  case (others_validated cn v)
  then show ?case by (simp add: away_ok_def)
qed

lemma connecting_away_ok: "connecting env menv cn \<Longrightarrow> away_ok cn"
proof (induction rule: connecting.induct)
  case (start reg c v)
  then show ?case using listed_clients_ok[OF clients_reachable_ok] by (simp add: away_ok_def begin_connecting_def)
next
  case (step cn cn')
  then show ?case using away_ok_step by blast
qed

section \<open>The handshake\<close>

lemma SetNetId_peers: "m_clientsByPeer (SetNetId env c n reg) = m_clientsByPeer reg"
    "client_heap reg d \<noteq> None \<Longrightarrow> client_heap (SetNetId env c n reg) d \<noteq> None"
  by (auto simp: SetNetId_def Let_def change_def)

lemma HandleConnectingClient_peers:
  assumes "HandleConnectingClient env c reg = Some reg'"
  shows "m_clientsByPeer reg' = m_clientsByPeer reg" "client_heap reg d \<noteq> None \<Longrightarrow> client_heap reg' d \<noteq> None"
  using assms SetNetId_peers by (auto simp: HandleConnectingClient_def split: option.splits)

lemma SetPeer_peer: "m_clientsByPeer (SetPeer env c p reg) p = Some c"
  by (simp add: SetPeer_def Let_def change_other split: option.split)

text \<open>The cases of a handshake that is answered with \<open>connectOK\<close>.\<close>

lemma handshake_ok:
  assumes "process_handshake env p guid token v reg = Some (Connect_ok n new, reg')"
  obtains c x y where "GetClientByPeer p reg = None" "GetClientByGuid guid reg = Some c" "client_heap reg c = Some x"
    "m_connectionToken x = token" "c \<in> v" "client_heap (SetPeer env c p reg) c = Some y" "IsOneSync env \<longrightarrow> m_slotId y \<noteq> - 1"
    "if new then 0xFFFF \<le> m_netId y \<and> HandleConnectingClient env c (SetPeer env c p reg) = Some reg' \<and>
       (\<exists>z. client_heap reg' c = Some z \<and> m_netId z = n)
     else m_netId y < 0xFFFF \<and> reg' = SetPeer env c p reg \<and> m_netId y = n"
proof -
  obtain c where c: "GetClientByPeer p reg = None" "GetClientByGuid guid reg = Some c"
    using assms by (auto simp: process_handshake_def split: if_splits option.splits)
  then obtain x where x: "client_heap reg c = Some x" using assms by (auto simp: process_handshake_def split: option.splits)
  have v: "m_connectionToken x = token" "c \<in> v"
    using assms c x by (auto simp: process_handshake_def split: if_splits option.splits Option.bind_splits)
  obtain y where y: "client_heap (SetPeer env c p reg) c = Some y"
    using assms c x v by (auto simp: process_handshake_def Let_def split: option.splits)
  show ?thesis
    using assms c x v y by (intro that[of c x y]) (auto simp: process_handshake_def Let_def split: if_splits Option.bind_splits)
qed

text \<open>C35: A client that the event turned away is not let in afterwards, whatever else happens to the connection and to the
  registry: its guid no longer leads to it, and no handshake makes it the client of a peer.\<close>

theorem turned_away_never_admitted:
  assumes "connecting env menv cn" "turned_away cn"
  shows "GetClientByGuid g (clients cn) \<noteq> Some (conn_client cn) \<and>
    (process_handshake env p guid token v (clients cn) = Some (Connect_ok n new, reg') \<longrightarrow>
     GetClientByPeer p reg' \<noteq> Some (conn_client cn))"
proof -
  have away: "GetClientByGuid g (clients cn) \<noteq> Some (conn_client cn)" for g
    using connecting_away_ok[OF assms(1)] assms(2) by (simp add: away_ok_def unlisted_def GetClientByGuid_def)
  moreover have "GetClientByPeer p reg' \<noteq> Some (conn_client cn)"
    if h: "process_handshake env p guid token v (clients cn) = Some (Connect_ok n new, reg')"
  proof -
    obtain c and y :: client where c: "GetClientByGuid guid (clients cn) = Some c"
      "if new then 0xFFFF \<le> m_netId y \<and> HandleConnectingClient env c (SetPeer env c p (clients cn)) = Some reg' \<and>
         (\<exists>z. client_heap reg' c = Some z \<and> m_netId z = n)
       else m_netId y < 0xFFFF \<and> reg' = SetPeer env c p (clients cn) \<and> m_netId y = n"
      by (rule handshake_ok[OF h], rule that, assumption+)
    have "m_clientsByPeer reg' p = Some c"
      using c(2) SetPeer_peer HandleConnectingClient_peers(1) by (cases new) (simp, metis, simp add: SetPeer_peer)
    then show ?thesis using away[of guid] c(1) by (auto simp: GetClientByPeer_def lock_def)
  qed
  ultimately show ?thesis by blast
qed

text \<open>The event turns the client away.\<close>

lemma turned_away_never_admitted_witness: "\<exists>cn :: connection. turned_away cn \<and> answers cn = [Refused prevented, End_of_response] \<and>
    GetClientByGuid [1] (clients cn) \<noteq> Some (conn_client cn)"
proof -
  have "in_events sample_start" by (simp add: sample_start_def begin_connecting_def)
  moreover have "\<exists>cn. finish_events sample_env False sample_start = Some cn \<and> turned_away cn \<and> answers cn = [Refused prevented, End_of_response]"
    by (simp add: finish_simps sample_start_def begin_connecting_def new_deferral_def sendError_def remove_if_alive_def split: option.split)
  ultimately obtain cn where cn: "connecting sample_env no_json cn" "turned_away cn" "answers cn = [Refused prevented, End_of_response]"
    using connecting.step[OF sample_starts connection_step.finish] by metis
  then show ?thesis using turned_away_never_admitted[OF cn(1,2)] by blast
qed

text \<open>C36: A handshake is answered with \<open>connectOK\<close> only for a registered client that sent the token it was given and had
  passed the validation; then its peer leads to it, and the net id of the answer is a valid one by which it is found: always when the id is new, and in all
  runs that remove no client again after its id was given to another when it is not.\<close>

theorem handshake_admits_validated_only:
  assumes "registry_reachable env reg" "process_handshake env p guid token v reg = Some (Connect_ok n new, reg')"
  shows "\<exists>c x z. GetClientByGuid guid reg = Some c \<and> client_heap reg c = Some x \<and> m_connectionToken x = token \<and> c \<in> v \<and>
    client_heap reg' c = Some z \<and> m_netId z = n \<and> n < 0xFFFF \<and> GetClientByPeer p reg' = Some c \<and>
    (new \<or> orderly_reachable env reg \<longrightarrow> GetClientByNetID n reg' = Some c)"
proof -
  obtain c x y where h: "GetClientByGuid guid reg = Some c" "client_heap reg c = Some x" "m_connectionToken x = token" "c \<in> v"
    "client_heap (SetPeer env c p reg) c = Some y"
    "if new then 0xFFFF \<le> m_netId y \<and> HandleConnectingClient env c (SetPeer env c p reg) = Some reg' \<and>
       (\<exists>z. client_heap reg' c = Some z \<and> m_netId z = n)
     else m_netId y < 0xFFFF \<and> reg' = SetPeer env c p reg \<and> m_netId y = n"
    by (rule handshake_ok[OF assms(2)], rule that, assumption+)
  let ?reg = "SetPeer env c p reg"
  have ok: "clients_ok ?reg" by (rule clients_ok_SetPeer[OF clients_reachable_ok[OF assms(1)]])
  have listed: "m_clients ?reg guid = Some c" using h(1) by (simp add: SetPeer_table(1) GetClientByGuid_def)
  show ?thesis
  proof (cases new)
    case True
    then obtain z where z: "HandleConnectingClient env c ?reg = Some reg'" "client_heap reg' c = Some z" "m_netId z = n" using h(6) by auto
    obtain m where m: "1 \<le> m" "m < 0xFFFF" "\<not> id_taken ?reg m"
      using z(1) free_id_range[of "id_taken ?reg" "m_curNetId ?reg"] clients_okD(6,7)[OF ok]
      by (auto simp: HandleConnectingClient_def split: option.splits)
    obtain i :: u16 where i: "m_netId z = ucast i" "i < 0xFFFF" "GetClientByNetID (ucast i) reg' = Some c"
      using connecting_result[OF ok h(5) m, of env] z(1,2) by auto
    have "unat (ucast i :: u32) = unat i" using i(2) by (simp add: unsigned_ucast_eq take_bit_nat_eq_self_iff word_less_nat_alt)
    then have "n < 0xFFFF" using i(1,2) z(3) by (simp add: word_less_nat_alt)
    moreover have "GetClientByPeer p reg' = Some c"
      using HandleConnectingClient_peers(1)[OF z(1)] z(2) by (simp add: GetClientByPeer_def lock_def alive_def SetPeer_peer)
    ultimately show ?thesis using h(1-4) z(2,3) i by metis
  next
    case False
    then have y: "m_netId y < 0xFFFF" "reg' = ?reg" "m_netId y = n" "n < 0xFFFF" using h(6) by auto
    have "m_clientsByNetId ?reg n = Some c" if "orderly_reachable env reg"
      using ids_okD[OF ids_ok_SetPeer[OF orderly_ids_ok[OF that]] listed h(5)] y by simp
    then show ?thesis using y h(1-5) False by (simp add: GetClientByPeer_def GetClientByNetID_def lock_def alive_def SetPeer_peer)
  qed
qed

text \<open>Whoever knows the guid of a client can have it removed: a handshake over a peer of its own with any other token
  takes even a client that is connected over another peer out of the registry.\<close>

theorem wrong_token_removes_client:
  assumes "registry_reachable env reg" "GetClientByGuid guid reg = Some c" "client_heap reg c = Some x" "GetClientByPeer p reg = None"
    "token \<noteq> m_connectionToken x"
  shows "\<exists>reg'. process_handshake env p guid token v reg = Some (Invalid_token, reg') \<and> GetClientByGuid guid reg' = None \<and>
    GetClientByPeer (GetPeer x) reg' = None \<and> GetClientByNetID (m_netId x) reg' = None"
proof -
  note ok = clients_reachable_ok[OF assms(1)]
  have c: "m_clients reg guid = Some c" "m_guid x = guid" using assms(2,3) clients_okD(5)[OF ok, of guid c] by (auto simp: GetClientByGuid_def)
  obtain reg' where r: "RemoveClient env c reg = Some reg'" using assms(3) by (simp add: RemoveClient_def Let_def)
  have h: "process_handshake env p guid token v reg = Some (Invalid_token, reg')" using assms r by (simp add: process_handshake_def)
  have "reg' = (change c (\<lambda>x. x\<lparr>m_slotId := - 1\<rparr>) (without_aliases x reg))\<lparr>
       m_clientsByPeer := (m_clientsByPeer reg)(GetPeer x := None),
       m_clientsByConnectionToken := (m_clientsByConnectionToken reg)(m_connectionToken x := None),
       m_clientsByConnectionTokenHash := (m_clientsByConnectionTokenHash reg)(HashString env (m_connectionToken x) := None)\<rparr>"
    using assms(3) r c by (auto simp: RemoveClient_def Let_def erase_client_def change_def without_aliases_def)
  then show ?thesis using h c(2) by (simp add: without_aliases_def GetClientByGuid_def GetClientByNetID_def GetClientByPeer_def lock_def)
qed

lemma wrong_token_removes_client_witness:
  "\<exists>reg'. process_handshake sample_env 8 [1] [9] {} sample_joined = Some (Invalid_token, reg') \<and> GetClientByGuid [1] reg' = None \<and>
     GetClientByPeer 7 reg' = None"
proof -
  have v: "map_option m_connectionToken (client_heap sample_joined 0) = Some []" "map_option GetPeer (client_heap sample_joined 0) = Some 7"
    "GetClientByPeer 8 sample_joined = None"
    by code_simp+
  obtain x where x: "client_heap sample_joined 0 = Some x" "m_connectionToken x = []" "GetPeer x = 7" using v(1,2) by auto
  then have "[9] \<noteq> m_connectionToken x" by simp
  then show ?thesis using wrong_token_removes_client[OF sample_joined_reachable sample_joined_values(3) x(1) v(3)] x(3) by metis
qed

text \<open>A client that has passed the validation sends its handshake over peer 7.\<close>

lemma handshake_admits_validated_only_witness:
  "\<exists>reg'. process_handshake sample_env 7 [1] [] {0} sample_made = Some (Connect_ok 1 True, reg') \<and> GetClientByPeer 7 reg' = Some 0 \<and>
     GetClientByNetID 1 reg' = Some 0"
proof -
  let ?reg = "SetPeer sample_env 0 7 sample_made"
  have v: "map_option m_connectionToken (client_heap sample_made 0) = Some []" "GetClientByPeer 7 sample_made = None"
    "map_option m_netId (client_heap ?reg 0) = Some 0x10000" "map_option m_slotId (client_heap ?reg 0) = Some 128" "\<not> id_taken ?reg 1"
    "m_curNetId ?reg = 1"
    by code_simp+
  obtain x where x: "client_heap sample_made 0 = Some x" "m_connectionToken x = []" using v(1) by auto
  obtain y where y: "client_heap ?reg 0 = Some y" "m_netId y = 0x10000" "m_slotId y = 128" using v(3,4) by auto
  let ?reg' = "(SetNetId sample_env 0 1 ?reg)\<lparr>m_curNetId := 2\<rparr>"
  have h: "HandleConnectingClient sample_env 0 ?reg = Some ?reg'"
    using free_id.simps[of "id_taken ?reg" 1] v(5,6) by (simp add: HandleConnectingClient_def incrementId_def)
  have "map_option m_netId (client_heap ?reg' 0) = Some 1" by code_simp
  then obtain z where z: "client_heap ?reg' 0 = Some z" "m_netId z = 1" by auto
  have "process_handshake sample_env 7 [1] [] {0} sample_made = Some (Connect_ok 1 True, ?reg')"
    unfolding process_handshake_def v(2) sample_made_values(2) option.case x(1) Let_def y(1) h Option.bind.simps z(1) using x(2) y(2,3) z(2) by simp
  then show ?thesis using handshake_admits_validated_only[OF sample_made_reachable] by fastforce
qed

end
