(* ===== verification/Net_Buffer.thy ===== *)
theory Net_Buffer
  imports Prelude
begin

text \<open>
  The byte buffer of the network layer (components/net-base: NetBuffer.h and NetBuffer.cpp). A reader passes
  the object that it reads into; what is written outside of it is undefined behaviour, so an operation
  is \<open>None\<close> then. Copies of a buffer share their bytes; the model is of one buffer.
\<close>

section \<open>The state\<close>

record net_buffer =
  m_bytes :: "byte list"
  m_curOff :: nat
  m_end :: bool

definition buffer_of_bytes :: "byte list \<Rightarrow> net_buffer" where
  "buffer_of_bytes bs = \<lparr>m_bytes = bs, m_curOff = 0, m_end = False\<rparr>"

definition empty_buffer :: net_buffer where
  "empty_buffer = buffer_of_bytes []"

definition buffer_of_length :: "nat \<Rightarrow> net_buffer" where
  "buffer_of_length n = buffer_of_bytes (replicate n 0)"

definition Clone_net :: "net_buffer \<Rightarrow> net_buffer" where
  "Clone_net b = (buffer_of_bytes (m_bytes b))\<lparr>m_end := m_end b, m_curOff := m_curOff b\<rparr>"

section \<open>Reading\<close>

text \<open>
  \<open>Read (dst + off, n)\<close> into a region \<open>dst\<close>. A read that does not fit fills \<open>sizeof (length)\<close> bytes of the
  destination, which are eight whatever its size is.
\<close>

definition Read_net :: "byte list \<Rightarrow> nat \<Rightarrow> nat \<Rightarrow> net_buffer \<Rightarrow> (bool \<times> byte list \<times> net_buffer) option" where
  "Read_net dst off n b =
     (let b = (if length (m_bytes b) \<le> m_curOff b + n then b\<lparr>m_end := True\<rparr> else b) in
      if length (m_bytes b) < m_curOff b + n
      then do { dst \<leftarrow> copy_into dst off (replicate 8 0xCE) 8; Some (False, dst, b) }
      else do {
        dst \<leftarrow> copy_into dst off (drop (m_curOff b) (m_bytes b)) n;
        Some (True, dst, b\<lparr>m_curOff := m_curOff b + n\<rparr>) })"

text \<open>Numbers are little-endian.\<close>

definition le_bytes :: "nat \<Rightarrow> 'a::len word \<Rightarrow> byte list" where
  "le_bytes n w = map (\<lambda>i. ucast (drop_bit (8 * i) w)) [0..<n]"

fun le_word :: "byte list \<Rightarrow> 'a::len word" where
  "le_word [] = 0"
| "le_word (c # bs) = ucast c OR push_bit 8 (le_word bs)"

text \<open>\<open>Read<T> ()\<close>: the temporary has as many bytes as the type; what is in it before (\<open>junk\<close>) does not matter in the end.\<close>

definition Read_value :: "byte list \<Rightarrow> net_buffer \<Rightarrow> ('a::len word \<times> net_buffer) option" where
  "Read_value junk b = do { (_, dst, b) \<leftarrow> Read_net junk 0 (length junk) b; Some (le_word dst, b) }"

definition Read_u8 :: "net_buffer \<Rightarrow> (byte \<times> net_buffer) option" where
  "Read_u8 = Read_value (replicate 1 0)"

definition Read_u16 :: "net_buffer \<Rightarrow> (u16 \<times> net_buffer) option" where
  "Read_u16 = Read_value (replicate 2 0)"

definition Read_u32 :: "net_buffer \<Rightarrow> (u32 \<times> net_buffer) option" where
  "Read_u32 = Read_value (replicate 4 0)"

definition Read_u64 :: "net_buffer \<Rightarrow> (u64 \<times> net_buffer) option" where
  "Read_u64 = Read_value (replicate 8 0)"

section \<open>Writing\<close>

definition EnsureWritableSize :: "nat \<Rightarrow> net_buffer \<Rightarrow> net_buffer" where
  "EnsureWritableSize n b =
     (if length (m_bytes b) \<le> m_curOff b + n
      then b\<lparr>m_bytes := take (m_curOff b + n) (m_bytes b) @ replicate (m_curOff b + n - length (m_bytes b)) 0\<rparr> else b)"

definition Write_net :: "byte list \<Rightarrow> net_buffer \<Rightarrow> net_buffer option" where
  "Write_net bs b =
     (let b = EnsureWritableSize (length bs) b in do {
        m \<leftarrow> copy_into (m_bytes b) (m_curOff b) bs (length bs);
        Some (b\<lparr>m_bytes := m, m_curOff := m_curOff b + length bs\<rparr>) })"

definition Write_u8 :: "byte \<Rightarrow> net_buffer \<Rightarrow> net_buffer option" where
  "Write_u8 w = Write_net (le_bytes 1 w)"

definition Write_u16 :: "u16 \<Rightarrow> net_buffer \<Rightarrow> net_buffer option" where
  "Write_u16 w = Write_net (le_bytes 2 w)"

definition Write_u32 :: "u32 \<Rightarrow> net_buffer \<Rightarrow> net_buffer option" where
  "Write_u32 w = Write_net (le_bytes 4 w)"

definition ReadTo :: "net_buffer \<Rightarrow> nat \<Rightarrow> net_buffer \<Rightarrow> (bool \<times> net_buffer \<times> net_buffer) option" where
  "ReadTo other n b =
     (let other = EnsureWritableSize n other in
      if length (m_bytes b) < m_curOff b + n then Some (False, other, b)
      else do {
        m \<leftarrow> copy_into (m_bytes other) (m_curOff other) (drop (m_curOff b) (m_bytes b)) n;
        Some (True, other\<lparr>m_bytes := m, m_curOff := m_curOff other + n\<rparr>, b\<lparr>m_curOff := m_curOff b + n\<rparr>) })"

section \<open>The position\<close>

definition IsAtEnd_net :: "net_buffer \<Rightarrow> bool" where
  "IsAtEnd_net b \<longleftrightarrow> m_end b \<or> m_curOff b = length (m_bytes b)"

definition Reset_net :: "net_buffer \<Rightarrow> net_buffer" where
  "Reset_net b = b\<lparr>m_curOff := 0\<rparr>"

definition GetRemainingBytes :: "net_buffer \<Rightarrow> nat" where
  "GetRemainingBytes b = length (m_bytes b) - m_curOff b"

definition Seek :: "nat \<Rightarrow> net_buffer \<Rightarrow> net_buffer" where
  "Seek position b = (if position \<le> length (m_bytes b) then b\<lparr>m_curOff := position\<rparr> else b)"

section \<open>Facts\<close>

text \<open>The unread bytes; the position is inside the buffer.\<close>

definition net_wf :: "net_buffer \<Rightarrow> bool" where
  "net_wf b \<longleftrightarrow> m_curOff b \<le> length (m_bytes b)"

definition unread :: "net_buffer \<Rightarrow> byte list" where
  "unread b = drop (m_curOff b) (m_bytes b)"

lemma bit_le_word:
  "bit (le_word bs :: 'a::len word) i = (i < LENGTH('a) \<and> i div 8 < length bs \<and> bit (bs ! (i div 8)) (i mod 8))"
proof (induction bs arbitrary: i)
  case (Cons c bs)
  show ?case
  proof (cases "i < 8")
    case True
    then show ?thesis by (auto simp: bit_or_iff bit_push_bit_iff bit_ucast_iff)
  next
    case False
    then obtain j where j: "i = j + 8" by (metis add.commute le_Suc_ex not_less)
    have "\<not> bit c (j + 8)" using bit_imp_le_length[of c "j + 8"] by auto
    have "(j + 8) div 8 = Suc (j div 8)" "(j + 8) mod 8 = j mod 8" by simp_all
    then show ?thesis using Cons[of j] \<open>\<not> bit c (j + 8)\<close> by (auto simp: j bit_or_iff bit_push_bit_iff bit_ucast_iff)
  qed
qed simp

lemma length_le_bytes [simp]: "length (le_bytes n w) = n"
  by (simp add: le_bytes_def)

lemma le_word_bytes: "LENGTH('a) \<le> 8 * n \<Longrightarrow> le_word (le_bytes n w) = (w :: 'a::len word)"
proof (rule bit_word_eqI)
  fix i assume "LENGTH('a) \<le> 8 * n" "i < LENGTH('a)"
  then show "bit (le_word (le_bytes n w) :: 'a word) i = bit w i"
    by (simp add: bit_le_word le_bytes_def bit_ucast_iff bit_drop_bit_eq less_mult_imp_div_less)
qed

text \<open>A read of bytes that are there, and of bytes that are not.\<close>

lemma Read_net_fits:
  assumes "net_wf b" "n \<le> length (unread b)" "off + n \<le> length dst"
  shows "Read_net dst off n b = Some (True, take off dst @ take n (unread b) @ drop (off + n) dst,
    b\<lparr>m_end := m_end b \<or> n = length (unread b), m_curOff := m_curOff b + n\<rparr>)"
  using assms by (cases b) (auto simp: Read_net_def Let_def copy_into_def net_wf_def unread_def)

lemma Read_net_short:
  assumes "net_wf b" "length (unread b) < n"
  shows "Read_net dst off n b =
    (if off + 8 \<le> length dst then Some (False, take off dst @ replicate 8 0xCE @ drop (off + 8) dst, b\<lparr>m_end := True\<rparr>) else None)"
  using assms by (auto simp: Read_net_def Let_def copy_into_def net_wf_def unread_def)

lemma Read_value_fits:
  assumes "net_wf b" "length junk \<le> length (unread b)"
  shows "Read_value junk b = Some (le_word (take (length junk) (unread b)),
    b\<lparr>m_end := m_end b \<or> length junk = length (unread b), m_curOff := m_curOff b + length junk\<rparr>)"
  using Read_net_fits[OF assms, of 0 junk] by (simp add: Read_value_def)

lemma Read_value_short:
  assumes "net_wf b" "length (unread b) < length junk" "length junk < 8"
  shows "Read_value junk b = None"
  using Read_net_short[OF assms(1,2), of junk 0] assms(3) by (simp add: Read_value_def)

lemma Read_value_None:
  assumes "net_wf b" "length junk < 8"
  shows "(Read_value junk b :: ('a::len word \<times> net_buffer) option) = None \<longleftrightarrow> length (unread b) < length junk"
proof (cases "length (unread b) < length junk")
  case True
  then show ?thesis using Read_value_short[OF assms(1) _ assms(2)] by simp
next
  case False
  then have "length junk \<le> length (unread b)" by simp
  from Read_value_fits[OF assms(1) this, where 'a = 'a] False show ?thesis by simp
qed

lemma unread_read [simp]: "unread (b\<lparr>m_end := e, m_curOff := m_curOff b + n\<rparr>) = drop n (unread b)"
  by (simp add: unread_def add.commute)

lemma net_wf_read: "net_wf b \<Longrightarrow> n \<le> length (unread b) \<Longrightarrow> net_wf (b\<lparr>m_end := e, m_curOff := m_curOff b + n\<rparr>)"
  by (simp add: net_wf_def unread_def)

text \<open>Numbers that are there, one after the other.\<close>

lemma Read_u8_value:
  assumes "net_wf b" "unread b = w # rest"
  shows "\<exists>b'. Read_u8 b = Some (w, b') \<and> net_wf b' \<and> unread b' = rest"
proof -
  let ?b = "b\<lparr>m_end := m_end b \<or> 1 = length (unread b), m_curOff := m_curOff b + 1\<rparr>"
  have "Read_u8 b = Some (le_word (take 1 (unread b)), ?b)"
    using Read_value_fits[of b "replicate 1 0", where 'a = 8] assms by (simp add: Read_u8_def)
  moreover have "net_wf ?b" by (rule net_wf_read[OF assms(1)]) (simp add: assms(2))
  moreover have "unread ?b = drop 1 (unread b)" by (rule unread_read)
  moreover have "le_word (take 1 (unread b)) = w" "drop 1 (unread b) = rest" using assms(2) by simp_all
  ultimately show ?thesis by metis
qed

lemma Read_u16_value:
  assumes "net_wf b" "unread b = le_bytes 2 (w :: u16) @ rest"
  shows "\<exists>b'. Read_u16 b = Some (w, b') \<and> net_wf b' \<and> unread b' = rest"
proof -
  let ?b = "b\<lparr>m_end := m_end b \<or> 2 = length (unread b), m_curOff := m_curOff b + 2\<rparr>"
  have "Read_u16 b = Some (le_word (take 2 (unread b)), ?b)"
    using Read_value_fits[of b "replicate 2 0"] assms by (simp add: Read_u16_def)
  moreover have "net_wf ?b" using net_wf_read[of b 2] assms by simp
  moreover have "unread ?b = rest" by (subst unread_read) (simp add: assms(2))
  ultimately show ?thesis using assms(2) by (simp add: le_word_bytes)
qed

lemma Read_u32_value:
  assumes "net_wf b" "unread b = le_bytes 4 (w :: u32) @ rest"
  shows "\<exists>b'. Read_u32 b = Some (w, b') \<and> net_wf b' \<and> unread b' = rest"
proof -
  let ?b = "b\<lparr>m_end := m_end b \<or> 4 = length (unread b), m_curOff := m_curOff b + 4\<rparr>"
  have "Read_u32 b = Some (le_word (take 4 (unread b)), ?b)"
    using Read_value_fits[of b "replicate 4 0"] assms by (simp add: Read_u32_def)
  moreover have "net_wf ?b" using net_wf_read[of b 4] assms by simp
  moreover have "unread ?b = rest" by (subst unread_read) (simp add: assms(2))
  ultimately show ?thesis using assms(2) by (simp add: le_word_bytes)
qed

text \<open>Writing at the end appends.\<close>

lemma Write_net_append:
  assumes "m_curOff b = length (m_bytes b)"
  shows "Write_net bs b = Some (b\<lparr>m_bytes := m_bytes b @ bs, m_curOff := m_curOff b + length bs\<rparr>)"
  using assms by (simp add: Write_net_def EnsureWritableSize_def Let_def copy_into_def)

text \<open>C39: A number of one, two or four bytes is read without leaving memory exactly when its bytes are there, and then it is
  the number that they write; the read of a number of eight bytes is always safe, and tells by the end flag that it was short.\<close>

theorem typed_read_in_bounds:
  assumes "net_wf b"
  shows "(Read_u8 b = None) = (GetRemainingBytes b < 1) \<and> (Read_u16 b = None) = (GetRemainingBytes b < 2) \<and>
    (Read_u32 b = None) = (GetRemainingBytes b < 4) \<and>
    (\<forall>w rest. unread b = le_bytes 4 w @ rest \<longrightarrow> map_option fst (Read_u32 b) = Some w) \<and>
    (\<exists>v b'. Read_u64 b = Some (v, b') \<and> net_wf b' \<and> (GetRemainingBytes b < 8 \<longrightarrow> m_end b' \<and> m_curOff b' = m_curOff b))"
proof (intro conjI allI impI)
  have rem: "GetRemainingBytes b = length (unread b)" by (simp add: GetRemainingBytes_def unread_def)
  show "(Read_u8 b = None) = (GetRemainingBytes b < 1)" unfolding Read_u8_def rem using Read_value_None[OF assms, of "replicate 1 0"] by simp
  show "(Read_u16 b = None) = (GetRemainingBytes b < 2)" unfolding Read_u16_def rem using Read_value_None[OF assms, of "replicate 2 0"] by simp
  show "(Read_u32 b = None) = (GetRemainingBytes b < 4)" unfolding Read_u32_def rem using Read_value_None[OF assms, of "replicate 4 0"] by simp
  show "map_option fst (Read_u32 b) = Some w" if "unread b = le_bytes 4 w @ rest" for w rest
    using Read_value_fits[OF assms, of "replicate 4 0", where 'a = 32] that by (simp add: Read_u32_def le_word_bytes)
  show "\<exists>v b'. Read_u64 b = Some (v, b') \<and> net_wf b' \<and> (GetRemainingBytes b < 8 \<longrightarrow> m_end b' \<and> m_curOff b' = m_curOff b)"
  proof (cases "length (unread b) < 8")
    case True
    then have "Read_u64 b = Some (le_word (replicate 8 0xCE), b\<lparr>m_end := True\<rparr>)"
      using Read_net_short[OF assms, of 8 "replicate 8 0" 0] by (simp add: Read_u64_def Read_value_def)
    then show ?thesis using assms by (simp add: net_wf_def)
  next
    case False
    then show ?thesis using Read_value_fits[OF assms, of "replicate 8 0", where 'a = 64] net_wf_read[OF assms, of 8] rem by (simp add: Read_u64_def)
  qed
qed

lemma typed_read_in_bounds_witness:
  "Read_u16 (buffer_of_bytes [7]) = None \<and> map_option fst (Read_u32 (buffer_of_bytes [1, 2, 0, 0, 9])) = Some 0x201"
proof -
  have e: "unread (buffer_of_bytes [1, 2, 0, 0, 9]) = le_bytes 4 (0x201 :: u32) @ [9]" by code_simp
  have "net_wf (buffer_of_bytes bs)" for bs by (simp add: net_wf_def buffer_of_bytes_def)
  note t = typed_read_in_bounds[OF this]
  have "GetRemainingBytes (buffer_of_bytes [7]) < 2" by (simp add: GetRemainingBytes_def buffer_of_bytes_def)
  then have "Read_u16 (buffer_of_bytes [7]) = None" using t[of "[7]"] by blast
  moreover have "map_option fst (Read_u32 (buffer_of_bytes [1, 2, 0, 0, 9])) = Some 0x201" using t[of "[1, 2, 0, 0, 9]"] e by blast
  ultimately show ?thesis by blast
qed

end
