(* ===== verification/Object_Ids.thy ===== *)
theory Object_Ids
  imports Net_Buffer
begin

text \<open>
  The ids of networked objects. The server hands them out (\<open>ServerGameState::SendObjectIds\<close> in
  components/citizen-server-impl/src/state/ServerGameState.cpp), the game keeps a list of free ones
  (components/gta-net-five/src/ObjectIdManager.cpp).
\<close>

section \<open>The server's tables\<close>

definition MaxObjectId :: nat where
  "MaxObjectId = 2 ^ 16 - 1"

definition roundToWord :: "nat \<Rightarrow> nat" where
  "roundToWord val = (val + 7) div 8 * 8"

text \<open>Bit sets of \<open>roundToWord (MaxObjectId)\<close> bits: the ids given to somebody, those of objects, and those that are
  to return to the server when their object is deleted.\<close>

record object_ids =
  m_objectIdsSent :: "nat set"
  m_objectIdsUsed :: "nat set"
  m_objectIdsStolen :: "nat set"

definition no_object_ids :: object_ids where
  "no_object_ids = \<lparr>m_objectIdsSent = {}, m_objectIdsUsed = {}, m_objectIdsStolen = {}\<rparr>"

definition id_free :: "object_ids \<Rightarrow> nat \<Rightarrow> bool" where
  "id_free ids i \<longleftrightarrow> i \<notin> m_objectIdsSent ids \<and> i \<notin> m_objectIdsUsed ids"

text \<open>The inner loop of \<open>SendObjectIds\<close>: the first free id that is not below \<open>id\<close>.\<close>

function next_free :: "object_ids \<Rightarrow> nat \<Rightarrow> nat option" where
  "next_free ids i =
     (if i < roundToWord MaxObjectId then (if id_free ids i then Some i else next_free ids (i + 1)) else None)"
  by auto

termination by (relation "measure (\<lambda>(ids, i). roundToWord MaxObjectId - i)") auto

declare next_free.simps [simp del]

fun gather_ids :: "nat \<Rightarrow> nat \<Rightarrow> object_ids \<Rightarrow> nat list \<times> object_ids" where
  "gather_ids 0 i ids = ([], ids)"
| "gather_ids (Suc n) i ids =
     (case next_free ids i of
        None \<Rightarrow> ([], ids)
      | Some j \<Rightarrow>
          (case gather_ids n j (ids\<lparr>m_objectIdsSent := insert j (m_objectIdsSent ids)\<rparr>) of
             (js, ids) \<Rightarrow> (j # js, ids)))"

section \<open>The message\<close>

text \<open>The rest of a run of consecutive ids behind \<open>prev\<close>: how many, the last of them, and what follows.\<close>

fun run_behind :: "nat \<Rightarrow> nat list \<Rightarrow> nat \<times> nat \<times> nat list" where
  "run_behind prev [] = (0, prev, [])"
| "run_behind prev (i # js) =
     (if i = prev + 1 then (case run_behind i js of (len, prev, rest) \<Rightarrow> (len + 1, prev, rest)) else (0, prev, i # js))"

lemma length_run_behind: "length (snd (snd (run_behind prev js))) \<le> length js"
  by (induction prev js rule: run_behind.induct) (auto split: prod.split)

function id_pairs :: "int \<Rightarrow> nat list \<Rightarrow> (int \<times> nat) list" where
  "id_pairs prev [] = []"
| "id_pairs prev (i # js) =
     (case run_behind i js of (len, prev', rest) \<Rightarrow> (int i - 2 - prev, len) # id_pairs (int prev') rest)"
  by pat_completeness auto

termination by (relation "measure (\<lambda>(prev, js). length js)") (auto, metis length_run_behind le_imp_less_Suc snd_conv)

fun write_pairs :: "(int \<times> nat) list \<Rightarrow> net_buffer \<Rightarrow> net_buffer option" where
  "write_pairs [] b = Some b"
| "write_pairs ((gap, len) # ps) b = do {
     b \<leftarrow> Write_u16 (word_of_int gap) b;
     b \<leftarrow> Write_u16 (word_of_nat len) b;
     write_pairs ps b }"

text \<open>\<open>message\<close> is the hash of the name \<open>msgObjectIds\<close>. The ids are also put into the set of the client, see the entities.\<close>

definition object_ids_packet :: "u32 \<Rightarrow> nat list \<Rightarrow> net_buffer option" where
  "object_ids_packet message ids = do {
     b \<leftarrow> Write_u32 message empty_buffer;
     b \<leftarrow> Write_u16 (word_of_nat (length (id_pairs (- 1) ids))) b;
     write_pairs (id_pairs (- 1) ids) b }"

section \<open>The game\<close>

record game_ids =
  g_objectIds :: "nat list"
  g_usedObjectIds :: "nat set"
  g_stolenObjectIds :: "nat set"
  g_requestedIds :: bool

definition no_game_ids :: game_ids where
  "no_game_ids = \<lparr>g_objectIds = [], g_usedObjectIds = {}, g_stolenObjectIds = {}, g_requestedIds = False\<rparr>"

text \<open>The loop of the handler of \<open>msgObjectIds\<close>.\<close>

fun read_pairs :: "nat \<Rightarrow> nat \<Rightarrow> net_buffer \<Rightarrow> (nat list \<times> net_buffer) option" where
  "read_pairs 0 prev b = Some ([], b)"
| "read_pairs (Suc n) prev b = do {
     (skip, b) \<leftarrow> Read_u16 b;
     (taken, b) \<leftarrow> Read_u16 b;
     let first = prev + unat skip + 1; let next = first + unat taken + 1;
     (ids, b) \<leftarrow> read_pairs n next b;
     Some ([first..<next] @ ids, b) }"

definition receive_object_ids :: "byte list \<Rightarrow> game_ids \<Rightarrow> game_ids option" where
  "receive_object_ids data g = do {
     (numIds, b) \<leftarrow> Read_u16 (buffer_of_bytes data);
     (ids, _) \<leftarrow> read_pairs (unat numIds) 0 b;
     Some (g\<lparr>g_objectIds := g_objectIds g @ ids, g_stolenObjectIds := g_stolenObjectIds g - set ids, g_requestedIds := False\<rparr>) }"

text \<open>The hooks of the game; 0 is not an id.\<close>

definition AssignObjectId :: "game_ids \<Rightarrow> nat \<times> game_ids" where
  "AssignObjectId g =
     (case g_objectIds g of
        [] \<Rightarrow> (0, g)
      | i # js \<Rightarrow> (i, g\<lparr>g_objectIds := js, g_stolenObjectIds := g_stolenObjectIds g - {i}, g_usedObjectIds := insert i (g_usedObjectIds g)\<rparr>))"

text \<open>\<open>old\<close> says that the protocol is older than 0x201903031957; \<open>removing\<close> is \<open>IsRemovingObjectId\<close> of the clone manager.\<close>

definition ReturnObjectId :: "bool \<Rightarrow> bool \<Rightarrow> nat \<Rightarrow> game_ids \<Rightarrow> bool \<times> game_ids" where
  "ReturnObjectId old removing i g =
     (if i \<in> g_usedObjectIds g then
        let g = g\<lparr>g_usedObjectIds := g_usedObjectIds g - {i}\<rparr>;
            g = (if (old \<or> i \<notin> g_stolenObjectIds g) \<and> \<not> removing then g\<lparr>g_objectIds := g_objectIds g @ [i]\<rparr> else g)
        in (True, g\<lparr>g_stolenObjectIds := g_stolenObjectIds g - {i}\<rparr>)
      else (False, g))"

definition HasSpaceForObjectId :: "nat \<Rightarrow> game_ids \<Rightarrow> bool" where
  "HasSpaceForObjectId num g \<longleftrightarrow> num \<le> length (g_objectIds g)"

text \<open>\<open>remove1\<close> is the loop that erases the first occurrence.\<close>

definition AddObjectId :: "nat \<Rightarrow> game_ids \<Rightarrow> game_ids" where
  "AddObjectId i g =
     (let wasOurs = i \<in> set (g_objectIds g);
          g = g\<lparr>g_usedObjectIds := insert i (g_usedObjectIds g), g_objectIds := remove1 i (g_objectIds g)\<rparr>
      in if wasOurs then g else g\<lparr>g_stolenObjectIds := insert i (g_stolenObjectIds g)\<rparr>)"

definition ConfirmObjectId :: "nat \<Rightarrow> game_ids \<Rightarrow> game_ids" where
  "ConfirmObjectId i g = g\<lparr>g_objectIds := g_objectIds g @ [i]\<rparr>"

definition StealObjectId :: "nat \<Rightarrow> game_ids \<Rightarrow> game_ids" where
  "StealObjectId i g =
     (if i \<in> g_usedObjectIds g then g\<lparr>g_stolenObjectIds := insert i (g_stolenObjectIds g)\<rparr>
      else g\<lparr>g_objectIds := remove1 i (g_objectIds g)\<rparr>)"

definition RemoveObjectId :: "nat \<Rightarrow> game_ids \<Rightarrow> game_ids" where
  "RemoveObjectId i g = g\<lparr>g_usedObjectIds := g_usedObjectIds g - {i}, g_stolenObjectIds := g_stolenObjectIds g - {i}\<rparr>"

text \<open>Each frame of the game while it is connected: whether it asks for more.\<close>

definition request_frame :: "bool \<Rightarrow> game_ids \<Rightarrow> bool \<times> game_ids" where
  "request_frame big g =
     (if length (g_objectIds g) < (if big then 4 else 16) \<and> \<not> g_requestedIds g
      then (True, g\<lparr>g_requestedIds := True\<rparr>) else (False, g))"

end
