(* ===== verification/Object_Id_Properties.thy ===== *)
theory Object_Id_Properties
  imports Object_Ids
begin

text \<open>
  The server gives out ids that nobody has, the game receives the ids that were sent, and the game never gives an object
  an id that another of its objects has.
\<close>

section \<open>Gathering\<close>

lemma next_free_Some:
  "next_free ids i = Some j \<Longrightarrow> i \<le> j \<and> j < roundToWord MaxObjectId \<and> id_free ids j \<and> (\<forall>k. i \<le> k \<and> k < j \<longrightarrow> \<not> id_free ids k)"
proof (induction ids i rule: next_free.induct)
  case (1 ids i)
  show ?case
  proof (cases "i < roundToWord MaxObjectId \<and> \<not> id_free ids i")
    case True
    then have "next_free ids (i + 1) = Some j" using 1(2) by (simp add: next_free.simps[of ids i])
    then have IH: "i + 1 \<le> j \<and> j < roundToWord MaxObjectId \<and> id_free ids j \<and> (\<forall>k. i + 1 \<le> k \<and> k < j \<longrightarrow> \<not> id_free ids k)"
      using 1(1) True by blast
    have "\<not> id_free ids k" if "i \<le> k" "k < j" for k using that IH True by (cases "k = i") auto
    then show ?thesis using IH by simp
  next
    case False
    then show ?thesis using 1(2) by (auto simp: next_free.simps[of ids i] split: if_splits)
  qed
qed

lemma next_free_None:
  "next_free ids i = None \<Longrightarrow> i \<le> k \<Longrightarrow> k < roundToWord MaxObjectId \<Longrightarrow> \<not> id_free ids k"
proof (induction ids i rule: next_free.induct)
  case (1 ids i)
  then show ?case by (cases "k = i") (auto simp: next_free.simps[of ids i] split: if_splits)
qed

lemma gather_ids_value:
  "gather_ids n i ids = (js, ids') \<Longrightarrow>
     sorted_wrt (<) js \<and> (\<forall>j \<in> set js. i \<le> j \<and> j < roundToWord MaxObjectId \<and> id_free ids j) \<and> length js \<le> n \<and>
     ids' = ids\<lparr>m_objectIdsSent := m_objectIdsSent ids \<union> set js\<rparr> \<and>
     (length js < n \<longrightarrow> (\<forall>k. i \<le> k \<and> k < roundToWord MaxObjectId \<longrightarrow> \<not> id_free ids' k))"
proof (induction n arbitrary: i ids js ids')
  case (Suc n)
  show ?case
  proof (cases "next_free ids i")
    case None
    then show ?thesis using Suc.prems next_free_None[OF None] by simp
  next
    case (Some j)
    let ?ids = "ids\<lparr>m_objectIdsSent := insert j (m_objectIdsSent ids)\<rparr>"
    obtain js' where g: "gather_ids n j ?ids = (js', ids')" "js = j # js'" using Suc.prems Some by (auto split: prod.splits)
    note j = next_free_Some[OF Some] and IH = Suc.IH[OF g(1)]
    have free: "id_free ?ids k \<longleftrightarrow> id_free ids k \<and> k \<noteq> j" for k by (auto simp: id_free_def)
    have ids': "ids' = ids\<lparr>m_objectIdsSent := m_objectIdsSent ids \<union> set js\<rparr>" using IH g(2) by simp
    have "\<not> id_free ids' k" if "length js < Suc n" "i \<le> k" "k < roundToWord MaxObjectId" for k
    proof (cases "j \<le> k")
      case True
      then show ?thesis using IH that g(2) by auto
    next
      case False
      then have "\<not> id_free ids k" using j that(2) by simp
      then show ?thesis by (auto simp: id_free_def ids')
    qed
    moreover have "\<forall>k \<in> set js'. j < k" using IH free j by (metis le_neq_implies_less)
    moreover have "\<forall>k \<in> set js'. i \<le> k \<and> k < roundToWord MaxObjectId \<and> id_free ids k" using IH free j by fastforce
    moreover have "sorted_wrt (<) js'" "length js' \<le> n" using IH by simp_all
    ultimately show ?thesis using j g(2) ids' by simp
  qed
qed simp

section \<open>The message\<close>

lemma run_behind_value:
  "run_behind prev js = (len, prev', rest) \<Longrightarrow> sorted_wrt (<) (prev # js) \<Longrightarrow>
     js = [prev + 1..<prev + len + 1] @ rest \<and> prev' = prev + len \<and> len \<le> length js \<and> (\<forall>j \<in> set rest. prev' + 1 < j)"
proof (induction prev js arbitrary: len prev' rest rule: run_behind.induct)
  case (2 prev i js)
  show ?case
  proof (cases "i = prev + 1")
    case True
    then obtain len' where r: "run_behind i js = (len', prev', rest)" "len = len' + 1"
      using 2(2) by (auto split: prod.splits)
    have IH: "js = [i + 1..<i + len' + 1] @ rest \<and> prev' = i + len' \<and> len' \<le> length js \<and> (\<forall>j \<in> set rest. prev' + 1 < j)"
      by (rule 2(1)[OF True r(1)]) (use 2(3) in simp)
    have e: "[prev + 1..<prev + len + 1] = i # [i + 1..<i + len' + 1]" using True r(2) by (simp add: upt_conv_Cons)
    show ?thesis unfolding e using IH True r(2) by (elim conjE) (intro conjI; simp del: upt_Suc)
  next
    case False
    then have "prev + 1 < i" "\<forall>j \<in> set js. i < j" using 2(3) by auto
    then show ?thesis using False 2(2) by fastforce
  qed
qed simp

text \<open>The bytes of the pairs.\<close>

definition pair_bytes :: "(int \<times> nat) list \<Rightarrow> byte list" where
  "pair_bytes ps = concat (map (\<lambda>(gap, len). le_bytes 2 (word_of_int gap :: u16) @ le_bytes 2 (word_of_nat len :: u16)) ps)"

lemma write_pairs_value:
  "m_curOff b = length (m_bytes b) \<Longrightarrow>
     write_pairs ps b = Some (b\<lparr>m_bytes := m_bytes b @ pair_bytes ps, m_curOff := m_curOff b + length (pair_bytes ps)\<rparr>)"
proof (induction ps arbitrary: b)
  case (Cons p ps)
  then show ?case by (cases p) (simp add: Write_u16_def Write_net_append pair_bytes_def)
qed (simp add: pair_bytes_def)

lemma object_ids_packet_value:
  "\<exists>b. object_ids_packet message ids = Some b \<and>
     m_bytes b = le_bytes 4 message @ le_bytes 2 (word_of_nat (length (id_pairs (- 1) ids)) :: u16) @ pair_bytes (id_pairs (- 1) ids)"
  by (simp add: object_ids_packet_def empty_buffer_def buffer_of_bytes_def Write_u32_def Write_u16_def Write_net_append write_pairs_value)

lemma length_id_pairs: "length (id_pairs prev js) \<le> length js"
proof (induction prev js rule: id_pairs.induct)
  case (2 prev i js)
  obtain len prev' rest where r: "run_behind i js = (len, prev', rest)" by (cases "run_behind i js")
  then show ?case using 2[OF r[symmetric] refl] length_run_behind[of i js] by simp
qed simp

text \<open>What is written for increasing ids is read as these ids; \<open>nxt\<close> is the id behind the last one.\<close>

lemma read_pairs_value:
  assumes "sorted_wrt (<) js" "\<forall>j \<in> set js. nxt < j \<and> j < 2 ^ 16" "ps = id_pairs (int nxt - 1) js"
    "net_wf b" "unread b = pair_bytes ps @ rest"
  shows "\<exists>b'. read_pairs (length ps) nxt b = Some (js, b') \<and> net_wf b' \<and> unread b' = rest"
  using assms
proof (induction js arbitrary: nxt ps b rule: length_induct)
  case (1 js)
  show ?case
  proof (cases js)
    case Nil
    then show ?thesis using 1(4-6) by (simp add: pair_bytes_def)
  next
    case (Cons i js')
    obtain len prev' tail where r: "run_behind i js' = (len, prev', tail)" by (cases "run_behind i js'")
    have js': "js' = [i + 1..<i + len + 1] @ tail" "prev' = i + len" "len \<le> length js'" "\<forall>j \<in> set tail. prev' + 1 < j"
      using run_behind_value[OF r] 1(2) Cons by auto
    have i: "nxt < i" "i < 2 ^ 16" using 1(3) Cons by auto
    have last: "i + len < 2 ^ 16"
    proof (cases len)
      case 0
      then show ?thesis using i by simp
    next
      case (Suc m)
      then have "i + len \<in> set js" using js'(1) Cons by auto
      then show ?thesis using 1(3) by blast
    qed
    define gap where "gap = int i - 2 - (int nxt - 1)"
    have ps: "ps = (gap, len) # id_pairs (int prev') tail" using 1(4) Cons r by (simp add: gap_def)
    have "gap = int (i - nxt - 1)" using i by (simp add: gap_def of_nat_diff)
    then have "(word_of_int gap :: u16) = word_of_nat (i - nxt - 1)" by (simp only: of_int_of_nat_eq)
    moreover have "i - nxt - 1 < 2 ^ 16" "len < 2 ^ 16" using i last by linarith+
    ultimately have gap: "unat (word_of_int gap :: u16) = i - nxt - 1" "unat (word_of_nat len :: u16) = len"
      by (simp_all only: unat_of_nat) (simp_all add: unat_of_nat)
    have b: "unread b = le_bytes 2 (word_of_int gap :: u16) @ le_bytes 2 (word_of_nat len :: u16) @
        pair_bytes (id_pairs (int prev') tail) @ rest"
      using 1(6) ps by (simp add: pair_bytes_def)
    obtain b1 where b1: "Read_u16 b = Some (word_of_int gap, b1)" "net_wf b1"
      "unread b1 = le_bytes 2 (word_of_nat len :: u16) @ pair_bytes (id_pairs (int prev') tail) @ rest"
      using Read_u16_value[OF 1(5) b] by blast
    obtain b2 where b2: "Read_u16 b1 = Some (word_of_nat len, b2)" "net_wf b2" "unread b2 = pair_bytes (id_pairs (int prev') tail) @ rest"
      using Read_u16_value[OF b1(2,3)] by blast
    have "sorted_wrt (<) ([i + 1..<i + len + 1] @ tail)" using 1(2) Cons js'(1) by simp
    then have "sorted_wrt (<) tail" by (simp only: sorted_wrt_append)
    moreover have "\<forall>j \<in> set tail. prev' + 1 < j \<and> j < 2 ^ 16" using 1(3) Cons js'(1,4) by auto
    moreover have "length tail < length js" using length_run_behind[of i js'] r Cons by simp
    ultimately obtain b3 where b3: "read_pairs (length (id_pairs (int prev') tail)) (prev' + 1) b2 = Some (tail, b3)" "net_wf b3" "unread b3 = rest"
      using 1(1) b2(2,3) by force
    have "nxt + (i - nxt - 1) + 1 = i" "i + len + 1 = prev' + 1" "[i..<prev' + 1] @ tail = js"
      using i js'(1,2) Cons by (simp_all add: upt_conv_Cons)
    then show ?thesis using b1(1) b2(1) b3 gap ps by (simp add: Let_def del: upt_Suc)
  qed
qed

text \<open>C38: The ids that the server hands to a client are as many as it asked for or all that are free, were free before and are
  marked as given away; and the game receives exactly these ids, in order, behind those it has.\<close>

theorem object_ids_received:
  assumes "n < 2 ^ 16" "gather_ids n 1 ids = (given, ids')" "object_ids_packet message given = Some packet"
  shows "\<exists>g'. receive_object_ids (drop 4 (m_bytes packet)) g = Some g' \<and> g_objectIds g' = g_objectIds g @ given \<and>
    distinct given \<and> (\<forall>i \<in> set given. 1 \<le> i \<and> i < 2 ^ 16 \<and> id_free ids i) \<and>
    m_objectIdsSent ids' = m_objectIdsSent ids \<union> set given \<and>
    (length given = n \<or> (\<forall>i. 1 \<le> i \<and> i < 2 ^ 16 \<longrightarrow> \<not> id_free ids' i))"
proof -
  let ?ps = "id_pairs (- 1) given"
  have size: "roundToWord MaxObjectId = 2 ^ 16" by (simp add: roundToWord_def MaxObjectId_def)
  note g = gather_ids_value[OF assms(2), unfolded size]
  have given: "sorted_wrt (<) given" "\<forall>i \<in> set given. 0 < i \<and> i < 2 ^ 16" "length given \<le> n" using g by auto
  have len: "unat (word_of_nat (length ?ps) :: u16) = length ?ps"
    using length_id_pairs[of "- 1" given] given(3) assms(1) by (simp add: unat_of_nat)
  let ?b = "buffer_of_bytes (drop 4 (m_bytes packet))"
  have "unread ?b = le_bytes 2 (word_of_nat (length ?ps) :: u16) @ pair_bytes ?ps @ []" "net_wf ?b"
    using object_ids_packet_value[of message given] assms(3) by (auto simp: unread_def buffer_of_bytes_def net_wf_def)
  then obtain b1 where b1: "Read_u16 ?b = Some (word_of_nat (length ?ps), b1)" "net_wf b1" "unread b1 = pair_bytes ?ps @ []"
    using Read_u16_value by blast
  obtain b2 where "read_pairs (length ?ps) 0 b1 = Some (given, b2)"
    using read_pairs_value[OF given(1,2) _ b1(2,3)] by auto
  then have "receive_object_ids (drop 4 (m_bytes packet)) g = Some (g\<lparr>g_objectIds := g_objectIds g @ given,
      g_stolenObjectIds := g_stolenObjectIds g - set given, g_requestedIds := False\<rparr>)"
    using b1(1) len by (simp add: receive_object_ids_def)
  moreover have "distinct given" using given(1) by (simp add: strict_sorted_iff)
  ultimately show ?thesis using g given(3) by (auto simp: le_neq_implies_less)
qed

lemma object_ids_received_witness:
  "\<exists>packet g'. object_ids_packet 7 [1, 3, 4] = Some packet \<and> receive_object_ids (drop 4 (m_bytes packet)) no_game_ids = Some g' \<and>
     g_objectIds g' = [1, 3, 4]"
proof -
  let ?ids = "no_object_ids\<lparr>m_objectIdsUsed := {2}\<rparr>"
  have "gather_ids 3 1 ?ids = ([1, 3, 4], ?ids\<lparr>m_objectIdsSent := {1, 3, 4}\<rparr>)"
    by (simp add: numeral_3_eq_3 next_free.simps roundToWord_def MaxObjectId_def id_free_def no_object_ids_def insert_commute)
      (simp add: eval_nat_numeral)
  moreover obtain packet where p: "object_ids_packet 7 [1, 3, 4] = Some packet" using object_ids_packet_value by metis
  ultimately show ?thesis using object_ids_received[OF _ _ p, of 3 ?ids _ no_game_ids] p by (auto simp: no_game_ids_def)
qed

section \<open>The ids of one game\<close>

text \<open>
  What the game does with its ids. The clone manager confirms the removal of an object only once its id is out of use, and the
  server sends ids that are new to the client.
\<close>

inductive game_step :: "game_ids \<Rightarrow> game_ids \<Rightarrow> bool" where
  assign: "game_step g (snd (AssignObjectId g))"
| give_back: "game_step g (snd (ReturnObjectId old removing i g))"
| take_over: "game_step g (AddObjectId i g)"
| confirm: "i \<notin> set (g_objectIds g) \<Longrightarrow> i \<notin> g_usedObjectIds g \<Longrightarrow> game_step g (ConfirmObjectId i g)"
| steal: "game_step g (StealObjectId i g)"
| forget: "game_step g (RemoveObjectId i g)"
| receive: "receive_object_ids data g = Some g' \<Longrightarrow> g_objectIds g' = g_objectIds g @ ids \<Longrightarrow> distinct ids \<Longrightarrow>
    set ids \<inter> (set (g_objectIds g) \<union> g_usedObjectIds g) = {} \<Longrightarrow> game_step g g'"
| frame: "game_step g (snd (request_frame big g))"

inductive game_reachable :: "game_ids \<Rightarrow> bool" where
  start: "game_reachable no_game_ids"
| step: "game_reachable g \<Longrightarrow> game_step g g' \<Longrightarrow> game_reachable g'"

definition game_ids_ok :: "game_ids \<Rightarrow> bool" where
  "game_ids_ok g \<longleftrightarrow> distinct (g_objectIds g) \<and> set (g_objectIds g) \<inter> g_usedObjectIds g = {}"

lemma receive_used: "receive_object_ids data g = Some g' \<Longrightarrow> g_usedObjectIds g' = g_usedObjectIds g"
  by (auto simp: receive_object_ids_def split: bind_splits)

lemma game_ids_ok_step: "game_step g g' \<Longrightarrow> game_ids_ok g \<Longrightarrow> game_ids_ok g'"
proof (induction rule: game_step.induct)
  case (assign g)
  then show ?case by (auto simp: game_ids_ok_def AssignObjectId_def split: list.splits)
next
  case (give_back g old removing i)
  then show ?case by (auto simp: game_ids_ok_def ReturnObjectId_def Let_def)
next
  case (take_over g i)
  then show ?case by (auto simp: game_ids_ok_def AddObjectId_def Let_def)
next
  case (confirm i g)
  then show ?case by (auto simp: game_ids_ok_def ConfirmObjectId_def)
next
  case (steal g i)
  then show ?case by (auto simp: game_ids_ok_def StealObjectId_def)
next
  case (forget g i)
  then show ?case by (auto simp: game_ids_ok_def RemoveObjectId_def)
next
  case (receive data g g' ids)
  then show ?case using receive_used[OF receive(1)] by (auto simp: game_ids_ok_def)
next
  case (frame g big)
  then show ?case by (auto simp: game_ids_ok_def request_frame_def)
qed

text \<open>The id that a new object gets is one that no object of the game has, and is not given out again before it comes back.\<close>

theorem assigned_id_unused:
  assumes "game_reachable g" "AssignObjectId g = (i, g')" "g_objectIds g \<noteq> []"
  shows "i \<notin> g_usedObjectIds g \<and> i \<in> g_usedObjectIds g' \<and> i \<notin> set (g_objectIds g')"
proof -
  have "game_ids_ok g" using assms(1) by (induction rule: game_reachable.induct) (simp add: game_ids_ok_def no_game_ids_def, rule game_ids_ok_step)
  then show ?thesis using assms(2,3) by (auto simp: game_ids_ok_def AssignObjectId_def split: list.splits)
qed

end
