(* ===== verification/Sync_Entities.thy ===== *)
theory Sync_Entities
  imports Object_Ids Client_Registry Message_Buffer Std_Containers
begin

text \<open>
  The entities of the server's game state (components/citizen-server-impl: include/state/ServerGameState.h and
  src/state/ServerGameState.cpp): who owns an entity, how it is handed over, what happens to it when its owner leaves, and how
  it is deleted. Entities are objects; the list \<open>m_entityList\<close> and the data of clients own them, the table by id holds weak
  references. What the code runs later on the main thread or on the sync thread is in two queues.
\<close>

section \<open>The state\<close>

text \<open>What a sync tree tells and does; the trees follow the layout of the game's nodes and are any type here.\<close>

record dummy_object =
  hasRelatedDummy :: bool
  hasFragGroup :: bool
  hasExploded :: bool
  explodingEntityExploded :: bool

record 't sync_env =
  server :: server_env
  IsLengthHack :: bool
  MakeSyncTree :: "nat \<Rightarrow> 't option"
  ParseTree :: "nat \<Rightarrow> u32 \<Rightarrow> byte list \<Rightarrow> 't \<Rightarrow> 't"
  ClearAcks :: "'t \<Rightarrow> 't"
  ClearAcksOf :: "nat \<Rightarrow> 't \<Rightarrow> 't"
  TreeScriptHash :: "'t \<Rightarrow> u32"
  GetPopulationType :: "'t \<Rightarrow> nat option"
  GetDummyObjectState :: "'t \<Rightarrow> dummy_object option"
  HasTask :: "'t \<Rightarrow> bool option"
  GetAttachment :: "'t \<Rightarrow> (nat \<times> u32) option"
  AtOrigin :: "'t \<Rightarrow> bool"
  FocusDistance :: "'t option \<Rightarrow> 't \<Rightarrow> nat option"
  PedVehicle :: "'t \<Rightarrow> (nat \<times> nat) option"
  LeaveSeat :: "nat \<Rightarrow> nat \<Rightarrow> 't \<Rightarrow> 't"
  CreateVeto :: "'t \<Rightarrow> bool"
  compressBound :: "nat \<Rightarrow> nat"

text \<open>\<open>NetObjEntityType\<close>, as far as the code asks for it.\<close>

definition Ped :: nat where
  "Ped = 6"

definition PickupPlacement :: nat where
  "PickupPlacement = 8"

definition Player :: nat where
  "Player = 11"

definition Train :: nat where
  "Train = 13"

record 't entity =
  e_type :: nat
  e_timestamp :: u32
  lastOutOfBandTimestamp :: u32
  e_frameIndex :: nat
  lastFrameIndex :: nat
  e_uniqifier :: u16
  creationToken :: u32
  e_routingBucket :: u32
  relevantTo :: "nat set"
  deletedFor :: "nat set"
  outOfScopeFor :: "nat set"
  lastFramesSent :: "nat \<Rightarrow> nat"
  lastFramesPreSent :: "nat \<Rightarrow> nat"
  createdAt :: int
  lastReceivedAt :: int
  lastMigratedAt :: int
  syncTree :: "'t option"
  e_handle :: nat
  deleting :: bool
  finalizing :: bool
  hasSynced :: bool
  passedFilter :: bool
  wantsReassign :: bool
  firstOwnerDropped :: bool
  e_client :: "nat option"
  e_firstOwner :: "nat option"
  e_lastOwner :: "nat option"
  e_stateBag :: "nat option"

definition blank_entity :: "nat \<Rightarrow> nat \<Rightarrow> 't entity" where
  "blank_entity type h = \<lparr>e_type = type, e_timestamp = 0, lastOutOfBandTimestamp = 0, e_frameIndex = 0, lastFrameIndex = 0,
     e_uniqifier = 0, creationToken = 0, e_routingBucket = 0, relevantTo = {}, deletedFor = {}, outOfScopeFor = {},
     lastFramesSent = (\<lambda>_. 0), lastFramesPreSent = (\<lambda>_. 0), createdAt = 0, lastReceivedAt = 0, lastMigratedAt = 0, syncTree = None, e_handle = h,
     deleting = False, finalizing = False, hasSynced = False, passedFilter = False, wantsReassign = False,
     firstOwnerDropped = False, e_client = None, e_firstOwner = None, e_lastOwner = None, e_stateBag = None\<rparr>"

text \<open>What the server keeps for a client, made when it is first asked for.\<close>

record synced_entity =
  nextSync :: int
  syncDelta :: int
  sy_entity :: nat
  forceUpdate :: bool
  hasCreated :: bool
  hasNAckedCreate :: bool

record deletion =
  outOfScope :: bool
  forceSteal :: bool

text \<open>\<open>MakeHandleUniqifierPair\<close>: the key of an entity in the tables of a client.\<close>

type_synonym ident = u32

definition MakeHandleUniqifierPair :: "nat \<Rightarrow> u16 \<Rightarrow> ident" where
  "MakeHandleUniqifierPair objectId uniqifier = push_bit 16 (word_of_nat objectId) OR ucast uniqifier"

definition DeconstructHandleUniqifierPair :: "ident \<Rightarrow> u16 \<times> u16" where
  "DeconstructHandleUniqifierPair k = (ucast (drop_bit 16 k), ucast k)"

text \<open>What a client was sent in one frame: the entities with the frame they were sent against, and the deletions.\<close>

record sent_entity =
  entityWeak :: nat
  lastSent :: nat
  isCreated :: bool

record frame_state =
  fs_syncedEntities :: "(nat, sent_entity) omap"
  fs_deletions :: "(ident \<times> deletion) list"

record client_data =
  ackBuffer :: msgbuf
  c_objectIds :: "nat set"
  playerEntity :: "nat option"
  pendingCreates :: "ident \<Rightarrow> nat option"
  syncedEntities :: "(ident, synced_entity) omap"
  entitiesToDestroy :: "(ident \<times> nat option \<times> deletion) list"
  frameStates :: "(nat, frame_state) omap"
  firstSavedFrameState :: nat
  syncTs :: u32
  ackTs :: u32
  fidx :: u32
  playersToSlots :: "u32 \<Rightarrow> nat option"
  playersInScope :: "nat set"
  c_routingBucket :: u32

definition new_client_data :: client_data where
  "new_client_data = \<lparr>ackBuffer = mb_of_size 16384, c_objectIds = {}, playerEntity = None, pendingCreates = (\<lambda>_. None),
     syncedEntities = [], entitiesToDestroy = [], frameStates = [], firstSavedFrameState = 0, syncTs = 0, ackTs = 0, fidx = 0, playersToSlots = (\<lambda>_. None),
     playersInScope = {}, c_routingBucket = 0\<rparr>"

datatype lockdown = Inactive | Dummy | Relaxed | Strict

record routing_bucket =
  lockdownMode :: "lockdown option"
  noPopulation :: bool

text \<open>What is written to a client at the end of a tick: a removal (stolen, id, uniqifier), or an entity's data (entity, 1 to create
  and 2 to update, the frame it is written against, the frame of the data, whether it is the first update, whether it was forced).
  Calls to other components, and the callbacks handed to the two threads.\<close>

datatype sync_command =
    Write_removal bool u16 u16
  | Write_sync nat nat nat nat bool bool

datatype game_call =
    Set_bag_owner nat int
  | Add_routing_target nat u32
  | Remove_routing_target nat u32
  | Player_dropped u32 u32 nat
  | Player_joining u32 u32 nat
  | Player_left_scope u32 u32
  | Player_entered_scope u32 u32
  | Send_array_data nat
  | Execute_commands nat nat "sync_command list"
  | Send_world_grid nat
  | Create_ped nat
  | Set_player_entity nat nat
  | Send_packed string nat u32 "byte list"
  | Entity_event string nat

datatype main_task = Entity_creating nat | Entity_removed nat nat
datatype sync_task = Remove_entity nat | Do_remove nat nat

record 't game_state =
  entities :: "nat \<Rightarrow> 't entity option"
  next_entity :: nat
  m_entitiesById :: "nat \<Rightarrow> nat option"
  m_entityList :: "nat list"
  ids :: object_ids
  data_of :: "nat \<Rightarrow> client_data"
  m_frameIndex :: nat
  m_entityLockdownMode :: lockdown
  m_routingData :: "u32 \<Rightarrow> routing_bucket option"
  entityCreationList :: "u32 \<Rightarrow> bool option"
  main_tasks :: "main_task list"
  sync_tasks :: "sync_task list"
  calls :: "game_call list"

definition new_game_state :: "'t game_state" where
  "new_game_state = \<lparr>entities = (\<lambda>_. None), next_entity = 0, m_entitiesById = (\<lambda>_. None), m_entityList = [],
     ids = no_object_ids, data_of = (\<lambda>_. new_client_data), m_frameIndex = 1, m_entityLockdownMode = Inactive,
     m_routingData = (\<lambda>_. None), entityCreationList = (\<lambda>_. None), main_tasks = [], sync_tasks = [], calls = []\<rparr>"

section \<open>Access\<close>

definition change_entity :: "nat \<Rightarrow> ('t entity \<Rightarrow> 't entity) \<Rightarrow> 't game_state \<Rightarrow> 't game_state" where
  "change_entity a f gs = gs\<lparr>entities := (entities gs)(a := map_option f (entities gs a))\<rparr>"

definition change_data :: "nat \<Rightarrow> (client_data \<Rightarrow> client_data) \<Rightarrow> 't game_state \<Rightarrow> 't game_state" where
  "change_data c f gs = gs\<lparr>data_of := (data_of gs)(c := f (data_of gs c))\<rparr>"

definition change_ids :: "(object_ids \<Rightarrow> object_ids) \<Rightarrow> 't game_state \<Rightarrow> 't game_state" where
  "change_ids f gs = gs\<lparr>ids := f (ids gs)\<rparr>"

definition call :: "game_call \<Rightarrow> 't game_state \<Rightarrow> 't game_state" where
  "call x gs = gs\<lparr>calls := calls gs @ [x]\<rparr>"

text \<open>The weak reference in the table locks while the entity lives.\<close>

definition GetEntity :: "nat \<Rightarrow> 't game_state \<Rightarrow> (nat \<times> 't entity) option" where
  "GetEntity i gs =
     (if MaxObjectId \<le> i then None
      else case m_entitiesById gs i of None \<Rightarrow> None | Some a \<Rightarrow> map_option (Pair a) (entities gs a))"

definition GetClient :: "registry \<Rightarrow> 't entity \<Rightarrow> nat option" where
  "GetClient reg e = lock reg (e_client e)"

definition GetFirstOwner :: "registry \<Rightarrow> 't entity \<Rightarrow> nat option" where
  "GetFirstOwner reg e = lock reg (e_firstOwner e)"

definition GetLastOwner :: "registry \<Rightarrow> 't entity \<Rightarrow> nat option" where
  "GetLastOwner reg e = lock reg (e_lastOwner e)"

definition GetNetId :: "registry \<Rightarrow> nat \<Rightarrow> u32" where
  "GetNetId reg c = (case client_heap reg c of None \<Rightarrow> 0xFFFF | Some x \<Rightarrow> m_netId x)"

definition GetSlotId :: "registry \<Rightarrow> nat \<Rightarrow> u32" where
  "GetSlotId reg c = (case client_heap reg c of None \<Rightarrow> - 1 | Some x \<Rightarrow> m_slotId x)"

text \<open>The clients that \<open>ForAllClients\<close> visits.\<close>

definition visited :: "registry \<Rightarrow> nat \<Rightarrow> bool" where
  "visited reg c = (case client_heap reg c of None \<Rightarrow> False | Some x \<Rightarrow> m_clients reg (m_guid x) = Some c \<and> \<not> m_dropping x)"

definition GetScriptHash :: "'t sync_env \<Rightarrow> 't entity \<Rightarrow> u32" where
  "GetScriptHash env e = (case syncTree e of None \<Rightarrow> 0 | Some t \<Rightarrow> TreeScriptHash env t)"

definition IsOwnedByScript :: "'t sync_env \<Rightarrow> 't entity \<Rightarrow> bool" where
  "IsOwnedByScript env e \<longleftrightarrow> GetScriptHash env e \<noteq> 0"

definition IsOwnedByClientScript :: "'t sync_env \<Rightarrow> 't entity \<Rightarrow> bool" where
  "IsOwnedByClientScript env e \<longleftrightarrow> GetScriptHash env e \<noteq> 0 \<and> creationToken e = 0"

definition IsOwnedByServerScript :: "'t sync_env \<Rightarrow> 't entity \<Rightarrow> bool" where
  "IsOwnedByServerScript env e \<longleftrightarrow> GetScriptHash env e \<noteq> 0 \<and> creationToken e \<noteq> 0"

section \<open>Owners\<close>

text \<open>The clients that know the entity get it again.\<close>

definition force_resend :: "registry \<Rightarrow> 't entity \<Rightarrow> 't game_state \<Rightarrow> 't game_state" where
  "force_resend reg e gs = gs\<lparr>data_of := (\<lambda>c.
     let d = data_of gs c; pair = MakeHandleUniqifierPair (e_handle e) (e_uniqifier e) in
     if visited reg c \<and> GetSlotId reg c \<noteq> - 1 \<and> unat (GetSlotId reg c) \<in> relevantTo e
     then d\<lparr>syncedEntities := omap_change pair (\<lambda>s. s\<lparr>forceUpdate := True\<rparr>) (syncedEntities d)\<rparr>
     else d)\<rparr>"

definition ReassignEntity :: "registry \<Rightarrow> int \<Rightarrow> nat \<Rightarrow> nat option \<Rightarrow> 't game_state \<Rightarrow> 't game_state" where
  "ReassignEntity reg now h targetClient gs =
     (case GetEntity h gs of
        None \<Rightarrow> gs
      | Some (a, e) \<Rightarrow>
          if e_type e = Player then gs
          else
            let oldClient = lock reg (e_client e);
                gs = change_entity a (\<lambda>e. e\<lparr>lastMigratedAt := now, e_lastOwner := oldClient, e_client := targetClient\<rparr>) gs;
                gs = (case e_stateBag e of
                        None \<Rightarrow> gs
                      | Some b \<Rightarrow> call (Set_bag_owner b (case targetClient of None \<Rightarrow> - 1 | Some c \<Rightarrow> sint (GetSlotId reg c))) gs);
                gs = (case oldClient of
                        None \<Rightarrow> gs
                      | Some c \<Rightarrow> change_data c (\<lambda>d. d\<lparr>c_objectIds := c_objectIds d - {h}\<rparr>) gs);
                gs = (case targetClient of
                        None \<Rightarrow> gs
                      | Some c \<Rightarrow> change_data c (\<lambda>d. d\<lparr>c_objectIds := insert h (c_objectIds d)\<rparr>) gs);
                gs = force_resend reg e gs
            in change_ids (\<lambda>s. s\<lparr>m_objectIdsStolen := insert h (m_objectIdsStolen s)\<rparr>) gs)"

text \<open>
  The candidates: other clients that the entity is relevant to, from the last slot down, at most five; the nearest is taken,
  and of two at the same distance the one whose object is first. \<open>None\<close> is the largest distance.
\<close>

definition player_tree :: "'t game_state \<Rightarrow> nat \<Rightarrow> 't option" where
  "player_tree gs c =
     (case playerEntity (data_of gs c) of None \<Rightarrow> None | Some a \<Rightarrow> (case entities gs a of None \<Rightarrow> None | Some e \<Rightarrow> syncTree e))"

definition candidates :: "'t sync_env \<Rightarrow> registry \<Rightarrow> 't game_state \<Rightarrow> 't entity \<Rightarrow> nat option \<Rightarrow> nat list" where
  "candidates env reg gs e client =
     (if e_type e = Player then []
      else take 5 (filter (\<lambda>c. Some c \<noteq> client)
        (List.map_filter (\<lambda>s. if s \<in> relevantTo e then GetClientBySlotID s reg else None) (rev [0..<roundToWord MAX_CLIENTS]))))"

definition nearer :: "(nat option \<times> nat) \<Rightarrow> (nat option \<times> nat) \<Rightarrow> bool" where
  "nearer p q = (case (fst p, fst q) of
     (Some x, Some y) \<Rightarrow> x < y \<or> x = y \<and> snd p < snd q
   | (Some x, None) \<Rightarrow> True
   | (None, Some y) \<Rightarrow> False
   | (None, None) \<Rightarrow> snd p < snd q)"

definition nearest :: "(nat option \<times> nat) list \<Rightarrow> nat option" where
  "nearest ps = (case ps of [] \<Rightarrow> None | p # ps \<Rightarrow> Some (snd (foldl (\<lambda>p q. if nearer q p then q else p) p ps)))"

definition MoveEntityToCandidate :: "'t sync_env \<Rightarrow> registry \<Rightarrow> int \<Rightarrow> nat \<Rightarrow> nat option \<Rightarrow> 't game_state \<Rightarrow> bool \<times> 't game_state" where
  "MoveEntityToCandidate env reg now a client gs =
     (case entities gs a of
        None \<Rightarrow> (True, gs)
      | Some e \<Rightarrow>
          if e_type e = PickupPlacement \<and> (case syncTree e of None \<Rightarrow> True | Some t \<Rightarrow> AtOrigin env t) then (False, gs)
          else
            let hasClient = (case (GetClient reg e, client) of (Some o', Some c) \<Rightarrow> o' \<noteq> c | _ \<Rightarrow> False) in
            if hasClient then (True, gs)
            else
              case nearest (map (\<lambda>c. (Option.bind (player_tree gs c) (FocusDistance env (syncTree e)), c)) (candidates env reg gs e client)) of
                None \<Rightarrow>
                  if IsOwnedByServerScript env e then (True, ReassignEntity reg now (e_handle e) None gs) else (False, gs)
              | Some c \<Rightarrow> (True, ReassignEntity reg now (e_handle e) (Some c) gs))"

section \<open>Deletion\<close>

definition RemoveClone :: "nat \<Rightarrow> 't game_state \<Rightarrow> 't game_state" where
  "RemoveClone objectId gs =
     (case m_entitiesById gs objectId of None \<Rightarrow> gs | Some a \<Rightarrow> change_entity a (\<lambda>e. e\<lparr>deleting := True\<rparr>) gs)"

text \<open>Script code asks for the deletion.\<close>

definition DeleteEntity :: "nat \<Rightarrow> 't game_state \<Rightarrow> 't game_state" where
  "DeleteEntity a gs =
     (case entities gs a of
        None \<Rightarrow> gs
      | Some e \<Rightarrow> if e_type e \<noteq> Player \<and> syncTree e \<noteq> None then gs\<lparr>sync_tasks := sync_tasks gs @ [Remove_entity a]\<rparr> else gs)"

text \<open>The event \<open>entityRemoved\<close> runs later; a ped leaves its vehicle at once.\<close>

definition OnCloneRemove :: "'t sync_env \<Rightarrow> nat \<Rightarrow> nat \<Rightarrow> 't game_state \<Rightarrow> 't game_state" where
  "OnCloneRemove env a objectId gs =
     (let gs = gs\<lparr>main_tasks := main_tasks gs @ [Entity_removed a objectId]\<rparr> in
      case entities gs a of
        None \<Rightarrow> gs
      | Some e \<Rightarrow>
          if e_type e = Ped \<or> e_type e = Player
          then (case Option.bind (syncTree e) (PedVehicle env) of
                  None \<Rightarrow> gs
                | Some (vehicle, seat) \<Rightarrow>
                    (case GetEntity vehicle gs of
                       None \<Rightarrow> gs
                     | Some (v, _) \<Rightarrow> change_entity v (\<lambda>x. x\<lparr>syncTree := map_option (LeaveSeat env (e_handle e) seat) (syncTree x)\<rparr>) gs))
          else gs)"

definition FinalizeClone :: "'t sync_env \<Rightarrow> nat \<Rightarrow> nat \<Rightarrow> 't game_state \<Rightarrow> 't game_state" where
  "FinalizeClone env a objectId gs =
     (case m_entitiesById gs objectId of
        None \<Rightarrow> gs
      | Some b \<Rightarrow>
          if b = a
          then (case entities gs a of
                  None \<Rightarrow> gs
                | Some e \<Rightarrow>
                    if finalizing e then gs else OnCloneRemove env a objectId (change_entity a (\<lambda>e. e\<lparr>finalizing := True\<rparr>) gs))
          else gs)"

text \<open>The callback of \<open>FinalizeClone\<close>, which holds a reference to the entity.\<close>

definition do_remove :: "registry \<Rightarrow> nat \<Rightarrow> nat \<Rightarrow> 't game_state \<Rightarrow> 't game_state" where
  "do_remove reg a objectId gs =
     (let gs = gs\<lparr>m_entitiesById := (m_entitiesById gs)(objectId := None)\<rparr>;
          stolen = (objectId \<in> m_objectIdsStolen (ids gs));
          gs = change_ids (\<lambda>s. s\<lparr>m_objectIdsUsed := m_objectIdsUsed s - {objectId}\<rparr>) gs;
          gs = (if stolen
            then change_ids (\<lambda>s. s\<lparr>m_objectIdsSent := m_objectIdsSent s - {objectId}, m_objectIdsStolen := m_objectIdsStolen s - {objectId}\<rparr>) gs
            else gs);
          gs = (case Option.bind (entities gs a) (GetClient reg) of
                  Some c \<Rightarrow> if stolen then change_data c (\<lambda>d. d\<lparr>c_objectIds := c_objectIds d - {objectId}\<rparr>) gs else gs
                | None \<Rightarrow> gs)
      in gs\<lparr>m_entityList := removeAll a (m_entityList gs)\<rparr>)"

section \<open>A client leaves\<close>

definition drop_from_scopes :: "'t sync_env \<Rightarrow> registry \<Rightarrow> u32 \<Rightarrow> nat list \<Rightarrow> 't game_state \<Rightarrow> 't game_state" where
  "drop_from_scopes env reg netId cs gs = foldl (\<lambda>gs c.
     (case playersToSlots (data_of gs c) netId of
        None \<Rightarrow> gs
      | Some s \<Rightarrow> change_data c (\<lambda>d. d\<lparr>playersInScope := playersInScope d - {s}, playersToSlots := (playersToSlots d)(netId := None)\<rparr>)
          (call (Player_dropped (GetNetId reg c) netId s) gs))) gs cs"

text \<open>The body of the loop over the entities, which are in the order of their addresses; it collects the ids of those that nobody takes over.\<close>

definition drop_entity :: "'t sync_env \<Rightarrow> registry \<Rightarrow> int \<Rightarrow> nat \<Rightarrow> u32 \<Rightarrow> nat list \<times> 't game_state \<Rightarrow> nat \<Rightarrow> nat list \<times> 't game_state" where
  "drop_entity env reg now client slotId r a =
     (case r of (toErase, gs) \<Rightarrow>
      case entities gs a of
        None \<Rightarrow> r
      | Some e \<Rightarrow>
          if syncTree e = None then r
          else
            let firstOwner = GetFirstOwner reg e;
                e = (case firstOwner of
                       Some c \<Rightarrow> if GetNetId reg c = GetNetId reg client then e\<lparr>firstOwnerDropped := True\<rparr> else e
                     | None \<Rightarrow> e);
                s = unat slotId;
                e = (if slotId \<noteq> - 1
                     then e\<lparr>relevantTo := relevantTo e - {s}, deletedFor := deletedFor e - {s}, outOfScopeFor := outOfScopeFor e - {s},
                            lastFramesSent := (lastFramesSent e)(s := 0)\<rparr>
                     else e)
            in case MoveEntityToCandidate env reg now a (Some client) (change_entity a (\<lambda>_. e) gs) of (moved, gs) \<Rightarrow>
                 if moved then (toErase, gs)
                 else if IsOwnedByClientScript env e \<and> \<not> firstOwnerDropped e
                 then (toErase, ReassignEntity reg now (e_handle e) firstOwner gs)
                 else (toErase @ [e_handle e], gs))"

text \<open>\<open>cs\<close> are the clients that \<open>ForAllClients\<close> visits, in the order of its table; the world grid is not part of the model.\<close>

definition HandleClientDrop :: "'t sync_env \<Rightarrow> registry \<Rightarrow> int \<Rightarrow> nat list \<Rightarrow> nat \<Rightarrow> u32 \<Rightarrow> u32 \<Rightarrow> 't game_state \<Rightarrow> 't game_state" where
  "HandleClientDrop env reg now cs client netId slotId gs =
     (if \<not> IsOneSync (server env) then gs
      else
        let gs = (if IsBigMode (server env) then drop_from_scopes env reg netId cs gs else gs) in
        case foldl (drop_entity env reg now client slotId) ([], gs) (m_entityList gs) of (toErase, gs) \<Rightarrow>
        let gs = foldl (\<lambda>gs i. RemoveClone i gs) gs toErase;
            gs = change_ids (\<lambda>s. s\<lparr>m_objectIdsSent := m_objectIdsSent s - c_objectIds (data_of gs client)\<rparr>) gs;
            gs = (if slotId \<noteq> - 1
                  then foldl (\<lambda>gs a. change_entity a (\<lambda>e. e\<lparr>syncTree := map_option (ClearAcksOf env (unat slotId)) (syncTree e)\<rparr>) gs) gs (m_entityList gs)
                  else gs)
        in change_data client (\<lambda>_. new_client_data) gs)"

section \<open>Entities of the server\<close>

text \<open>\<open>CreateEntityFromTree\<close>: the last free id, or 0 when there is none.\<close>

fun last_free :: "object_ids \<Rightarrow> nat \<Rightarrow> nat" where
  "last_free s 0 = 0"
| "last_free s (Suc i) = (if id_free s (Suc i) then Suc i else last_free s i)"

definition CreateEntityFromTree :: "'t sync_env \<Rightarrow> int \<Rightarrow> u16 \<Rightarrow> nat \<Rightarrow> 't \<Rightarrow> 't game_state \<Rightarrow> nat \<times> 't game_state" where
  "CreateEntityFromTree env now uniqifier type tree gs =
     (let i = last_free (ids gs) (if IsLengthHack env then MaxObjectId - 1 else 8191);
          gs = change_ids (\<lambda>s. s\<lparr>m_objectIdsSent := insert i (m_objectIdsSent s), m_objectIdsUsed := insert i (m_objectIdsUsed s),
                 m_objectIdsStolen := insert i (m_objectIdsStolen s)\<rparr>) gs;
          a = next_entity gs;
          e = (blank_entity type i)\<lparr>e_frameIndex := m_frameIndex gs, lastFrameIndex := 0, e_uniqifier := uniqifier,
                creationToken := word_of_int now, createdAt := now, passedFilter := True, syncTree := Some tree,
                lastReceivedAt := now, e_timestamp := word_of_int now\<rparr>
      in (a, gs\<lparr>next_entity := a + 1, entities := (entities gs)(a \<mapsto> e), m_entityList := m_entityList gs @ [a],
               m_entitiesById := (m_entitiesById gs)(i \<mapsto> a)\<rparr>))"

end
