(* ===== verification/Sync_Clones.thy ===== *)
theory Sync_Clones
  imports Sync_Entities "HOL-Library.AList"
begin

text \<open>
  The packets in which a game tells the server about entities (src/state/ServerGameState.cpp: \<open>ParseClonePacket\<close> and what it
  calls, \<open>ParseAckPacket\<close>). \<open>None\<close> is an access outside a buffer. A packet is the contents of the
  decompressed packet; the decompression is LZ4's.
\<close>

section \<open>Acknowledgements\<close>

text \<open>The packet that is sent is the data of the buffer behind LZ4; the buffer starts again.\<close>

definition FlushBuffer :: "'t sync_env \<Rightarrow> string \<Rightarrow> u32 \<Rightarrow> nat \<Rightarrow> msgbuf \<times> 't game_state \<Rightarrow> (msgbuf \<times> 't game_state) option" where
  "FlushBuffer env msgType frameIndex client r =
     (case r of (b, gs) \<Rightarrow> do {
        b \<leftarrow> Write (IsLengthHack env) 3 7 b;
        Some (SetCurrentBit 0 b, call (Send_packed msgType client frameIndex (take (GetDataLength b) (m_data b))) gs) })"

definition MaybeFlushBuffer :: "'t sync_env \<Rightarrow> string \<Rightarrow> u32 \<Rightarrow> nat \<Rightarrow> nat \<Rightarrow> msgbuf \<times> 't game_state \<Rightarrow> (msgbuf \<times> 't game_state) option" where
  "MaybeFlushBuffer env msgType frameIndex client n r =
     (if compressBound env (GetDataLength (fst r) + n div 8) > 1100 - 12 - 12 then FlushBuffer env msgType frameIndex client r else Some r)"

text \<open>A client that counts frames gets no acknowledgements.\<close>

definition prepare :: "nat \<Rightarrow> msgbuf \<times> 't game_state \<Rightarrow> u32 \<times> msgbuf \<times> 't game_state" where
  "prepare client r =
     (case r of (ack, gs) \<Rightarrow> let f = fidx (data_of gs client) in (f, if f \<noteq> 0 then SetCurrentBit 0 ack else ack, gs))"

definition flush_ack :: "'t sync_env \<Rightarrow> nat \<Rightarrow> msgbuf \<times> 't game_state \<Rightarrow> (msgbuf \<times> 't game_state) option" where
  "flush_ack env client r = (case prepare client r of (f, r) \<Rightarrow> MaybeFlushBuffer env ''msgPackedAcks'' f client 0 r)"

fun write_fields :: "bool \<Rightarrow> (nat \<times> u32) list \<Rightarrow> msgbuf \<Rightarrow> msgbuf option" where
  "write_fields hack [] b = Some b"
| "write_fields hack ((n, v) # fs) b = do { b \<leftarrow> Write hack n v b; write_fields hack fs b }"

definition send_ack :: "'t sync_env \<Rightarrow> nat \<Rightarrow> (nat \<times> u32) list \<Rightarrow> msgbuf \<times> 't game_state \<Rightarrow> (msgbuf \<times> 't game_state) option" where
  "send_ack env client fs r =
     (case r of (ack, gs) \<Rightarrow> do {
        ack \<leftarrow> write_fields (IsLengthHack env) fs ack;
        flush_ack env client (ack, gs) })"

section \<open>Lockdown\<close>

definition random_population :: "nat \<Rightarrow> bool" where
  "random_population p \<longleftrightarrow> p \<in> {1, 2, 3, 4, 5}"

definition validate_dummy :: "'t sync_env \<Rightarrow> lockdown \<Rightarrow> 't \<Rightarrow> bool \<times> bool" where
  "validate_dummy env mode t =
     (case GetDummyObjectState env t of
        Some d \<Rightarrow> (hasRelatedDummy d \<and> (hasFragGroup d \<and> hasExploded d \<or> explodingEntityExploded d), mode = Dummy)
      | None \<Rightarrow> (mode = Dummy, False))"

definition ValidateEntity :: "'t sync_env \<Rightarrow> lockdown \<Rightarrow> 't entity \<Rightarrow> 't game_state \<Rightarrow> bool" where
  "ValidateEntity env mode e gs =
     (case syncTree e of
        None \<Rightarrow> False
      | Some t \<Rightarrow>
          let allowed = (mode \<noteq> Strict \<and> (case GetPopulationType env t of None \<Rightarrow> False | Some p \<Rightarrow> random_population p));
              (allowed, decided) = (if allowed then (True, False) else validate_dummy env mode t)
          in if decided then allowed
             else
               let allowed = (allowed \<or> (case GetAttachment env t of
                     None \<Rightarrow> False
                   | Some (attachedTo, flags) \<Rightarrow> HasTask env t = Some True \<and> GetEntity attachedTo gs \<noteq> None \<and> flags AND 130 = 130))
               in allowed \<or> entityCreationList gs (creationToken e) = Some True)"

text \<open>The mode for entities that a client creates: that of its routing bucket, if the bucket has one.\<close>

definition creation_lockdown :: "nat \<Rightarrow> 't game_state \<Rightarrow> lockdown" where
  "creation_lockdown client gs =
     (case m_routingData gs (c_routingBucket (data_of gs client)) of
        None \<Rightarrow> m_entityLockdownMode gs
      | Some rb \<Rightarrow> (case lockdownMode rb of None \<Rightarrow> m_entityLockdownMode gs | Some m \<Rightarrow> m))"

text \<open>\<open>GetEntityLockdownMode\<close>, which other components ask.\<close>

definition GetEntityLockdownMode :: "nat \<Rightarrow> 't game_state \<Rightarrow> lockdown" where
  "GetEntityLockdownMode client gs =
     (case m_routingData gs (c_routingBucket (data_of gs client)) of
        None \<Rightarrow> m_entityLockdownMode gs
      | Some rb \<Rightarrow>
          if noPopulation rb then Strict else (case lockdownMode rb of None \<Rightarrow> m_entityLockdownMode gs | Some m \<Rightarrow> m))"

definition routing_of :: "u32 \<Rightarrow> 't game_state \<Rightarrow> routing_bucket" where
  "routing_of bucket gs = (case m_routingData gs bucket of None \<Rightarrow> \<lparr>lockdownMode = None, noPopulation = False\<rparr> | Some rb \<Rightarrow> rb)"

definition SetEntityLockdownMode :: "u32 \<Rightarrow> lockdown \<Rightarrow> 't game_state \<Rightarrow> 't game_state" where
  "SetEntityLockdownMode bucket mode gs =
     gs\<lparr>m_routingData := (m_routingData gs)(bucket \<mapsto> (routing_of bucket gs)\<lparr>lockdownMode := Some mode\<rparr>)\<rparr>"

definition SetPopulationDisabled :: "u32 \<Rightarrow> bool \<Rightarrow> 't game_state \<Rightarrow> 't game_state" where
  "SetPopulationDisabled bucket disabled gs =
     gs\<lparr>m_routingData := (m_routingData gs)(bucket \<mapsto> (routing_of bucket gs)\<lparr>noPopulation := disabled\<rparr>)\<rparr>"

section \<open>One message about an entity\<close>

text \<open>\<open>Read<uint16_t> (n)\<close>.\<close>

definition Read16 :: "'t sync_env \<Rightarrow> nat \<Rightarrow> msgbuf \<Rightarrow> (u16 \<times> msgbuf) option" where
  "Read16 env n p = do { (v, p) \<leftarrow> Read (IsLengthHack env) n p; Some (ucast v, p) }"

text \<open>The entity of a message: for a creation (type 1) a new one, whose id nobody uses; otherwise one that exists.\<close>

definition clone_entity :: "'t sync_env \<Rightarrow> int \<Rightarrow> nat \<Rightarrow> bool \<Rightarrow> nat \<Rightarrow> u16 \<Rightarrow> u32 \<Rightarrow> nat \<Rightarrow> 't game_state \<Rightarrow> (nat \<times> 't game_state) option" where
  "clone_entity env now client creates objectId uniqifier token type gs =
     (if objectId = 0xFFFF then None
      else case GetEntity objectId gs of
        Some (a, e) \<Rightarrow> if creates then None else Some (a, gs)
      | None \<Rightarrow>
          if \<not> creates then None
          else case MakeSyncTree env type of
            None \<Rightarrow> None
          | Some t \<Rightarrow>
              let a = next_entity gs;
                  e = (blank_entity type objectId)\<lparr>e_firstOwner := Some client, e_client := Some client, e_frameIndex := m_frameIndex gs,
                        e_uniqifier := uniqifier, creationToken := token, syncTree := Some t, createdAt := now,
                        e_routingBucket := c_routingBucket (data_of gs client)\<rparr>
              in Some (a, gs\<lparr>next_entity := a + 1, entities := (entities gs)(a \<mapsto> e)\<rparr>))"

text \<open>
  Who may send it: the owner, or the last owner for a second after the entity has moved. The entity becomes relevant to the
  sender before this is checked.
\<close>

definition clone_guard :: "registry \<Rightarrow> int \<Rightarrow> nat \<Rightarrow> u16 \<Rightarrow> u32 \<Rightarrow> nat \<Rightarrow> 't game_state \<Rightarrow> bool \<times> 't game_state" where
  "clone_guard reg now client uniqifier timestamp a gs =
     (case entities gs a of
        None \<Rightarrow> (False, gs)
      | Some e \<Rightarrow>
          let s = unat (GetSlotId reg client) in
          if e_uniqifier e \<noteq> uniqifier then (False, gs)
          else if s > MAX_CLIENTS then (False, gs)
          else if s \<in> deletedFor e \<or> s \<in> outOfScopeFor e then (False, gs)
          else
            let gs = change_entity a (\<lambda>e. e\<lparr>relevantTo := insert s (relevantTo e), outOfScopeFor := outOfScopeFor e - {s}\<rparr>) gs in
            case GetClient reg e of
              None \<Rightarrow> (False, gs)
            | Some owner \<Rightarrow>
                if GetNetId reg owner \<noteq> GetNetId reg client
                then if GetLastOwner reg e \<noteq> Some client \<or> now - lastMigratedAt e > 1000 then (False, gs)
                     else (True, change_entity a (\<lambda>e. e\<lparr>lastOutOfBandTimestamp := timestamp\<rparr>) gs)
                else (True, gs))"

definition clone_apply :: "'t sync_env \<Rightarrow> int \<Rightarrow> nat \<Rightarrow> u32 \<Rightarrow> byte list \<Rightarrow> nat \<Rightarrow> 't game_state \<Rightarrow> 't game_state" where
  "clone_apply env now parsingType timestamp bitBytes a gs =
     (let gs = change_entity a (\<lambda>e. e\<lparr>lastReceivedAt := now\<rparr>) gs in
      if bitBytes = [] then gs
      else change_entity a (\<lambda>e.
        let e = e\<lparr>lastFrameIndex := m_frameIndex gs, e_timestamp := timestamp\<rparr> in
        case syncTree e of
          None \<Rightarrow> e
        | Some t \<Rightarrow>
            let t = ParseTree env parsingType timestamp bitBytes t in
            e\<lparr>syncTree := Some (if parsingType = 1 then ClearAcks env t else t), hasSynced := (hasSynced e \<or> parsingType = 2)\<rparr>) gs)"

definition clone_player :: "nat \<Rightarrow> nat \<Rightarrow> 't game_state \<Rightarrow> 't game_state" where
  "clone_player client a gs =
     (case entities gs a of
        None \<Rightarrow> gs
      | Some e \<Rightarrow>
          if e_type e \<noteq> Player then gs
          else
            let known = (case playerEntity (data_of gs client) of None \<Rightarrow> False | Some p \<Rightarrow> entities gs p \<noteq> None);
                gs = (if known then gs else call (Create_ped client) (call (Send_world_grid client) gs))
            in call (Set_player_entity client a) (change_data client (\<lambda>d. d\<lparr>playerEntity := Some a\<rparr>) gs))"

text \<open>\<open>startDelete\<close>: the entity is in no table yet; its creator is told.\<close>

definition destroy_at :: "ident \<Rightarrow> nat option \<Rightarrow> deletion \<Rightarrow> client_data \<Rightarrow> client_data" where
  "destroy_at k a del d = d\<lparr>entitiesToDestroy := AList.update k (a, del) (entitiesToDestroy d)\<rparr>"

definition startDelete :: "nat \<Rightarrow> ident \<Rightarrow> nat \<Rightarrow> 't game_state \<Rightarrow> 't game_state" where
  "startDelete client k a gs =
     change_data client (destroy_at k (Some a) \<lparr>outOfScope = False, forceSteal = False\<rparr>)
       (case entities gs a of None \<Rightarrow> gs | Some e \<Rightarrow> RemoveClone (e_handle e) gs)"

text \<open>A new entity: it is registered when the lockdown lets it pass; the event \<open>entityCreating\<close> runs later.\<close>

definition clone_created :: "'t sync_env \<Rightarrow> nat \<Rightarrow> nat \<Rightarrow> u16 \<Rightarrow> nat \<Rightarrow> 't game_state \<Rightarrow> bool \<times> 't game_state" where
  "clone_created env client objectId uniqifier a gs =
     (let k = MakeHandleUniqifierPair objectId uniqifier;
          gs = change_entity a (\<lambda>e. e\<lparr>passedFilter := (passedFilter e \<or> e_type e = Player),
             creationToken := (if entityCreationList gs (creationToken e) = None then 0 else creationToken e)\<rparr>) gs in
      case entities gs a of
        None \<Rightarrow> (False, gs)
      | Some e \<Rightarrow>
          let mode = creation_lockdown client gs in
          if e_type e \<noteq> Player \<and> mode \<noteq> Inactive \<and> \<not> ValidateEntity env mode e gs then (False, startDelete client k a gs)
          else
            let gs = (if entityCreationList gs (creationToken e) = None then gs
                      else gs\<lparr>entityCreationList := (entityCreationList gs)(creationToken e \<mapsto> False)\<rparr>) in
            if (case syncTree e of None \<Rightarrow> False | Some t \<Rightarrow> CreateVeto env t) then (False, startDelete client k a gs)
            else
              let gs = change_data client (\<lambda>d. d\<lparr>syncedEntities := omap_put k \<lparr>nextSync = 0, syncDelta = 10, sy_entity = a,
                         forceUpdate = False, hasCreated = True, hasNAckedCreate = False\<rparr> (syncedEntities d), pendingCreates := (pendingCreates d)(k := None)\<rparr>) gs;
                  gs = gs\<lparr>m_entitiesById := (m_entitiesById gs)(objectId \<mapsto> a), m_entityList := m_entityList gs @ [a],
                         main_tasks := main_tasks gs @ [Entity_creating a]\<rparr>
              in (True, gs))"

definition add_bag_target :: "nat \<Rightarrow> u32 \<Rightarrow> 't game_state \<Rightarrow> 't game_state" where
  "add_bag_target a slotId gs =
     (case Option.bind (entities gs a) e_stateBag of None \<Rightarrow> gs | Some b \<Rightarrow> call (Add_routing_target b slotId) gs)"

definition clone_update :: "'t sync_env \<Rightarrow> registry \<Rightarrow> int \<Rightarrow> nat \<Rightarrow> nat \<Rightarrow> nat \<Rightarrow> u16 \<Rightarrow> u32 \<Rightarrow> nat \<Rightarrow> byte list \<Rightarrow> 't game_state \<Rightarrow> bool \<times> 't game_state" where
  "clone_update env reg now client parsingType objectId uniqifier token type bitBytes gs =
     (let timestamp = syncTs (data_of gs client); k = MakeHandleUniqifierPair objectId uniqifier in
      case clone_entity env now client (parsingType = 1) objectId uniqifier token type gs of
        None \<Rightarrow> (False, gs)
      | Some (a, gs) \<Rightarrow>
          (case clone_guard reg now client uniqifier timestamp a gs of (ok, gs) \<Rightarrow>
           if \<not> ok then (False, gs)
           else
             let gs = clone_player client a (clone_apply env now parsingType timestamp bitBytes a gs);
                 (ok, gs) = (if parsingType = 1 then clone_created env client objectId uniqifier a gs
                             else (True, change_data client (\<lambda>d. d\<lparr>pendingCreates := (pendingCreates d)(k := None)\<rparr>) gs))
             in if ok then (True, add_bag_target a (GetSlotId reg client) gs) else (False, gs)))"

text \<open>The fields of a message, and the message.\<close>

definition ProcessClonePacket :: "'t sync_env \<Rightarrow> registry \<Rightarrow> int \<Rightarrow> nat \<Rightarrow> nat \<Rightarrow> msgbuf \<Rightarrow> 't game_state \<Rightarrow>
    (bool \<times> u16 \<times> u16 \<times> msgbuf \<times> 't game_state) option" where
  "ProcessClonePacket env reg now client parsingType p gs = do {
     let hack = IsLengthHack env;
     (uniqifier, p) \<leftarrow> Read16 env 16 p;
     (objectId, p) \<leftarrow> Read16 env 13 p;
     (token, type, p) \<leftarrow> (if parsingType = 1 then do {
         (token, p) \<leftarrow> Read hack 32 p;
         (type, p) \<leftarrow> Read hack 4 p;
         Some (token, unat (ucast type :: byte), p) } else Some (0, Train, p));
     (len, p) \<leftarrow> Read16 env 12 p;
     (_, bitBytes, p) \<leftarrow> ReadBits hack (replicate (unat len) 0) (8 * unat len) p;
     let r = clone_update env reg now client parsingType (unat objectId) uniqifier token type bitBytes gs;
     Some (fst r, objectId, uniqifier, p, snd r) }"

section \<open>The packet\<close>

type_synonym 't clone_state = "msgbuf \<times> msgbuf \<times> 't game_state"

definition ProcessCloneCreate :: "'t sync_env \<Rightarrow> registry \<Rightarrow> int \<Rightarrow> nat \<Rightarrow> 't clone_state \<Rightarrow> 't clone_state option" where
  "ProcessCloneCreate env reg now client r =
     (case r of (p, ack, gs) \<Rightarrow> do {
        (ok, objectId, uniqifier, p, gs) \<leftarrow> ProcessClonePacket env reg now client 1 p gs;
        let gs = (if ok then change_ids (\<lambda>s. s\<lparr>m_objectIdsUsed := insert (unat objectId) (m_objectIdsUsed s)\<rparr>) gs else gs);
        (ack, gs) \<leftarrow> send_ack env client [(3, 1), (13, ucast objectId), (16, ucast uniqifier)] (ack, gs);
        Some (p, ack, gs) })"

definition ProcessCloneSync :: "'t sync_env \<Rightarrow> registry \<Rightarrow> int \<Rightarrow> nat \<Rightarrow> 't clone_state \<Rightarrow> 't clone_state option" where
  "ProcessCloneSync env reg now client r =
     (case r of (p, ack, gs) \<Rightarrow> do {
        (_, objectId, uniqifier, p, gs) \<leftarrow> ProcessClonePacket env reg now client 2 p gs;
        (ack, gs) \<leftarrow> send_ack env client [(3, 2), (13, ucast objectId), (16, ucast uniqifier)] (ack, gs);
        Some (p, ack, gs) })"

definition take_over :: "registry \<Rightarrow> int \<Rightarrow> nat \<Rightarrow> u32 \<Rightarrow> nat \<Rightarrow> 't game_state \<Rightarrow> 't game_state" where
  "take_over reg now client clientId objectId gs =
     (case GetEntity objectId gs of
        None \<Rightarrow> gs
      | Some (a, e) \<Rightarrow>
          (case (if clientId \<noteq> 0 then GetClientByNetID clientId reg else Some client) of
             None \<Rightarrow> gs
           | Some tgt \<Rightarrow>
               (case GetClient reg e of
                  Some owner \<Rightarrow>
                    if GetNetId reg owner = GetNetId reg tgt \<or> GetNetId reg owner \<noteq> GetNetId reg client then gs
                    else if syncTree e = None then gs else ReassignEntity reg now (e_handle e) (Some tgt) gs
                | None \<Rightarrow> if syncTree e = None then gs else ReassignEntity reg now (e_handle e) (Some tgt) gs)))"

definition ProcessCloneTakeover :: "'t sync_env \<Rightarrow> registry \<Rightarrow> int \<Rightarrow> nat \<Rightarrow> 't clone_state \<Rightarrow> 't clone_state option" where
  "ProcessCloneTakeover env reg now client r =
     (case r of (p, ack, gs) \<Rightarrow> do {
        (clientId, p) \<leftarrow> Read16 env 16 p;
        (objectId, p) \<leftarrow> Read16 env 13 p;
        Some (p, ack, take_over reg now client (ucast clientId) (unat objectId) gs) })"

definition remove_owned :: "registry \<Rightarrow> nat \<Rightarrow> nat \<Rightarrow> u16 \<Rightarrow> 't game_state \<Rightarrow> 't game_state" where
  "remove_owned reg client objectId uniqifier gs =
     (case GetEntity objectId gs of
        None \<Rightarrow> gs
      | Some (a, e) \<Rightarrow>
          (case GetClient reg e of
             None \<Rightarrow> gs
           | Some owner \<Rightarrow>
               if GetNetId reg client \<noteq> GetNetId reg owner then gs
               else if e_uniqifier e \<noteq> uniqifier then gs
               else RemoveClone objectId gs))"

definition ProcessCloneRemove :: "'t sync_env \<Rightarrow> registry \<Rightarrow> nat \<Rightarrow> 't clone_state \<Rightarrow> 't clone_state option" where
  "ProcessCloneRemove env reg client r =
     (case r of (p, ack, gs) \<Rightarrow> do {
        (objectId, p) \<leftarrow> Read16 env 13 p;
        (uniqifier, p) \<leftarrow> Read16 env 16 p;
        (ack, gs) \<leftarrow> send_ack env client [(3, 3), (13, ucast objectId), (16, ucast uniqifier)] (ack, gs);
        Some (p, ack, remove_owned reg client (unat objectId) uniqifier gs) })"

definition set_timestamp :: "'t sync_env \<Rightarrow> nat \<Rightarrow> 't clone_state \<Rightarrow> 't clone_state option" where
  "set_timestamp env client r =
     (case r of (p, ack, gs) \<Rightarrow> do {
        (newTs, p) \<leftarrow> Read (IsLengthHack env) 32 p;
        (ack, gs) \<leftarrow> send_ack env client [(3, 5), (32, newTs)] (ack, gs);
        let oldTs = ackTs (data_of gs client);
        Some (p, ack, if oldTs = 0 \<or> oldTs < newTs then change_data client (\<lambda>d. d\<lparr>ackTs := newTs, syncTs := newTs\<rparr>) gs else gs) })"

definition set_index :: "'t sync_env \<Rightarrow> nat \<Rightarrow> 't clone_state \<Rightarrow> 't clone_state option" where
  "set_index env client r =
     (case r of (p, ack, gs) \<Rightarrow> do {
        (newIndex, p) \<leftarrow> Read (IsLengthHack env) 32 p;
        Some (p, ack, change_data client (\<lambda>d. d\<lparr>fidx := newIndex\<rparr>) gs) })"

definition clone_message :: "'t sync_env \<Rightarrow> registry \<Rightarrow> int \<Rightarrow> nat \<Rightarrow> u32 \<Rightarrow> 't clone_state \<Rightarrow> 't clone_state option" where
  "clone_message env reg now client dataType r =
     (if dataType = 1 then ProcessCloneCreate env reg now client r
      else if dataType = 2 then ProcessCloneSync env reg now client r
      else if dataType = 3 then ProcessCloneRemove env reg client r
      else if dataType = 4 then ProcessCloneTakeover env reg now client r
      else if dataType = 5 then set_timestamp env client r
      else set_index env client r)"

text \<open>The loop; it ends because each round reads, and is proved to end with the rest of the packet.\<close>

partial_function (option) clone_messages :: "'t sync_env \<Rightarrow> registry \<Rightarrow> int \<Rightarrow> nat \<Rightarrow> 't clone_state \<Rightarrow> 't clone_state option" where
  "clone_messages env reg now client r =
     (case r of (p, ack, gs) \<Rightarrow>
        if IsAtEnd p then Some (p, ack, gs)
        else Option.bind (Read (IsLengthHack env) 3 p) (\<lambda>(dataType, p).
          if dataType = 0 \<or> dataType = 7 then Some (p, ack, gs)
          else Option.bind (clone_message env reg now client dataType (p, ack, gs)) (clone_messages env reg now client)))"

definition ParseClonePacket :: "'t sync_env \<Rightarrow> registry \<Rightarrow> int \<Rightarrow> nat \<Rightarrow> byte list \<Rightarrow> 't game_state \<Rightarrow> 't game_state option" where
  "ParseClonePacket env reg now client packet gs = do {
     (_, ack, gs) \<leftarrow> clone_messages env reg now client (mb_of_data packet, ackBuffer (data_of gs client), gs);
     let r = prepare client (ack, gs);
     (ack, gs) \<leftarrow> FlushBuffer env ''msgPackedAcks'' (fst r) client (snd r);
     Some (change_data client (\<lambda>d. d\<lparr>ackBuffer := ack\<rparr>) gs) }"

section \<open>Acknowledgements of the client\<close>

definition ack_create :: "registry \<Rightarrow> nat \<Rightarrow> nat \<Rightarrow> u16 \<Rightarrow> 't game_state \<Rightarrow> 't game_state" where
  "ack_create reg client objectId uniqifier gs =
     (case GetEntity objectId gs of
        None \<Rightarrow> gs
      | Some (a, e) \<Rightarrow>
          if e_uniqifier e = uniqifier \<and> syncTree e \<noteq> None
          then change_data client (\<lambda>d. let k = MakeHandleUniqifierPair objectId uniqifier in
                 d\<lparr>syncedEntities := omap_change k (\<lambda>s. s\<lparr>hasCreated := True\<rparr>) (syncedEntities d)\<rparr>)
               (change_entity a (\<lambda>e. e\<lparr>deletedFor := deletedFor e - {unat (GetSlotId reg client)}\<rparr>) gs)
          else gs)"

definition ack_remove :: "nat \<Rightarrow> nat \<Rightarrow> u16 \<Rightarrow> 't game_state \<Rightarrow> 't game_state" where
  "ack_remove client objectId uniqifier =
     change_data client (\<lambda>d. d\<lparr>entitiesToDestroy := AList.delete (MakeHandleUniqifierPair objectId uniqifier) (entitiesToDestroy d)\<rparr>)"

partial_function (option) ack_messages :: "'t sync_env \<Rightarrow> registry \<Rightarrow> nat \<Rightarrow> msgbuf \<times> 't game_state \<Rightarrow> (msgbuf \<times> 't game_state) option" where
  "ack_messages env reg client r =
     (case r of (p, gs) \<Rightarrow>
        if IsAtEnd p then Some (p, gs)
        else Option.bind (Read (IsLengthHack env) 3 p) (\<lambda>(dataType, p).
          if dataType \<noteq> 1 \<and> dataType \<noteq> 3 then Some (p, gs)
          else Option.bind (Read16 env 13 p) (\<lambda>(objectId, p).
            Option.bind (Read16 env 16 p) (\<lambda>(uniqifier, p).
              ack_messages env reg client (p,
                (if dataType = 1 then ack_create reg client (unat objectId) uniqifier gs
                 else ack_remove client (unat objectId) uniqifier gs))))))"

definition ParseAckPacket :: "'t sync_env \<Rightarrow> registry \<Rightarrow> nat \<Rightarrow> byte list \<Rightarrow> 't game_state \<Rightarrow> 't game_state option" where
  "ParseAckPacket env reg client packet gs = map_option snd (ack_messages env reg client (mb_of_data packet, gs))"

text \<open>The two kinds of packets; anything else is ignored. \<open>uncompress\<close> is LZ4 with its dictionary.\<close>

definition ParseGameStatePacket :: "'t sync_env \<Rightarrow> (byte list \<Rightarrow> byte list option) \<Rightarrow> u32 \<Rightarrow> u32 \<Rightarrow> registry \<Rightarrow> int \<Rightarrow> nat \<Rightarrow> byte list \<Rightarrow> 't game_state \<Rightarrow> 't game_state option" where
  "ParseGameStatePacket env uncompress netClones netAcks reg now client packetData gs =
     (if \<not> IsOneSync (server env) then Some gs
      else do {
        (type, b) \<leftarrow> Read_u32 (buffer_of_bytes packetData);
        if type \<noteq> netClones \<and> type \<noteq> netAcks then Some gs
        else case uncompress (drop 4 packetData) of
          None \<Rightarrow> Some gs
        | Some packet \<Rightarrow>
            if type = netClones then ParseClonePacket env reg now client packet gs else ParseAckPacket env reg client packet gs })"

section \<open>The callbacks\<close>

text \<open>What the event \<open>entityCreating\<close> ends with is decided by resources.\<close>

definition run_main_task :: "bool \<Rightarrow> 't game_state \<Rightarrow> 't game_state" where
  "run_main_task canceled gs =
     (case main_tasks gs of
        [] \<Rightarrow> gs
      | Entity_creating a # ts \<Rightarrow>
          let gs = call (Entity_event ''entityCreating'' a) (gs\<lparr>main_tasks := ts\<rparr>) in
          if canceled
          then (case entities gs a of
                  None \<Rightarrow> gs
                | Some e \<Rightarrow> if e_type e \<noteq> Player then gs\<lparr>sync_tasks := sync_tasks gs @ [Remove_entity a]\<rparr> else gs)
          else call (Entity_event ''entityCreated'' a) (change_entity a (\<lambda>e. e\<lparr>passedFilter := True\<rparr>) gs)
      | Entity_removed a objectId # ts \<Rightarrow>
          (call (Entity_event ''entityRemoved'' a) (gs\<lparr>main_tasks := ts\<rparr>))\<lparr>sync_tasks := sync_tasks gs @ [Do_remove a objectId]\<rparr>)"

definition run_sync_task :: "registry \<Rightarrow> 't game_state \<Rightarrow> 't game_state" where
  "run_sync_task reg gs =
     (case sync_tasks gs of
        [] \<Rightarrow> gs
      | Remove_entity a # ts \<Rightarrow>
          let gs = gs\<lparr>sync_tasks := ts\<rparr> in
          (case entities gs a of None \<Rightarrow> gs | Some e \<Rightarrow> RemoveClone (e_handle e) gs)
      | Do_remove a objectId # ts \<Rightarrow> do_remove reg a objectId (gs\<lparr>sync_tasks := ts\<rparr>))"

end
