(* ===== verification/Sync_Invariant.thy ===== *)
theory Sync_Invariant
  imports Sync_Clones Client_Registry_Properties "HOL-Library.Multiset"
begin

text \<open>
  What holds of the entities in every reachable game state, whatever packets clients send: the entities of the list have
  different ids, the table by id leads to each of them, the ids in use are exactly theirs, and an entity that is being
  finalized is removed exactly once.
\<close>

section \<open>The invariant\<close>

text \<open>The removals that are under way.\<close>

fun main_removal :: "main_task \<Rightarrow> (nat \<times> nat) option" where
  "main_removal (Entity_creating a) = None"
| "main_removal (Entity_removed a i) = Some (a, i)"

fun sync_removal :: "sync_task \<Rightarrow> (nat \<times> nat) option" where
  "sync_removal (Remove_entity a) = None"
| "sync_removal (Do_remove a i) = Some (a, i)"

definition removals :: "'t game_state \<Rightarrow> (nat \<times> nat) list" where
  "removals gs = List.map_filter sync_removal (sync_tasks gs) @ List.map_filter main_removal (main_tasks gs)"

lemma map_filter_Cons: "List.map_filter f (x # xs) = (case f x of None \<Rightarrow> [] | Some y \<Rightarrow> [y]) @ List.map_filter f xs"
  by (simp add: List.map_filter_def split: option.split)

lemma map_filter_Nil: "List.map_filter f [] = []"
  by (simp add: List.map_filter_def)

lemma map_filter_append: "List.map_filter f (xs @ ys) = List.map_filter f xs @ List.map_filter f ys"
  by (simp add: List.map_filter_def)

text \<open>The part of an entity that the invariant is about.\<close>

definition known :: "'t game_state \<Rightarrow> nat \<Rightarrow> (nat \<times> bool) option" where
  "known gs a = map_option (\<lambda>e. (e_handle e, finalizing e)) (entities gs a)"

text \<open>\<open>U\<close> stands for the ids in use.\<close>

definition entities_ok :: "nat set \<Rightarrow> 't game_state \<Rightarrow> bool" where
  "entities_ok U gs \<longleftrightarrow>
     distinct (m_entityList gs) \<and>
     (\<forall>a \<in> set (m_entityList gs). \<exists>i fin. known gs a = Some (i, fin) \<and> m_entitiesById gs i = Some a \<and> i < MaxObjectId \<and> i \<in> U \<and>
        (fin \<longrightarrow> (a, i) \<in> set (removals gs))) \<and>
     (\<forall>i a. m_entitiesById gs i = Some a \<longrightarrow> a < next_entity gs \<and> (known gs a = None \<or> a \<in> set (m_entityList gs) \<and> (\<exists>fin. known gs a = Some (i, fin)))) \<and>
     (\<forall>a. next_entity gs \<le> a \<longrightarrow> known gs a = None) \<and>
     (\<forall>i \<in> U. \<exists>a \<in> set (m_entityList gs). \<exists>fin. known gs a = Some (i, fin)) \<and>
     distinct (map fst (removals gs)) \<and>
     (\<forall>(a, i) \<in> set (removals gs). a \<in> set (m_entityList gs) \<and> known gs a = Some (i, True))"

lemma ok_distinct: "entities_ok U gs \<Longrightarrow> distinct (m_entityList gs) \<and> distinct (map fst (removals gs))"
  unfolding entities_ok_def by (elim conjE) (intro conjI)

lemma ok_listed: "entities_ok U gs \<Longrightarrow> a \<in> set (m_entityList gs) \<Longrightarrow>
    \<exists>i fin. known gs a = Some (i, fin) \<and> m_entitiesById gs i = Some a \<and> i < MaxObjectId \<and> i \<in> U \<and> (fin \<longrightarrow> (a, i) \<in> set (removals gs))"
  unfolding entities_ok_def by (elim conjE) (erule bspec)

lemma ok_by_id: "entities_ok U gs \<Longrightarrow> m_entitiesById gs i = Some a \<Longrightarrow> a < next_entity gs \<and>
    (known gs a = None \<or> a \<in> set (m_entityList gs) \<and> (\<exists>fin. known gs a = Some (i, fin)))"
  unfolding entities_ok_def by (elim conjE) (erule allE, erule allE, erule mp, assumption)

lemma ok_by_id_known: "entities_ok U gs \<Longrightarrow> m_entitiesById gs i = Some a \<Longrightarrow> known gs a = Some (j, fin) \<Longrightarrow> a \<in> set (m_entityList gs) \<and> j = i"
  using ok_by_id[of U gs i a] by auto

lemma ok_fresh: "entities_ok U gs \<Longrightarrow> next_entity gs \<le> a \<Longrightarrow> known gs a = None"
  unfolding entities_ok_def by (elim conjE) (erule allE, erule mp, assumption)

lemma ok_used: "entities_ok U gs \<Longrightarrow> i \<in> U \<Longrightarrow> \<exists>a \<in> set (m_entityList gs). \<exists>fin. known gs a = Some (i, fin)"
  unfolding entities_ok_def by (elim conjE) (erule bspec)

lemma ok_removal: "entities_ok U gs \<Longrightarrow> (a, i) \<in> set (removals gs) \<Longrightarrow> a \<in> set (m_entityList gs) \<and> known gs a = Some (i, True)"
  unfolding entities_ok_def by (elim conjE) (drule bspec, assumption, simp)

lemma entities_okI:
  assumes "distinct (m_entityList gs)" "distinct (map fst (removals gs))"
    "\<And>a. a \<in> set (m_entityList gs) \<Longrightarrow>
       \<exists>i fin. known gs a = Some (i, fin) \<and> m_entitiesById gs i = Some a \<and> i < MaxObjectId \<and> i \<in> U \<and> (fin \<longrightarrow> (a, i) \<in> set (removals gs))"
    "\<And>i a. m_entitiesById gs i = Some a \<Longrightarrow> a < next_entity gs"
    "\<And>i a j fin. m_entitiesById gs i = Some a \<Longrightarrow> known gs a = Some (j, fin) \<Longrightarrow> a \<in> set (m_entityList gs) \<and> j = i"
    "\<And>a. next_entity gs \<le> a \<Longrightarrow> known gs a = None"
    "\<And>i. i \<in> U \<Longrightarrow> \<exists>a \<in> set (m_entityList gs). \<exists>fin. known gs a = Some (i, fin)"
    "\<And>a i. (a, i) \<in> set (removals gs) \<Longrightarrow> a \<in> set (m_entityList gs) \<and> known gs a = Some (i, True)"
  shows "entities_ok U gs"
proof -
  have "known gs a = None \<or> a \<in> set (m_entityList gs) \<and> (\<exists>fin. known gs a = Some (i, fin))" if "m_entitiesById gs i = Some a" for i a
    using assms(5)[OF that] by (cases "known gs a") auto
  then show ?thesis unfolding entities_ok_def using assms by (intro conjI ballI allI impI) auto
qed

definition game_ok :: "'t game_state \<Rightarrow> bool" where
  "game_ok gs \<longleftrightarrow> entities_ok (m_objectIdsUsed (ids gs)) gs"

text \<open>Operations that leave this part alone.\<close>

definition same_entities :: "'t game_state \<Rightarrow> 't game_state \<Rightarrow> bool" where
  "same_entities gs gs' \<longleftrightarrow> m_entityList gs' = m_entityList gs \<and> m_entitiesById gs' = m_entitiesById gs \<and>
     next_entity gs' = next_entity gs \<and> known gs' = known gs \<and> removals gs' = removals gs"

definition same_used :: "'t game_state \<Rightarrow> 't game_state \<Rightarrow> bool" where
  "same_used gs gs' \<longleftrightarrow> same_entities gs gs' \<and> m_objectIdsUsed (ids gs') = m_objectIdsUsed (ids gs)"

lemma entities_ok_same: "same_entities gs gs' \<Longrightarrow> entities_ok U gs' = entities_ok U gs"
  by (simp add: same_entities_def entities_ok_def)

lemma same_used_ok: "same_used gs gs' \<Longrightarrow> entities_ok U gs' = entities_ok U gs" "same_used gs gs' \<Longrightarrow> game_ok gs' = game_ok gs"
  by (simp_all add: same_used_def game_ok_def entities_ok_same)

lemma same_used_refl [simp]: "same_used gs gs"
  by (simp add: same_used_def same_entities_def)

lemma same_used_trans: "same_used gs gs' \<Longrightarrow> same_used gs' gs'' \<Longrightarrow> same_used gs gs''"
  by (simp add: same_used_def same_entities_def)

lemma same_used_foldl: "(\<And>gs x. same_used gs (f gs x)) \<Longrightarrow> same_used gs (foldl f gs xs)"
  by (induction xs arbitrary: gs) (auto intro: same_used_trans)

text \<open>The primitives.\<close>

lemma known_change [simp]:
  "(\<And>e. entities gs a = Some e \<Longrightarrow> e_handle (f e) = e_handle e \<and> finalizing (f e) = finalizing e) \<Longrightarrow> known (change_entity a f gs) = known gs"
proof
  fix x
  assume "\<And>e. entities gs a = Some e \<Longrightarrow> e_handle (f e) = e_handle e \<and> finalizing (f e) = finalizing e"
  then show "known (change_entity a f gs) x = known gs x"
    by (cases "x = a"; cases "entities gs a") (simp_all add: known_def change_entity_def)
qed

lemma same_used_entity [simp]:
  "(\<And>e. entities gs a = Some e \<Longrightarrow> e_handle (f e) = e_handle e \<and> finalizing (f e) = finalizing e) \<Longrightarrow> same_used gs (change_entity a f gs)"
  by (simp add: same_used_def same_entities_def known_change) (simp add: change_entity_def removals_def)

lemma known_fields [simp]: "known (change_data c f gs) = known gs" "known (call x gs) = known gs" "known (change_ids h gs) = known gs"
  "known (gs\<lparr>calls := cs\<rparr>) = known gs" "known (gs\<lparr>data_of := d\<rparr>) = known gs" "known (gs\<lparr>main_tasks := ms\<rparr>) = known gs"
  "known (gs\<lparr>sync_tasks := ss\<rparr>) = known gs" "known (gs\<lparr>m_entityList := l\<rparr>) = known gs" "known (gs\<lparr>m_entitiesById := m\<rparr>) = known gs"
  "known (gs\<lparr>entityCreationList := cl\<rparr>) = known gs" "known (gs\<lparr>ids := s\<rparr>) = known gs"
  by (simp_all add: known_def change_data_def call_def change_ids_def fun_eq_iff)

lemma same_used_data [simp]: "same_used gs (change_data c f gs)"
  by (simp add: same_used_def same_entities_def) (simp add: change_data_def removals_def)

lemma same_used_call [simp]: "same_used gs (call x gs)"
  by (simp add: same_used_def same_entities_def) (simp add: call_def removals_def)

lemma same_used_ids: "(\<And>s. m_objectIdsUsed (f s) = m_objectIdsUsed s) \<Longrightarrow> same_used gs (change_ids f gs)"
  by (simp add: same_used_def same_entities_def) (simp add: change_ids_def removals_def)

lemma same_used_resend [simp]: "same_used gs (force_resend reg e gs)"
  by (simp add: same_used_def same_entities_def force_resend_def removals_def)

lemma same_used_creation [simp]: "same_used gs (gs\<lparr>entityCreationList := l\<rparr>)"
  by (simp add: same_used_def same_entities_def removals_def)

section \<open>The operations\<close>

lemma same_used_ReassignEntity [simp]: "same_used gs (ReassignEntity reg now h t gs)"
proof (cases "GetEntity h gs")
  case (Some p)
  obtain a e where p: "p = (a, e)" by (cases p)
  let ?f = "\<lambda>e. e\<lparr>lastMigratedAt := now, e_lastOwner := lock reg (e_client e), e_client := t\<rparr>"
  show ?thesis
  proof (cases "e_type e = Player")
    case False
    define gs1 where "gs1 = change_entity a (\<lambda>x. x\<lparr>lastMigratedAt := now, e_lastOwner := lock reg (e_client e), e_client := t\<rparr>) gs"
    define gs2 where "gs2 = (case e_stateBag e of None \<Rightarrow> gs1
      | Some b \<Rightarrow> call (Set_bag_owner b (case t of None \<Rightarrow> - 1 | Some c \<Rightarrow> sint (GetSlotId reg c))) gs1)"
    define gs3 where "gs3 = (case lock reg (e_client e) of None \<Rightarrow> gs2
      | Some c \<Rightarrow> change_data c (\<lambda>d. d\<lparr>c_objectIds := c_objectIds d - {h}\<rparr>) gs2)"
    define gs4 where "gs4 = (case t of None \<Rightarrow> gs3 | Some c \<Rightarrow> change_data c (\<lambda>d. d\<lparr>c_objectIds := insert h (c_objectIds d)\<rparr>) gs3)"
    have 1: "same_used gs gs1" unfolding gs1_def by (rule same_used_entity) simp
    have 2: "same_used gs1 gs2" unfolding gs2_def by (simp split: option.split)
    have 3: "same_used gs2 gs3" unfolding gs3_def by (simp split: option.split)
    have 4: "same_used gs3 gs4" unfolding gs4_def by (simp split: option.split)
    have 5: "same_used gs4 (force_resend reg e gs4)" by simp
    have r: "ReassignEntity reg now h t gs = change_ids (\<lambda>s. s\<lparr>m_objectIdsStolen := insert h (m_objectIdsStolen s)\<rparr>) (force_resend reg e gs4)"
      using Some p False unfolding gs4_def gs3_def gs2_def gs1_def by (simp add: ReassignEntity_def Let_def)
    have "same_used (force_resend reg e gs4) (ReassignEntity reg now h t gs)" unfolding r by (rule same_used_ids) simp
    then show ?thesis using 1 2 3 4 5 same_used_trans by blast
  qed (simp add: ReassignEntity_def Some p)
qed (simp add: ReassignEntity_def)

lemma same_used_Move [simp]: "same_used gs (snd (MoveEntityToCandidate env reg now a client gs))"
  by (simp add: MoveEntityToCandidate_def Let_def split: option.split)

lemma same_used_RemoveClone [simp]: "same_used gs (RemoveClone i gs)"
  by (simp add: RemoveClone_def split: option.split)

lemma same_used_drop_entity: "same_used (snd r) (snd (drop_entity env reg now client slotId r a))"
proof -
  obtain er gs where r: "r = (er, gs)" by (cases r)
  show ?thesis
  proof (cases "entities gs a")
    case (Some e)
    show ?thesis
    proof (cases "syncTree e")
      case (Some t)
      define e1 where "e1 = (case GetFirstOwner reg e of
          Some c \<Rightarrow> if GetNetId reg c = GetNetId reg client then e\<lparr>firstOwnerDropped := True\<rparr> else e | None \<Rightarrow> e)"
      define e2 where "e2 = (if slotId \<noteq> - 1
          then e1\<lparr>relevantTo := relevantTo e1 - {unat slotId}, deletedFor := deletedFor e1 - {unat slotId},
                  outOfScopeFor := outOfScopeFor e1 - {unat slotId}, lastFramesSent := (lastFramesSent e1)(unat slotId := 0)\<rparr> else e1)"
      have e2: "e_handle e2 = e_handle e \<and> finalizing e2 = finalizing e" by (simp add: e2_def e1_def split: option.split)
      define gs1 where "gs1 = change_entity a (\<lambda>_. e2) gs"
      have 1: "same_used gs gs1" unfolding gs1_def by (rule same_used_entity) (use \<open>entities gs a = Some e\<close> e2 in simp)
      obtain moved gs2 where m: "MoveEntityToCandidate env reg now a (Some client) gs1 = (moved, gs2)" by (cases "MoveEntityToCandidate env reg now a (Some client) gs1")
      have 2: "same_used gs1 gs2" using same_used_Move[of gs1 env reg now a "Some client"] m by simp
      have "snd (drop_entity env reg now client slotId r a) =
          (if moved then gs2 else if IsOwnedByClientScript env e2 \<and> \<not> firstOwnerDropped e2
           then ReassignEntity reg now (e_handle e2) (GetFirstOwner reg e) gs2 else gs2)"
        using \<open>entities gs a = Some e\<close> Some m unfolding r gs1_def e2_def e1_def by (simp add: drop_entity_def Let_def)
      then show ?thesis using 1 2 r by (auto intro: same_used_trans same_used_ReassignEntity)
    qed (simp add: drop_entity_def r Some)
  qed (simp add: drop_entity_def r)
qed

lemma same_used_drop_entities: "same_used (snd r) (snd (foldl (drop_entity env reg now client slotId) r as))"
proof (induction "as" arbitrary: r)
  case (Cons a as)
  show ?case using same_used_trans[OF same_used_drop_entity Cons.IH] by simp
qed simp

lemma same_used_HandleClientDrop [simp]: "same_used gs (HandleClientDrop env reg now cs client netId slotId gs)"
proof (cases "IsOneSync (server env)")
  case True
  define gs1 where "gs1 = (if IsBigMode (server env) then drop_from_scopes env reg netId cs gs else gs)"
  obtain toErase gs2 where f: "foldl (drop_entity env reg now client slotId) ([], gs1) (m_entityList gs1) = (toErase, gs2)"
    by (cases "foldl (drop_entity env reg now client slotId) ([], gs1) (m_entityList gs1)")
  define gs3 where "gs3 = foldl (\<lambda>gs i. RemoveClone i gs) gs2 toErase"
  define gs4 where "gs4 = change_ids (\<lambda>s. s\<lparr>m_objectIdsSent := m_objectIdsSent s - c_objectIds (data_of gs3 client)\<rparr>) gs3"
  define gs5 where "gs5 = (if slotId \<noteq> - 1
      then foldl (\<lambda>gs a. change_entity a (\<lambda>e. e\<lparr>syncTree := map_option (ClearAcksOf env (unat slotId)) (syncTree e)\<rparr>) gs) gs4 (m_entityList gs4) else gs4)"
  have "same_used gs gs1" unfolding gs1_def drop_from_scopes_def
    by (auto intro!: same_used_foldl split: option.split intro: same_used_trans[OF same_used_call same_used_data])
  moreover have "same_used gs1 gs2" using same_used_drop_entities[of "([], gs1)" env reg now client slotId "m_entityList gs1"] f by simp
  moreover have "same_used gs2 gs3" unfolding gs3_def by (rule same_used_foldl) simp
  moreover have "same_used gs3 gs4" unfolding gs4_def by (rule same_used_ids) simp
  moreover have "same_used gs4 gs5" unfolding gs5_def by (auto intro!: same_used_foldl same_used_entity)
  moreover have "HandleClientDrop env reg now cs client netId slotId gs = change_data client (\<lambda>_. new_client_data) gs5"
    using True f by (simp add: HandleClientDrop_def Let_def gs5_def gs4_def gs3_def gs1_def)
  ultimately show ?thesis using same_used_trans same_used_data by metis
qed (simp add: HandleClientDrop_def)

section \<open>Removal\<close>

lemma known_change_entity: "known (change_entity a f gs) = (known gs)(a := map_option (\<lambda>e. (e_handle (f e), finalizing (f e))) (entities gs a))"
  by (auto simp: known_def change_entity_def fun_eq_iff option.map_comp comp_def)

lemma change_entity_rest [simp]: "m_entityList (change_entity a f gs) = m_entityList gs" "m_entitiesById (change_entity a f gs) = m_entitiesById gs"
  "next_entity (change_entity a f gs) = next_entity gs" "removals (change_entity a f gs) = removals gs" "ids (change_entity a f gs) = ids gs"
  by (simp_all add: change_entity_def removals_def)

text \<open>A ped leaves its vehicle; what remains is that the removal is queued.\<close>

lemma same_used_leave: "same_used (gs\<lparr>main_tasks := main_tasks gs @ [Entity_removed a i]\<rparr>) (OnCloneRemove env a i gs)"
  by (simp add: OnCloneRemove_def Let_def split: option.split prod.split)

lemma removals_main: "removals (gs\<lparr>main_tasks := main_tasks gs @ [t]\<rparr>) = removals gs @ (case main_removal t of None \<Rightarrow> [] | Some r \<Rightarrow> [r])"
  by (simp add: removals_def map_filter_append map_filter_Cons map_filter_Nil split: option.split)

lemma entities_ok_FinalizeClone:
  assumes "entities_ok U gs"
  shows "entities_ok U (FinalizeClone env a i gs)"
proof (cases "m_entitiesById gs i = Some a \<and> (\<exists>e. entities gs a = Some e \<and> \<not> finalizing e)")
  case True
  then obtain e where e: "m_entitiesById gs i = Some a" "entities gs a = Some e" "\<not> finalizing e" by blast
  then have k: "known gs a = Some (e_handle e, False)" by (simp add: known_def)
  have a: "a \<in> set (m_entityList gs)" "e_handle e = i" using ok_by_id_known[OF assms e(1) k] by simp_all
  define gs1 where "gs1 = change_entity a (\<lambda>e. e\<lparr>finalizing := True\<rparr>) gs"
  define gs2 where "gs2 = gs1\<lparr>main_tasks := main_tasks gs1 @ [Entity_removed a i]\<rparr>"
  have new: "a \<notin> fst ` set (removals gs)" using ok_removal[OF assms] k by fastforce
  have known: "known gs2 = (known gs)(a := Some (i, True))" using e(2) a(2) by (simp add: gs2_def gs1_def known_change_entity)
  have rem: "removals gs2 = removals gs @ [(a, i)]" unfolding gs2_def removals_main by (simp add: gs1_def)
  have rest: "m_entityList gs2 = m_entityList gs" "m_entitiesById gs2 = m_entitiesById gs" "next_entity gs2 = next_entity gs"
    by (simp_all add: gs2_def gs1_def)
  have "entities_ok U gs2"
  proof (rule entities_okI; (unfold known rem rest)?)
    show "distinct (m_entityList gs)" "distinct (map fst (removals gs @ [(a, i)]))" using ok_distinct[OF assms] new by auto
    show "\<exists>j fin. ((known gs)(a \<mapsto> (i, True))) b = Some (j, fin) \<and> m_entitiesById gs j = Some b \<and> j < MaxObjectId \<and> j \<in> U \<and>
        (fin \<longrightarrow> (b, j) \<in> set (removals gs @ [(a, i)]))" if "b \<in> set (m_entityList gs)" for b
      using ok_listed[OF assms that] k a(2) by (cases "b = a") auto
    show "b < next_entity gs" if "m_entitiesById gs j = Some b" for j b using ok_by_id[OF assms that] by simp
    show "b \<in> set (m_entityList gs) \<and> j' = j" if "m_entitiesById gs j = Some b" "((known gs)(a \<mapsto> (i, True))) b = Some (j', fin)" for j b j' fin
      using ok_by_id_known[OF assms that(1)] k a that by (cases "b = a") auto
    show "((known gs)(a \<mapsto> (i, True))) b = None" if "next_entity gs \<le> b" for b
      using ok_fresh[OF assms that] k by (cases "b = a") auto
    show "\<exists>b \<in> set (m_entityList gs). \<exists>fin. ((known gs)(a \<mapsto> (i, True))) b = Some (j, fin)" if j: "j \<in> U" for j
    proof -
      obtain b fin where b: "b \<in> set (m_entityList gs)" "known gs b = Some (j, fin)" using ok_used[OF assms j] by blast
      then show ?thesis using k a(2) by (cases "b = a") auto
    qed
    show "b \<in> set (m_entityList gs) \<and> ((known gs)(a \<mapsto> (i, True))) b = Some (j, True)" if "(b, j) \<in> set (removals gs @ [(a, i)])" for b j
      using that ok_removal[OF assms, of b j] a(1) new k by auto
  qed
  moreover have "FinalizeClone env a i gs = OnCloneRemove env a i gs1" using e by (simp add: FinalizeClone_def gs1_def)
  ultimately show ?thesis using same_used_leave[of gs1 a i env] same_used_ok(1) gs2_def by metis
next
  case False
  then have "FinalizeClone env a i gs = gs" by (auto simp: FinalizeClone_def split: option.split)
  then show ?thesis using assms by simp
qed

lemma same_used_do_remove_data:
  "same_used (gs\<lparr>m_entitiesById := (m_entitiesById gs)(i := None), m_entityList := removeAll a (m_entityList gs),
      ids := (ids gs)\<lparr>m_objectIdsUsed := m_objectIdsUsed (ids gs) - {i}\<rparr>\<rparr>) (do_remove reg a i gs)"
  by (auto simp: same_used_def same_entities_def do_remove_def Let_def change_ids_def change_data_def known_def removals_def fun_eq_iff split: option.split)

lemma entities_ok_do_remove:
  assumes "game_ok gs" "removals gs = (a, i) # removals gs0" "gs0 = gs\<lparr>sync_tasks := ts\<rparr>"
  shows "game_ok (do_remove reg a i gs0)"
proof -
  let ?g = "gs0\<lparr>m_entitiesById := (m_entitiesById gs0)(i := None), m_entityList := removeAll a (m_entityList gs0),
      ids := (ids gs0)\<lparr>m_objectIdsUsed := m_objectIdsUsed (ids gs0) - {i}\<rparr>\<rparr>"
  have rem: "removals ?g = removals gs0" by (simp add: removals_def)
  have known: "known ?g = known gs" by (simp add: assms(3) known_def)
  have ok: "entities_ok (m_objectIdsUsed (ids gs)) gs" using assms(1) by (simp add: game_ok_def)
  have a: "a \<in> set (m_entityList gs)" "known gs a = Some (i, True)" "a \<notin> fst ` set (removals gs0)"
    using ok_removal[OF ok, of a i] ok_distinct[OF ok] assms(2) by simp_all
  then have ia: "m_entitiesById gs i = Some a" using ok_listed[OF ok, of a] by auto
  have "entities_ok (m_objectIdsUsed (ids gs) - {i}) ?g"
  proof (rule entities_okI; (unfold known rem)?)
    show "distinct (m_entityList ?g)" using ok_distinct[OF ok] by (simp add: assms(3) distinct_removeAll)
    show "distinct (map fst (removals gs0))" using ok_distinct[OF ok] assms(2) by simp
    show "\<exists>j fin. known gs b = Some (j, fin) \<and> m_entitiesById ?g j = Some b \<and> j < MaxObjectId \<and>
        j \<in> m_objectIdsUsed (ids gs) - {i} \<and> (fin \<longrightarrow> (b, j) \<in> set (removals gs0))" if "b \<in> set (m_entityList ?g)" for b
    proof -
      have b: "b \<in> set (m_entityList gs)" "b \<noteq> a" using that by (simp_all add: assms(3))
      then obtain j fin where j: "known gs b = Some (j, fin)" "m_entitiesById gs j = Some b" "j < MaxObjectId"
        "j \<in> m_objectIdsUsed (ids gs)" "fin \<longrightarrow> (b, j) \<in> set (removals gs)" using ok_listed[OF ok] by blast
      have "j \<noteq> i" using j b ia by auto
      then show ?thesis using j b assms(2,3) by auto
    qed
    show "b < next_entity ?g" if "m_entitiesById ?g j = Some b" for j b
      using ok_by_id[OF ok, of j b] that by (auto simp: assms(3) split: if_splits)
    show "b \<in> set (m_entityList ?g) \<and> j' = j" if "m_entitiesById ?g j = Some b" "known gs b = Some (j', fin)" for j b j' fin
      using ok_by_id_known[OF ok, of j b j' fin] that a(2) by (auto simp: assms(3) split: if_splits)
    show "known gs b = None" if "next_entity ?g \<le> b" for b using ok_fresh[OF ok] that by (simp add: assms(3))
    show "\<exists>b \<in> set (m_entityList ?g). \<exists>fin. known gs b = Some (j, fin)" if j: "j \<in> m_objectIdsUsed (ids gs) - {i}" for j
    proof -
      obtain b fin where b: "b \<in> set (m_entityList gs)" "known gs b = Some (j, fin)" using ok_used[OF ok, of j] j by blast
      then have "b \<noteq> a" using a(2) j by auto
      then show ?thesis using b by (auto simp: assms(3))
    qed
    show "b \<in> set (m_entityList ?g) \<and> known gs b = Some (j, True)" if "(b, j) \<in> set (removals gs0)" for b j
    proof -
      have "b \<noteq> a" using that a(3) by force
      then show ?thesis using ok_removal[OF ok, of b j] that assms(2) by (simp add: assms(3))
    qed
  qed
  then have "game_ok ?g" by (simp add: game_ok_def assms(3))
  then show ?thesis using same_used_ok(2)[OF same_used_do_remove_data] by blast
qed

section \<open>Callbacks\<close>

lemma game_ok_cong: "same_used gs gs' \<Longrightarrow> game_ok gs \<Longrightarrow> game_ok gs'"
  by (simp add: same_used_ok)

lemma removals_tasks: "removals (gs\<lparr>main_tasks := ts\<rparr>) = List.map_filter sync_removal (sync_tasks gs) @ List.map_filter main_removal ts"
  "removals (gs\<lparr>sync_tasks := ss\<rparr>) = List.map_filter sync_removal ss @ List.map_filter main_removal (main_tasks gs)"
  by (simp_all add: removals_def)

lemma game_ok_run_sync_task:
  assumes "game_ok gs"
  shows "game_ok (run_sync_task reg gs)"
proof (cases "sync_tasks gs")
  case (Cons t ts)
  show ?thesis
  proof (cases t)
    case (Remove_entity a)
    have "same_used gs (gs\<lparr>sync_tasks := ts\<rparr>)"
      using Cons Remove_entity by (simp add: same_used_def same_entities_def removals_def map_filter_Cons)
    moreover have "same_used (gs\<lparr>sync_tasks := ts\<rparr>) (run_sync_task reg gs)"
      using Cons Remove_entity by (simp add: run_sync_task_def Let_def split: option.split)
    ultimately show ?thesis using assms game_ok_cong same_used_trans by blast
  next
    case (Do_remove a i)
    have "removals gs = (a, i) # removals (gs\<lparr>sync_tasks := ts\<rparr>)" using Cons Do_remove by (simp add: removals_def map_filter_Cons)
    then show ?thesis using entities_ok_do_remove[OF assms _ refl] Cons Do_remove by (simp add: run_sync_task_def)
  qed
qed (simp add: run_sync_task_def assms)

text \<open>The order of the removals does not matter.\<close>

lemma entities_ok_perm:
  assumes "entities_ok U gs" "m_entityList gs' = m_entityList gs" "m_entitiesById gs' = m_entitiesById gs" "next_entity gs' = next_entity gs"
    "known gs' = known gs" "mset (removals gs') = mset (removals gs)"
  shows "entities_ok U gs'"
proof -
  have "set (removals gs') = set (removals gs)" using assms(6) by (rule mset_eq_setD)
  moreover have "mset (map fst (removals gs')) = mset (map fst (removals gs))" using assms(6) by simp
  then have "distinct (map fst (removals gs')) = distinct (map fst (removals gs))" by (rule mset_eq_imp_distinct_iff)
  ultimately show ?thesis using assms(1-5) by (simp add: entities_ok_def)
qed

lemma game_ok_run_main_task:
  assumes "game_ok gs"
  shows "game_ok (run_main_task canceled gs)"
proof (cases "main_tasks gs")
  case (Cons t ts)
  show ?thesis
  proof (cases t)
    case (Entity_creating a)
    let ?g = "call (Entity_event ''entityCreating'' a) (gs\<lparr>main_tasks := ts\<rparr>)"
    have 1: "same_used gs ?g"
      using Cons Entity_creating by (simp add: same_used_def same_entities_def removals_def map_filter_Cons call_def known_def fun_eq_iff)
    have 2: "same_used ?g (?g\<lparr>sync_tasks := sync_tasks ?g @ [Remove_entity a]\<rparr>)"
      by (simp add: same_used_def same_entities_def removals_def map_filter_append map_filter_Cons map_filter_Nil)
    have "same_used gs (run_main_task canceled gs)"
    proof (cases canceled)
      case True
      then show ?thesis using Cons Entity_creating 1 same_used_trans[OF 1 2] by (simp add: run_main_task_def Let_def split: option.split)
    next
      case False
      let ?h = "change_entity a (\<lambda>e. e\<lparr>passedFilter := True\<rparr>) ?g"
      have r: "run_main_task canceled gs = call (Entity_event ''entityCreated'' a) ?h" using Cons Entity_creating False by (simp add: run_main_task_def Let_def)
      have "same_used ?g ?h" by (rule same_used_entity) simp
      from same_used_trans[OF same_used_trans[OF 1 this] same_used_call] show ?thesis unfolding r .
    qed
    then show ?thesis using assms game_ok_cong by blast
  next
    case (Entity_removed a i)
    let ?g = "run_main_task canceled gs"
    have g: "?g = (call (Entity_event ''entityRemoved'' a) (gs\<lparr>main_tasks := ts\<rparr>))\<lparr>sync_tasks := sync_tasks gs @ [Do_remove a i]\<rparr>"
      using Cons Entity_removed by (simp add: run_main_task_def)
    have "removals ?g = List.map_filter sync_removal (sync_tasks gs @ [Do_remove a i]) @ List.map_filter main_removal ts"
      unfolding g by (simp add: removals_def call_def)
    moreover have "removals gs = List.map_filter sync_removal (sync_tasks gs) @ List.map_filter main_removal (Entity_removed a i # ts)"
      using Cons Entity_removed by (simp add: removals_def)
    ultimately have "mset (removals ?g) = mset (removals gs)" by (simp add: map_filter_append map_filter_Cons map_filter_Nil)
    moreover have "m_entityList ?g = m_entityList gs" "m_entitiesById ?g = m_entitiesById gs" "next_entity ?g = next_entity gs" "known ?g = known gs" "ids ?g = ids gs"
      unfolding g by (simp_all add: call_def known_def fun_eq_iff)
    ultimately show ?thesis using assms entities_ok_perm[of "m_objectIdsUsed (ids gs)" gs ?g] by (simp add: game_ok_def)
  qed
qed (simp add: run_main_task_def assms)

section \<open>New entities\<close>

text \<open>An entity that is in no table yet, and whose id no entity has.\<close>

definition unregistered :: "'t game_state \<Rightarrow> nat \<Rightarrow> nat \<Rightarrow> bool" where
  "unregistered gs a i \<longleftrightarrow> known gs a = Some (i, False) \<and> a \<notin> set (m_entityList gs) \<and> a < next_entity gs \<and> i < MaxObjectId \<and>
     (\<forall>b. m_entitiesById gs i = Some b \<longrightarrow> known gs b = None)"

lemma unregistered_same: "same_used gs gs' \<Longrightarrow> unregistered gs' a i = unregistered gs a i"
  by (simp add: unregistered_def same_used_def same_entities_def)

lemma entities_ok_alloc:
  assumes "entities_ok U gs" "gs' = gs\<lparr>next_entity := next_entity gs + 1, entities := (entities gs)(next_entity gs \<mapsto> e)\<rparr>" "\<not> finalizing e"
  shows "entities_ok U gs'"
    and "e_handle e < MaxObjectId \<Longrightarrow> GetEntity (e_handle e) gs = None \<Longrightarrow> unregistered gs' (next_entity gs) (e_handle e)"
proof -
  let ?n = "next_entity gs"
  have known: "known gs' = (known gs)(?n \<mapsto> (e_handle e, False))" using assms(3) by (auto simp: assms(2) known_def fun_eq_iff)
  have rest: "m_entityList gs' = m_entityList gs" "m_entitiesById gs' = m_entitiesById gs" "removals gs' = removals gs" "next_entity gs' = ?n + 1"
    by (simp_all add: assms(2) removals_def)
  have n: "known gs ?n = None" using ok_fresh[OF assms(1)] by simp
  have n': "?n \<notin> set (m_entityList gs)" using ok_listed[OF assms(1), of ?n] n by auto
  have same: "((known gs)(?n \<mapsto> (e_handle e, False))) b = known gs b" if "b \<in> set (m_entityList gs)" for b using that n' by (cases "b = ?n") auto
  show "entities_ok U gs'"
  proof (rule entities_okI; (unfold known rest)?)
    show "distinct (m_entityList gs)" "distinct (map fst (removals gs))" using ok_distinct[OF assms(1)] by simp_all
    show "\<exists>j fin. ((known gs)(?n \<mapsto> (e_handle e, False))) b = Some (j, fin) \<and> m_entitiesById gs j = Some b \<and> j < MaxObjectId \<and> j \<in> U \<and>
        (fin \<longrightarrow> (b, j) \<in> set (removals gs))" if "b \<in> set (m_entityList gs)" for b
      unfolding same[OF that] by (rule ok_listed[OF assms(1) that])
    show "b < ?n + 1" if "m_entitiesById gs j = Some b" for j b using ok_by_id[OF assms(1) that] by simp
    show "b \<in> set (m_entityList gs) \<and> j' = j" if "m_entitiesById gs j = Some b" "((known gs)(?n \<mapsto> (e_handle e, False))) b = Some (j', fin)" for j b j' fin
      using ok_by_id_known[OF assms(1) that(1)] ok_by_id[OF assms(1) that(1)] that(2) by (cases "b = ?n") auto
    show "((known gs)(?n \<mapsto> (e_handle e, False))) b = None" if "?n + 1 \<le> b" for b using ok_fresh[OF assms(1), of b] that by simp
    show "\<exists>b \<in> set (m_entityList gs). \<exists>fin. ((known gs)(?n \<mapsto> (e_handle e, False))) b = Some (j, fin)" if "j \<in> U" for j
      using ok_used[OF assms(1) that] same by auto
    show "b \<in> set (m_entityList gs) \<and> ((known gs)(?n \<mapsto> (e_handle e, False))) b = Some (j, True)" if "(b, j) \<in> set (removals gs)" for b j
      using ok_removal[OF assms(1) that] same by auto
  qed
  show "unregistered gs' ?n (e_handle e)" if h: "e_handle e < MaxObjectId" "GetEntity (e_handle e) gs = None"
  proof -
    have "((known gs)(?n \<mapsto> (e_handle e, False))) b = None" if b: "m_entitiesById gs (e_handle e) = Some b" for b
    proof -
      have "b \<noteq> ?n" using ok_by_id[OF assms(1) b] by simp
      moreover have "known gs b = None" using h b by (simp add: GetEntity_def known_def)
      ultimately show ?thesis by simp
    qed
    then show ?thesis using n' h by (simp add: unregistered_def known rest)
  qed
qed

lemma entities_ok_register:
  assumes "entities_ok U gs" "unregistered gs a i"
    "known gs' = known gs" "m_entityList gs' = m_entityList gs @ [a]" "m_entitiesById gs' = (m_entitiesById gs)(i \<mapsto> a)"
    "next_entity gs' = next_entity gs" "removals gs' = removals gs"
  shows "entities_ok (insert i U) gs'"
proof (rule entities_okI; (unfold assms(3-7))?)
  have a: "known gs a = Some (i, False)" "a \<notin> set (m_entityList gs)" "a < next_entity gs" "i < MaxObjectId" using assms(2) by (simp_all add: unregistered_def)
  have other: "j \<noteq> i" if "b \<in> set (m_entityList gs)" "m_entitiesById gs j = Some b" "known gs b \<noteq> None" for b j
    using that assms(2) by (auto simp: unregistered_def)
  show "distinct (m_entityList gs @ [a])" "distinct (map fst (removals gs))" using ok_distinct[OF assms(1)] a(2) by simp_all
  show "\<exists>j fin. known gs b = Some (j, fin) \<and> ((m_entitiesById gs)(i \<mapsto> a)) j = Some b \<and> j < MaxObjectId \<and> j \<in> insert i U \<and>
      (fin \<longrightarrow> (b, j) \<in> set (removals gs))" if "b \<in> set (m_entityList gs @ [a])" for b
  proof (cases "b = a")
    case False
    then have b: "b \<in> set (m_entityList gs)" using that by simp
    then obtain j fin where j: "known gs b = Some (j, fin)" "m_entitiesById gs j = Some b" "j < MaxObjectId" "j \<in> U" "fin \<longrightarrow> (b, j) \<in> set (removals gs)"
      using ok_listed[OF assms(1)] by blast
    then show ?thesis using other[OF b j(2)] by auto
  qed (use a in auto)
  show "b < next_entity gs" if "((m_entitiesById gs)(i \<mapsto> a)) j = Some b" for j b using that ok_by_id[OF assms(1), of j b] a(3) by (auto split: if_splits)
  show "b \<in> set (m_entityList gs @ [a]) \<and> j' = j" if "((m_entitiesById gs)(i \<mapsto> a)) j = Some b" "known gs b = Some (j', fin)" for j b j' fin
    using that ok_by_id_known[OF assms(1), of j b j' fin] a(1) by (auto split: if_splits)
  show "known gs b = None" if "next_entity gs \<le> b" for b by (rule ok_fresh[OF assms(1) that])
  show "\<exists>b \<in> set (m_entityList gs @ [a]). \<exists>fin. known gs b = Some (j, fin)" if "j \<in> insert i U" for j
    using that a(1) ok_used[OF assms(1), of j] by auto
  show "b \<in> set (m_entityList gs @ [a]) \<and> known gs b = Some (j, True)" if "(b, j) \<in> set (removals gs)" for b j
    using ok_removal[OF assms(1) that] by simp
qed

lemma last_free_value: "last_free s i = 0 \<or> id_free s (last_free s i) \<and> last_free s i \<le> i"
  by (induction i) auto

lemma last_free_found: "1 \<le> j \<Longrightarrow> j \<le> i \<Longrightarrow> id_free s j \<Longrightarrow> last_free s i \<noteq> 0"
  by (induction i) (auto simp: le_Suc_eq)

text \<open>The server's own entities, as long as an id is free.\<close>

definition id_limit :: "'t sync_env \<Rightarrow> nat" where
  "id_limit env = (if IsLengthHack env then MaxObjectId - 1 else 8191)"

lemma game_ok_CreateEntityFromTree:
  assumes "game_ok gs" "1 \<le> j" "j \<le> id_limit env" "id_free (ids gs) j"
  shows "game_ok (snd (CreateEntityFromTree env now uniqifier type tree gs))"
proof -
  define i where "i = last_free (ids gs) (id_limit env)"
  have i: "id_free (ids gs) i" "i \<le> id_limit env"
    using last_free_value[of "ids gs" "id_limit env"] last_free_found[OF assms(2-4)] by (auto simp: i_def)
  have max: "i < MaxObjectId" using i(2) by (auto simp: id_limit_def MaxObjectId_def split: if_splits)
  define gs0 where "gs0 = change_ids (\<lambda>s. s\<lparr>m_objectIdsSent := insert i (m_objectIdsSent s), m_objectIdsUsed := insert i (m_objectIdsUsed s),
                 m_objectIdsStolen := insert i (m_objectIdsStolen s)\<rparr>) gs"
  define a where "a = next_entity gs0"
  define e where "e = (blank_entity type i)\<lparr>e_frameIndex := m_frameIndex gs0, lastFrameIndex := 0, e_uniqifier := uniqifier,
                creationToken := word_of_int now, createdAt := now, passedFilter := True, syncTree := Some tree,
                lastReceivedAt := now, e_timestamp := word_of_int now\<rparr>"
  define gs1 where "gs1 = gs0\<lparr>next_entity := a + 1, entities := (entities gs0)(a \<mapsto> e)\<rparr>"
  define gs2 where "gs2 = gs1\<lparr>m_entityList := m_entityList gs1 @ [a], m_entitiesById := (m_entitiesById gs1)(i \<mapsto> a)\<rparr>"
  have r: "snd (CreateEntityFromTree env now uniqifier type tree gs) = gs2"
    unfolding gs2_def gs1_def e_def a_def gs0_def i_def by (simp add: CreateEntityFromTree_def Let_def id_limit_def)
  have "same_entities gs gs0" by (simp add: same_entities_def gs0_def) (simp add: change_ids_def removals_def)
  then have ok: "entities_ok (m_objectIdsUsed (ids gs)) gs0" using assms(1) entities_ok_same by (auto simp: game_ok_def)
  have "i \<notin> m_objectIdsUsed (ids gs)" using i(1) by (simp add: id_free_def)
  have none: "GetEntity i gs0 = None"
  proof (rule ccontr)
    assume "GetEntity i gs0 \<noteq> None"
    then obtain b x where b: "m_entitiesById gs0 i = Some b" "entities gs0 b = Some x" by (auto simp: GetEntity_def split: if_splits option.splits)
    then have "known gs0 b = Some (e_handle x, finalizing x)" by (simp add: known_def)
    then have "b \<in> set (m_entityList gs0)" "e_handle x = i" using ok_by_id_known[OF ok b(1)] by auto
    then show False using ok_listed[OF ok] \<open>known gs0 b = _\<close> \<open>i \<notin> _\<close> by fastforce
  qed
  have e: "e_handle e = i" "\<not> finalizing e" by (simp_all add: e_def blank_entity_def)
  have ok1: "entities_ok (m_objectIdsUsed (ids gs)) gs1" and un: "unregistered gs1 a i"
    using entities_ok_alloc[OF ok, of gs1 e] e none max unfolding gs1_def a_def by simp_all
  have "entities_ok (insert i (m_objectIdsUsed (ids gs))) gs2"
    by (rule entities_ok_register[OF ok1 un]) (simp_all add: gs2_def known_def removals_def fun_eq_iff)
  moreover have "m_objectIdsUsed (ids gs2) = insert i (m_objectIdsUsed (ids gs))" by (simp add: gs2_def gs1_def gs0_def change_ids_def)
  ultimately show ?thesis unfolding r by (simp add: game_ok_def)
qed

section \<open>Packets of clients\<close>

lemma same_used_clone_guard: "same_used gs (snd (clone_guard reg now c uniqifier ts a gs))"
proof -
  have 1: "same_used gs (change_entity a (\<lambda>e. e\<lparr>relevantTo := X e, outOfScopeFor := Y e\<rparr>) gs)" for X Y by (rule same_used_entity) simp
  have 2: "same_used gs (change_entity a (\<lambda>e. e\<lparr>lastOutOfBandTimestamp := ts\<rparr>) gs)" for gs :: "'a game_state" by (rule same_used_entity) simp
  show ?thesis by (simp add: clone_guard_def Let_def 1 same_used_trans[OF 1 2] split: option.split)
qed

lemma same_used_clone_apply: "same_used gs (clone_apply env now t ts bs a gs)"
proof -
  have 1: "same_used gs (change_entity a (\<lambda>e. e\<lparr>lastReceivedAt := now\<rparr>) gs)" by (rule same_used_entity) simp
  show ?thesis
  proof (cases "bs = []")
    case False
    show ?thesis unfolding clone_apply_def Let_def using False
      by (auto intro!: same_used_trans[OF 1] same_used_entity split: option.splits)
  qed (simp add: clone_apply_def 1)
qed

lemma same_used_clone_player: "same_used gs (clone_player c a gs)"
proof (cases "entities gs a")
  case (Some e)
  define known where "known = (case playerEntity (data_of gs c) of None \<Rightarrow> False | Some p \<Rightarrow> entities gs p \<noteq> None)"
  let ?g = "if known then gs else call (Create_ped c) (call (Send_world_grid c) gs)"
  have "same_used gs ?g" using same_used_trans[OF same_used_call same_used_call] by auto
  then have "same_used gs (call (Set_player_entity c a) (change_data c (\<lambda>d. d\<lparr>playerEntity := Some a\<rparr>) ?g))"
    using same_used_trans same_used_data same_used_call by metis
  then show ?thesis using Some unfolding known_def by (simp add: clone_player_def Let_def)
qed (simp add: clone_player_def)

lemma same_used_add_bag_target: "same_used gs (add_bag_target a slot gs)"
  by (simp add: add_bag_target_def split: option.split)

lemma same_used_startDelete: "same_used gs (startDelete c k a gs)"
proof -
  have "same_used gs (case entities gs a of None \<Rightarrow> gs | Some e \<Rightarrow> RemoveClone (e_handle e) gs)" by (simp split: option.split)
  from same_used_trans[OF this same_used_data] show ?thesis unfolding startDelete_def .
qed

lemma entities_ok_clone_created:
  assumes "entities_ok U gs" "unregistered gs a i" "clone_created env c i uniqifier a gs = (ok, gs')"
  shows "entities_ok (if ok then insert i U else U) gs' \<and> m_objectIdsUsed (ids gs') = m_objectIdsUsed (ids gs)"
proof -
  define k where "k = MakeHandleUniqifierPair i uniqifier"
  define gs1 where "gs1 = change_entity a (\<lambda>e. e\<lparr>passedFilter := (passedFilter e \<or> e_type e = Player),
             creationToken := (if entityCreationList gs (creationToken e) = None then 0 else creationToken e)\<rparr>) gs"
  have 1: "same_used gs gs1" unfolding gs1_def by (rule same_used_entity) simp
  obtain e where e: "entities gs1 a = Some e" using assms(2) by (auto simp: gs1_def change_entity_def unregistered_def known_def)
  define gs2 where "gs2 = (if entityCreationList gs1 (creationToken e) = None then gs1
                      else gs1\<lparr>entityCreationList := (entityCreationList gs1)(creationToken e \<mapsto> False)\<rparr>)"
  have 2: "same_used gs gs2" using same_used_trans[OF 1 same_used_creation] 1 by (simp add: gs2_def)
  define gs3 where "gs3 = change_data c (\<lambda>d. d\<lparr>syncedEntities := omap_put k \<lparr>nextSync = 0, syncDelta = 10, sy_entity = a,
                         forceUpdate = False, hasCreated = True, hasNAckedCreate = False\<rparr> (syncedEntities d), pendingCreates := (pendingCreates d)(k := None)\<rparr>) gs2"
  have 3: "same_used gs gs3" using same_used_trans[OF 2 same_used_data] by (simp add: gs3_def)
  define gs4 where "gs4 = gs3\<lparr>m_entitiesById := (m_entitiesById gs3)(i \<mapsto> a), m_entityList := m_entityList gs3 @ [a],
                         main_tasks := main_tasks gs3 @ [Entity_creating a]\<rparr>"
  have d: "same_used gs (startDelete c k a gs1)" "same_used gs (startDelete c k a gs2)"
    using same_used_trans[OF 1 same_used_startDelete] same_used_trans[OF 2 same_used_startDelete] by simp_all
  have "(ok, gs') \<in> {(False, startDelete c k a gs1), (False, startDelete c k a gs2), (True, gs4)}"
    using assms(3) e unfolding gs4_def gs3_def gs2_def k_def by (auto simp: clone_created_def gs1_def Let_def split: if_splits)
  then consider "\<not> ok" "gs' = startDelete c k a gs1" | "\<not> ok" "gs' = startDelete c k a gs2" | "ok" "gs' = gs4" by auto
  then show ?thesis
  proof cases
    case 1
    then show ?thesis using same_used_ok(1)[OF d(1)] assms(1) d(1) by (simp add: same_used_def)
  next
    case 2
    then show ?thesis using same_used_ok(1)[OF d(2)] assms(1) d(2) by (simp add: same_used_def)
  next
    case 3
    have rem: "removals gs4 = removals gs3" by (simp add: gs4_def removals_def map_filter_append map_filter_Cons map_filter_Nil)
    have ok3: "entities_ok U gs3" "unregistered gs3 a i" using same_used_ok(1)[OF \<open>same_used gs gs3\<close>] unregistered_same[OF \<open>same_used gs gs3\<close>] assms(1,2) by simp_all
    have "entities_ok (insert i U) gs4"
      by (rule entities_ok_register[OF ok3 _ _ _ _ rem]) (simp_all add: gs4_def known_def fun_eq_iff)
    moreover have "m_objectIdsUsed (ids gs4) = m_objectIdsUsed (ids gs)" using \<open>same_used gs gs3\<close> by (simp add: gs4_def same_used_def)
    ultimately show ?thesis using 3 by simp
  qed
qed

lemma entities_ok_clone_entity:
  assumes "entities_ok U gs" "i < 2 ^ 16" "clone_entity env now c creates i uniqifier token type gs = Some (a, gs')"
  shows "entities_ok U gs' \<and> m_objectIdsUsed (ids gs') = m_objectIdsUsed (ids gs) \<and> (creates \<longrightarrow> unregistered gs' a i)"
proof (cases "GetEntity i gs")
  case None
  then obtain t where t: "creates" "MakeSyncTree env type = Some t" "i \<noteq> 0xFFFF" using assms(3) by (auto simp: clone_entity_def split: if_splits option.splits)
  define e where "e = (blank_entity type i)\<lparr>e_firstOwner := Some c, e_client := Some c, e_frameIndex := m_frameIndex gs,
                        e_uniqifier := uniqifier, creationToken := token, syncTree := Some t, createdAt := now,
                        e_routingBucket := c_routingBucket (data_of gs c)\<rparr>"
  have e: "e_handle e = i" "\<not> finalizing e" by (simp_all add: e_def blank_entity_def)
  have r: "a = next_entity gs" "gs' = gs\<lparr>next_entity := next_entity gs + 1, entities := (entities gs)(next_entity gs \<mapsto> e)\<rparr>"
    using assms(3) None t unfolding e_def by (auto simp: clone_entity_def Let_def)
  have "i < MaxObjectId" using t(3) assms(2) by (simp add: MaxObjectId_def)
  then show ?thesis using entities_ok_alloc[OF assms(1) r(2) e(2)] e(1) None r by simp
next
  case (Some p)
  then show ?thesis using assms(1,3) by (cases p) (auto simp: clone_entity_def split: if_splits)
qed

lemma entities_ok_clone_update:
  assumes "entities_ok U gs" "i < 2 ^ 16" "clone_update env reg now c t i uniqifier token type bs gs = (ok, gs')"
  shows "entities_ok (if ok \<and> t = 1 then insert i U else U) gs' \<and> m_objectIdsUsed (ids gs') = m_objectIdsUsed (ids gs)"
proof (cases "clone_entity env now c (t = 1) i uniqifier token type gs")
  case None
  then show ?thesis using assms by (simp add: clone_update_def)
next
  case (Some p)
  obtain a gs1 where p: "p = (a, gs1)" by (cases p)
  have 1: "entities_ok U gs1" "m_objectIdsUsed (ids gs1) = m_objectIdsUsed (ids gs)" "t = 1 \<Longrightarrow> unregistered gs1 a i"
    using entities_ok_clone_entity[OF assms(1,2) Some[unfolded p]] by simp_all
  obtain g gs2 where g: "clone_guard reg now c uniqifier (syncTs (data_of gs c)) a gs1 = (g, gs2)"
    by (cases "clone_guard reg now c uniqifier (syncTs (data_of gs c)) a gs1")
  have s2: "same_used gs1 gs2" using same_used_clone_guard[of gs1 reg now c uniqifier "syncTs (data_of gs c)" a] g by simp
  define gs3 where "gs3 = clone_player c a (clone_apply env now t (syncTs (data_of gs c)) bs a gs2)"
  have s3: "same_used gs1 gs3" unfolding gs3_def
    by (rule same_used_trans[OF s2 same_used_trans[OF same_used_clone_apply same_used_clone_player]])
  show ?thesis
  proof (cases g)
    case False
    then have "ok = False" "gs' = gs2" using assms(3) Some p g by (simp_all add: clone_update_def)
    then show ?thesis using same_used_ok(1)[OF s2] 1 s2 by (simp add: same_used_def)
  next
    case True
    show ?thesis
    proof (cases "t = 1")
      case t: True
      obtain b gs4 where b: "clone_created env c i uniqifier a gs3 = (b, gs4)" by (cases "clone_created env c i uniqifier a gs3")
      have 4: "entities_ok (if b then insert i U else U) gs4" "m_objectIdsUsed (ids gs4) = m_objectIdsUsed (ids gs3)"
        using entities_ok_clone_created[OF _ _ b] same_used_ok(1)[OF s3] unregistered_same[OF s3] 1(1,3) t by simp_all
      have r: "ok = b" "gs' = (if b then add_bag_target a (GetSlotId reg c) gs4 else gs4)"
        using assms(3) Some p g True t b unfolding gs3_def by (simp_all add: clone_update_def Let_def split: if_splits)
      have "same_used gs4 gs'" using r(2) same_used_add_bag_target by auto
      then show ?thesis using 4 r(1) t 1(2) s3 same_used_ok(1)[OF \<open>same_used gs4 gs'\<close>] by (simp add: same_used_def)
    next
      case t: False
      have r: "ok = True" "gs' = add_bag_target a (GetSlotId reg c) (change_data c (\<lambda>d. d\<lparr>pendingCreates := (pendingCreates d)(MakeHandleUniqifierPair i uniqifier := None)\<rparr>) gs3)"
        using assms(3) Some p g True t unfolding gs3_def by (simp_all add: clone_update_def Let_def)
      have "same_used gs1 gs'" unfolding r(2)
        by (rule same_used_trans[OF s3 same_used_trans[OF same_used_data same_used_add_bag_target]])
      then show ?thesis using t 1 same_used_ok(1)[OF \<open>same_used gs1 gs'\<close>] by (simp add: same_used_def)
    qed
  qed
qed

lemma game_ok_used: "game_ok gs \<Longrightarrow> same_entities gs gs' \<Longrightarrow> m_objectIdsUsed (ids gs') = m_objectIdsUsed (ids gs) \<Longrightarrow> game_ok gs'"
  by (simp add: game_ok_def entities_ok_same)

lemma same_used_flush_ack:
  assumes "flush_ack env c (ack, gs) = Some (ack', gs')"
  shows "same_used gs gs'"
  using assms by (auto simp: flush_ack_def prepare_def Let_def MaybeFlushBuffer_def FlushBuffer_def split: if_splits bind_splits)

lemma same_used_send_ack: "send_ack env c fs (ack, gs) = Some (ack', gs') \<Longrightarrow> same_used gs gs'"
  by (auto simp: send_ack_def split: bind_splits intro: same_used_flush_ack)

lemma same_used_take_over: "same_used gs (take_over reg now c cl i gs)"
  by (simp add: take_over_def split: option.split prod.split)

lemma same_used_remove_owned: "same_used gs (remove_owned reg c i u gs)"
  by (simp add: remove_owned_def split: option.split prod.split)

lemma unat_u16: "unat (w :: u16) < 2 ^ 16"
  using unsigned_less[of w] by simp

lemma ProcessClonePacket_update:
  assumes "ProcessClonePacket env reg now c t p gs = Some (ok, i, u, p', gs')"
  shows "\<exists>token type bs. clone_update env reg now c t (unat i) u token type bs gs = (ok, gs')"
  using assms by (auto simp: ProcessClonePacket_def Let_def prod_eq_iff split: bind_splits) blast+

lemma game_ok_ProcessClonePacket:
  assumes "game_ok gs" "ProcessClonePacket env reg now c t p gs = Some (ok, i, u, p', gs')"
  shows "entities_ok (if ok \<and> t = 1 then insert (unat i) (m_objectIdsUsed (ids gs')) else m_objectIdsUsed (ids gs')) gs'"
proof -
  obtain token type bs where r: "clone_update env reg now c t (unat i) u token type bs gs = (ok, gs')"
    using ProcessClonePacket_update[OF assms(2)] by blast
  have "entities_ok (m_objectIdsUsed (ids gs)) gs" using assms(1) by (simp add: game_ok_def)
  from entities_ok_clone_update[OF this unat_u16 r] show ?thesis by auto
qed

lemma game_ok_use: "game_ok (change_ids (\<lambda>s. s\<lparr>m_objectIdsUsed := insert i (m_objectIdsUsed s)\<rparr>) gs) = entities_ok (insert i (m_objectIdsUsed (ids gs))) gs"
proof -
  have "same_entities gs (change_ids (\<lambda>s. s\<lparr>m_objectIdsUsed := insert i (m_objectIdsUsed s)\<rparr>) gs)"
    by (simp add: same_entities_def) (simp add: change_ids_def removals_def)
  from entities_ok_same[OF this] show ?thesis by (simp add: game_ok_def) (simp add: change_ids_def)
qed

text \<open>The six kinds of messages, by what they do to the game state.\<close>

lemma ProcessCloneCreate_cases:
  assumes "ProcessCloneCreate env reg now c (p, ack, gs) = Some (p', ack', gs')"
  obtains ok i u p1 gs1 where "ProcessClonePacket env reg now c 1 p gs = Some (ok, i, u, p1, gs1)"
    "send_ack env c [(3, 1), (13, ucast i), (16, ucast u)]
      (ack, if ok then change_ids (\<lambda>s. s\<lparr>m_objectIdsUsed := insert (unat i) (m_objectIdsUsed s)\<rparr>) gs1 else gs1) = Some (ack', gs')"
  using assms by (auto simp: ProcessCloneCreate_def Let_def simp del: if_split split: bind_splits)

lemma ProcessCloneSync_cases:
  assumes "ProcessCloneSync env reg now c (p, ack, gs) = Some (p', ack', gs')"
  obtains ok i u p1 gs1 where "ProcessClonePacket env reg now c 2 p gs = Some (ok, i, u, p1, gs1)"
    "send_ack env c [(3, 2), (13, ucast i), (16, ucast u)] (ack, gs1) = Some (ack', gs')"
  using assms by (auto simp: ProcessCloneSync_def split: bind_splits)

lemma ProcessCloneRemove_cases:
  assumes "ProcessCloneRemove env reg c (p, ack, gs) = Some (p', ack', gs')"
  obtains i :: u16 and u gs1 where "send_ack env c [(3, 3), (13, ucast i), (16, ucast u)] (ack, gs) = Some (ack', gs1)" "gs' = remove_owned reg c (unat i) u gs1"
  using assms by (auto simp: ProcessCloneRemove_def split: bind_splits)

lemma ProcessCloneTakeover_cases:
  assumes "ProcessCloneTakeover env reg now c (p, ack, gs) = Some (p', ack', gs')"
  obtains cl i where "gs' = take_over reg now c cl i gs"
  using assms by (auto simp: ProcessCloneTakeover_def split: bind_splits)

lemma set_timestamp_cases:
  assumes "set_timestamp env c (p, ack, gs) = Some (p', ack', gs')"
  obtains newTs gs1 where "send_ack env c [(3, 5), (32, newTs)] (ack, gs) = Some (ack', gs1)"
    "gs' = gs1 \<or> gs' = change_data c (\<lambda>d. d\<lparr>ackTs := newTs, syncTs := newTs\<rparr>) gs1"
  using assms by (auto simp: set_timestamp_def Let_def split: bind_splits if_splits)

lemma set_index_cases:
  assumes "set_index env c (p, ack, gs) = Some (p', ack', gs')"
  obtains newIndex where "gs' = change_data c (\<lambda>d. d\<lparr>fidx := newIndex\<rparr>) gs"
  using assms by (auto simp: set_index_def split: bind_splits)

lemma clone_message_cases:
  assumes "clone_message env reg now c ty r = Some r'"
  obtains "ProcessCloneCreate env reg now c r = Some r'" | "ProcessCloneSync env reg now c r = Some r'"
    | "ProcessCloneRemove env reg c r = Some r'" | "ProcessCloneTakeover env reg now c r = Some r'"
    | "set_timestamp env c r = Some r'" | "set_index env c r = Some r'"
  using assms by (auto simp: clone_message_def split: if_splits)

lemma game_ok_clone_message:
  assumes "game_ok gs" "clone_message env reg now c ty (p, ack, gs) = Some (p', ack', gs')"
  shows "game_ok gs'"
  using assms(2)
proof (cases rule: clone_message_cases)
  case 1
  then show ?thesis
  proof (cases rule: ProcessCloneCreate_cases)
    case (1 ok i u p1 gs1)
    have "game_ok (if ok then change_ids (\<lambda>s. s\<lparr>m_objectIdsUsed := insert (unat i) (m_objectIdsUsed s)\<rparr>) gs1 else gs1)"
      using game_ok_ProcessClonePacket[OF assms(1) 1(1)] by (cases ok) (simp_all add: game_ok_use, simp add: game_ok_def)
    then show ?thesis by (rule game_ok_cong[OF same_used_send_ack[OF 1(2)]])
  qed
next
  case 2
  then show ?thesis
  proof (cases rule: ProcessCloneSync_cases)
    case (1 ok i u p1 gs1)
    then have "game_ok gs1" using game_ok_ProcessClonePacket[OF assms(1) 1(1)] by (simp add: game_ok_def)
    then show ?thesis by (rule game_ok_cong[OF same_used_send_ack[OF 1(2)]])
  qed
next
  case 3
  then show ?thesis
  proof (cases rule: ProcessCloneRemove_cases)
    case (1 i u gs1)
    show ?thesis unfolding 1(2) by (rule game_ok_cong[OF same_used_trans[OF same_used_send_ack[OF 1(1)] same_used_remove_owned] assms(1)])
  qed
next
  case 4
  then show ?thesis by (cases rule: ProcessCloneTakeover_cases) (simp add: game_ok_cong[OF same_used_take_over assms(1)])
next
  case 5
  then show ?thesis
  proof (cases rule: set_timestamp_cases)
    case (1 newTs gs1)
    note same = same_used_send_ack[OF 1(1)]
    from 1(2) show ?thesis by (elim disjE) (simp_all add: game_ok_cong[OF same assms(1)] game_ok_cong[OF same_used_trans[OF same same_used_data] assms(1)])
  qed
next
  case 6
  then show ?thesis by (cases rule: set_index_cases) (simp add: game_ok_cong[OF same_used_data assms(1)])
qed

text \<open>What every message keeps, every packet keeps.\<close>

lemma clone_messages_invariant:
  assumes "clone_messages env reg now c r = Some r'" "P (snd r)"
    "\<And>ty p ack gs r1. P (ack, gs) \<Longrightarrow> clone_message env reg now c ty (p, ack, gs) = Some r1 \<Longrightarrow> P (snd r1)"
  shows "P (snd r')"
proof -
  have "env' = env \<longrightarrow> reg' = reg \<longrightarrow> now' = now \<longrightarrow> c' = c \<longrightarrow> P (snd r) \<longrightarrow> P (snd r')"
    if "clone_messages env' reg' now' c' r = Some r'" for env' reg' now' c'
  proof (rule clone_messages.raw_induct[where P = "\<lambda>env' reg' now' c' r r'. env' = env \<longrightarrow> reg' = reg \<longrightarrow> now' = now \<longrightarrow> c' = c \<longrightarrow> P (snd r) \<longrightarrow> P (snd r')", OF _ that])
    fix rec reg1 now1 c1 r r' and env1 :: "'a sync_env"
    assume IH: "\<And>env1 reg1 now1 c1 r r'. rec env1 reg1 now1 c1 r = Some r' \<Longrightarrow>
        env1 = env \<longrightarrow> reg1 = reg \<longrightarrow> now1 = now \<longrightarrow> c1 = c \<longrightarrow> P (snd r) \<longrightarrow> P (snd r')"
      and step: "(case r of (p, ack, gs) \<Rightarrow>
        if IsAtEnd p then Some (p, ack, gs)
        else Option.bind (Read (IsLengthHack env1) 3 p) (\<lambda>(dataType, p).
          if dataType = 0 \<or> dataType = 7 then Some (p, ack, gs)
          else Option.bind (clone_message env1 reg1 now1 c1 dataType (p, ack, gs)) (rec env1 reg1 now1 c1))) = Some r'"
    show "env1 = env \<longrightarrow> reg1 = reg \<longrightarrow> now1 = now \<longrightarrow> c1 = c \<longrightarrow> P (snd r) \<longrightarrow> P (snd r')"
    proof (intro impI)
      assume eq: "env1 = env" "reg1 = reg" "now1 = now" "c1 = c" and P: "P (snd r)"
      obtain p ack gs where r: "r = (p, ack, gs)" by (cases r)
      show "P (snd r')"
      proof (cases "IsAtEnd p")
        case True
        then show ?thesis using step P r by auto
      next
        case False
        then obtain ty p1 where rd: "Read (IsLengthHack env) 3 p = Some (ty, p1)" using step r eq by (auto split: bind_splits)
        show ?thesis
        proof (cases "ty = 0 \<or> ty = 7")
          case True
          then show ?thesis using step P r False rd eq by auto
        next
          case nz: False
          then obtain r1 where m: "clone_message env reg now c ty (p1, ack, gs) = Some r1" "rec env reg now c r1 = Some r'"
            using step r False rd eq by (auto split: bind_splits)
          then show ?thesis using IH[OF m(2)] assms(3)[OF _ m(1)] P r by simp
        qed
      qed
    qed
  qed
  then show ?thesis using assms(1,2) by blast
qed

lemma game_ok_ParseClonePacket:
  assumes "game_ok gs" "ParseClonePacket env reg now c packet gs = Some gs'"
  shows "game_ok gs'"
proof -
  obtain p ack gs1 ack2 gs2 f where 1: "clone_messages env reg now c (mb_of_data packet, ackBuffer (data_of gs c), gs) = Some (p, ack, gs1)"
    "FlushBuffer env ''msgPackedAcks'' (fst (prepare c (ack, gs1))) c (snd (prepare c (ack, gs1))) = Some (ack2, gs2)"
    "gs' = change_data c f gs2"
    using assms(2) by (auto simp: ParseClonePacket_def Let_def split: bind_splits)
  have "game_ok (snd (snd (p, ack, gs1)))"
    by (rule clone_messages_invariant[where P = "\<lambda>r. game_ok (snd r)", OF 1(1)]) (use assms(1) game_ok_clone_message in auto)
  moreover have "same_used gs1 gs2" using 1(2) by (auto simp: prepare_def Let_def FlushBuffer_def split: if_splits bind_splits)
  ultimately show ?thesis unfolding 1(3) using game_ok_cong[OF same_used_trans[OF _ same_used_data]] by simp
qed

lemma same_used_ack_create: "same_used gs (ack_create reg c i u gs)"
proof -
  have 1: "same_used gs (change_entity a (\<lambda>e. e\<lparr>deletedFor := X e\<rparr>) gs)" for a X by (rule same_used_entity) simp
  show ?thesis by (simp add: ack_create_def same_used_trans[OF 1 same_used_data] split: option.split prod.split)
qed

lemma ack_messages_invariant:
  assumes "ack_messages env reg c r = Some r'" "P (snd r)"
    "\<And>i u gs. P gs \<Longrightarrow> P (ack_create reg c i u gs)" "\<And>i u gs. P gs \<Longrightarrow> P (ack_remove c i u gs)"
  shows "P (snd r')"
proof -
  have "reg' = reg \<longrightarrow> c' = c \<longrightarrow> P (snd r) \<longrightarrow> P (snd r')" if "ack_messages env' reg' c' r = Some r'" for env' reg' c'
  proof (rule ack_messages.raw_induct[where P = "\<lambda>env' reg' c' r r'. reg' = reg \<longrightarrow> c' = c \<longrightarrow> P (snd r) \<longrightarrow> P (snd r')", OF _ that])
    fix rec reg1 c1 r r' and env1 :: "'a sync_env"
    assume IH: "\<And>env1 reg1 c1 r r'. rec env1 reg1 c1 r = Some r' \<Longrightarrow> reg1 = reg \<longrightarrow> c1 = c \<longrightarrow> P (snd r) \<longrightarrow> P (snd r')"
      and step: "(case r of (p, gs) \<Rightarrow>
        if IsAtEnd p then Some (p, gs)
        else Option.bind (Read (IsLengthHack env1) 3 p) (\<lambda>(dataType, p).
          if dataType \<noteq> 1 \<and> dataType \<noteq> 3 then Some (p, gs)
          else Option.bind (Read16 env1 13 p) (\<lambda>(objectId, p).
            Option.bind (Read16 env1 16 p) (\<lambda>(uniqifier, p).
              rec env1 reg1 c1 (p,
                (if dataType = 1 then ack_create reg1 c1 (unat objectId) uniqifier gs
                 else ack_remove c1 (unat objectId) uniqifier gs)))))) = Some r'"
    show "reg1 = reg \<longrightarrow> c1 = c \<longrightarrow> P (snd r) \<longrightarrow> P (snd r')"
    proof (intro impI)
      assume eq: "reg1 = reg" "c1 = c" and P: "P (snd r)"
      obtain p gs where r: "r = (p, gs)" by (cases r)
      show "P (snd r')"
      proof (cases "IsAtEnd p")
        case True
        then show ?thesis using step P r by auto
      next
        case False
        then obtain ty p1 where rd: "Read (IsLengthHack env1) 3 p = Some (ty, p1)" using step r by (auto split: bind_splits)
        show ?thesis
        proof (cases "ty = 1 \<or> ty = 3")
          case True
          then obtain i u p2 where "rec env1 reg c (p2, if ty = 1 then ack_create reg c i u gs else ack_remove c i u gs) = Some r'"
            using step r False rd eq by (auto simp del: if_split split: bind_splits)
          from IH[OF this] show ?thesis using assms(3,4) P r by simp
        next
          case nz: False
          then show ?thesis using step P r False rd by auto
        qed
      qed
    qed
  qed
  then show ?thesis using assms(1,2) by blast
qed

lemma same_used_ParseAckPacket:
  assumes "ParseAckPacket env reg c packet gs = Some gs'"
  shows "same_used gs gs'"
proof -
  obtain r' where r: "ack_messages env reg c (mb_of_data packet, gs) = Some r'" "gs' = snd r'" using assms by (auto simp: ParseAckPacket_def)
  have "same_used gs (snd r')"
    by (rule ack_messages_invariant[where P = "same_used gs", OF r(1)])
      (auto intro: same_used_trans same_used_ack_create simp: ack_remove_def)
  then show ?thesis using r(2) by simp
qed

end
