(* ===== verification/Sync_Tick.thy ===== *)
theory Sync_Tick
  imports Sync_Clones
begin

text \<open>
  The tick of the game state (\<open>ServerGameState::Tick\<close> in src/state/ServerGameState.cpp): which entities are collected, which are
  relevant to a client, and what is sent to it. Positions, culling and the world grid decide through the function
  \<open>InScope\<close>; the clients of the parallel loop are taken one after the other. What the sync trees write is not part of the model:
  the commands say what is written.
\<close>

record 't tick_env =
  Culling :: bool
  VehicleCulling :: bool
  InScope :: "nat \<Rightarrow> 't entity \<Rightarrow> bool"
  PlayerOccupants :: "'t \<Rightarrow> bool"
  SyncDelay :: "nat \<Rightarrow> 't entity \<Rightarrow> bool \<Rightarrow> bool \<Rightarrow> int"
  NoPeer :: "nat \<Rightarrow> bool"
  Unseen :: "nat \<Rightarrow> bool"
  NAK :: bool

section \<open>Collection\<close>

text \<open>Entities that are relevant to nobody go: those to be deleted, those whose creator has left, and those of no script.\<close>

definition collectable :: "'t sync_env \<Rightarrow> registry \<Rightarrow> 't entity \<Rightarrow> bool" where
  "collectable env reg e \<longleftrightarrow> relevantTo e = {} \<and>
     (if deleting e then True
      else if IsOwnedByClientScript env e then firstOwnerDropped e
      else \<not> IsOwnedByScript env e \<and> (e_type e \<noteq> Player \<or> GetClient reg e = None))"

definition collect_entity :: "'t sync_env \<Rightarrow> registry \<Rightarrow> (nat \<times> nat option) list \<times> 't game_state \<Rightarrow> nat \<Rightarrow> (nat \<times> nat option) list \<times> 't game_state" where
  "collect_entity env reg r a =
     (case r of (relevant, gs) \<Rightarrow>
      case entities gs a of
        None \<Rightarrow> r
      | Some e \<Rightarrow>
          let gs = change_entity a (\<lambda>e. e\<lparr>e_frameIndex := m_frameIndex gs\<rparr>) gs in
          if syncTree e = None then (relevant, gs)
          else if collectable env reg e then (relevant, FinalizeClone env a (e_handle e) gs)
          else (relevant @ [(a, e_client e)], gs))"

definition collect_entities :: "'t sync_env \<Rightarrow> registry \<Rightarrow> 't game_state \<Rightarrow> (nat \<times> nat option) list \<times> 't game_state" where
  "collect_entities env reg gs = foldl (collect_entity env reg) ([], gs) (m_entityList gs)"

section \<open>Which clients are looked at\<close>

text \<open>The next slots, downwards and around, up to the slot the last tick ended with.\<close>

partial_function (option) find_client :: "registry \<Rightarrow> nat \<Rightarrow> nat \<Rightarrow> nat \<Rightarrow> (nat option \<times> nat) option" where
  "find_client reg initSlot lastUpdateSlot s =
     (let client = GetClientBySlotID s reg; s' = (if s = 0 then initSlot else s - 1) in
      if s' = lastUpdateSlot \<or> client \<noteq> None then Some (client, s') else find_client reg initSlot lastUpdateSlot s')"

section \<open>Relevance\<close>

definition vehicle_types :: "nat set" where
  "vehicle_types = {0, 1, 2, 4, 9, 10, 12, 13}"

text \<open>Whether the client should have the entity, and whether it is a player or a vehicle with players.\<close>

definition in_view :: "'t tick_env \<Rightarrow> 't sync_env \<Rightarrow> 't game_state \<Rightarrow> nat \<Rightarrow> bool \<Rightarrow> nat \<Rightarrow> 't entity \<Rightarrow> bool \<times> bool" where
  "in_view te env gs c ownsEntity a e =
     (let hasPlayer = (case playerEntity (data_of gs c) of None \<Rightarrow> False | Some p \<Rightarrow> entities gs p \<noteq> None);
          near = (\<not> Culling te \<or> (ownsEntity \<and> e_type e = Player) \<or> (hasPlayer \<and> InScope te c e));
          big = IsBigMode (server env);
          occupied = (e_type e \<in> vehicle_types \<and> (case syncTree e of None \<Rightarrow> False | Some t \<Rightarrow> PlayerOccupants te t))
      in if near then (True, False)
         else if e_type e = Player then (\<not> big, True)
         else if occupied then (\<not> VehicleCulling te \<and> \<not> big, True)
         else (False, False))"

definition may_route :: "'t game_state \<Rightarrow> nat \<Rightarrow> bool \<Rightarrow> nat \<Rightarrow> 't entity \<Rightarrow> bool" where
  "may_route gs c ownsEntity a e \<longleftrightarrow> (passedFilter e \<or> ownsEntity) \<and>
     (c_routingBucket (data_of gs c) = e_routingBucket e \<or> playerEntity (data_of gs c) = Some a)"

text \<open>The owner keeps what it owns, or the entity asks for another owner.\<close>

definition keep_owned :: "'t sync_env \<Rightarrow> 't game_state \<Rightarrow> nat \<Rightarrow> 't entity \<Rightarrow> bool \<Rightarrow> bool" where
  "keep_owned env gs c e isRelevant \<longleftrightarrow>
     isRelevant \<or> (\<not> hasSynced e \<or> IsOwnedByClientScript env e) \<and> e_routingBucket e = c_routingBucket (data_of gs c)"

definition entity_key :: "'t entity \<Rightarrow> ident" where
  "entity_key e = MakeHandleUniqifierPair (e_handle e) (e_uniqifier e)"

text \<open>One entity for one client: the table \<open>new\<close> replaces that of the client.\<close>

definition update_relevance :: "'t tick_env \<Rightarrow> 't sync_env \<Rightarrow> registry \<Rightarrow> nat \<Rightarrow> (ident, synced_entity) omap \<times> 't game_state \<Rightarrow>
    nat \<times> nat option \<Rightarrow> (ident, synced_entity) omap \<times> 't game_state" where
  "update_relevance te env reg c r x =
     (case (r, x) of ((new, gs), (a, entityClient)) \<Rightarrow>
      case entities gs a of
        None \<Rightarrow> r
      | Some e \<Rightarrow>
          let s = unat (GetSlotId reg c);
              ownsEntity = (case lock reg entityClient of None \<Rightarrow> False | Some o' \<Rightarrow> GetNetId reg o' = GetNetId reg c);
              k = entity_key e; current = map_of (syncedEntities (data_of gs c)) k
          in
          if s \<in> deletedFor e then r
          else
            let (isRelevant, isPlayerOrVehicle) = in_view te env gs c ownsEntity a e;
                isRelevant = (isRelevant \<and> may_route gs c ownsEntity a e);
                gs = (if ownsEntity then change_entity a (\<lambda>e. e\<lparr>wantsReassign := \<not> isRelevant\<rparr>) gs else gs);
                isRelevant = (if ownsEntity then keep_owned env gs c e isRelevant else isRelevant);
                shouldDelete = (ownsEntity \<or> (case current of None \<Rightarrow> False | Some y \<Rightarrow> hasCreated y));
                gs = (if deleting e \<and> \<not> shouldDelete then change_entity a (\<lambda>e. e\<lparr>relevantTo := relevantTo e - {s}\<rparr>) gs else gs);
                isRelevant = (if deleting e then shouldDelete else isRelevant);
                delay = SyncDelay te c e isRelevant isPlayerOrVehicle
            in case current of
                 Some y \<Rightarrow>
                   if isRelevant
                   then (omap_put k \<lparr>nextSync = nextSync y + (delay - syncDelta y), syncDelta = delay, sy_entity = a,
                           forceUpdate = forceUpdate y, hasCreated = hasCreated y, hasNAckedCreate = False\<rparr> new, gs)
                   else (new, if hasCreated y \<or> hasNAckedCreate y
                              then change_data c (destroy_at k (Some a) \<lparr>outOfScope = True, forceSteal = False\<rparr>) gs else gs)
               | None \<Rightarrow>
                   if isRelevant
                   then (omap_put k \<lparr>nextSync = 0, syncDelta = delay, sy_entity = a, forceUpdate = True, hasCreated = False,
                           hasNAckedCreate = False\<rparr> new,
                         change_entity a (\<lambda>e. e\<lparr>relevantTo := insert s (relevantTo e), outOfScopeFor := outOfScopeFor e - {s}\<rparr>) gs)
                   else (new, gs))"

definition update_client :: "'t tick_env \<Rightarrow> 't sync_env \<Rightarrow> registry \<Rightarrow> (nat \<times> nat option) list \<Rightarrow> nat \<Rightarrow> 't game_state \<Rightarrow> 't game_state" where
  "update_client te env reg relevant c gs =
     (case foldl (update_relevance te env reg c) ([], gs) relevant of (new, gs) \<Rightarrow>
      change_data c (\<lambda>d. d\<lparr>syncedEntities := new\<rparr>) gs)"

text \<open>At most \<open>n\<close> clients in one tick.\<close>

fun update_clients :: "'t tick_env \<Rightarrow> 't sync_env \<Rightarrow> registry \<Rightarrow> (nat \<times> nat option) list \<Rightarrow> nat \<Rightarrow> nat \<Rightarrow> nat \<Rightarrow> nat \<Rightarrow> 't game_state \<Rightarrow>
    (nat \<times> 't game_state) option" where
  "update_clients te env reg relevant initSlot lastUpdateSlot 0 s gs = Some (s, gs)"
| "update_clients te env reg relevant initSlot lastUpdateSlot (Suc n) s gs =
     Option.bind (find_client reg initSlot lastUpdateSlot s) (\<lambda>(client, s).
       case client of
         None \<Rightarrow> Some (s, gs)
       | Some c \<Rightarrow> update_clients te env reg relevant initSlot lastUpdateSlot n s (update_client te env reg relevant c gs))"

section \<open>What a client is sent\<close>

text \<open>Entities that are being deleted leave the table of the client.\<close>

definition move_deleted :: "nat \<Rightarrow> 't game_state \<Rightarrow> ident \<times> synced_entity \<Rightarrow> 't game_state" where
  "move_deleted c gs x =
     (case entities gs (sy_entity (snd x)) of
        None \<Rightarrow> gs
      | Some e \<Rightarrow>
          if deleting e
          then change_data c (\<lambda>d. (destroy_at (fst x) (Some (sy_entity (snd x))) \<lparr>outOfScope = False, forceSteal = False\<rparr> d)
                 \<lparr>syncedEntities := omap_erase (fst x) (syncedEntities d)\<rparr>) gs
          else gs)"

text \<open>Big mode: a player leaves the scope of the client.\<close>

definition leave_scope :: "'t sync_env \<Rightarrow> registry \<Rightarrow> nat \<Rightarrow> 't entity \<Rightarrow> 't game_state \<Rightarrow> 't game_state" where
  "leave_scope env reg c e gs =
     (if \<not> IsBigMode (server env) \<or> e_type e \<noteq> Player then gs
      else case GetClient reg e of
        None \<Rightarrow> gs
      | Some owner \<Rightarrow>
          let ownerNetId = GetNetId reg owner in
          if ownerNetId = - 1 then gs
          else case playersToSlots (data_of gs c) ownerNetId of
            None \<Rightarrow> gs
          | Some otherSlot \<Rightarrow>
              change_data c (\<lambda>d. d\<lparr>playersInScope := playersInScope d - {otherSlot}, playersToSlots := (playersToSlots d)(ownerNetId := None)\<rparr>)
                (call (Player_left_scope ownerNetId (GetNetId reg c)) (call (Player_dropped (GetNetId reg c) ownerNetId otherSlot) gs)))"

text \<open>The entity of a deletion: for good, or out of the scope of the client, which loses the id when it owns the entity.\<close>

definition mark_deleted :: "'t sync_env \<Rightarrow> registry \<Rightarrow> int \<Rightarrow> nat \<Rightarrow> nat \<Rightarrow> nat \<Rightarrow> 't entity \<Rightarrow> bool \<Rightarrow> 't game_state \<Rightarrow> 't game_state" where
  "mark_deleted env reg now c objectId a e isOut gs =
     (let s = unat (GetSlotId reg c); gs = change_entity a (\<lambda>e. e\<lparr>relevantTo := relevantTo e - {s}\<rparr>) gs in
      if \<not> isOut then change_entity a (\<lambda>e. e\<lparr>deletedFor := insert s (deletedFor e)\<rparr>) gs
      else
        let gs = change_entity a (\<lambda>e. e\<lparr>outOfScopeFor := insert s (outOfScopeFor e)\<rparr>) gs in
        case GetClient reg e of
          None \<Rightarrow> gs
        | Some owner \<Rightarrow>
            if GetNetId reg owner = GetNetId reg c
            then change_ids (\<lambda>i. i\<lparr>m_objectIdsStolen := insert objectId (m_objectIdsStolen i)\<rparr>)
                   (if IsOwnedByServerScript env e then ReassignEntity reg now (e_handle e) None gs else gs)
            else gs)"

definition leave_client :: "'t sync_env \<Rightarrow> registry \<Rightarrow> nat \<Rightarrow> 't entity \<Rightarrow> 't game_state \<Rightarrow> 't game_state" where
  "leave_client env reg c e gs =
     (let gs = leave_scope env reg c e gs in
      case e_stateBag e of None \<Rightarrow> gs | Some b \<Rightarrow> call (Remove_routing_target b (GetSlotId reg c)) gs)"

definition delete_for :: "'t tick_env \<Rightarrow> 't sync_env \<Rightarrow> registry \<Rightarrow> int \<Rightarrow> nat \<Rightarrow>
    sync_command list \<times> (ident \<times> deletion) list \<times> 't game_state \<Rightarrow> ident \<times> nat option \<times> deletion \<Rightarrow>
    sync_command list \<times> (ident \<times> deletion) list \<times> 't game_state" where
  "delete_for te env reg now c r x =
     (case (r, x) of ((cmds, dels, gs), (k, ref, del)) \<Rightarrow>
      let (objectId, uniqifier) = DeconstructHandleUniqifierPair k;
          (del, gs) =
            (case Option.bind ref (entities gs) of
               None \<Rightarrow> (del, gs)
             | Some e \<Rightarrow>
                 let gs = mark_deleted env reg now c (unat objectId) (the ref) e (outOfScope del) gs
                 in (del\<lparr>forceSteal := (unat objectId \<in> m_objectIdsStolen (ids gs))\<rparr>, leave_client env reg c e gs));
          cmds = (if NoPeer te c then cmds else cmds @ [Write_removal (forceSteal del) objectId uniqifier])
      in (cmds, dels @ [(k, del)], gs))"

text \<open>Big mode: a player enters the scope of the client when one of the 128 slots is free; 31 is left out.\<close>

definition free_scope :: "nat set \<Rightarrow> nat option" where
  "free_scope inScope = List.find (\<lambda>s. s \<noteq> 31 \<and> s \<notin> inScope) (rev [0..<128])"

definition enter_scope :: "'t sync_env \<Rightarrow> registry \<Rightarrow> nat \<Rightarrow> nat \<Rightarrow> 't game_state \<Rightarrow> bool \<times> 't game_state" where
  "enter_scope env reg c a gs =
     (case entities gs a of
        None \<Rightarrow> (True, gs)
      | Some e \<Rightarrow>
          if \<not> IsBigMode (server env) \<or> e_type e \<noteq> Player then (True, gs)
          else case GetClient reg e of
            None \<Rightarrow> (True, gs)
          | Some owner \<Rightarrow>
              let netId = GetNetId reg owner; d = data_of gs c in
              if playersToSlots d netId \<noteq> None then (True, gs)
              else case free_scope (playersInScope d) of
                None \<Rightarrow> (False, gs)
              | Some s \<Rightarrow>
                  (True, call (Player_entered_scope netId (GetNetId reg c)) (call (Player_joining (GetNetId reg c) netId s)
                     (change_data c (\<lambda>d. d\<lparr>playersInScope := (if netId \<noteq> 0 then insert s (playersInScope d) else playersInScope d),
                        playersToSlots := (playersToSlots d)(netId \<mapsto> s)\<rparr>) gs))))"

text \<open>An entity that nobody owns, or whose owner wants to be rid of it, becomes the client's.\<close>

definition yoink :: "registry \<Rightarrow> int \<Rightarrow> nat \<Rightarrow> nat \<Rightarrow> 't game_state \<Rightarrow> 't game_state" where
  "yoink reg now c a gs =
     (case entities gs a of
        None \<Rightarrow> gs
      | Some e \<Rightarrow>
          if (case GetClient reg e of None \<Rightarrow> True | Some cl \<Rightarrow> wantsReassign e \<and> GetNetId reg cl \<noteq> GetNetId reg c)
          then ReassignEntity reg now (e_handle e) (Some c) (change_entity a (\<lambda>e. e\<lparr>wantsReassign := False\<rparr>) gs)
          else gs)"

text \<open>The table entry, changed in place, and the frame against which the entity is sent.\<close>

definition change_synced :: "nat \<Rightarrow> ident \<Rightarrow> (synced_entity \<Rightarrow> synced_entity) \<Rightarrow> 't game_state \<Rightarrow> 't game_state" where
  "change_synced c k f = change_data c (\<lambda>d. d\<lparr>syncedEntities := omap_change k f (syncedEntities d)\<rparr>)"

definition is_late :: "'t entity \<Rightarrow> bool" where
  "is_late e \<longleftrightarrow> e_timestamp e \<le> lastOutOfBandTimestamp e"

definition start_send :: "registry \<Rightarrow> nat \<Rightarrow> ident \<Rightarrow> nat \<Rightarrow> bool \<Rightarrow> bool \<Rightarrow> 't game_state \<Rightarrow> 't game_state" where
  "start_send reg c k a forced wasThisIt gs =
     (let gs = change_synced c k (\<lambda>y. y\<lparr>forceUpdate := forced\<rparr>) gs in
      if forced \<and> \<not> wasThisIt
      then change_entity a (\<lambda>e. e\<lparr>lastFramesSent := (lastFramesSent e)(unat (GetSlotId reg c) := 0)\<rparr>) gs else gs)"

definition finish_send :: "'t tick_env \<Rightarrow> registry \<Rightarrow> int \<Rightarrow> nat \<Rightarrow> ident \<Rightarrow> 't entity \<Rightarrow> bool \<Rightarrow> synced_entity \<Rightarrow> 't game_state \<Rightarrow> 't game_state" where
  "finish_send te reg now c k e forced y gs =
     (let gs = change_synced c k (\<lambda>y. y\<lparr>nextSync := (if forced then nextSync y else now + syncDelta y), forceUpdate := False\<rparr>) gs;
          gs = (case e_stateBag e of None \<Rightarrow> gs | Some b \<Rightarrow> call (Add_routing_target b (GetSlotId reg c)) gs)
      in if \<not> NoPeer te c \<and> \<not> hasCreated y \<and> NAK te then change_synced c k (\<lambda>y. y\<lparr>hasCreated := True\<rparr>) gs else gs)"

definition send_commands :: "'t tick_env \<Rightarrow> nat \<Rightarrow> nat \<Rightarrow> 't entity \<Rightarrow> nat \<Rightarrow> bool \<Rightarrow> bool \<Rightarrow> sync_command list" where
  "send_commands te c a e base forced created =
     (if NoPeer te c then []
      else if created then [Write_sync a 2 base (lastFrameIndex e) False forced]
      else [Write_sync a 1 base (lastFrameIndex e) False forced, Write_sync a 2 base (lastFrameIndex e) True forced])"

definition send_entity :: "'t tick_env \<Rightarrow> registry \<Rightarrow> int \<Rightarrow> nat \<Rightarrow> ident \<Rightarrow> nat \<Rightarrow> 't entity \<Rightarrow>
    sync_command list \<times> (nat, sent_entity) omap \<times> 't game_state \<Rightarrow> sync_command list \<times> (nat, sent_entity) omap \<times> 't game_state" where
  "send_entity te reg now c k a e r =
     (case r of (cmds, sent, gs) \<Rightarrow>
      case map_of (syncedEntities (data_of gs c)) k of
        None \<Rightarrow> r
      | Some y \<Rightarrow>
          let wasThisIt = (is_late e \<and> \<not> forceUpdate y);
              forced = (forceUpdate y \<or> is_late e)
          in
          if GetClient reg e = Some c \<and> \<not> forced then (cmds, sent, change_synced c k (\<lambda>y. y\<lparr>forceUpdate := forced\<rparr>) gs)
          else
            let gs = start_send reg c k a forced wasThisIt gs;
                base = (if forced \<and> \<not> wasThisIt then 0 else lastFramesSent e (unat (GetSlotId reg c)));
                sent = omap_put (e_handle e) \<lparr>entityWeak = a, lastSent = base, isCreated = hasCreated y\<rparr> sent
            in
            if forced \<or> nextSync y \<le> now
            then (cmds @ send_commands te c a e base forced (hasCreated y), sent, finish_send te reg now c k e forced y gs)
            else (cmds, sent, gs))"

text \<open>
  One round of the loop over the table. It is \<open>None\<close> where the code follows the null reference of an entity without an owner.
\<close>

definition sync_entity :: "'t tick_env \<Rightarrow> 't sync_env \<Rightarrow> registry \<Rightarrow> int \<Rightarrow> nat \<Rightarrow> ident \<Rightarrow>
    sync_command list \<times> (nat, sent_entity) omap \<times> 't game_state \<Rightarrow> (sync_command list \<times> (nat, sent_entity) omap \<times> 't game_state) option" where
  "sync_entity te env reg now c k r =
     (case r of (cmds, sent, gs) \<Rightarrow>
      case map_of (syncedEntities (data_of gs c)) k of
        None \<Rightarrow> Some r
      | Some y \<Rightarrow>
          let a = sy_entity y; gs = yoink reg now c a gs in
          if \<not> hasCreated y
          then
            (case enter_scope env reg c a gs of (canCreate, gs) \<Rightarrow>
             if \<not> canCreate then Some (cmds, sent, change_data c (\<lambda>d. d\<lparr>syncedEntities := omap_erase k (syncedEntities d)\<rparr>) gs)
             else
               let gs = change_data c (\<lambda>d. d\<lparr>pendingCreates := (pendingCreates d)(k \<mapsto> m_frameIndex gs)\<rparr>)
                          (change_synced c k (\<lambda>y. y\<lparr>forceUpdate := True\<rparr>) gs)
               in (case entities gs a of None \<Rightarrow> Some (cmds, sent, gs) | Some e \<Rightarrow> Some (send_entity te reg now c k a e (cmds, sent, gs))))
          else
            case entities gs a of
              None \<Rightarrow> Some (cmds, sent, gs)
            | Some e \<Rightarrow>
                if pendingCreates (data_of gs c) k = None \<and> GetClient reg e = None then None
                else Some (send_entity te reg now c k a e (cmds, sent, gs)))"

fun sync_entities :: "'t tick_env \<Rightarrow> 't sync_env \<Rightarrow> registry \<Rightarrow> int \<Rightarrow> nat \<Rightarrow> ident list \<Rightarrow>
    sync_command list \<times> (nat, sent_entity) omap \<times> 't game_state \<Rightarrow> (sync_command list \<times> (nat, sent_entity) omap \<times> 't game_state) option" where
  "sync_entities te env reg now c [] r = Some r"
| "sync_entities te env reg now c (k # ks) r = Option.bind (sync_entity te env reg now c k r) (sync_entities te env reg now c ks)"

section \<open>Frames\<close>

definition maxSavedClientFrames :: nat where
  "maxSavedClientFrames = 650"

definition maxSavedClientFramesWorstCase :: nat where
  "maxSavedClientFramesWorstCase = 60000 div 15"

text \<open>The limit is at least 650, so that the loop ends before the present frame; \<open>size () - 2\<close> wraps around below two frames.\<close>

definition backlog :: "bool \<Rightarrow> nat \<Rightarrow> nat" where
  "backlog idle n = max (if idle then maxSavedClientFramesWorstCase else maxSavedClientFrames) (if n < 2 then 2 ^ 64 + n - 2 else n - 2)"

function erase_frames :: "nat \<Rightarrow> nat \<Rightarrow> nat \<Rightarrow> (nat, frame_state) omap \<Rightarrow> nat \<times> (nat, frame_state) omap" where
  "erase_frames frame limit first m =
     (if first < frame \<and> limit \<le> frame - first then erase_frames frame limit (first + 1) (omap_erase first m) else (first, m))"
  by auto

termination by (relation "measure (\<lambda>(frame, limit, first, m). frame - first)") auto

declare erase_frames.simps [simp del]

definition save_frame :: "'t tick_env \<Rightarrow> nat \<Rightarrow> frame_state \<Rightarrow> 't game_state \<Rightarrow> 't game_state" where
  "save_frame te c ces gs = change_data c (\<lambda>d.
     let (first, m) =
           (if firstSavedFrameState d \<noteq> 0
            then erase_frames (m_frameIndex gs) (backlog (Unseen te c) (length (frameStates d)) - 1) (firstSavedFrameState d) (frameStates d)
            else (m_frameIndex gs, frameStates d))
     in d\<lparr>firstSavedFrameState := first,
          frameStates := (if map_of m (m_frameIndex gs) = None then omap_put (m_frameIndex gs) ces m else m)\<rparr>) gs"

section \<open>The tick\<close>

definition send_client :: "'t tick_env \<Rightarrow> 't sync_env \<Rightarrow> registry \<Rightarrow> int \<Rightarrow> nat \<Rightarrow> 't game_state \<Rightarrow> 't game_state option" where
  "send_client te env reg now c gs =
     (if GetSlotId reg c = - 1 then Some gs
      else
        let gs = call (Send_array_data c) gs;
            gs = foldl (move_deleted c) gs (syncedEntities (data_of gs c));
            (cmds, dels, gs) = foldl (delete_for te env reg now c) ([], [], gs) (entitiesToDestroy (data_of gs c));
            gs = (if NAK te then change_data c (\<lambda>d. d\<lparr>entitiesToDestroy := []\<rparr>) gs else gs)
        in Option.bind (sync_entities te env reg now c (map fst (syncedEntities (data_of gs c))) (cmds, [], gs)) (\<lambda>(cmds, sent, gs).
             Some (call (Execute_commands c (m_frameIndex gs) cmds) (save_frame te c \<lparr>fs_syncedEntities = sent, fs_deletions = dels\<rparr> gs))))"

fun send_clients :: "'t tick_env \<Rightarrow> 't sync_env \<Rightarrow> registry \<Rightarrow> int \<Rightarrow> nat list \<Rightarrow> 't game_state \<Rightarrow> 't game_state option" where
  "send_clients te env reg now [] gs = Some gs"
| "send_clients te env reg now (c # cs) gs = Option.bind (send_client te env reg now c gs) (send_clients te env reg now cs)"

text \<open>\<open>n\<close> is the number of clients looked at, \<open>s\<close> the static slot; the result has the slot of the next tick.\<close>

definition Tick :: "'t tick_env \<Rightarrow> 't sync_env \<Rightarrow> registry \<Rightarrow> int \<Rightarrow> nat \<Rightarrow> nat list \<Rightarrow> nat \<Rightarrow> 't game_state \<Rightarrow> (nat \<times> 't game_state) option" where
  "Tick te env reg now n cs s gs =
     (case collect_entities env reg gs of (relevant, gs) \<Rightarrow>
      let initSlot = (if IsBigMode (server env) then MAX_CLIENTS else 129) - 1 in
      Option.bind (update_clients te env reg relevant initSlot s n s gs) (\<lambda>(s, gs).
        Option.bind (send_clients te env reg now cs gs) (\<lambda>gs.
          Some (s, gs\<lparr>m_frameIndex := m_frameIndex gs + 1\<rparr>))))"

end
