(* ===== verification/Sync_Frames.thy ===== *)
theory Sync_Frames
  imports Sync_Tick
begin

text \<open>
  How clients report the frames they have received (the handlers of \<open>gameStateNAck\<close> and \<open>gameStateAck\<close> in
  src/state/ServerGameState.cpp). \<open>None\<close> is a read of the packet that leaves memory.
\<close>

section \<open>Reading\<close>

fun read_ignored :: "bool \<Rightarrow> nat \<Rightarrow> net_buffer \<Rightarrow> ((u16 \<times> nat) list \<times> net_buffer) option" where
  "read_ignored frames 0 b = Some ([], b)"
| "read_ignored frames (Suc n) b = do {
     (objectId, b) \<leftarrow> Read_u16 b;
     (resendFrame, b) \<leftarrow> (if frames then map_option (\<lambda>(f, b). (unat f, b)) (Read_u64 b) else Some (0, b));
     (xs, b) \<leftarrow> read_ignored frames n b;
     Some ((objectId, resendFrame) # xs, b) }"

fun read_recreates :: "nat \<Rightarrow> net_buffer \<Rightarrow> (u16 list \<times> net_buffer) option" where
  "read_recreates 0 b = Some ([], b)"
| "read_recreates (Suc n) b = do { (i, b) \<leftarrow> Read_u16 b; (xs, b) \<leftarrow> read_recreates n b; Some (i # xs, b) }"

section \<open>Missing frames\<close>

text \<open>A creation that was lost is to be sent again; an update is sent against the frame before the lost one.\<close>

definition recreate :: "nat \<Rightarrow> ident \<Rightarrow> 't game_state \<Rightarrow> 't game_state" where
  "recreate c k = change_synced c k (\<lambda>y. y\<lparr>hasCreated := False, hasNAckedCreate := True\<rparr>)"

definition resend_from :: "nat \<Rightarrow> nat \<Rightarrow> nat \<Rightarrow> 't game_state \<Rightarrow> 't game_state" where
  "resend_from s a frame = change_entity a (\<lambda>e. e\<lparr>lastFramesSent := (lastFramesSent e)(s := min frame (lastFramesSent e s))\<rparr>)"

definition nack_entity :: "nat \<Rightarrow> nat \<Rightarrow> (nat, nat) omap \<times> 't game_state \<Rightarrow> nat \<times> sent_entity \<Rightarrow> (nat, nat) omap \<times> 't game_state" where
  "nack_entity s c r x =
     (case (r, x) of ((corrections, gs), (objectId, y)) \<Rightarrow>
      case entities gs (entityWeak y) of
        None \<Rightarrow> r
      | Some e \<Rightarrow>
          if \<not> isCreated y then (corrections, recreate c (MakeHandleUniqifierPair objectId (e_uniqifier e)) gs)
          else (omap_put objectId (min (lastSent y) (lastFramesSent e s)) corrections, resend_from s (entityWeak y) (lastSent y) gs))"

definition nack_deletions :: "nat \<Rightarrow> (ident \<times> deletion) list \<Rightarrow> 't game_state \<Rightarrow> 't game_state" where
  "nack_deletions c dels gs = foldl (\<lambda>gs (k, del). change_data c (destroy_at k None del) gs) gs dels"

text \<open>
  The frames from the last one down; a frame that is not stored drops the client. Below frame 0 the number wraps around to one
  that is never stored.
\<close>

function nack_frames :: "nat \<Rightarrow> nat \<Rightarrow> nat \<Rightarrow> nat \<Rightarrow> (nat, nat) omap \<times> 't game_state \<Rightarrow> bool \<times> (nat, nat) omap \<times> 't game_state" where
  "nack_frames s c firstMissing frame r =
     (if frame < firstMissing then (True, r)
      else case map_of (frameStates (data_of (snd r) c)) frame of
        None \<Rightarrow> (False, r)
      | Some f \<Rightarrow>
          let (corrections, gs) = foldl (nack_entity s c) r (fs_syncedEntities f);
              r = (corrections, nack_deletions c (fs_deletions f) gs)
          in if frame = 0 then (False, r) else nack_frames s c firstMissing (frame - 1) r)"
  by pat_completeness auto

termination by (relation "measure (\<lambda>(s, c, firstMissing, frame, r). frame)") auto

declare nack_frames.simps [simp del]

text \<open>Newer frames were sent against the frames that are now corrected.\<close>

definition correct_frame :: "(nat, nat) omap \<Rightarrow> frame_state \<Rightarrow> frame_state" where
  "correct_frame corrections f = f\<lparr>fs_syncedEntities :=
     map (\<lambda>(i, y). (i, case map_of corrections i of None \<Rightarrow> y | Some l \<Rightarrow> y\<lparr>lastSent := l\<rparr>)) (fs_syncedEntities f)\<rparr>"

definition correct_newer :: "nat \<Rightarrow> nat \<Rightarrow> (nat, nat) omap \<Rightarrow> 't game_state \<Rightarrow> 't game_state" where
  "correct_newer c frame corrections = change_data c (\<lambda>d. d\<lparr>frameStates :=
     map (\<lambda>(i, f). (i, if frame < i then correct_frame corrections f else f)) (frameStates d)\<rparr>)"

definition nack_missing :: "nat \<Rightarrow> nat \<Rightarrow> nat \<Rightarrow> nat \<Rightarrow> 't game_state \<Rightarrow> bool \<times> 't game_state" where
  "nack_missing s c firstMissing lastMissing gs =
     (case nack_frames s c firstMissing lastMissing ([], gs) of (ok, corrections, gs) \<Rightarrow>
      if ok then (True, correct_newer c lastMissing corrections gs) else (False, gs))"

section \<open>This frame\<close>

definition ignore_update :: "nat \<Rightarrow> frame_state \<Rightarrow> 't game_state \<Rightarrow> u16 \<times> nat \<Rightarrow> 't game_state" where
  "ignore_update s f gs x =
     (case map_of (fs_syncedEntities f) (unat (fst x)) of
        None \<Rightarrow> gs
      | Some y \<Rightarrow> if entities gs (entityWeak y) = None then gs else resend_from s (entityWeak y) (snd x) gs)"

definition recreate_entity :: "nat \<Rightarrow> frame_state \<Rightarrow> 't game_state \<Rightarrow> u16 \<Rightarrow> 't game_state" where
  "recreate_entity c f gs objectId =
     (case map_of (fs_syncedEntities f) (unat objectId) of
        None \<Rightarrow> gs
      | Some y \<Rightarrow>
          (case entities gs (entityWeak y) of
             None \<Rightarrow> gs
           | Some e \<Rightarrow> recreate c (MakeHandleUniqifierPair (unat objectId) (e_uniqifier e)) gs))"

text \<open>The missing frames of a packet, its lists for this frame, and the packet; the result says whether the client stays.\<close>

definition nack_range :: "nat \<Rightarrow> nat \<Rightarrow> byte \<Rightarrow> net_buffer \<Rightarrow> 't game_state \<Rightarrow> (bool \<times> net_buffer \<times> 't game_state) option" where
  "nack_range s c flags b gs =
     (if flags AND 1 \<noteq> 0 then do {
        (firstMissing, b) \<leftarrow> Read_u64 b;
        (lastMissing, b) \<leftarrow> Read_u64 b;
        let r = nack_missing s c (unat firstMissing) (unat lastMissing) gs;
        Some (fst r, b, snd r) }
      else Some (True, b, gs))"

definition nack_lists :: "nat \<Rightarrow> nat \<Rightarrow> byte \<Rightarrow> frame_state \<Rightarrow> net_buffer \<Rightarrow> 't game_state \<Rightarrow> 't game_state option" where
  "nack_lists s c flags f b gs = do {
     (ignored, b) \<leftarrow>
       (if flags AND 2 \<noteq> 0 then do { (n, b) \<leftarrow> Read_u8 b; read_ignored (flags AND 8 \<noteq> 0) (unat n) b } else Some ([], b));
     let gs = foldl (ignore_update s f) gs ignored;
     (recreates, b) \<leftarrow> (if flags AND 4 \<noteq> 0 then do { (n, b) \<leftarrow> Read_u8 b; read_recreates (unat n) b } else Some ([], b));
     Some (foldl (recreate_entity c f) gs recreates) }"

definition gameStateNAck :: "bool \<Rightarrow> registry \<Rightarrow> nat \<Rightarrow> net_buffer \<Rightarrow> 't game_state \<Rightarrow> (bool \<times> 't game_state) option" where
  "gameStateNAck nak reg c b gs =
     (if \<not> nak \<or> GetSlotId reg c = - 1 then Some (True, gs)
      else do {
        (flags, b) \<leftarrow> Read_u8 b;
        (thisFrame, b) \<leftarrow> Read_u64 b;
        (ok, b, gs) \<leftarrow> nack_range (unat (GetSlotId reg c)) c flags b gs;
        if \<not> ok then Some (False, gs)
        else case map_of (frameStates (data_of gs c)) (unat thisFrame) of
          None \<Rightarrow> Some (False, gs)
        | Some f \<Rightarrow> map_option (Pair True) (nack_lists (unat (GetSlotId reg c)) c flags f b gs) })"

section \<open>Acknowledged frames\<close>

definition ack_recreate :: "nat \<Rightarrow> frame_state \<Rightarrow> 't game_state \<Rightarrow> u16 \<Rightarrow> 't game_state" where
  "ack_recreate c f gs objectId =
     (case map_of (fs_syncedEntities f) (unat objectId) of
        None \<Rightarrow> gs
      | Some y \<Rightarrow>
          (case entities gs (entityWeak y) of
             None \<Rightarrow> gs
           | Some e \<Rightarrow> change_synced c (MakeHandleUniqifierPair (unat objectId) (e_uniqifier e)) (\<lambda>y. y\<lparr>hasCreated := False\<rparr>) gs))"

definition ack_ignore :: "nat \<Rightarrow> frame_state \<Rightarrow> 't game_state \<Rightarrow> u16 \<times> nat \<Rightarrow> 't game_state" where
  "ack_ignore s f gs x =
     (case map_of (fs_syncedEntities f) (unat (fst x)) of
        None \<Rightarrow> gs
      | Some y \<Rightarrow> change_entity (entityWeak y) (\<lambda>e. e\<lparr>lastFramesSent := (lastFramesSent e)(s := min (lastFramesSent e s) (snd x)),
                   lastFramesPreSent := (lastFramesPreSent e)(s := min (lastFramesPreSent e s) (snd x))\<rparr>) gs)"

definition ack_entity :: "nat \<Rightarrow> nat \<Rightarrow> nat \<Rightarrow> (u16 \<times> nat) list \<Rightarrow> 't game_state \<Rightarrow> nat \<times> sent_entity \<Rightarrow> 't game_state" where
  "ack_entity s c frameIndex ignored gs x =
     (case entities gs (entityWeak (snd x)) of
        None \<Rightarrow> gs
      | Some e \<Rightarrow>
          let created = (case map_of (syncedEntities (data_of gs c)) (MakeHandleUniqifierPair (fst x) (e_uniqifier e)) of
                           None \<Rightarrow> False | Some y \<Rightarrow> hasCreated y) in
          if syncTree e = None \<or> \<not> created \<or> s \<in> deletedFor e \<or> e_handle e \<in> unat ` fst ` set ignored then gs
          else change_entity (entityWeak (snd x)) (\<lambda>e. e\<lparr>lastFramesSent := (lastFramesSent e)(s := min frameIndex (lastFramesPreSent e s))\<rparr>) gs)"

text \<open>The lists are collected in ordered sets; of two frames for one id the first counts.\<close>

definition first_of_each :: "(u16 \<times> nat) list \<Rightarrow> (u16 \<times> nat) list" where
  "first_of_each xs = foldl (\<lambda>m (i, f). if map_of m i = None then omap_put i f m else m) [] xs"

definition gameStateAck :: "bool \<Rightarrow> registry \<Rightarrow> nat \<Rightarrow> net_buffer \<Rightarrow> 't game_state \<Rightarrow> 't game_state option" where
  "gameStateAck arq reg c b gs =
     (if \<not> arq \<or> GetSlotId reg c = - 1 then Some gs
      else do {
        let s = unat (GetSlotId reg c);
        (frameIndex, b) \<leftarrow> Read_u64 b;
        (ignoreCount, b) \<leftarrow> Read_u8 b;
        (ignored, b) \<leftarrow> read_ignored True (unat ignoreCount) b;
        (recreateCount, b) \<leftarrow> Read_u8 b;
        (recreates, b) \<leftarrow> read_recreates (unat recreateCount) b;
        let f = (case map_of (frameStates (data_of gs c)) (unat frameIndex) of
                   None \<Rightarrow> \<lparr>fs_syncedEntities = [], fs_deletions = []\<rparr> | Some f \<Rightarrow> f);
        let ignored = first_of_each ignored;
        let gs = foldl (ack_recreate c f) gs (sorted_list_of_set (set recreates));
        let gs = foldl (ack_ignore s f) gs ignored;
        let gs = foldl (ack_entity s c (unat frameIndex) ignored) gs (fs_syncedEntities f);
        Some (change_data c (\<lambda>d. d\<lparr>frameStates := omap_erase (unat frameIndex) (frameStates d)\<rparr>) gs) })"

end
