(* ===== verification/Sync_Steps.thy ===== *)
theory Sync_Steps
  imports Sync_Invariant Sync_Frames Object_Id_Properties
begin

text \<open>
  What the server does with the game state, as steps, and the invariant of all reachable states: identities of entities do not
  depend on what clients send.
\<close>

section \<open>The tick\<close>

lemma game_ok_collect_entity: "game_ok (snd r) \<Longrightarrow> game_ok (snd (collect_entity env reg r a))"
proof -
  assume ok: "game_ok (snd r)"
  obtain rel gs where r: "r = (rel, gs)" by (cases r)
  let ?g = "change_entity a (\<lambda>e. e\<lparr>e_frameIndex := m_frameIndex gs\<rparr>) gs"
  have "same_used gs ?g" by (rule same_used_entity) simp
  then have g: "game_ok ?g" by (rule game_ok_cong) (use ok r in simp)
  have "game_ok (FinalizeClone env a i ?g)" for i
  proof -
    have "entities_ok (m_objectIdsUsed (ids ?g)) (FinalizeClone env a i ?g)" using g entities_ok_FinalizeClone by (simp add: game_ok_def)
    moreover have "ids (FinalizeClone env a i ?g) = ids ?g"
      by (simp add: FinalizeClone_def OnCloneRemove_def Let_def split: option.split prod.split)
    ultimately show ?thesis by (simp add: game_ok_def)
  qed
  then show ?thesis using ok g r by (simp add: collect_entity_def Let_def split: option.split)
qed

lemma game_ok_collect_entities: "game_ok gs \<Longrightarrow> game_ok (snd (collect_entities env reg gs))"
proof -
  have "game_ok (snd (foldl (collect_entity env reg) r as))" if "game_ok (snd r)" for r "as"
    using that by (induction "as" arbitrary: r) (simp_all add: game_ok_collect_entity)
  then show "game_ok gs \<Longrightarrow> ?thesis" by (simp add: collect_entities_def)
qed

lemma same_used_relevant [simp]:
  "same_used gs (change_entity a (\<lambda>e. e\<lparr>relevantTo := X e\<rparr>) gs)" "same_used gs (change_entity a (\<lambda>e. e\<lparr>wantsReassign := W e\<rparr>) gs)"
  "same_used gs (change_entity a (\<lambda>e. e\<lparr>relevantTo := X e, outOfScopeFor := Y e\<rparr>) gs)"
  "same_used gs (change_entity a (\<lambda>e. e\<lparr>deletedFor := X e\<rparr>) gs)" "same_used gs (change_entity a (\<lambda>e. e\<lparr>outOfScopeFor := X e\<rparr>) gs)"
  "same_used gs (change_entity a (\<lambda>e. e\<lparr>lastFramesSent := F e\<rparr>) gs)"
  "same_used gs (change_entity a (\<lambda>e. e\<lparr>lastFramesSent := F e, lastFramesPreSent := G e\<rparr>) gs)"
  by (rule same_used_entity, simp)+

lemma same_used_update_relevance: "same_used (snd r) (snd (update_relevance te env reg c r x))"
proof -
  obtain new gs where r: "r = (new, gs)" by (cases r)
  obtain a ref where x: "x = (a, ref)" by (cases x)
  show ?thesis
  proof (cases "entities gs a")
    case (Some e)
    define s where "s = unat (GetSlotId reg c)"
    define owns where "owns = (case lock reg ref of None \<Rightarrow> False | Some o' \<Rightarrow> GetNetId reg o' = GetNetId reg c)"
    define w where "w = (fst (in_view te env gs c owns a e) \<and> may_route gs c owns a e)"
    define gs1 where "gs1 = (if owns then change_entity a (\<lambda>e. e\<lparr>wantsReassign := \<not> w\<rparr>) gs else gs)"
    define del where "del = (owns \<or> (case map_of (syncedEntities (data_of gs c)) (entity_key e) of None \<Rightarrow> False | Some y \<Rightarrow> hasCreated y))"
    define gs2 where "gs2 = (if deleting e \<and> \<not> del then change_entity a (\<lambda>e. e\<lparr>relevantTo := relevantTo e - {s}\<rparr>) gs1 else gs1)"
    have 1: "same_used gs gs1" by (simp add: gs1_def)
    have 2: "same_used gs gs2" using 1 same_used_trans[OF 1 same_used_relevant(1)] by (simp add: gs2_def)
    have d: "same_used gs (change_data c f gs2)" and en: "same_used gs (change_entity a (\<lambda>e. e\<lparr>relevantTo := insert s (relevantTo e), outOfScopeFor := outOfScopeFor e - {s}\<rparr>) gs2)" for f
      using same_used_trans[OF 2 same_used_data] same_used_trans[OF 2 same_used_relevant(3)] by simp_all
    have "snd (update_relevance te env reg c r x) \<in> {gs, gs2,
        change_data c (destroy_at (entity_key e) (Some a) \<lparr>outOfScope = True, forceSteal = False\<rparr>) gs2,
        change_entity a (\<lambda>e. e\<lparr>relevantTo := insert s (relevantTo e), outOfScopeFor := outOfScopeFor e - {s}\<rparr>) gs2}"
      using Some unfolding r x gs2_def gs1_def del_def w_def owns_def s_def
      by (simp add: update_relevance_def Let_def case_prod_beta split: option.split)
    then show ?thesis using 2 d en r by (elim insertE emptyE) simp_all
  qed (simp add: update_relevance_def r x)
qed

lemma same_used_update_client: "same_used gs (update_client te env reg rel c gs)"
proof -
  have "same_used (snd r) (snd (foldl (update_relevance te env reg c) r xs))" for r xs
  proof (induction xs arbitrary: r)
    case (Cons x xs)
    show ?case using same_used_trans[OF same_used_update_relevance Cons.IH] by simp
  qed simp
  from this[of "([], gs)" rel] show ?thesis
    by (simp add: update_client_def case_prod_beta same_used_trans[OF _ same_used_data])
qed

lemma same_used_update_clients: "update_clients te env reg rel i l n s gs = Some (s', gs') \<Longrightarrow> same_used gs gs'"
proof (induction n arbitrary: s gs)
  case (Suc n)
  then obtain cl s1 where f: "find_client reg i l s = Some (cl, s1)" by (auto split: bind_splits)
  show ?case
  proof (cases cl)
    case None
    then show ?thesis using Suc.prems f by simp
  next
    case (Some c)
    then have "update_clients te env reg rel i l n s1 (update_client te env reg rel c gs) = Some (s', gs')" using Suc.prems f by simp
    from same_used_trans[OF same_used_update_client Suc.IH[OF this]] show ?thesis .
  qed
qed simp

lemma same_used_move_deleted: "same_used gs (move_deleted c gs x)"
  by (simp add: move_deleted_def split: option.split)

lemma same_used_leave_scope: "same_used gs (leave_scope env reg c e gs)"
  by (auto simp: leave_scope_def Let_def intro!: same_used_trans[OF same_used_call same_used_trans[OF same_used_call same_used_data]] split: option.split)

lemma same_used_mark_deleted: "same_used gs (mark_deleted env reg now c i a e isOut gs)"
proof -
  define s where "s = unat (GetSlotId reg c)"
  let ?g = "change_entity a (\<lambda>e. e\<lparr>relevantTo := relevantTo e - {s}\<rparr>) gs"
  let ?h = "change_entity a (\<lambda>e. e\<lparr>outOfScopeFor := insert s (outOfScopeFor e)\<rparr>) ?g"
  have stolen: "same_used gs (change_ids (\<lambda>i. i\<lparr>m_objectIdsStolen := X i\<rparr>) gs)" for gs :: "'a game_state" and X by (rule same_used_ids) simp
  have g: "same_used gs ?g" and h: "same_used gs ?h" using same_used_trans[OF same_used_relevant(1) same_used_relevant(5)] by simp_all
  have d: "same_used gs (change_entity a (\<lambda>e. e\<lparr>deletedFor := insert s (deletedFor e)\<rparr>) ?g)" by (rule same_used_trans[OF g]) simp
  have o: "same_used gs (change_ids (\<lambda>i. i\<lparr>m_objectIdsStolen := X i\<rparr>) ?h)" for X by (rule same_used_trans[OF h stolen])
  have r: "same_used gs (change_ids (\<lambda>i. i\<lparr>m_objectIdsStolen := X i\<rparr>) (ReassignEntity reg now j None ?h))" for X j
    by (rule same_used_trans[OF h same_used_trans[OF same_used_ReassignEntity stolen]])
  show ?thesis unfolding mark_deleted_def Let_def s_def[symmetric] using d h o r by (simp split: option.split)
qed

lemma same_used_leave_client: "same_used gs (leave_client env reg c e gs)"
  by (simp add: leave_client_def Let_def same_used_leave_scope same_used_trans[OF same_used_leave_scope same_used_call] split: option.split)

lemma same_used_delete_for: "same_used (snd (snd r)) (snd (snd (delete_for te env reg now c r x)))"
proof -
  obtain cmds dels gs where r: "r = (cmds, dels, gs)" by (cases r)
  obtain k ref del where x: "x = (k, ref, del)" by (cases x)
  show ?thesis unfolding r x
    by (simp add: delete_for_def Let_def case_prod_beta same_used_trans[OF same_used_mark_deleted same_used_leave_client] split: option.split)
qed

lemma same_used_enter_scope: "same_used gs (snd (enter_scope env reg c a gs))"
  by (auto simp: enter_scope_def Let_def intro!: same_used_trans[OF same_used_data same_used_trans[OF same_used_call same_used_call]] split: option.split)

lemma same_used_yoink: "same_used gs (yoink reg now c a gs)"
  by (auto simp: yoink_def intro!: same_used_trans[OF same_used_relevant(2) same_used_ReassignEntity] split: option.split)

lemma same_used_synced [simp]: "same_used gs (change_synced c k f gs)"
  by (simp add: change_synced_def)

lemma same_used_start_send: "same_used gs (start_send reg c k a forced was gs)"
  by (simp add: start_send_def Let_def same_used_trans[OF same_used_synced same_used_relevant(6)])

lemma same_used_finish_send: "same_used gs (finish_send te reg now c k e forced y gs)"
  by (simp add: finish_send_def Let_def same_used_trans[OF same_used_synced same_used_synced] same_used_trans[OF same_used_synced same_used_call]
      same_used_trans[OF same_used_trans[OF same_used_synced same_used_call] same_used_synced] split: option.split)

lemma same_used_send_entity: "same_used (snd (snd r)) (snd (snd (send_entity te reg now c k a e r)))"
proof -
  obtain cmds sent gs where r: "r = (cmds, sent, gs)" by (cases r)
  show ?thesis unfolding r
    by (simp add: send_entity_def Let_def same_used_start_send same_used_trans[OF same_used_start_send same_used_finish_send] split: option.split)
qed

lemma same_used_sync_entity: "sync_entity te env reg now c k r = Some r' \<Longrightarrow> same_used (snd (snd r)) (snd (snd r'))"
proof -
  assume run: "sync_entity te env reg now c k r = Some r'"
  obtain cmds sent gs where r: "r = (cmds, sent, gs)" by (cases r)
  show ?thesis
  proof (cases "map_of (syncedEntities (data_of gs c)) k")
    case (Some y)
    define a where "a = sy_entity y"
    define gs1 where "gs1 = yoink reg now c a gs"
    have 1: "same_used gs gs1" unfolding gs1_def by (rule same_used_yoink)
    show ?thesis
    proof (cases "hasCreated y")
      case True
      have "r' = (cmds, sent, gs1) \<or> (\<exists>e. r' = send_entity te reg now c k a e (cmds, sent, gs1))"
        using run Some True unfolding r gs1_def a_def by (auto simp: sync_entity_def Let_def split: option.splits if_splits)
      then show ?thesis using 1 same_used_trans[OF 1] same_used_send_entity[of "(cmds, sent, gs1)"] r by auto
    next
      case False
      obtain canCreate gs2 where es: "enter_scope env reg c a gs1 = (canCreate, gs2)" by (cases "enter_scope env reg c a gs1")
      have 2: "same_used gs gs2" using same_used_trans[OF 1 same_used_enter_scope[of gs1 env reg c a]] es by simp
      define gs3 where "gs3 = change_data c (\<lambda>d. d\<lparr>pendingCreates := (pendingCreates d)(k \<mapsto> m_frameIndex gs2)\<rparr>)
                          (change_synced c k (\<lambda>y. y\<lparr>forceUpdate := True\<rparr>) gs2)"
      have 3: "same_used gs gs3" using same_used_trans[OF 2 same_used_trans[OF same_used_synced same_used_data]] by (simp add: gs3_def)
      have "r' = (cmds, sent, change_data c (\<lambda>d. d\<lparr>syncedEntities := omap_erase k (syncedEntities d)\<rparr>) gs2) \<or> r' = (cmds, sent, gs3) \<or>
          (\<exists>e. r' = send_entity te reg now c k a e (cmds, sent, gs3))"
        using run Some False es unfolding r gs3_def gs1_def a_def by (auto simp: sync_entity_def Let_def split: option.splits if_splits)
      then show ?thesis using 2 3 same_used_trans[OF 2 same_used_data] same_used_trans[OF 3] same_used_send_entity[of "(cmds, sent, gs3)"] r by auto
    qed
  qed (use run r in \<open>simp add: sync_entity_def\<close>)
qed

lemma same_used_sync_entities: "sync_entities te env reg now c ks r = Some r' \<Longrightarrow> same_used (snd (snd r)) (snd (snd r'))"
proof (induction ks arbitrary: r)
  case (Cons k ks)
  then obtain r1 where r1: "sync_entity te env reg now c k r = Some r1" "sync_entities te env reg now c ks r1 = Some r'" by (auto split: bind_splits)
  from same_used_trans[OF same_used_sync_entity[OF r1(1)] Cons.IH[OF r1(2)]] show ?case .
qed simp

lemma same_used_send_client:
  assumes "send_client te env reg now c gs = Some gs'"
  shows "same_used gs gs'"
proof (cases "GetSlotId reg c = - 1")
  case False
  define gs1 where "gs1 = foldl (move_deleted c) (call (Send_array_data c) gs) (syncedEntities (data_of gs c))"
  obtain cmds dels gs2 where d: "foldl (delete_for te env reg now c) ([], [], gs1) (entitiesToDestroy (data_of gs1 c)) = (cmds, dels, gs2)"
    by (cases "foldl (delete_for te env reg now c) ([], [], gs1) (entitiesToDestroy (data_of gs1 c))")
  define gs3 where "gs3 = (if NAK te then change_data c (\<lambda>d. d\<lparr>entitiesToDestroy := []\<rparr>) gs2 else gs2)"
  have data: "data_of (call (Send_array_data c) gs) = data_of gs" by (simp add: call_def)
  obtain cmds' sent gs4 where s: "sync_entities te env reg now c (map fst (syncedEntities (data_of gs3 c))) (cmds, [], gs3) = Some (cmds', sent, gs4)"
    "gs' = call (Execute_commands c (m_frameIndex gs4) cmds') (save_frame te c \<lparr>fs_syncedEntities = sent, fs_deletions = dels\<rparr> gs4)"
    using assms False d data unfolding gs3_def gs1_def by (auto simp: send_client_def Let_def split: bind_splits)
  have "same_used (call (Send_array_data c) gs) gs1" unfolding gs1_def by (rule same_used_foldl) (rule same_used_move_deleted)
  then have 1: "same_used gs gs1" using same_used_trans[OF same_used_call] by blast
  have fold: "same_used (snd (snd r)) (snd (snd (foldl (delete_for te env reg now c) r xs)))" for r xs
  proof (induction xs arbitrary: r)
    case (Cons x xs)
    show ?case using same_used_trans[OF same_used_delete_for Cons.IH] by simp
  qed simp
  have 2: "same_used gs1 gs2" using fold[of "([], [], gs1)" "entitiesToDestroy (data_of gs1 c)"] d by simp
  have 3: "same_used gs2 gs3" by (simp add: gs3_def)
  have 4: "same_used gs3 gs4" using same_used_sync_entities[OF s(1)] by simp
  have "same_used gs4 gs'" unfolding s(2) save_frame_def by (rule same_used_trans[OF same_used_data same_used_call])
  then show ?thesis using same_used_trans[OF same_used_trans[OF same_used_trans[OF 1 2] 3] same_used_trans[OF 4]] by blast
qed (use assms in \<open>simp add: send_client_def\<close>)

lemma same_used_send_clients: "send_clients te env reg now cs gs = Some gs' \<Longrightarrow> same_used gs gs'"
proof (induction cs arbitrary: gs)
  case (Cons c cs)
  then obtain gs1 where g: "send_client te env reg now c gs = Some gs1" "send_clients te env reg now cs gs1 = Some gs'" by (auto split: bind_splits)
  from same_used_trans[OF same_used_send_client[OF g(1)] Cons.IH[OF g(2)]] show ?case .
qed simp

lemma game_ok_Tick:
  assumes "game_ok gs" "Tick te env reg now n cs s gs = Some (s', gs')"
  shows "game_ok gs'"
proof -
  obtain rel gs1 where c: "collect_entities env reg gs = (rel, gs1)" by (cases "collect_entities env reg gs")
  let ?i = "(if IsBigMode (server env) then MAX_CLIENTS else 129) - 1"
  obtain gs2 gs3 where u: "update_clients te env reg rel ?i s n s gs1 = Some (s', gs2)" "send_clients te env reg now cs gs2 = Some gs3"
    "gs' = gs3\<lparr>m_frameIndex := m_frameIndex gs3 + 1\<rparr>"
    using assms(2) c by (auto simp: Tick_def Let_def split: bind_splits)
  have "game_ok gs1" using game_ok_collect_entities[OF assms(1), of env reg] c by simp
  moreover have "same_used gs3 gs'" by (simp add: u(3) same_used_def same_entities_def removals_def known_def fun_eq_iff)
  ultimately show ?thesis
    using game_ok_cong[OF same_used_trans[OF same_used_update_clients[OF u(1)] same_used_trans[OF same_used_send_clients[OF u(2)]]]] by blast
qed

section \<open>Frames\<close>

lemma same_used_resend_from: "same_used gs (resend_from s a frame gs)"
  by (simp add: resend_from_def)

lemma same_used_nack_entity: "same_used (snd r) (snd (nack_entity s c r x))"
  by (cases r; cases x) (auto simp: nack_entity_def recreate_def same_used_resend_from split: option.split)

lemma same_used_nack_entities: "same_used (snd r) (snd (foldl (nack_entity s c) r xs))"
proof (induction xs arbitrary: r)
  case (Cons x xs)
  show ?case using same_used_trans[OF same_used_nack_entity Cons.IH] by simp
qed simp

lemma same_used_nack_deletions: "same_used gs (nack_deletions c dels gs)"
  unfolding nack_deletions_def by (rule same_used_foldl) (simp add: case_prod_beta)

lemma same_used_nack_frames: "same_used (snd r) (snd (snd (nack_frames s c first frame r)))"
proof (induction s c first frame r rule: nack_frames.induct)
  case (1 s c first frame r)
  show ?case
  proof (cases "frame < first")
    case True
    then show ?thesis by (simp add: nack_frames.simps[of s c first frame r])
  next
    case False
    show ?thesis
    proof (cases "map_of (frameStates (data_of (snd r) c)) frame")
      case None
      then show ?thesis using False by (simp add: nack_frames.simps[of s c first frame r])
    next
      case (Some f)
      obtain corrections gs where f: "foldl (nack_entity s c) r (fs_syncedEntities f) = (corrections, gs)"
        by (cases "foldl (nack_entity s c) r (fs_syncedEntities f)")
      let ?r = "(corrections, nack_deletions c (fs_deletions f) gs)"
      have step: "same_used (snd r) (snd ?r)"
        using same_used_trans[OF same_used_nack_entities[of r s c "fs_syncedEntities f"] same_used_nack_deletions] f by simp
      show ?thesis
      proof (cases "frame = 0")
        case True
        then have "snd (snd (nack_frames s c first frame r)) = nack_deletions c (fs_deletions f) gs"
          using False Some f by (subst nack_frames.simps) simp
        then show ?thesis using step by simp
      next
        case nz: False
        have "same_used (snd ?r) (snd (snd (nack_frames s c first (frame - 1) ?r)))" by (rule 1[OF False Some refl f[symmetric] refl nz])
        then show ?thesis using False Some f nz same_used_trans[OF step] by (simp add: nack_frames.simps[of s c first frame r])
      qed
    qed
  qed
qed

lemma same_used_nack_missing: "same_used gs (snd (nack_missing s c first lm gs))"
proof -
  obtain ok corrections gs1 where n: "nack_frames s c first lm ([], gs) = (ok, corrections, gs1)" by (cases "nack_frames s c first lm ([], gs)")
  have 1: "same_used gs gs1" using same_used_nack_frames[of "([], gs)" s c first lm] n by simp
  show ?thesis using n 1 same_used_trans[OF 1 same_used_data] by (simp add: nack_missing_def correct_newer_def)
qed

lemma same_used_ignore_update: "same_used gs (ignore_update s f gs x)"
  by (simp add: ignore_update_def same_used_resend_from split: option.split)

lemma same_used_recreate_entity: "same_used gs (recreate_entity c f gs i)"
  by (simp add: recreate_entity_def recreate_def split: option.split)

lemma same_used_nack_range: "nack_range s c flags b gs = Some (ok, b', gs') \<Longrightarrow> same_used gs gs'"
  by (auto simp: nack_range_def Let_def same_used_nack_missing split: if_splits bind_splits)

lemma same_used_nack_lists:
  assumes "nack_lists s c flags f b gs = Some gs'"
  shows "same_used gs gs'"
proof -
  obtain xs ys where g: "gs' = foldl (recreate_entity c f) (foldl (ignore_update s f) gs xs) ys"
    using assms by (auto simp: nack_lists_def Let_def simp del: foldl_Cons if_split split: bind_splits)
  show ?thesis unfolding g
    by (rule same_used_trans[OF same_used_foldl[OF same_used_ignore_update] same_used_foldl[OF same_used_recreate_entity]])
qed

lemma same_used_gameStateNAck:
  assumes "gameStateNAck nak reg c b gs = Some (ok, gs')"
  shows "same_used gs gs'"
proof (cases "\<not> nak \<or> GetSlotId reg c = - 1")
  case False
  have "\<exists>flags b1 ok1 b2 gs1 f. nack_range (unat (GetSlotId reg c)) c flags b1 gs = Some (ok1, b2, gs1) \<and>
    (gs' = gs1 \<or> nack_lists (unat (GetSlotId reg c)) c flags f b2 gs1 = Some gs')"
    using assms False by (auto simp: gameStateNAck_def split: bind_splits if_splits option.splits) blast+
  then obtain flags b1 ok1 b2 gs1 f where r: "nack_range (unat (GetSlotId reg c)) c flags b1 gs = Some (ok1, b2, gs1)"
    "gs' = gs1 \<or> nack_lists (unat (GetSlotId reg c)) c flags f b2 gs1 = Some gs'" by blast
  from r(2) show ?thesis
  proof
    assume "gs' = gs1"
    then show ?thesis using same_used_nack_range[OF r(1)] by simp
  qed (rule same_used_trans[OF same_used_nack_range[OF r(1)] same_used_nack_lists])
qed (use assms in \<open>auto simp: gameStateNAck_def\<close>)

lemma same_used_ack_recreate: "same_used gs (ack_recreate c f gs i)"
  by (simp add: ack_recreate_def split: option.split)

lemma same_used_ack_ignore: "same_used gs (ack_ignore s f gs x)"
  by (simp add: ack_ignore_def split: option.split)

lemma same_used_ack_entity: "same_used gs (ack_entity s c frame ignored gs x)"
  by (auto simp: ack_entity_def Let_def split: option.split)

lemma same_used_gameStateAck:
  assumes "gameStateAck arq reg c b gs = Some gs'"
  shows "same_used gs gs'"
proof (cases "\<not> arq \<or> GetSlotId reg c = - 1")
  case False
  then obtain f s frame xs ys zs h where g: "gs' = change_data c h (foldl (ack_entity s c frame xs) (foldl (ack_ignore s f) (foldl (ack_recreate c f) gs ys) xs) zs)"
    using assms by (auto simp: gameStateAck_def Let_def simp del: foldl_Cons split: bind_splits)
  show ?thesis unfolding g
    by (rule same_used_trans[OF same_used_foldl[OF same_used_ack_recreate] same_used_trans[OF same_used_foldl[OF same_used_ack_ignore]
      same_used_trans[OF same_used_foldl[OF same_used_ack_entity] same_used_data]]])
qed (use assms in \<open>auto simp: gameStateAck_def\<close>)

section \<open>Steps\<close>

text \<open>\<open>SendObjectIds\<close>: the ids are also those of the client.\<close>

definition give_object_ids :: "nat \<Rightarrow> nat \<Rightarrow> 't game_state \<Rightarrow> 't game_state" where
  "give_object_ids n c gs =
     (case gather_ids n 1 (ids gs) of (js, s) \<Rightarrow> change_data c (\<lambda>d. d\<lparr>c_objectIds := c_objectIds d \<union> set js\<rparr>) (gs\<lparr>ids := s\<rparr>))"

text \<open>
  The game state with the registry: any packet of any client that is alive (LZ4 writes at most 16384 bytes), the ticks, the callbacks, what scripts and the
  server do, and the registry's own steps. An entity that is in no table may die.
\<close>

inductive sync_step :: "'t sync_env \<Rightarrow> registry \<times> 't game_state \<Rightarrow> registry \<times> 't game_state \<Rightarrow> bool" for env where
  clients: "registry_step (server env) reg reg' \<Longrightarrow> sync_step env (reg, gs) (reg', gs)"
| clones: "alive reg c \<Longrightarrow> length packet \<le> 16384 \<Longrightarrow> ParseClonePacket env reg now c packet gs = Some gs' \<Longrightarrow> sync_step env (reg, gs) (reg, gs')"
| acks: "alive reg c \<Longrightarrow> ParseAckPacket env reg c packet gs = Some gs' \<Longrightarrow> sync_step env (reg, gs) (reg, gs')"
| nack: "alive reg c \<Longrightarrow> gameStateNAck nak reg c b gs = Some (ok, gs') \<Longrightarrow> sync_step env (reg, gs) (reg, gs')"
| ack: "alive reg c \<Longrightarrow> gameStateAck arq reg c b gs = Some gs' \<Longrightarrow> sync_step env (reg, gs) (reg, gs')"
| object_ids: "alive reg c \<Longrightarrow> sync_step env (reg, gs) (reg, give_object_ids n c gs)"
| create: "sync_step env (reg, gs) (reg, snd (CreateEntityFromTree env now uniqifier type tree gs))"
| delete: "sync_step env (reg, gs) (reg, DeleteEntity a gs)"
| reassign: "target = None \<or> (\<exists>c. target = Some c \<and> alive reg c) \<Longrightarrow> sync_step env (reg, gs) (reg, ReassignEntity reg now h target gs)"
| move: "sync_step env (reg, gs) (reg, snd (MoveEntityToCandidate env reg now a None gs))"
| drop: "alive reg c \<Longrightarrow> sync_step env (reg, gs) (reg, HandleClientDrop env reg now cs c netId slotId gs)"
| main: "sync_step env (reg, gs) (reg, run_main_task canceled gs)"
| sync: "sync_step env (reg, gs) (reg, run_sync_task reg gs)"
| tick: "Tick te env reg now n cs s gs = Some (s', gs') \<Longrightarrow> sync_step env (reg, gs) (reg, gs')"
| lockdown: "sync_step env (reg, gs) (reg, SetEntityLockdownMode bucket mode gs)"
| population: "sync_step env (reg, gs) (reg, SetPopulationDisabled bucket disabled gs)"
| expect: "sync_step env (reg, gs) (reg, gs\<lparr>entityCreationList := (entityCreationList gs)(token \<mapsto> True)\<rparr>)"
| route_client: "sync_step env (reg, gs) (reg, change_data c (\<lambda>d. d\<lparr>c_routingBucket := bucket\<rparr>) gs)"
| route_entity: "sync_step env (reg, gs) (reg, change_entity a (\<lambda>e. e\<lparr>e_routingBucket := bucket\<rparr>) gs)"
| state_bag: "sync_step env (reg, gs) (reg, change_entity a (\<lambda>e. e\<lparr>e_stateBag := Some b\<rparr>) gs)"
| dies: "a \<notin> set (m_entityList gs) \<Longrightarrow> sync_step env (reg, gs) (reg, gs\<lparr>entities := (entities gs)(a := None)\<rparr>)"

inductive sync_reachable :: "'t sync_env \<Rightarrow> registry \<times> 't game_state \<Rightarrow> bool" for env where
  start: "sync_reachable env (new_registry (server env), new_game_state)"
| step: "sync_reachable env st \<Longrightarrow> sync_step env st st' \<Longrightarrow> sync_reachable env st'"

text \<open>
  A creation by the server when no id is free goes on with the id 0, which several entities then share. The runs in which the server creates an entity
  only while an id is free:
\<close>

definition room :: "'t sync_env \<Rightarrow> 't game_state \<Rightarrow> bool" where
  "room env gs \<longleftrightarrow> (\<exists>j. 1 \<le> j \<and> j \<le> id_limit env \<and> id_free (ids gs) j)"

definition creation :: "'t sync_env \<Rightarrow> 't game_state \<Rightarrow> 't game_state \<Rightarrow> bool" where
  "creation env gs gs' \<longleftrightarrow> (\<exists>now uniqifier type tree. gs' = snd (CreateEntityFromTree env now uniqifier type tree gs))"

inductive roomy_reachable :: "'t sync_env \<Rightarrow> registry \<times> 't game_state \<Rightarrow> bool" for env where
  start: "roomy_reachable env (new_registry (server env), new_game_state)"
| step: "roomy_reachable env st \<Longrightarrow> sync_step env st st' \<Longrightarrow> creation env (snd st) (snd st') \<longrightarrow> room env (snd st) \<Longrightarrow> roomy_reachable env st'"

lemma roomy_sync_reachable: "roomy_reachable env st \<Longrightarrow> sync_reachable env st"
  by (induction rule: roomy_reachable.induct) (auto intro: sync_reachable.intros)

lemma roomy_step: "roomy_reachable env st \<Longrightarrow> sync_step env st st' \<Longrightarrow> room env (snd st) \<Longrightarrow> roomy_reachable env st'"
  by (auto intro: roomy_reachable.step)

lemma game_ok_start: "game_ok new_game_state"
  unfolding game_ok_def
  by (rule entities_okI) (simp_all add: new_game_state_def removals_def known_def no_object_ids_def map_filter_Nil)

lemma gather_ids_used: "gather_ids n i s = (js, s') \<Longrightarrow> m_objectIdsUsed s' = m_objectIdsUsed s"
  using gather_ids_value[of n i s js s'] by simp

lemma same_used_give_object_ids: "same_used gs (give_object_ids n c gs)"
proof -
  obtain js s where g: "gather_ids n 1 (ids gs) = (js, s)" by (cases "gather_ids n 1 (ids gs)")
  have "same_used gs (gs\<lparr>ids := s\<rparr>)" using gather_ids_used[OF g] by (simp add: same_used_def same_entities_def removals_def)
  then show ?thesis using g same_used_trans[OF _ same_used_data] by (simp add: give_object_ids_def)
qed

lemma game_ok_dies:
  assumes "game_ok gs" "a \<notin> set (m_entityList gs)"
  shows "game_ok (gs\<lparr>entities := (entities gs)(a := None)\<rparr>)"
proof -
  let ?g = "gs\<lparr>entities := (entities gs)(a := None)\<rparr>"
  have ok: "entities_ok (m_objectIdsUsed (ids gs)) gs" using assms(1) by (simp add: game_ok_def)
  have known: "known ?g = (known gs)(a := None)" by (auto simp: known_def fun_eq_iff)
  have rem: "removals ?g = removals gs" by (simp add: removals_def)
  have same: "((known gs)(a := None)) b = known gs b" if "b \<in> set (m_entityList gs)" for b using that assms(2) by auto
  have "entities_ok (m_objectIdsUsed (ids gs)) ?g"
  proof (rule entities_okI; (unfold known rem)?)
    show "distinct (m_entityList ?g)" "distinct (map fst (removals gs))" using ok_distinct[OF ok] by simp_all
    show "\<exists>i fin. ((known gs)(a := None)) b = Some (i, fin) \<and> m_entitiesById ?g i = Some b \<and> i < MaxObjectId \<and> i \<in> m_objectIdsUsed (ids gs) \<and>
        (fin \<longrightarrow> (b, i) \<in> set (removals gs))" if "b \<in> set (m_entityList ?g)" for b
      using ok_listed[OF ok, of b] that same[of b] by simp
    show "b < next_entity ?g" if "m_entitiesById ?g i = Some b" for i b using ok_by_id[OF ok, of i b] that by simp
    show "b \<in> set (m_entityList ?g) \<and> j = i" if "m_entitiesById ?g i = Some b" "((known gs)(a := None)) b = Some (j, fin)" for i b j fin
      using ok_by_id_known[OF ok, of i b j fin] that by (simp split: if_splits)
    show "((known gs)(a := None)) b = None" if "next_entity ?g \<le> b" for b using ok_fresh[OF ok, of b] that by simp
    show "\<exists>b \<in> set (m_entityList ?g). \<exists>fin. ((known gs)(a := None)) b = Some (i, fin)" if i: "i \<in> m_objectIdsUsed (ids gs)" for i
    proof -
      obtain b fin where "b \<in> set (m_entityList gs)" "known gs b = Some (i, fin)" using ok_used[OF ok i] by blast
      then show ?thesis using same by auto
    qed
    show "b \<in> set (m_entityList ?g) \<and> ((known gs)(a := None)) b = Some (i, True)" if "(b, i) \<in> set (removals gs)" for b i
      using ok_removal[OF ok that] same[of b] by simp
  qed
  then show ?thesis by (simp add: game_ok_def)
qed

lemma game_ok_step:
  "sync_step env st st' \<Longrightarrow> game_ok (snd st) \<Longrightarrow> creation env (snd st) (snd st') \<longrightarrow> room env (snd st) \<Longrightarrow> game_ok (snd st')"
proof (induction rule: sync_step.induct)
  case (clones reg c packet now gs gs')
  then show ?case using game_ok_ParseClonePacket by simp
next
  case (acks reg c packet gs gs')
  then show ?case using game_ok_cong[OF same_used_ParseAckPacket] by simp
next
  case (nack reg c nak b gs ok gs')
  then show ?case using game_ok_cong[OF same_used_gameStateNAck] by simp
next
  case (ack reg c arq b gs gs')
  then show ?case using game_ok_cong[OF same_used_gameStateAck] by simp
next
  case (object_ids reg c gs n)
  then show ?case using game_ok_cong[OF same_used_give_object_ids] by simp
next
  case (create reg gs now uniqifier type tree)
  then have "room env gs" by (auto simp: creation_def)
  then show ?case using create game_ok_CreateEntityFromTree by (auto simp: room_def)
next
  case (delete reg gs a)
  have "same_used gs (gs\<lparr>sync_tasks := sync_tasks gs @ [Remove_entity a]\<rparr>)"
    by (simp add: same_used_def same_entities_def removals_def map_filter_append map_filter_Cons map_filter_Nil)
  then have "same_used gs (DeleteEntity a gs)" by (simp add: DeleteEntity_def split: option.split)
  from game_ok_cong[OF this] show ?case using delete by simp
next
  case (reassign target reg gs now h)
  then show ?case using game_ok_cong[OF same_used_ReassignEntity] by simp
next
  case (move reg gs now a)
  then show ?case using game_ok_cong[OF same_used_Move] by simp
next
  case (drop reg c gs now cs netId slotId)
  then show ?case using game_ok_cong[OF same_used_HandleClientDrop] by simp
next
  case (main reg gs canceled)
  then show ?case using game_ok_run_main_task by simp
next
  case (sync reg gs)
  then show ?case using game_ok_run_sync_task by simp
next
  case (tick te reg now n cs s gs s' gs')
  then show ?case using game_ok_Tick by simp
next
  case (lockdown reg gs bucket mode)
  have "same_used gs (SetEntityLockdownMode bucket mode gs)"
    by (simp add: SetEntityLockdownMode_def same_used_def same_entities_def removals_def known_def fun_eq_iff)
  from game_ok_cong[OF this] show ?case using lockdown by simp
next
  case (population reg gs bucket disabled)
  have "same_used gs (SetPopulationDisabled bucket disabled gs)"
    by (simp add: SetPopulationDisabled_def same_used_def same_entities_def removals_def known_def fun_eq_iff)
  from game_ok_cong[OF this] show ?case using population by simp
next
  case (expect reg gs token)
  then show ?case using game_ok_cong[OF same_used_creation] by simp
next
  case (route_client reg gs c bucket)
  then show ?case using game_ok_cong[OF same_used_data] by simp
next
  case (route_entity reg gs a bucket)
  have "same_used gs (change_entity a (\<lambda>e. e\<lparr>e_routingBucket := bucket\<rparr>) gs)" by (rule same_used_entity) simp
  from game_ok_cong[OF this] show ?case using route_entity by simp
next
  case (state_bag reg gs a b)
  have "same_used gs (change_entity a (\<lambda>e. e\<lparr>e_stateBag := Some b\<rparr>) gs)" by (rule same_used_entity) simp
  from game_ok_cong[OF this] show ?case using state_bag by simp
next
  case (dies a gs reg)
  then show ?case using game_ok_dies by simp
qed simp

text \<open>The registry takes its own steps, and every state of the registry is met with the first game state.\<close>

lemma sync_registry_reachable: "sync_reachable env st \<Longrightarrow> registry_reachable (server env) (fst st)"
  by (induction rule: sync_reachable.induct) (auto elim!: sync_step.cases intro: registry_reachable.intros)

lemma room_start: "room env new_game_state"
  unfolding room_def by (rule exI[of _ 1]) (simp add: id_free_def new_game_state_def no_object_ids_def id_limit_def MaxObjectId_def)

lemma registry_roomy_reachable: "registry_reachable (server env) reg \<Longrightarrow> roomy_reachable env (reg, new_game_state)"
  by (induction rule: registry_reachable.induct)
    (auto intro: roomy_reachable.start roomy_step[OF _ sync_step.clients] simp: room_start)

lemma game_ok_reachable: "roomy_reachable env st \<Longrightarrow> game_ok (snd st)"
  by (induction rule: roomy_reachable.induct) (simp_all add: game_ok_start game_ok_step)

end
