(* ===== verification/Sync_Lifetime.thy ===== *)
theory Sync_Lifetime
  imports Sync_Steps
begin

text \<open>
  The life of an entity on the server: which entities can be found under their ids, and how one that is to be deleted goes.
\<close>

section \<open>Reading the invariant\<close>

lemma known_entity: "known gs a = Some (i, fin) \<longleftrightarrow> (\<exists>e. entities gs a = Some e \<and> e_handle e = i \<and> finalizing e = fin)"
  by (auto simp: known_def)

lemma GetEntity_iff: "GetEntity i gs = Some (a, e) \<longleftrightarrow> i < MaxObjectId \<and> m_entitiesById gs i = Some a \<and> entities gs a = Some e"
  by (auto simp: GetEntity_def split: option.split)

lemma game_listed:
  assumes "game_ok gs" "a \<in> set (m_entityList gs)"
  obtains e where "entities gs a = Some e" "e_handle e < MaxObjectId" "GetEntity (e_handle e) gs = Some (a, e)" "e_handle e \<in> m_objectIdsUsed (ids gs)"
    "finalizing e \<Longrightarrow> (a, e_handle e) \<in> set (removals gs)"
  using ok_listed[of "m_objectIdsUsed (ids gs)" gs a] assms by (auto simp: game_ok_def known_entity GetEntity_iff)

lemma game_found:
  assumes "game_ok gs" "GetEntity i gs = Some (a, e)"
  shows "a \<in> set (m_entityList gs) \<and> e_handle e = i \<and> i \<in> m_objectIdsUsed (ids gs)"
proof -
  have g: "m_entitiesById gs i = Some a" "known gs a = Some (e_handle e, finalizing e)" using assms(2) by (auto simp: GetEntity_iff known_def)
  have a: "a \<in> set (m_entityList gs)" "e_handle e = i" using ok_by_id_known[OF _ g] assms(1) by (auto simp: game_ok_def)
  then show ?thesis using ok_listed[OF _ a(1)] g assms(1) by (fastforce simp: game_ok_def)
qed

lemma game_used:
  assumes "game_ok gs"
  shows "i \<in> m_objectIdsUsed (ids gs) \<longleftrightarrow> GetEntity i gs \<noteq> None"
proof
  assume i: "i \<in> m_objectIdsUsed (ids gs)"
  have "entities_ok (m_objectIdsUsed (ids gs)) gs" using assms by (simp add: game_ok_def)
  from ok_used[OF this i] obtain a fin where a: "a \<in> set (m_entityList gs)" "known gs a = Some (i, fin)" by blast
  obtain e where "entities gs a = Some e" "GetEntity (e_handle e) gs = Some (a, e)" using game_listed[OF assms a(1)] by blast
  then show "GetEntity i gs \<noteq> None" using a(2) by (auto simp: known_entity)
next
  assume "GetEntity i gs \<noteq> None"
  then show "i \<in> m_objectIdsUsed (ids gs)" using game_found[OF assms] by fastforce
qed

section \<open>A sample\<close>

text \<open>A server with trees that know nothing; an entity of the server in a new game state, which a script then deletes.\<close>

definition sample_sync_env :: "unit sync_env" where
  "sample_sync_env = \<lparr>server = sample_env, IsLengthHack = False, MakeSyncTree = (\<lambda>_. Some ()), ParseTree = (\<lambda>_ _ _ t. t), ClearAcks = (\<lambda>t. t),
     ClearAcksOf = (\<lambda>_ t. t), TreeScriptHash = (\<lambda>_. 0), GetPopulationType = (\<lambda>_. None), GetDummyObjectState = (\<lambda>_. None),
     HasTask = (\<lambda>_. None), GetAttachment = (\<lambda>_. None), AtOrigin = (\<lambda>_. False), FocusDistance = (\<lambda>_ _. None),
     PedVehicle = (\<lambda>_. None), LeaveSeat = (\<lambda>_ _ t. t), CreateVeto = (\<lambda>_. False), compressBound = (\<lambda>n. n + n div 255 + 16)\<rparr>"

definition sample_created :: "unit game_state" where
  "sample_created = snd (CreateEntityFromTree sample_sync_env 5 7 Ped () new_game_state)"

definition sample_deleted :: "unit game_state" where
  "sample_deleted = run_sync_task (new_registry sample_env) (DeleteEntity 0 sample_created)"

lemma last_free_top: "id_free s (Suc i) \<Longrightarrow> last_free s (Suc i) = Suc i"
  by simp

lemma sample_id: "last_free no_object_ids 8191 = 8191"
  using last_free_top[of no_object_ids 8190] by (simp add: id_free_def no_object_ids_def)

definition sample_entity :: "unit entity" where
  "sample_entity = (blank_entity Ped 8191)\<lparr>e_frameIndex := 1, e_uniqifier := 7, creationToken := 5, createdAt := 5, passedFilter := True, syncTree := Some (),
     lastReceivedAt := 5, e_timestamp := 5\<rparr>"

lemma sample_created_value: "sample_created = new_game_state\<lparr>next_entity := 1, entities := (\<lambda>_. None)(0 \<mapsto> sample_entity), m_entityList := [0],
    m_entitiesById := (\<lambda>_. None)(8191 \<mapsto> 0), ids := \<lparr>m_objectIdsSent = {8191}, m_objectIdsUsed = {8191}, m_objectIdsStolen = {8191}\<rparr>\<rparr>"
  using sample_id by (simp add: sample_created_def CreateEntityFromTree_def sample_sync_env_def sample_entity_def change_ids_def new_game_state_def
      blank_entity_def Let_def) (simp add: no_object_ids_def)

lemma sample_deleted_value: "sample_deleted = sample_created\<lparr>entities := (\<lambda>_. None)(0 \<mapsto> sample_entity\<lparr>deleting := True\<rparr>)\<rparr>"
  by (simp add: sample_deleted_def sample_created_value DeleteEntity_def run_sync_task_def RemoveClone_def change_entity_def new_game_state_def
      sample_entity_def blank_entity_def Ped_def Player_def Let_def)

lemma sample_room: "room sample_sync_env sample_created"
  unfolding room_def
  by (rule exI[of _ 1]) (simp add: id_free_def sample_created_value new_game_state_def id_limit_def MaxObjectId_def sample_sync_env_def)

lemma sample_reachable: "roomy_reachable sample_sync_env (new_registry sample_env, sample_created)"
  "roomy_reachable sample_sync_env (new_registry sample_env, sample_deleted)"
proof -
  have "server sample_sync_env = sample_env" by (simp add: sample_sync_env_def)
  then have "roomy_reachable sample_sync_env (new_registry sample_env, new_game_state)" using roomy_reachable.start[of sample_sync_env] by simp
  then show c: "roomy_reachable sample_sync_env (new_registry sample_env, sample_created)"
    unfolding sample_created_def by (rule roomy_step[OF _ sync_step.create]) (simp add: room_start)
  have "ids (DeleteEntity 0 sample_created) = ids sample_created" by (simp add: DeleteEntity_def split: option.split)
  then have "room sample_sync_env (DeleteEntity 0 sample_created)" using sample_room by (simp add: room_def)
  then show "roomy_reachable sample_sync_env (new_registry sample_env, sample_deleted)"
    unfolding sample_deleted_def using roomy_step[OF roomy_step[OF c sync_step.delete] sync_step.sync] sample_room by simp
qed

section \<open>Identities\<close>

text \<open>C10: In every state that any packets, ticks, callbacks and scripts reach, as long as the server creates entities only while an id is free, each entity of the list is the one found under its id, nothing else
  is found, the ids in use are exactly those of the entities, and an id that is handed out to a client is no entity's.\<close>

theorem entity_ids_exact:
  assumes "roomy_reachable env (reg, gs)" "gather_ids n 1 (ids gs) = (given, s)"
  shows "distinct (m_entityList gs) \<and>
    (\<forall>a \<in> set (m_entityList gs). \<exists>e. entities gs a = Some e \<and> GetEntity (e_handle e) gs = Some (a, e)) \<and>
    (\<forall>i a e. GetEntity i gs = Some (a, e) \<longrightarrow> a \<in> set (m_entityList gs) \<and> e_handle e = i) \<and>
    m_objectIdsUsed (ids gs) = {i. GetEntity i gs \<noteq> None} \<and> (\<forall>i \<in> set given. GetEntity i gs = None)"
proof -
  have ok: "game_ok gs" using game_ok_reachable[OF assms(1)] by simp
  have "distinct (m_entityList gs)" using ok_distinct ok by (auto simp: game_ok_def)
  moreover have "\<exists>e. entities gs a = Some e \<and> GetEntity (e_handle e) gs = Some (a, e)" if "a \<in> set (m_entityList gs)" for a
    using game_listed[OF ok that] by blast
  moreover have "GetEntity i gs = None" if "i \<in> set given" for i
  proof -
    have "i \<notin> m_objectIdsUsed (ids gs)" using gather_ids_value[OF assms(2)] that by (auto simp: id_free_def)
    then show ?thesis using game_used[OF ok, of i] by blast
  qed
  ultimately show ?thesis using game_found[OF ok] game_used[OF ok] by blast
qed

lemma entity_ids_exact_witness:
  "\<exists>e. GetEntity 8191 sample_created = Some (0, e) \<and> m_objectIdsUsed (ids sample_created) = {i. GetEntity i sample_created \<noteq> None} \<and>
    (\<forall>i \<in> set (fst (gather_ids 2 1 (ids sample_created))). GetEntity i sample_created = None)"
  using entity_ids_exact[OF sample_reachable(1), of 2 "fst (gather_ids 2 1 (ids sample_created))" "snd (gather_ids 2 1 (ids sample_created))"]
  by (auto simp: sample_created_value GetEntity_def MaxObjectId_def)

section \<open>Deletion\<close>

text \<open>An entity that nobody needs to hear of any more.\<close>

definition doomed :: "'t game_state \<Rightarrow> nat \<Rightarrow> nat \<Rightarrow> bool" where
  "doomed gs a i \<longleftrightarrow> (\<exists>e. entities gs a = Some e \<and> deleting e \<and> relevantTo e = {} \<and> syncTree e \<noteq> None \<and> e_handle e = i)"

lemma doomed_change [simp]:
  "doomed (change_entity b (\<lambda>e. e\<lparr>e_frameIndex := x\<rparr>) gs) a i = doomed gs a i" "doomed (change_entity b (\<lambda>e. e\<lparr>finalizing := y\<rparr>) gs) a i = doomed gs a i"
  "doomed (change_entity b (\<lambda>e. e\<lparr>syncTree := map_option f (syncTree e)\<rparr>) gs) a i = doomed gs a i"
  by (auto simp: doomed_def change_entity_def)

lemma doomed_main [simp]: "doomed (gs\<lparr>main_tasks := ts\<rparr>) a i = doomed gs a i"
  by (simp add: doomed_def)

lemma doomed_OnCloneRemove [simp]: "doomed (OnCloneRemove env b j gs) a i = doomed gs a i"
  by (simp add: OnCloneRemove_def Let_def split: option.split prod.split)

lemma doomed_FinalizeClone [simp]: "doomed (FinalizeClone env b j gs) a i = doomed gs a i"
  by (simp add: FinalizeClone_def split: option.split)

lemma doomed_collect: "doomed (snd r) a i \<Longrightarrow> doomed (snd (collect_entity env reg r b)) a i"
  by (cases r) (simp add: collect_entity_def Let_def split: option.split)

definition ending :: "'t game_state \<Rightarrow> nat \<Rightarrow> bool" where
  "ending gs a \<longleftrightarrow> (\<exists>i. known gs a = Some (i, True))"

lemma known_OnCloneRemove: "known (OnCloneRemove env b j gs) = known gs"
  using same_used_leave[of gs b j env] by (simp add: same_used_def same_entities_def)

lemma known_FinalizeClone: "known gs a = Some (i, fin) \<Longrightarrow> \<exists>fin'. known (FinalizeClone env b j gs) a = Some (i, fin') \<and> (fin \<longrightarrow> fin')"
  by (auto simp: FinalizeClone_def known_OnCloneRemove known_change_entity split: option.split) (auto simp: known_def)

lemma ending_FinalizeClone: "ending gs a \<Longrightarrow> ending (FinalizeClone env b j gs) a"
  using known_FinalizeClone[of gs a _ True env b j] by (auto simp: ending_def)

lemma FinalizeClone_ends:
  assumes "m_entitiesById gs i = Some a" "entities gs a = Some e"
  shows "ending (FinalizeClone env a i gs) a"
proof (cases "finalizing e")
  case True
  then have "ending gs a" using assms(2) by (simp add: ending_def known_entity)
  then show ?thesis by (rule ending_FinalizeClone)
next
  case False
  then show ?thesis using assms by (simp add: FinalizeClone_def ending_def known_OnCloneRemove known_change_entity)
qed

lemma same_frame_index: "known (change_entity b (\<lambda>e. e\<lparr>e_frameIndex := x\<rparr>) gs) = known gs"
  by (rule known_change) simp

lemma ending_collect: "ending (snd r) a \<Longrightarrow> ending (snd (collect_entity env reg r b)) a"
  by (cases r) (auto simp: collect_entity_def Let_def split: option.split intro!: ending_FinalizeClone, auto simp: ending_def same_frame_index)

lemma collect_ends:
  assumes "doomed (snd r) a i" "m_entitiesById (snd r) i = Some a"
  shows "ending (snd (collect_entity env reg r a)) a"
proof -
  obtain rel gs where r: "r = (rel, gs)" by (cases r)
  obtain e where e: "entities gs a = Some e" "deleting e" "relevantTo e = {}" "syncTree e \<noteq> None" "e_handle e = i" using assms(1) r by (auto simp: doomed_def)
  let ?g = "change_entity a (\<lambda>e. e\<lparr>e_frameIndex := m_frameIndex gs\<rparr>) gs"
  have "snd (collect_entity env reg r a) = FinalizeClone env a i ?g" using e r by (auto simp: collect_entity_def collectable_def Let_def)
  moreover have "m_entitiesById ?g i = Some a" using assms(2) r by simp
  moreover have "entities ?g a \<noteq> None" using e by (simp add: change_entity_def)
  ultimately show ?thesis using FinalizeClone_ends by fastforce
qed

lemma by_id_collect: "m_entitiesById (snd (collect_entity env reg r b)) = m_entitiesById (snd r)"
  by (cases r) (auto simp: collect_entity_def FinalizeClone_def OnCloneRemove_def Let_def split: option.split prod.split)

lemma ids_collect: "ids (snd (collect_entity env reg r b)) = ids (snd r)"
  by (cases r) (auto simp: collect_entity_def FinalizeClone_def OnCloneRemove_def Let_def split: option.split prod.split)

lemma collect_all_ends:
  "a \<in> set as \<Longrightarrow> doomed (snd r) a i \<Longrightarrow> m_entitiesById (snd r) i = Some a \<Longrightarrow> ending (snd (foldl (collect_entity env reg) r as)) a"
proof (induction "as" arbitrary: r)
  case (Cons b as)
  have keep: "ending (snd (foldl (collect_entity env reg) r as)) a" if "ending (snd r) a" for r "as"
    using that by (induction "as" arbitrary: r) (simp_all add: ending_collect)
  show ?case
  proof (cases "b = a")
    case True
    then show ?thesis using keep[OF collect_ends[OF Cons.prems(2,3)]] by simp
  next
    case False
    then show ?thesis using Cons.IH[OF _ doomed_collect[OF Cons.prems(2)]] Cons.prems by (simp add: by_id_collect)
  qed
qed simp

lemma entityList_collect: "m_entityList (snd (foldl (collect_entity env reg) (rel, gs) as)) = m_entityList gs"
proof (induction "as" arbitrary: rel gs)
  case (Cons b as)
  obtain rel' gs' where r: "collect_entity env reg (rel, gs) b = (rel', gs')" by (cases "collect_entity env reg (rel, gs) b")
  then have "m_entityList gs' = m_entityList gs"
    by (auto simp: collect_entity_def FinalizeClone_def OnCloneRemove_def Let_def split: option.splits prod.splits if_splits)
  then show ?case using Cons.IH r by simp
qed simp

lemma ids_collect_all: "ids (snd (collect_entities env reg gs)) = ids gs"
proof -
  have "ids (snd (foldl (collect_entity env reg) r as)) = ids (snd r)" for r "as"
    by (induction "as" arbitrary: r) (simp_all add: ids_collect)
  then show ?thesis by (simp add: collect_entities_def)
qed

text \<open>The callbacks: those of the main thread, for each whether the event is canceled, and then those of the sync thread.\<close>

definition run_main_tasks :: "bool list \<Rightarrow> 't game_state \<Rightarrow> 't game_state" where
  "run_main_tasks cs gs = foldl (\<lambda>gs canceled. run_main_task canceled gs) gs cs"

definition run_sync_tasks :: "registry \<Rightarrow> 't game_state \<Rightarrow> 't game_state" where
  "run_sync_tasks reg gs = (run_sync_task reg ^^ length (sync_tasks gs)) gs"

text \<open>What the callbacks keep of an entity that is being finalized.\<close>

definition leaving :: "bool \<Rightarrow> 't game_state \<Rightarrow> nat \<Rightarrow> nat \<Rightarrow> bool" where
  "leaving stolen gs a i \<longleftrightarrow> game_ok gs \<and> known gs a = Some (i, True) \<and>
     (if (a, i) \<in> set (removals gs) then stolen \<longrightarrow> i \<in> m_objectIdsStolen (ids gs)
      else i \<notin> m_objectIdsUsed (ids gs) \<and> (stolen \<longrightarrow> i \<notin> m_objectIdsSent (ids gs)))"

lemma length_main_tasks: "length (main_tasks (run_main_task canceled gs)) = length (main_tasks gs) - 1"
  by (cases "main_tasks gs"; cases "hd (main_tasks gs)")
    (auto simp: run_main_task_def call_def change_entity_def Let_def split: option.split)

lemma length_sync_tasks: "length (sync_tasks (run_sync_task reg gs)) = length (sync_tasks gs) - 1"
  by (cases "sync_tasks gs"; cases "hd (sync_tasks gs)")
    (auto simp: run_sync_task_def RemoveClone_def do_remove_def change_ids_def change_data_def change_entity_def Let_def split: option.split)

lemma main_task_keeps: "known (run_main_task canceled gs) = known gs \<and> ids (run_main_task canceled gs) = ids gs \<and>
    set (removals (run_main_task canceled gs)) = set (removals gs)"
proof (cases "main_tasks gs")
  case (Cons t ts)
  have passed: "known (change_entity b (\<lambda>e. e\<lparr>passedFilter := True\<rparr>) h) = known h" for b and h :: "'a game_state" by (rule known_change) simp
  show ?thesis
    by (cases t) (auto simp: Cons run_main_task_def Let_def passed removals_tasks removals_def call_def change_entity_def known_def fun_eq_iff
        map_filter_append map_filter_Cons map_filter_Nil split: option.split)
qed (simp add: run_main_task_def)

lemma leaving_main: "leaving st gs a i \<Longrightarrow> leaving st (run_main_task canceled gs) a i"
  using game_ok_run_main_task[of gs canceled] main_task_keeps[of canceled gs] by (simp add: leaving_def)

lemma do_remove_keeps: "known (do_remove reg b j gs) = known gs" "removals (do_remove reg b j gs) = removals gs"
  "m_objectIdsUsed (ids (do_remove reg b j gs)) = m_objectIdsUsed (ids gs) - {j}"
  "m_objectIdsSent (ids (do_remove reg b j gs)) = (if j \<in> m_objectIdsStolen (ids gs) then m_objectIdsSent (ids gs) - {j} else m_objectIdsSent (ids gs))"
  "m_objectIdsStolen (ids (do_remove reg b j gs)) = m_objectIdsStolen (ids gs) - {j}"
  by (auto simp: do_remove_def Let_def change_ids_def change_data_def known_def removals_def fun_eq_iff split: option.split)

text \<open>Two entities of which one is found under the id of the other are the same.\<close>

lemma same_id_same_entity:
  assumes "game_ok gs" "(a, i) \<in> set (removals gs)" "(b, i) \<in> set (removals gs)"
  shows "a = b"
proof -
  have ok: "entities_ok (m_objectIdsUsed (ids gs)) gs" using assms(1) by (simp add: game_ok_def)
  have "m_entitiesById gs i = Some a" using ok_removal[OF ok assms(2)] ok_listed[OF ok, of a] by auto
  moreover have "m_entitiesById gs i = Some b" using ok_removal[OF ok assms(3)] ok_listed[OF ok, of b] by auto
  ultimately show ?thesis by simp
qed

lemma leaving_sync:
  assumes "leaving st gs a i"
  shows "leaving st (run_sync_task reg gs) a i"
proof (cases "sync_tasks gs")
  case Nil
  then show ?thesis using assms by (simp add: run_sync_task_def)
next
  case (Cons t ts)
  have ok: "game_ok gs" "game_ok (run_sync_task reg gs)" using assms game_ok_run_sync_task by (auto simp: leaving_def)
  show ?thesis
  proof (cases t)
    case (Remove_entity b)
    have "same_used (gs\<lparr>sync_tasks := ts\<rparr>) (run_sync_task reg gs)"
      using Cons Remove_entity by (simp add: run_sync_task_def Let_def split: option.split)
    moreover have "ids (run_sync_task reg gs) = ids gs"
      using Cons Remove_entity by (simp add: run_sync_task_def RemoveClone_def change_entity_def Let_def split: option.split)
    ultimately have "known (run_sync_task reg gs) = known gs" "set (removals (run_sync_task reg gs)) = set (removals gs)" "ids (run_sync_task reg gs) = ids gs"
      using Cons Remove_entity by (auto simp: same_used_def same_entities_def removals_tasks removals_def map_filter_Cons)
    then show ?thesis using assms ok by (simp add: leaving_def)
  next
    case (Do_remove b j)
    then have r: "run_sync_task reg gs = do_remove reg b j (gs\<lparr>sync_tasks := ts\<rparr>)" using Cons by (simp add: run_sync_task_def)
    have rem: "removals gs = (b, j) # removals (run_sync_task reg gs)"
      using Cons Do_remove by (simp add: r do_remove_keeps) (simp add: removals_tasks removals_def map_filter_Cons)
    have "distinct (map fst (removals gs))" using ok(1) ok_distinct by (auto simp: game_ok_def)
    then have fresh: "(b, j) \<notin> set (removals (run_sync_task reg gs))" using rem by force
    have "j \<noteq> i" if "(a, i) \<in> set (removals (run_sync_task reg gs))"
      using same_id_same_entity[OF ok(1), of a i b] that fresh by (auto simp: rem)
    then show ?thesis using assms ok(2) rem fresh by (auto simp: leaving_def r do_remove_keeps split: if_splits)
  qed
qed

lemma main_tasks_end:
  "length cs = length (main_tasks gs) \<Longrightarrow> main_tasks (run_main_tasks cs gs) = [] \<and> (leaving st gs a i \<longrightarrow> leaving st (run_main_tasks cs gs) a i)"
  unfolding run_main_tasks_def
proof (induction cs arbitrary: gs)
  case (Cons c cs)
  from Cons.IH[of "run_main_task c gs"] show ?case using Cons.prems leaving_main[of st gs a i c] by (auto simp: length_main_tasks)
qed simp

lemma sync_tasks_end:
  "sync_tasks (run_sync_tasks reg gs) = [] \<and> main_tasks (run_sync_tasks reg gs) = main_tasks gs \<and>
    (leaving st gs a i \<longrightarrow> leaving st (run_sync_tasks reg gs) a i)"
proof -
  have main: "main_tasks (run_sync_task reg gs) = main_tasks gs" for gs :: "'a game_state"
    by (cases "sync_tasks gs"; cases "hd (sync_tasks gs)")
      (auto simp: run_sync_task_def RemoveClone_def do_remove_def change_ids_def change_data_def change_entity_def Let_def split: option.split)
  have "length (sync_tasks ((run_sync_task reg ^^ n) gs)) = length (sync_tasks gs) - n \<and> main_tasks ((run_sync_task reg ^^ n) gs) = main_tasks gs \<and>
      (leaving st gs a i \<longrightarrow> leaving st ((run_sync_task reg ^^ n) gs) a i)" for n
    by (induction n) (simp_all add: length_sync_tasks main leaving_sync)
  from this[of "length (sync_tasks gs)"] show ?thesis by (simp add: run_sync_tasks_def)
qed

text \<open>When nothing is under way any more, no entity of the list is being finalized.\<close>

lemma leaving_gone:
  assumes "leaving st gs a i" "main_tasks gs = []" "sync_tasks gs = []"
  shows "a \<notin> set (m_entityList gs) \<and> GetEntity i gs = None \<and> i \<notin> m_objectIdsUsed (ids gs) \<and> (st \<longrightarrow> i \<notin> m_objectIdsSent (ids gs))"
proof -
  have rem: "removals gs = []" using assms(2,3) by (simp add: removals_def map_filter_Nil)
  have ok: "game_ok gs" "known gs a = Some (i, True)" using assms(1) by (simp_all add: leaving_def)
  have "a \<notin> set (m_entityList gs)"
  proof
    assume "a \<in> set (m_entityList gs)"
    from game_listed[OF ok(1) this] obtain e where "entities gs a = Some e" "finalizing e \<Longrightarrow> (a, e_handle e) \<in> set (removals gs)" by blast
    then show False using ok(2) rem by (simp add: known_def)
  qed
  moreover have "i \<notin> m_objectIdsUsed (ids gs) \<and> (st \<longrightarrow> i \<notin> m_objectIdsSent (ids gs))" using assms(1) rem by (simp add: leaving_def)
  ultimately show ?thesis using game_used[OF ok(1), of i] by blast
qed

text \<open>C12: An entity that is to be deleted and that no client knows any more is collected by the next tick; once the callbacks have run it is
  no longer in the list and nothing is found under its id; the id can be handed out again when it had been taken from the client it was given to.\<close>

theorem deleted_entity_goes:
  assumes "roomy_reachable env (reg, gs)" "a \<in> set (m_entityList gs)" "entities gs a = Some e" "deleting e" "relevantTo e = {}" "syncTree e \<noteq> None"
    "gs1 = snd (collect_entities env reg gs)" "length cs = length (main_tasks gs1)" "gs2 = run_sync_tasks reg (run_main_tasks cs gs1)"
  shows "main_tasks gs2 = [] \<and> sync_tasks gs2 = [] \<and> a \<notin> set (m_entityList gs2) \<and> GetEntity (e_handle e) gs2 = None \<and>
    (e_handle e \<in> m_objectIdsStolen (ids gs) \<longrightarrow> id_free (ids gs2) (e_handle e))"
proof -
  let ?i = "e_handle e" and ?st = "e_handle e \<in> m_objectIdsStolen (ids gs)"
  have ok: "game_ok gs" "game_ok gs1" using game_ok_reachable[OF assms(1)] game_ok_collect_entities assms(7) by auto
  have "m_entitiesById gs ?i = Some a" by (rule game_listed[OF ok(1) assms(2)]) (use assms(3) in \<open>simp add: GetEntity_iff\<close>)
  then have "ending gs1 a" unfolding assms(7) collect_entities_def
    by (intro collect_all_ends) (use assms in \<open>auto simp: doomed_def\<close>)
  moreover have "doomed gs1 a ?i"
  proof -
    have "doomed (snd (foldl (collect_entity env reg) r as)) a ?i" if "doomed (snd r) a ?i" for r "as"
      using that by (induction "as" arbitrary: r) (simp_all add: doomed_collect)
    then show ?thesis unfolding assms(7) collect_entities_def using assms by (auto simp: doomed_def)
  qed
  ultimately have k: "known gs1 a = Some (?i, True)" by (auto simp: ending_def doomed_def known_entity)
  have "m_entityList gs1 = m_entityList gs" unfolding assms(7) collect_entities_def by (rule entityList_collect)
  then have "a \<in> set (m_entityList gs1)" using assms(2) by simp
  from game_listed[OF ok(2) this] obtain e1 where "entities gs1 a = Some e1" "finalizing e1 \<Longrightarrow> (a, e_handle e1) \<in> set (removals gs1)" by blast
  then have "(a, ?i) \<in> set (removals gs1)" using k by (simp add: known_def)
  then have "leaving ?st gs1 a ?i" using ok(2) k by (simp add: leaving_def assms(7) ids_collect_all)
  then have "leaving ?st gs2 a ?i" "main_tasks gs2 = []" "sync_tasks gs2 = []"
    using main_tasks_end[OF assms(8), of ?st a ?i] sync_tasks_end[of reg "run_main_tasks cs gs1" ?st a ?i] unfolding assms(9) by simp_all
  from this(2,3) leaving_gone[OF this] show ?thesis by (simp add: id_free_def)
qed

lemma deleted_entity_goes_witness:
  "GetEntity 8191 sample_deleted \<noteq> None \<and>
   (let gs = run_sync_tasks (new_registry sample_env) (run_main_tasks [False]
      (snd (collect_entities sample_sync_env (new_registry sample_env) sample_deleted)))
    in GetEntity 8191 gs = None \<and> id_free (ids gs) 8191)"
proof -
  have e: "entities sample_deleted 0 = Some (sample_entity\<lparr>deleting := True\<rparr>)" "m_entityList sample_deleted = [0]" "8191 \<in> m_objectIdsStolen (ids sample_deleted)"
    "GetEntity 8191 sample_deleted \<noteq> None"
    by (simp_all add: sample_deleted_value sample_created_value GetEntity_def MaxObjectId_def)
  have "length [False] = length (main_tasks (snd (collect_entities sample_sync_env (new_registry sample_env) sample_deleted)))"
    by (simp add: sample_deleted_value sample_created_value collect_entities_def collect_entity_def collectable_def sample_entity_def blank_entity_def
        FinalizeClone_def OnCloneRemove_def change_entity_def new_game_state_def sample_sync_env_def Let_def Ped_def Player_def)
  from deleted_entity_goes[OF sample_reachable(2) _ e(1) _ _ _ refl this refl] e show ?thesis
    by (simp add: sample_entity_def blank_entity_def Let_def)
qed

end
