(* ===== verification/Sync_Acks.thy ===== *)
theory Sync_Acks
  imports Sync_Lifetime Bit_Stream
begin

text \<open>
  Reading the packets of clients ends, stays inside the buffers, and never runs out of room for the acknowledgements.
\<close>

section \<open>Reading\<close>

text \<open>The length hack makes fields of 13 bits wider.\<close>

lemma Read_step:
  assumes "mb_wf p" "0 < n" "n \<le> 32"
  shows "\<exists>v p'. Read hack n p = Some (v, p') \<and> mb_wf p' \<and> m_maxBit p' = m_maxBit p \<and> m_curBit p < m_curBit p'"
proof -
  define k where "k = (if n = 13 \<and> hack then 16 else n)"
  have k: "0 < k" "k \<le> 32" using assms by (simp_all add: k_def)
  have "ReadBitsSingle hack n p = ReadBitsSingle False k p" by (simp add: ReadBitsSingle_def k_def)
  moreover have "\<exists>v. ReadBitsSingle False k p = Some (v, p\<lparr>m_curBit := m_curBit p + k\<rparr>)"
  proof (cases "m_curBit p + k \<le> m_maxBit p")
    case True
    then show ?thesis using ReadBitsSingle_value[OF assms(1) k, of False] by auto
  next
    case False
    then show ?thesis using ReadBitsSingle_short[OF k(1), of p] k by auto
  qed
  ultimately obtain v where "ReadBitsSingle hack n p = Some (v, p\<lparr>m_curBit := m_curBit p + k\<rparr>)" by auto
  then show ?thesis using assms k by (simp add: Read_def mb_wf_def)
qed

lemma Read16_step:
  assumes "mb_wf p" "0 < n" "n \<le> 32"
  shows "\<exists>v p'. Read16 env n p = Some (v, p') \<and> mb_wf p' \<and> m_maxBit p' = m_maxBit p \<and> m_curBit p < m_curBit p'"
  using Read_step[OF assms, of "IsLengthHack env"] by (auto simp: Read16_def)

lemma ReadBits_step:
  assumes "mb_wf p"
  shows "\<exists>ok d p'. ReadBits hack (replicate n 0) (8 * n) p = Some (ok, d, p') \<and> mb_wf p' \<and> m_maxBit p' = m_maxBit p \<and> m_curBit p \<le> m_curBit p'"
proof (cases "n = 0 \<or> m_maxBit p < m_curBit p + 8 * n")
  case True
  moreover have "8 * n \<noteq> 13" by presburger
  ultimately show ?thesis using assms by (auto simp: ReadBits_def)
next
  case False
  moreover have "8 * n \<noteq> 13" by presburger
  ultimately show ?thesis using ReadBits_value[OF assms, of "8 * n" hack "replicate n 0"] assms by (auto simp: mb_wf_def)
qed

section \<open>The acknowledgement buffer\<close>

text \<open>Room for what one message writes is left between two messages.\<close>

definition ack_ready :: "msgbuf \<Rightarrow> bool" where
  "ack_ready b \<longleftrightarrow> mb_wok b \<and> m_maxBit b = 8 * 16384 \<and> m_curBit b \<le> 8 * (1100 - 12 - 12)"

lemma ack_ready_new: "ack_ready (mb_of_size 16384)"
  by (simp add: ack_ready_def mb_wok_def mb_wf_def mb_of_size_def)

lemma ack_ready_rewind: "mb_wok b \<Longrightarrow> m_maxBit b = 8 * 16384 \<Longrightarrow> ack_ready (SetCurrentBit 0 b)"
  by (simp add: ack_ready_def mb_wok_def mb_wf_def SetCurrentBit_def)

lemma Write_step:
  assumes "mb_wok b" "0 < n" "n \<le> 32" "m_curBit b + 32 \<le> m_maxBit b"
  shows "\<exists>b'. Write hack n v b = Some b' \<and> mb_wok b' \<and> m_maxBit b' = m_maxBit b \<and> m_curBit b' \<le> m_curBit b + 32"
proof -
  define k where "k = (if n = 13 \<and> hack then 16 else n)"
  have k: "0 < k" "k \<le> 32" using assms by (simp_all add: k_def)
  have "Write hack n v b = Write False k v b" by (simp add: Write_def WriteBitsSingle_def k_def)
  moreover obtain d where "WriteBitsSingle False v k b = Some (True, b\<lparr>m_data := d, m_curBit := m_curBit b + k\<rparr>)" "length d = length (m_data b)"
    using WriteBitsSingle_value[of b k False v] assms k by (auto simp: mb_wok_def)
  ultimately show ?thesis using assms k by (simp add: Write_def mb_wok_def mb_wf_def)
qed

lemma write_fields_step:
  assumes "mb_wok b" "\<forall>f \<in> set fs. 0 < fst f \<and> fst f \<le> 32" "m_curBit b + 32 * length fs \<le> m_maxBit b"
  shows "\<exists>b'. write_fields hack fs b = Some b' \<and> mb_wok b' \<and> m_maxBit b' = m_maxBit b \<and> m_curBit b' \<le> m_curBit b + 32 * length fs"
  using assms
proof (induction fs arbitrary: b)
  case (Cons f fs)
  obtain n v where f: "f = (n, v)" by (cases f)
  obtain b1 where b1: "Write hack n v b = Some b1" "mb_wok b1" "m_maxBit b1 = m_maxBit b" "m_curBit b1 \<le> m_curBit b + 32"
    using Write_step[of b n hack v] Cons.prems f by auto
  then show ?case using Cons.IH[of b1] Cons.prems f by auto
qed simp

text \<open>LZ4's bound on the size of compressed data is not below the size of the data, for what the buffer can hold.\<close>

definition bounded :: "'t sync_env \<Rightarrow> bool" where
  "bounded env \<longleftrightarrow> (\<forall>n \<le> 16384. n \<le> compressBound env n)"

lemma FlushBuffer_step:
  assumes "mb_wok b" "m_maxBit b = 8 * 16384" "m_curBit b + 32 \<le> m_maxBit b"
  shows "\<exists>b' gs'. FlushBuffer env ty f c (b, gs) = Some (b', gs') \<and> ack_ready b' \<and> m_curBit b' = 0 \<and> data_of gs' = data_of gs"
proof -
  obtain b1 where "Write (IsLengthHack env) 3 7 b = Some b1" "mb_wok b1" "m_maxBit b1 = m_maxBit b"
    using Write_step[of b 3 "IsLengthHack env" 7] assms by auto
  then show ?thesis using ack_ready_rewind[of b1] assms(2) by (simp add: FlushBuffer_def call_def SetCurrentBit_def)
qed

lemma GetDataLength_bound: "GetDataLength b \<le> n \<Longrightarrow> m_curBit b \<le> 8 * n"
  using GetDataLength_covers[of b] by linarith

lemma prepare_step:
  "mb_wok b \<Longrightarrow> \<exists>f b'. prepare c (b, gs) = (f, b', gs) \<and> mb_wok b' \<and> m_maxBit b' = m_maxBit b \<and> m_curBit b' \<le> m_curBit b"
  by (auto simp: prepare_def Let_def SetCurrentBit_def mb_wok_def mb_wf_def)

lemma flush_ack_step:
  assumes "bounded env" "mb_wok b" "m_maxBit b = 8 * 16384" "m_curBit b + 32 \<le> m_maxBit b"
  shows "\<exists>b' gs'. flush_ack env c (b, gs) = Some (b', gs') \<and> ack_ready b' \<and> data_of gs' = data_of gs"
proof -
  obtain f b1 where b1: "prepare c (b, gs) = (f, b1, gs)" "mb_wok b1" "m_maxBit b1 = m_maxBit b" "m_curBit b1 \<le> m_curBit b"
    using prepare_step[OF assms(2)] by blast
  show ?thesis
  proof (cases "compressBound env (GetDataLength b1 + 0 div 8) > 1100 - 12 - 12")
    case True
    obtain b2 gs2 where "FlushBuffer env ''msgPackedAcks'' f c (b1, gs) = Some (b2, gs2)" "ack_ready b2" "data_of gs2 = data_of gs"
      using FlushBuffer_step[of b1 env "''msgPackedAcks''" f c gs] b1 assms(3,4) by auto
    then show ?thesis using True b1 by (simp add: flush_ack_def MaybeFlushBuffer_def)
  next
    case False
    have "GetDataLength b1 \<le> 16384" using b1 assms(3,4) by (auto simp: GetDataLength_def)
    then have "GetDataLength b1 \<le> compressBound env (GetDataLength b1)" using assms(1) by (simp add: bounded_def)
    then have "m_curBit b1 \<le> 8 * (1100 - 12 - 12)" using False by (intro GetDataLength_bound) simp
    then have "ack_ready b1" using b1 assms(3) by (simp add: ack_ready_def)
    then show ?thesis using False b1 by (simp add: flush_ack_def MaybeFlushBuffer_def)
  qed
qed

lemma send_ack_step:
  assumes "bounded env" "ack_ready b" "\<forall>f \<in> set fs. 0 < fst f \<and> fst f \<le> 32" "length fs \<le> 3"
  shows "\<exists>b' gs'. send_ack env c fs (b, gs) = Some (b', gs') \<and> ack_ready b' \<and> data_of gs' = data_of gs"
proof -
  obtain b1 where b1: "write_fields (IsLengthHack env) fs b = Some b1" "mb_wok b1" "m_maxBit b1 = 8 * 16384" "m_curBit b1 \<le> m_curBit b + 32 * length fs"
    using write_fields_step[of b fs "IsLengthHack env"] assms(2-4) by (auto simp: ack_ready_def)
  have "m_curBit b1 + 32 \<le> m_maxBit b1" using b1 assms(2,4) by (simp add: ack_ready_def)
  then show ?thesis using flush_ack_step[OF assms(1) b1(2,3), of c gs] b1 by (simp add: send_ack_def)
qed

section \<open>The messages\<close>

lemma ProcessClonePacket_step:
  assumes "mb_wf p"
  shows "\<exists>ok i u p' gs'. ProcessClonePacket env reg now c t p gs = Some (ok, i, u, p', gs') \<and> mb_wf p' \<and> m_maxBit p' = m_maxBit p \<and> m_curBit p < m_curBit p'"
proof -
  obtain u p1 where 1: "Read16 env 16 p = Some (u, p1)" "mb_wf p1" "m_maxBit p1 = m_maxBit p" "m_curBit p < m_curBit p1"
    using Read16_step[OF assms, of 16 env] by auto
  obtain i p2 where 2: "Read16 env 13 p1 = Some (i, p2)" "mb_wf p2" "m_maxBit p2 = m_maxBit p" "m_curBit p < m_curBit p2"
    using Read16_step[OF 1(2), of 13 env] 1 by auto
  have rest: "\<exists>ok i' u' p' gs'. do {
       (len, p) \<leftarrow> Read16 env 12 q;
       (_, bitBytes, p) \<leftarrow> ReadBits (IsLengthHack env) (replicate (unat len) 0) (8 * unat len) p;
       Some (fst (clone_update env reg now c t (unat i) u token type bitBytes gs), i, u, p, snd (clone_update env reg now c t (unat i) u token type bitBytes gs)) }
       = Some (ok, i', u', p', gs') \<and> mb_wf p' \<and> m_maxBit p' = m_maxBit p \<and> m_curBit p < m_curBit p'"
    if q: "mb_wf q" "m_maxBit q = m_maxBit p" "m_curBit p < m_curBit q" for q token type
  proof -
    obtain len q1 where q1: "Read16 env 12 q = Some (len, q1)" "mb_wf q1" "m_maxBit q1 = m_maxBit p" "m_curBit p < m_curBit q1"
      using Read16_step[OF q(1), of 12 env] q by auto
    then show ?thesis using ReadBits_step[OF q1(2), of "IsLengthHack env" "unat len"] by auto
  qed
  show ?thesis
  proof (cases "t = 1")
    case True
    obtain token q1 where q1: "Read (IsLengthHack env) 32 p2 = Some (token, q1)" "mb_wf q1" "m_maxBit q1 = m_maxBit p" "m_curBit p < m_curBit q1"
      using Read_step[OF 2(2), of 32 "IsLengthHack env"] 2 by auto
    obtain ty q2 where q2: "Read (IsLengthHack env) 4 q1 = Some (ty, q2)" "mb_wf q2" "m_maxBit q2 = m_maxBit p" "m_curBit p < m_curBit q2"
      using Read_step[OF q1(2), of 4 "IsLengthHack env"] q1 by auto
    show ?thesis using rest[OF q2(2-4), of token "unat (ucast ty :: byte)"] True by (simp add: ProcessClonePacket_def Let_def 1(1) 2(1) q1(1) q2(1))
  next
    case False
    show ?thesis using rest[OF 2(2-4), of 0 Train] False by (simp add: ProcessClonePacket_def Let_def 1(1) 2(1))
  qed
qed

lemma take_over_reads:
  assumes "mb_wf p"
  shows "\<exists>p' gs'. ProcessCloneTakeover env reg now c (p, ack, gs) = Some (p', ack, gs') \<and> mb_wf p' \<and> m_maxBit p' = m_maxBit p \<and> m_curBit p < m_curBit p'"
proof -
  obtain cl p1 where 1: "Read16 env 16 p = Some (cl, p1)" "mb_wf p1" "m_maxBit p1 = m_maxBit p" "m_curBit p < m_curBit p1"
    using Read16_step[OF assms, of 16 env] by auto
  obtain i p2 where "Read16 env 13 p1 = Some (i, p2)" "mb_wf p2" "m_maxBit p2 = m_maxBit p" "m_curBit p < m_curBit p2"
    using Read16_step[OF 1(2), of 13 env] 1 by auto
  then show ?thesis using 1 by (simp add: ProcessCloneTakeover_def)
qed

lemma clone_message_step:
  assumes "bounded env" "mb_wf p" "ack_ready ack"
  shows "\<exists>p' ack' gs'. clone_message env reg now c ty (p, ack, gs) = Some (p', ack', gs') \<and> mb_wf p' \<and> m_maxBit p' = m_maxBit p \<and>
    m_curBit p < m_curBit p' \<and> ack_ready ack'"
proof -
  have send: "\<exists>ack' gs'. send_ack env c [(3, x), (13, y), (16, z)] (ack, g) = Some (ack', gs') \<and> ack_ready ack' \<and> data_of gs' = data_of g" for x y z g
    by (rule send_ack_step[OF assms(1,3)]) auto
  have send2: "\<exists>ack' gs'. send_ack env c [(3, x), (32, y)] (ack, g) = Some (ack', gs') \<and> ack_ready ack' \<and> data_of gs' = data_of g" for x y g
    by (rule send_ack_step[OF assms(1,3)]) auto
  consider "ty = 1" | "ty = 2" | "ty = 3" | "ty = 4" | "ty = 5" | "ty \<notin> {1, 2, 3, 4, 5}" by blast
  then show ?thesis
  proof cases
    case 1
    obtain ok i u p' gs1 where p: "ProcessClonePacket env reg now c 1 p gs = Some (ok, i, u, p', gs1)" "mb_wf p'" "m_maxBit p' = m_maxBit p" "m_curBit p < m_curBit p'"
      using ProcessClonePacket_step[OF assms(2), of env reg now c 1 gs] by blast
    obtain ack' gs' where "send_ack env c [(3, 1), (13, ucast i), (16, ucast u)]
        (ack, if ok then change_ids (\<lambda>s. s\<lparr>m_objectIdsUsed := insert (unat i) (m_objectIdsUsed s)\<rparr>) gs1 else gs1) = Some (ack', gs')" "ack_ready ack'"
      using send by blast
    then show ?thesis using p 1 by (simp add: clone_message_def ProcessCloneCreate_def)
  next
    case 2
    obtain ok i u p' gs1 where p: "ProcessClonePacket env reg now c 2 p gs = Some (ok, i, u, p', gs1)" "mb_wf p'" "m_maxBit p' = m_maxBit p" "m_curBit p < m_curBit p'"
      using ProcessClonePacket_step[OF assms(2), of env reg now c 2 gs] by blast
    obtain ack' gs' where "send_ack env c [(3, 2), (13, ucast i), (16, ucast u)] (ack, gs1) = Some (ack', gs')" "ack_ready ack'"
      using send by blast
    then show ?thesis using p 2 by (simp add: clone_message_def ProcessCloneSync_def)
  next
    case 3
    obtain i p1 where 1: "Read16 env 13 p = Some (i, p1)" "mb_wf p1" "m_maxBit p1 = m_maxBit p" "m_curBit p < m_curBit p1"
      using Read16_step[OF assms(2), of 13 env] by auto
    obtain u p2 where 2: "Read16 env 16 p1 = Some (u, p2)" "mb_wf p2" "m_maxBit p2 = m_maxBit p" "m_curBit p < m_curBit p2"
      using Read16_step[OF 1(2), of 16 env] 1 by auto
    obtain ack' gs' where "send_ack env c [(3, 3), (13, ucast i), (16, ucast u)] (ack, gs) = Some (ack', gs')" "ack_ready ack'"
      using send by blast
    then show ?thesis using 1 2 3 by (simp add: clone_message_def ProcessCloneRemove_def)
  next
    case 4
    then show ?thesis using take_over_reads[OF assms(2), of env reg now c ack gs] assms(3) by (auto simp: clone_message_def)
  next
    case 5
    obtain t p1 where 1: "Read (IsLengthHack env) 32 p = Some (t, p1)" "mb_wf p1" "m_maxBit p1 = m_maxBit p" "m_curBit p < m_curBit p1"
      using Read_step[OF assms(2), of 32 "IsLengthHack env"] by auto
    obtain ack' gs' where "send_ack env c [(3, 5), (32, t)] (ack, gs) = Some (ack', gs')" "ack_ready ack'"
      using send2 by blast
    then show ?thesis using 1 5 by (simp add: clone_message_def set_timestamp_def Let_def)
  next
    case 6
    obtain t p1 where "Read (IsLengthHack env) 32 p = Some (t, p1)" "mb_wf p1" "m_maxBit p1 = m_maxBit p" "m_curBit p < m_curBit p1"
      using Read_step[OF assms(2), of 32 "IsLengthHack env"] by auto
    then show ?thesis using 6 assms(3) by (auto simp: clone_message_def set_index_def)
  qed
qed

text \<open>Every round of the loop reads.\<close>

lemma clone_messages_step:
  assumes "bounded env" "mb_wf p" "ack_ready ack"
  shows "\<exists>p' ack' gs'. clone_messages env reg now c (p, ack, gs) = Some (p', ack', gs') \<and> ack_ready ack'"
  using assms(2,3)
proof (induction "m_maxBit p - m_curBit p" arbitrary: p ack gs rule: less_induct)
  case less
  show ?case
  proof (cases "IsAtEnd p")
    case True
    then show ?thesis using less.prems by (subst clone_messages.simps) simp
  next
    case False
    obtain ty p1 where 1: "Read (IsLengthHack env) 3 p = Some (ty, p1)" "mb_wf p1" "m_maxBit p1 = m_maxBit p" "m_curBit p < m_curBit p1"
      using Read_step[OF less.prems(1), of 3 "IsLengthHack env"] by auto
    show ?thesis
    proof (cases "ty = 0 \<or> ty = 7")
      case True
      then show ?thesis using False 1 less.prems by (subst clone_messages.simps) auto
    next
      case nz: False
      obtain p2 ack2 gs2 where 2: "clone_message env reg now c ty (p1, ack, gs) = Some (p2, ack2, gs2)" "mb_wf p2" "m_maxBit p2 = m_maxBit p1"
        "m_curBit p1 < m_curBit p2" "ack_ready ack2"
        using clone_message_step[OF assms(1) 1(2) less.prems(2)] by blast
      have "m_maxBit p2 - m_curBit p2 < m_maxBit p - m_curBit p" using False 1(3,4) 2(3,4) by (simp add: IsAtEnd_def)
      from less.hyps[OF this 2(2,5)] show ?thesis using False 1 2(1) nz by (subst clone_messages.simps) auto
    qed
  qed
qed

text \<open>What the packet of a client leaves in its buffer.\<close>

lemma ParseClonePacket_step:
  assumes "bounded env" "8 * length packet < 2 ^ 31" "ack_ready (ackBuffer (data_of gs c))"
  shows "\<exists>gs'. ParseClonePacket env reg now c packet gs = Some gs' \<and> ack_ready (ackBuffer (data_of gs' c)) \<and> m_curBit (ackBuffer (data_of gs' c)) = 0"
proof -
  have "mb_wf (mb_of_data packet)" by (rule mb_wf_of_data[OF assms(2)])
  from clone_messages_step[OF assms(1) this assms(3)] obtain p ack gs1 where
    1: "clone_messages env reg now c (mb_of_data packet, ackBuffer (data_of gs c), gs) = Some (p, ack, gs1)" "ack_ready ack" by blast
  then have ack: "mb_wok ack" "m_maxBit ack = 8 * 16384" "m_curBit ack \<le> 8 * (1100 - 12 - 12)" by (simp_all add: ack_ready_def)
  obtain f b where b: "prepare c (ack, gs1) = (f, b, gs1)" "mb_wok b" "m_maxBit b = m_maxBit ack" "m_curBit b \<le> m_curBit ack"
    using prepare_step[OF ack(1)] by blast
  obtain b' gs2 where "FlushBuffer env ''msgPackedAcks'' f c (b, gs1) = Some (b', gs2)" "ack_ready b'" "m_curBit b' = 0"
    using FlushBuffer_step[of b env "''msgPackedAcks''" f c gs1] b ack by auto
  then show ?thesis using 1 b by (simp add: ParseClonePacket_def change_data_def)
qed

lemma ack_messages_step: "mb_wf p \<Longrightarrow> \<exists>p' gs'. ack_messages env reg c (p, gs) = Some (p', gs')"
proof (induction "m_maxBit p - m_curBit p" arbitrary: p gs rule: less_induct)
  case less
  show ?case
  proof (cases "IsAtEnd p")
    case True
    then show ?thesis by (subst ack_messages.simps) simp
  next
    case False
    obtain ty p1 where 1: "Read (IsLengthHack env) 3 p = Some (ty, p1)" "mb_wf p1" "m_maxBit p1 = m_maxBit p" "m_curBit p < m_curBit p1"
      using Read_step[OF less.prems, of 3 "IsLengthHack env"] by auto
    show ?thesis
    proof (cases "ty \<noteq> 1 \<and> ty \<noteq> 3")
      case True
      then show ?thesis using False 1 by (subst ack_messages.simps) auto
    next
      case ty: False
      obtain i p2 where 2: "Read16 env 13 p1 = Some (i, p2)" "mb_wf p2" "m_maxBit p2 = m_maxBit p" "m_curBit p < m_curBit p2"
        using Read16_step[OF 1(2), of 13 env] 1 by auto
      obtain u p3 where 3: "Read16 env 16 p2 = Some (u, p3)" "mb_wf p3" "m_maxBit p3 = m_maxBit p" "m_curBit p < m_curBit p3"
        using Read16_step[OF 2(2), of 16 env] 2 by auto
      have "m_maxBit p3 - m_curBit p3 < m_maxBit p - m_curBit p" using False 3(3,4) by (simp add: IsAtEnd_def)
      from less.hyps[OF this 3(2)] show ?thesis using False 1(1) 2(1) 3(1) ty by (subst ack_messages.simps) auto
    qed
  qed
qed

lemma ParseAckPacket_step: "8 * length packet < 2 ^ 31 \<Longrightarrow> \<exists>gs'. ParseAckPacket env reg c packet gs = Some gs'"
  using ack_messages_step[OF mb_wf_of_data, of packet env reg c gs] by (auto simp: ParseAckPacket_def)

end
