(* ===== verification/Sync_Ownership.thy ===== *)
theory Sync_Ownership
  imports Sync_Acks
begin

text \<open>
  Who may change an entity: the packets of a client leave the entities of others alone, and a client that leaves owns nothing any
  more.
\<close>

section \<open>Frames of the operations\<close>

lemma entities_change_other [simp]: "a \<noteq> b \<Longrightarrow> entities (change_entity b f gs) a = entities gs a"
  by (simp add: change_entity_def)

lemma entities_frame [simp]: "entities (change_data c g gs) = entities gs" "entities (call x gs) = entities gs" "entities (change_ids h gs) = entities gs"
  "entities (force_resend reg e gs) = entities gs"
  by (simp_all add: change_data_def call_def change_ids_def force_resend_def)

lemma Reassign_other:
  assumes "\<And>b e. GetEntity h gs = Some (b, e) \<Longrightarrow> b \<noteq> a"
  shows "entities (ReassignEntity reg now h t gs) a = entities gs a"
proof (cases "GetEntity h gs")
  case (Some p)
  then obtain b e where p: "p = (b, e)" by (cases p)
  then have "a \<noteq> b" using assms Some by blast
  then show ?thesis using Some p by (simp add: ReassignEntity_def Let_def split: option.split)
qed (simp add: ReassignEntity_def)

lemma RemoveClone_other: "m_entitiesById gs i \<noteq> Some a \<Longrightarrow> entities (RemoveClone i gs) a = entities gs a"
  by (auto simp: RemoveClone_def split: option.split)

section \<open>Packets of a client\<close>

text \<open>An entity of somebody else, which has not been the client's during the last second.\<close>

definition foreign :: "registry \<Rightarrow> int \<Rightarrow> nat \<Rightarrow> 't entity \<Rightarrow> bool" where
  "foreign reg now c e \<longleftrightarrow> (\<exists>owner. GetClient reg e = Some owner \<and> GetNetId reg owner \<noteq> GetNetId reg c) \<and>
     (GetLastOwner reg e \<noteq> Some c \<or> now - lastMigratedAt e > 1000)"

text \<open>Nothing but the bits of the client's slot that say that the entity is relevant to it.\<close>

definition only_relevance :: "nat \<Rightarrow> 't entity \<Rightarrow> 't entity \<Rightarrow> bool" where
  "only_relevance s e e' \<longleftrightarrow> e' = e\<lparr>relevantTo := relevantTo e', outOfScopeFor := outOfScopeFor e'\<rparr> \<and>
     relevantTo e' \<in> {relevantTo e, insert s (relevantTo e)} \<and> outOfScopeFor e' \<in> {outOfScopeFor e, outOfScopeFor e - {s}}"

lemma only_relevance_refl: "only_relevance s e e"
  by (simp add: only_relevance_def)

lemma only_relevance_add: "only_relevance s e e' \<Longrightarrow> only_relevance s e (e'\<lparr>relevantTo := insert s (relevantTo e'), outOfScopeFor := outOfScopeFor e' - {s}\<rparr>)"
  by (auto simp: only_relevance_def)

lemma only_relevance_foreign: "only_relevance s e e' \<Longrightarrow> foreign reg now c e' = foreign reg now c e"
proof -
  assume "only_relevance s e e'"
  then have "e' = e\<lparr>relevantTo := relevantTo e', outOfScopeFor := outOfScopeFor e'\<rparr>" by (simp add: only_relevance_def)
  from arg_cong[OF this, of e_client] arg_cong[OF this, of e_lastOwner] arg_cong[OF this, of lastMigratedAt]
  show ?thesis by (simp add: foreign_def GetClient_def GetLastOwner_def)
qed

text \<open>The entity \<open>a\<close> in a state, against what it was; \<open>s\<close> is the slot of the client.\<close>

definition intact :: "nat \<Rightarrow> nat \<Rightarrow> 't entity \<Rightarrow> 't game_state \<Rightarrow> bool" where
  "intact s a e gs \<longleftrightarrow> (\<exists>e'. entities gs a = Some e' \<and> only_relevance s e e')"

lemma intact_cong: "entities gs' a = entities gs a \<Longrightarrow> intact s a e gs \<Longrightarrow> intact s a e gs'"
  by (simp add: intact_def)

lemma intact_known: "intact s a e gs \<Longrightarrow> known gs a \<noteq> None"
  by (auto simp: intact_def known_def)

lemma intact_guard:
  assumes "intact s a e gs" "foreign reg now c e" "s = unat (GetSlotId reg c)"
  shows "intact s a e (snd (clone_guard reg now c u ts b gs)) \<and> (fst (clone_guard reg now c u ts b gs) \<longrightarrow> b \<noteq> a)"
proof (cases "b = a")
  case True
  obtain e' where e: "entities gs a = Some e'" "only_relevance s e e'" using assms(1) by (auto simp: intact_def)
  then have f: "foreign reg now c e'" using only_relevance_foreign assms(2) by blast
  let ?g = "change_entity a (\<lambda>e. e\<lparr>relevantTo := insert s (relevantTo e), outOfScopeFor := outOfScopeFor e - {s}\<rparr>) gs"
  have "intact s a e ?g" using e only_relevance_add by (auto simp: intact_def change_entity_def)
  moreover have "clone_guard reg now c u ts a gs \<in> {(False, gs), (False, ?g)}"
    using e(1) f assms(3) by (auto simp: clone_guard_def foreign_def Let_def split: option.split)
  ultimately show ?thesis using True assms(1) by auto
next
  case False
  have "entities (snd (clone_guard reg now c u ts b gs)) a = entities gs a"
    using False by (simp add: clone_guard_def Let_def split: option.split)
  then show ?thesis using False intact_cong assms(1) by blast
qed

lemma entities_clone_apply: "b \<noteq> a \<Longrightarrow> entities (clone_apply env now t ts bs b gs) a = entities gs a"
  by (simp add: clone_apply_def Let_def)

lemma entities_clone_player: "entities (clone_player c b gs) = entities gs"
  by (simp add: clone_player_def Let_def split: option.split)

lemma entities_add_bag: "entities (add_bag_target b slot gs) = entities gs"
  by (simp add: add_bag_target_def split: option.split)

lemma entities_startDelete:
  assumes "entities gs b = Some e" "m_entitiesById gs (e_handle e) \<noteq> Some a"
  shows "entities (startDelete c k b gs) a = entities gs a"
  using assms RemoveClone_other by (simp add: startDelete_def)

lemma entities_clone_created:
  assumes "unregistered gs b i" "b \<noteq> a" "known gs a \<noteq> None"
  shows "entities (snd (clone_created env c i u b gs)) a = entities gs a"
proof -
  define gs1 where "gs1 = change_entity b (\<lambda>e. e\<lparr>passedFilter := (passedFilter e \<or> e_type e = Player),
             creationToken := (if entityCreationList gs (creationToken e) = None then 0 else creationToken e)\<rparr>) gs"
  have same: "entities gs1 a = entities gs a" using assms(2) by (simp add: gs1_def)
  obtain e where e: "entities gs1 b = Some e" "e_handle e = i" using assms(1) by (auto simp: gs1_def change_entity_def unregistered_def known_entity)
  have i: "m_entitiesById (gs1\<lparr>entityCreationList := l\<rparr>) (e_handle e) \<noteq> Some a" "m_entitiesById gs1 (e_handle e) \<noteq> Some a" for l
    using assms(1,3) e(2) by (auto simp: gs1_def unregistered_def)
  have "entities (startDelete c k b (gs1\<lparr>entityCreationList := l\<rparr>)) a = entities gs a" "entities (startDelete c k b gs1) a = entities gs a" for k l
    using entities_startDelete[OF _ i(1)] entities_startDelete[OF _ i(2)] e(1) same by simp_all
  then show ?thesis using same e(1) by (auto simp: clone_created_def Let_def simp flip: gs1_def)
qed

lemma game_ok_fresh: "game_ok gs \<Longrightarrow> entities gs a = Some e \<Longrightarrow> a < next_entity gs"
  using ok_fresh[of "m_objectIdsUsed (ids gs)" gs a] by (fastforce simp: game_ok_def known_def not_less[symmetric])

lemma intact_clone_update:
  assumes "game_ok gs" "intact s a e gs" "foreign reg now c e" "s = unat (GetSlotId reg c)" "i < 2 ^ 16"
  shows "intact s a e (snd (clone_update env reg now c t i u token type bs gs))"
proof (cases "clone_entity env now c (t = 1) i u token type gs")
  case None
  then show ?thesis using assms(2) by (simp add: clone_update_def Let_def)
next
  case (Some p)
  obtain b gs1 where p: "p = (b, gs1)" by (cases p)
  have "\<not> next_entity gs = a" using game_ok_fresh[OF assms(1)] assms(2) by (auto simp: intact_def)
  then have "entities gs1 a = entities gs a" using Some p by (auto simp: clone_entity_def Let_def split: if_splits option.splits prod.splits)
  then have 1: "intact s a e gs1" by (rule intact_cong) (rule assms(2))
  have ok: "entities_ok (m_objectIdsUsed (ids gs)) gs" using assms(1) by (simp add: game_ok_def)
  have un: "t = 1 \<Longrightarrow> unregistered gs1 b i" using entities_ok_clone_entity[OF ok assms(5) Some[unfolded p]] by simp
  define ts where "ts = syncTs (data_of gs c)"
  obtain g gs2 where g: "clone_guard reg now c u ts b gs1 = (g, gs2)" by (cases "clone_guard reg now c u ts b gs1")
  have 2: "intact s a e gs2" "g \<Longrightarrow> b \<noteq> a" using intact_guard[OF 1 assms(3,4), of u ts b] g by simp_all
  define gs3 where "gs3 = clone_player c b (clone_apply env now t ts bs b gs2)"
  show ?thesis
  proof (cases g)
    case True
    then have b: "b \<noteq> a" using 2 by simp
    have e3: "entities gs3 a = entities gs2 a" using b by (simp add: gs3_def entities_clone_player entities_clone_apply)
    then have 3: "intact s a e gs3" using 2(1) intact_cong by blast
    have "same_used gs1 gs3" using same_used_clone_guard[of gs1 reg now c u ts b] g same_used_trans[OF same_used_trans[OF _ same_used_clone_apply] same_used_clone_player]
      by (simp add: gs3_def)
    then have un3: "t = 1 \<Longrightarrow> unregistered gs3 b i" using un unregistered_same by blast
    have "entities (snd (clone_created env c i u b gs3)) a = entities gs3 a" if "t = 1"
      using entities_clone_created[OF un3[OF that] b intact_known[OF 3]] .
    then have "entities (snd (clone_update env reg now c t i u token type bs gs)) a = entities gs3 a"
      using Some p g True unfolding ts_def gs3_def
      by (simp add: clone_update_def Let_def case_prod_beta entities_add_bag)
    then show ?thesis using 3 intact_cong by blast
  next
    case False
    then show ?thesis using Some p g 2(1) unfolding ts_def by (simp add: clone_update_def Let_def)
  qed
qed

lemma intact_take_over:
  assumes "game_ok gs" "intact s a e gs" "foreign reg now c e"
  shows "intact s a e (take_over reg now' c cl i gs)"
proof (cases "GetEntity i gs")
  case (Some p)
  obtain b eb where p: "p = (b, eb)" by (cases p)
  show ?thesis
  proof (cases "b = a")
    case True
    then have "entities gs a = Some eb" using Some p by (simp add: GetEntity_iff)
    then have "foreign reg now c eb" using assms(2,3) only_relevance_foreign[of s e eb] by (auto simp: intact_def)
    then have "take_over reg now' c cl i gs = gs" using Some p by (auto simp: take_over_def foreign_def split: option.split)
    then show ?thesis using assms(2) by simp
  next
    case False
    have "e_handle eb = i" using game_found[OF assms(1)] Some p by simp
    then have "entities (ReassignEntity reg now' (e_handle eb) t gs) a = entities gs a" for t
      using Reassign_other[of i gs a] False Some p by simp
    then have "entities (take_over reg now' c cl i gs) a = entities gs a" using Some p by (simp add: take_over_def split: option.split)
    then show ?thesis using assms(2) intact_cong by blast
  qed
qed (simp add: take_over_def assms(2))

lemma intact_remove_owned:
  assumes "intact s a e gs" "foreign reg now c e"
  shows "intact s a e (remove_owned reg c i u gs)"
proof (cases "GetEntity i gs")
  case (Some p)
  obtain b eb where p: "p = (b, eb)" by (cases p)
  show ?thesis
  proof (cases "b = a")
    case True
    then have "entities gs a = Some eb" using Some p by (simp add: GetEntity_iff)
    then have "foreign reg now c eb" using assms only_relevance_foreign[of s e eb] by (auto simp: intact_def)
    then have "remove_owned reg c i u gs = gs" using Some p by (auto simp: remove_owned_def foreign_def split: option.split)
    then show ?thesis using assms(1) by simp
  next
    case False
    have "entities (RemoveClone i gs) a = entities gs a" using RemoveClone_other[of gs i a] False Some p by (auto simp: GetEntity_iff)
    then have "entities (remove_owned reg c i u gs) a = entities gs a" using Some p by (simp add: remove_owned_def split: option.split)
    then show ?thesis using assms(1) intact_cong by blast
  qed
qed (simp add: remove_owned_def assms(1))

lemma entities_send_ack: "send_ack env c fs (ack, gs) = Some (ack', gs') \<Longrightarrow> entities gs' = entities gs"
  by (auto simp: send_ack_def flush_ack_def prepare_def Let_def MaybeFlushBuffer_def FlushBuffer_def split: if_splits bind_splits)

lemma intact_clone_message:
  assumes "game_ok gs" "intact s a e gs" "foreign reg now c e" "s = unat (GetSlotId reg c)"
    "clone_message env reg now c ty (p, ack, gs) = Some (p', ack', gs')"
  shows "intact s a e gs'"
  using assms(5)
proof (cases rule: clone_message_cases)
  case 1
  then show ?thesis
  proof (cases rule: ProcessCloneCreate_cases)
    case (1 ok i u p1 gs1)
    from ProcessClonePacket_update[OF 1(1)] obtain token type bs where "clone_update env reg now c 1 (unat i) u token type bs gs = (ok, gs1)" by blast
    then have "intact s a e gs1" using intact_clone_update[OF assms(1-4) unat_u16, of env 1 i u token type bs] by simp
    moreover have "entities gs' = entities gs1" using entities_send_ack[OF 1(2)] by (simp split: if_splits)
    ultimately show ?thesis using intact_cong by metis
  qed
next
  case 2
  then show ?thesis
  proof (cases rule: ProcessCloneSync_cases)
    case (1 ok i u p1 gs1)
    from ProcessClonePacket_update[OF 1(1)] obtain token type bs where "clone_update env reg now c 2 (unat i) u token type bs gs = (ok, gs1)" by blast
    then have "intact s a e gs1" using intact_clone_update[OF assms(1-4) unat_u16, of env 2 i u token type bs] by simp
    then show ?thesis using entities_send_ack[OF 1(2)] intact_cong by metis
  qed
next
  case 3
  then show ?thesis
  proof (cases rule: ProcessCloneRemove_cases)
    case (1 i u gs1)
    have "intact s a e gs1" using assms(2) entities_send_ack[OF 1(1)] intact_cong by metis
    then show ?thesis unfolding 1(2) using intact_remove_owned assms(3) by blast
  qed
next
  case 4
  then show ?thesis by (cases rule: ProcessCloneTakeover_cases) (simp add: intact_take_over[OF assms(1-3)])
next
  case 5
  then show ?thesis
  proof (cases rule: set_timestamp_cases)
    case (1 newTs gs1)
    have "entities gs' = entities gs1" using 1(2) by auto
    then show ?thesis using assms(2) entities_send_ack[OF 1(1)] intact_cong by metis
  qed
next
  case 6
  then show ?thesis by (cases rule: set_index_cases) (simp add: intact_cong[OF _ assms(2)])
qed

text \<open>C9: A packet of a client, whatever it says, leaves every entity that another client owns as it is, except that it may become relevant to
  the sender, unless the sender was its last owner and it changed hands within the last second.\<close>

theorem packet_spares_foreign_entities:
  assumes "roomy_reachable env (reg, gs)" "ParseClonePacket env reg now c packet gs = Some gs'" "entities gs a = Some e" "foreign reg now c e"
  shows "\<exists>e'. entities gs' a = Some e' \<and> only_relevance (unat (GetSlotId reg c)) e e'"
proof -
  let ?s = "unat (GetSlotId reg c)"
  have ok: "game_ok gs" using game_ok_reachable[OF assms(1)] by simp
  obtain p ack gs1 ack2 gs2 f where 1: "clone_messages env reg now c (mb_of_data packet, ackBuffer (data_of gs c), gs) = Some (p, ack, gs1)"
    "FlushBuffer env ''msgPackedAcks'' (fst (prepare c (ack, gs1))) c (snd (prepare c (ack, gs1))) = Some (ack2, gs2)"
    "gs' = change_data c f gs2"
    using assms(2) by (auto simp: ParseClonePacket_def Let_def split: bind_splits)
  have "game_ok (snd (snd (p, ack, gs1))) \<and> intact ?s a e (snd (snd (p, ack, gs1)))"
  proof (rule clone_messages_invariant[where P = "\<lambda>r. game_ok (snd r) \<and> intact ?s a e (snd r)", OF 1(1)])
    show "game_ok (snd (snd (mb_of_data packet, ackBuffer (data_of gs c), gs))) \<and> intact ?s a e (snd (snd (mb_of_data packet, ackBuffer (data_of gs c), gs)))"
      using ok assms(3) by (auto simp: intact_def intro: only_relevance_refl)
    fix ty p ack gs and r1 :: "'a clone_state"
    assume "game_ok (snd (ack, gs)) \<and> intact ?s a e (snd (ack, gs))" "clone_message env reg now c ty (p, ack, gs) = Some r1"
    then show "game_ok (snd (snd r1)) \<and> intact ?s a e (snd (snd r1))"
      using game_ok_clone_message intact_clone_message[OF _ _ assms(4) refl] by (cases r1) auto
  qed
  moreover have "entities gs' = entities gs1" using 1(2,3) by (auto simp: prepare_def Let_def FlushBuffer_def split: if_splits bind_splits)
  ultimately obtain e' where e': "entities gs' a = Some e'" "only_relevance ?s e e'" by (auto simp: intact_def)
  then show ?thesis by blast
qed

text \<open>Two clients; the entity of the sample belongs to the first. The second says that it is removed.\<close>

definition two_clients :: registry where
  "two_clients = snd (MakeClient [2] sample_joined)"

definition sample_owned :: "unit game_state" where
  "sample_owned = ReassignEntity two_clients 5 8191 (Some 0) sample_created"

lemma two_clients_values: "alive two_clients 0" "alive two_clients 1" "GetNetId two_clients 0 = 1" "GetNetId two_clients 1 = 0xFFFF"
    "GetSlotId two_clients 0 = 128" "GetSlotId two_clients 1 = - 1"
  by code_simp+

lemma sample_owned_roomy: "roomy_reachable sample_sync_env (two_clients, sample_owned)"
proof -
  have "registry_reachable (server sample_sync_env) two_clients" unfolding two_clients_def
    by (rule registry_reachable.step[OF _ registry_step.make]) (simp add: sample_joined_reachable sample_sync_env_def)
  from roomy_step[OF registry_roomy_reachable[OF this] sync_step.create] have "roomy_reachable sample_sync_env (two_clients, sample_created)"
    unfolding sample_created_def by (simp add: room_start)
  from roomy_step[OF this sync_step.reassign] show ?thesis unfolding sample_owned_def using two_clients_values(1) sample_room by auto
qed

lemmas sample_owned_reachable = roomy_sync_reachable[OF sample_owned_roomy]

definition sample_owned_entity :: "unit entity" where
  "sample_owned_entity = sample_entity\<lparr>e_client := Some 0, e_lastOwner := None, lastMigratedAt := 5\<rparr>"

lemma sample_owned_value: "entities sample_owned 0 = Some sample_owned_entity" "GetEntity 8191 sample_owned = Some (0, sample_owned_entity)"
  "m_entityList sample_owned = [0]" "c_objectIds (data_of sample_owned 0) = {8191}" "ackBuffer (data_of sample_owned 1) = mb_of_size 16384"
  by (simp_all add: sample_owned_def sample_created_value sample_owned_entity_def ReassignEntity_def GetEntity_def Let_def change_entity_def
      change_data_def change_ids_def force_resend_def sample_entity_def blank_entity_def Ped_def Player_def lock_def new_game_state_def new_client_data_def MaxObjectId_def)

lemma sample_bounded: "bounded sample_sync_env"
  by (simp add: bounded_def sample_sync_env_def)

text \<open>The second client connects too and has the slot 127.\<close>

definition two_connected :: registry where
  "two_connected = (SetNetId sample_env 1 2 two_clients)\<lparr>m_curNetId := 3\<rparr>"

definition two_players :: registry where
  "two_players = SetPeer sample_env 1 9 two_connected"

lemma two_players_values: "\<not> id_taken two_clients 2" "m_curNetId two_clients = 2" "alive two_connected 1"
    "alive two_players 0" "GetNetId two_players 0 = 1" "GetNetId two_players 1 = 2" "GetSlotId two_players 1 = 127"
  by code_simp+

lemma second_connects: "HandleConnectingClient sample_env 1 two_clients = Some two_connected"
  using free_id.simps[of "id_taken two_clients" 2] two_players_values(1,2)
  by (simp add: HandleConnectingClient_def two_connected_def incrementId_def)

lemma sample_owned_room: "room sample_sync_env sample_owned"
proof -
  have "m_objectIdsSent (ids sample_owned) = m_objectIdsSent (ids sample_created)"
    by (simp add: sample_owned_def ReassignEntity_def change_ids_def force_resend_def call_def change_data_def change_entity_def Let_def split: option.split prod.split)
  moreover have "m_objectIdsUsed (ids sample_owned) = m_objectIdsUsed (ids sample_created)"
    using same_used_ReassignEntity[of sample_created two_clients 5 8191 "Some 0"] by (simp add: sample_owned_def same_used_def)
  ultimately show ?thesis using sample_room by (simp add: room_def id_free_def)
qed

lemma two_players_reachable: "roomy_reachable sample_sync_env (two_players, sample_owned)"
proof -
  have env: "server sample_sync_env = sample_env" by (simp add: sample_sync_env_def)
  have "registry_step (server sample_sync_env) two_clients two_connected" unfolding env
    by (rule registry_step.connecting[OF two_clients_values(2) second_connects])
  from roomy_step[OF sample_owned_roomy sync_step.clients[OF this]] sample_owned_room
  have r: "roomy_reachable sample_sync_env (two_connected, sample_owned)" by simp
  have "registry_step (server sample_sync_env) two_connected two_players" unfolding env two_players_def
    by (rule registry_step.peer) (rule two_players_values(3))
  from roomy_step[OF r sync_step.clients[OF this]] sample_owned_room show ?thesis by simp
qed

lemma packet_spares_foreign_entities_witness:
  "\<exists>gs' e'. ParseClonePacket sample_sync_env two_players 9 1 [0x7F, 0xFF, 0, 7] sample_owned = Some gs' \<and>
     entities gs' 0 = Some e' \<and> only_relevance 127 sample_owned_entity e'"
proof -
  obtain gs' where p: "ParseClonePacket sample_sync_env two_players 9 1 [0x7F, 0xFF, 0, 7] sample_owned = Some gs'"
    using ParseClonePacket_step[OF sample_bounded, of "[0x7F, 0xFF, 0, 7]" sample_owned 1 two_players 9] sample_owned_value(5) ack_ready_new by auto
  have "foreign two_players 9 1 sample_owned_entity"
    using two_players_values by (simp add: foreign_def GetClient_def GetLastOwner_def lock_def sample_owned_entity_def)
  from packet_spares_foreign_entities[OF two_players_reachable p sample_owned_value(1) this] p two_players_values(7) show ?thesis by auto
qed

section \<open>A client leaves\<close>

lemma nearest_member: "nearest ps = Some c \<Longrightarrow> c \<in> snd ` set ps"
proof -
  have member: "foldl (\<lambda>p q. if nearer q p then q else p) p ps \<in> set (p # ps)" for p ps
    by (induction ps arbitrary: p) force+
  assume n: "nearest ps = Some c"
  then obtain p qs where ps: "ps = p # qs" by (cases ps) (auto simp: nearest_def)
  then have "c = snd (foldl (\<lambda>p q. if nearer q p then q else p) p qs)" using n by (simp add: nearest_def)
  then show ?thesis using member[of p qs] ps by blast
qed

lemma candidate_other: "c \<in> set (candidates env reg gs e (Some client)) \<Longrightarrow> c \<noteq> client"
  by (auto simp: candidates_def dest: in_set_takeD split: if_splits)

lemma candidates_Player: "e_type e = Player \<Longrightarrow> candidates env reg gs e client = []"
  by (simp add: candidates_def)

lemma Reassign_self:
  assumes "GetEntity h gs = Some (a, e)" "e_type e \<noteq> Player"
  shows "entities (ReassignEntity reg now h t gs) a = Some (e\<lparr>lastMigratedAt := now, e_lastOwner := lock reg (e_client e), e_client := t\<rparr>)"
proof -
  have "entities gs a = Some e" using assms(1) by (simp add: GetEntity_iff)
  then show ?thesis using assms by (simp add: ReassignEntity_def Let_def split: option.split) (simp add: change_entity_def)
qed

lemma lock_value: "lock reg t = t \<or> lock reg t = None"
  by (auto simp: lock_def split: option.split)

lemma by_id_Reassign: "m_entitiesById (ReassignEntity reg now h t gs) = m_entitiesById gs"
  using same_used_ReassignEntity[of gs reg now h t] by (simp add: same_used_def same_entities_def)

text \<open>What becomes of an entity in the loop: somebody else has it or nobody, or it is put on the list of those to erase.\<close>

definition released :: "registry \<Rightarrow> nat \<Rightarrow> u32 \<Rightarrow> nat \<Rightarrow> nat list \<times> 't game_state \<Rightarrow> bool" where
  "released reg client slotId a r \<longleftrightarrow> (\<exists>e. entities (snd r) a = Some e \<and> (slotId \<noteq> - 1 \<longrightarrow> unat slotId \<notin> relevantTo e) \<and>
     (GetClient reg e \<noteq> Some client \<or> e_handle e \<in> set (fst r)) \<and> m_entitiesById (snd r) (e_handle e) = Some a)"

lemma released_Reassign:
  assumes "GetEntity (e_handle e) gs = Some (a, e)" "e_type e \<noteq> Player" "t \<noteq> Some client" "slotId \<noteq> - 1 \<longrightarrow> unat slotId \<notin> relevantTo e"
  shows "released reg client slotId a (er, ReassignEntity reg now (e_handle e) t gs)"
  using Reassign_self[OF assms(1,2), of reg now t] assms lock_value[of reg t]
  by (auto simp: released_def GetClient_def by_id_Reassign GetEntity_iff)

text \<open>A player is not of a script.\<close>

definition droppable :: "'t sync_env \<Rightarrow> 't entity \<Rightarrow> bool" where
  "droppable env e \<longleftrightarrow> syncTree e \<noteq> None \<and> (e_type e = Player \<longrightarrow> GetScriptHash env e = 0)"

lemma moved_or_not:
  assumes "entities gs a = Some e" "GetEntity (e_handle e) gs = Some (a, e)" "droppable env e" "slotId \<noteq> - 1 \<longrightarrow> unat slotId \<notin> relevantTo e"
  shows "(case MoveEntityToCandidate env reg now a (Some client) gs of (moved, gs') \<Rightarrow>
    if moved then released reg client slotId a (er, gs') else gs' = gs)"
proof -
  have server: "IsOwnedByServerScript env e \<Longrightarrow> e_type e \<noteq> Player" using assms(3) by (auto simp: droppable_def IsOwnedByServerScript_def)
  let ?n = "nearest (map (\<lambda>c. (Option.bind (player_tree gs c) (FocusDistance env (syncTree e)), c)) (candidates env reg gs e (Some client)))"
  have near: "c \<noteq> client \<and> e_type e \<noteq> Player" if "?n = Some c" for c
  proof -
    have "c \<in> set (candidates env reg gs e (Some client))" using nearest_member[OF that] by auto
    then show ?thesis using candidate_other[of c env reg gs e client] candidates_Player[of e env reg gs "Some client"] by auto
  qed
  have keep: "GetClient reg e \<noteq> Some client \<Longrightarrow> released reg client slotId a (er, gs)"
    using assms by (auto simp: released_def GetEntity_iff)
  show ?thesis
    using assms(1) keep near released_Reassign[OF assms(2) _ _ assms(4)] server
    by (auto simp: MoveEntityToCandidate_def Let_def split: option.splits)
qed

text \<open>The loop body, with what it first does to the entity named.\<close>

definition mark_dropped :: "registry \<Rightarrow> nat \<Rightarrow> u32 \<Rightarrow> 't entity \<Rightarrow> 't entity" where
  "mark_dropped reg client slotId e =
     (let e = (case GetFirstOwner reg e of
                 Some c \<Rightarrow> if GetNetId reg c = GetNetId reg client then e\<lparr>firstOwnerDropped := True\<rparr> else e
               | None \<Rightarrow> e)
      in if slotId \<noteq> - 1
         then e\<lparr>relevantTo := relevantTo e - {unat slotId}, deletedFor := deletedFor e - {unat slotId}, outOfScopeFor := outOfScopeFor e - {unat slotId},
                lastFramesSent := (lastFramesSent e)(unat slotId := 0)\<rparr>
         else e)"

lemma mark_dropped_fields:
  "e_handle (mark_dropped reg client slotId e) = e_handle e" "e_type (mark_dropped reg client slotId e) = e_type e"
  "syncTree (mark_dropped reg client slotId e) = syncTree e" "GetScriptHash env (mark_dropped reg client slotId e) = GetScriptHash env e"
  "slotId \<noteq> - 1 \<longrightarrow> unat slotId \<notin> relevantTo (mark_dropped reg client slotId e)"
  "\<not> firstOwnerDropped (mark_dropped reg client slotId e) \<Longrightarrow> GetFirstOwner reg e \<noteq> Some client"
  by (auto simp: mark_dropped_def GetScriptHash_def Let_def split: option.split if_splits)

lemma drop_entity_value:
  assumes "entities gs a = Some e" "syncTree e = Some t"
    "MoveEntityToCandidate env reg now a (Some client) (change_entity a (\<lambda>_. mark_dropped reg client slotId e) gs) = (moved, gs2)"
  shows "drop_entity env reg now client slotId (er, gs) a =
      (if moved then (er, gs2)
       else if IsOwnedByClientScript env (mark_dropped reg client slotId e) \<and> \<not> firstOwnerDropped (mark_dropped reg client slotId e)
       then (er, ReassignEntity reg now (e_handle e) (GetFirstOwner reg e) gs2)
       else (er @ [e_handle e], gs2))"
  using assms unfolding drop_entity_def mark_dropped_def Let_def by (simp del: if_split) (simp split: option.split)

lemma released_drop_self:
  assumes "game_ok gs" "a \<in> set (m_entityList gs)" "entities gs a = Some e" "droppable env e"
  shows "released reg client slotId a (drop_entity env reg now client slotId (er, gs) a)"
proof -
  obtain t where t: "syncTree e = Some t" using assms(4) by (auto simp: droppable_def)
  define e2 where "e2 = mark_dropped reg client slotId e"
  define gs1 where "gs1 = change_entity a (\<lambda>_. e2) gs"
  have e2: "e_handle e2 = e_handle e" "e_type e2 = e_type e" "GetScriptHash env e2 = GetScriptHash env e" "syncTree e2 = syncTree e"
    "slotId \<noteq> - 1 \<longrightarrow> unat slotId \<notin> relevantTo e2" and first: "\<not> firstOwnerDropped e2 \<Longrightarrow> GetFirstOwner reg e \<noteq> Some client"
    unfolding e2_def by (simp_all add: mark_dropped_fields)
  have g1: "entities gs1 a = Some e2" "m_entitiesById gs1 = m_entitiesById gs" using assms(3) by (simp_all add: gs1_def change_entity_def)
  have get: "GetEntity (e_handle e2) gs1 = Some (a, e2)"
    by (rule game_listed[OF assms(1,2)]) (use assms(3) e2(1) g1 in \<open>simp add: GetEntity_iff\<close>)
  have d: "droppable env e2" using assms(4) e2 by (simp add: droppable_def)
  obtain moved gs2 where m: "MoveEntityToCandidate env reg now a (Some client) gs1 = (moved, gs2)"
    by (cases "MoveEntityToCandidate env reg now a (Some client) gs1")
  have drop: "drop_entity env reg now client slotId (er, gs) a =
      (if moved then (er, gs2)
       else if IsOwnedByClientScript env e2 \<and> \<not> firstOwnerDropped e2 then (er, ReassignEntity reg now (e_handle e2) (GetFirstOwner reg e) gs2)
       else (er @ [e_handle e2], gs2))"
    unfolding e2(1) unfolding e2_def by (rule drop_entity_value[OF assms(3) t]) (use m in \<open>simp add: gs1_def e2_def\<close>)
  have mv: "if moved then released reg client slotId a (er, gs2) else gs2 = gs1" using moved_or_not[OF g1(1) get d e2(5), where reg = reg and now = now and client = client and er = er] m by simp
  show ?thesis
  proof (cases moved)
    case False
    then have gs2: "gs2 = gs1" using mv by simp
    have "released reg client slotId a (er, ReassignEntity reg now (e_handle e2) (GetFirstOwner reg e) gs1)"
      if "IsOwnedByClientScript env e2" "\<not> firstOwnerDropped e2"
      using released_Reassign[OF get _ first[OF that(2)] e2(5)] d that(1) by (auto simp: droppable_def IsOwnedByClientScript_def)
    moreover have "released reg client slotId a (er @ [e_handle e2], gs1)"
      using g1 e2(5) get by (auto simp: released_def GetEntity_iff)
    ultimately show ?thesis by (simp add: drop False gs2)
  qed (use mv drop in simp)
qed

text \<open>The loop does not touch an entity again.\<close>

lemma Move_other:
  assumes "GetEntity (e_handle e) gs = Some (b, e)" "entities gs b = Some e" "b \<noteq> a"
  shows "entities (snd (MoveEntityToCandidate env reg now b client gs)) a = entities gs a"
  using assms Reassign_other[of "e_handle e" gs a]
  by (auto simp: MoveEntityToCandidate_def Let_def split: option.split)

lemma drop_entity_other:
  assumes "game_ok gs" "b \<in> set (m_entityList gs)" "b \<noteq> a"
  shows "entities (snd (drop_entity env reg now client slotId (er, gs) b)) a = entities gs a \<and>
    m_entitiesById (snd (drop_entity env reg now client slotId (er, gs) b)) = m_entitiesById gs \<and>
    set er \<subseteq> set (fst (drop_entity env reg now client slotId (er, gs) b))"
proof -
  obtain e where e: "entities gs b = Some e" "GetEntity (e_handle e) gs = Some (b, e)" using game_listed[OF assms(1,2)] by blast
  have byid: "m_entitiesById (snd (drop_entity env reg now client slotId (er, gs) b)) = m_entitiesById gs"
    using same_used_drop_entity[of "(er, gs)" env reg now client slotId b] by (simp add: same_used_def same_entities_def)
  have "entities (snd (drop_entity env reg now client slotId (er, gs) b)) a = entities gs a \<and>
    set er \<subseteq> set (fst (drop_entity env reg now client slotId (er, gs) b))"
  proof (cases "syncTree e")
    case (Some t)
    define e2 where "e2 = mark_dropped reg client slotId e"
    define gs1 where "gs1 = change_entity b (\<lambda>_. e2) gs"
    have h: "e_handle e2 = e_handle e" by (simp add: e2_def mark_dropped_fields)
    have g1: "entities gs1 b = Some e2" "GetEntity (e_handle e2) gs1 = Some (b, e2)" "entities gs1 a = entities gs a"
      using e h assms(3) by (auto simp: gs1_def GetEntity_iff) (simp_all add: change_entity_def)
    obtain moved gs2 where m: "MoveEntityToCandidate env reg now b (Some client) gs1 = (moved, gs2)"
      by (cases "MoveEntityToCandidate env reg now b (Some client) gs1")
    have 2: "entities gs2 a = entities gs a" using Move_other[OF g1(2,1) assms(3)] m g1(3) by (metis snd_conv)
    have drop: "drop_entity env reg now client slotId (er, gs) b =
        (if moved then (er, gs2)
         else if IsOwnedByClientScript env e2 \<and> \<not> firstOwnerDropped e2 then (er, ReassignEntity reg now (e_handle e2) (GetFirstOwner reg e) gs2)
         else (er @ [e_handle e2], gs2))"
      unfolding h unfolding e2_def by (rule drop_entity_value[OF e(1) Some]) (use m in \<open>simp add: gs1_def e2_def\<close>)
    have "m_entitiesById gs2 = m_entitiesById gs"
      using same_used_Move[of gs1 env reg now b "Some client"] m by (simp add: same_used_def same_entities_def gs1_def)
    then have "x \<noteq> a" if "GetEntity (e_handle e2) gs2 = Some (x, y)" for x y using that e(2) h assms(3) by (auto simp: GetEntity_iff)
    then have "entities (ReassignEntity reg now (e_handle e2) t' gs2) a = entities gs2 a" for t' by (rule Reassign_other)
    then show ?thesis using 2 by (auto simp: drop)
  qed (simp add: drop_entity_def e(1))
  then show ?thesis using byid by simp
qed

lemma released_cong:
  assumes "released reg client slotId a r" "entities (snd r') a = entities (snd r) a" "m_entitiesById (snd r') = m_entitiesById (snd r)"
    "set (fst r) \<subseteq> set (fst r')"
  shows "released reg client slotId a r'"
  using assms by (auto simp: released_def)

lemma released_all:
  assumes "game_ok (snd r)" "entities (snd r) a = Some e" "droppable env e" "a \<in> set as" "distinct as" "set as \<subseteq> set (m_entityList (snd r))"
  shows "released reg client slotId a (foldl (drop_entity env reg now client slotId) r as)"
  using assms
proof (induction "as" arbitrary: r)
  case (Cons b as)
  obtain er gs where r: "r = (er, gs)" by (cases r)
  let ?r = "drop_entity env reg now client slotId r b"
  have same: "same_used (snd r) (snd ?r)" by (rule same_used_drop_entity)
  then have ok: "game_ok (snd ?r)" "m_entityList (snd ?r) = m_entityList (snd r)" using Cons.prems(1) game_ok_cong by (auto simp: same_used_def same_entities_def)
  show ?case
  proof (cases "b = a")
    case True
    have keep: "released reg client slotId a (foldl (drop_entity env reg now client slotId) r as)"
      if "released reg client slotId a r" "game_ok (snd r)" "a \<notin> set as" "set as \<subseteq> set (m_entityList (snd r))" for r "as"
      using that
    proof (induction "as" arbitrary: r)
      case (Cons x xs)
      obtain er gs where r: "r = (er, gs)" by (cases r)
      have same: "same_used (snd r) (snd (drop_entity env reg now client slotId r x))" by (rule same_used_drop_entity)
      have "released reg client slotId a (drop_entity env reg now client slotId r x)"
        using released_cong[OF Cons.prems(1)] drop_entity_other[of gs x a env reg now client slotId er] Cons.prems(2-4) r by auto
      moreover have "game_ok (snd (drop_entity env reg now client slotId r x))" by (rule game_ok_cong[OF same Cons.prems(2)])
      ultimately show ?case using Cons.IH[of "drop_entity env reg now client slotId r x"] Cons.prems same by (simp add: same_used_def same_entities_def)
    qed simp
    have "released reg client slotId a ?r" using released_drop_self[of gs a e env reg client slotId now er] Cons.prems True r by auto
    then show ?thesis using keep[of ?r "as"] ok Cons.prems True by simp
  next
    case False
    then have "entities (snd ?r) a = Some e" using drop_entity_other[of gs b a env reg now client slotId er] Cons.prems r by simp
    then show ?thesis using Cons.IH[of ?r] ok Cons.prems False by simp
  qed
qed simp

text \<open>The entities of the list are deleted.\<close>

definition gone :: "registry \<Rightarrow> nat \<Rightarrow> u32 \<Rightarrow> nat \<Rightarrow> nat list \<Rightarrow> 't game_state \<Rightarrow> bool" where
  "gone reg client slotId a is gs \<longleftrightarrow> (\<exists>e. entities gs a = Some e \<and> (slotId \<noteq> - 1 \<longrightarrow> unat slotId \<notin> relevantTo e) \<and>
     (GetClient reg e \<noteq> Some client \<or> deleting e \<or> e_handle e \<in> set is) \<and> m_entitiesById gs (e_handle e) = Some a)"

lemma gone_RemoveClone: "gone reg client slotId a (i # is) gs \<Longrightarrow> gone reg client slotId a is (RemoveClone i gs)"
  by (auto simp: gone_def RemoveClone_def change_entity_def GetClient_def split: option.split)

lemma gone_all: "gone reg client slotId a is gs \<Longrightarrow> gone reg client slotId a [] (foldl (\<lambda>gs i. RemoveClone i gs) gs is)"
  by (induction "is" arbitrary: gs) (simp_all add: gone_RemoveClone)

lemma gone_clear: "gone reg client slotId a [] gs \<Longrightarrow> gone reg client slotId a [] (foldl (\<lambda>gs b. change_entity b (\<lambda>e. e\<lparr>syncTree := map_option f (syncTree e)\<rparr>) gs) gs as)"
proof (induction "as" arbitrary: gs)
  case (Cons b as)
  have "gone reg client slotId a [] (change_entity b (\<lambda>e. e\<lparr>syncTree := map_option f (syncTree e)\<rparr>) gs)"
    using Cons.prems by (auto simp: gone_def change_entity_def GetClient_def)
  then show ?case using Cons.IH by simp
qed simp

lemma gone_frame: "gone reg client slotId a is (change_ids h gs) = gone reg client slotId a is gs" "gone reg client slotId a is (change_data c f gs) = gone reg client slotId a is gs"
  by (simp_all add: gone_def change_ids_def change_data_def)

text \<open>Ids that no entity has stay with the client that was given them.\<close>

lemma GetEntity_same_used: "same_used gs gs' \<Longrightarrow> (GetEntity i gs' = None) = (GetEntity i gs = None)"
proof -
  assume same: "same_used gs gs'"
  have "entities g a = None \<longleftrightarrow> known g a = None" for g :: "'a game_state" and a by (simp add: known_def)
  then show ?thesis using same by (auto simp: GetEntity_def same_used_def same_entities_def split: option.split)
qed

lemma data_call [simp]: "data_of (call x gs) = data_of gs" "data_of (change_entity a g gs) = data_of gs" "data_of (change_ids h gs) = data_of gs"
  by (simp_all add: call_def change_entity_def change_ids_def)

lemma ids_of_Reassign:
  "GetEntity i gs = None \<Longrightarrow> i \<in> c_objectIds (data_of (ReassignEntity reg now h t gs) c) \<longleftrightarrow> i \<in> c_objectIds (data_of gs c)"
  by (cases "h = i") (auto simp: ReassignEntity_def Let_def force_resend_def change_data_def split: option.split)

lemma ids_of_drop_entity:
  assumes "GetEntity i (snd r) = None"
  shows "i \<in> c_objectIds (data_of (snd (drop_entity env reg now client slotId r a)) c) \<longleftrightarrow> i \<in> c_objectIds (data_of (snd r) c)"
proof -
  obtain er gs where r: "r = (er, gs)" by (cases r)
  have move: "i \<in> c_objectIds (data_of (snd (MoveEntityToCandidate env reg now a cl gs)) c) \<longleftrightarrow> i \<in> c_objectIds (data_of gs c)"
    if "GetEntity i gs = None" for cl gs
    using ids_of_Reassign[OF that] by (simp add: MoveEntityToCandidate_def Let_def split: option.split)
  show ?thesis
  proof (cases "\<exists>e t. entities gs a = Some e \<and> syncTree e = Some t")
    case True
    then obtain e t where e: "entities gs a = Some e" "syncTree e = Some t" by blast
    define gs1 where "gs1 = change_entity a (\<lambda>_. mark_dropped reg client slotId e) gs"
    obtain moved gs2 where m: "MoveEntityToCandidate env reg now a (Some client) gs1 = (moved, gs2)"
      by (cases "MoveEntityToCandidate env reg now a (Some client) gs1")
    have 1: "GetEntity i gs1 = None" using assms r by (auto simp: GetEntity_def gs1_def change_entity_def split: option.splits)
    have 2: "GetEntity i gs2 = None" using GetEntity_same_used[OF same_used_Move[of gs1 env reg now a "Some client"], of i] 1 m by simp
    have "i \<in> c_objectIds (data_of gs2 c) \<longleftrightarrow> i \<in> c_objectIds (data_of gs c)" using move[OF 1, of "Some client"] m by (simp add: gs1_def)
    then show ?thesis
      using drop_entity_value[OF e m[unfolded gs1_def], of er] ids_of_Reassign[OF 2] r by simp
  qed (auto simp: drop_entity_def r split: option.split)
qed

lemma ids_of_drop_entities:
  "GetEntity i (snd r) = None \<Longrightarrow>
    i \<in> c_objectIds (data_of (snd (foldl (drop_entity env reg now client slotId) r as)) c) \<longleftrightarrow> i \<in> c_objectIds (data_of (snd r) c)"
proof (induction "as" arbitrary: r)
  case (Cons a as)
  have "GetEntity i (snd (drop_entity env reg now client slotId r a)) = None"
    using GetEntity_same_used[OF same_used_drop_entity[of r env reg now client slotId a], of i] Cons.prems by simp
  from Cons.IH[OF this] show ?case using ids_of_drop_entity[OF Cons.prems] by simp
qed simp

lemma drop_from_scopes_keeps:
  "entities (drop_from_scopes env reg netId cs gs) = entities gs \<and> same_used gs (drop_from_scopes env reg netId cs gs) \<and>
   ids (drop_from_scopes env reg netId cs gs) = ids gs \<and> c_objectIds (data_of (drop_from_scopes env reg netId cs gs) c) = c_objectIds (data_of gs c)"
proof (induction cs arbitrary: gs)
  case (Cons x cs)
  define g where "g = (case playersToSlots (data_of gs x) netId of None \<Rightarrow> gs
      | Some s \<Rightarrow> change_data x (\<lambda>d. d\<lparr>playersInScope := playersInScope d - {s}, playersToSlots := (playersToSlots d)(netId := None)\<rparr>)
          (call (Player_dropped (GetNetId reg x) netId s) gs))"
  have r: "drop_from_scopes env reg netId (x # cs) gs = drop_from_scopes env reg netId cs g" by (simp add: drop_from_scopes_def g_def)
  have "same_used gs g" by (auto simp: g_def split: option.split intro: same_used_trans[OF same_used_call same_used_data])
  then have "same_used gs (drop_from_scopes env reg netId cs g)" using Cons.IH[of g] by (blast intro: same_used_trans)
  moreover have "entities g = entities gs" "ids g = ids gs" by (simp_all add: g_def change_data_def call_def split: option.split)
  moreover have "c_objectIds (data_of g c) = c_objectIds (data_of gs c)" by (simp add: g_def change_data_def call_def split: option.split)
  ultimately show ?case unfolding r using Cons.IH[of g] by simp
qed (simp add: drop_from_scopes_def)

text \<open>C13: When a client has been dropped, every entity it had belongs to nobody or to somebody else, or is being deleted; none is relevant to its
  slot, the ids it had not used can be handed out again, and the next client in its place starts with no data.\<close>

theorem dropped_client_owns_nothing:
  assumes "roomy_reachable env (reg, gs)" "IsOneSync (server env)" "gs' = HandleClientDrop env reg now cs client netId slotId gs"
  shows "(\<forall>a \<in> set (m_entityList gs). \<forall>e. entities gs a = Some e \<longrightarrow> droppable env e \<longrightarrow>
      (\<exists>e'. entities gs' a = Some e' \<and> (GetClient reg e' \<noteq> Some client \<or> deleting e') \<and> (slotId \<noteq> - 1 \<longrightarrow> unat slotId \<notin> relevantTo e'))) \<and>
    (\<forall>i \<in> c_objectIds (data_of gs client). GetEntity i gs = None \<longrightarrow> id_free (ids gs') i) \<and> data_of gs' client = new_client_data"
proof -
  define gs1 where "gs1 = (if IsBigMode (server env) then drop_from_scopes env reg netId cs gs else gs)"
  have g1: "entities gs1 = entities gs" "same_used gs gs1" "ids gs1 = ids gs" "\<And>c. c_objectIds (data_of gs1 c) = c_objectIds (data_of gs c)"
    using drop_from_scopes_keeps[of env reg netId cs gs] by (auto simp: gs1_def)
  obtain er gs2 where f: "foldl (drop_entity env reg now client slotId) ([], gs1) (m_entityList gs1) = (er, gs2)"
    by (cases "foldl (drop_entity env reg now client slotId) ([], gs1) (m_entityList gs1)")
  define gs3 where "gs3 = foldl (\<lambda>gs i. RemoveClone i gs) gs2 er"
  define gs4 where "gs4 = change_ids (\<lambda>s. s\<lparr>m_objectIdsSent := m_objectIdsSent s - c_objectIds (data_of gs3 client)\<rparr>) gs3"
  define gs5 where "gs5 = (if slotId \<noteq> - 1
      then foldl (\<lambda>gs a. change_entity a (\<lambda>e. e\<lparr>syncTree := map_option (ClearAcksOf env (unat slotId)) (syncTree e)\<rparr>) gs) gs4 (m_entityList gs4) else gs4)"
  have gs': "gs' = change_data client (\<lambda>_. new_client_data) gs5"
    using assms(2) f unfolding assms(3) HandleClientDrop_def Let_def gs5_def gs4_def gs3_def gs1_def by simp
  have ok: "game_ok gs" "game_ok gs1" "m_entityList gs1 = m_entityList gs" using game_ok_reachable[OF assms(1)] game_ok_cong[OF g1(2)] g1(2)
    by (auto simp: same_used_def same_entities_def)
  have "distinct (m_entityList gs1)" using ok(2) ok_distinct by (auto simp: game_ok_def)
  then have "released reg client slotId a (er, gs2)" if "a \<in> set (m_entityList gs)" "entities gs a = Some e" "droppable env e" for a e
    using released_all[of "([], gs1)" a e env "m_entityList gs1" reg client slotId now] ok g1(1) that f by simp
  then have "gone reg client slotId a er gs2" if "a \<in> set (m_entityList gs)" "entities gs a = Some e" "droppable env e" for a e
    using that by (fastforce simp: released_def gone_def)
  then have "gone reg client slotId a [] gs'" if "a \<in> set (m_entityList gs)" "entities gs a = Some e" "droppable env e" for a e
    using gone_all[of reg client slotId a er gs2] that by (auto simp: gs' gs5_def gs4_def gone_frame gone_clear simp flip: gs3_def)
  moreover have "id_free (ids gs') i" if i: "i \<in> c_objectIds (data_of gs client)" "GetEntity i gs = None" for i
  proof -
    have "GetEntity i gs1 = None" using GetEntity_same_used[OF g1(2)] i(2) by simp
    then have "i \<in> c_objectIds (data_of gs2 client)"
      using ids_of_drop_entities[of i "([], gs1)" env reg now client slotId "m_entityList gs1" client] f g1(4) i(1) by simp
    moreover have "data_of gs3 = data_of gs2"
    proof -
      have "data_of (foldl (\<lambda>gs i. RemoveClone i gs) g js) = data_of g" for g :: "'a game_state" and js
        by (induction js arbitrary: g) (simp_all add: RemoveClone_def split: option.split)
      then show ?thesis by (simp add: gs3_def)
    qed
    ultimately have "i \<notin> m_objectIdsSent (ids gs4)" by (simp add: gs4_def change_ids_def)
    moreover have "ids gs' = ids gs4"
    proof -
      have "ids (foldl (\<lambda>gs a. change_entity a (\<lambda>e. e\<lparr>syncTree := map_option h (syncTree e)\<rparr>) gs) g as) = ids g" for h "as" and g :: "'a game_state"
        by (induction "as" arbitrary: g) simp_all
      then show ?thesis by (simp add: gs' gs5_def change_data_def)
    qed
    moreover have "m_objectIdsUsed (ids gs') = m_objectIdsUsed (ids gs)"
      using same_used_HandleClientDrop[of gs env reg now cs client netId slotId] by (simp add: assms(3) same_used_def)
    moreover have "i \<notin> m_objectIdsUsed (ids gs)" using game_used[OF ok(1), of i] i(2) by blast
    ultimately show ?thesis by (simp add: id_free_def)
  qed
  moreover have "data_of gs' client = new_client_data" by (simp add: gs' change_data_def)
  ultimately show ?thesis by (fastforce simp: gone_def)
qed

lemma dropped_client_owns_nothing_witness:
  "\<exists>e'. entities (HandleClientDrop sample_sync_env two_clients 9 [0, 1] 0 1 128 sample_owned) 0 = Some e' \<and>
     (GetClient two_clients e' \<noteq> Some 0 \<or> deleting e') \<and> 128 \<notin> relevantTo e'"
proof -
  have "IsOneSync (server sample_sync_env)" by (simp add: sample_sync_env_def sample_env_def)
  from dropped_client_owns_nothing[OF sample_owned_roomy this refl, of 9 "[0, 1]" 0 1 128] sample_owned_value(1,3) show ?thesis
    by (auto simp: droppable_def sample_owned_entity_def sample_entity_def blank_entity_def Ped_def Player_def)
qed

end
