(* ===== verification/Sync_Client_Data.thy ===== *)
theory Sync_Client_Data
  imports Sync_Ownership
begin

text \<open>
  What the server keeps for its clients, in every reachable state: the buffer for acknowledgements has room for the next message, and
  in big mode the players in the scope of a client have slots of their own.
\<close>

section \<open>No client has the net id 0\<close>

definition named :: "registry \<Rightarrow> bool" where
  "named reg \<longleftrightarrow> (\<forall>c x. client_heap reg c = Some x \<longrightarrow> m_netId x \<noteq> 0)"

lemma named_change: "named reg \<Longrightarrow> (\<And>x. m_netId x \<noteq> 0 \<Longrightarrow> m_netId (f x) \<noteq> 0) \<Longrightarrow> named (change c f reg)"
  by (auto simp: named_def change_def)

lemma named_SetNetId: "named reg \<Longrightarrow> n \<noteq> 0 \<Longrightarrow> named (SetNetId env c n reg)"
  by (auto simp: named_def SetNetId_def change_def UpdateCachedPrincipalValues_def Let_def split: if_splits)

lemma named_GetNetId: "named reg \<Longrightarrow> GetNetId reg c \<noteq> 0"
  by (auto simp: named_def GetNetId_def split: option.split)

lemma ucast_nonzero:
  assumes "n \<noteq> (0 :: u16)"
  shows "(ucast n :: u32) \<noteq> 0"
proof
  assume "(ucast n :: u32) = 0"
  then have "(ucast (ucast n :: u32) :: u16) = 0" by simp
  then show False using assms by (simp add: ucast_down_ucast_id is_down)
qed

lemma named_step:
  assumes "registry_step env reg reg'" "clients_ok reg" "named reg"
  shows "named reg'"
  using assms(1)
proof cases
  case (make guid)
  then show ?thesis using assms(3) by (auto simp: named_def MakeClient_def new_client_def Let_def split: if_splits)
next
  case (temporary c t)
  have "0x10000 + word_of_nat t \<noteq> (0 :: u32)" using big_temporary_id[of t] temporary by auto
  then show ?thesis using temporary named_SetNetId[OF assms(3)] by simp
next
  case (connecting c)
  then obtain n where n: "free_id (id_taken reg) (m_curNetId reg) = Some n" "reg' = (SetNetId env c (ucast n) reg)\<lparr>m_curNetId := incrementId n\<rparr>"
    by (auto simp: HandleConnectingClient_def split: option.splits)
  have "n \<noteq> 0" using free_id_range[OF n(1)] clients_okD(6,7)[OF assms(2)] by auto
  then have "(ucast n :: u32) \<noteq> 0" by (rule ucast_nonzero)
  then show ?thesis using named_SetNetId[OF assms(3), of "ucast n" env c] by (simp add: n(2) named_def)
next
  case (peer c p)
  then show ?thesis using assms(3) by (auto simp: named_def SetPeer_def change_def Let_def split: option.split if_splits)
next
  case (token c v)
  then show ?thesis using assms(3) by (auto simp: named_def SetConnectionToken_def change_def split: if_splits)
next
  case (end_point c v)
  then show ?thesis using assms(3) by (auto simp: named_def SetTcpEndPoint_def change_def split: if_splits)
next
  case (add_identifier c i)
  then show ?thesis using assms(3) by (auto simp: AddIdentifier_def UpdateCachedPrincipalValues_def intro: named_change)
next
  case (dropping c)
  then show ?thesis using assms(3) by (auto simp: SetDropping_def intro: named_change)
next
  case (remove c)
  then show ?thesis using assms(3)
    by (auto simp: named_def RemoveClient_def erase_client_def change_def Let_def split: option.splits if_splits)
next
  case (release c)
  then show ?thesis using assms(3) by (auto simp: named_def release_def split: if_splits)
next
  case (host client)
  then show ?thesis using assms(3) by (auto simp: SetHost_def named_def split: option.split)
qed

section \<open>The data of one client\<close>

definition scope_ok :: "client_data \<Rightarrow> bool" where
  "scope_ok d \<longleftrightarrow> playersToSlots d 0 = None \<and>
     (\<forall>n s. playersToSlots d n = Some s \<longrightarrow> s < 128 \<and> s \<noteq> 31 \<and> s \<in> playersInScope d \<and> (\<forall>m. playersToSlots d m = Some s \<longrightarrow> m = n))"

definition data_ok :: "bool \<Rightarrow> client_data \<Rightarrow> bool" where
  "data_ok B d \<longleftrightarrow> (B \<longrightarrow> ack_ready (ackBuffer d)) \<and> scope_ok d"

lemma data_ok_new [simp]: "data_ok B new_client_data"
  by (simp add: data_ok_def scope_ok_def new_client_data_def ack_ready_new)

lemma data_ok_fields [simp]:
  "data_ok B (d\<lparr>c_objectIds := x1\<rparr>) = data_ok B d" "data_ok B (d\<lparr>playerEntity := x2\<rparr>) = data_ok B d" "data_ok B (d\<lparr>pendingCreates := x3\<rparr>) = data_ok B d"
  "data_ok B (d\<lparr>syncedEntities := x4\<rparr>) = data_ok B d" "data_ok B (d\<lparr>entitiesToDestroy := x5\<rparr>) = data_ok B d" "data_ok B (d\<lparr>frameStates := x6\<rparr>) = data_ok B d"
  "data_ok B (d\<lparr>firstSavedFrameState := x7\<rparr>) = data_ok B d" "data_ok B (d\<lparr>syncTs := x8\<rparr>) = data_ok B d" "data_ok B (d\<lparr>ackTs := x9\<rparr>) = data_ok B d"
  "data_ok B (d\<lparr>fidx := x10\<rparr>) = data_ok B d" "data_ok B (d\<lparr>c_routingBucket := x11\<rparr>) = data_ok B d"
  "data_ok B (destroy_at k a del d) = data_ok B d"
  by (simp_all add: data_ok_def scope_ok_def destroy_at_def)

lemma data_ok_leave: "data_ok B d \<Longrightarrow> playersToSlots d n = Some s \<Longrightarrow>
    data_ok B (d\<lparr>playersInScope := playersInScope d - {s}, playersToSlots := (playersToSlots d)(n := None)\<rparr>)"
  by (auto simp: data_ok_def scope_ok_def)

lemma free_scope_range: "free_scope inScope = Some s \<Longrightarrow> s < 128 \<and> s \<noteq> 31 \<and> s \<notin> inScope"
  by (auto simp: free_scope_def find_Some_iff rev_nth)

lemma data_ok_enter: "data_ok B d \<Longrightarrow> free_scope (playersInScope d) = Some s \<Longrightarrow> n \<noteq> 0 \<Longrightarrow>
    data_ok B (d\<lparr>playersInScope := insert s (playersInScope d), playersToSlots := (playersToSlots d)(n \<mapsto> s)\<rparr>)"
  by (drule free_scope_range) (auto simp: data_ok_def scope_ok_def)

section \<open>The data of all clients\<close>

definition all_data_ok :: "bool \<Rightarrow> 't game_state \<Rightarrow> bool" where
  "all_data_ok B gs \<longleftrightarrow> (\<forall>c. data_ok B (data_of gs c))"

lemma all_data_change: "all_data_ok B gs \<Longrightarrow> (\<And>d. data_ok B d \<Longrightarrow> data_ok B (f d)) \<Longrightarrow> all_data_ok B (change_data c f gs)"
  by (simp add: all_data_ok_def change_data_def)

lemma all_data_frame [simp]: "all_data_ok B (change_entity a g gs) = all_data_ok B gs" "all_data_ok B (call x gs) = all_data_ok B gs" "all_data_ok B (change_ids h gs) = all_data_ok B gs"
  "all_data_ok B (gs\<lparr>main_tasks := ms\<rparr>) = all_data_ok B gs" "all_data_ok B (gs\<lparr>sync_tasks := ss\<rparr>) = all_data_ok B gs" "all_data_ok B (gs\<lparr>m_entityList := l\<rparr>) = all_data_ok B gs"
  "all_data_ok B (gs\<lparr>m_entitiesById := m\<rparr>) = all_data_ok B gs" "all_data_ok B (gs\<lparr>entityCreationList := cl\<rparr>) = all_data_ok B gs" "all_data_ok B (gs\<lparr>ids := s\<rparr>) = all_data_ok B gs"
  "all_data_ok B (gs\<lparr>entities := es\<rparr>) = all_data_ok B gs" "all_data_ok B (gs\<lparr>next_entity := k\<rparr>) = all_data_ok B gs" "all_data_ok B (gs\<lparr>m_routingData := rd\<rparr>) = all_data_ok B gs"
  "all_data_ok B (gs\<lparr>m_frameIndex := fi\<rparr>) = all_data_ok B gs" "all_data_ok B (gs\<lparr>calls := ca\<rparr>) = all_data_ok B gs"
  by (simp_all add: all_data_ok_def change_entity_def call_def change_ids_def)

lemma all_data_foldl: "(\<And>gs x. all_data_ok B gs \<Longrightarrow> all_data_ok B (f gs x)) \<Longrightarrow> all_data_ok B gs \<Longrightarrow> all_data_ok B (foldl f gs xs)"
  by (induction xs arbitrary: gs) simp_all

lemma all_data_foldl_snd: "(\<And>r x. all_data_ok B (snd r) \<Longrightarrow> all_data_ok B (snd (f r x))) \<Longrightarrow> all_data_ok B (snd r) \<Longrightarrow> all_data_ok B (snd (foldl f r xs))"
  by (induction xs arbitrary: r) simp_all

lemma all_data_foldl_snd2:
  "(\<And>r x. all_data_ok B (snd (snd r)) \<Longrightarrow> all_data_ok B (snd (snd (f r x)))) \<Longrightarrow> all_data_ok B (snd (snd r)) \<Longrightarrow> all_data_ok B (snd (snd (foldl f r xs)))"
  by (induction xs arbitrary: r) simp_all

section \<open>Entities\<close>

lemma all_data_resend: "all_data_ok B gs \<Longrightarrow> all_data_ok B (force_resend reg e gs)"
  by (simp add: all_data_ok_def force_resend_def Let_def)

lemma all_data_Reassign [simp]: "all_data_ok B gs \<Longrightarrow> all_data_ok B (ReassignEntity reg now h t gs)"
  by (auto simp: ReassignEntity_def Let_def split: option.split intro!: all_data_resend all_data_change)

lemma all_data_Move [simp]: "all_data_ok B gs \<Longrightarrow> all_data_ok B (snd (MoveEntityToCandidate env reg now a c gs))"
  by (simp add: MoveEntityToCandidate_def Let_def split: option.split)

lemma all_data_RemoveClone [simp]: "all_data_ok B (RemoveClone i gs) = all_data_ok B gs"
  by (simp add: RemoveClone_def split: option.split)

lemma all_data_DeleteEntity: "all_data_ok B gs \<Longrightarrow> all_data_ok B (DeleteEntity a gs)"
  by (simp add: DeleteEntity_def split: option.split)

lemma all_data_OnCloneRemove [simp]: "all_data_ok B (OnCloneRemove env a i gs) = all_data_ok B gs"
  by (simp add: OnCloneRemove_def Let_def split: option.split)

lemma all_data_FinalizeClone [simp]: "all_data_ok B (FinalizeClone env a i gs) = all_data_ok B gs"
  by (simp add: FinalizeClone_def split: option.split)

lemma all_data_do_remove: "all_data_ok B gs \<Longrightarrow> all_data_ok B (do_remove reg a i gs)"
  by (auto simp: do_remove_def Let_def split: option.split intro!: all_data_change)

lemma all_data_drop_entity: "all_data_ok B (snd r) \<Longrightarrow> all_data_ok B (snd (drop_entity env reg now client slotId r a))"
  by (cases r) (auto simp: drop_entity_def Let_def case_prod_beta split: option.split)

lemma all_data_scopes: "all_data_ok B gs \<Longrightarrow> all_data_ok B (drop_from_scopes env reg netId cs gs)"
  unfolding drop_from_scopes_def
proof (rule all_data_foldl)
  fix gs :: "'b game_state" and x
  assume ok: "all_data_ok B gs"
  show "all_data_ok B (case playersToSlots (data_of gs x) netId of None \<Rightarrow> gs
     | Some s \<Rightarrow> change_data x (\<lambda>d. d\<lparr>playersInScope := playersInScope d - {s}, playersToSlots := (playersToSlots d)(netId := None)\<rparr>)
         (call (Player_dropped (GetNetId reg x) netId s) gs))"
    using ok data_ok_leave[of B "data_of gs x" netId] by (auto simp: all_data_ok_def change_data_def call_def split: option.split)
qed

lemma all_data_HandleClientDrop: "all_data_ok B gs \<Longrightarrow> all_data_ok B (HandleClientDrop env reg now cs client netId slotId gs)"
proof -
  assume ok: "all_data_ok B gs"
  let ?g = "if IsBigMode (server env) then drop_from_scopes env reg netId cs gs else gs"
  have "all_data_ok B (snd (foldl (drop_entity env reg now client slotId) ([], ?g) (m_entityList ?g)))"
    by (rule all_data_foldl_snd[OF all_data_drop_entity]) (use ok all_data_scopes in auto)
  then show ?thesis using ok unfolding HandleClientDrop_def Let_def
    by (auto simp: case_prod_beta intro!: all_data_change all_data_foldl)
qed

lemma all_data_Create: "all_data_ok B gs \<Longrightarrow> all_data_ok B (snd (CreateEntityFromTree env now u type tree gs))"
  by (simp add: CreateEntityFromTree_def Let_def)

lemma all_data_main: "all_data_ok B gs \<Longrightarrow> all_data_ok B (run_main_task canceled gs)"
  by (auto simp: run_main_task_def Let_def split: list.split main_task.split option.split)

lemma all_data_sync: "all_data_ok B gs \<Longrightarrow> all_data_ok B (run_sync_task reg gs)"
  by (auto simp: run_sync_task_def Let_def split: list.split sync_task.split option.split intro: all_data_do_remove)

section \<open>The packets of clients\<close>

lemma all_data_call_fold [simp]: "all_data_ok B (if b then change_entity a g gs else gs) = all_data_ok B gs"
  "all_data_ok B (if b then call x gs else gs) = all_data_ok B gs" "all_data_ok B (if b then change_ids h gs else gs) = all_data_ok B gs"
  by simp_all

lemma all_data_clone_entity: "clone_entity env now c creates i u tok ty gs = Some (a, gs') \<Longrightarrow> all_data_ok B gs' = all_data_ok B gs"
  by (auto simp: clone_entity_def Let_def split: if_splits option.splits)

lemma all_data_clone_guard: "all_data_ok B (snd (clone_guard reg now c u ts a gs)) = all_data_ok B gs"
  by (simp add: clone_guard_def Let_def split: option.split)

lemma all_data_clone_apply: "all_data_ok B (clone_apply env now t ts bits a gs) = all_data_ok B gs"
  by (simp add: clone_apply_def Let_def)

lemma all_data_clone_player: "all_data_ok B gs \<Longrightarrow> all_data_ok B (clone_player c a gs)"
  by (auto simp: clone_player_def Let_def intro!: all_data_change split: option.split)

lemma all_data_startDelete: "all_data_ok B gs \<Longrightarrow> all_data_ok B (startDelete c k a gs)"
  by (auto simp: startDelete_def intro!: all_data_change split: option.split)

lemma all_data_clone_created: "all_data_ok B gs \<Longrightarrow> all_data_ok B (snd (clone_created env c i u a gs))"
  by (auto simp: clone_created_def Let_def intro!: all_data_startDelete all_data_change split: option.split)

lemma all_data_clone_update: "all_data_ok B gs \<Longrightarrow> all_data_ok B (snd (clone_update env reg now c t i u tok ty bits gs))"
proof (cases "clone_entity env now c (t = 1) i u tok ty gs")
  case (Some x)
  obtain a gs1 where x: "x = (a, gs1)" by (cases x)
  assume ok: "all_data_ok B gs"
  then have 1: "all_data_ok B gs1" using all_data_clone_entity Some x by blast
  define ts where "ts = syncTs (data_of gs c)"
  obtain ok' gs2 where g: "clone_guard reg now c u ts a gs1 = (ok', gs2)" by (cases "clone_guard reg now c u ts a gs1")
  have 2: "all_data_ok B gs2" using all_data_clone_guard[of B reg now c u ts a gs1] g 1 by simp
  define gs3 where "gs3 = clone_player c a (clone_apply env now t ts bits a gs2)"
  have 3: "all_data_ok B gs3" using 2 by (simp add: gs3_def all_data_clone_player all_data_clone_apply)
  define r where "r = (if t = 1 then clone_created env c i u a gs3
      else (True, change_data c (\<lambda>d. d\<lparr>pendingCreates := (pendingCreates d)(MakeHandleUniqifierPair i u := None)\<rparr>) gs3))"
  have 4: "all_data_ok B (snd r)" using 3 by (auto simp: r_def all_data_clone_created intro!: all_data_change)
  have "snd (clone_update env reg now c t i u tok ty bits gs) \<in> {gs2, snd r, add_bag_target a (GetSlotId reg c) (snd r)}"
    using Some x g unfolding ts_def gs3_def r_def by (simp add: clone_update_def Let_def case_prod_beta)
  then show ?thesis using 2 4 by (auto simp: add_bag_target_def split: option.split)
qed (simp add: clone_update_def Let_def)

lemma all_data_flush_ack: "flush_ack env c (b, gs) = Some (b', gs') \<Longrightarrow> all_data_ok B gs' = all_data_ok B gs"
  by (auto simp: flush_ack_def prepare_def Let_def MaybeFlushBuffer_def FlushBuffer_def split: if_splits bind_splits)

lemma all_data_send_ack: "send_ack env c fs (b, gs) = Some (b', gs') \<Longrightarrow> all_data_ok B gs' = all_data_ok B gs"
  by (auto simp: send_ack_def split: bind_splits dest: all_data_flush_ack)

lemma all_data_clone_packet:
  "ProcessClonePacket env reg now c t p gs = Some (ok, i, u, p', gs') \<Longrightarrow> all_data_ok B gs \<Longrightarrow> all_data_ok B gs'"
  by (auto simp: ProcessClonePacket_def Let_def intro!: all_data_clone_update split: bind_splits if_splits)

lemma all_data_take_over: "all_data_ok B gs \<Longrightarrow> all_data_ok B (take_over reg now c cl i gs)"
  by (simp add: take_over_def split: option.split prod.split)

lemma all_data_remove_owned: "all_data_ok B gs \<Longrightarrow> all_data_ok B (remove_owned reg c i u gs)"
  by (simp add: remove_owned_def split: option.split prod.split)

lemma all_data_clone_message:
  assumes "clone_message env reg now c ty (p, ack, gs) = Some r" "all_data_ok B gs"
  shows "all_data_ok B (snd (snd r))"
proof -
  consider "ty = 1" | "ty = 2" | "ty = 3" | "ty = 4" | "ty = 5" | "ty \<notin> {1, 2, 3, 4, 5}" by blast
  then show ?thesis
  proof cases
    case 1
    then obtain ok i u p' gs1 ack' gs' where 1: "ProcessClonePacket env reg now c 1 p gs = Some (ok, i, u, p', gs1)"
      "send_ack env c [(3, 1), (13, ucast i), (16, ucast u)]
         (ack, if ok then change_ids (\<lambda>s. s\<lparr>m_objectIdsUsed := insert (unat i) (m_objectIdsUsed s)\<rparr>) gs1 else gs1) = Some (ack', gs')" "r = (p', ack', gs')"
      using assms(1) by (auto simp: clone_message_def ProcessCloneCreate_def Let_def split: bind_splits)
    show ?thesis using all_data_send_ack[OF 1(2)] all_data_clone_packet[OF 1(1) assms(2)] 1(3) by simp
  next
    case 2
    then obtain ok i u p' gs1 ack' gs' where 1: "ProcessClonePacket env reg now c 2 p gs = Some (ok, i, u, p', gs1)"
      "send_ack env c [(3, 2), (13, ucast i), (16, ucast u)] (ack, gs1) = Some (ack', gs')" "r = (p', ack', gs')"
      using assms(1) by (auto simp: clone_message_def ProcessCloneSync_def split: bind_splits)
    show ?thesis using all_data_send_ack[OF 1(2)] all_data_clone_packet[OF 1(1) assms(2)] 1(3) by simp
  next
    case 3
    then show ?thesis using assms
      by (auto simp: clone_message_def ProcessCloneRemove_def all_data_send_ack intro!: all_data_remove_owned split: bind_splits)
  next
    case 4
    then show ?thesis using assms
      by (auto simp: clone_message_def ProcessCloneTakeover_def intro!: all_data_take_over split: bind_splits)
  next
    case 5
    then show ?thesis using assms
      by (auto simp: clone_message_def set_timestamp_def Let_def all_data_send_ack intro!: all_data_change split: bind_splits)
  next
    case 6
    then show ?thesis using assms by (auto simp: clone_message_def set_index_def intro!: all_data_change split: bind_splits)
  qed
qed

lemma all_data_ParseClonePacket:
  assumes "B \<Longrightarrow> bounded env" "8 * length packet < 2 ^ 31" "all_data_ok B gs" "ParseClonePacket env reg now c packet gs = Some gs'"
  shows "all_data_ok B gs'"
proof -
  have ready: "ack_ready (ackBuffer (data_of gs' c))" if B
  proof -
    have "ack_ready (ackBuffer (data_of gs c))" using assms(3) that by (simp add: all_data_ok_def data_ok_def)
    then show ?thesis using ParseClonePacket_step[OF assms(1)[OF that] assms(2), of gs c reg now] assms(4) by simp
  qed
  obtain p ack gs1 gs2 ack' where 1: "clone_messages env reg now c (mb_of_data packet, ackBuffer (data_of gs c), gs) = Some (p, ack, gs1)"
    "FlushBuffer env ''msgPackedAcks'' (fst (prepare c (ack, gs1))) c (snd (prepare c (ack, gs1))) = Some (ack', gs2)"
    "gs' = change_data c (\<lambda>d. d\<lparr>ackBuffer := ack'\<rparr>) gs2"
    using assms(4) by (auto simp: ParseClonePacket_def Let_def split: bind_splits)
  have "all_data_ok B (snd (snd (p, ack, gs1)))"
    by (rule clone_messages_invariant[where P = "\<lambda>r. all_data_ok B (snd r)", OF 1(1)]) (use assms(3) all_data_clone_message in auto)
  then have "all_data_ok B gs2" using 1(2) by (auto simp: prepare_def Let_def FlushBuffer_def split: if_splits bind_splits)
  then show ?thesis using ready 1(3) by (auto simp: all_data_ok_def change_data_def data_ok_def scope_ok_def)
qed

lemma all_data_ack_create: "all_data_ok B gs \<Longrightarrow> all_data_ok B (ack_create reg c i u gs)"
  by (auto simp: ack_create_def Let_def intro!: all_data_change split: option.split)

lemma all_data_ParseAckPacket:
  assumes "ParseAckPacket env reg c packet gs = Some gs'" "all_data_ok B gs"
  shows "all_data_ok B gs'"
proof -
  obtain p where 1: "ack_messages env reg c (mb_of_data packet, gs) = Some (p, gs')" using assms(1) by (auto simp: ParseAckPacket_def)
  have "all_data_ok B (snd (p, gs'))"
    by (rule ack_messages_invariant[where P = "all_data_ok B", OF 1]) (auto simp: ack_remove_def assms(2) intro: all_data_ack_create all_data_change)
  then show ?thesis by simp
qed

section \<open>The tick\<close>

lemma all_data_collect: "all_data_ok B gs \<Longrightarrow> all_data_ok B (snd (collect_entities env reg gs))"
proof -
  have "all_data_ok B (snd (collect_entity env reg r a))" if "all_data_ok B (snd r)" for r a
    using that by (cases r) (simp add: collect_entity_def Let_def split: option.split)
  then show "all_data_ok B gs \<Longrightarrow> ?thesis" unfolding collect_entities_def by (intro all_data_foldl_snd) auto
qed

lemma all_data_update_relevance: "all_data_ok B (snd r) \<Longrightarrow> all_data_ok B (snd (update_relevance te env reg c r x))"
  by (cases r; cases x) (auto simp: update_relevance_def Let_def case_prod_beta simp del: if_split intro!: all_data_change split: option.split)

lemma all_data_update_client: "all_data_ok B gs \<Longrightarrow> all_data_ok B (update_client te env reg rel c gs)"
proof -
  assume "all_data_ok B gs"
  then have "all_data_ok B (snd (foldl (update_relevance te env reg c) ([], gs) rel))" by (intro all_data_foldl_snd all_data_update_relevance) simp_all
  then show ?thesis by (auto simp: update_client_def case_prod_beta intro!: all_data_change)
qed

lemma all_data_update_clients: "update_clients te env reg rel i l n s gs = Some (s', gs') \<Longrightarrow> all_data_ok B gs \<Longrightarrow> all_data_ok B gs'"
proof (induction n arbitrary: s gs)
  case (Suc n)
  then obtain cl s1 where f: "find_client reg i l s = Some (cl, s1)" by (auto split: bind_splits)
  show ?case
  proof (cases cl)
    case (Some c)
    then have "update_clients te env reg rel i l n s1 (update_client te env reg rel c gs) = Some (s', gs')" using Suc.prems f by simp
    from Suc.IH[OF this all_data_update_client[OF Suc.prems(2)]] show ?thesis .
  qed (use Suc.prems f in simp)
qed simp

lemma all_data_move_deleted: "all_data_ok B gs \<Longrightarrow> all_data_ok B (move_deleted c gs x)"
  by (auto simp: move_deleted_def intro!: all_data_change split: option.split)

lemma all_data_leave_scope: "all_data_ok B gs \<Longrightarrow> all_data_ok B (leave_scope env reg c e gs)"
  using data_ok_leave[of B "data_of gs c"]
  by (auto simp: leave_scope_def Let_def all_data_ok_def change_data_def call_def split: option.split)

lemma all_data_mark_deleted: "all_data_ok B gs \<Longrightarrow> all_data_ok B (mark_deleted env reg now c i a e isOut gs)"
  by (auto simp: mark_deleted_def Let_def split: option.split)

lemma all_data_delete_for: "all_data_ok B (snd (snd r)) \<Longrightarrow> all_data_ok B (snd (snd (delete_for te env reg now c r x)))"
  by (cases r; cases x) (auto simp: delete_for_def Let_def case_prod_beta leave_client_def intro!: all_data_leave_scope all_data_mark_deleted split: option.split)

lemma all_data_enter_scope: "named reg \<Longrightarrow> all_data_ok B gs \<Longrightarrow> all_data_ok B (snd (enter_scope env reg c a gs))"
  using data_ok_enter[of B "data_of gs c"] named_GetNetId[of reg]
  by (auto simp: enter_scope_def Let_def all_data_ok_def change_data_def call_def split: option.split)

lemma all_data_yoink: "all_data_ok B gs \<Longrightarrow> all_data_ok B (yoink reg now c a gs)"
  by (simp add: yoink_def split: option.split)

lemma all_data_synced [simp]: "all_data_ok B gs \<Longrightarrow> all_data_ok B (change_synced c k f gs)"
  by (auto simp: change_synced_def intro!: all_data_change)

lemma all_data_send_entity: "all_data_ok B (snd (snd r)) \<Longrightarrow> all_data_ok B (snd (snd (send_entity te reg now c k a e r)))"
  by (cases r) (auto simp: send_entity_def start_send_def finish_send_def Let_def split: option.split)

lemma all_data_sync_entity:
  assumes "sync_entity te env reg now c k r = Some r'" "named reg" "all_data_ok B (snd (snd r))"
  shows "all_data_ok B (snd (snd r'))"
proof -
  obtain cmds sent gs where r: "r = (cmds, sent, gs)" by (cases r)
  define gs1 where "gs1 = yoink reg now c (case map_of (syncedEntities (data_of gs c)) k of None \<Rightarrow> 0 | Some y \<Rightarrow> sy_entity y) gs"
  have 1: "all_data_ok B gs1" using assms(3) r by (simp add: gs1_def all_data_yoink)
  obtain canCreate gs2 where es: "enter_scope env reg c (case map_of (syncedEntities (data_of gs c)) k of None \<Rightarrow> 0 | Some y \<Rightarrow> sy_entity y) gs1 = (canCreate, gs2)"
    by fastforce
  have 2: "all_data_ok B gs2" using all_data_enter_scope[OF assms(2) 1] es by (metis snd_conv)
  show ?thesis using assms(1,3) 1 2 es unfolding r gs1_def
    by (auto simp: sync_entity_def Let_def intro!: all_data_send_entity all_data_change split: option.splits if_splits)
qed

lemma all_data_sync_entities:
  "sync_entities te env reg now c ks r = Some r' \<Longrightarrow> named reg \<Longrightarrow> all_data_ok B (snd (snd r)) \<Longrightarrow> all_data_ok B (snd (snd r'))"
  by (induction ks arbitrary: r) (auto split: bind_splits dest: all_data_sync_entity)

lemma all_data_send_client:
  assumes "send_client te env reg now c gs = Some gs'" "named reg" "all_data_ok B gs"
  shows "all_data_ok B gs'"
proof (cases "GetSlotId reg c = - 1")
  case False
  define gs1 where "gs1 = foldl (move_deleted c) (call (Send_array_data c) gs) (syncedEntities (data_of gs c))"
  obtain cmds dels gs2 where d: "foldl (delete_for te env reg now c) ([], [], gs1) (entitiesToDestroy (data_of gs1 c)) = (cmds, dels, gs2)"
    by (cases "foldl (delete_for te env reg now c) ([], [], gs1) (entitiesToDestroy (data_of gs1 c))")
  define gs3 where "gs3 = (if NAK te then change_data c (\<lambda>d. d\<lparr>entitiesToDestroy := []\<rparr>) gs2 else gs2)"
  have data: "data_of (call (Send_array_data c) gs) = data_of gs" by (simp add: call_def)
  obtain cmds' sent gs4 where s: "sync_entities te env reg now c (map fst (syncedEntities (data_of gs3 c))) (cmds, [], gs3) = Some (cmds', sent, gs4)"
    "gs' = call (Execute_commands c (m_frameIndex gs4) cmds') (save_frame te c \<lparr>fs_syncedEntities = sent, fs_deletions = dels\<rparr> gs4)"
    using assms(1) False d data unfolding gs3_def gs1_def by (auto simp: send_client_def Let_def split: bind_splits)
  have 1: "all_data_ok B gs1" unfolding gs1_def by (rule all_data_foldl) (use assms(3) in \<open>simp_all add: all_data_move_deleted\<close>)
  have "all_data_ok B (snd (snd (foldl (delete_for te env reg now c) ([], [], gs1) (entitiesToDestroy (data_of gs1 c)))))"
    by (rule all_data_foldl_snd2) (simp_all add: all_data_delete_for 1)
  then have 3: "all_data_ok B gs3" using d by (auto simp: gs3_def intro!: all_data_change)
  from all_data_sync_entities[OF s(1) assms(2)] 3 have "all_data_ok B gs4" by simp
  then show ?thesis unfolding s(2) save_frame_def by (auto simp: case_prod_beta Let_def intro!: all_data_change)
qed (use assms in \<open>simp add: send_client_def\<close>)

lemma all_data_send_clients: "send_clients te env reg now cs gs = Some gs' \<Longrightarrow> named reg \<Longrightarrow> all_data_ok B gs \<Longrightarrow> all_data_ok B gs'"
  by (induction cs arbitrary: gs) (auto split: bind_splits dest: all_data_send_client)

lemma all_data_Tick:
  assumes "Tick te env reg now n cs s gs = Some (s', gs')" "named reg" "all_data_ok B gs"
  shows "all_data_ok B gs'"
proof -
  obtain rel gs1 where c: "collect_entities env reg gs = (rel, gs1)" by (cases "collect_entities env reg gs")
  then have 1: "all_data_ok B gs1" using all_data_collect[OF assms(3), of env reg] by simp
  let ?i = "(if IsBigMode (server env) then MAX_CLIENTS else 129) - 1"
  obtain gs2 gs3 where u: "update_clients te env reg rel ?i s n s gs1 = Some (s', gs2)" "send_clients te env reg now cs gs2 = Some gs3"
    "gs' = gs3\<lparr>m_frameIndex := m_frameIndex gs3 + 1\<rparr>"
    using assms(1) c by (auto simp: Tick_def Let_def split: bind_splits)
  show ?thesis using all_data_send_clients[OF u(2) assms(2) all_data_update_clients[OF u(1) 1]] u(3) by simp
qed

section \<open>Frames\<close>

lemma all_data_nack_entity: "all_data_ok B (snd r) \<Longrightarrow> all_data_ok B (snd (nack_entity s c r x))"
  by (cases r; cases x) (auto simp: nack_entity_def recreate_def resend_from_def split: option.split)

lemma all_data_nack_deletions: "all_data_ok B gs \<Longrightarrow> all_data_ok B (nack_deletions c dels gs)"
  unfolding nack_deletions_def by (rule all_data_foldl) (auto intro!: all_data_change)

lemma all_data_nack_frames: "all_data_ok B (snd r) \<Longrightarrow> all_data_ok B (snd (snd (nack_frames s c first frame r)))"
proof (induction s c first frame r rule: nack_frames.induct)
  case (1 s c first frame r)
  show ?case
  proof (cases "frame < first \<or> map_of (frameStates (data_of (snd r) c)) frame = None")
    case True
    then show ?thesis using 1(2) by (auto simp: nack_frames.simps[of s c first frame r])
  next
    case False
    then obtain f where f: "map_of (frameStates (data_of (snd r) c)) frame = Some f" "\<not> frame < first" by auto
    obtain corrections gs where g: "foldl (nack_entity s c) r (fs_syncedEntities f) = (corrections, gs)"
      by (cases "foldl (nack_entity s c) r (fs_syncedEntities f)")
    have "all_data_ok B (snd (foldl (nack_entity s c) r (fs_syncedEntities f)))" by (rule all_data_foldl_snd[OF all_data_nack_entity 1(2)])
    then have ok: "all_data_ok B (nack_deletions c (fs_deletions f) gs)" using g by (simp add: all_data_nack_deletions)
    show ?thesis
    proof (cases "frame = 0")
      case True
      then have "snd (snd (nack_frames s c first frame r)) = nack_deletions c (fs_deletions f) gs" using f g by (subst nack_frames.simps) simp
      then show ?thesis using ok by simp
    next
      case nz: False
      from 1(1)[OF f(2,1) refl g[symmetric] refl nz] ok show ?thesis using f g nz by (simp add: nack_frames.simps[of s c first frame r])
    qed
  qed
qed

lemma all_data_nack_missing: "all_data_ok B gs \<Longrightarrow> all_data_ok B (snd (nack_missing s c first lm gs))"
  using all_data_nack_frames[of B "([], gs)" s c first lm]
  by (cases "nack_frames s c first lm ([], gs)") (auto simp: nack_missing_def correct_newer_def intro!: all_data_change)

lemma all_data_nack_lists: "nack_lists s c flags f b gs = Some gs' \<Longrightarrow> all_data_ok B gs \<Longrightarrow> all_data_ok B gs'"
proof -
  assume "nack_lists s c flags f b gs = Some gs'" and ok: "all_data_ok B gs"
  then obtain xs ys where g: "gs' = foldl (recreate_entity c f) (foldl (ignore_update s f) gs xs) ys"
    by (auto simp: nack_lists_def Let_def simp del: foldl_Cons if_split split: bind_splits)
  show ?thesis unfolding g
    by (rule all_data_foldl, simp add: recreate_entity_def recreate_def split: option.split, rule all_data_foldl,
      simp add: ignore_update_def resend_from_def split: option.split, rule ok)
qed

lemma all_data_nack_range: "nack_range s c flags b gs = Some (ok, b', gs') \<Longrightarrow> all_data_ok B gs \<Longrightarrow> all_data_ok B gs'"
  by (auto simp: nack_range_def Let_def all_data_nack_missing split: if_splits bind_splits)

lemma all_data_gameStateNAck:
  assumes "gameStateNAck nak reg c b gs = Some (ok, gs')" "all_data_ok B gs"
  shows "all_data_ok B gs'"
proof (cases "\<not> nak \<or> GetSlotId reg c = - 1")
  case False
  have "\<exists>flags b1 ok1 b2 gs1 f. nack_range (unat (GetSlotId reg c)) c flags b1 gs = Some (ok1, b2, gs1) \<and>
    (gs' = gs1 \<or> nack_lists (unat (GetSlotId reg c)) c flags f b2 gs1 = Some gs')"
    using assms(1) False by (auto simp: gameStateNAck_def split: bind_splits if_splits option.splits) blast+
  then obtain flags b1 ok1 b2 gs1 f where r: "nack_range (unat (GetSlotId reg c)) c flags b1 gs = Some (ok1, b2, gs1)"
    "gs' = gs1 \<or> nack_lists (unat (GetSlotId reg c)) c flags f b2 gs1 = Some gs'" by blast
  from r(2) show ?thesis using all_data_nack_range[OF r(1) assms(2)] all_data_nack_lists[of "unat (GetSlotId reg c)" c flags f b2 gs1 gs'] by auto
qed (use assms in \<open>auto simp: gameStateNAck_def\<close>)

lemma all_data_gameStateAck:
  assumes "gameStateAck arq reg c b gs = Some gs'" "all_data_ok B gs"
  shows "all_data_ok B gs'"
proof (cases "\<not> arq \<or> GetSlotId reg c = - 1")
  case False
  then obtain f s frame xs ys zs i where g: "gs' = change_data c (\<lambda>d. d\<lparr>frameStates := omap_erase i (frameStates d)\<rparr>)
      (foldl (ack_entity s c frame xs) (foldl (ack_ignore s f) (foldl (ack_recreate c f) gs ys) xs) zs)"
    using assms(1) by (auto simp: gameStateAck_def Let_def simp del: foldl_Cons split: bind_splits)
  have "all_data_ok B (foldl (ack_recreate c f) gs ys)" by (rule all_data_foldl[OF _ assms(2)]) (simp add: ack_recreate_def split: option.split)
  then have "all_data_ok B (foldl (ack_ignore s f) (foldl (ack_recreate c f) gs ys) xs)"
    by (rule all_data_foldl[rotated]) (simp add: ack_ignore_def split: option.split)
  then have "all_data_ok B (foldl (ack_entity s c frame xs) (foldl (ack_ignore s f) (foldl (ack_recreate c f) gs ys) xs) zs)"
    by (rule all_data_foldl[rotated]) (simp add: ack_entity_def Let_def split: option.split)
  then show ?thesis unfolding g by (rule all_data_change) simp
qed (use assms in \<open>auto simp: gameStateAck_def\<close>)

section \<open>Every reachable state\<close>

lemma all_data_give: "all_data_ok B gs \<Longrightarrow> all_data_ok B (give_object_ids n c gs)"
  by (cases "gather_ids n 1 (ids gs)") (auto simp: give_object_ids_def intro!: all_data_change)

lemma all_data_step:
  assumes "sync_step env (reg, gs) (reg', gs')" "B \<Longrightarrow> bounded env" "named reg" "all_data_ok B gs"
  shows "all_data_ok B gs'"
  using assms(1)
proof cases
  case (clones c packet now)
  then show ?thesis using all_data_ParseClonePacket[of B env packet gs reg now c gs', OF assms(2)] assms(4) by simp
next
  case (create now u type tree)
  then show ?thesis using all_data_Create[OF assms(4)] by simp
next
  case (lockdown bucket mode)
  then show ?thesis using assms(4) by (simp add: SetEntityLockdownMode_def)
next
  case (population bucket disabled)
  then show ?thesis using assms(4) by (simp add: SetPopulationDisabled_def)
next
  case (route_client c bucket)
  then show ?thesis using all_data_change[OF assms(4)] by simp
next
  case (drop c now cs netId slotId)
  then show ?thesis using all_data_HandleClientDrop[OF assms(4)] by simp
qed (use assms(3,4) all_data_ParseAckPacket all_data_gameStateNAck all_data_gameStateAck all_data_give all_data_DeleteEntity all_data_main
    all_data_sync all_data_Tick in auto)

lemma sync_data_reachable:
  assumes "sync_reachable env st" "B \<Longrightarrow> bounded env"
  shows "named (fst st) \<and> all_data_ok B (snd st)"
  using assms(1)
proof (induction rule: sync_reachable.induct)
  case start
  then show ?case by (simp add: named_def new_registry_def all_data_ok_def new_game_state_def)
next
  case (step st st')
  have reg: "registry_reachable (server env) (fst st)" using step.hyps(1) sync_registry_reachable by blast
  have "named (fst st')" using step.hyps(2)
    by (cases rule: sync_step.cases) (use step.IH named_step[OF _ clients_reachable_ok[OF reg]] in auto)
  moreover have "all_data_ok B (snd st')" using all_data_step[of env "fst st" "snd st" "fst st'" "snd st'" B] step.hyps(2) step.IH assms(2) by simp
  ultimately show ?case by simp
qed

text \<open>Big mode: the players in the scope of a client have slots of their own, below 128 and not 31.\<close>

lemma scope_slots_exclusive:
  assumes "sync_reachable env (reg, gs)" "playersToSlots (data_of gs c) n = Some s"
  shows "n \<noteq> 0 \<and> s < 128 \<and> s \<noteq> 31 \<and> s \<in> playersInScope (data_of gs c) \<and> (\<forall>m. playersToSlots (data_of gs c) m = Some s \<longrightarrow> m = n)"
  using sync_data_reachable[OF assms(1), of False] assms(2) by (auto simp: all_data_ok_def data_ok_def scope_ok_def)

text \<open>C11: In every reachable state every packet of a client, of any contents that LZ4 can give, is read to its end inside its memory; its
  acknowledgements always fit their buffer, which is empty again afterwards. The acknowledgements that a client sends are read to the end too.\<close>

theorem clone_packet_answered:
  assumes "sync_reachable env (reg, gs)" "bounded env" "length packet \<le> 16384"
  shows "(\<exists>gs'. ParseClonePacket env reg now c packet gs = Some gs' \<and> GetDataLength (ackBuffer (data_of gs' c)) = 0) \<and>
    (\<exists>gs'. ParseAckPacket env reg c packet gs = Some gs')"
proof -
  have cleared: "m_curBit b = 0 \<Longrightarrow> GetDataLength b = 0" for b by (simp add: GetDataLength_def)
  have "ack_ready (ackBuffer (data_of gs c))"
    using sync_data_reachable[OF assms(1), of True] assms(2) by (simp add: all_data_ok_def data_ok_def)
  from ParseClonePacket_step[OF assms(2) _ this, of packet reg now] ParseAckPacket_step[of packet env reg c gs] assms(3)
  show ?thesis using cleared by auto
qed

text \<open>A creation that ends behind its first field, and the end of a message.\<close>

lemma clone_packet_answered_witness:
  "(\<exists>gs'. ParseClonePacket sample_sync_env two_clients 9 0 [0x20, 0, 0xE0] sample_owned = Some gs' \<and> GetDataLength (ackBuffer (data_of gs' 0)) = 0) \<and>
    (\<exists>gs'. ParseAckPacket sample_sync_env two_clients 0 [0x20, 0, 0xE0] sample_owned = Some gs')"
  by (rule clone_packet_answered[OF sample_owned_reachable sample_bounded]) simp

end
