(* ===== verification/Sync_Resend.thy ===== *)
theory Sync_Resend
  imports Sync_Steps
begin

text \<open>
  What a client has missed is sent again: the effect of \<open>gameStateNAck\<close> on the frames of the range that the client reports.
\<close>

section \<open>What the operations keep\<close>

text \<open>A predicate that no operation on a missing frame makes false.\<close>

definition stable :: "nat \<Rightarrow> nat \<Rightarrow> ('t game_state \<Rightarrow> bool) \<Rightarrow> bool" where
  "stable s c Q \<longleftrightarrow> (\<forall>gs k. Q gs \<longrightarrow> Q (recreate c k gs)) \<and> (\<forall>gs a l. Q gs \<longrightarrow> Q (resend_from s a l gs)) \<and>
     (\<forall>gs k del. Q gs \<longrightarrow> Q (change_data c (destroy_at k None del) gs))"

lemma stableI:
  assumes "\<And>gs k. Q gs \<Longrightarrow> Q (recreate c k gs)" "\<And>gs a l. Q gs \<Longrightarrow> Q (resend_from s a l gs)"
    "\<And>gs k del. Q gs \<Longrightarrow> Q (change_data c (destroy_at k None del) gs)"
  shows "stable s c Q"
  using assms by (simp add: stable_def)

lemma stable_nack_entity: "stable s c Q \<Longrightarrow> Q (snd r) \<Longrightarrow> Q (snd (nack_entity s c r x))"
  by (cases r; cases x) (simp add: stable_def nack_entity_def split: option.split)

lemma stable_nack_entities: "stable s c Q \<Longrightarrow> Q (snd r) \<Longrightarrow> Q (snd (foldl (nack_entity s c) r xs))"
  by (induction xs arbitrary: r) (simp_all add: stable_nack_entity)

lemma stable_nack_deletions: "stable s c Q \<Longrightarrow> Q gs \<Longrightarrow> Q (nack_deletions c dels gs)"
  unfolding nack_deletions_def by (induction dels arbitrary: gs) (auto simp: stable_def)

text \<open>What one element brings about under a stable condition holds after the whole list.\<close>

lemma nack_entities_establish:
  assumes "x \<in> set xs" "stable s c Q" "stable s c I" "\<And>r. I (snd r) \<Longrightarrow> Q (snd (nack_entity s c r x))" "I (snd r)"
  shows "Q (snd (foldl (nack_entity s c) r xs))"
  using assms(1,5)
proof (induction xs arbitrary: r)
  case (Cons y xs)
  show ?case
  proof (cases "x = y")
    case True
    then show ?thesis using stable_nack_entities[OF assms(2) assms(4)[OF Cons.prems(2)], of xs] by simp
  next
    case False
    then show ?thesis using Cons stable_nack_entity[OF assms(3) Cons.prems(2), of y] by simp
  qed
qed simp

lemma nack_deletions_establish:
  assumes "(k, del) \<in> set dels" "stable s c Q" "\<And>gs. Q (change_data c (destroy_at k None del) gs)"
  shows "Q (nack_deletions c dels gs)"
  using assms(1)
proof (induction dels arbitrary: gs)
  case (Cons y dels)
  obtain k' del' where y: "y = (k', del')" by (cases y)
  show ?case
  proof (cases "(k, del) = y")
    case True
    then show ?thesis using stable_nack_deletions[OF assms(2) assms(3)[of gs], of dels] by (auto simp: nack_deletions_def)
  next
    case False
    then have "(k, del) \<in> set dels" using Cons.prems by simp
    from Cons.IH[OF this, of "change_data c (destroy_at k' None del') gs"] y show ?thesis by (simp add: nack_deletions_def)
  qed
qed simp

section \<open>The frames of the range\<close>

lemma nack_frames_step:
  assumes "map_of (frameStates (data_of (snd r) c)) frame = Some f" "first \<le> frame"
  shows "\<exists>r1. snd r1 = nack_deletions c (fs_deletions f) (snd (foldl (nack_entity s c) r (fs_syncedEntities f))) \<and>
    nack_frames s c first frame r = (if frame = 0 then (False, r1) else nack_frames s c first (frame - 1) r1)"
  using assms by (subst nack_frames.simps) (auto simp: Let_def case_prod_beta)

lemma nack_frames_none: "map_of (frameStates (data_of (snd r) c)) frame = None \<Longrightarrow> first \<le> frame \<Longrightarrow> nack_frames s c first frame r = (False, r)"
  by (subst nack_frames.simps) simp

lemma nack_frames_done: "frame < first \<Longrightarrow> nack_frames s c first frame r = (True, r)"
  by (subst nack_frames.simps) simp

lemma stable_frames: "stable s c Q \<Longrightarrow> Q (snd r) \<Longrightarrow> Q (snd (snd (nack_frames s c first frame r)))"
proof (induction frame arbitrary: r)
  case 0
  show ?case
  proof (cases "map_of (frameStates (data_of (snd r) c)) 0")
    case None
    then show ?thesis using 0 nack_frames_none[of r c 0 first s] by (cases "first = 0") (simp_all add: nack_frames_done)
  next
    case (Some f)
    show ?thesis
    proof (cases "first = 0")
      case True
      then show ?thesis using nack_frames_step[OF Some, of first s] stable_nack_deletions[OF 0(1) stable_nack_entities[OF 0]] by auto
    qed (use 0 in \<open>simp add: nack_frames_done\<close>)
  qed
next
  case (Suc frame)
  show ?case
  proof (cases "first \<le> Suc frame")
    case first: True
    show ?thesis
    proof (cases "map_of (frameStates (data_of (snd r) c)) (Suc frame)")
      case (Some f)
      then obtain r1 where r1: "snd r1 = nack_deletions c (fs_deletions f) (snd (foldl (nack_entity s c) r (fs_syncedEntities f)))"
        "nack_frames s c first (Suc frame) r = nack_frames s c first frame r1"
        using nack_frames_step[OF Some first, of s] by auto
      have "Q (snd r1)" unfolding r1(1) by (rule stable_nack_deletions[OF Suc.prems(1) stable_nack_entities[OF Suc.prems]])
      from Suc.IH[OF Suc.prems(1) this] r1(2) show ?thesis by simp
    qed (use first Suc.prems in \<open>simp add: nack_frames_none\<close>)
  qed (use Suc.prems in \<open>simp add: nack_frames_done\<close>)
qed

text \<open>What a stored frame brings about holds after the range that it is in.\<close>

lemma nack_frames_establish:
  assumes "stable s c Q" "stable s c I"
    "\<And>gs. I gs \<Longrightarrow> map_of (frameStates (data_of gs c)) frame = Some f"
    "\<And>r. I (snd r) \<Longrightarrow> Q (nack_deletions c (fs_deletions f) (snd (foldl (nack_entity s c) r (fs_syncedEntities f))))"
  shows "fst (nack_frames s c first lm r) \<Longrightarrow> first \<le> frame \<Longrightarrow> frame \<le> lm \<Longrightarrow> I (snd r) \<Longrightarrow> Q (snd (snd (nack_frames s c first lm r)))"
proof (induction lm arbitrary: r)
  case 0
  then show ?case using nack_frames_step[OF assms(3), of r first s] by auto
next
  case (Suc lm)
  have first: "first \<le> Suc lm" using Suc.prems by simp
  obtain g where g: "map_of (frameStates (data_of (snd r) c)) (Suc lm) = Some g"
    using Suc.prems(1) nack_frames_none[OF _ first, of r c s] by (cases "map_of (frameStates (data_of (snd r) c)) (Suc lm)") auto
  obtain r1 where r1: "snd r1 = nack_deletions c (fs_deletions g) (snd (foldl (nack_entity s c) r (fs_syncedEntities g)))"
    "nack_frames s c first (Suc lm) r = nack_frames s c first lm r1"
    using nack_frames_step[OF g first, of s] by auto
  show ?case
  proof (cases "frame = Suc lm")
    case True
    then have "g = f" using assms(3)[OF Suc.prems(4)] g by simp
    then have "Q (snd r1)" using assms(4)[OF Suc.prems(4)] r1(1) by simp
    then show ?thesis using stable_frames[OF assms(1)] r1(2) by simp
  next
    case False
    have "I (snd r1)" unfolding r1(1) by (rule stable_nack_deletions[OF assms(2) stable_nack_entities[OF assms(2) Suc.prems(4)]])
    then show ?thesis using Suc.IH[of r1] Suc.prems r1(2) False by simp
  qed
qed

section \<open>What is sent again\<close>

definition created_again :: "nat \<Rightarrow> ident \<Rightarrow> 't game_state \<Rightarrow> bool" where
  "created_again c k gs \<longleftrightarrow> (\<forall>z. map_of (syncedEntities (data_of gs c)) k = Some z \<longrightarrow> \<not> hasCreated z \<and> hasNAckedCreate z)"

definition sent_from :: "nat \<Rightarrow> nat \<Rightarrow> nat \<Rightarrow> 't game_state \<Rightarrow> bool" where
  "sent_from s a l gs \<longleftrightarrow> (\<forall>e. entities gs a = Some e \<longrightarrow> lastFramesSent e s \<le> l)"

definition same_frames :: "nat \<Rightarrow> 't game_state \<Rightarrow> 't game_state \<Rightarrow> bool" where
  "same_frames c gs gs' \<longleftrightarrow> frameStates (data_of gs' c) = frameStates (data_of gs c) \<and>
     (\<forall>a. map_option e_uniqifier (entities gs' a) = map_option e_uniqifier (entities gs a))"

lemmas frame_defs = recreate_def resend_from_def change_synced_def change_data_def change_entity_def destroy_at_def map_of_omap_change

lemma stable_created_again: "stable s c (created_again c k)"
  by (rule stableI) (auto simp: created_again_def frame_defs)

lemma stable_sent_from: "stable s c (sent_from s a l)"
  by (rule stableI) (auto simp: sent_from_def frame_defs min_def)

lemma stable_same_frames: "stable s c (same_frames c gs)"
  by (rule stableI) (auto simp: same_frames_def frame_defs option.map_comp comp_def)

lemma stable_deletion: "stable s c (\<lambda>gs. map_of (entitiesToDestroy (data_of gs c)) k \<noteq> None)"
  by (rule stableI) (auto simp: frame_defs update_conv')

lemma same_frames_entity: "same_frames c gs gs' \<Longrightarrow> entities gs a = Some e \<Longrightarrow> \<exists>e'. entities gs' a = Some e' \<and> e_uniqifier e' = e_uniqifier e"
  unfolding same_frames_def by (metis map_option_eq_Some)

text \<open>C14: When a client reports a range of missing frames that are all stored, every creation in them counts as not received and is sent again,
  every update in them is sent again from the frame it was made against, and every deletion in them is due again.\<close>

theorem missing_frames_sent_again:
  assumes "nack_missing s c first lm gs = (True, gs')" "first \<le> frame" "frame \<le> lm" "map_of (frameStates (data_of gs c)) frame = Some f"
  shows "(\<forall>(i, y) \<in> set (fs_syncedEntities f). \<forall>e. entities gs (entityWeak y) = Some e \<longrightarrow>
      (if isCreated y then sent_from s (entityWeak y) (lastSent y) gs' else created_again c (MakeHandleUniqifierPair i (e_uniqifier e)) gs')) \<and>
    (\<forall>(k, del) \<in> set (fs_deletions f). map_of (entitiesToDestroy (data_of gs' c)) k \<noteq> None)"
proof -
  obtain corrections gs1 where n: "nack_frames s c first lm ([], gs) = (True, corrections, gs1)" "gs' = correct_newer c lm corrections gs1"
    using assms(1) by (auto simp: nack_missing_def split: prod.splits if_splits)
  have keep: "entities gs' = entities gs1" "\<And>k. created_again c k gs' = created_again c k gs1"
    "entitiesToDestroy (data_of gs' c) = entitiesToDestroy (data_of gs1 c)"
    by (simp_all add: n(2) correct_newer_def change_data_def created_again_def)
  have frame: "map_of (frameStates (data_of g c)) frame = Some f" if "same_frames c gs g" for g
    using that assms(4) by (simp add: same_frames_def)
  have start: "same_frames c gs gs" by (simp add: same_frames_def)
  have establish: "Q gs1" if q: "stable s c Q" "\<And>r. same_frames c gs (snd r) \<Longrightarrow>
      Q (nack_deletions c (fs_deletions f) (snd (foldl (nack_entity s c) r (fs_syncedEntities f))))" for Q
  proof -
    have "Q (snd (snd (nack_frames s c first lm ([], gs))))"
      by (rule nack_frames_establish[OF q(1) stable_same_frames[of s c gs] frame q(2)]) (use n(1) assms(2,3) start in simp_all)
    then show ?thesis using n(1) by simp
  qed
  have entity: "if isCreated y then sent_from s (entityWeak y) (lastSent y) gs' else created_again c (MakeHandleUniqifierPair i (e_uniqifier e)) gs'"
    if y: "(i, y) \<in> set (fs_syncedEntities f)" "entities gs (entityWeak y) = Some e" for i y e
  proof (cases "isCreated y")
    case True
    have "sent_from s (entityWeak y) (lastSent y) (snd (nack_entity s c r (i, y)))" if "same_frames c gs (snd r)" for r
      using same_frames_entity[OF that y(2)] True by (cases r) (auto simp: nack_entity_def sent_from_def frame_defs)
    from nack_entities_establish[OF y(1) stable_sent_from stable_same_frames this]
    have "sent_from s (entityWeak y) (lastSent y) gs1"
      by (intro establish[OF stable_sent_from]) (auto intro: stable_nack_deletions[OF stable_sent_from])
    then show ?thesis using True keep(1) by (simp add: sent_from_def)
  next
    case False
    let ?k = "MakeHandleUniqifierPair i (e_uniqifier e)"
    have "created_again c ?k (snd (nack_entity s c r (i, y)))" if "same_frames c gs (snd r)" for r
      using same_frames_entity[OF that y(2)] False by (cases r) (auto simp: nack_entity_def created_again_def frame_defs)
    from nack_entities_establish[OF y(1) stable_created_again stable_same_frames this]
    have "created_again c ?k gs1"
      by (intro establish[OF stable_created_again]) (auto intro: stable_nack_deletions[OF stable_created_again])
    then show ?thesis using False keep(2) by simp
  qed
  have deletion: "map_of (entitiesToDestroy (data_of gs' c)) k \<noteq> None" if d: "(k, del) \<in> set (fs_deletions f)" for k del
    unfolding keep(3)
    by (rule establish[OF stable_deletion])
      (rule nack_deletions_establish[OF d stable_deletion], simp add: frame_defs update_conv')
  show ?thesis using entity deletion by blast
qed

text \<open>A frame in which one entity was created and another deleted.\<close>

definition sample_missed :: "unit game_state" where
  "sample_missed = new_game_state\<lparr>entities := (\<lambda>_. None)(0 \<mapsto> (blank_entity Ped 8191)\<lparr>e_uniqifier := 7\<rparr>),
     data_of := (\<lambda>_. new_client_data)(0 := new_client_data\<lparr>
       syncedEntities := [(MakeHandleUniqifierPair 8191 7, \<lparr>nextSync = 0, syncDelta = 10, sy_entity = 0, forceUpdate = False, hasCreated = True,
         hasNAckedCreate = False\<rparr>)],
       frameStates := [(5, \<lparr>fs_syncedEntities = [(8191, \<lparr>entityWeak = 0, lastSent = 0, isCreated = False\<rparr>)],
         fs_deletions = [(77, \<lparr>outOfScope = False, forceSteal = False\<rparr>)]\<rparr>)]\<rparr>)\<rparr>"

lemma missing_frames_sent_again_witness:
  "created_again 0 (MakeHandleUniqifierPair 8191 7) (snd (nack_missing 128 0 5 5 sample_missed)) \<and>
    map_of (syncedEntities (data_of (snd (nack_missing 128 0 5 5 sample_missed)) 0)) (MakeHandleUniqifierPair 8191 7) \<noteq> None \<and>
    map_of (entitiesToDestroy (data_of (snd (nack_missing 128 0 5 5 sample_missed)) 0)) 77 \<noteq> None"
proof -
  define gs' where "gs' = snd (nack_missing 128 0 5 5 sample_missed)"
  have frame: "map_of (frameStates (data_of sample_missed 0)) 5 = Some \<lparr>fs_syncedEntities = [(8191, \<lparr>entityWeak = 0, lastSent = 0, isCreated = False\<rparr>)],
      fs_deletions = [(77, \<lparr>outOfScope = False, forceSteal = False\<rparr>)]\<rparr>" by (simp add: sample_missed_def)
  have n: "fst (nack_missing 128 0 5 5 sample_missed)"
    "map_of (syncedEntities (data_of gs' 0)) (MakeHandleUniqifierPair 8191 7) \<noteq> None"
    unfolding gs'_def
    by (simp_all add: nack_missing_def nack_frames.simps sample_missed_def nack_entity_def nack_deletions_def correct_newer_def frame_defs)
  then have run: "nack_missing 128 0 5 5 sample_missed = (True, gs')" by (cases "nack_missing 128 0 5 5 sample_missed") (simp add: gs'_def)
  have "entities sample_missed 0 = Some ((blank_entity Ped 8191)\<lparr>e_uniqifier := 7\<rparr>)" by (simp add: sample_missed_def)
  then show ?thesis using missing_frames_sent_again[OF run _ _ frame] n(2) unfolding gs'_def by simp
qed

end
