(* ===== verification/World_Grid.thy ===== *)
theory World_Grid
  imports Net_Buffer
begin

text \<open>
  The world grid of a routing bucket (\<open>UpdateWorldGrid\<close>, \<open>SendWorldGrid\<close> and \<open>ClearClientFromWorldGrid\<close> in
  src/state/ServerGameState.cpp of the server): which client populates which sector of the map. A client has 32 entries under
  its slot; a table has the owner of each of the 256 by 256 sectors. \<open>None\<close> is an access outside the table. The game keeps a
  copy of its own entries (gta-net-five, CloneExperiments.cpp). Positions are floating-point numbers; the sectors of a client are
  what is computed from them.
\<close>

section \<open>The state\<close>

record grid_entry =
  sectorX :: byte
  sectorY :: byte
  g_netID :: u16

definition free_entry :: grid_entry where
  "free_entry = \<lparr>sectorX = 0, sectorY = 0, g_netID = 0xFFFF\<rparr>"

record world_grid =
  grid_state :: "nat \<Rightarrow> grid_entry list"
  netIDs :: "nat \<Rightarrow> nat \<Rightarrow> u16"

definition new_grid :: world_grid where
  "new_grid = \<lparr>grid_state = (\<lambda>_. replicate 32 free_entry), netIDs = (\<lambda>_ _. 0xFFFF)\<rparr>"

definition sector_owner :: "world_grid \<Rightarrow> nat \<Rightarrow> nat \<Rightarrow> u16 option" where
  "sector_owner g x y = (if x < 256 \<and> y < 256 then Some (netIDs g x y) else None)"

definition set_owner :: "nat \<Rightarrow> nat \<Rightarrow> u16 \<Rightarrow> world_grid \<Rightarrow> world_grid" where
  "set_owner x y n g = g\<lparr>netIDs := (netIDs g)(x := (netIDs g x)(y := n))\<rparr>"

definition set_entry :: "nat \<Rightarrow> nat \<Rightarrow> grid_entry \<Rightarrow> world_grid \<Rightarrow> world_grid" where
  "set_entry s i e g = g\<lparr>grid_state := (grid_state g)(s := (grid_state g s)[i := e])\<rparr>"

text \<open>A client, as far as the grid is concerned; it has no sectors as long as it has no position.\<close>

record grid_client =
  gc_slot :: u32
  gc_netId :: u32
  gc_bucket :: u32
  gc_sectors :: "(nat \<times> nat \<times> nat \<times> nat) option"

type_synonym cooldowns = "u16 \<Rightarrow> int option"

section \<open>Messages\<close>

definition entry_bytes :: "grid_entry \<Rightarrow> byte list" where
  "entry_bytes e = [sectorX e, sectorY e] @ le_bytes 2 (g_netID e)"

text \<open>The states of all slots as one run of bytes, 128 for each.\<close>

definition state_byte :: "world_grid \<Rightarrow> nat \<Rightarrow> byte" where
  "state_byte g k = entry_bytes (grid_state g (k div 128) ! (k mod 128 div 4)) ! (k mod 4)"

text \<open>The packet for an entry (slot and index), or for all of the slot's state; \<open>None\<close> when nothing is sent.\<close>

definition SendWorldGrid :: "u32 \<Rightarrow> u32 \<Rightarrow> world_grid \<Rightarrow> (nat \<times> nat) option \<Rightarrow> byte list option" where
  "SendWorldGrid message slotId g entry =
     (let base = (case entry of None \<Rightarrow> 0 | Some (s, i) \<Rightarrow> (32 * s + i) * 4);
          len = (case entry of None \<Rightarrow> 128 | Some _ \<Rightarrow> 4);
          baseRef = 128 * unat slotId; lengthRef = 128
      in if slotId = - 1 then None
         else if \<not> base < baseRef \<and> base > baseRef + lengthRef then None
         else
           let base = (if base < baseRef then baseRef else base); len = min lengthRef len in
           Some (le_bytes 4 message @ le_bytes 4 (word_of_nat (base - baseRef) :: u32) @ le_bytes 4 (word_of_nat len :: u32) @
             map (state_byte g) [base..<base + len]))"

text \<open>The game's handler, behind the type of the message; \<open>copy\<close> is \<open>g_worldGrid2\<close>.\<close>

definition receive_grid :: "byte list \<Rightarrow> byte list \<Rightarrow> byte list option" where
  "receive_grid data copy = do {
     (base, b) \<leftarrow> Read_u32 (buffer_of_bytes data);
     (len, b) \<leftarrow> Read_u32 b;
     if unat base + unat len > length copy then Some copy
     else map_option (\<lambda>(_, copy, _). copy) (Read_net copy (unat base) (unat len) b) }"

section \<open>One client\<close>

definition in_sectors :: "nat \<times> nat \<times> nat \<times> nat \<Rightarrow> nat \<Rightarrow> nat \<Rightarrow> bool" where
  "in_sectors r x y = (case r of (minX, maxX, minY, maxY) \<Rightarrow> minX \<le> x \<and> x \<le> maxX \<and> minY \<le> y \<and> y \<le> maxY)"

definition sec_addr :: "nat \<Rightarrow> nat \<Rightarrow> u16" where
  "sec_addr x y = push_bit 8 (word_of_nat x) OR word_of_nat y"

definition forget_cooldowns :: "nat \<times> nat \<times> nat \<times> nat \<Rightarrow> cooldowns \<Rightarrow> cooldowns" where
  "forget_cooldowns r cd = (\<lambda>k. if in_sectors r (unat (drop_bit 8 k)) (unat (k AND 0xFF)) then cd k else None)"

type_synonym grid_run = "world_grid \<times> cooldowns \<times> byte list list"

definition send_entry :: "u32 \<Rightarrow> grid_client \<Rightarrow> nat \<Rightarrow> world_grid \<Rightarrow> byte list list" where
  "send_entry message c i g = (case SendWorldGrid message (gc_slot c) g (Some (unat (gc_slot c), i)) of None \<Rightarrow> [] | Some m \<Rightarrow> [m])"

text \<open>Entries that are not near any more are given up.\<close>

definition disown :: "u32 \<Rightarrow> grid_client \<Rightarrow> nat \<times> nat \<times> nat \<times> nat \<Rightarrow> grid_run \<Rightarrow> nat \<Rightarrow> grid_run" where
  "disown message c r run i =
     (case run of (g, cd, out) \<Rightarrow>
      let s = unat (gc_slot c); e = grid_state g s ! i; x = unat (sectorX e); y = unat (sectorY e) in
      if g_netID e = 0xFFFF \<or> in_sectors r x y then run
      else
        let g = (if ucast (netIDs g x y) = gc_netId c then set_owner x y (- 1) g else g);
            g = set_entry s i free_entry g
        in (g, cd(sec_addr x y := None), out @ send_entry message c i g))"

text \<open>A sector that has been free for a while is taken when an entry is free.\<close>

definition cool_down :: "int \<Rightarrow> u16 \<Rightarrow> bool \<Rightarrow> cooldowns \<Rightarrow> bool \<times> cooldowns" where
  "cool_down now k found cd =
     (if found then (True, cd(k := None))
      else
        let t = (case cd k of None \<Rightarrow> now + 100 | Some t \<Rightarrow> t) in (now < t, cd(k \<mapsto> t)))"

definition free_index :: "grid_entry list \<Rightarrow> nat option" where
  "free_index es = List.find (\<lambda>i. g_netID (es ! i) = 0xFFFF) [0..<length es]"

definition claim :: "u32 \<Rightarrow> grid_client \<Rightarrow> int \<Rightarrow> nat \<times> nat \<Rightarrow> grid_run \<Rightarrow> grid_run option" where
  "claim message c now p run =
     (case (p, run) of ((x, y), (g, cd, out)) \<Rightarrow> do {
        owner \<leftarrow> sector_owner g x y;
        let s = unat (gc_slot c);
        let (found, cd) = cool_down now (sec_addr x y) (owner \<noteq> 0xFFFF) cd;
        if found then Some (g, cd, out)
        else case free_index (grid_state g s) of
          None \<Rightarrow> Some (g, cd, out)
        | Some i \<Rightarrow>
            let g = set_owner x y (ucast (gc_netId c)) (set_entry s i \<lparr>sectorX = word_of_nat x, sectorY = word_of_nat y, g_netID = ucast (gc_netId c)\<rparr> g)
            in Some (g, cd, out @ send_entry message c i g) })"

fun claims :: "u32 \<Rightarrow> grid_client \<Rightarrow> int \<Rightarrow> (nat \<times> nat) list \<Rightarrow> grid_run \<Rightarrow> grid_run option" where
  "claims message c now [] run = Some run"
| "claims message c now (p # ps) run = Option.bind (claim message c now p run) (claims message c now ps)"

definition sector_list :: "nat \<times> nat \<times> nat \<times> nat \<Rightarrow> (nat \<times> nat) list" where
  "sector_list r = (case r of (minX, maxX, minY, maxY) \<Rightarrow> concat (map (\<lambda>x. map (Pair x) [minY..<Suc maxY]) [minX..<Suc maxX]))"

text \<open>The first sector is compared with the size by \<open>>\<close>, and the last one is not compared.\<close>

definition update_client_grid :: "u32 \<Rightarrow> grid_client \<Rightarrow> int \<Rightarrow> nat \<times> nat \<times> nat \<times> nat \<Rightarrow> world_grid \<times> cooldowns \<Rightarrow> grid_run option" where
  "update_client_grid message c now r gc =
     (case (r, gc) of ((minX, maxX, minY, maxY), (g, cd)) \<Rightarrow>
      if minX > 256 \<or> minY > 256 then Some (g, cd, [])
      else claims message c now (sector_list r) (foldl (disown message c r) (g, forget_cooldowns r cd, []) [0..<32]))"

section \<open>All clients\<close>

record grids =
  m_worldGrids :: "u32 \<Rightarrow> world_grid option"
  worldGridCooldown :: "nat \<Rightarrow> cooldowns"
  nextWorldCheck :: int

definition new_grids :: grids where
  "new_grids = \<lparr>m_worldGrids = (\<lambda>_. None), worldGridCooldown = (\<lambda>_ _. None), nextWorldCheck = 0\<rparr>"

definition clean_grid :: "(u16 \<Rightarrow> bool) \<Rightarrow> world_grid \<Rightarrow> world_grid" where
  "clean_grid known g = g\<lparr>netIDs := (\<lambda>x y. if netIDs g x y \<noteq> 0xFFFF \<and> \<not> known (netIDs g x y) then 0xFFFF else netIDs g x y)\<rparr>"

text \<open>Every ten seconds the table forgets owners that have left, and grids of buckets without clients go.\<close>

definition check_grids :: "int \<Rightarrow> (u16 \<Rightarrow> bool) \<Rightarrow> u32 set \<Rightarrow> grids \<Rightarrow> grids" where
  "check_grids now known buckets w =
     (if nextWorldCheck w \<le> now
      then w\<lparr>m_worldGrids := (\<lambda>b. if b \<in> buckets then map_option (clean_grid known) (m_worldGrids w b) else None), nextWorldCheck := now + 10000\<rparr>
      else w)"

definition grid_at :: "u32 \<Rightarrow> grids \<Rightarrow> world_grid" where
  "grid_at b w = (case m_worldGrids w b of None \<Rightarrow> new_grid | Some g \<Rightarrow> g)"

definition update_one :: "u32 \<Rightarrow> int \<Rightarrow> grids \<times> (nat \<times> byte list) list \<Rightarrow> nat \<times> grid_client \<Rightarrow> (grids \<times> (nat \<times> byte list) list) option" where
  "update_one message now run x =
     (case (run, x) of ((w, out), (c, gc)) \<Rightarrow>
      if gc_slot gc = - 1 then Some (w, out)
      else case gc_sectors gc of
        None \<Rightarrow> Some (w, out)
      | Some r \<Rightarrow> do {
          (g, cd, ms) \<leftarrow> update_client_grid message gc now r (grid_at (gc_bucket gc) w, worldGridCooldown w c);
          Some (w\<lparr>m_worldGrids := (m_worldGrids w)(gc_bucket gc \<mapsto> g), worldGridCooldown := (worldGridCooldown w)(c := cd)\<rparr>,
                out @ map (Pair c) ms) })"

fun update_all :: "u32 \<Rightarrow> int \<Rightarrow> (nat \<times> grid_client) list \<Rightarrow> grids \<times> (nat \<times> byte list) list \<Rightarrow> (grids \<times> (nat \<times> byte list) list) option" where
  "update_all message now [] run = Some run"
| "update_all message now (x # xs) run = Option.bind (update_one message now run x) (update_all message now xs)"

definition UpdateWorldGrid :: "u32 \<Rightarrow> int \<Rightarrow> (u16 \<Rightarrow> bool) \<Rightarrow> (nat \<times> grid_client) list \<Rightarrow> grids \<Rightarrow> (grids \<times> (nat \<times> byte list) list) option" where
  "UpdateWorldGrid message now known cs w = update_all message now cs (check_grids now known (gc_bucket ` snd ` set cs) w, [])"

definition clear_client :: "grid_client \<Rightarrow> world_grid \<Rightarrow> world_grid" where
  "clear_client c g =
     (let g = (if gc_slot c \<noteq> - 1
               then g\<lparr>grid_state := (grid_state g)(unat (gc_slot c) := map (\<lambda>_. free_entry) (grid_state g (unat (gc_slot c))))\<rparr> else g)
      in g\<lparr>netIDs := (\<lambda>x y. if ucast (netIDs g x y) = gc_netId c then 0xFFFF else netIDs g x y)\<rparr>)"

definition ClearClientFromWorldGrid :: "u32 \<Rightarrow> grid_client \<Rightarrow> grids \<Rightarrow> grids \<times> byte list option" where
  "ClearClientFromWorldGrid message c w =
     (case m_worldGrids w (gc_bucket c) of
        None \<Rightarrow> (w, None)
      | Some g \<Rightarrow> (w\<lparr>m_worldGrids := (m_worldGrids w)(gc_bucket c \<mapsto> clear_client c g)\<rparr>, SendWorldGrid message (gc_slot c) (clear_client c g) None))"

section \<open>Steps\<close>

text \<open>
  Clients join with a slot and a net id that no other client has, tick with any positions, change their bucket, and leave; the
  server clears a client before it leaves or changes the bucket. What the registry knows are the net ids of the members.
\<close>

type_synonym members = "nat \<Rightarrow> grid_client option"

definition member_slots :: "members \<Rightarrow> (nat \<times> grid_client) list \<Rightarrow> bool" where
  "member_slots m cs \<longleftrightarrow> (\<forall>(c, gc) \<in> set cs. \<exists>gc'. m c = Some gc' \<and> gc_slot gc = gc_slot gc' \<and> gc_netId gc = gc_netId gc' \<and> gc_bucket gc = gc_bucket gc')"

definition known_member :: "members \<Rightarrow> u16 \<Rightarrow> bool" where
  "known_member m n \<longleftrightarrow> (\<exists>c gc. m c = Some gc \<and> gc_netId gc = ucast n)"

inductive grid_step :: "u32 \<Rightarrow> members \<times> grids \<Rightarrow> members \<times> grids \<Rightarrow> bool" for message where
  join: "m c = None \<Longrightarrow> (\<forall>d gd. m d = Some gd \<longrightarrow> gc_slot gd \<noteq> gc_slot gc \<and> gc_netId gd \<noteq> gc_netId gc) \<Longrightarrow> gc_slot gc \<noteq> - 1 \<Longrightarrow>
    gc_netId gc < 0xFFFF \<Longrightarrow> grid_step message (m, w) (m(c \<mapsto> gc), w\<lparr>worldGridCooldown := (worldGridCooldown w)(c := (\<lambda>_. None))\<rparr>)"
| tick: "member_slots m cs \<Longrightarrow> (\<forall>n. known_member m n \<longrightarrow> known n) \<Longrightarrow> UpdateWorldGrid message now known cs w = Some (w', out) \<Longrightarrow>
    grid_step message (m, w) (m, w')"
| move: "m c = Some gc \<Longrightarrow> grid_step message (m, w) (m(c \<mapsto> gc\<lparr>gc_bucket := b\<rparr>), fst (ClearClientFromWorldGrid message gc w))"
| leave: "m c = Some gc \<Longrightarrow> grid_step message (m, w) (m(c := None), fst (ClearClientFromWorldGrid message gc w))"

inductive grid_reachable :: "u32 \<Rightarrow> members \<times> grids \<Rightarrow> bool" for message where
  start: "grid_reachable message (\<lambda>_. None, new_grids)"
| step: "grid_reachable message st \<Longrightarrow> grid_step message st st' \<Longrightarrow> grid_reachable message st'"

end
