(* ===== verification/World_Grid_Properties.thy ===== *)
theory World_Grid_Properties
  imports World_Grid
begin

text \<open>
  No sector belongs to two clients, whatever they do; the game's copy of its entries follows the server's; and where a position makes the
  server leave its table.
\<close>

section \<open>Entries and owners\<close>

definition entry_at :: "world_grid \<Rightarrow> nat \<Rightarrow> nat \<Rightarrow> grid_entry option" where
  "entry_at g s i = (if i < 32 \<and> g_netID (grid_state g s ! i) \<noteq> 0xFFFF then Some (grid_state g s ! i) else None)"

definition sector_of :: "grid_entry \<Rightarrow> nat \<times> nat" where
  "sector_of e = (unat (sectorX e), unat (sectorY e))"

definition member_of :: "members \<Rightarrow> u32 \<Rightarrow> nat \<Rightarrow> u16 \<Rightarrow> bool" where
  "member_of m b s n \<longleftrightarrow> (\<exists>c gc. m c = Some gc \<and> unat (gc_slot gc) = s \<and> gc_bucket gc = b \<and> gc_netId gc = ucast n)"

text \<open>Every entry is that of a client in the bucket, and the table has it as the owner of the sector.\<close>

definition grid_ok :: "members \<Rightarrow> u32 \<Rightarrow> world_grid \<Rightarrow> bool" where
  "grid_ok m b g \<longleftrightarrow> (\<forall>s. length (grid_state g s) = 32) \<and>
     (\<forall>s i e. entry_at g s i = Some e \<longrightarrow> member_of m b s (g_netID e) \<and> netIDs g (unat (sectorX e)) (unat (sectorY e)) = g_netID e) \<and>
     (\<forall>s i j e f. entry_at g s i = Some e \<longrightarrow> entry_at g s j = Some f \<longrightarrow> sector_of e = sector_of f \<longrightarrow> i = j)"

definition members_ok :: "members \<Rightarrow> bool" where
  "members_ok m \<longleftrightarrow> (\<forall>c gc. m c = Some gc \<longrightarrow> gc_slot gc \<noteq> - 1 \<and> gc_netId gc < 0xFFFF) \<and>
     (\<forall>c d gc gd. m c = Some gc \<longrightarrow> m d = Some gd \<longrightarrow> gc_slot gc = gc_slot gd \<or> gc_netId gc = gc_netId gd \<longrightarrow> c = d)"

lemma grid_okI:
  assumes "\<And>s. length (grid_state g s) = 32"
    "\<And>s i e. entry_at g s i = Some e \<Longrightarrow> member_of m b s (g_netID e) \<and> netIDs g (unat (sectorX e)) (unat (sectorY e)) = g_netID e"
    "\<And>s i j e f. entry_at g s i = Some e \<Longrightarrow> entry_at g s j = Some f \<Longrightarrow> sector_of e = sector_of f \<Longrightarrow> i = j"
  shows "grid_ok m b g"
  using assms unfolding grid_ok_def by blast

lemma grid_okD:
  assumes "grid_ok m b g"
  shows "length (grid_state g s) = 32"
    "entry_at g s i = Some e \<Longrightarrow> member_of m b s (g_netID e)" "entry_at g s i = Some e \<Longrightarrow> netIDs g (unat (sectorX e)) (unat (sectorY e)) = g_netID e"
    "entry_at g s i = Some e \<Longrightarrow> entry_at g s j = Some f \<Longrightarrow> sector_of e = sector_of f \<Longrightarrow> i = j"
  using assms unfolding grid_ok_def by blast+

lemma member_slot:
  assumes "members_ok m" "member_of m b s n" "member_of m b t n"
  shows "s = t"
proof -
  obtain c gc d gd where m: "m c = Some gc" "unat (gc_slot gc) = s" "gc_netId gc = ucast n" "m d = Some gd" "unat (gc_slot gd) = t" "gc_netId gd = ucast n"
    using assms(2,3) unfolding member_of_def by blast
  then have "c = d" using assms(1) unfolding members_ok_def by metis
  then show ?thesis using m by simp
qed

lemma sector_exclusive:
  assumes "members_ok m" "grid_ok m b g" "entry_at g s i = Some e" "entry_at g t j = Some f" "sector_of e = sector_of f"
  shows "s = t \<and> i = j"
proof -
  have "g_netID e = g_netID f" using grid_okD(3)[OF assms(2)] assms(3-5) by (metis prod.inject sector_of_def)
  then have "s = t" using member_slot[OF assms(1) grid_okD(2)[OF assms(2,3)]] grid_okD(2)[OF assms(2,4)] by simp
  then show ?thesis using grid_okD(4)[OF assms(2,3)] assms(4,5) by simp
qed

lemma entry_at_value: "entry_at g s i = Some e \<Longrightarrow> i < 32 \<and> e = grid_state g s ! i \<and> g_netID e \<noteq> 0xFFFF"
  by (auto simp: entry_at_def split: if_splits)

lemma entry_at_owner [simp]: "entry_at (set_owner x y n g) s i = entry_at g s i"
  by (simp add: entry_at_def set_owner_def)

lemma entry_at_set:
  "length (grid_state g s) = 32 \<Longrightarrow>
    entry_at (set_entry s i e g) t j = (if t = s \<and> j = i \<and> i < 32 then (if g_netID e \<noteq> 0xFFFF then Some e else None) else entry_at g t j)"
  by (cases "i < 32") (auto simp: entry_at_def set_entry_def nth_list_update)

lemma entry_at_new [simp]: "entry_at new_grid s i = None"
  by (simp add: entry_at_def new_grid_def free_entry_def)

lemma grid_ok_new: "grid_ok m b new_grid"
  by (rule grid_okI) (simp_all, simp add: new_grid_def)

text \<open>Net ids of clients are below 0xFFFF, so the 16 bits of the grid are enough.\<close>

lemma narrow_u16: "n < (0xFFFF :: u32) \<Longrightarrow> ucast (ucast n :: u16) = n"
proof -
  assume "n < 0xFFFF"
  then have "unat n < 0xFFFF" by (simp add: word_less_nat_alt)
  then show ?thesis by (simp add: word_unat_eq_iff unsigned_ucast_eq unsigned_take_bit_eq take_bit_nat_eq_self)
qed

lemma narrow_not_free: "n < (0xFFFF :: u32) \<Longrightarrow> (ucast n :: u16) \<noteq> 0xFFFF"
proof
  assume n: "n < 0xFFFF" "(ucast n :: u16) = 0xFFFF"
  then have "n = ucast (0xFFFF :: u16)" using narrow_u16[OF n(1)] by simp
  then show False using n(1) by simp
qed

lemma same_u16: "ucast (a :: u16) = (ucast b :: u32) \<longleftrightarrow> a = b"
proof
  assume "(ucast a :: u32) = ucast b"
  then have "(ucast (ucast a :: u32) :: u16) = ucast (ucast b :: u32)" by simp
  then show "a = b" by (simp add: ucast_down_ucast_id is_down)
qed simp

section \<open>Operations keep it\<close>

text \<open>An entry goes with its owner, or comes for a sector that nobody owns.\<close>

lemma grid_ok_give_up:
  assumes "members_ok m" "grid_ok m b g" "entry_at g s i = Some e"
  shows "grid_ok m b (set_entry s i free_entry (set_owner (unat (sectorX e)) (unat (sectorY e)) n g))"
proof -
  let ?g = "set_entry s i free_entry (set_owner (unat (sectorX e)) (unat (sectorY e)) n g)"
  have len: "length (grid_state (set_owner x y n g) t) = 32" for x y t using grid_okD(1)[OF assms(2)] by (simp add: set_owner_def)
  have at: "entry_at ?g t j = (if t = s \<and> j = i then None else entry_at g t j)" for t j
    using entry_at_value[OF assms(3)] entry_at_set[OF len] by (auto simp: free_entry_def)
  have keep: "netIDs ?g (unat (sectorX f)) (unat (sectorY f)) = netIDs g (unat (sectorX f)) (unat (sectorY f))" if "entry_at ?g t j = Some f" for t j f
  proof -
    have f: "entry_at g t j = Some f" "\<not> (t = s \<and> j = i)" using that at by (auto split: if_splits)
    then have "sector_of f \<noteq> sector_of e" using sector_exclusive[OF assms(1,2) f(1) assms(3)] by blast
    then show ?thesis by (auto simp: sector_of_def set_entry_def set_owner_def)
  qed
  show ?thesis
  proof (rule grid_okI)
    show "length (grid_state ?g t) = 32" for t using grid_okD(1)[OF assms(2)] by (simp add: set_entry_def set_owner_def)
    show "member_of m b t (g_netID f) \<and> netIDs ?g (unat (sectorX f)) (unat (sectorY f)) = g_netID f" if "entry_at ?g t j = Some f" for t j f
    proof -
      have "entry_at g t j = Some f" using that at by (auto split: if_splits)
      then show ?thesis using grid_okD(2,3)[OF assms(2)] keep[OF that] by simp
    qed
    show "j = k" if "entry_at ?g t j = Some f" "entry_at ?g t k = Some h" "sector_of f = sector_of h" for t j k f h
      using that at grid_okD(4)[OF assms(2)] by (auto split: if_splits)
  qed
qed

lemma grid_ok_take:
  assumes "grid_ok m b g" "netIDs g x y = 0xFFFF" "x < 256" "y < 256" "i < 32" "member_of m b s n" "n \<noteq> 0xFFFF"
  shows "grid_ok m b (set_owner x y n (set_entry s i \<lparr>sectorX = word_of_nat x, sectorY = word_of_nat y, g_netID = n\<rparr> g))"
proof -
  let ?e = "\<lparr>sectorX = word_of_nat x, sectorY = word_of_nat y, g_netID = n\<rparr>"
  let ?g = "set_owner x y n (set_entry s i ?e g)"
  have at: "entry_at ?g t j = (if t = s \<and> j = i then Some ?e else entry_at g t j)" for t j
    using entry_at_set[OF grid_okD(1)[OF assms(1)]] assms(5,7) by auto
  have sector: "unat (word_of_nat x :: byte) = x" "unat (word_of_nat y :: byte) = y" using assms(3,4) by (simp_all add: unat_of_nat)
  have other: "sector_of f \<noteq> (x, y)" if "entry_at g t j = Some f" for t j f
    using grid_okD(3)[OF assms(1) that] entry_at_value[OF that] assms(2) by (auto simp: sector_of_def)
  show ?thesis
  proof (rule grid_okI)
    show "length (grid_state ?g t) = 32" for t using grid_okD(1)[OF assms(1)] by (simp add: set_entry_def set_owner_def)
    show "member_of m b t (g_netID f) \<and> netIDs ?g (unat (sectorX f)) (unat (sectorY f)) = g_netID f" if f: "entry_at ?g t j = Some f" for t j f
    proof (cases "t = s \<and> j = i")
      case True
      then show ?thesis using f at assms(6) sector by (auto simp: set_owner_def)
    next
      case False
      then have "entry_at g t j = Some f" using f at by auto
      then show ?thesis using grid_okD(2,3)[OF assms(1)] other by (fastforce simp: set_owner_def set_entry_def sector_of_def)
    qed
    show "j = k" if "entry_at ?g t j = Some f" "entry_at ?g t k = Some h" "sector_of f = sector_of h" for t j k f h
      using that at grid_okD(4)[OF assms(1)] other[of t j f] other[of t k h] sector by (auto simp: sector_of_def split: if_splits)
  qed
qed

lemma grid_ok_disown:
  assumes "members_ok m" "grid_ok m b (fst run)" "member_of m b (unat (gc_slot c)) (ucast (gc_netId c))" "gc_netId c < 0xFFFF"  "i < 32"
  shows "grid_ok m b (fst (disown message c r run i))"
proof -
  obtain g cd out where run: "run = (g, cd, out)" by (cases run)
  let ?s = "unat (gc_slot c)"
  define e where "e = grid_state g ?s ! i"
  show ?thesis
  proof (cases "g_netID e = 0xFFFF \<or> in_sectors r (unat (sectorX e)) (unat (sectorY e))")
    case True
    then show ?thesis using assms(2) run by (simp add: disown_def Let_def e_def)
  next
    case False
    have ok: "grid_ok m b g" using assms(2) run by simp
    have e: "entry_at g ?s i = Some e" using False assms(5) by (simp add: entry_at_def e_def)
    have "netIDs g (unat (sectorX e)) (unat (sectorY e)) = g_netID e" by (rule grid_okD(3)[OF ok e])
    moreover have "g_netID e = ucast (gc_netId c)"
    proof -
      obtain d gd d' gd' where d: "m d = Some gd" "unat (gc_slot gd) = ?s" "gc_netId gd = ucast (g_netID e)"
        "m d' = Some gd'" "unat (gc_slot gd') = ?s" "gc_netId gd' = ucast (ucast (gc_netId c) :: u16)"
        using grid_okD(2)[OF ok e] assms(3) unfolding member_of_def by blast
      then have "gc_slot gd = gc_slot gd'" by (simp add: word_unat_eq_iff)
      then have "d = d'" using assms(1) d unfolding members_ok_def by metis
      then have "(ucast (g_netID e) :: u32) = ucast (ucast (gc_netId c) :: u16)" using d by simp
      then show ?thesis by (simp only: same_u16)
    qed
    ultimately have "ucast (netIDs g (unat (sectorX e)) (unat (sectorY e))) = gc_netId c" using narrow_u16[OF assms(4)] by simp
    then have "fst (disown message c r run i) = set_entry ?s i free_entry (set_owner (unat (sectorX e)) (unat (sectorY e)) (- 1) g)"
      using False by (simp add: disown_def Let_def e_def run)
    then show ?thesis using grid_ok_give_up[OF assms(1) ok e] by simp
  qed
qed

lemma free_index_value: "free_index es = Some i \<Longrightarrow> i < length es \<and> g_netID (es ! i) = 0xFFFF"
  by (auto simp: free_index_def find_Some_iff)

lemma grid_ok_claim:
  assumes "grid_ok m b (fst run)" "member_of m b (unat (gc_slot c)) (ucast (gc_netId c))" "gc_netId c < 0xFFFF" "claim message c now p run = Some run'"
  shows "grid_ok m b (fst run')"
proof -
  obtain g cd out where run: "run = (g, cd, out)" by (cases run)
  obtain x y where p: "p = (x, y)" by (cases p)
  have ok: "grid_ok m b g" using assms(1) run by simp
  obtain n where n: "sector_owner g x y = Some n" using assms(4) by (auto simp: claim_def run p split: bind_splits)
  then have xy: "x < 256" "y < 256" "netIDs g x y = n" by (auto simp: sector_owner_def split: if_splits)
  obtain found cd' where f: "cool_down now (sec_addr x y) (n \<noteq> 0xFFFF) cd = (found, cd')" by (cases "cool_down now (sec_addr x y) (n \<noteq> 0xFFFF) cd")
  show ?thesis
  proof (cases "found \<or> free_index (grid_state g (unat (gc_slot c))) = None")
    case True
    then show ?thesis using assms(4) ok n f by (auto simp: claim_def run p Let_def split: if_splits)
  next
    case False
    then obtain i where i: "free_index (grid_state g (unat (gc_slot c))) = Some i" "\<not> found" by auto
    then have "n = 0xFFFF" using f by (auto simp: cool_down_def Let_def split: if_splits)
    moreover have "i < 32" using free_index_value[OF i(1)] grid_okD(1)[OF ok] by simp
    ultimately have "grid_ok m b (set_owner x y (ucast (gc_netId c)) (set_entry (unat (gc_slot c)) i
        \<lparr>sectorX = word_of_nat x, sectorY = word_of_nat y, g_netID = ucast (gc_netId c)\<rparr> g))"
      using grid_ok_take[OF ok] xy assms(2) narrow_not_free[OF assms(3)] by blast
    then show ?thesis using assms(4) n f i by (auto simp: claim_def run p Let_def)
  qed
qed

lemma grid_ok_claims:
  "claims message c now ps run = Some run' \<Longrightarrow> grid_ok m b (fst run) \<Longrightarrow> member_of m b (unat (gc_slot c)) (ucast (gc_netId c)) \<Longrightarrow>
    gc_netId c < 0xFFFF \<Longrightarrow> grid_ok m b (fst run')"
proof (induction ps arbitrary: run)
  case (Cons p ps)
  then obtain run1 where r: "claim message c now p run = Some run1" "claims message c now ps run1 = Some run'" by (auto split: bind_splits)
  from Cons.IH[OF r(2) grid_ok_claim[OF Cons.prems(2-4) r(1)] Cons.prems(3,4)] show ?case .
qed simp

lemma grid_ok_disowns:
  assumes "members_ok m" "member_of m b (unat (gc_slot c)) (ucast (gc_netId c))" "gc_netId c < 0xFFFF" "\<forall>i \<in> set is. i < 32"
  shows "grid_ok m b (fst run) \<Longrightarrow> grid_ok m b (fst (foldl (disown message c r) run is))"
  using assms(4)
proof (induction "is" arbitrary: run)
  case (Cons i "is")
  then show ?case using grid_ok_disown[OF assms(1) Cons.prems(1) assms(2,3)] by simp
qed simp

lemma grid_ok_update:
  assumes "members_ok m" "grid_ok m b g" "member_of m b (unat (gc_slot c)) (ucast (gc_netId c))" "gc_netId c < 0xFFFF"
    "update_client_grid message c now r (g, cd) = Some run"
  shows "grid_ok m b (fst run)"
proof -
  obtain a1 a2 a3 a4 where r: "r = (a1, a2, a3, a4)" by (cases r)
  have "grid_ok m b (fst (foldl (disown message c r) (g, forget_cooldowns r cd, []) [0..<32]))"
    by (rule grid_ok_disowns[OF assms(1,3,4)]) (simp_all add: assms(2))
  from grid_ok_claims[OF _ this assms(3,4)] show ?thesis
    using assms(2,5) by (auto simp: update_client_grid_def r split: if_splits)
qed

lemma grid_ok_clean:
  assumes "grid_ok m b g" "\<forall>n. known_member m n \<longrightarrow> known n"
  shows "grid_ok m b (clean_grid known g)"
proof -
  have at: "entry_at (clean_grid known g) s i = entry_at g s i" for s i by (simp add: entry_at_def clean_grid_def)
  have "netIDs (clean_grid known g) (unat (sectorX e)) (unat (sectorY e)) = g_netID e" if e: "entry_at g s i = Some e" for s i e
  proof -
    have "known_member m (g_netID e)" using grid_okD(2)[OF assms(1) e] by (auto simp: member_of_def known_member_def)
    then show ?thesis using grid_okD(3)[OF assms(1) e] assms(2) by (simp add: clean_grid_def)
  qed
  then show ?thesis using grid_okD[OF assms(1)] by (intro grid_okI) (simp_all add: at, simp add: clean_grid_def)
qed

definition grids_ok :: "members \<times> grids \<Rightarrow> bool" where
  "grids_ok st \<longleftrightarrow> members_ok (fst st) \<and> (\<forall>b g. m_worldGrids (snd st) b = Some g \<longrightarrow> grid_ok (fst st) b g)"

lemma grids_ok_update_all:
  "update_all message now cs (w, out) = Some (w', out') \<Longrightarrow> member_slots m cs \<Longrightarrow> grids_ok (m, w) \<Longrightarrow> grids_ok (m, w')"
proof (induction cs arbitrary: w out)
  case (Cons x cs)
  obtain c gc where x: "x = (c, gc)" by (cases x)
  obtain w1 out1 where 1: "update_one message now (w, out) (c, gc) = Some (w1, out1)" "update_all message now cs (w1, out1) = Some (w', out')"
    using Cons.prems(1) x by (auto split: bind_splits)
  have cs: "member_slots m cs" using Cons.prems(2) by (auto simp: member_slots_def)
  obtain gc' where gc': "m c = Some gc'" "gc_slot gc = gc_slot gc'" "gc_netId gc = gc_netId gc'" "gc_bucket gc = gc_bucket gc'"
    using Cons.prems(2) x by (auto simp: member_slots_def)
  have m: "members_ok m" using Cons.prems(3) by (simp add: grids_ok_def)
  have id: "gc_netId gc < 0xFFFF" using m gc' by (simp add: members_ok_def)
  have mem: "member_of m (gc_bucket gc) (unat (gc_slot gc)) (ucast (gc_netId gc))"
    unfolding member_of_def using gc' narrow_u16[OF id] by (intro exI[of _ c] exI[of _ gc']) simp
  have old: "grid_ok m (gc_bucket gc) (grid_at (gc_bucket gc) w)"
    using Cons.prems(3) grid_ok_new by (auto simp: grid_at_def grids_ok_def split: option.split)
  have "grids_ok (m, w1)"
  proof (cases "gc_slot gc = - 1 \<or> gc_sectors gc = None")
    case True
    then show ?thesis using 1(1) Cons.prems(3) by (auto simp: update_one_def split: if_splits)
  next
    case False
    then obtain r g cd ms where u: "update_client_grid message gc now r (grid_at (gc_bucket gc) w, worldGridCooldown w c) = Some (g, cd, ms)"
      "w1 = w\<lparr>m_worldGrids := (m_worldGrids w)(gc_bucket gc \<mapsto> g), worldGridCooldown := (worldGridCooldown w)(c := cd)\<rparr>"
      using 1(1) by (auto simp: update_one_def split: bind_splits)
    have "grid_ok m (gc_bucket gc) g" using grid_ok_update[OF m old mem id u(1)] by simp
    then show ?thesis using Cons.prems(3) u(2) by (simp add: grids_ok_def)
  qed
  then show ?case using Cons.IH[OF 1(2) cs] by blast
qed simp

lemma grids_ok_tick:
  assumes "UpdateWorldGrid message now known cs w = Some (w', out)" "member_slots m cs" "\<forall>n. known_member m n \<longrightarrow> known n" "grids_ok (m, w)"
  shows "grids_ok (m, w')"
proof -
  have "grids_ok (m, check_grids now known bs w)" for bs
    using assms(4) grid_ok_clean[OF _ assms(3)] by (auto simp: grids_ok_def check_grids_def split: if_splits)
  then show ?thesis using grids_ok_update_all assms(1,2) unfolding UpdateWorldGrid_def by blast
qed

text \<open>After it was cleared a client has no entries.\<close>

lemma grid_ok_clear:
  assumes "members_ok m" "grid_ok m (gc_bucket gc) g" "m c = Some gc" "\<And>d. d \<noteq> c \<Longrightarrow> m' d = m d"
  shows "grid_ok m' (gc_bucket gc) (clear_client gc g)"
proof -
  let ?g = "clear_client gc g" and ?s = "unat (gc_slot gc)"
  have slot: "gc_slot gc \<noteq> - 1" using assms(1,3) by (simp add: members_ok_def)
  have at: "entry_at ?g t i = (if t = ?s then None else entry_at g t i)" for t i
    using slot grid_okD(1)[OF assms(2), of t] by (auto simp: entry_at_def clear_client_def Let_def free_entry_def)
  have other: "member_of m' (gc_bucket gc) t (g_netID e) \<and> ucast (g_netID e) \<noteq> gc_netId gc" if e: "entry_at g t i = Some e" "t \<noteq> ?s" for t i e
  proof -
    obtain d gd where d: "m d = Some gd" "unat (gc_slot gd) = t" "gc_bucket gd = gc_bucket gc" "gc_netId gd = ucast (g_netID e)"
      using grid_okD(2)[OF assms(2) e(1)] unfolding member_of_def by blast
    have "d \<noteq> c" using d(1,2) e(2) assms(3) by auto
    then have "gc_netId gd \<noteq> gc_netId gc" using assms(1,3) d(1) unfolding members_ok_def by metis
    then show ?thesis using d assms(4)[OF \<open>d \<noteq> c\<close>] unfolding member_of_def by auto
  qed
  show ?thesis
  proof (rule grid_okI)
    show "length (grid_state ?g t) = 32" for t using grid_okD(1)[OF assms(2)] by (simp add: clear_client_def Let_def)
    show "member_of m' (gc_bucket gc) t (g_netID e) \<and> netIDs ?g (unat (sectorX e)) (unat (sectorY e)) = g_netID e"
      if "entry_at ?g t i = Some e" for t i e
    proof -
      have e: "entry_at g t i = Some e" "t \<noteq> ?s" using that at by (auto split: if_splits)
      then show ?thesis using other[OF e] grid_okD(3)[OF assms(2) e(1)] by (simp add: clear_client_def Let_def)
    qed
    show "i = j" if "entry_at ?g t i = Some e" "entry_at ?g t j = Some f" "sector_of e = sector_of f" for t i j e f
      using that at grid_okD(4)[OF assms(2)] by (auto split: if_splits)
  qed
qed

text \<open>The grids of other buckets do not know the client.\<close>

lemma grid_ok_other:
  assumes "grid_ok m b g" "m c = Some gc" "gc_bucket gc \<noteq> b" "\<And>d. d \<noteq> c \<Longrightarrow> m' d = m d"
  shows "grid_ok m' b g"
proof -
  have "member_of m' b t n" if "member_of m b t n" for t n
    using that assms(2-4) unfolding member_of_def by (metis option.inject)
  then show ?thesis using grid_okD[OF assms(1)] by (intro grid_okI) blast+
qed

lemma grids_ok_clear:
  assumes "grids_ok (m, w)" "m c = Some gc" "\<And>d. d \<noteq> c \<Longrightarrow> m' d = m d" "members_ok m'"
  shows "grids_ok (m', fst (ClearClientFromWorldGrid message gc w))"
proof -
  have m: "members_ok m" and g: "\<And>b g. m_worldGrids w b = Some g \<Longrightarrow> grid_ok m b g" using assms(1) by (simp_all add: grids_ok_def)
  have "grid_ok m' b g'" if g': "m_worldGrids (fst (ClearClientFromWorldGrid message gc w)) b = Some g'" for b g'
  proof (cases "b = gc_bucket gc")
    case True
    then obtain h where "m_worldGrids w (gc_bucket gc) = Some h" "g' = clear_client gc h"
      using g' by (auto simp: ClearClientFromWorldGrid_def split: option.splits)
    then show ?thesis using grid_ok_clear[OF m g assms(2,3)] True by simp
  next
    case False
    then have "m_worldGrids w b = Some g'" using g' by (auto simp: ClearClientFromWorldGrid_def split: option.splits)
    then show ?thesis using grid_ok_other[OF g assms(2) _ assms(3)] False by metis
  qed
  then show ?thesis using assms(4) by (simp add: grids_ok_def)
qed

lemma grids_ok_step: "grid_step message st st' \<Longrightarrow> grids_ok st \<Longrightarrow> grids_ok st'"
proof (induction rule: grid_step.induct)
  case (join m c gc w)
  have m: "members_ok m" and g: "\<And>b g. m_worldGrids w b = Some g \<Longrightarrow> grid_ok m b g" using join.prems by (simp_all add: grids_ok_def)
  have "members_ok (m(c \<mapsto> gc))" unfolding members_ok_def
  proof (intro conjI allI impI)
    show "gc_slot gd \<noteq> - 1" "gc_netId gd < 0xFFFF" if "(m(c \<mapsto> gc)) d = Some gd" for d gd
      using that m join.hyps by (auto simp: members_ok_def split: if_splits)
    show "d = e" if "(m(c \<mapsto> gc)) d = Some gd" "(m(c \<mapsto> gc)) e = Some ge" "gc_slot gd = gc_slot ge \<or> gc_netId gd = gc_netId ge" for d e gd ge
      using that m join.hyps(2) unfolding members_ok_def by (metis fun_upd_apply option.inject)
  qed
  moreover have "grid_ok (m(c \<mapsto> gc)) b g" if "m_worldGrids w b = Some g" for b g
  proof -
    have "member_of (m(c \<mapsto> gc)) b t n" if "member_of m b t n" for t n
      using that join.hyps(1) unfolding member_of_def by (metis fun_upd_apply option.distinct(1))
    then show ?thesis using grid_okD[OF g[OF that]] by (intro grid_okI) blast+
  qed
  ultimately show ?case by (simp add: grids_ok_def)
next
  case (tick m cs known now w w' out)
  then show ?case using grids_ok_tick by blast
next
  case (move m c gc w b)
  have "members_ok (m(c \<mapsto> gc\<lparr>gc_bucket := b\<rparr>))"
    using move unfolding grids_ok_def members_ok_def by (auto split: if_splits)
  then show ?case using grids_ok_clear[OF move(2,1)] by simp
next
  case (leave m c gc w)
  have "members_ok (m(c := None))" using leave unfolding grids_ok_def members_ok_def by (auto split: if_splits)
  then show ?case using grids_ok_clear[OF leave(2,1)] by simp
qed

lemma grids_ok_reachable: "grid_reachable message st \<Longrightarrow> grids_ok st"
  by (induction rule: grid_reachable.induct) (auto simp: grids_ok_def members_ok_def new_grids_def dest: grids_ok_step)

section \<open>The copy of the game\<close>

text \<open>The bytes of a slot, and what the game makes of packets; the first four bytes are the type of the packet.\<close>

definition slot_bytes :: "world_grid \<Rightarrow> nat \<Rightarrow> byte list" where
  "slot_bytes g s = map (state_byte g) [128 * s..<128 * s + 128]"

fun receive_all :: "byte list list \<Rightarrow> byte list \<Rightarrow> byte list option" where
  "receive_all [] copy = Some copy"
| "receive_all (p # ps) copy = Option.bind (receive_grid (drop 4 p) copy) (receive_all ps)"

lemma receive_all_append: "receive_all (ps @ qs) copy = Option.bind (receive_all ps copy) (receive_all qs)"
  by (induction ps arbitrary: copy) (auto split: Option.bind_splits)

lemma receive_grid_value:
  assumes "unat (base :: u32) + unat (len :: u32) \<le> length copy" "length data = unat len"
  shows "receive_grid (le_bytes 4 base @ le_bytes 4 len @ data) copy = Some (take (unat base) copy @ data @ drop (unat base + unat len) copy)"
proof -
  have "net_wf (buffer_of_bytes bs)" "unread (buffer_of_bytes bs) = bs" for bs by (simp_all add: net_wf_def unread_def buffer_of_bytes_def)
  then obtain b where b: "Read_u32 (buffer_of_bytes (le_bytes 4 base @ le_bytes 4 len @ data)) = Some (base, b)" "net_wf b" "unread b = le_bytes 4 len @ data"
    using Read_u32_value[of "buffer_of_bytes (le_bytes 4 base @ le_bytes 4 len @ data)" base "le_bytes 4 len @ data"] by auto
  obtain b' where b': "Read_u32 b = Some (len, b')" "net_wf b'" "unread b' = data" using Read_u32_value[OF b(2,3)] by blast
  show ?thesis using b b' Read_net_fits[OF b'(2), of "unat len" "unat base" copy] assms by (simp add: receive_grid_def)
qed

lemma length_state_bytes: "length (slot_bytes g s) = 128"
  by (simp add: slot_bytes_def)

lemma state_byte_owner [simp]: "state_byte (set_owner x y n g) = state_byte g"
  by (simp add: state_byte_def set_owner_def fun_eq_iff)

lemma state_byte_set:
  assumes "i < 32" "k < 128" "\<not> (4 * i \<le> k \<and> k < 4 * i + 4)"
  shows "state_byte (set_entry s i e g) (128 * s + k) = state_byte g (128 * s + k)"
proof -
  have "k div 4 \<noteq> i" using assms(3) by auto
  moreover have "(128 * s + k) div 128 = s" "(128 * s + k) mod 128 = k" using assms(2) by simp_all
  ultimately show ?thesis by (simp add: state_byte_def set_entry_def)
qed

lemma state_byte_set_other: "t \<noteq> s \<Longrightarrow> k < 128 \<Longrightarrow> state_byte (set_entry s i e g) (128 * t + k) = state_byte g (128 * t + k)"
  by (simp add: state_byte_def set_entry_def)

text \<open>The packet of a changed entry makes the copy that of the changed state.\<close>

lemma send_entry_value:
  assumes "gc_slot c \<noteq> - 1" "i < 32" "s = unat (gc_slot c)"
  shows "send_entry message c i g = [le_bytes 4 message @ le_bytes 4 (word_of_nat (4 * i) :: u32) @ le_bytes 4 (4 :: u32) @
    map (state_byte g) [128 * s + 4 * i..<128 * s + 4 * i + 4]]"
  using assms by (simp add: send_entry_def SendWorldGrid_def Let_def algebra_simps)

lemma copy_follows_entry:
  assumes "gc_slot c \<noteq> - 1" "i < 32" "s = unat (gc_slot c)" "grid_state h = grid_state (set_entry s i e g)"
  shows "receive_all (send_entry message c i h) (slot_bytes g s) = Some (slot_bytes h s)"
proof -
  let ?new = "map (state_byte h) [128 * s + 4 * i..<128 * s + 4 * i + 4]"
  have h: "state_byte h = state_byte (set_entry s i e g)" using assms(4) by (simp add: state_byte_def fun_eq_iff)
  have small: "unat (word_of_nat (4 * i) :: u32) = 4 * i" using assms(2) by (simp add: unat_of_nat del: of_nat_mult)
  have "receive_all (send_entry message c i h) (slot_bytes g s) = Some (take (4 * i) (slot_bytes g s) @ ?new @ drop (4 * i + 4) (slot_bytes g s))"
    using receive_grid_value[of "word_of_nat (4 * i)" 4 "slot_bytes g s" ?new] assms(2) small
    by (simp add: send_entry_value[OF assms(1-3)] length_state_bytes)
  also have "take (4 * i) (slot_bytes g s) @ ?new @ drop (4 * i + 4) (slot_bytes g s) = slot_bytes h s"
  proof (rule nth_equalityI)
    show "length (take (4 * i) (slot_bytes g s) @ ?new @ drop (4 * i + 4) (slot_bytes g s)) = length (slot_bytes h s)"
      using assms(2) by (simp add: length_state_bytes)
    fix k
    assume "k < length (take (4 * i) (slot_bytes g s) @ ?new @ drop (4 * i + 4) (slot_bytes g s))"
    then have k: "k < 128" using assms(2) by (simp add: length_state_bytes)
    have "slot_bytes h s ! k = state_byte h (128 * s + k)" "slot_bytes g s ! k = state_byte g (128 * s + k)" using k by (simp_all add: slot_bytes_def)
    moreover have "state_byte h (128 * s + k) = state_byte g (128 * s + k)" if "\<not> (4 * i \<le> k \<and> k < 4 * i + 4)"
      using state_byte_set[OF assms(2) k that] h by simp
    moreover have "?new ! (k - 4 * i) = state_byte h (128 * s + k)" if "4 * i \<le> k" "k < 4 * i + 4" using that by simp
    moreover have "length (slot_bytes g s) = 128" "length ?new = 4" by (simp_all add: length_state_bytes)
    ultimately show "(take (4 * i) (slot_bytes g s) @ ?new @ drop (4 * i + 4) (slot_bytes g s)) ! k = slot_bytes h s ! k"
      using k assms(2) by (auto simp: nth_append)
  qed
  finally show ?thesis .
qed

text \<open>What has been sent so far makes the first copy that of the present state; the states of other slots stay as they are.\<close>

definition copy_follows :: "nat \<Rightarrow> world_grid \<Rightarrow> grid_run \<Rightarrow> bool" where
  "copy_follows s g run \<longleftrightarrow> (case run of (h, cd, out) \<Rightarrow>
     receive_all out (slot_bytes g s) = Some (slot_bytes h s) \<and> length (grid_state h s) = 32 \<and> (\<forall>t. t \<noteq> s \<longrightarrow> grid_state h t = grid_state g t))"

lemma copy_follows_set:
  assumes "copy_follows s g (h, cd, out)" "gc_slot c \<noteq> - 1" "i < 32" "s = unat (gc_slot c)" "grid_state h' = grid_state (set_entry s i e h)"
  shows "copy_follows s g (h', cd', out @ send_entry message c i h')"
  using copy_follows_entry[OF assms(2-5)] assms(1,3,5)
  by (simp add: copy_follows_def receive_all_append set_entry_def)

lemma copy_follows_disown:
  assumes "copy_follows s g run" "gc_slot c \<noteq> - 1" "i < 32" "s = unat (gc_slot c)"
  shows "copy_follows s g (disown message c r run i)"
proof -
  obtain h cd out where run: "run = (h, cd, out)" by (cases run)
  define x where "x = unat (sectorX (grid_state h s ! i))"
  define y where "y = unat (sectorY (grid_state h s ! i))"
  define h' where "h' = set_entry s i free_entry (if ucast (netIDs h x y) = gc_netId c then set_owner x y (- 1) h else h)"
  have "grid_state h' = grid_state (set_entry s i free_entry h)" by (simp add: h'_def set_entry_def set_owner_def)
  from copy_follows_set[OF _ assms(2-4) this, of g cd out "cd(sec_addr x y := None)" message] assms(1) run
  have "copy_follows s g (h', cd(sec_addr x y := None), out @ send_entry message c i h')" by simp
  moreover have "disown message c r run i = run \<or> disown message c r run i = (h', cd(sec_addr x y := None), out @ send_entry message c i h')"
    using run by (simp add: disown_def Let_def h'_def x_def y_def assms(4))
  ultimately show ?thesis using assms(1) by auto
qed

lemma copy_follows_claim:
  assumes "copy_follows s g run" "gc_slot c \<noteq> - 1" "s = unat (gc_slot c)" "claim message c now p run = Some run'"
  shows "copy_follows s g run'"
proof -
  obtain h cd out where run: "run = (h, cd, out)" by (cases run)
  obtain x y where p: "p = (x, y)" by (cases p)
  obtain n where n: "sector_owner h x y = Some n" using assms(4) by (auto simp: claim_def run p split: bind_splits)
  obtain found cd' where f: "cool_down now (sec_addr x y) (n \<noteq> 0xFFFF) cd = (found, cd')" by (cases "cool_down now (sec_addr x y) (n \<noteq> 0xFFFF) cd")
  have keep: "copy_follows s g (h, cd', out)" using assms(1) run by (simp add: copy_follows_def)
  show ?thesis
  proof (cases "found \<or> free_index (grid_state h s) = None")
    case True
    then show ?thesis using assms(3,4) keep n f by (auto simp: claim_def run p Let_def split: if_splits)
  next
    case False
    then obtain i where i: "free_index (grid_state h s) = Some i" "\<not> found" by auto
    have "i < 32" using free_index_value[OF i(1)] assms(1) run by (simp add: copy_follows_def)
    define e where "e = \<lparr>sectorX = word_of_nat x, sectorY = word_of_nat y, g_netID = ucast (gc_netId c)\<rparr>"
    define h' where "h' = set_owner x y (ucast (gc_netId c)) (set_entry s i e h)"
    have "grid_state h' = grid_state (set_entry s i e h)" by (simp add: h'_def set_owner_def)
    from copy_follows_set[OF keep assms(2) \<open>i < 32\<close> assms(3) this]
    have "copy_follows s g (h', cd', out @ send_entry message c i h')" .
    moreover have "run' = (h', cd', out @ send_entry message c i h')"
      using assms(3,4) n f i by (auto simp: claim_def run p Let_def h'_def e_def)
    ultimately show ?thesis by simp
  qed
qed

lemma copy_follows_claims:
  "claims message c now ps run = Some run' \<Longrightarrow> copy_follows s g run \<Longrightarrow> gc_slot c \<noteq> - 1 \<Longrightarrow> s = unat (gc_slot c) \<Longrightarrow> copy_follows s g run'"
proof (induction ps arbitrary: run)
  case (Cons p ps)
  then obtain run1 where r: "claim message c now p run = Some run1" "claims message c now ps run1 = Some run'" by (auto split: bind_splits)
  from Cons.IH[OF r(2) copy_follows_claim[OF Cons.prems(2-4) r(1)] Cons.prems(3,4)] show ?case .
qed simp

lemma copy_follows_disowns:
  "copy_follows s g run \<Longrightarrow> gc_slot c \<noteq> - 1 \<Longrightarrow> s = unat (gc_slot c) \<Longrightarrow> \<forall>i \<in> set is. i < 32 \<Longrightarrow>
    copy_follows s g (foldl (disown message c r) run is)"
  by (induction "is" arbitrary: run) (simp_all add: copy_follows_disown)

text \<open>C16: What the server sends a game while it updates the client's entries turns the game's copy of them into the new entries, byte by byte; no
  other client's entries change; and the packet with all entries does so whatever the copy was before.\<close>

theorem grid_copy_follows:
  assumes "update_client_grid message c now r (g, cd) = Some (g', cd', packets)" "gc_slot c \<noteq> - 1" "length (grid_state g (unat (gc_slot c))) = 32"
  shows "receive_all packets (slot_bytes g (unat (gc_slot c))) = Some (slot_bytes g' (unat (gc_slot c))) \<and>
    (\<forall>t. t \<noteq> unat (gc_slot c) \<longrightarrow> grid_state g' t = grid_state g t) \<and>
    (\<forall>copy. length copy = 128 \<longrightarrow> (\<exists>p. SendWorldGrid message (gc_slot c) g' None = Some p \<and> receive_all [p] copy = Some (slot_bytes g' (unat (gc_slot c)))))"
proof -
  let ?s = "unat (gc_slot c)"
  obtain a1 a2 a3 a4 where r: "r = (a1, a2, a3, a4)" by (cases r)
  have start: "copy_follows ?s g (g, x, [])" for x using assms(3) by (simp add: copy_follows_def)
  have "copy_follows ?s g (g', cd', packets)"
  proof (cases "a1 > 256 \<or> a3 > 256")
    case True
    then show ?thesis using assms(1) start by (auto simp: update_client_grid_def r)
  next
    case False
    then have "claims message c now (sector_list r) (foldl (disown message c r) (g, forget_cooldowns r cd, []) [0..<32]) = Some (g', cd', packets)"
      using assms(1) by (simp add: update_client_grid_def r)
    from copy_follows_claims[OF this copy_follows_disowns[OF start assms(2) refl] assms(2) refl] show ?thesis by simp
  qed
  moreover have "\<exists>p. SendWorldGrid message (gc_slot c) g' None = Some p \<and> receive_all [p] copy = Some (slot_bytes g' ?s)" if "length copy = 128" for copy
  proof -
    have "SendWorldGrid message (gc_slot c) g' None = Some (le_bytes 4 message @ le_bytes 4 (0 :: u32) @ le_bytes 4 (128 :: u32) @ slot_bytes g' ?s)"
      using assms(2) by (auto simp: SendWorldGrid_def Let_def slot_bytes_def)
    then show ?thesis using receive_grid_value[of 0 128 copy "slot_bytes g' ?s"] that by (simp add: length_state_bytes)
  qed
  ultimately show ?thesis by (simp add: copy_follows_def)
qed

section \<open>No sector of two games\<close>

text \<open>C15: However clients join, move, change their buckets and leave, and however the ticks fall: an entry of the grid is one of a client in the bucket, the
  table has that client as the owner of the sector, and no other entry, of the client or of any other, is for the same sector.\<close>

theorem sectors_exclusive:
  assumes "grid_reachable message (m, w)" "m_worldGrids w b = Some g" "entry_at g s i = Some e"
  shows "(\<exists>c gc. m c = Some gc \<and> unat (gc_slot gc) = s \<and> gc_bucket gc = b \<and> gc_netId gc = ucast (g_netID e)) \<and>
    netIDs g (unat (sectorX e)) (unat (sectorY e)) = g_netID e \<and>
    (\<forall>t j f. entry_at g t j = Some f \<longrightarrow> sectorX f = sectorX e \<longrightarrow> sectorY f = sectorY e \<longrightarrow> t = s \<and> j = i)"
proof -
  have m: "members_ok m" and ok: "grid_ok m b g" using grids_ok_reachable[OF assms(1)] assms(2) by (simp_all add: grids_ok_def)
  show ?thesis using grid_okD(2,3)[OF ok assms(3)] sector_exclusive[OF m ok _ assms(3)] by (simp add: member_of_def sector_of_def)
qed

text \<open>One client of the sample takes a sector when it has stayed for a while.\<close>

definition sample_grid_client :: grid_client where
  "sample_grid_client = \<lparr>gc_slot = 3, gc_netId = 5, gc_bucket = 0, gc_sectors = Some (54, 54, 60, 60)\<rparr>"

definition sample_members :: members where
  "sample_members = (\<lambda>_. None)(0 \<mapsto> sample_grid_client)"

definition sample_tick :: "int \<Rightarrow> grids \<Rightarrow> grids" where
  "sample_tick now w = fst (the (UpdateWorldGrid 1 now (\<lambda>_. True) [(0, sample_grid_client)] w))"

definition sample_settled :: grids where
  "sample_settled = sample_tick 200 (sample_tick 0 (new_grids\<lparr>worldGridCooldown := (worldGridCooldown new_grids)(0 := (\<lambda>_. None))\<rparr>))"

lemma sample_settled_value:
  "UpdateWorldGrid 1 0 (\<lambda>_. True) [(0, sample_grid_client)] (new_grids\<lparr>worldGridCooldown := (worldGridCooldown new_grids)(0 := (\<lambda>_. None))\<rparr>) \<noteq> None"
  "UpdateWorldGrid 1 200 (\<lambda>_. True) [(0, sample_grid_client)] (sample_tick 0 (new_grids\<lparr>worldGridCooldown := (worldGridCooldown new_grids)(0 := (\<lambda>_. None))\<rparr>)) \<noteq> None"
  "map_option (\<lambda>g. entry_at g 3 0) (m_worldGrids sample_settled 0) = Some (Some \<lparr>sectorX = 54, sectorY = 60, g_netID = 5\<rparr>)"
  by code_simp+

lemma sample_settled_reachable: "grid_reachable 1 (sample_members, sample_settled)"
proof -
  let ?w = "new_grids\<lparr>worldGridCooldown := (worldGridCooldown new_grids)(0 := (\<lambda>_. None))\<rparr>"
  have "grid_step 1 (\<lambda>_. None, new_grids) (sample_members, ?w)"
    unfolding sample_members_def by (rule grid_step.join) (simp_all add: sample_grid_client_def)
  then have joined: "grid_reachable 1 (sample_members, ?w)" by (rule grid_reachable.step[OF grid_reachable.start])
  have tick: "grid_reachable 1 (sample_members, sample_tick now w)" if reach: "grid_reachable 1 (sample_members, w)"
    and run: "UpdateWorldGrid 1 now (\<lambda>_. True) [(0, sample_grid_client)] w \<noteq> None" for now w
  proof -
    obtain w' out where w': "UpdateWorldGrid 1 now (\<lambda>_. True) [(0, sample_grid_client)] w = Some (w', out)" using run by auto
    have "member_slots sample_members [(0, sample_grid_client)]" by (simp add: member_slots_def sample_members_def)
    from grid_reachable.step[OF reach grid_step.tick[OF this _ w']] show ?thesis using w' by (simp add: sample_tick_def)
  qed
  show ?thesis unfolding sample_settled_def by (rule tick[OF tick[OF joined sample_settled_value(1)] sample_settled_value(2)])
qed

lemma sectors_exclusive_witness:
  "\<exists>g. m_worldGrids sample_settled 0 = Some g \<and> entry_at g 3 0 \<noteq> None \<and> netIDs g 54 60 = 5 \<and>
    (\<forall>t j f. entry_at g t j = Some f \<longrightarrow> sectorX f = 54 \<longrightarrow> sectorY f = 60 \<longrightarrow> t = 3 \<and> j = 0)"
proof -
  obtain g where g: "m_worldGrids sample_settled 0 = Some g" "entry_at g 3 0 = Some \<lparr>sectorX = 54, sectorY = 60, g_netID = 5\<rparr>"
    using sample_settled_value(3) by auto
  note t = sectors_exclusive[OF sample_settled_reachable g]
  have "netIDs g 54 60 = 5" using t[THEN conjunct2, THEN conjunct1] by simp
  moreover have "\<forall>t j f. entry_at g t j = Some f \<longrightarrow> sectorX f = 54 \<longrightarrow> sectorY f = 60 \<longrightarrow> t = 3 \<and> j = 0"
    using t[THEN conjunct2, THEN conjunct2] by (simp only: grid_entry.simps)
  moreover have "entry_at g 3 0 \<noteq> None" by (simp only: g(2) option.distinct not_False_eq_True)
  ultimately show ?thesis using g(1) by blast
qed

lemma grid_copy_follows_witness:
  "\<exists>g' cd' packets. update_client_grid 1 sample_grid_client 200 (54, 54, 60, 60) (new_grid, (\<lambda>_. None)(sec_addr 54 60 \<mapsto> 100)) = Some (g', cd', packets) \<and>
    packets \<noteq> [] \<and> receive_all packets (slot_bytes new_grid 3) = Some (slot_bytes g' 3)"
proof -
  have "map_option (\<lambda>(g', cd', packets). packets = []) (update_client_grid 1 sample_grid_client 200 (54, 54, 60, 60)
      (new_grid, (\<lambda>_. None)(sec_addr 54 60 \<mapsto> 100))) = Some False" by code_simp
  then obtain g' cd' packets where u: "update_client_grid 1 sample_grid_client 200 (54, 54, 60, 60) (new_grid, (\<lambda>_. None)(sec_addr 54 60 \<mapsto> 100)) =
      Some (g', cd', packets)" "packets \<noteq> []" by auto
  have c: "gc_slot sample_grid_client \<noteq> - 1" "unat (gc_slot sample_grid_client) = 3" "length (grid_state new_grid 3) = 32"
    by (simp_all add: sample_grid_client_def new_grid_def)
  from grid_copy_follows[OF u(1)] c u show ?thesis by simp
qed

section \<open>Positions far away\<close>

lemma claim_None: "claim message c now (x, y) run = None \<longleftrightarrow> \<not> (x < 256 \<and> y < 256)"
  by (cases run) (auto simp: claim_def sector_owner_def Let_def split: option.split prod.split)

lemma claims_None: "claims message c now ps run = None \<longleftrightarrow> (\<exists>(x, y) \<in> set ps. \<not> (x < 256 \<and> y < 256))"
proof (induction ps arbitrary: run)
  case (Cons p ps)
  obtain x y where p: "p = (x, y)" by (cases p)
  show ?case
  proof (cases "claim message c now p run")
    case None
    then show ?thesis using claim_None[of message c now x y run] p by simp
  next
    case (Some run1)
    then show ?thesis using Cons[of run1] claim_None[of message c now x y run] p by auto
  qed
qed simp

text \<open>C18: The update leaves the table of sectors exactly when the first sector of the client is 256 at most and the last one is 256 or more: the check of the
  first sector admits 256, and nothing checks the last one, so a position near the edge of the grid is enough.\<close>

theorem far_position_leaves_grid:
  assumes "minX \<le> maxX" "minY \<le> maxY"
  shows "update_client_grid message c now (minX, maxX, minY, maxY) (g, cd) = None \<longleftrightarrow> minX \<le> 256 \<and> minY \<le> 256 \<and> (256 \<le> maxX \<or> 256 \<le> maxY)"
proof -
  let ?ps = "sector_list (minX, maxX, minY, maxY)"
  have list: "(x, y) \<in> set ?ps \<longleftrightarrow> minX \<le> x \<and> x \<le> maxX \<and> minY \<le> y \<and> y \<le> maxY" for x y
    by (auto simp: sector_list_def image_iff less_Suc_eq_le simp del: upt_Suc)
  have "(\<exists>(x, y) \<in> set ?ps. \<not> (x < 256 \<and> y < 256)) \<longleftrightarrow> 256 \<le> maxX \<or> 256 \<le> maxY"
  proof
    assume "256 \<le> maxX \<or> 256 \<le> maxY"
    then show "\<exists>(x, y) \<in> set ?ps. \<not> (x < 256 \<and> y < 256)" using list[of maxX maxY] assms by (intro bexI[of _ "(maxX, maxY)"]) auto
  qed (use list in auto)
  then show ?thesis by (auto simp: update_client_grid_def claims_None)
qed

lemma far_position_leaves_grid_witness:
  "update_client_grid 1 \<lparr>gc_slot = 3, gc_netId = 5, gc_bucket = 0, gc_sectors = None\<rparr> 0 (253, 256, 54, 57) (new_grid, \<lambda>_. None) = None"
  using far_position_leaves_grid[of 253 256 54 57] by simp

end
