(* ===== verification/Array_Handlers.thy ===== *)
theory Array_Handlers
  imports Sync_Entities Net_Buffer
begin

text \<open>
  The arrays that games share through the server (\<open>ArrayHandler\<close>, \<open>SendArrayData\<close> and \<open>HandleArrayUpdate\<close> in
  src/state/ServerGameState.cpp; the game's side is CloneExperiments_ArrayHandler.cpp in gta-net-five). An element belongs to the client that
  has written it last; every client has a flag for each element that it is to be sent. \<open>None\<close> is an access outside of memory. The
  sizes and bytes of a new array are not initialized; no size is read before it was written.
\<close>

section \<open>One array\<close>

record array_handler =
  MaxElemSize :: nat
  Count :: nat
  m_index :: byte
  m_sizes :: "nat list"
  m_owners :: "nat option list"
  m_array :: "byte list"
  m_dirtyFlags :: "nat set list"

definition new_array :: "nat \<Rightarrow> nat \<Rightarrow> byte \<Rightarrow> byte list \<Rightarrow> array_handler" where
  "new_array n count i junk = \<lparr>MaxElemSize = n, Count = count, m_index = i, m_sizes = replicate count 0, m_owners = replicate count None,
     m_array = junk, m_dirtyFlags = replicate count {}\<rparr>"

definition all_slots :: "nat set" where
  "all_slots = {..MAX_CLIENTS}"

definition dirty_bit :: "registry \<Rightarrow> nat \<Rightarrow> nat" where
  "dirty_bit reg c = unat (GetSlotId reg c)"

text \<open>
  \<open>ReadUpdate\<close>: the check admits the index behind the last element. What the read leaves unread stays in the array, although the
  size is the announced one.
\<close>

definition store_element :: "registry \<Rightarrow> nat \<Rightarrow> nat \<Rightarrow> nat \<Rightarrow> byte list \<Rightarrow> array_handler \<Rightarrow> array_handler" where
  "store_element reg c i n bytes h =
     h\<lparr>m_owners := (m_owners h)[i := if n \<noteq> 0 then Some c else None], m_array := bytes, m_sizes := (m_sizes h)[i := n],
       m_dirtyFlags := (m_dirtyFlags h)[i := all_slots - {dirty_bit reg c}]\<rparr>"

definition ReadUpdate :: "registry \<Rightarrow> nat \<Rightarrow> net_buffer \<Rightarrow> array_handler \<Rightarrow> (bool \<times> array_handler) option" where
  "ReadUpdate reg c b h = do {
     (elem, b) \<leftarrow> Read_u16 b;
     (byteSize, b) \<leftarrow> Read_u16 b;
     let i = unat elem;
     let n = unat byteSize;
     if i > Count h then Some (False, h)
     else if n > MaxElemSize h then Some (False, h)
     else if i \<ge> length (m_owners h) then None
     else if (case lock reg (m_owners h ! i) of None \<Rightarrow> False | Some curClient \<Rightarrow> curClient \<noteq> c) then Some (False, h)
     else do {
       (_, bytes, _) \<leftarrow> Read_net (m_array h) (i * MaxElemSize h) n b;
       Some (True, store_element reg c i n bytes h) } }"

text \<open>\<open>PlayerHasLeft\<close>.\<close>

definition leave_flags :: "registry \<Rightarrow> nat \<Rightarrow> array_handler \<Rightarrow> nat set list" where
  "leave_flags reg c h = (if GetSlotId reg c \<noteq> - 1 then map (\<lambda>fs. fs - {dirty_bit reg c}) (m_dirtyFlags h) else m_dirtyFlags h)"

definition PlayerHasLeft :: "registry \<Rightarrow> nat \<Rightarrow> array_handler \<Rightarrow> array_handler" where
  "PlayerHasLeft reg c h =
     h\<lparr>m_owners := map (\<lambda>r. if r = Some c then None else r) (m_owners h),
       m_sizes := map2 (\<lambda>r n. if r = Some c then 0 else n) (m_owners h) (m_sizes h),
       m_dirtyFlags := map2 (\<lambda>r fs. if r = Some c then all_slots else fs) (m_owners h) (leave_flags reg c h)\<rparr>"

text \<open>\<open>WriteUpdates\<close>: the packets for a client. An element without an owner is not sent, and its flag goes all the same.\<close>

definition array_packet :: "u32 \<Rightarrow> byte \<Rightarrow> u32 \<Rightarrow> nat \<Rightarrow> byte list \<Rightarrow> byte list" where
  "array_packet message index netId i bytes =
     le_bytes 4 message @ [index] @ le_bytes 2 (ucast netId :: u16) @ le_bytes 4 (word_of_nat i :: u32) @ le_bytes 4 (word_of_nat (length bytes) :: u32) @ bytes"

definition element_bytes :: "array_handler \<Rightarrow> nat \<Rightarrow> byte list" where
  "element_bytes h i = take (m_sizes h ! i) (drop (i * MaxElemSize h) (m_array h))"

definition write_update :: "u32 \<Rightarrow> registry \<Rightarrow> nat \<Rightarrow> array_handler \<times> byte list list \<Rightarrow> nat \<Rightarrow> array_handler \<times> byte list list" where
  "write_update message reg c r i =
     (case r of (h, out) \<Rightarrow>
      if dirty_bit reg c \<in> m_dirtyFlags h ! i
      then (h\<lparr>m_dirtyFlags := (m_dirtyFlags h)[i := m_dirtyFlags h ! i - {dirty_bit reg c}]\<rparr>,
            out @ (case lock reg (m_owners h ! i) of
                     None \<Rightarrow> []
                   | Some owner \<Rightarrow> [array_packet message (m_index h) (GetNetId reg owner) i (element_bytes h i)]))
      else r)"

definition WriteUpdates :: "u32 \<Rightarrow> registry \<Rightarrow> nat \<Rightarrow> array_handler \<Rightarrow> array_handler \<times> byte list list" where
  "WriteUpdates message reg c h = foldl (write_update message reg c) (h, []) [0..<Count h]"

section \<open>The arrays of the buckets\<close>

type_synonym array_handlers = "u32 \<Rightarrow> (nat \<Rightarrow> array_handler option) option"

definition array_data :: "byte list \<Rightarrow> nat \<Rightarrow> array_handler option" where
  "array_data junk i = (if i = 4 \<or> i = 7 then Some (new_array 128 50 (word_of_nat i) junk) else None)"

definition HandleArrayUpdate :: "byte list \<Rightarrow> registry \<Rightarrow> nat \<Rightarrow> u32 \<Rightarrow> net_buffer \<Rightarrow> array_handlers \<Rightarrow> array_handlers option" where
  "HandleArrayUpdate junk reg c bucket b hs = do {
     (arrayIndex, b) \<leftarrow> Read_u8 b;
     let ah = (case hs bucket of None \<Rightarrow> array_data junk | Some ah \<Rightarrow> ah);
     let hs = hs(bucket \<mapsto> ah);
     if unat arrayIndex \<ge> 20 then Some hs
     else case ah (unat arrayIndex) of
       None \<Rightarrow> Some hs
     | Some h \<Rightarrow> map_option (\<lambda>(_, h). hs(bucket \<mapsto> ah(unat arrayIndex \<mapsto> h))) (ReadUpdate reg c b h) }"

definition SendArrayData :: "u32 \<Rightarrow> registry \<Rightarrow> nat \<Rightarrow> u32 \<Rightarrow> array_handlers \<Rightarrow> array_handlers \<times> byte list list" where
  "SendArrayData message reg c bucket hs =
     (case hs bucket of
        None \<Rightarrow> (hs, [])
      | Some ah \<Rightarrow>
          (case foldl (\<lambda>(ah, out) i. case ah i of
                  None \<Rightarrow> (ah, out)
                | Some h \<Rightarrow> (case WriteUpdates message reg c h of (h, ps) \<Rightarrow> (ah(i \<mapsto> h), out @ ps))) (ah, []) [0..<20] of
             (ah, out) \<Rightarrow> (hs(bucket \<mapsto> ah), out)))"

definition leave_arrays :: "registry \<Rightarrow> nat \<Rightarrow> array_handlers \<Rightarrow> array_handlers" where
  "leave_arrays reg c hs = (\<lambda>bucket. map_option (\<lambda>ah i. map_option (PlayerHasLeft reg c) (ah i)) (hs bucket))"

section \<open>The game\<close>

text \<open>What the game sends for a changed element, and how it reads a packet (behind the type): array, player, element, and the bytes.\<close>

definition array_update :: "byte \<Rightarrow> u16 \<Rightarrow> byte list \<Rightarrow> byte list" where
  "array_update index elem sv = [index] @ le_bytes 2 elem @ le_bytes 2 (word_of_nat (length sv) :: u16) @ sv"

definition receive_array :: "byte list \<Rightarrow> (byte \<times> u16 \<times> u32 \<times> byte list) option" where
  "receive_array data = do {
     (arrayIndex, b) \<leftarrow> Read_u8 (buffer_of_bytes data);
     (player, b) \<leftarrow> Read_u16 b;
     (element, b) \<leftarrow> Read_u32 b;
     (len, b) \<leftarrow> Read_u32 b;
     (_, bufData, _) \<leftarrow> Read_net (replicate (unat len) 0) 0 (unat len) b;
     Some (arrayIndex, player, element, bufData) }"

end
