(* ===== verification/Array_Properties.thy ===== *)
theory Array_Properties
  imports Array_Handlers Client_Registry_Properties
begin

text \<open>
  An update of an element reaches every other client once, with the bytes that were sent; which updates leave memory; and what is lost.
\<close>

section \<open>The state\<close>

definition handler_ok :: "array_handler \<Rightarrow> bool" where
  "handler_ok h \<longleftrightarrow> length (m_sizes h) = Count h \<and> length (m_owners h) = Count h \<and> length (m_dirtyFlags h) = Count h \<and>
     length (m_array h) = Count h * MaxElemSize h \<and> 8 \<le> MaxElemSize h \<and> MaxElemSize h < 2 ^ 16 \<and> Count h < 2 ^ 16"

lemma element_fits: "i < (n :: nat) \<Longrightarrow> k \<le> m \<Longrightarrow> i * m + k \<le> n * m"
proof -
  assume "i < n" "k \<le> m"
  then have "i * m + k \<le> Suc i * m" "Suc i * m \<le> n * m" by (simp, intro mult_le_mono1) simp
  then show ?thesis by linarith
qed

text \<open>The header of an update.\<close>

lemma ReadUpdate_value:
  assumes "net_wf b" "unread b = le_bytes 2 (elem :: u16) @ le_bytes 2 (byteSize :: u16) @ rest"
  shows "\<exists>b'. net_wf b' \<and> unread b' = rest \<and> ReadUpdate reg c b h =
    (if unat elem > Count h \<or> unat byteSize > MaxElemSize h then Some (False, h)
     else if unat elem \<ge> length (m_owners h) then None
     else if (case lock reg (m_owners h ! unat elem) of None \<Rightarrow> False | Some o' \<Rightarrow> o' \<noteq> c) then Some (False, h)
     else map_option (\<lambda>(_, bytes, _). (True, store_element reg c (unat elem) (unat byteSize) bytes h))
       (Read_net (m_array h) (unat elem * MaxElemSize h) (unat byteSize) b'))"
proof -
  obtain b1 where b1: "Read_u16 b = Some (elem, b1)" "net_wf b1" "unread b1 = le_bytes 2 byteSize @ rest" using Read_u16_value[OF assms] by blast
  obtain b2 where b2: "Read_u16 b1 = Some (byteSize, b2)" "net_wf b2" "unread b2 = rest" using Read_u16_value[OF b1(2,3)] by blast
  have map: "Option.bind x (\<lambda>(_, bytes, _). Some (True, f bytes)) = map_option (\<lambda>(_, bytes, _). (True, f bytes)) x"
    for x :: "(bool \<times> byte list \<times> net_buffer) option" and f :: "byte list \<Rightarrow> array_handler" by (cases x) (auto split: prod.split)
  show ?thesis using b1(1) b2 by (intro exI[of _ b2]) (simp add: ReadUpdate_def Let_def map)
qed

lemma Read_net_element:
  assumes "handler_ok h" "i < Count h" "n \<le> MaxElemSize h" "net_wf b"
  shows "Read_net (m_array h) (i * MaxElemSize h) n b \<noteq> None"
proof (cases "n \<le> length (unread b)")
  case True
  have "i * MaxElemSize h + n \<le> length (m_array h)" using element_fits[OF assms(2,3)] assms(1) by (simp add: handler_ok_def)
  then show ?thesis using Read_net_fits[OF assms(4) True] by simp
next
  case False
  have "i * MaxElemSize h + 8 \<le> length (m_array h)" using element_fits[OF assms(2), of 8] assms(1) by (simp add: handler_ok_def)
  then show ?thesis using Read_net_short[OF assms(4), of n] False by simp
qed

text \<open>C19: An update that has its index and its size leaves memory exactly when the index is the one behind the last element, which the check
  admits, and the size is one of an element (any other size is refused before); and an update of an element that another client has changes nothing.\<close>

theorem array_index_guard:
  assumes "handler_ok h" "net_wf b" "unread b = le_bytes 2 (elem :: u16) @ le_bytes 2 (byteSize :: u16) @ rest"
  shows "(ReadUpdate reg c b h = None \<longleftrightarrow> unat elem = Count h \<and> unat byteSize \<le> MaxElemSize h) \<and>
    (unat elem < Count h \<longrightarrow> (\<exists>other. lock reg (m_owners h ! unat elem) = Some other \<and> other \<noteq> c) \<longrightarrow> ReadUpdate reg c b h = Some (False, h))"
proof -
  obtain b' where b': "net_wf b'" "ReadUpdate reg c b h =
    (if unat elem > Count h \<or> unat byteSize > MaxElemSize h then Some (False, h)
     else if unat elem \<ge> length (m_owners h) then None
     else if (case lock reg (m_owners h ! unat elem) of None \<Rightarrow> False | Some o' \<Rightarrow> o' \<noteq> c) then Some (False, h)
     else map_option (\<lambda>(_, bytes, _). (True, store_element reg c (unat elem) (unat byteSize) bytes h))
       (Read_net (m_array h) (unat elem * MaxElemSize h) (unat byteSize) b'))" using ReadUpdate_value[OF assms(2,3)] by blast
  have len: "length (m_owners h) = Count h" using assms(1) by (simp add: handler_ok_def)
  have "Read_net (m_array h) (unat elem * MaxElemSize h) (unat byteSize) b' \<noteq> None" if "unat elem < Count h" "unat byteSize \<le> MaxElemSize h"
    using Read_net_element[OF assms(1) that b'(1)] .
  then show ?thesis unfolding b'(2) len by auto
qed

lemma new_array_ok: "length junk = n * count \<Longrightarrow> 8 \<le> n \<Longrightarrow> n < 2 ^ 16 \<Longrightarrow> count < 2 ^ 16 \<Longrightarrow> handler_ok (new_array n count i junk)"
  by (simp add: handler_ok_def new_array_def mult.commute)

section \<open>What is sent\<close>

definition element_packets :: "u32 \<Rightarrow> registry \<Rightarrow> nat \<Rightarrow> array_handler \<Rightarrow> nat \<Rightarrow> byte list list" where
  "element_packets message reg c h i =
     (if dirty_bit reg c \<in> m_dirtyFlags h ! i
      then (case lock reg (m_owners h ! i) of
              None \<Rightarrow> []
            | Some owner \<Rightarrow> [array_packet message (m_index h) (GetNetId reg owner) i (element_bytes h i)])
      else [])"

lemma write_update_flags:
  assumes "k < length fs" "fs ! k = m_dirtyFlags h ! k"
  shows "write_update message reg c (h\<lparr>m_dirtyFlags := fs\<rparr>, out) k =
    (h\<lparr>m_dirtyFlags := fs[k := fs ! k - {dirty_bit reg c}]\<rparr>, out @ element_packets message reg c h k)"
proof (cases "dirty_bit reg c \<in> fs ! k")
  case True
  then show ?thesis using assms(2) by (simp add: write_update_def element_packets_def element_bytes_def split: option.split)
next
  case False
  then have "fs[k := fs ! k - {dirty_bit reg c}] = fs" using assms(1) by simp
  then show ?thesis using False assms(2) by (simp add: write_update_def element_packets_def)
qed

lemma WriteUpdates_value:
  assumes "length (m_dirtyFlags h) = Count h"
  shows "WriteUpdates message reg c h =
    (h\<lparr>m_dirtyFlags := map (\<lambda>fs. fs - {dirty_bit reg c}) (m_dirtyFlags h)\<rparr>, concat (map (element_packets message reg c h) [0..<Count h]))"
proof -
  let ?g = "\<lambda>fs. fs - {dirty_bit reg c}" and ?xs = "m_dirtyFlags h"
  have "foldl (write_update message reg c) (h, []) [0..<k] =
      (h\<lparr>m_dirtyFlags := map ?g (take k ?xs) @ drop k ?xs\<rparr>, concat (map (element_packets message reg c h) [0..<k]))" if "k \<le> Count h" for k
    using that
  proof (induction k)
    case (Suc k)
    then have k: "k < length ?xs" using assms by simp
    let ?fs = "map ?g (take k ?xs) @ drop k ?xs"
    have at: "k < length ?fs" "?fs ! k = ?xs ! k" using k by (simp_all add: nth_append)
    have "?fs[k := ?fs ! k - {dirty_bit reg c}] = map ?g (take k ?xs) @ (drop k ?xs)[0 := ?g (?xs ! k)]"
      using k at(2) by (simp add: list_update_append)
    also have "\<dots> = map ?g (take (Suc k) ?xs) @ drop (Suc k) ?xs"
      using k by (simp add: take_Suc_conv_app_nth Cons_nth_drop_Suc[symmetric])
    finally have "?fs[k := ?fs ! k - {dirty_bit reg c}] = map ?g (take (Suc k) ?xs) @ drop (Suc k) ?xs" .
    then show ?case using Suc write_update_flags[OF at, of message reg c] by simp
  qed simp
  from this[of "Count h"] show ?thesis using assms by (simp add: WriteUpdates_def)
qed

text \<open>The game reads what the server writes.\<close>

lemma receive_array_packet:
  assumes "length bytes < 2 ^ 32"
  shows "receive_array (drop 4 (array_packet message index netId i bytes)) = Some (index, ucast netId, word_of_nat i, bytes)"
proof -
  have data: "drop 4 (array_packet message index netId i bytes) =
      index # le_bytes 2 (ucast netId :: u16) @ le_bytes 4 (word_of_nat i :: u32) @ le_bytes 4 (word_of_nat (length bytes) :: u32) @ bytes"
    by (simp add: array_packet_def)
  let ?d = "drop 4 (array_packet message index netId i bytes)"
  have "net_wf (buffer_of_bytes ?d)" "unread (buffer_of_bytes ?d) = ?d" by (simp_all add: net_wf_def unread_def buffer_of_bytes_def)
  then obtain b1 where b1: "Read_u8 (buffer_of_bytes ?d) = Some (index, b1)" "net_wf b1" "unread b1 = tl ?d"
    using Read_u8_value[of "buffer_of_bytes ?d" index "tl ?d"] data by auto
  obtain b2 where b2: "Read_u16 b1 = Some (ucast netId, b2)" "net_wf b2"
    "unread b2 = le_bytes 4 (word_of_nat i :: u32) @ le_bytes 4 (word_of_nat (length bytes) :: u32) @ bytes"
    using Read_u16_value[OF b1(2), of "ucast netId"] b1(3) data by auto
  obtain b3 where b3: "Read_u32 b2 = Some (word_of_nat i, b3)" "net_wf b3" "unread b3 = le_bytes 4 (word_of_nat (length bytes) :: u32) @ bytes"
    using Read_u32_value[OF b2(2,3)] by blast
  obtain b4 where b4: "Read_u32 b3 = Some (word_of_nat (length bytes), b4)" "net_wf b4" "unread b4 = bytes" using Read_u32_value[OF b3(2,3)] by blast
  have n: "unat (word_of_nat (length bytes) :: u32) = length bytes" using assms by (simp add: unat_of_nat)
  show ?thesis using b1(1) b2(1) b3(1) b4 n Read_net_fits[OF b4(2), of "length bytes" 0 "replicate (length bytes) 0"]
    by (simp add: receive_array_def)
qed

section \<open>An update goes around\<close>

lemma ReadUpdate_free:
  assumes "handler_ok h" "e < Count h" "length sv \<le> MaxElemSize h" "lock reg (m_owners h ! e) \<in> {None, Some c}" "net_wf b"
    "unread b = le_bytes 2 (word_of_nat e :: u16) @ le_bytes 2 (word_of_nat (length sv) :: u16) @ sv"
  shows "\<exists>bytes. ReadUpdate reg c b h = Some (True, store_element reg c e (length sv) bytes h) \<and>
    length bytes = length (m_array h) \<and> take (length sv) (drop (e * MaxElemSize h) bytes) = sv"
proof -
  have small: "unat (word_of_nat e :: u16) = e" "unat (word_of_nat (length sv) :: u16) = length sv"
    using assms(1-3) by (simp_all add: handler_ok_def unat_of_nat)
  obtain b' where b': "net_wf b'" "unread b' = sv" "ReadUpdate reg c b h =
    (if e > Count h \<or> length sv > MaxElemSize h then Some (False, h)
     else if e \<ge> length (m_owners h) then None
     else if (case lock reg (m_owners h ! e) of None \<Rightarrow> False | Some o' \<Rightarrow> o' \<noteq> c) then Some (False, h)
     else map_option (\<lambda>(_, bytes, _). (True, store_element reg c e (length sv) bytes h))
       (Read_net (m_array h) (e * MaxElemSize h) (length sv) b'))" using ReadUpdate_value[OF assms(5,6), of reg c h, unfolded small] by blast
  have fits: "e * MaxElemSize h + length sv \<le> length (m_array h)" using element_fits[OF assms(2,3)] assms(1) by (simp add: handler_ok_def)
  have "Read_net (m_array h) (e * MaxElemSize h) (length sv) b' = Some (True, take (e * MaxElemSize h) (m_array h) @ sv @ drop (e * MaxElemSize h + length sv) (m_array h),
      b'\<lparr>m_end := m_end b' \<or> True, m_curOff := m_curOff b' + length sv\<rparr>)"
    using Read_net_fits[OF b'(1) _ fits] b'(2) by simp
  moreover have "\<not> (case lock reg (m_owners h ! e) of None \<Rightarrow> False | Some o' \<Rightarrow> o' \<noteq> c)" using assms(4) by auto
  moreover have "e < length (m_owners h)" using assms(1,2) by (simp add: handler_ok_def)
  ultimately show ?thesis using b'(3) assms(2,3) fits
    by (intro exI[of _ "take (e * MaxElemSize h) (m_array h) @ sv @ drop (e * MaxElemSize h + length sv) (m_array h)"]) simp
qed

text \<open>The packets of a stored element: one for each other client when the element has an owner, none otherwise.\<close>

lemma stored_packets:
  assumes "handler_ok h" "e < Count h" "n \<le> MaxElemSize h" "length bytes = length (m_array h)" "alive reg c"
    "dirty_bit reg d \<le> MAX_CLIENTS" "dirty_bit reg d \<noteq> dirty_bit reg c"
  shows "element_packets message reg d (store_element reg c e n bytes h) e =
    (if n = 0 then [] else [array_packet message (m_index h) (GetNetId reg c) e (take n (drop (e * MaxElemSize h) bytes))])"
  using assms by (auto simp: element_packets_def store_element_def element_bytes_def handler_ok_def all_slots_def lock_def)

lemma element_packets_for:
  "q \<in> set (element_packets message reg d h i) \<Longrightarrow> q \<in> range (\<lambda>o'. array_packet message (m_index h) (GetNetId reg o') i (element_bytes h i))"
  unfolding element_packets_def
  by (cases "dirty_bit reg d \<in> m_dirtyFlags h ! i"; cases "lock reg (m_owners h ! i)") (simp_all only: if_True if_False option.case list.set, blast+)

lemma WriteUpdates_twice:
  assumes "length (m_dirtyFlags h) = Count h"
  shows "snd (WriteUpdates message reg d (fst (WriteUpdates message reg d h))) = []"
proof -
  define h1 where "h1 = h\<lparr>m_dirtyFlags := map (\<lambda>fs. fs - {dirty_bit reg d}) (m_dirtyFlags h)\<rparr>"
  have 1: "fst (WriteUpdates message reg d h) = h1" by (simp add: h1_def WriteUpdates_value[OF assms])
  have 2: "length (m_dirtyFlags h1) = Count h1" "Count h1 = length (m_dirtyFlags h)" using assms by (simp_all add: h1_def)
  have "element_packets message reg d h1 i = []" if "i < Count h1" for i
    using that unfolding 2(2) by (simp add: h1_def element_packets_def)
  then show ?thesis unfolding 1 WriteUpdates_value[OF 2(1)] by simp
qed

lemma handler_ok_store: "handler_ok h \<Longrightarrow> length bytes = length (m_array h) \<Longrightarrow> handler_ok (store_element reg c e n bytes h)"
  unfolding handler_ok_def by (cases h) (simp add: store_element_def)

lemma HandleArrayUpdate_value:
  assumes "hs bucket = Some ah" "ah (unat ix) = Some h" "unat ix < 20"
    "\<And>b. net_wf b \<Longrightarrow> unread b = le_bytes 2 e @ le_bytes 2 (word_of_nat (length sv) :: u16) @ sv \<Longrightarrow> \<exists>h'. ReadUpdate reg c b h = Some (True, h') \<and> P h'"
  shows "\<exists>h'. HandleArrayUpdate junk reg c bucket (buffer_of_bytes (array_update ix e sv)) hs = Some (hs(bucket \<mapsto> ah(unat ix \<mapsto> h'))) \<and> P h'"
proof -
  have "net_wf (buffer_of_bytes bs)" "unread (buffer_of_bytes bs) = bs" for bs by (simp_all add: net_wf_def unread_def buffer_of_bytes_def)
  then obtain b where b: "Read_u8 (buffer_of_bytes (array_update ix e sv)) = Some (ix, b)" "net_wf b"
    "unread b = le_bytes 2 e @ le_bytes 2 (word_of_nat (length sv) :: u16) @ sv"
    using Read_u8_value[of "buffer_of_bytes (array_update ix e sv)" ix] by (auto simp: array_update_def)
  obtain h' where "ReadUpdate reg c b h = Some (True, h')" "P h'" using assms(4)[OF b(2,3)] by blast
  then show ?thesis using b(1) assms(1-3) by (intro exI[of _ h']) (simp add: HandleArrayUpdate_def Let_def)
qed

text \<open>C17: The bytes that a game sends for an element that nobody or itself has, at least one and at most as many as an element holds, reach every other client with its next update, in exactly one packet, which the
  game there reads as the array, the sender, the element and the bytes; the update after it sends nothing.\<close>

theorem array_update_arrives:
  assumes "hs bucket = Some ah" "ah (unat ix) = Some h" "unat ix < 20" "handler_ok h" "alive reg c" "e < Count h" "sv \<noteq> []"
    "length sv \<le> MaxElemSize h" "lock reg (m_owners h ! e) \<in> {None, Some c}"
  shows "\<exists>h'. HandleArrayUpdate junk reg c bucket (buffer_of_bytes (array_update ix (word_of_nat e) sv)) hs = Some (hs(bucket \<mapsto> ah(unat ix \<mapsto> h'))) \<and>
    (\<forall>d. dirty_bit reg d \<le> MAX_CLIENTS \<longrightarrow> dirty_bit reg d \<noteq> dirty_bit reg c \<longrightarrow>
      (\<exists>ps p qs h''. WriteUpdates message reg d h' = (h'', ps @ [p] @ qs) \<and>
        receive_array (drop 4 p) = Some (m_index h, ucast (GetNetId reg c), word_of_nat e, sv) \<and>
        (\<forall>q \<in> set ps \<union> set qs. \<exists>owner i bytes. i \<noteq> e \<and> q = array_packet message (m_index h) owner i bytes) \<and>
        snd (WriteUpdates message reg d h'') = []))"
proof (rule HandleArrayUpdate_value, (rule assms)+)
  fix b
  assume b: "net_wf b" "unread b = le_bytes 2 (word_of_nat e :: u16) @ le_bytes 2 (word_of_nat (length sv) :: u16) @ sv"
  obtain bytes where r: "ReadUpdate reg c b h = Some (True, store_element reg c e (length sv) bytes h)" "length bytes = length (m_array h)"
    "take (length sv) (drop (e * MaxElemSize h) bytes) = sv" using ReadUpdate_free[OF assms(4,6,8,9) b] by blast
  let ?h = "store_element reg c e (length sv) bytes h"
  have h: "m_index ?h = m_index h" "Count ?h = Count h" by (simp_all add: store_element_def)
  have flags: "length (m_dirtyFlags ?h) = Count ?h" using handler_ok_store[OF assms(4) r(2)] by (simp add: handler_ok_def)
  have "\<exists>ps p qs h''. WriteUpdates message reg d ?h = (h'', ps @ [p] @ qs) \<and>
        receive_array (drop 4 p) = Some (m_index h, ucast (GetNetId reg c), word_of_nat e, sv) \<and>
        (\<forall>q \<in> set ps \<union> set qs. \<exists>owner i bytes. i \<noteq> e \<and> q = array_packet message (m_index h) owner i bytes) \<and>
        snd (WriteUpdates message reg d h'') = []"
    if d: "dirty_bit reg d \<le> MAX_CLIENTS" "dirty_bit reg d \<noteq> dirty_bit reg c" for d
  proof -
    let ?p = "array_packet message (m_index h) (GetNetId reg c) e sv"
    let ?ps = "concat (map (element_packets message reg d ?h) [0..<e])" and ?qs = "concat (map (element_packets message reg d ?h) [Suc e..<Count h])"
    have "element_packets message reg d ?h e = [?p]" using stored_packets[OF assms(4,6,8) r(2) assms(5) d] assms(7) r(3) by simp
    moreover have "[0..<Count h] = [0..<e] @ e # [Suc e..<Count h]"
      using upt_add_eq_append[of 0 e "Count h - e"] upt_conv_Cons[of e "Count h"] assms(6) by simp
    ultimately have "snd (WriteUpdates message reg d ?h) = ?ps @ [?p] @ ?qs" using WriteUpdates_value[OF flags, of message reg d] h by simp
    then have "WriteUpdates message reg d ?h = (fst (WriteUpdates message reg d ?h), ?ps @ [?p] @ ?qs)" by (metis prod.collapse)
    moreover have "length sv < 2 ^ 32" using assms(4,8) by (simp add: handler_ok_def)
    then have "receive_array (drop 4 ?p) = Some (m_index h, ucast (GetNetId reg c), word_of_nat e, sv)" by (rule receive_array_packet)
    moreover have "\<exists>owner i bytes. i \<noteq> e \<and> q = array_packet message (m_index h) owner i bytes" if q: "q \<in> set ?ps \<union> set ?qs" for q
    proof -
      have "\<exists>i. i \<noteq> e \<and> q \<in> set (element_packets message reg d ?h i)"
        using q unfolding set_concat set_map set_upt by (elim UnE UN_E imageE) (force intro: exI)+
      then obtain i where i: "i \<noteq> e" "q \<in> set (element_packets message reg d ?h i)" by blast
      from element_packets_for[OF i(2)] h(1) i(1) show ?thesis by auto
    qed
    moreover have "snd (WriteUpdates message reg d (fst (WriteUpdates message reg d ?h))) = []" by (rule WriteUpdates_twice[OF flags])
    ultimately show ?thesis by blast
  qed
  then show "\<exists>h'. ReadUpdate reg c b h = Some (True, h') \<and>
    (\<forall>d. dirty_bit reg d \<le> MAX_CLIENTS \<longrightarrow> dirty_bit reg d \<noteq> dirty_bit reg c \<longrightarrow>
      (\<exists>ps p qs h''. WriteUpdates message reg d h' = (h'', ps @ [p] @ qs) \<and>
        receive_array (drop 4 p) = Some (m_index h, ucast (GetNetId reg c), word_of_nat e, sv) \<and>
        (\<forall>q \<in> set ps \<union> set qs. \<exists>owner i bytes. i \<noteq> e \<and> q = array_packet message (m_index h) owner i bytes) \<and>
        snd (WriteUpdates message reg d h'') = []))" using r(1) by blast
qed

definition array_clients :: registry where
  "array_clients = SetPeer sample_env 1 9 (snd (MakeClient [2] sample_joined))"

lemma array_clients_values: "alive array_clients 0" "dirty_bit array_clients 0 = 128" "dirty_bit array_clients 1 = 127" "GetNetId array_clients 0 = 1"
  by code_simp+

lemma array_index_guard_witness:
  "ReadUpdate array_clients 0 (buffer_of_bytes [50, 0, 1, 0, 9]) (new_array 128 50 4 (replicate 6400 0)) = None"
proof -
  have ok: "handler_ok (new_array 128 50 4 (replicate 6400 0))" by (rule new_array_ok) simp_all
  have b: "net_wf (buffer_of_bytes [50, 0, 1, 0, 9])" by (simp add: net_wf_def buffer_of_bytes_def)
  have bytes: "unread (buffer_of_bytes [50, 0, 1, 0, 9]) = le_bytes 2 (50 :: u16) @ le_bytes 2 (1 :: u16) @ [9]" by code_simp
  from array_index_guard[OF ok b bytes] show ?thesis by (simp add: new_array_def)
qed


lemma array_update_arrives_witness:
  "\<exists>h' ps p qs. HandleArrayUpdate [] array_clients 0 0 (buffer_of_bytes (array_update 4 7 [1, 2, 3])) ((\<lambda>_. None)(0 \<mapsto> array_data (replicate 6400 0))) =
      Some ((\<lambda>_. None)(0 \<mapsto> (array_data (replicate 6400 0))(4 \<mapsto> h'))) \<and>
    snd (WriteUpdates 1 array_clients 1 h') = ps @ [p] @ qs \<and> receive_array (drop 4 p) = Some (4, 1, 7, [1, 2, 3])"
proof -
  let ?hs = "((\<lambda>_. None)(0 \<mapsto> array_data (replicate 6400 0))) :: array_handlers" and ?h = "new_array 128 50 4 (replicate 6400 0)"
  have ok: "handler_ok ?h" by (rule new_array_ok) simp_all
  have h: "array_data (replicate 6400 0) (unat (4 :: byte)) = Some ?h" "lock array_clients (m_owners ?h ! 7) \<in> {None, Some 0}"
    by (simp_all add: array_data_def new_array_def lock_def)
  have small: "unat (4 :: byte) < 20" "7 < Count ?h" "[1, 2, 3 :: byte] \<noteq> []" "length [1, 2, 3 :: byte] \<le> MaxElemSize ?h" "m_index ?h = 4"
    by (simp_all add: new_array_def)
  have bucket: "?hs 0 = Some (array_data (replicate 6400 0))" by simp
  have d: "dirty_bit array_clients 1 \<le> MAX_CLIENTS" "dirty_bit array_clients 1 \<noteq> dirty_bit array_clients 0"
    using array_clients_values by (simp_all add: MAX_CLIENTS_def)
  from array_update_arrives[where junk = "[]" and message = 1 and hs = ?hs and bucket = 0 and ix = 4 and e = 7, OF bucket h(1) small(1) ok array_clients_values(1) small(2-4) h(2)] obtain h' where
    h': "HandleArrayUpdate [] array_clients 0 0 (buffer_of_bytes (array_update 4 (word_of_nat 7) [1, 2, 3])) ?hs =
      Some (?hs(0 \<mapsto> (array_data (replicate 6400 0))(unat (4 :: byte) \<mapsto> h')))"
    "\<exists>ps p qs h''. WriteUpdates 1 array_clients 1 h' = (h'', ps @ [p] @ qs) \<and>
        receive_array (drop 4 p) = Some (m_index ?h, ucast (GetNetId array_clients 0), word_of_nat 7, [1, 2, 3])"
    using d by blast
  from h'(2) obtain ps p qs h'' where w: "WriteUpdates 1 array_clients 1 h' = (h'', ps @ [p] @ qs)"
    "receive_array (drop 4 p) = Some (m_index ?h, ucast (GetNetId array_clients 0), word_of_nat 7, [1, 2, 3])" by blast
  have "snd (WriteUpdates 1 array_clients 1 h') = ps @ [p] @ qs" "receive_array (drop 4 p) = Some (4, 1, 7, [1, 2, 3])"
    using w small(5) array_clients_values(4) by simp_all
  then show ?thesis using h'(1) by (intro exI[of _ h'] exI[of _ ps] exI[of _ p] exI[of _ qs]) simp
qed

text \<open>An element that is emptied has no owner any more, so that no client is told.\<close>

lemma emptied_element_not_sent:
  assumes "handler_ok h" "alive reg c" "e < Count h" "lock reg (m_owners h ! e) \<in> {None, Some c}" "net_wf b"
    "unread b = le_bytes 2 (word_of_nat e :: u16) @ le_bytes 2 (word_of_nat (length []) :: u16) @ []"
  shows "\<exists>h'. ReadUpdate reg c b h = Some (True, h') \<and> (\<forall>d. element_packets message reg d h' e = [])"
proof -
  obtain bytes where r: "ReadUpdate reg c b h = Some (True, store_element reg c e (length ([] :: byte list)) bytes h)"
    using ReadUpdate_free[of h e "[]" reg c b] assms(1,3-6) by auto
  moreover have "element_packets message reg d (store_element reg c e 0 bytes h) e = []" for d
    using assms(1,3) by (auto simp: element_packets_def store_element_def handler_ok_def lock_def)
  ultimately show ?thesis by simp
qed

text \<open>A client in a slot that another has left is not told of the elements that were there before.\<close>

lemma next_in_slot_misses:
  assumes "handler_ok h" "GetSlotId reg c \<noteq> - 1" "dirty_bit reg d = dirty_bit reg c" "i < Count h" "m_owners h ! i \<noteq> Some c"
  shows "element_packets message reg d (PlayerHasLeft reg c h) i = []"
  using assms by (auto simp: element_packets_def PlayerHasLeft_def leave_flags_def handler_ok_def)

end
