(* ===== verification/Component_Loader.thy ===== *)
theory Component_Loader
  imports Console_Values "HOL-Library.Monad_Syntax"
begin

text \<open>
  The component loader (src/code/client/citicore: ComponentId.cpp, ComponentLoader.h and ComponentLoader.cpp), which every program of the
  framework starts with. Components provide and depend on identifiers with categories and versions; they are loaded behind what they
  depend on. What components there are, and what they say of themselves, comes from files that are generated with a build. A component
  is referred to by its name, which the loader's table keeps unique.
\<close>

section \<open>Identifiers\<close>

record component_id =
  m_categories :: "str list"
  m_versions :: "int list"

definition no_id :: component_id where
  "no_id = \<lparr>m_categories = [], m_versions = [0, 0, 0, 0]\<rparr>"

definition GetCategory :: "component_id \<Rightarrow> nat \<Rightarrow> str" where
  "GetCategory d idx = (if idx < length (m_categories d) then m_categories d ! idx else [])"

fun compare_versions :: "int list \<Rightarrow> int list \<Rightarrow> int" where
  "compare_versions (v # vs) (w # ws) = (if v < w then - 1 else if v > w then 1 else compare_versions vs ws)"
| "compare_versions _ _ = 0"

definition CompareVersion :: "component_id \<Rightarrow> component_id \<Rightarrow> int" where
  "CompareVersion d e = compare_versions (m_versions d) (m_versions e)"

definition IsMatchedBy :: "component_id \<Rightarrow> component_id \<Rightarrow> bool" where
  "IsMatchedBy d provider \<longleftrightarrow> list_all (\<lambda>i. GetCategory provider i = GetCategory d i) [0..<length (m_categories d)] \<and> CompareVersion d provider \<le> 0"

definition GetString :: "component_id \<Rightarrow> str" where
  "GetString d =
     GetCategory d 0 @ concat (map (\<lambda>c. 58 # c) (tl (m_categories d))) @
     [91] @ show_int (hd (m_versions d)) @ concat (map (\<lambda>v. 46 # show_int v) (tl (m_versions d))) @ [93]"

text \<open>\<open>atoi\<close>, for numbers that fit.\<close>

definition atoi_c :: "str \<Rightarrow> int" where
  "atoi_c s = (case sign (dropWhile is_space s) of (negative, r) \<Rightarrow>
     let n = int (digits_value (takeWhile is_digit r)) in if negative then - n else n)"

datatype parse_state = PARSE_ID | PARSE_VERSION

text \<open>
  The loop, with the bytes in \<open>tempBuf\<close>, which has 256; every round writes behind them, and \<open>None\<close> is a write behind the buffer. The
  end of the list is the terminator.
\<close>

fun parse_loop :: "parse_state \<Rightarrow> str \<Rightarrow> nat \<Rightarrow> component_id \<Rightarrow> str \<Rightarrow> component_id option" where
  "parse_loop st temp vI d [] =
     (if 256 \<le> length temp then None
      else Some (if st = PARSE_ID then d\<lparr>m_categories := m_categories d @ [temp]\<rparr> else d))"
| "parse_loop PARSE_ID temp vI d (c # s) =
     (if 256 \<le> length temp then None
      else if c = 58 \<or> c = 91
      then parse_loop (if c = 91 then PARSE_VERSION else PARSE_ID) [] vI (d\<lparr>m_categories := m_categories d @ [temp]\<rparr>) s
      else parse_loop PARSE_ID (temp @ [c]) vI d s)"
| "parse_loop PARSE_VERSION temp vI d (c # s) =
     (if 256 \<le> length temp then None
      else if c = 46 \<or> c = 93
      then (if vI < length (m_versions d) then parse_loop PARSE_VERSION [] (vI + 1) (d\<lparr>m_versions := (m_versions d)[vI := atoi_c temp]\<rparr>) s
            else parse_loop PARSE_VERSION [] vI d s)
      else parse_loop PARSE_VERSION (temp @ [c]) vI d s)"

definition Parse_id :: "str \<Rightarrow> component_id option" where
  "Parse_id s = parse_loop PARSE_ID [] 0 no_id (takeWhile (\<lambda>c. c \<noteq> 0) s)"

section \<open>Components\<close>

record component_data =
  cd_name :: str
  cd_provides :: "component_id list"
  cd_depends :: "component_id list"
  cd_auto :: bool

text \<open>The root component, as built for the server on Linux.\<close>

definition FxGameComponent :: component_data where
  "FxGameComponent = \<lparr>cd_name = str_of ''fx'',
     cd_provides = List.map_filter Parse_id [str_of ''game:gta_ny[1.0.7.0]'', str_of ''fx[2]''], cd_depends = [], cd_auto = False\<rparr>"

text \<open>A component from the manifest of a library: its name, version, provided and needed identifiers. \<open>None\<close> is an overrun of the parser.\<close>

fun parse_all :: "str list \<Rightarrow> component_id list option" where
  "parse_all [] = Some []"
| "parse_all (s # ss) = Option.bind (Parse_id s) (\<lambda>d. map_option (Cons d) (parse_all ss))"

definition DllGameComponent :: "bool \<Rightarrow> str \<Rightarrow> str \<Rightarrow> str list \<Rightarrow> str list \<Rightarrow> bool option \<Rightarrow> component_data option" where
  "DllGameComponent toolMode name version provides dependencies shouldAutoInstance = do {
     ps \<leftarrow> parse_all ((name @ [91] @ version @ [93]) # provides);
     ds \<leftarrow> parse_all dependencies;
     Some \<lparr>cd_name = name, cd_provides = ps, cd_depends = ds,
           cd_auto = (\<not> toolMode \<and> (case shouldAutoInstance of None \<Rightarrow> True | Some b \<Rightarrow> b))\<rparr> }"

definition AddComponent :: "component_data list \<Rightarrow> component_data \<Rightarrow> component_data list" where
  "AddComponent known c = (if cd_name c \<in> cd_name ` set known then known else known @ [c])"

section \<open>Dependencies\<close>

datatype loader_error = Unresolved component_id | Unknown_component str

definition first_provider :: "component_data list \<Rightarrow> component_id \<Rightarrow> component_data option" where
  "first_provider known d = List.find (\<lambda>k. \<exists>p \<in> set (cd_provides k). IsMatchedBy d p) known"

fun LoadDependencies :: "component_data list \<Rightarrow> component_id list \<Rightarrow> loader_error + str list" where
  "LoadDependencies known [] = Inr []"
| "LoadDependencies known (d # ds) =
     (case first_provider known d of
        Some k \<Rightarrow> (case LoadDependencies known ds of Inl x \<Rightarrow> Inl x | Inr ns \<Rightarrow> Inr (cd_name k # ns))
      | None \<Rightarrow> if GetCategory d 0 = str_of ''vendor'' then LoadDependencies known ds else Inl (Unresolved d))"

text \<open>The dependencies of all components, by name.\<close>

fun load_all_dependencies :: "component_data list \<Rightarrow> component_data list \<Rightarrow> loader_error + (str \<times> str list) list" where
  "load_all_dependencies known [] = Inr []"
| "load_all_dependencies known (c # cs) =
     (case LoadDependencies known (cd_depends c) of
        Inl x \<Rightarrow> Inl x
      | Inr ns \<Rightarrow> (case load_all_dependencies known cs of Inl x \<Rightarrow> Inl x | Inr table \<Rightarrow> Inr ((cd_name c, ns) # table)))"

text \<open>\<open>SortDependencyList\<close>: the loop over the list and the loop over the dependencies of an entry are the same.\<close>

partial_function (option) visit_all :: "('a \<Rightarrow> 'a list) \<Rightarrow> 'a list \<Rightarrow> 'a set \<times> 'a list \<Rightarrow> ('a set \<times> 'a list) option" where
  "visit_all deps xs r =
     (case xs of
        [] \<Rightarrow> Some r
      | x # xs \<Rightarrow>
          (case r of (visited, out) \<Rightarrow>
           if x \<in> visited then visit_all deps xs (visited, out)
           else Option.bind (visit_all deps (deps x) (insert x visited, out)) (\<lambda>(visited, out). visit_all deps xs (visited, out @ [x]))))"

declare visit_all.simps [code]

definition SortDependencyList :: "('a \<Rightarrow> 'a list) \<Rightarrow> 'a list \<Rightarrow> 'a list option" where
  "SortDependencyList deps xs = map_option snd (visit_all deps xs ({}, []))"

section \<open>Loading\<close>

record loader =
  m_knownComponents :: "component_data list"
  loaded_flags :: "str set"
  m_loadedComponents :: "str list"
  auto_instances :: "str list"
  empty_entries :: "str set"

definition find_component :: "str \<Rightarrow> component_data list \<Rightarrow> component_data option" where
  "find_component name known = List.find (\<lambda>c. cd_name c = name) known"

text \<open>
  The lookup leaves an empty entry for a name that is not in the table; the program ends when there is none, and with \<open>adhesive\<close> it may
  go on. \<open>Load\<close> only sets the flag.
\<close>

definition LoadComponent :: "str \<Rightarrow> loader \<Rightarrow> loader_error + component_data \<times> loader" where
  "LoadComponent name l =
     (case (case find_component name (m_knownComponents l) of
              None \<Rightarrow> if name = str_of ''adhesive'' then find_component (str_of ''sticky'') (m_knownComponents l) else None
            | Some c \<Rightarrow> Some c) of
        None \<Rightarrow> Inl (Unknown_component name)
      | Some c \<Rightarrow>
          let l = (if find_component name (m_knownComponents l) = None then l\<lparr>empty_entries := insert name (empty_entries l)\<rparr> else l) in
          Inr (c, if cd_name c \<in> loaded_flags l then l else l\<lparr>loaded_flags := insert (cd_name c) (loaded_flags l)\<rparr>))"

fun load_in_order :: "str list \<Rightarrow> loader \<Rightarrow> loader_error + loader" where
  "load_in_order [] l = Inr l"
| "load_in_order (n # ns) l =
     (case LoadComponent n l of
        Inl x \<Rightarrow> Inl x
      | Inr (c, l) \<Rightarrow>
          load_in_order ns (l\<lparr>m_loadedComponents := m_loadedComponents l @ [cd_name c],
            auto_instances := (if cd_auto c then auto_instances l @ [cd_name c] else auto_instances l)\<rparr>))"

text \<open>
  \<open>Initialize\<close>: the components are those of the list in components.json; \<open>hash_order\<close> is the order in which the hash table
  iterates.
\<close>

definition Initialize :: "(component_data list \<Rightarrow> component_data list) \<Rightarrow> component_data list \<Rightarrow> (loader_error + loader) option" where
  "Initialize hash_order cs =
     (let known = hash_order (foldl AddComponent [FxGameComponent] cs) in
      case load_all_dependencies known known of
        Inl x \<Rightarrow> Some (Inl x)
      | Inr table \<Rightarrow>
          map_option (\<lambda>names. load_in_order names \<lparr>m_knownComponents = known, loaded_flags = {}, m_loadedComponents = [], auto_instances = [], empty_entries = {}\<rparr>)
            (SortDependencyList (\<lambda>n. case map_of table n of None \<Rightarrow> [] | Some ns \<Rightarrow> ns) (map cd_name known)))"

end
