(* ===== verification/Component_Loader_Properties.thy ===== *)
theory Component_Loader_Properties
  imports Component_Loader "HOL-Library.Multiset"
begin

text \<open>
  Properties of the component loader: the sort by dependencies ends and lists every component once, behind what it depends on unless the
  two depend on each other; \<open>Initialize\<close> loads in that order; an identifier is read back from its text.
\<close>

section \<open>Sorting\<close>

definition before :: "'a list \<Rightarrow> 'a \<Rightarrow> 'a \<Rightarrow> bool" where
  "before l v u \<longleftrightarrow> (\<exists>p s. l = p @ u # s \<and> v \<in> set p)"

lemma before_left: "before l v u \<Longrightarrow> before (l @ m) v u"
  by (fastforce simp: before_def)

lemma before_right: "before m v u \<Longrightarrow> before (l @ m) v u"
  unfolding before_def by (metis Un_iff append.assoc set_append)

lemma before_across:
  assumes "v \<in> set l" "u \<in> set m"
  shows "before (l @ m) v u"
proof -
  obtain p s where "m = p @ u # s" using split_list[OF assms(2)] by blast
  then have "l @ m = (l @ p) @ u # s" "v \<in> set (l @ p)" using assms(1) by auto
  then show ?thesis unfolding before_def by blast
qed

text \<open>\<open>needs deps v u\<close>: the entry \<open>u\<close> is a dependency of \<open>v\<close>.\<close>

definition needs :: "('a \<Rightarrow> 'a list) \<Rightarrow> 'a \<Rightarrow> 'a \<Rightarrow> bool" where
  "needs deps v u \<longleftrightarrow> u \<in> set (deps v)"

text \<open>What a visit of a list, with the entries of \<open>V\<close> visited, has put out.\<close>

definition visit_ok :: "('a \<Rightarrow> 'a list) \<Rightarrow> 'a set \<Rightarrow> 'a list \<Rightarrow> 'a list \<Rightarrow> bool" where
  "visit_ok deps V xs new \<longleftrightarrow>
     distinct new \<and> set new \<inter> V = {} \<and> set xs \<subseteq> V \<union> set new \<and>
     (\<forall>u \<in> set new. \<exists>y \<in> set xs. (needs deps)\<^sup>*\<^sup>* y u) \<and>
     (\<forall>u \<in> set new. \<forall>v \<in> set (deps u). v \<in> V \<or> before new v u \<or> (needs deps)\<^sup>*\<^sup>* v u)"

lemma visit_ok_from: "visit_ok deps V xs new \<Longrightarrow> u \<in> set new \<Longrightarrow> \<exists>y \<in> set xs. (needs deps)\<^sup>*\<^sup>* y u"
  by (simp add: visit_ok_def)

lemma visit_ok_order:
  "visit_ok deps V xs new \<Longrightarrow> u \<in> set new \<Longrightarrow> v \<in> set (deps u) \<Longrightarrow> v \<in> V \<or> before new v u \<or> (needs deps)\<^sup>*\<^sup>* v u"
  by (simp add: visit_ok_def)

lemma visit_ok_Nil: "visit_ok deps V [] []"
  by (simp add: visit_ok_def)

lemma visit_ok_seen: "x \<in> V \<Longrightarrow> visit_ok deps V xs new \<Longrightarrow> visit_ok deps V (x # xs) new"
  by (auto simp: visit_ok_def)

lemma visit_ok_Cons:
  assumes x: "x \<notin> V" and a: "visit_ok deps (insert x V) (deps x) new1"
    and b: "visit_ok deps (insert x V \<union> set new1) xs new2"
  shows "visit_ok deps V (x # xs) (new1 @ x # new2)"
proof -
  let ?new = "new1 @ x # new2" and ?R = "(needs deps)\<^sup>*\<^sup>*"
  have from_x: "?R x u" if u: "u \<in> set new1" for u
  proof -
    obtain y where y: "y \<in> set (deps x)" "?R y u" using visit_ok_from[OF a u] by blast
    have "needs deps x y" using y(1) by (simp add: needs_def)
    then show ?thesis using y(2) by (rule converse_rtranclp_into_rtranclp)
  qed
  have new1: "v \<in> V \<or> before ?new v u \<or> ?R v u" if "u \<in> set new1" "v \<in> set (deps u)" for u v
  proof -
    have "v \<in> insert x V \<or> before new1 v u \<or> ?R v u" using visit_ok_order[OF a that] .
    then show ?thesis using from_x[OF that(1)] before_left[of new1 v u "x # new2"] by blast
  qed
  have new2: "v \<in> V \<or> before ?new v u \<or> ?R v u" if "u \<in> set new2" "v \<in> set (deps u)" for u v
  proof -
    have "v \<in> insert x V \<union> set new1 \<or> before new2 v u \<or> ?R v u" using visit_ok_order[OF b that] .
    moreover have "before ?new v u" if "v \<in> insert x (set new1)"
      using before_across[of v "new1 @ [x]" u new2] \<open>u \<in> set new2\<close> that by simp
    moreover have "before ?new v u" if "before new2 v u" using before_right[OF that, of "new1 @ [x]"] by simp
    ultimately show ?thesis by blast
  qed
  have self: "v \<in> V \<or> before ?new v x \<or> ?R v x" if "v \<in> set (deps x)" for v
  proof -
    have "v \<in> insert x V \<union> set new1" using a that by (auto simp: visit_ok_def)
    moreover have "before ?new v x" if "v \<in> set new1" using before_across[of v new1 x "x # new2"] that by simp
    ultimately show ?thesis by blast
  qed
  have "distinct ?new" "set ?new \<inter> V = {}" "set (x # xs) \<subseteq> V \<union> set ?new"
    using a b x unfolding visit_ok_def by auto
  moreover have "\<exists>y \<in> set (x # xs). ?R y u" if "u \<in> set ?new" for u
    using that from_x visit_ok_from[OF b, of u] by auto
  moreover have "v \<in> V \<or> before ?new v u \<or> ?R v u" if u: "u \<in> set ?new" and v: "v \<in> set (deps u)" for u v
  proof -
    consider "u \<in> set new1" | "u \<in> set new2" | "u = x" using u by auto
    then show ?thesis using new1[OF _ v] new2[OF _ v] self v by cases blast+
  qed
  ultimately show ?thesis unfolding visit_ok_def by blast
qed

lemma visit_all_returns:
  assumes "finite U" "set xs \<subseteq> U" "\<And>u. u \<in> U \<Longrightarrow> set (deps u) \<subseteq> U"
  shows "\<exists>new. visit_all deps xs (V, out) = Some (V \<union> set new, out @ new) \<and> set new \<subseteq> U \<and> visit_ok deps V xs new"
  using assms(2)
proof (induction "(card (U - V), length xs)" arbitrary: V xs out rule: wf_induct_rule[OF wf_lex_prod[OF wf_less wf_less]])
  case (1 V xs out)
  show ?case
  proof (cases xs)
    case Nil
    then show ?thesis using visit_ok_Nil by (subst visit_all.simps) auto
  next
    case (Cons x ys)
    then have xU: "x \<in> U" and ys: "set ys \<subseteq> U" using "1.prems" by auto
    show ?thesis
    proof (cases "x \<in> V")
      case True
      have "\<exists>new. visit_all deps ys (V, out) = Some (V \<union> set new, out @ new) \<and> set new \<subseteq> U \<and> visit_ok deps V ys new"
        by (rule "1.hyps"[OF _ ys]) (simp add: Cons)
      then show ?thesis using True by (subst visit_all.simps) (auto simp: Cons visit_ok_seen)
    next
      case False
      let ?V = "insert x V"
      have less: "card (U - ?V) < card (U - V)"
        using False xU assms(1) by (intro psubset_card_mono) auto
      obtain new1 where n1: "visit_all deps (deps x) (?V, out) = Some (?V \<union> set new1, out @ new1)"
          "set new1 \<subseteq> U" "visit_ok deps ?V (deps x) new1"
        using "1.hyps"[OF _ assms(3)[OF xU], of ?V out] less by auto
      let ?V2 = "?V \<union> set new1"
      have "card (U - ?V2) < card (U - V)"
        using le_less_trans[OF card_mono[of "U - ?V" "U - ?V2"] less] assms(1) by auto
      then obtain new2 where n2: "visit_all deps ys (?V2, (out @ new1) @ [x]) = Some (?V2 \<union> set new2, ((out @ new1) @ [x]) @ new2)"
          "set new2 \<subseteq> U" "visit_ok deps ?V2 ys new2"
        using "1.hyps"[OF _ ys, of ?V2 "(out @ new1) @ [x]"] by auto
      have "visit_all deps xs (V, out) = Some (V \<union> set (new1 @ x # new2), out @ new1 @ x # new2)"
        using False n1(1) n2(1) by (subst visit_all.simps) (auto simp: Cons Un_commute Un_left_commute)
      moreover have "visit_ok deps V (x # ys) (new1 @ x # new2)" by (rule visit_ok_Cons[OF False n1(3) n2(3)])
      ultimately show ?thesis using n1(2) n2(2) xU Cons by (intro exI[of _ "new1 @ x # new2"]) auto
    qed
  qed
qed

lemma SortDependencyList_returns:
  assumes "\<And>x. x \<in> set xs \<Longrightarrow> set (deps x) \<subseteq> set xs"
  shows "\<exists>l. SortDependencyList deps xs = Some l \<and> distinct l \<and> set l = set xs \<and>
    (\<forall>u \<in> set xs. \<forall>v \<in> set (deps u). before l v u \<or> (needs deps)\<^sup>*\<^sup>* v u)"
proof -
  obtain new where "visit_all deps xs ({}, []) = Some ({} \<union> set new, [] @ new)" "set new \<subseteq> set xs" "visit_ok deps {} xs new"
    using visit_all_returns[of "set xs" xs deps "{}" "[]"] assms by auto
  then show ?thesis unfolding SortDependencyList_def visit_ok_def by (intro exI[of _ new]) auto
qed

section \<open>Dependencies\<close>

definition resolved :: "component_data list \<Rightarrow> component_data \<Rightarrow> str list" where
  "resolved known c = map cd_name (List.map_filter (first_provider known) (cd_depends c))"

definition resolvable :: "component_data list \<Rightarrow> component_id \<Rightarrow> bool" where
  "resolvable known d \<longleftrightarrow> first_provider known d \<noteq> None \<or> GetCategory d 0 = str_of ''vendor''"

lemma LoadDependencies_result:
  "case LoadDependencies known ds of
     Inl e \<Rightarrow> \<exists>d \<in> set ds. e = Unresolved d \<and> \<not> resolvable known d
   | Inr ns \<Rightarrow> (\<forall>d \<in> set ds. resolvable known d) \<and> ns = map cd_name (List.map_filter (first_provider known) ds)"
  by (induction ds) (auto simp: resolvable_def map_filter_simps split: option.splits sum.splits if_splits)

lemma load_all_dependencies_result:
  "case load_all_dependencies known cs of
     Inl e \<Rightarrow> \<exists>c \<in> set cs. \<exists>d \<in> set (cd_depends c). e = Unresolved d \<and> \<not> resolvable known d
   | Inr table \<Rightarrow> (\<forall>c \<in> set cs. \<forall>d \<in> set (cd_depends c). resolvable known d) \<and> table = map (\<lambda>c. (cd_name c, resolved known c)) cs"
proof (induction cs)
  case (Cons c cs)
  then show ?case using LoadDependencies_result[where known = known and ds = "cd_depends c"]
    by (auto simp: resolved_def split: sum.splits)
qed simp

lemma find_provider: "first_provider known d = Some k \<Longrightarrow> k \<in> set known"
  by (auto simp: first_provider_def find_Some_iff)

lemma resolved_known: "set (resolved known c) \<subseteq> cd_name ` set known"
  by (auto simp: resolved_def List.map_filter_def find_provider split: option.splits)

lemma resolved_provider:
  "d \<in> set (cd_depends c) \<Longrightarrow> first_provider known d = Some k \<Longrightarrow> cd_name k \<in> set (resolved known c)"
  by (force simp: resolved_def List.map_filter_def)

text \<open>The dependencies of the component of a name.\<close>

definition dependency_names :: "component_data list \<Rightarrow> str \<Rightarrow> str list" where
  "dependency_names known n = (case find_component n known of None \<Rightarrow> [] | Some c \<Rightarrow> resolved known c)"

lemma find_component_name: "find_component n known = Some c \<Longrightarrow> c \<in> set known \<and> cd_name c = n"
  by (auto simp: find_component_def find_Some_iff)

lemma find_component_known: "n \<in> cd_name ` set known \<Longrightarrow> \<exists>c. find_component n known = Some c \<and> cd_name c = n"
proof (cases "find_component n known")
  case None
  assume "n \<in> cd_name ` set known"
  then show ?thesis using None by (auto simp: find_component_def find_None_iff)
qed (simp add: find_component_name)

lemma find_component_self: "distinct (map cd_name known) \<Longrightarrow> c \<in> set known \<Longrightarrow> find_component (cd_name c) known = Some c"
  by (induction known) (auto simp: find_component_def)

lemma map_of_table:
  "(case map_of (map (\<lambda>c. (cd_name c, resolved k c)) known) n of None \<Rightarrow> [] | Some ns \<Rightarrow> ns)
   = (case find_component n known of None \<Rightarrow> [] | Some c \<Rightarrow> resolved k c)"
  by (induction known) (auto simp: find_component_def)

lemma AddComponents_distinct:
  "distinct (map cd_name known) \<Longrightarrow> distinct (map cd_name (foldl AddComponent known cs))"
  by (induction cs arbitrary: known) (auto simp: AddComponent_def)

section \<open>Loading\<close>

lemma load_in_order_known:
  "set ns \<subseteq> cd_name ` set (m_knownComponents l) \<Longrightarrow>
   \<exists>l'. load_in_order ns l = Inr l' \<and> m_loadedComponents l' = m_loadedComponents l @ ns \<and> loaded_flags l' = loaded_flags l \<union> set ns"
proof (induction ns arbitrary: l)
  case (Cons n ns)
  then obtain c where c: "find_component n (m_knownComponents l) = Some c" "cd_name c = n"
    using find_component_known[of n "m_knownComponents l"] by auto
  define l2 where "l2 = (if n \<in> loaded_flags l then l else l\<lparr>loaded_flags := insert n (loaded_flags l)\<rparr>)"
  define l3 where "l3 = l2\<lparr>m_loadedComponents := m_loadedComponents l2 @ [n],
    auto_instances := (if cd_auto c then auto_instances l2 @ [n] else auto_instances l2)\<rparr>"
  have "LoadComponent n l = Inr (c, l2)" using c by (simp add: LoadComponent_def l2_def)
  then have "load_in_order (n # ns) l = load_in_order ns l3" using c(2) by (simp add: l3_def)
  moreover have "m_knownComponents l3 = m_knownComponents l" "m_loadedComponents l3 = m_loadedComponents l @ [n]"
    "loaded_flags l3 = insert n (loaded_flags l)" by (auto simp: l3_def l2_def)
  ultimately show ?case using Cons.IH[of l3] Cons.prems by auto
qed simp

text \<open>The components that are known when \<open>Initialize\<close> resolves dependencies.\<close>

definition known_components :: "(component_data list \<Rightarrow> component_data list) \<Rightarrow> component_data list \<Rightarrow> component_data list" where
  "known_components hash_order cs = hash_order (foldl AddComponent [FxGameComponent] cs)"

lemma known_components_distinct:
  assumes "\<And>ks. mset (hash_order ks) = mset ks"
  shows "distinct (map cd_name (known_components hash_order cs))"
proof -
  have "mset (map cd_name (known_components hash_order cs)) = mset (map cd_name (foldl AddComponent [FxGameComponent] cs))"
    by (simp add: known_components_def assms)
  moreover have "distinct (map cd_name (foldl AddComponent [FxGameComponent] cs))" by (rule AddComponents_distinct) simp
  ultimately show ?thesis using mset_eq_imp_distinct_iff by blast
qed

text \<open>An order of loading: what a component needs comes before it, or needs it as well.\<close>

definition dependency_order :: "component_data list \<Rightarrow> str list \<Rightarrow> bool" where
  "dependency_order known names \<longleftrightarrow> (\<forall>c \<in> set known. \<forall>d \<in> set (cd_depends c).
     case first_provider known d of
       None \<Rightarrow> GetCategory d 0 = str_of ''vendor''
     | Some p \<Rightarrow> before names (cd_name p) (cd_name c) \<or> (needs (dependency_names known))\<^sup>*\<^sup>* (cd_name p) (cd_name c))"

lemma dependency_names_known: "set (dependency_names known n) \<subseteq> set (map cd_name known)"
  using resolved_known[of known] by (auto simp: dependency_names_def split: option.splits)

lemma sorted_dependencies:
  assumes dist: "distinct (map cd_name known)" and res: "\<forall>c \<in> set known. \<forall>d \<in> set (cd_depends c). resolvable known d"
  shows "\<exists>names. SortDependencyList (dependency_names known) (map cd_name known) = Some names \<and> distinct names \<and>
    set names = cd_name ` set known \<and> dependency_order known names"
proof -
  obtain names where names: "SortDependencyList (dependency_names known) (map cd_name known) = Some names" "distinct names"
      "set names = set (map cd_name known)" and
    order: "\<And>u v. u \<in> set (map cd_name known) \<Longrightarrow> v \<in> set (dependency_names known u) \<Longrightarrow>
      before names v u \<or> (needs (dependency_names known))\<^sup>*\<^sup>* v u"
    using SortDependencyList_returns[of "map cd_name known" "dependency_names known"] dependency_names_known by blast
  have "before names (cd_name p) (cd_name c) \<or> (needs (dependency_names known))\<^sup>*\<^sup>* (cd_name p) (cd_name c)"
    if c: "c \<in> set known" and d: "d \<in> set (cd_depends c)" "first_provider known d = Some p" for c d p
  proof -
    have "dependency_names known (cd_name c) = resolved known c"
      by (simp add: dependency_names_def find_component_self[OF dist c])
    then show ?thesis using order[of "cd_name c" "cd_name p"] c resolved_provider[OF d] by simp
  qed
  moreover have "GetCategory d 0 = str_of ''vendor''"
    if "c \<in> set known" "d \<in> set (cd_depends c)" "first_provider known d = None" for c d
    using bspec[OF bspec[OF res that(1)] that(2)] that(3) by (simp add: resolvable_def)
  ultimately have "dependency_order known names" unfolding dependency_order_def by (auto split: option.splits)
  then show ?thesis using names by auto
qed

lemma Initialize_fails:
  assumes "load_all_dependencies (known_components hash_order cs) (known_components hash_order cs) = Inl e"
  shows "Initialize hash_order cs = Some (Inl e)"
  using assms unfolding Initialize_def Let_def known_components_def by simp

lemma Initialize_sorted:
  assumes "distinct (map cd_name (known_components hash_order cs))"
    and "\<forall>c \<in> set (known_components hash_order cs). \<forall>d \<in> set (cd_depends c). resolvable (known_components hash_order cs) d"
  shows "\<exists>l. Initialize hash_order cs = Some (Inr l) \<and> distinct (m_loadedComponents l) \<and>
     set (m_loadedComponents l) = cd_name ` set (known_components hash_order cs) \<and>
     dependency_order (known_components hash_order cs) (m_loadedComponents l) \<and> loaded_flags l = set (m_loadedComponents l)"
proof -
  define known where "known = known_components hash_order cs"
  obtain names where names: "SortDependencyList (dependency_names known) (map cd_name known) = Some names" "distinct names"
      "set names = cd_name ` set known" "dependency_order known names"
    using sorted_dependencies[of known] assms by (auto simp: known_def)
  define l where "l = \<lparr>m_knownComponents = known, loaded_flags = {}, m_loadedComponents = [], auto_instances = [], empty_entries = {}\<rparr>"
  obtain l' where l': "load_in_order names l = Inr l'" "m_loadedComponents l' = names" "loaded_flags l' = set names"
    using load_in_order_known[of names l] names(3) by (auto simp: l_def)
  have table: "load_all_dependencies known known = Inr (map (\<lambda>c. (cd_name c, resolved known c)) known)"
    using load_all_dependencies_result[where known = known and cs = known] assms(2)
    by (cases "load_all_dependencies known known") (auto simp: known_def)
  have "Initialize hash_order cs = Some (Inr l')"
    unfolding Initialize_def Let_def known_components_def[symmetric] known_def[symmetric] table sum.case map_of_table
      dependency_names_def[symmetric] l_def[symmetric] using names(1) l'(1) by simp
  then show ?thesis using names l' by (simp add: known_def)
qed

text \<open>C37:
  \<open>Initialize\<close> of the component loader ends, whatever the order of the hash table and whatever cycles the dependencies have, and never
  asks for a component that is not there. It fails only for a dependency, not on a vendor's component, that no component provides. Else
  every known component is loaded, once, and each dependency of a component comes before it unless the dependency in turn depends,
  directly or not, on the component.
\<close>

theorem Initialize_loads:
  assumes "\<And>ks. mset (hash_order ks) = mset ks"
  shows "case Initialize hash_order cs of
      None \<Rightarrow> False
    | Some (Inl e) \<Rightarrow> \<exists>c \<in> set (known_components hash_order cs). \<exists>d \<in> set (cd_depends c).
        e = Unresolved d \<and> first_provider (known_components hash_order cs) d = None \<and> GetCategory d 0 \<noteq> str_of ''vendor''
    | Some (Inr l) \<Rightarrow> distinct (m_loadedComponents l) \<and>
        set (m_loadedComponents l) = cd_name ` set (known_components hash_order cs) \<and>
        dependency_order (known_components hash_order cs) (m_loadedComponents l)"
proof (cases "load_all_dependencies (known_components hash_order cs) (known_components hash_order cs)")
  case (Inl e)
  then show ?thesis
    using load_all_dependencies_result[where known = "known_components hash_order cs" and cs = "known_components hash_order cs"]
    by (simp add: Initialize_fails[OF Inl] resolvable_def)
next
  case (Inr table)
  then have "\<forall>c \<in> set (known_components hash_order cs). \<forall>d \<in> set (cd_depends c). resolvable (known_components hash_order cs) d"
    using load_all_dependencies_result[where known = "known_components hash_order cs" and cs = "known_components hash_order cs"] by simp
  from Initialize_sorted[OF known_components_distinct[OF assms] this] show ?thesis by auto
qed

definition sample_components :: "component_data list" where
  "sample_components = List.map_filter id
     [DllGameComponent False (str_of ''b'') (str_of ''1'') [] [str_of ''a:x[2]'', str_of ''vendor:z''] None,
      DllGameComponent False (str_of ''c'') (str_of ''1'') [] [str_of ''b''] (Some False),
      DllGameComponent False (str_of ''a:x'') (str_of ''2.1'') [] [str_of ''c'', str_of ''fx''] None]"

lemma Initialize_loads_witness:
  "\<exists>l. Initialize rev sample_components = Some (Inr l) \<and> m_loadedComponents l = [str_of ''b'', str_of ''c'', str_of ''fx'', str_of ''a:x''] \<and>
     dependency_order (known_components rev sample_components) (m_loadedComponents l)"
proof -
  have "map_option (map_sum (\<lambda>_. ()) m_loadedComponents) (Initialize rev sample_components) =
      Some (Inr [str_of ''b'', str_of ''c'', str_of ''fx'', str_of ''a:x''])" by code_simp
  then show ?thesis using Initialize_loads[of rev sample_components] by (auto split: option.splits sum.splits)
qed

section \<open>Identifiers\<close>

lemma parse_id_text:
  assumes "58 \<notin> set s" "91 \<notin> set s" "length temp + length s < 256"
  shows "parse_loop PARSE_ID temp vI d (s @ r) = parse_loop PARSE_ID (temp @ s) vI d r"
  using assms by (induction s arbitrary: temp) auto

lemma parse_version_text:
  assumes "46 \<notin> set s" "93 \<notin> set s" "length temp + length s < 256"
  shows "parse_loop PARSE_VERSION temp vI d (s @ r) = parse_loop PARSE_VERSION (temp @ s) vI d r"
  using assms by (induction s arbitrary: temp) auto

definition category_ok :: "str \<Rightarrow> bool" where
  "category_ok c \<longleftrightarrow> 0 \<notin> set c \<and> 58 \<notin> set c \<and> 91 \<notin> set c \<and> length c < 256"

lemma parse_categories:
  assumes "\<forall>c \<in> set cs. category_ok c" "length temp < 256"
  shows "parse_loop PARSE_ID temp vI d (concat (map (\<lambda>c. 58 # c) cs) @ 91 # r) =
    parse_loop PARSE_VERSION [] vI (d\<lparr>m_categories := m_categories d @ temp # cs\<rparr>) r"
  using assms
proof (induction cs arbitrary: temp d)
  case (Cons c cs)
  then have "category_ok c" by simp
  then show ?case using Cons.prems Cons.IH[of c "d\<lparr>m_categories := m_categories d @ [temp]\<rparr>"]
    by (simp add: category_ok_def parse_id_text[where temp = "[]", simplified])
qed simp

lemma parse_version_field:
  assumes "46 \<notin> set s" "93 \<notin> set s" "length s < 256" "vI < length (m_versions d)" "b = 46 \<or> b = 93"
  shows "parse_loop PARSE_VERSION [] vI d (s @ b # r) =
    parse_loop PARSE_VERSION [] (vI + 1) (d\<lparr>m_versions := (m_versions d)[vI := atoi_c s]\<rparr>) r"
  using assms by (auto simp: parse_version_text[where temp = "[]", simplified])

lemma show_nat_length: "n < 10 ^ k \<Longrightarrow> 0 < k \<Longrightarrow> length (show_nat n) \<le> k"
proof (induction k arbitrary: n)
  case (Suc k)
  show ?case
  proof (cases "n < 10")
    case True
    then show ?thesis by (subst show_nat.simps) simp
  next
    case False
    then have "0 < k" using Suc.prems(1) by (cases k) auto
    moreover have "n div 10 < 10 ^ k" using Suc.prems(1) by (simp add: less_mult_imp_div_less mult.commute)
    ultimately have "length (show_nat (n div 10)) \<le> k" using Suc.IH by blast
    then show ?thesis using False by (subst show_nat.simps) simp
  qed
qed simp

lemma show_int_chars: "b \<in> set (show_int i) \<Longrightarrow> is_digit b \<or> b = 45"
  using show_nat_digits by (auto simp: show_int_def split: if_splits)

lemma show_int_clean: "46 \<notin> set (show_int i)" "93 \<notin> set (show_int i)" "0 \<notin> set (show_int i)"
  using show_int_chars[of 46 i] show_int_chars[of 93 i] show_int_chars[of 0 i] by (auto simp: is_digit_def)

lemma show_int_length:
  assumes "- (2 ^ 31) \<le> i" "i < 2 ^ 31"
  shows "length (show_int i) < 256"
proof -
  have "nat i < 10 ^ 10" "nat (- i) < 10 ^ 10" using assms by auto
  then show ?thesis using show_nat_length[of "nat i" 10] show_nat_length[of "nat (- i)" 10] by (simp add: show_int_def)
qed

lemma atoi_show_nat: "atoi_c (show_nat n) = int n" "atoi_c (45 # show_nat n) = - int n"
proof -
  obtain b r where s: "show_nat n = b # r" using show_nat_not_empty[of n] by (cases "show_nat n") auto
  have "is_digit b" using show_nat_digits[of n] s by simp
  then have b: "48 \<le> unat b" by (simp add: is_digit_def word_le_nat_alt)
  then have "\<not> is_space b" "b \<noteq> 45" "b \<noteq> 43" by (auto simp: is_space_def word_le_nat_alt)
  then have "sign (dropWhile is_space (show_nat n)) = (False, show_nat n)" by (simp add: s sign_def)
  moreover have ds: "takeWhile is_digit (show_nat n) = show_nat n"
    using show_nat_digits by (simp only: takeWhile_eq_all_conv)
  ultimately show "atoi_c (show_nat n) = int n" by (simp add: atoi_c_def Let_def digits_value_show del: takeWhile_eq_all_conv)
  have "sign (dropWhile is_space (45 # show_nat n)) = (True, show_nat n)" by (simp add: sign_def is_space_def)
  then show "atoi_c (45 # show_nat n) = - int n" using ds by (simp add: atoi_c_def Let_def digits_value_show del: takeWhile_eq_all_conv)
qed

lemma atoi_show_int: "atoi_c (show_int i) = i"
  by (simp add: show_int_def atoi_show_nat)

text \<open>C1:
  An identifier whose categories fit the parser's buffer and have no separator in them, with versions of an \<open>int\<close>, is read back from
  its text.
\<close>

theorem component_id_roundtrip:
  assumes "m_categories d \<noteq> []" "\<forall>c \<in> set (m_categories d). category_ok c"
    and "length (m_versions d) = 4" "\<forall>v \<in> set (m_versions d). - (2 ^ 31) \<le> v \<and> v < 2 ^ 31"
  shows "Parse_id (GetString d) = Some d"
proof -
  obtain c cs where c: "m_categories d = c # cs" using assms(1) by (cases "m_categories d") auto
  obtain v0 v1 v2 v3 where v: "m_versions d = [v0, v1, v2, v3]"
    using assms(3) by (auto simp: length_Suc_conv eval_nat_numeral)
  have d: "d = \<lparr>m_categories = c # cs, m_versions = [v0, v1, v2, v3]\<rparr>" using c v by (cases d) simp
  have cok: "category_ok c" "\<forall>c \<in> set cs. category_ok c" using assms(2) c by auto
  have len: "length (show_int i) < 256" if "i \<in> {v0, v1, v2, v3}" for i using assms(4) v that by (intro show_int_length) auto
  let ?text = "c @ concat (map (\<lambda>c. 58 # c) cs) @ 91 # show_int v0 @ 46 # show_int v1 @ 46 # show_int v2 @ 46 # show_int v3 @ [93]"
  have "0 \<notin> set ?text" using cok show_int_clean by (auto simp: category_ok_def)
  then have whole: "takeWhile (\<lambda>b. b \<noteq> 0) ?text = ?text" by (subst takeWhile_eq_all_conv) auto
  have "GetString d = ?text" by (simp add: d GetString_def GetCategory_def)
  then have "Parse_id (GetString d) = parse_loop PARSE_ID [] 0 no_id ?text" using whole by (simp only: Parse_id_def)
  also have "\<dots> = parse_loop PARSE_VERSION [] 0 (no_id\<lparr>m_categories := c # cs\<rparr>)
      (show_int v0 @ 46 # show_int v1 @ 46 # show_int v2 @ 46 # show_int v3 @ [93])"
    using cok by (subst parse_id_text) (auto simp: category_ok_def parse_categories no_id_def)
  also have "\<dots> = Some d"
    using len by (simp add: parse_version_field show_int_clean atoi_show_int no_id_def d numeral_2_eq_2)
  finally show ?thesis .
qed

lemma component_id_roundtrip_witness:
  "Parse_id (str_of ''game:gta_ny[1.0.7.-2147483648]'') =
     Some \<lparr>m_categories = [str_of ''game'', str_of ''gta_ny''], m_versions = [1, 0, 7, - 2147483648]\<rparr>"
proof -
  have "GetString \<lparr>m_categories = [str_of ''game'', str_of ''gta_ny''], m_versions = [1, 0, 7, - 2147483648]\<rparr> =
      str_of ''game:gta_ny[1.0.7.-2147483648]''"
  proof -
    have "str_of ''game:gta_ny[1.0.7.-2147483648]'' = [103, 97, 109, 101, 58, 103, 116, 97, 95, 110, 121, 91, 49, 46, 48, 46, 55, 46, 45, 50, 49, 52, 55, 52, 56, 51, 54, 52, 56, 93]" by code_simp
    moreover have "str_of ''game'' = [103, 97, 109, 101]" "str_of ''gta_ny'' = [103, 116, 97, 95, 110, 121]" by code_simp+
    ultimately show ?thesis by (simp add: GetString_def GetCategory_def show_int_def show_nat.simps digit_def)
  qed
  moreover have "category_ok (str_of ''game'')" "category_ok (str_of ''gta_ny'')" by code_simp+
  ultimately show ?thesis
    using component_id_roundtrip[of "\<lparr>m_categories = [str_of ''game'', str_of ''gta_ny''], m_versions = [1, 0, 7, - 2147483648]\<rparr>"] by simp
qed

end
