(* ===== verification/Spec2Isabelle.thy ===== *)
theory Spec2Isabelle
  imports Buffer_Properties Event_Sending State_Bag_Properties Security_Properties Console_Exec
    Runtime_Properties Network_Event Metadata_Properties Connection_Properties
    Object_Id_Properties Sync_Client_Data Sync_Resend World_Grid_Properties Array_Properties
    Component_Loader_Properties
begin

text \<open>
  The shared core of the CitizenFX (FiveM) framework, modelled from its C++ sources under src/code. The
  framework loads resources (scripted packages), moves events and replicated state between server and
  clients, and is configured through a console whose commands are subject to access control. The model
  covers the code that carries this logic on both sides and that no game or library dictates:

  \<^item> the bit buffer every packet is written to and read from;
  \<^item> the reassembly of large events from fragments, with acknowledgement and pacing;
  \<^item> the state bags, replicated key-value stores with an owner and routing targets;
  \<^item> the access control lists and the stack of acting principals;
  \<^item> the console: tokenizer, command buffer, commands, variables, saving;
  \<^item> the callback lists, the resources, their manager and the events they exchange;
  \<^item> the metadata of resources: manifest entries, manifest versions, constraints on the server;
  \<^item> the server's registry of clients, with their net ids, slots and principals;
  \<^item> how a client connects: deferrals by resources, the response to its request, the handshake;
  \<^item> the byte buffer of the network layer, and the ids of networked objects that travel in it;
  \<^item> the server's game state: the entities that clients share, their owners, and what each client is told;
  \<^item> the world grid (which client populates which part of the map) and the arrays that games share;
  \<^item> the component loader that every program of the framework starts with.

  How they interact: event reassembly and state bags read and write bit buffers; a completed event is
  queued in the event manager of the resource runtime, whose tick triggers it (theory \<open>Network_Event\<close>); the
  console asks the access control before it runs a command, and registers the commands that edit it; a client
  caches the principals of the access control that it acts as, and its net id is the peer that events and state
  bags are sent to; a connection registers a client, and validates or removes it as the resources decide that hear
  the event \<open>playerConnecting\<close>; the handshake looks it up again.

  \<^bold>\<open>Theories.\<close> Prefixes of paths: \<open>core\<close> is src/code/components/citizen-resources-core.

  \<^item> \<open>Prelude\<close>: machine integers, checked byte memory (an access outside a buffer is \<open>None\<close>), bit views,
    loops that send; \<open>Text\<close>: C strings and their case-insensitive order; \<open>Std_Containers\<close>: ordered maps.
  \<^item> \<open>Message_Buffer\<close>, \<open>Bit_Stream\<close>, \<open>Buffer_Properties\<close>: \<open>rl::MessageBuffer\<close>
    (src/code/shared/state/RlMessageBuffer.h), a record of bytes and bit position, one definition per
    method; the stream view of a buffer; its round trips and bounds, the decompiled \<open>CopyBits\<close> against a
    bit-by-bit copy, and the two inputs on which it and \<open>Clone\<close> leave their buffers.
  \<^item> \<open>Event_Packet\<close>, \<open>Event_Reassembly\<close>, \<open>Event_Delivery\<close>, \<open>Event_Sending\<close>: core/src/EventReassemblyComponent.cpp.
    The state is the record \<open>reassembly\<close> (\<open>m_sendList\<close>, \<open>m_receiveList\<close>, targets, clock), the operations are
    \<open>TriggerEvent\<close>, \<open>NetworkTick\<close>, \<open>HandlePacket\<close>, \<open>RegisterTarget\<close>, \<open>UnregisterTarget\<close>. Receiving: an event is
    handed on exactly once and unchanged whatever the order and repetition of its fragments. Sending: an
    invariant of all reachable states, memory safety, nothing is sent twice in a burst or dropped early.
  \<^item> \<open>State_Bag\<close>, \<open>State_Bag_Properties\<close>: core/src/StateBagComponent.cpp. Bags are objects of a heap with owners,
    the registry maps names to addresses. Routing, replication, ownership, round trip of packets, the
    registry's invariant and the ways to lose a bag or a value.
  \<^item> \<open>Security\<close>, \<open>Security_Properties\<close>: src/code/client/citicore/se. The decision procedure against its
    declarative meaning, editing, scopes of principals, the guard against editing one's own access.
  \<^item> \<open>Utf8\<close>, \<open>Console_Tokenizer\<close>, \<open>Console_Text_Properties\<close>, \<open>Console_Values\<close>, \<open>Console\<close>, \<open>Console_Safety\<close>,
    \<open>Console_Properties\<close>, \<open>Console_Configuration\<close>, \<open>Console_Exec\<close>: src/code/client/citicore/console. The record \<open>console\<close> is one
    context with its command table, variable table and variable objects; a \<open>world\<close> is the chain of
    contexts with the access control. Totality of the tokenizer, an invariant under which no operation
    uses a dead variable or fails, unless a command of another component does not return; privileges, overloads, read-only variables, and that the
    saved text gives every archived variable back when it is executed. What those commands do to the consoles they do through the interface, which includes running buffers: \<open>exec\<close> of
    src/code/components/citizen-server-main/src/ServerInstance.cpp is such a command, and a file that executes itself does not return.
  \<^item> \<open>Event_Core\<close>: \<open>fwEvent\<close> (src/code/client/shared/EventCore.h), with a refinement of the plain list of
    connections. \<open>Resource_Runtime\<close>: core/src/Resource.cpp, ResourceManager.cpp, ResourceEventComponent.cpp
    as a machine of frames, because handlers call back into the code that runs them; a handler is any
    program over the interface. \<open>Runtime_Safety\<close>: what holds in every reachable machine. \<open>Runtime_Delivery\<close>:
    the machine against a description of a whole event, for handlers that cancel and ask only; in a tick and in a start the listeners behind
    those of the event component are any code. \<open>Runtime_Properties\<close>: delivery, queue, vetoed start, and four runs in which handlers change what is
    being iterated over. \<open>Network_Event\<close>: from fragments to listeners.
  \<^item> \<open>Client_Registry\<close>, \<open>Client_Registry_Properties\<close>: ClientRegistry and Client of
    src/code/components/citizen-server-impl. Clients are objects owned by the table of guids and by code
    elsewhere, all other tables are weak references. The steps are what the server does with the registry, removing clients that are
    removed already included; an invariant of all reachable registries gives that slots identify clients, and net ids do as long as no client is
    removed again after its id went to another (\<open>orderly_reachable\<close>); further that the search for
    a net id ends, that removal takes a client out of every lookup and that cached principals are
    never stale; and how a client that reconnects early is lost.
  \<^item> \<open>Resource_Metadata\<close>, \<open>Resource_Constraints\<close>, \<open>Metadata_Properties\<close>: core/src/ResourceMetaDataComponent.cpp,
    core/include/ManifestVersion.h, core/src/ResourceManagerConstraintsComponent.cpp. Entries keep their order,
    parsing a GUID stays inside its string and reads back what was printed, versions are compared by
    their place in the list, and when a constraint is met.
  \<^item> \<open>Client_Deferral\<close>, \<open>Client_Connection\<close>, \<open>Connection_Properties\<close>: ClientDeferral.cpp, the second half of
    InitConnectMethod.cpp and the handshake of GameServer.cpp, in src/code/components/citizen-server-impl. A
    deferral is a record that the callbacks given to resources work on; a connection is its deferral, the
    references that may still answer the request, and the registry. Its steps are calls of resources, timers,
    cancelation, the end of the event and all steps of the registry in between, in any order: a request is answered
    once, a client passes the validation only when all who deferred it are done, and one that was turned away is
    never let in; where it is answered twice, and how a stranger can have a client removed.
  \<^item> \<open>Net_Buffer\<close>: src/code/components/net-base, a record of bytes, position and end flag. Reads are defined only where
    they stay inside the object that is read into, which short reads of small numbers do not.
  \<^item> \<open>Object_Ids\<close>, \<open>Object_Id_Properties\<close>: \<open>SendObjectIds\<close> of the server (state/ServerGameState.cpp) and ObjectIdManager.cpp of
    src/code/components/gta-net-five. The ids that the server gathers and packs into runs are those the game unpacks, and the
    lists of the game never hold an id twice.
  \<^item> \<open>Sync_Entities\<close>, \<open>Sync_Clones\<close>, \<open>Sync_Tick\<close>, \<open>Sync_Frames\<close>, \<open>Sync_Invariant\<close>, \<open>Sync_Steps\<close>: ServerGameState of
    src/code/components/citizen-server-impl (state/ServerGameState.cpp). Entities are objects owned by a list, found through weak
    references by their id; a client has tables of what it was sent. \<open>Sync_Entities\<close> has owners, deletion and clients that leave,
    \<open>Sync_Clones\<close> the packets of clients, \<open>Sync_Tick\<close> the tick, \<open>Sync_Frames\<close> the frames that clients report as received or
    missing. Callbacks for the main thread and the sync thread are queues. \<open>Sync_Invariant\<close> and \<open>Sync_Steps\<close>: an invariant of all
    states that packets, ticks, callbacks, scripts and the registry reach, in any order, as long as scripts create entities only while an id is free
    (\<open>roomy_reachable\<close>; without a free id the code goes on with the id 0). On it rest: \<open>Sync_Lifetime\<close> (ids lead to
    entities one to one, and what is deleted and relevant to nobody goes), \<open>Sync_Acks\<close> and \<open>Sync_Client_Data\<close> (packets are read to
    the end, with room for the acknowledgements; the slots of players in the scope of a client), \<open>Sync_Ownership\<close> (packets of a client
    and entities of others; a client that leaves). \<open>Sync_Resend\<close>: missing frames are sent again.
  \<^item> \<open>World_Grid\<close>, \<open>World_Grid_Properties\<close>: \<open>UpdateWorldGrid\<close> and its companions in the same file, and the game's handler
    (gta-net-five, CloneExperiments.cpp). No sector has two entries; the game's copy follows; when a position leads out of the table.
  \<^item> \<open>Array_Handlers\<close>, \<open>Array_Properties\<close>: \<open>ArrayHandler\<close>, and the game's side (CloneExperiments_ArrayHandler.cpp). Updates reach
    every other client once; the index that leads out of the array; what is never sent.
  \<^item> \<open>Component_Loader\<close>, \<open>Component_Loader_Properties\<close>: src/code/client/citicore, ComponentId.cpp and ComponentLoader.cpp.
    Identifiers are read back from their text; the sort by dependencies ends, cycles or not, and what is needed comes first.

  \<^bold>\<open>Conventions.\<close> Methods keep their names (\<open>_sb\<close> and similar endings separate methods of two classes); the
  object a method works on is an argument and a result. Effects on the outside (packets sent, events
  queued, text printed, files written) are lists in the result. Undefined behaviour is \<open>None\<close>, or a \<open>fault\<close>
  of the machine, so that theorems of the form \<open>\<dots> = Some \<dots>\<close> include memory safety. Integers have their
  width where the code can overflow; times are \<open>int\<close>.

  \<^bold>\<open>Interfaces.\<close> Stated as locales: \<open>ordered_map\<close> and \<open>multimap\<close> (the containers; the latter interpreted for
  principals, objects, names of commands and keys of manifests), \<open>bit_reader\<close>, \<open>bit_writer\<close> and \<open>bit_channel\<close> (what
  packets rely on, interpreted by the bit buffer), \<open>privileges\<close> (a check that ignores case, on which the
  console relies, interpreted by the access control). Code that is not part of src/code, or is generated or vendored, is an argument: the
  JSON parsers and the boost tokenizer, msgpack, the URL library, hash table orders, the script
  runtimes (the external programs of the runtime, the \<open>external\<close> commands of the console), the clock.

  \<^bold>\<open>Fuel and loops.\<close> The one definition with fuel is \<open>exec_env\<close>, the depth to which \<open>exec\<close> may nest: its theorem is for every depth. Loops are structural or have a measure (\<open>burst\<close>, \<open>InvokeDirect\<close>);
  the tokenizer, whose loops end only because the JSON parser consumes what it accepts, and the visit of
  dependencies, which ends because it marks what it enters, are partial functions with a proof that they return. Runs of the resource machine are sequences of steps; the runs
  of given programs state their number of steps, enough for the machine to stop.

  \<^bold>\<open>Not modelled.\<close> Threads: mutexes and atomic counters are dropped, operations are atomic. Of the modelled
  classes: the float accessors and the unused \<open>WriteBitsOld\<close> of the bit buffer, floating-point console
  variables, the print channels of the console, the current-manager pointers and reference calls of
  the resource manager, the events, user data, time-outs and packets of clients, the search for files that match a
  manifest, the authentication in the first half of \<open>initConnect\<close>, the loading of libraries behind the component loader. Everything around: transport (ENet, net library, HTTP and TCP servers), the
  sync trees of OneSync with positions and culling, its natives, script runtimes, file systems and caches, downloads,
  authentication, the launcher, the user interface, and the hooks into the games; these are bound to
  sockets, other libraries, files or the memory layout of the games, or are generated.
\<close>

end
